(* ===== verification/Prelude.thy ===== *)
theory Prelude
  imports Main "HOL-Library.Word"
begin

text \<open>
  Shared vocabulary of the development: the machine types of the 32-bit kernel, the
  characters of its C strings, the reading of a loop that may run forever, and the lemma
  collections the component theories use.

  The kernel is compiled for i386: \<open>size_t\<close>, pointers and \<open>uint32_t\<close> are 32 bits wide,
  \<open>uint64_t\<close> is 64 bits.  They are modelled by words, so that every addition, product
  and shift wraps as it does in the code.  A C string is modelled by the list of its
  characters; the end of the list is the terminating NUL, and a NUL that occurs inside the
  list ends the string too, as it does for the code.
\<close>

unbundle bit_operations_syntax

type_synonym u8 = "8 word"
type_synonym u16 = "16 word"
type_synonym u32 = "32 word"
type_synonym u64 = "64 word"
type_synonym i32 = "32 word"
type_synonym i64 = "64 word"

section \<open>Collections\<close>

named_theorems word_nat_simps \<open>facts that read word operations as operations on nat\<close>
named_theorems inv_intros \<open>operations keep the invariant of their component\<close>
named_theorems frame_simps \<open>reads that an update elsewhere does not change\<close>

section \<open>Words\<close>

lemma unat_or_disjoint:
  fixes a b :: "'a::len word"
  assumes "a AND b = 0" and "unat a + unat b < 2 ^ LENGTH('a)"
  shows "unat (a OR b) = unat a + unat b"
proof -
  have "a + b = a OR b"
    by (rule disjunctive_add_eq_or [OF assms(1)])
  then show ?thesis
    using assms(2) by (metis unat_add_lem)
qed

lemma and_one_unat: "unat ((x :: 'a::len word) AND 1) = unat x mod 2"
proof -
  have "unat (x AND 1) = unat x AND unat (1 :: 'a word)"
    by (rule unsigned_and_eq)
  then show ?thesis
    by (simp add: and_one_eq)
qed

lemma unat_add_no_wrap [word_nat_simps]:
  "unat (a :: 'a::len word) + unat b < 2 ^ LENGTH('a) \<Longrightarrow> unat (a + b) = unat a + unat b"
  by (simp add: unat_add_lem)

lemma unat_mult_no_wrap [word_nat_simps]:
  "unat (a :: 'a::len word) * unat b < 2 ^ LENGTH('a) \<Longrightarrow> unat (a * b) = unat a * unat b"
  by (simp add: unat_mult_lem)

lemma unat_sub_le [word_nat_simps]:
  "(b :: 'a::len word) \<le> a \<Longrightarrow> unat (a - b) = unat a - unat b"
  by (rule unat_sub)

lemma unat_push_bit_no_wrap [word_nat_simps]:
  assumes "unat (a :: 'a::len word) * 2 ^ n < 2 ^ LENGTH('a)"
  shows "unat (push_bit n a) = unat a * 2 ^ n"
proof -
  have "unat (push_bit n a) = unat a * 2 ^ n mod 2 ^ LENGTH('a)"
    by (simp only: unsigned_push_bit_eq take_bit_eq_mod) (simp only: push_bit_eq_mult)
  then show ?thesis using assms by simp
qed

lemma unat_less_lit: "unat (x :: 'a::len word) < 2 ^ LENGTH('a)"
  by (rule unsigned_less)

lemma unat_ucast_u8_u32 [simp]: "unat (ucast (b :: u8) :: u32) = unat b"
  using unat_less_lit [of b] by (simp add: unsigned_ucast_eq take_bit_eq_mod)

lemma ucast_u8_u32_inj [simp]: "(ucast (a :: u8) :: u32) = ucast b \<longleftrightarrow> a = b"
  by (metis unat_ucast_u8_u32 word_unat_eq_iff)

lemma unat_ucast_up32 [simp]: "unat (ucast (n :: u32) :: u64) = unat n"
  using unat_less_lit [of n] by (simp add: unsigned_ucast_eq take_bit_eq_mod)

section \<open>Characters of C strings\<close>

text \<open>
  \<open>cv\<close> is the value of a character as the code's comparisons and subtractions see it.
  The compiler's \<open>char\<close> is signed, so a byte above 127 compares as negative; every
  comparison the code makes against a printable bound rejects such a byte in either
  reading.
\<close>

definition cv :: "char \<Rightarrow> nat" where
  "cv c = of_char c"

abbreviation NUL :: char where
  "NUL \<equiv> CHR 0x00"

text \<open>The part of a character list a C function sees: everything before the first NUL.\<close>

fun cstr :: "string \<Rightarrow> string" where
  "cstr [] = []"
| "cstr (c # cs) = (if c = NUL then [] else c # cstr cs)"

lemma cstr_no_nul [simp]: "NUL \<notin> set (cstr s)"
  by (induction s) auto

lemma cstr_id [simp]: "NUL \<notin> set s \<Longrightarrow> cstr s = s"
  by (induction s) auto

lemma cstr_idem [simp]: "cstr (cstr s) = cstr s"
  by simp

lemma length_cstr_le: "length (cstr s) \<le> length s"
  by (induction s) auto

lemma cv_less_256 [simp]: "cv c < 256"
  by (simp add: cv_def)

lemma cv_inject [simp]: "cv c = cv d \<longleftrightarrow> c = d"
  by (simp add: cv_def)

end
