(* ===== verification/MathUtil.thy ===== *)
theory MathUtil
  imports Prelude
begin

text \<open>
  \<open>src/kernel/lib/math.cpp\<close>: integer helpers, the parsers of hexadecimal and decimal
  numbers, and the shift-and-subtract division the kernel uses because its 32-bit runtime
  has no 64-bit division.  The division is proved equal to \<open>div\<close> and \<open>mod\<close>.
\<close>

section \<open>Signed helpers\<close>

text \<open>A C \<open>int\<close> is a 32-bit word read as two's complement by \<open>sint\<close>.\<close>

definition abs_c :: "i32 \<Rightarrow> u32" where
  "abs_c x = (if 0 \<le> sint x then x else - x)"

definition min_c :: "i32 \<Rightarrow> i32 \<Rightarrow> i32" where
  "min_c a b = (if sint a \<le> sint b then a else b)"

definition max_c :: "i32 \<Rightarrow> i32 \<Rightarrow> i32" where
  "max_c a b = (if sint b \<le> sint a then a else b)"

text \<open>
  The overloads on a pointer compute their element count as \<open>sizeof(nums) / sizeof(int)\<close>,
  which is the size of the pointer, 4, divided by 4: the loop runs once.  \<open>nums\<close> is the
  list of the elements the pointer refers to.
\<close>

definition ptr_count :: nat where
  "ptr_count = 4 div 4"

fun min_loop :: "i32 list \<Rightarrow> nat \<Rightarrow> nat \<Rightarrow> i32 \<Rightarrow> i32" where
  "min_loop nums i 0 m = m"
| "min_loop nums i (Suc n) m =
     min_loop nums (Suc i) n (if sint (nums ! i) < sint m then nums ! i else m)"

definition min_ptr :: "i32 list \<Rightarrow> i32" where
  "min_ptr nums = min_loop nums 0 ptr_count 0x7FFFFFFF"

fun max_loop :: "i32 list \<Rightarrow> nat \<Rightarrow> nat \<Rightarrow> i32 \<Rightarrow> i32" where
  "max_loop nums i 0 m = m"
| "max_loop nums i (Suc n) m =
     max_loop nums (Suc i) n (if sint m < sint (nums ! i) then nums ! i else m)"

definition max_ptr :: "i32 list \<Rightarrow> i32" where
  "max_ptr nums = max_loop nums 0 ptr_count 0x80000000"

definition range_c :: "i32 \<Rightarrow> i32 \<Rightarrow> i32 \<Rightarrow> i32" where
  "range_c num start end' =
     (if sint start \<le> sint num \<and> sint num \<le> sint end' then num
      else if sint num < sint start then start else end')"

lemma range_c_bounds:
  assumes "sint start \<le> sint end'"
  shows "sint start \<le> sint (range_c num start end') \<and> sint (range_c num start end') \<le> sint end'"
  using assms by (auto simp: range_c_def)

lemma range_c_fixed: "sint start \<le> sint n \<Longrightarrow> sint n \<le> sint end' \<Longrightarrow> range_c n start end' = n"
  by (simp add: range_c_def)

section \<open>Parsing numbers\<close>

text \<open>
  \<open>hex_to_uint32\<close> and \<open>hex_to_uint64\<close> are the same text at two widths; \<open>hex_loop\<close> is
  their loop at any width.  An invalid character makes the result 0.
\<close>

fun hex_loop :: "'a::len word \<Rightarrow> string \<Rightarrow> 'a word" where
  "hex_loop r [] = r"
| "hex_loop r (c # cs) =
     (if c = NUL then r
      else let r' = push_bit 4 r in
        if 48 \<le> cv c \<and> cv c \<le> 57 then hex_loop (r' OR of_nat (cv c - 48)) cs
        else if 65 \<le> cv c \<and> cv c \<le> 70 then hex_loop (r' OR of_nat (cv c - 65 + 10)) cs
        else if 97 \<le> cv c \<and> cv c \<le> 102 then hex_loop (r' OR of_nat (cv c - 97 + 10)) cs
        else 0)"

fun skip_0x :: "string \<Rightarrow> string" where
  "skip_0x (a # b # cs) =
     (if a = CHR ''0'' \<and> (b = CHR ''x'' \<or> b = CHR ''X'') then cs else a # b # cs)"
| "skip_0x cs = cs"

definition hex_to_uint32 :: "string \<Rightarrow> u32" where
  "hex_to_uint32 s = hex_loop 0 (skip_0x s)"

definition hex_to_uint64 :: "string \<Rightarrow> u64" where
  "hex_to_uint64 s = hex_loop 0 (skip_0x s)"

fun dec_loop :: "u32 \<Rightarrow> string \<Rightarrow> u32" where
  "dec_loop r [] = r"
| "dec_loop r (c # cs) =
     (if c = NUL then r
      else if 48 \<le> cv c \<and> cv c \<le> 57 then dec_loop (r * 10 + of_nat (cv c - 48)) cs
      else 0)"

definition dec_to_uint32 :: "string \<Rightarrow> u32" where
  "dec_to_uint32 s = dec_loop 0 s"

section \<open>64-bit division\<close>

text \<open>
  One pass over the bits \<open>i - 1, \<dots>, 0\<close> of the dividend, with the quotient and the
  remainder so far.  The code starts it at bit 63, that is with \<open>i = 64\<close>.
\<close>

fun udiv64_loop :: "nat \<Rightarrow> u64 \<Rightarrow> u64 \<Rightarrow> u64 \<Rightarrow> u64 \<Rightarrow> u64 \<times> u64" where
  "udiv64_loop 0 a d q r = (q, r)"
| "udiv64_loop (Suc i) a d q r =
     (let r' = push_bit 1 r OR (drop_bit i a AND 1) in
      if d \<le> r' then udiv64_loop i a d (q OR push_bit i 1) (r' - d)
      else udiv64_loop i a d q r')"

definition udiv64 :: "u64 \<Rightarrow> u64 \<Rightarrow> u64" where
  "udiv64 dividend divisor =
     (if divisor = 0 then 0 else fst (udiv64_loop 64 dividend divisor 0 0))"

fun umod64_loop :: "nat \<Rightarrow> u64 \<Rightarrow> u64 \<Rightarrow> u64 \<Rightarrow> u64" where
  "umod64_loop 0 a d r = r"
| "umod64_loop (Suc i) a d r =
     (let r' = push_bit 1 r OR (drop_bit i a AND 1) in
      umod64_loop i a d (if d \<le> r' then r' - d else r'))"

definition umod64 :: "u64 \<Rightarrow> u64 \<Rightarrow> u64" where
  "umod64 dividend divisor =
     (if divisor = 0 then 0 else umod64_loop 64 dividend divisor 0)"

lemma umod64_loop_snd: "umod64_loop i a d r = snd (udiv64_loop i a d q r)"
  by (induction i arbitrary: q r) (simp_all add: Let_def)

text \<open>
  The step of the remainder: it doubles and takes in the next bit, and does not overflow,
  because it is at most the part of the dividend read so far.
\<close>

lemma shift_in_bit:
  fixes a r :: u64
  assumes "unat r \<le> unat a div 2 ^ Suc i"
  shows "unat (push_bit 1 r OR (drop_bit i a AND 1)) = 2 * unat r + unat a div 2 ^ i mod 2"
    and "2 * unat r + unat a div 2 ^ i mod 2 \<le> unat a div 2 ^ i"
proof -
  have split: "unat a div 2 ^ i = 2 * (unat a div 2 ^ Suc i) + unat a div 2 ^ i mod 2"
    by (simp add: power_Suc2 div_mult2_eq del: power_Suc)
  show le: "2 * unat r + unat a div 2 ^ i mod 2 \<le> unat a div 2 ^ i"
    using assms split by linarith
  have "unat a div 2 ^ i \<le> unat a" by (rule div_le_dividend)
  moreover have "unat a < 2 ^ 64" using unat_less_lit [of a] by simp
  ultimately have lt: "unat a div 2 ^ i < 2 ^ 64" by linarith
  have sh: "unat (push_bit 1 r) = 2 * unat r"
    using le lt unat_push_bit_no_wrap [of r 1] by simp
  have bt: "unat (drop_bit i a AND 1) = unat a div 2 ^ i mod 2"
    by (simp only: and_one_unat unat_drop_bit_eq) (simp only: drop_bit_eq_div)
  have "push_bit 1 r AND 1 = 0"
    by (simp add: and_one_eq flip: even_iff_mod_2_eq_zero)
  then have dj: "push_bit 1 r AND (drop_bit i a AND 1) = 0"
    by (simp only: and.left_commute [of "push_bit 1 r"]) simp
  show "unat (push_bit 1 r OR (drop_bit i a AND 1)) = 2 * unat r + unat a div 2 ^ i mod 2"
    using unat_or_disjoint [OF dj] sh bt le lt by simp
qed

lemma set_quotient_bit:
  fixes q :: u64
  assumes "unat q mod 2 ^ Suc i = 0" and "i < 64"
  shows "unat (q OR push_bit i 1) = unat q + 2 ^ i"
proof -
  have p: "unat (push_bit i (1 :: u64)) = 2 ^ i"
    using power_strict_increasing [OF assms(2), of "2 :: nat"]
    by (subst unat_push_bit_no_wrap) simp_all
  have "unat (take_bit (Suc i) q) = unat q mod 2 ^ Suc i"
    by (simp only: unsigned_take_bit_eq) (simp only: take_bit_eq_mod)
  then have "unat (take_bit (Suc i) q) = 0" using assms(1) by simp
  then have tq: "take_bit (Suc i) q = 0" by (simp only: unsigned_eq_0_iff)
  have dj: "q AND push_bit i 1 = 0"
  proof (rule bit_eqI)
    fix n
    have "bit q i = bit (take_bit (Suc i) q) i" by (simp add: bit_simps)
    then have "\<not> bit q i" using tq by simp
    then show "bit (q AND push_bit i 1) n \<longleftrightarrow> bit (0 :: u64) n"
      by (auto simp: bit_simps)
  qed
  obtain k where k: "unat q = 2 ^ Suc i * k"
    using assms(1) by (metis mod_eq_0_iff_dvd dvd_def)
  have "unat q + 2 ^ i < 2 ^ 64"
  proof -
    have e: "(2 :: nat) ^ Suc i * 2 ^ (63 - i) = 2 ^ 64"
      using assms(2) by (simp only: power_add [symmetric]) simp
    have "unat q < 2 ^ 64" using unat_less_lit [of q] by simp
    then have "2 ^ Suc i * k < 2 ^ Suc i * 2 ^ (63 - i)" by (simp only: e k)
    then have "Suc k \<le> 2 ^ (63 - i)" by (simp only: mult_less_cancel1 Suc_le_eq)
    then have "2 ^ Suc i * Suc k \<le> (2 :: nat) ^ Suc i * 2 ^ (63 - i)"
      by (rule mult_le_mono2)
    also note e
    finally have "2 ^ Suc i + unat q \<le> 2 ^ 64"
      by (simp only: mult_Suc_right k)
    moreover have "0 < (2 :: nat) ^ i" by simp
    ultimately show ?thesis by (simp only: power_Suc)
  qed
  then show ?thesis using unat_or_disjoint [OF dj] p by simp
qed

text \<open>
  The loop invariant: the quotient so far is a multiple of \<open>2 ^ i\<close>, and with the
  remainder it accounts for the part of the dividend read so far.
\<close>

lemma udiv64_loop_correct:
  assumes "i \<le> 64" and "unat q mod 2 ^ i = 0"
    and "unat q div 2 ^ i * unat d + unat r = unat a div 2 ^ i" and "r < d"
  shows "unat (fst (udiv64_loop i a d q r)) * unat d + unat (snd (udiv64_loop i a d q r)) = unat a
    \<and> snd (udiv64_loop i a d q r) < d"
  using assms
proof (induction i arbitrary: q r)
  case 0
  then show ?case by simp
next
  case (Suc i)
  define r' where "r' = push_bit 1 r OR (drop_bit i a AND 1)"
  have le: "unat r \<le> unat a div 2 ^ Suc i" using Suc.prems(3) by linarith
  have r': "unat r' = 2 * unat r + unat a div 2 ^ i mod 2"
    unfolding r'_def by (rule shift_in_bit(1) [OF le])
  obtain k where k: "unat q = 2 ^ Suc i * k"
    using Suc.prems(2) by (metis mod_eq_0_iff_dvd dvd_def)
  have qd: "unat q div 2 ^ Suc i = k" "unat q div 2 ^ i = 2 * k" "unat q mod 2 ^ i = 0"
    using k by (simp_all add: mult.assoc)
  have step: "2 * k * unat d + unat r' = unat a div 2 ^ i"
  proof -
    have "unat a div 2 ^ i = 2 * (unat a div 2 ^ Suc i) + unat a div 2 ^ i mod 2"
      by (simp add: power_Suc2 div_mult2_eq del: power_Suc)
    then show ?thesis using Suc.prems(3) qd(1) r' by (simp add: algebra_simps)
  qed
  have i: "i \<le> 64" "i < 64" using Suc.prems(1) by simp_all
  show ?case
  proof (cases "d \<le> r'")
    case True
    let ?q = "q OR push_bit i 1"
    have q': "unat ?q = 2 ^ i * (2 * k + 1)"
      using set_quotient_bit [OF Suc.prems(2) i(2)] k by (simp add: algebra_simps)
    have sub: "unat (r' - d) = unat r' - unat d" using True by (rule unat_sub_le)
    have dle: "unat d \<le> unat r'" using True by (simp add: word_le_nat_alt)
    have "unat r < unat d" using Suc.prems(4) by (simp add: word_less_nat_alt)
    then have lt: "r' - d < d" using r' sub by (simp add: word_less_nat_alt)
    have m: "unat ?q mod 2 ^ i = 0" "unat ?q div 2 ^ i = 2 * k + 1"
      unfolding q' by simp_all
    have acc: "unat ?q div 2 ^ i * unat d + unat (r' - d) = unat a div 2 ^ i"
      using step dle sub m(2) by (simp add: algebra_simps)
    from Suc.IH [OF i(1) m(1) acc lt] True show ?thesis
      by (simp only: udiv64_loop.simps Let_def r'_def [symmetric] if_True)
  next
    case False
    then have "r' < d" by simp
    from Suc.IH [OF i(1) qd(3) _ this] step qd(2) False show ?thesis
      by (simp only: udiv64_loop.simps Let_def r'_def [symmetric] if_False)
  qed
qed

lemma udiv64_umod64:
  assumes "divisor \<noteq> 0"
  shows "unat (udiv64 a divisor) * unat divisor + unat (umod64 a divisor) = unat a
    \<and> umod64 a divisor < divisor"
proof -
  have "unat a div 2 ^ 64 = 0" using unat_less_lit [of a] by simp
  then have "unat (fst (udiv64_loop 64 a divisor 0 0)) * unat divisor
      + unat (snd (udiv64_loop 64 a divisor 0 0)) = unat a
    \<and> snd (udiv64_loop 64 a divisor 0 0) < divisor"
    using assms by (intro udiv64_loop_correct) (auto simp: word_neq_0_conv)
  then show ?thesis
    using assms by (simp add: udiv64_def umod64_def umod64_loop_snd [of _ _ _ _ 0])
qed

lemma udiv64_eq_div [simp]: "udiv64 a d = a div d"
proof (cases "d = 0")
  case True
  then show ?thesis by (simp add: udiv64_def)
next
  case False
  have lt: "unat (umod64 a d) < unat d"
    using udiv64_umod64 [OF False] by (simp add: word_less_nat_alt)
  have "unat a = unat (udiv64 a d) * unat d + unat (umod64 a d)"
    using udiv64_umod64 [OF False] by simp
  then have "unat (udiv64 a d) = unat a div unat d"
    using lt by simp
  then show ?thesis by (simp add: word_unat_eq_iff unat_div)
qed

lemma umod64_eq_mod: "d \<noteq> 0 \<Longrightarrow> umod64 a d = a mod d"
proof -
  assume d: "d \<noteq> 0"
  have lt: "unat (umod64 a d) < unat d"
    using udiv64_umod64 [OF d] by (simp add: word_less_nat_alt)
  have "unat a = unat (udiv64 a d) * unat d + unat (umod64 a d)"
    using udiv64_umod64 [OF d] by simp
  then have "unat (umod64 a d) = unat a mod unat d"
    using lt by simp
  then show ?thesis by (simp add: word_unat_eq_iff unat_mod)
qed

text \<open>
  C23: the shift-and-subtract loops compute the exact quotient and remainder of two 64-bit
  numbers, for every dividend and every divisor, and both return 0 for a zero divisor; in
  particular the doubling of the partial remainder never overflows, even for divisors above
  \<open>2 ^ 63\<close>.
\<close>

theorem udiv64_umod64_exact:
  "udiv64 a d = (if d = 0 then 0 else a div d) \<and> umod64 a d = (if d = 0 then 0 else a mod d)"
  by (auto simp: umod64_eq_mod) (simp add: umod64_def)

end
