(* ===== verification/StringUtil.thy ===== *)
theory StringUtil
  imports MathUtil
begin

text \<open>
  \<open>src/kernel/lib/string_util.cpp\<close>: comparison, length and copying of C strings, the word
  splitter of the terminal, and the conversion of numbers to text.  Functions that write into
  a fixed static buffer return \<open>None\<close> where the code would run past its end.
\<close>

section \<open>Comparison and copying\<close>

fun strcmp :: "string \<Rightarrow> string \<Rightarrow> int" where
  "strcmp (a # as) (b # bs) =
     (if a \<noteq> NUL \<and> a = b then strcmp as bs else int (cv a) - int (cv b))"
| "strcmp (a # as) [] = int (cv a)"
| "strcmp [] (b # bs) = - int (cv b)"
| "strcmp [] [] = 0"

fun strlen :: "string \<Rightarrow> nat" where
  "strlen [] = 0"
| "strlen (c # cs) = (if c = NUL then 0 else Suc (strlen cs))"

text \<open>Copying stops after the source's NUL, whatever the destination held.\<close>

fun strcpy :: "string \<Rightarrow> string \<Rightarrow> string" where
  "strcpy dest [] = []"
| "strcpy dest (c # cs) = (if c = NUL then [] else c # strcpy (tl dest) cs)"

text \<open>A null pointer is \<open>None\<close>; \<open>dest\<close> is returned as it is when either is null.\<close>

fun strcat_append :: "string \<Rightarrow> string \<Rightarrow> string" where
  "strcat_append [] src = cstr src"
| "strcat_append (d # ds) src = (if d = NUL then cstr src else d # strcat_append ds src)"

definition strcat :: "string option \<Rightarrow> string option \<Rightarrow> string option" where
  "strcat dest src =
     (case dest of None \<Rightarrow> None
      | Some d \<Rightarrow> (case src of None \<Rightarrow> Some d | Some s \<Rightarrow> Some (strcat_append d s)))"

lemma strlen_cstr [simp]: "strlen s = length (cstr s)"
  by (induction s) auto

lemma strcpy_cstr [simp]: "strcpy d s = cstr s"
  by (induction d s rule: strcpy.induct) auto

lemma strcat_append_cstr [simp]: "strcat_append d s = cstr d @ cstr s"
  by (induction d) auto

lemma cv_NUL [simp]: "cv NUL = 0"
  by (simp add: cv_def)

lemma cv_eq_0 [simp]: "cv c = 0 \<longleftrightarrow> c = NUL"
  by (metis cv_inject cv_NUL)

lemma strcmp_eq_0: "strcmp s t = 0 \<longleftrightarrow> cstr s = cstr t"
  by (induction s t rule: strcmp.induct) (auto split: if_splits)

lemma strcmp_antisym: "strcmp t s = - strcmp s t"
  by (induction s t rule: strcmp.induct) auto

lemma strcmp_bound: "\<bar>strcmp s t\<bar> \<le> 255"
proof (induction s t rule: strcmp.induct)
  case (1 a as b bs)
  then show ?case using cv_less_256 [of a] cv_less_256 [of b] by (auto simp del: cv_less_256)
next
  case (2 a as)
  then show ?case using cv_less_256 [of a] by (simp del: cv_less_256)
next
  case (3 b bs)
  then show ?case using cv_less_256 [of b] by (simp del: cv_less_256)
qed simp

text \<open>The sign is the order of the two strings, compared byte by byte.\<close>

lemma strcmp_less:
  "strcmp s t < 0 \<longleftrightarrow> (map cv (cstr s), map cv (cstr t)) \<in> lexord {(x, y). x < y}"
  by (induction s t rule: strcmp.induct) (auto simp flip: neq0_conv)

section \<open>Words\<close>

definition is_ws :: "char \<Rightarrow> bool" where
  "is_ws c \<longleftrightarrow> c = CHR '' '' \<or> c = CHR 0x09 \<or> c = CHR 0x0A"

definition in_word :: "char \<Rightarrow> bool" where
  "in_word c \<longleftrightarrow> c \<noteq> NUL \<and> \<not> is_ws c"

definition at_end :: "string \<Rightarrow> bool" where
  "at_end s \<longleftrightarrow> (case s of [] \<Rightarrow> True | c # _ \<Rightarrow> c = NUL)"

definition get_first_word :: "string \<Rightarrow> string option" where
  "get_first_word s =
     (let w = takeWhile in_word (dropWhile is_ws s)
      in if length w < 256 then Some w else None)"

definition get_remaining_string :: "string \<Rightarrow> string option" where
  "get_remaining_string s =
     (let s1 = dropWhile is_ws s;
          s2 = dropWhile in_word s1;
          s3 = dropWhile is_ws s2;
          rest = takeWhile (\<lambda>c. c \<noteq> NUL) s3
      in if length rest < 1024 then Some rest else None)"

lemma at_end_simps [simp]: "at_end []" "at_end (c # cs) \<longleftrightarrow> c = NUL"
  by (simp_all add: at_end_def)

lemma shorter_after_word:
  assumes "\<not> at_end (dropWhile is_ws s)"
  shows "length (dropWhile in_word (dropWhile is_ws s)) < length s"
proof -
  obtain c cs where s1: "dropWhile is_ws s = c # cs"
    using assms by (cases "dropWhile is_ws s") auto
  then have "\<not> is_ws c" by (metis hd_dropWhile list.distinct(1) list.sel(1))
  then have "in_word c" using assms s1 by (simp add: in_word_def)
  then have "length (dropWhile in_word (dropWhile is_ws s)) \<le> length cs"
    using s1 length_dropWhile_le [of in_word cs] by simp
  also have "\<dots> < length (dropWhile is_ws s)" using s1 by simp
  also have "\<dots> \<le> length s" by (rule length_dropWhile_le)
  finally show ?thesis .
qed

text \<open>
  The loop of \<open>get_word_at_index\<close>: \<open>s\<close> is the string from position \<open>i\<close> on, \<open>cur\<close> the
  number of words passed.  A word is cut to the 255 characters its buffer holds.
\<close>

function word_at_loop :: "string \<Rightarrow> int \<Rightarrow> int \<Rightarrow> string option" where
  "word_at_loop s index cur =
     (if at_end s then None
      else let s1 = dropWhile is_ws s in
        if at_end s1 then None
        else if cur = index then Some (take 255 (takeWhile in_word s1))
        else word_at_loop (dropWhile in_word s1) index (cur + 1))"
  by pat_completeness auto
termination
  by (relation "measure (\<lambda>(s, _, _). length s)") (auto simp: shorter_after_word)

definition get_word_at_index :: "string \<Rightarrow> int \<Rightarrow> string option" where
  "get_word_at_index s index = word_at_loop s index 0"

function words_loop :: "string \<Rightarrow> nat \<Rightarrow> nat" where
  "words_loop s count =
     (if at_end s then count
      else let s1 = dropWhile is_ws s in
        if at_end s1 then words_loop s1 count
        else words_loop (dropWhile in_word s1) (Suc count))"
  by pat_completeness auto
termination
proof (relation "measure (\<lambda>(s, _). if at_end s then 0 else Suc (length s))", goal_cases)
  case (3 s count s1)
  then show ?case using shorter_after_word [of s] by auto
qed auto

definition get_words :: "string \<Rightarrow> nat" where
  "get_words s = words_loop s 0"

declare word_at_loop.simps [simp del] words_loop.simps [simp del]

text \<open>The specification: the maximal runs of word characters, in order.\<close>

function words_of :: "string \<Rightarrow> string list" where
  "words_of s =
     (let s1 = dropWhile is_ws s in
      if at_end s1 then []
      else takeWhile in_word s1 # words_of (dropWhile in_word s1))"
  by pat_completeness auto
termination
  by (relation "measure length") (auto simp: shorter_after_word)

declare words_of.simps [simp del]

lemma at_end_dropWhile [simp]: "at_end s \<Longrightarrow> at_end (dropWhile is_ws s)"
  by (cases s) (auto simp: is_ws_def)

lemma words_of_at_end [simp]: "at_end s \<Longrightarrow> words_of s = []"
  by (simp add: words_of.simps [of s])

lemma words_loop_eq: "words_loop s count = count + length (words_of s)"
proof (induction s count rule: words_loop.induct)
  case (1 s count)
  show ?case
  proof (cases "at_end s \<or> at_end (dropWhile is_ws s)")
    case True
    then show ?thesis
      by (auto simp: words_loop.simps [of s] words_loop.simps [of "dropWhile is_ws s"]
          words_of.simps [of s])
  next
    case False
    with 1 show ?thesis
      by (simp add: words_loop.simps [of s] words_of.simps [of s] Let_def)
  qed
qed

lemma word_at_loop_eq:
  "cur \<le> index \<Longrightarrow> word_at_loop s index cur =
     (if nat (index - cur) < length (words_of s)
      then Some (take 255 (words_of s ! nat (index - cur))) else None)"
proof (induction s index cur rule: word_at_loop.induct)
  case (1 s index cur)
  show ?case
  proof (cases "at_end s \<or> at_end (dropWhile is_ws s) \<or> cur = index")
    case True
    then show ?thesis
      by (auto simp: word_at_loop.simps [of s] words_of.simps [of s] Let_def)
  next
    case False
    then have "cur < index" using 1(2) by simp
    then have "nat (index - cur) = Suc (nat (index - (cur + 1)))" by linarith
    with False 1 show ?thesis
      by (simp add: word_at_loop.simps [of s] words_of.simps [of s] Let_def)
  qed
qed

lemma word_at_loop_neg: "index < cur \<Longrightarrow> word_at_loop s index cur = None"
proof (induction s index cur rule: word_at_loop.induct)
  case (1 s index cur)
  then show ?case by (auto simp: word_at_loop.simps [of s] Let_def)
qed


lemma get_first_word_eq:
  "get_first_word s =
     (case words_of s of [] \<Rightarrow> Some []
      | w # _ \<Rightarrow> if length w < 256 then Some w else None)"
proof (cases "at_end (dropWhile is_ws s)")
  case True
  then have "takeWhile in_word (dropWhile is_ws s) = []"
    by (cases "dropWhile is_ws s") (auto simp: in_word_def simp del: dropWhile_eq_Nil_conv)
  with True show ?thesis by (simp add: get_first_word_def words_of.simps [of s] Let_def)
next
  case False
  then show ?thesis by (simp add: get_first_word_def words_of.simps [of s] Let_def)
qed

lemma takeWhile_in_word: "filter in_word (takeWhile in_word s) = takeWhile in_word s"
  by (induction s) auto

lemma filter_skip_ws: "filter in_word (cstr (dropWhile is_ws s)) = filter in_word (cstr s)"
  by (induction s) (auto simp: in_word_def is_ws_def)

lemma cstr_word: "cstr s = takeWhile in_word s @ cstr (dropWhile in_word s)"
  by (induction s) (auto simp: in_word_def)

lemma cstr_at_end: "at_end s \<Longrightarrow> cstr s = []"
  by (cases s) auto

lemma words_of_concat: "concat (words_of s) = filter in_word (cstr s)"
proof (induction s rule: words_of.induct)
  case (1 s)
  let ?s1 = "dropWhile is_ws s"
  have f: "filter in_word (cstr s) = filter in_word (cstr ?s1)"
    by (simp add: filter_skip_ws)
  show ?case
  proof (cases "at_end ?s1")
    case True
    then show ?thesis using f by (simp add: words_of.simps [of s] Let_def cstr_at_end)
  next
    case False
    have "filter in_word (cstr ?s1)
        = takeWhile in_word ?s1 @ filter in_word (cstr (dropWhile in_word ?s1))"
      by (subst cstr_word) (simp add: takeWhile_in_word)
    then show ?thesis using False f 1 by (simp add: words_of.simps [of s] Let_def)
  qed
qed


section \<open>Text to a signed number\<close>

text \<open>
  The null pointer is \<open>None\<close>.  The accumulator is a signed 32-bit \<open>int\<close>; on overflow it is
  read modulo \<open>2 ^ 32\<close>, as the compiled code leaves it.
\<close>

fun str_to_int_loop :: "i32 \<Rightarrow> string \<Rightarrow> i32" where
  "str_to_int_loop r [] = r"
| "str_to_int_loop r (c # cs) =
     (if c = NUL then r
      else if cv c < 48 \<or> 57 < cv c then - 1
      else str_to_int_loop (r * 10 + of_nat (cv c - 48)) cs)"

definition str_to_int :: "string option \<Rightarrow> i32" where
  "str_to_int s =
     (case s of None \<Rightarrow> - 1 | Some str \<Rightarrow> if at_end str then - 1 else str_to_int_loop 0 str)"

section \<open>Numbers to text\<close>

text \<open>
  The digits are written from the right into a buffer with \<open>room\<close> characters left; the code
  would write below the buffer when it runs out (\<open>None\<close>), and so would a digit above 15.
\<close>

definition digit_char :: "nat \<Rightarrow> char option" where
  "digit_char d = (if d < 16 then Some (''0123456789ABCDEF'' ! d) else None)"

fun utoa_loop :: "nat \<Rightarrow> u64 \<Rightarrow> u64 \<Rightarrow> string \<Rightarrow> string option" where
  "utoa_loop 0 value base acc = (if value = 0 then Some acc else None)"
| "utoa_loop (Suc room) value base acc =
     (if value = 0 then Some acc
      else case digit_char (unat (umod64 value base)) of None \<Rightarrow> None
        | Some c \<Rightarrow> utoa_loop room (udiv64 value base) base (c # acc))"

definition utoa_base :: "u64 \<Rightarrow> u64 \<Rightarrow> string option" where
  "utoa_base value base = (if value = 0 then Some ''0'' else utoa_loop 64 value base [])"

definition itoa_base :: "i64 \<Rightarrow> u64 \<Rightarrow> string option" where
  "itoa_base value base =
     (if sint value < 0 then map_option (Cons (CHR ''-'')) (utoa_base (- value) base)
      else utoa_base value base)"

text \<open>
  The overloads: \<open>_s\<close> the signed and \<open>_u\<close> the unsigned argument types of 8, 16, 32 and 64
  bits.  \<open>hex_to_string\<close> of an \<open>int64_t\<close> goes through the unsigned conversion, unlike the
  narrower signed types.
\<close>

definition num_to_string_s :: "'a::len word \<Rightarrow> string option" where
  "num_to_string_s num = itoa_base (scast num) 10"

definition num_to_string_u :: "'a::len word \<Rightarrow> string option" where
  "num_to_string_u num = utoa_base (ucast num) 10"

definition hex_to_string_s :: "'a::len word \<Rightarrow> string option" where
  "hex_to_string_s num = itoa_base (scast num) 16"

definition hex_to_string_u :: "'a::len word \<Rightarrow> string option" where
  "hex_to_string_u num = utoa_base (ucast num) 16"

definition hex_to_string_i64 :: "i64 \<Rightarrow> string option" where
  "hex_to_string_i64 num = utoa_base num 16"

text \<open>
  The specification: \<open>digits b n\<close> are the digits of \<open>n\<close> in base \<open>b\<close>, \<open>horner\<close> reads them
  back.
\<close>

fun digits :: "nat \<Rightarrow> nat \<Rightarrow> nat list" where
  "digits b n = (if n = 0 \<or> b \<le> 1 then [] else digits b (n div b) @ [n mod b])"

declare digits.simps [simp del]

definition horner :: "nat \<Rightarrow> nat list \<Rightarrow> nat" where
  "horner b ds = foldl (\<lambda>a d. a * b + d) 0 ds"

lemma horner_digits: "1 < b \<Longrightarrow> horner b (digits b n) = n"
proof (induction b n rule: digits.induct)
  case (1 b n)
  then show ?case by (subst digits.simps) (auto simp: horner_def)
qed

lemma digits_less: "1 < b \<Longrightarrow> d \<in> set (digits b n) \<Longrightarrow> d < b"
proof (induction b n rule: digits.induct)
  case (1 b n)
  then show ?case by (subst (asm) (2) digits.simps) (auto split: if_splits)
qed

definition hexch :: "nat \<Rightarrow> char" where
  "hexch d = ''0123456789ABCDEF'' ! d"

lemma utoa_loop_eq:
  assumes "1 < unat base" and "unat base \<le> 16" and "unat v < 2 ^ room"
  shows "utoa_loop room v base acc = Some (map hexch (digits (unat base) (unat v)) @ acc)"
  using assms(3)
proof (induction room arbitrary: v acc)
  case 0
  then show ?case by (simp add: digits.simps unsigned_eq_0_iff)
next
  case (Suc room)
  have base: "base \<noteq> 0" using assms(1) by auto
  show ?case
  proof (cases "v = 0")
    case True
    then show ?thesis by (simp add: digits.simps)
  next
    case False
    have "unat v div unat base \<le> unat v div 2"
      using assms(1) by (intro div_le_mono2) auto
    then have small: "unat (udiv64 v base) < 2 ^ room"
      using Suc.prems by (simp add: unat_div)
    have m: "unat (umod64 v base) = unat v mod unat base"
      using base by (simp add: umod64_eq_mod unat_mod)
    then have "unat (umod64 v base) < 16"
      using assms(1,2) mod_less_divisor [of "unat base" "unat v"] by linarith
    then have "utoa_loop (Suc room) v base acc
        = utoa_loop room (udiv64 v base) base (hexch (unat v mod unat base) # acc)"
      using False m by (simp add: digit_char_def hexch_def)
    also have "\<dots> = Some (map hexch (digits (unat base) (unat v div unat base))
        @ hexch (unat v mod unat base) # acc)"
      using Suc.IH [OF small] by (simp add: unat_div)
    also have "\<dots> = Some (map hexch (digits (unat base) (unat v)) @ acc)"
      using False assms(1) by (subst (2) digits.simps) (simp add: unsigned_eq_0_iff)
    finally show ?thesis .
  qed
qed

lemma utoa_base_eq:
  assumes "1 < unat base" and "unat base \<le> 16"
  shows "utoa_base v base =
    Some (if v = 0 then ''0'' else map hexch (digits (unat base) (unat v)))"
  using utoa_loop_eq [OF assms, of v 64 "[]"] unat_less_lit [of v]
  by (simp add: utoa_base_def)


section \<open>Round trips\<close>

lemma hexch_cases:
  "d < 16 \<Longrightarrow> cv (hexch d) = (if d < 10 then 48 + d else 55 + d)"
  "d < 16 \<Longrightarrow> hexch d \<noteq> CHR ''x'' \<and> hexch d \<noteq> CHR ''X'' \<and> hexch d \<noteq> NUL"
proof -
  have "\<forall>d \<in> set [0..<16]. cv (hexch d) = (if d < 10 then 48 + d else 55 + d)
      \<and> hexch d \<noteq> CHR ''x'' \<and> hexch d \<noteq> CHR ''X'' \<and> hexch d \<noteq> NUL"
    unfolding hexch_def cv_def by code_simp
  then show "d < 16 \<Longrightarrow> cv (hexch d) = (if d < 10 then 48 + d else 55 + d)"
    "d < 16 \<Longrightarrow> hexch d \<noteq> CHR ''x'' \<and> hexch d \<noteq> CHR ''X'' \<and> hexch d \<noteq> NUL"
    by simp_all
qed

lemma push_bit_4_or:
  fixes r :: "'a::len word"
  assumes "d < 16"
  shows "push_bit 4 r OR of_nat d = r * 16 + of_nat d"
proof -
  have "push_bit 4 r AND of_nat d = 0"
  proof (rule bit_eqI)
    fix n
    have "\<not> bit d n" if "4 \<le> n"
    proof -
      have "(2 :: nat) ^ 4 \<le> 2 ^ n" using that by (rule power_increasing) simp
      then have "d div 2 ^ n = 0" using assms by simp
      then show ?thesis by (simp add: bit_iff_odd)
    qed
    then show "bit (push_bit 4 r AND of_nat d) n \<longleftrightarrow> bit (0 :: 'a word) n"
      by (auto simp: bit_simps)
  qed
  then have "push_bit 4 r + of_nat d = push_bit 4 r OR of_nat d"
    by (rule disjunctive_add_eq_or)
  then show ?thesis by (simp add: push_bit_eq_mult)
qed

lemma hex_loop_digits:
  fixes r :: "'a::len word"
  shows "\<forall>d \<in> set ds. d < 16 \<Longrightarrow>
    hex_loop r (map hexch ds) = foldl (\<lambda>a d. a * 16 + of_nat d) r ds"
proof (induction ds arbitrary: r)
  case Nil
  then show ?case by simp
next
  case (Cons d ds)
  then have d: "d < 16" by simp
  have step: "hex_loop r (map hexch (d # ds)) = hex_loop (push_bit 4 r OR of_nat d) (map hexch ds)"
    using hexch_cases [OF d] d by (auto simp: Let_def)
  show ?case unfolding step using Cons push_bit_4_or [OF d, of r] by simp
qed

lemma dec_loop_digits:
  "\<forall>d \<in> set ds. d < 10 \<Longrightarrow> dec_loop r (map hexch ds) = foldl (\<lambda>a d. a * 10 + of_nat d) r ds"
proof (induction ds arbitrary: r)
  case Nil
  then show ?case by simp
next
  case (Cons d ds)
  then have "d < 10" "d < 16" by simp_all
  then show ?case using Cons hexch_cases [of d] by simp
qed

lemma foldl_of_nat:
  "foldl (\<lambda>a d. a * of_nat b + of_nat d) (of_nat r) ds =
   (of_nat (foldl (\<lambda>a d. a * b + d) r ds) :: 'a::len word)"
proof (induction ds arbitrary: r)
  case (Cons d ds)
  then show ?case using Cons [of "r * b + d"] by simp
qed simp

lemma foldl_horner:
  assumes "1 < b"
  shows "foldl (\<lambda>a d. a * of_nat b + of_nat d) 0 (digits b n) = (of_nat n :: 'a::len word)"
  using foldl_of_nat [of b 0 "digits b n", where 'a = 'a] horner_digits [OF assms, of n]
  by (simp add: horner_def)

lemma skip_0x_digits: "\<forall>d \<in> set ds. d < 16 \<Longrightarrow> skip_0x (map hexch ds) = map hexch ds"
  using hexch_cases(2) by (cases "map hexch ds" rule: skip_0x.cases) auto


lemma hex_roundtrip:
  assumes "unat v < 2 ^ LENGTH('a::len)"
  shows "hex_loop (0 :: 'a word) (skip_0x (the (utoa_base v 16))) = of_nat (unat v)"
proof (cases "v = 0")
  case True
  then show ?thesis using hex_loop_digits [of "[0]" "0 :: 'a word"] by (simp add: utoa_base_def hexch_def)
next
  case False
  have d: "\<forall>d \<in> set (digits 16 (unat v)). d < 16" using digits_less [of 16] by simp
  show ?thesis
    using False utoa_base_eq [of 16 v] skip_0x_digits [OF d] hex_loop_digits [OF d, of "0 :: 'a word"]
      foldl_horner [of 16 "unat v", where 'a = 'a] by simp
qed

lemma dec_roundtrip: "unat v < 2 ^ 32 \<Longrightarrow> dec_to_uint32 (the (utoa_base v 10)) = of_nat (unat v)"
proof (cases "v = 0")
  case True
  then show ?thesis by (simp add: utoa_base_def dec_to_uint32_def cv_def)
next
  case False
  have d: "\<forall>d \<in> set (digits 10 (unat v)). d < 10" using digits_less [of 10] by simp
  show ?thesis
    using False utoa_base_eq [of 10 v] dec_loop_digits [OF d, of 0] foldl_horner [of 10 "unat v"]
    by (simp add: dec_to_uint32_def)
qed



lemma str_to_int_loop_digits:
  "\<forall>d \<in> set ds. d < 10 \<Longrightarrow>
   str_to_int_loop r (map hexch ds) = foldl (\<lambda>a d. a * 10 + of_nat d) r ds"
proof (induction ds arbitrary: r)
  case Nil
  then show ?case by simp
next
  case (Cons d ds)
  then have "d < 10" "d < 16" by simp_all
  then show ?case using Cons hexch_cases [of d] by simp
qed

lemma str_to_int_roundtrip: "str_to_int (num_to_string_u (n :: u32)) = n"
proof (cases "n = 0")
  case True
  then show ?thesis by (simp add: num_to_string_u_def utoa_base_def str_to_int_def cv_def)
next
  case False
  have d: "\<forall>d \<in> set (digits 10 (unat n)). d < 10" using digits_less [of 10] by simp
  have ne: "digits 10 (unat n) \<noteq> []"
    using False by (subst digits.simps) (simp add: unsigned_eq_0_iff)
  then obtain x xs where x: "digits 10 (unat n) = x # xs" by (cases "digits 10 (unat n)") auto
  then have "hexch x \<noteq> NUL" using d hexch_cases(2) [of x] by simp
  then have "\<not> at_end (map hexch (digits 10 (unat n)))" using x by simp
  moreover have "(ucast n :: u64) \<noteq> 0"
    using False unat_ucast_up32 [of n] by (metis unsigned_eq_0_iff)
  ultimately show ?thesis
    using utoa_base_eq [of 10 "ucast n"] str_to_int_loop_digits [OF d, of 0]
      foldl_horner [of 10 "unat n", where 'a = 32]
    by (simp add: num_to_string_u_def str_to_int_def)
qed

end
