(* ===== verification/Memory.thy ===== *)
theory Memory
  imports Prelude
begin

text \<open>
  Byte-addressed memory and \<open>src/kernel/lib/mem_util.cpp\<close>: \<open>memset\<close>, \<open>memcpy\<close>,
  \<open>memcmp\<close> and \<open>align_up\<close>, and the little-endian 32-bit accesses that the kernel's
  structures compile to.  Addresses wrap at \<open>2 ^ 32\<close>, as pointers do.
\<close>

type_synonym mem = "u32 \<Rightarrow> u8"

section \<open>Word accesses\<close>

definition read32 :: "mem \<Rightarrow> u32 \<Rightarrow> u32" where
  "read32 m a = ucast (m a) OR push_bit 8 (ucast (m (a + 1)))
     OR push_bit 16 (ucast (m (a + 2))) OR push_bit 24 (ucast (m (a + 3)))"

definition write32 :: "mem \<Rightarrow> u32 \<Rightarrow> u32 \<Rightarrow> mem" where
  "write32 m a v = m(a := ucast v, a + 1 := ucast (drop_bit 8 v),
     a + 2 := ucast (drop_bit 16 v), a + 3 := ucast (drop_bit 24 v))"

text \<open>\<open>in_rg x a n\<close>: the address \<open>x\<close> is one of the \<open>n\<close> bytes from \<open>a\<close> on.\<close>

definition in_rg :: "u32 \<Rightarrow> u32 \<Rightarrow> nat \<Rightarrow> bool" where
  "in_rg x a n \<longleftrightarrow> unat (x - a) < n"

lemma in_rg_linear:
  assumes "unat a + n \<le> 2 ^ 32"
  shows "in_rg x a n \<longleftrightarrow> unat a \<le> unat x \<and> unat x < unat a + n"
proof (cases "a \<le> x")
  case True
  then show ?thesis by (simp add: in_rg_def unat_sub word_le_nat_alt) (auto simp: word_le_nat_alt)
next
  case False
  then have lt: "unat x < unat a" by (simp add: word_le_nat_alt)
  have "unat (x - a) = unat x + 2 ^ 32 - unat a"
    using lt by (simp add: unat_sub_if_size word_size)
  then have "\<not> unat (x - a) < n" using assms lt by simp
  then show ?thesis using lt by (simp add: in_rg_def)
qed

lemma bytes_of_word:
  "ucast (ucast (v :: u32) :: u8) OR push_bit 8 (ucast (ucast (drop_bit 8 v) :: u8))
   OR push_bit 16 (ucast (ucast (drop_bit 16 v) :: u8))
   OR push_bit 24 (ucast (ucast (drop_bit 24 v) :: u8)) = v"
proof (rule bit_eqI)
  fix n
  assume "possible_bit TYPE(32 word) n"
  then have n: "n < 32" by simp
  have r: "(x - k) + k = x" if "k \<le> x" for x k :: nat using that by simp
  consider "n < 8" | "8 \<le> n" "n < 16" | "16 \<le> n" "n < 24" | "24 \<le> n" by linarith
  then show "bit (ucast (ucast (v :: u32) :: u8) OR push_bit 8 (ucast (ucast (drop_bit 8 v) :: u8))
   OR push_bit 16 (ucast (ucast (drop_bit 16 v) :: u8))
   OR push_bit 24 (ucast (ucast (drop_bit 24 v) :: u8)) :: u32) n = bit v n"
    using n by cases (auto simp: bit_simps)
qed

lemma read32_write32 [simp]: "read32 (write32 m a v) a = v"
  by (simp add: read32_def write32_def bytes_of_word)

lemma write32_other: "\<not> in_rg x a 4 \<Longrightarrow> write32 m a v x = m x"
  by (auto simp: write32_def in_rg_def)

lemma read32_cong:
  "(\<And>x. in_rg x a 4 \<Longrightarrow> m' x = m x) \<Longrightarrow> read32 m' a = read32 m a"
  by (simp add: read32_def in_rg_def)

section \<open>Block operations\<close>

fun memset_loop :: "mem \<Rightarrow> u32 \<Rightarrow> u8 \<Rightarrow> nat \<Rightarrow> mem" where
  "memset_loop m d v 0 = m"
| "memset_loop m d v (Suc n) = memset_loop (m(d := v)) (d + 1) v n"

definition memset :: "mem \<Rightarrow> u32 \<Rightarrow> u8 \<Rightarrow> u32 \<Rightarrow> mem" where
  "memset m dest v count = memset_loop m dest v (unat count)"

fun memcpy_loop :: "mem \<Rightarrow> u32 \<Rightarrow> u32 \<Rightarrow> nat \<Rightarrow> mem" where
  "memcpy_loop m d s 0 = m"
| "memcpy_loop m d s (Suc n) = memcpy_loop (m(d := m s)) (d + 1) (s + 1) n"

definition memcpy :: "mem \<Rightarrow> u32 \<Rightarrow> u32 \<Rightarrow> u32 \<Rightarrow> mem" where
  "memcpy m dest src n = memcpy_loop m dest src (unat n)"

fun memcmp_loop :: "mem \<Rightarrow> u32 \<Rightarrow> u32 \<Rightarrow> nat \<Rightarrow> u32" where
  "memcmp_loop m p q 0 = 0"
| "memcmp_loop m p q (Suc n) =
     (if m p \<noteq> m q then ucast (m p) - ucast (m q) else memcmp_loop m (p + 1) (q + 1) n)"

definition memcmp :: "mem \<Rightarrow> u32 \<Rightarrow> u32 \<Rightarrow> u32 \<Rightarrow> u32" where
  "memcmp m s1 s2 n = memcmp_loop m s1 s2 (unat n)"

definition align_up :: "u32 \<Rightarrow> u32 \<Rightarrow> u32" where
  "align_up size' alignment = (size' + alignment - 1) AND NOT (alignment - 1)"

lemma in_rg_Suc: "in_rg x d (Suc n) \<longleftrightarrow> x = d \<or> in_rg x (d + 1) n"
  if "Suc n \<le> 2 ^ 32"
proof (cases "x = d")
  case True
  then show ?thesis by (simp add: in_rg_def)
next
  case False
  then have "unat (x - d) \<noteq> 0" by (simp add: unsigned_eq_0_iff)
  moreover have "unat (x - (d + 1)) = unat (x - d) - 1"
  proof -
    have e: "x - (d + 1) = (x - d) - 1" by simp
    have "1 \<le> x - d" using False by (simp add: word_le_nat_alt Suc_le_eq unat_gt_0)
    then show ?thesis unfolding e by (simp only: unat_sub unsigned_1)
  qed
  ultimately show ?thesis using False by (auto simp: in_rg_def)
qed

lemma memset_loop_eq:
  "n \<le> 2 ^ 32 \<Longrightarrow> memset_loop m d v n x = (if in_rg x d n then v else m x)"
proof (induction n arbitrary: m d)
  case 0
  then show ?case by (simp add: in_rg_def)
next
  case (Suc n)
  have "in_rg d d (Suc n)" by (simp add: in_rg_def)
  then show ?case using Suc in_rg_Suc [of n x d] by auto
qed

lemma memset_eq: "memset m d v n x = (if in_rg x d (unat n) then v else m x)"
  unfolding memset_def by (rule memset_loop_eq) (use unat_less_lit [of n] in simp)


lemma memcmp_loop_0:
  "memcmp_loop m p q n = 0 \<longleftrightarrow> (\<forall>i < n. m (p + of_nat i) = m (q + of_nat i))"
proof (induction n arbitrary: p q)
  case 0
  then show ?case by simp
next
  case (Suc n)
  have ne: "ucast (m p) - ucast (m q) \<noteq> (0 :: u32)" if "m p \<noteq> m q"
    using that by simp
  show ?case using ne by (simp add: All_less_Suc2 Suc add.assoc)
qed

section \<open>Alignment\<close>

lemma and_not_low:
  fixes x :: "'a::len word"
  shows "x AND NOT (2 ^ k - 1) = push_bit k (drop_bit k x)"
  by (rule bit_eqI) (auto simp: bit_simps simp flip: mask_eq_exp_minus_1)

lemma unat_and_not_low:
  fixes x :: "'a::len word"
  shows "unat (x AND NOT (2 ^ k - 1)) = unat x div 2 ^ k * 2 ^ k"
proof -
  have d: "unat (drop_bit k x) = unat x div 2 ^ k"
    by (simp only: unat_drop_bit_eq) (simp only: drop_bit_eq_div)
  have "unat x div 2 ^ k * 2 ^ k \<le> unat x" by simp
  then have "unat x div 2 ^ k * 2 ^ k < 2 ^ LENGTH('a)"
    using unat_less_lit [of x] by linarith
  then show ?thesis
    unfolding and_not_low using d by (subst unat_push_bit_no_wrap) simp_all
qed

text \<open>With a power of two and no overflow, \<open>align_up\<close> is the next multiple.\<close>

lemma align_up_spec:
  assumes "k < 32" and "unat s + 2 ^ k \<le> 2 ^ 32"
  shows "unat (align_up s (2 ^ k)) = (unat s + 2 ^ k - 1) div 2 ^ k * 2 ^ k"
proof -
  have p: "unat ((2 :: u32) ^ k) = 2 ^ k"
    using power_strict_increasing [OF assms(1), of "2 :: nat"] unat_push_bit_no_wrap [of "1 :: u32" k]
    by simp
  have "0 < (2 :: nat) ^ k" by simp
  then have "unat (s + 2 ^ k - 1) = unat s + 2 ^ k - 1"
    using assms(2) p by (simp add: add_diff_eq [symmetric] unat_add_no_wrap unat_sub_le word_le_nat_alt)
  then show ?thesis by (simp add: align_up_def unat_and_not_low)
qed

end
