(* ===== verification/Heap.thy ===== *)
theory Heap
  imports Memory
begin

text \<open>
  \<open>src/kernel/mm/heap.cpp\<close>: the kernel heap, a singly linked list of block headers kept in
  the heap's own memory.  A header (\<open>HeapBlock\<close>) is 12 bytes: the payload size at offset 0,
  the \<open>free\<close> flag (one byte) at offset 4, the next header's address at offset 8.  The model
  works on the bytes of memory, so that a write that runs into a neighbouring header is seen.
\<close>

section \<open>Headers in memory\<close>

definition HEAP_START :: u32 where "HEAP_START = 0x200000"
definition HEAP_SIZE :: u32 where "HEAP_SIZE = 0x300000"

abbreviation (input) hdr :: u32 where "hdr \<equiv> 12"

definition hb_size :: "mem \<Rightarrow> u32 \<Rightarrow> u32" where "hb_size m b = read32 m b"
definition hb_free :: "mem \<Rightarrow> u32 \<Rightarrow> bool" where "hb_free m b \<longleftrightarrow> m (b + 4) \<noteq> 0"
definition hb_next :: "mem \<Rightarrow> u32 \<Rightarrow> u32" where "hb_next m b = read32 m (b + 8)"

definition set_size :: "u32 \<Rightarrow> u32 \<Rightarrow> mem \<Rightarrow> mem" where "set_size b v m = write32 m b v"
definition set_free :: "u32 \<Rightarrow> bool \<Rightarrow> mem \<Rightarrow> mem" where
  "set_free b f m = m(b + 4 := (if f then 1 else 0))"
definition set_next :: "u32 \<Rightarrow> u32 \<Rightarrow> mem \<Rightarrow> mem" where "set_next b v m = write32 m (b + 8) v"

record heap =
  hmem :: mem
  heap_head :: u32

section \<open>Operations\<close>

definition heap_init :: "mem \<Rightarrow> heap" where
  "heap_init m =
     (let m1 = memset m HEAP_START 0 HEAP_SIZE;
          m2 = set_size HEAP_START (HEAP_SIZE - hdr) m1;
          m3 = set_free HEAP_START True m2;
          m4 = set_next HEAP_START 0 m3
      in \<lparr>hmem = m4, heap_head = HEAP_START\<rparr>)"

text \<open>What \<open>kmalloc\<close> does with the block it has chosen.\<close>

definition take_block :: "mem \<Rightarrow> u32 \<Rightarrow> u32 \<Rightarrow> mem" where
  "take_block m current sz =
     (let m' =
        (if sz + hdr < hb_size m current then
           let new_block = current + hdr + sz;
               m1 = set_size new_block (hb_size m current - sz - hdr) m;
               m2 = set_free new_block True m1;
               m3 = set_next new_block (hb_next m2 current) m2
           in set_next current new_block m3
         else m)
      in set_free current False (set_size current sz m'))"

text \<open>
  The search loop.  A list that never ends in a null pointer makes it run forever, which is
  \<open>None\<close>.
\<close>

partial_function (option) kmalloc_loop :: "mem \<Rightarrow> u32 \<Rightarrow> u32 \<Rightarrow> (u32 \<times> mem) option" where
  "kmalloc_loop m sz current =
     (if current = 0 then Some (0, m)
      else if hb_free m current \<and> sz \<le> hb_size m current
      then Some (current + hdr, take_block m current sz)
      else kmalloc_loop m sz (hb_next m current))"

definition kmalloc :: "heap \<Rightarrow> u32 \<Rightarrow> (u32 \<times> heap) option" where
  "kmalloc h sz =
     (if sz = 0 then Some (0, h)
      else map_option (\<lambda>(p, m). (p, h\<lparr>hmem := m\<rparr>)) (kmalloc_loop (hmem h) sz (heap_head h)))"

definition kcalloc :: "heap \<Rightarrow> u32 \<Rightarrow> u32 \<Rightarrow> (u32 \<times> heap) option" where
  "kcalloc h num sz =
     (case kmalloc h (num * sz) of None \<Rightarrow> None
      | Some (ptr, h') \<Rightarrow>
          if ptr = 0 then Some (0, h')
          else Some (ptr, h'\<lparr>hmem := memset (hmem h') ptr 0 (num * sz)\<rparr>))"

text \<open>
  \<open>kfree\<close> calls itself from its merging loop, on the header address of the block after the
  merged one.  \<open>kfree_fuel\<close> and its loop take fuel, one unit for each call and each pass of
  the loop; \<open>None\<close> is fuel that ran out.  \<open>head\<close> is the list head, which does not change.
\<close>

definition in_heap_range :: "u32 \<Rightarrow> bool" where
  "in_heap_range ptr \<longleftrightarrow> \<not> (ptr < HEAP_START \<or> HEAP_START + HEAP_SIZE < ptr)"

fun kfree_fuel :: "nat \<Rightarrow> u32 \<Rightarrow> mem \<Rightarrow> u32 \<Rightarrow> mem option"
and merge_loop :: "nat \<Rightarrow> u32 \<Rightarrow> mem \<Rightarrow> u32 \<Rightarrow> mem option" where
  "kfree_fuel 0 head m ptr = None"
| "kfree_fuel (Suc n) head m ptr =
     (if ptr = 0 then Some m
      else if \<not> in_heap_range ptr then Some m
      else let block = ptr - hdr in
        if hb_free m block then Some m
        else case merge_loop n head (set_free block True m) head of None \<Rightarrow> None
          | Some m' \<Rightarrow> Some (write32 m' ptr 0))"
| "merge_loop 0 head m current = None"
| "merge_loop (Suc n) head m current =
     (if current = 0 then Some m
      else if hb_free m current \<and> hb_next m current \<noteq> 0 \<and> hb_free m (hb_next m current)
      then
        let nx = hb_next m current;
            m1 = set_size current (hb_size m current + (hb_size m nx + hdr)) m;
            m2 = set_next current (hb_next m1 nx) m1
        in case kfree_fuel n head m2 (hb_next m2 current) of None \<Rightarrow> None
          | Some m3 \<Rightarrow> merge_loop n head m3 (hb_next m3 current)
      else merge_loop n head m (hb_next m current))"

definition kfree :: "nat \<Rightarrow> heap \<Rightarrow> u32 \<Rightarrow> heap option" where
  "kfree fuel h ptr = map_option (\<lambda>m. h\<lparr>hmem := m\<rparr>) (kfree_fuel fuel (heap_head h) (hmem h) ptr)"

section \<open>Reading back the fields\<close>

text \<open>Writes through one header pointer do not disturb the other fields of that header.\<close>

lemma field_simps_same [frame_simps]:
  "hb_size (set_size b v m) b = v" "hb_size (set_free b f m) b = hb_size m b"
  "hb_size (set_next b v m) b = hb_size m b"
  "hb_free (set_size b v m) b = hb_free m b" "hb_free (set_free b f m) b = f"
  "hb_free (set_next b v m) b = hb_free m b"
  "hb_next (set_size b v m) b = hb_next m b" "hb_next (set_free b f m) b = hb_next m b"
  "hb_next (set_next b v m) b = v"
  by (simp_all add: hb_size_def hb_free_def hb_next_def set_size_def set_free_def set_next_def)
    (simp_all add: read32_def write32_def add.assoc)

text \<open>Every header write changes bytes of that header only.\<close>

lemma header_writes_local:
  assumes "\<not> in_rg x b 12"
  shows "set_size b v m x = m x" "set_free b f m x = m x" "set_next b v m x = m x"
proof -
  have "x \<noteq> b + of_nat i" if "i < 12" for i
    using assms that by (auto simp: in_rg_def unat_of_nat)
  from this [of 0] this [of 1] this [of 2] this [of 3] this [of 4] this [of 8] this [of 9]
    this [of 10] this [of 11]
  show "set_size b v m x = m x" "set_free b f m x = m x" "set_next b v m x = m x"
    by (simp_all add: set_size_def set_free_def set_next_def write32_def add.assoc)
qed

text \<open>Every header read depends on the bytes of that header only.\<close>

lemma header_reads_local:
  assumes "\<And>x. in_rg x b 12 \<Longrightarrow> m' x = m x"
  shows "hb_size m' b = hb_size m b" "hb_free m' b = hb_free m b" "hb_next m' b = hb_next m b"
proof -
  have a: "m' (b + of_nat i) = m (b + of_nat i)" if "i < 12" for i
    using assms [of "b + of_nat i"] that by (simp add: in_rg_def unat_of_nat)
  from a [of 0] a [of 1] a [of 2] a [of 3] a [of 4] a [of 8] a [of 9] a [of 10] a [of 11]
  show "hb_size m' b = hb_size m b" "hb_free m' b = hb_free m b" "hb_next m' b = hb_next m b"
    by (simp_all add: hb_size_def hb_free_def hb_next_def read32_def add.assoc)
qed

section \<open>The abstract heap: a list of blocks\<close>

text \<open>
  A block is its header address, its payload size and whether it is free.  \<open>chain\<close> says that
  the linked list in memory is this list of blocks, \<open>laid\<close> that the blocks lie one after the
  other, without overlap, between two addresses.
\<close>

type_synonym blk = "u32 \<times> u32 \<times> bool"

fun chain :: "mem \<Rightarrow> u32 \<Rightarrow> blk list \<Rightarrow> bool" where
  "chain m p [] \<longleftrightarrow> p = 0"
| "chain m p ((a, s, f) # bs) \<longleftrightarrow>
     p = a \<and> a \<noteq> 0 \<and> hb_size m a = s \<and> hb_free m a = f \<and> chain m (hb_next m a) bs"

fun laid :: "nat \<Rightarrow> blk list \<Rightarrow> nat \<Rightarrow> bool" where
  "laid lo [] hi \<longleftrightarrow> lo \<le> hi"
| "laid lo ((a, s, f) # bs) hi \<longleftrightarrow> lo \<le> unat a \<and> laid (unat a + 12 + unat s) bs hi"

definition heap_inv :: "heap \<Rightarrow> blk list \<Rightarrow> bool" where
  "heap_inv h bs \<longleftrightarrow> chain (hmem h) (heap_head h) bs
     \<and> laid (unat HEAP_START) bs (unat HEAP_START + unat HEAP_SIZE)"

text \<open>First fit on the list of blocks, with the code's splitting rule.\<close>

fun first_fit :: "u32 \<Rightarrow> blk list \<Rightarrow> (u32 \<times> blk list) option" where
  "first_fit n [] = None"
| "first_fit n ((a, s, f) # bs) =
     (if f \<and> n \<le> s
      then Some (a + 12,
        if unat n + 12 < unat s then (a, n, False) # (a + 12 + n, s - n - 12, True) # bs
        else (a, n, False) # bs)
      else map_option (\<lambda>(p, bs'). (p, (a, s, f) # bs')) (first_fit n bs))"

lemma laid_le: "laid lo bs hi \<Longrightarrow> lo \<le> hi"
  by (induction lo bs hi rule: laid.induct) auto

lemma laid_mem:
  "laid lo bs hi \<Longrightarrow> (a, s, f) \<in> set bs \<Longrightarrow> lo \<le> unat a \<and> unat a + 12 + unat s \<le> hi"
proof (induction lo bs hi rule: laid.induct)
  case (2 lo a' s' f' bs hi)
  then show ?case using laid_le [of "unat a' + 12 + unat s'" bs hi] by fastforce
qed simp

lemma laid_mono: "laid lo bs hi \<Longrightarrow> lo' \<le> lo \<Longrightarrow> laid lo' bs hi"
  by (cases bs) auto

lemma chain_cong:
  "(\<And>a s f x. (a, s, f) \<in> set bs \<Longrightarrow> in_rg x a 12 \<Longrightarrow> m' x = m x) \<Longrightarrow> chain m' p bs = chain m p bs"
proof (induction m p bs rule: chain.induct)
  case (2 m p a s f bs)
  have "hb_size m' a = hb_size m a" "hb_free m' a = hb_free m a" "hb_next m' a = hb_next m a"
    using 2(2) by (auto intro!: header_reads_local)
  then show ?case using 2 by (metis chain.simps(2) list.set_intros(2))
qed simp

text \<open>The effect of \<open>take_block\<close> on the chosen block, in a heap that does not wrap around.\<close>

lemma take_block_effect:
  assumes fits: "n \<le> hb_size m a" and top: "unat a + 12 + unat (hb_size m a) < 2 ^ 32"
  defines "m' \<equiv> take_block m a n"
  defines "nb \<equiv> a + 12 + n"
  defines "split \<equiv> unat n + 12 < unat (hb_size m a)"
  shows "hb_size m' a = n" and "\<not> hb_free m' a"
    and "hb_next m' a = (if split then nb else hb_next m a)"
    and "split \<Longrightarrow> hb_size m' nb = hb_size m a - n - 12 \<and> hb_free m' nb \<and> hb_next m' nb = hb_next m a"
    and "m' x \<noteq> m x \<Longrightarrow> in_rg x a (12 + unat (hb_size m a))"
proof -
  have nle: "unat n \<le> unat (hb_size m a)" using fits by (simp add: word_le_nat_alt)
  have cond: "n + hdr < hb_size m a \<longleftrightarrow> split"
    using nle top by (simp add: split_def word_less_nat_alt unat_add_no_wrap)
  have nb: "unat nb = unat a + 12 + unat n"
    using nle top by (simp add: nb_def unat_add_no_wrap)
  have rg: "in_rg y c 12 \<longleftrightarrow> unat c \<le> unat y \<and> unat y < unat c + 12"
    if "unat c + 12 \<le> 2 ^ 32" for y c
    by (rule in_rg_linear [OF that])
  have ra: "in_rg y a 12 \<longleftrightarrow> unat a \<le> unat y \<and> unat y < unat a + 12" for y
    using top by (intro rg) simp
  have rall: "in_rg y a (12 + unat (hb_size m a)) \<longleftrightarrow>
      unat a \<le> unat y \<and> unat y < unat a + 12 + unat (hb_size m a)" for y
    using top in_rg_linear [of a "12 + unat (hb_size m a)" y] by (simp add: add.assoc)
  define m1 where "m1 = set_size nb (hb_size m a - n - 12) m"
  define m2 where "m2 = set_free nb True m1"
  define m3 where "m3 = set_next nb (hb_next m2 a) m2"
  have unsplit: "m' = set_free a False (set_size a n m)" if "\<not> split"
    using that cond by (simp add: m'_def take_block_def Let_def)
  have splitm: "m' = set_free a False (set_size a n (set_next a nb m3))" if "split"
    using that cond by (simp add: m'_def take_block_def Let_def m1_def m2_def m3_def nb_def)
  have apart: "\<not> (in_rg y a 12 \<and> in_rg y nb 12)" if split for y
  proof -
    have "in_rg y nb 12 \<longleftrightarrow> unat nb \<le> unat y \<and> unat y < unat nb + 12"
      using top nb that by (intro rg) (simp add: split_def)
    then show ?thesis using ra nb by simp
  qed
  have at_nb: "hb_next m2 a = hb_next m a" if split
    unfolding m2_def m1_def using apart [OF that]
    by (intro header_reads_local(3)) (auto simp: header_writes_local)
  have m'nb: "m' y = m3 y" if split "in_rg y nb 12" for y
    using that apart [of y] by (simp add: splitm header_writes_local)
  show "hb_size m' a = n" "\<not> hb_free m' a"
    by (cases split; simp add: splitm unsplit frame_simps)+
  show "hb_next m' a = (if split then nb else hb_next m a)"
    by (simp add: splitm unsplit frame_simps)
  show "hb_size m' nb = hb_size m a - n - 12 \<and> hb_free m' nb \<and> hb_next m' nb = hb_next m a" if split
    using header_reads_local [of nb m' m3] m'nb [OF that] at_nb [OF that]
    by (simp add: m3_def m2_def m1_def frame_simps)
  show "in_rg x a (12 + unat (hb_size m a))" if "m' x \<noteq> m x"
  proof (cases split)
    case True
    have "in_rg x a 12 \<or> in_rg x nb 12"
      by (rule ccontr) (use that True in \<open>simp add: splitm m3_def m2_def m1_def header_writes_local\<close>)
    moreover have "in_rg x nb 12 \<longleftrightarrow> unat nb \<le> unat x \<and> unat x < unat nb + 12"
      using top nb True by (intro rg) (simp add: split_def)
    ultimately show ?thesis using True nb ra rall by (auto simp: split_def)
  next
    case False
    have "in_rg x a 12"
      by (rule ccontr) (use that False in \<open>simp add: unsplit header_writes_local\<close>)
    then show ?thesis using ra rall by simp
  qed
qed


text \<open>
  The search loop refines first fit: it always returns, it finds the block first fit finds,
  leaves the list of blocks first fit leaves, and changes bytes of the chosen free block only.
\<close>

lemma kmalloc_loop_refines:
  assumes "chain m p bs" and "laid lo bs hi" and "hi < 2 ^ 32"
  shows "case first_fit n bs of
      None \<Rightarrow> kmalloc_loop m n p = Some (0, m)
    | Some (q, bs') \<Rightarrow> \<exists>m'. kmalloc_loop m n p = Some (q, m') \<and> chain m' p bs' \<and> laid lo bs' hi
        \<and> (\<forall>x. m' x \<noteq> m x \<longrightarrow> (\<exists>a s. (a, s, True) \<in> set bs \<and> q = a + 12 \<and> n \<le> s
             \<and> in_rg x a (12 + unat s)))"
  using assms
proof (induction bs arbitrary: p lo)
  case Nil
  then show ?case by (simp add: kmalloc_loop.simps)
next
  case (Cons b bs)
  obtain a s f where b: "b = (a, s, f)" by (cases b)
  have ch: "p = a" "a \<noteq> 0" "hb_size m a = s" "hb_free m a = f" "chain m (hb_next m a) bs"
    using Cons.prems(1) b by simp_all
  have ld: "lo \<le> unat a" "laid (unat a + 12 + unat s) bs hi"
    using Cons.prems(2) b by simp_all
  have top: "unat a + 12 + unat s < 2 ^ 32" using laid_le [OF ld(2)] Cons.prems(3) by simp
  show ?case
  proof (cases "f \<and> n \<le> s")
    case True
    let ?m = "take_block m a n"
    have ff: "n \<le> hb_size m a" "unat a + 12 + unat (hb_size m a) < 2 ^ 32"
      using True ch top by simp_all
    note eff = take_block_effect [OF ff]
    have rest: "chain ?m (hb_next m a) bs"
    proof -
      have "?m x = m x" if "(c, t, g) \<in> set bs" "in_rg x c 12" for c t g x
      proof -
        have c: "unat a + 12 + unat s \<le> unat c" "unat c + 12 \<le> 2 ^ 32"
          using laid_mem [OF ld(2) that(1)] Cons.prems(3) by simp_all
        have "unat c \<le> unat x" using that(2) in_rg_linear [OF c(2)] by simp
        then have "\<not> in_rg x a (12 + unat (hb_size m a))"
          using in_rg_linear [of a "12 + unat s" x] top c(1) ch(3) by (simp add: add.assoc)
        then show ?thesis using eff(5) by blast
      qed
      then show ?thesis using ch(5) chain_cong [of bs ?m m "hb_next m a"] by blast
    qed
    have sub: "unat (s - n - 12) = unat s - unat n - 12" if "unat n + 12 < unat s"
      using that by (simp add: unat_sub_le word_le_nat_alt)
    have nb: "unat (a + 12 + n) = unat a + 12 + unat n" if "unat n + 12 < unat s"
      using top that by (simp add: unat_add_no_wrap)
    have loop: "kmalloc_loop m n p = Some (a + 12, ?m)"
      using True ch by (simp add: kmalloc_loop.simps [of m n a])
    have diff: "?m x \<noteq> m x \<longrightarrow> in_rg x a (12 + unat s)" for x
      using eff(5) [of x] ch(3) by blast
    have nle: "unat n \<le> unat s" using True by (simp add: word_le_nat_alt)
    show ?thesis
    proof (cases "unat n + 12 < unat s")
      case spl: True
      have ld': "laid (12 + (unat a + unat s)) bs hi" using ld(2) by (simp add: ac_simps)
      have ne0: "a + 12 + n \<noteq> 0" using nb [OF spl] by (metis add_eq_0_iff_both_eq_0 unsigned_0 zero_neq_numeral)
      show ?thesis
        using True b ch ld ld' rest loop diff eff(1-4) spl ne0 sub [OF spl] nb [OF spl] by auto
    next
      case False
      then show ?thesis
        using True b ch ld rest loop diff eff(1-3) nle
        by (auto intro: laid_mono)
    qed
  next
    case False
    have loop: "kmalloc_loop m n p = kmalloc_loop m n (hb_next m a)"
      using False ch by (auto simp: kmalloc_loop.simps [of m n a])
    note IH = Cons.IH [OF ch(5) ld(2) Cons.prems(3)]
    show ?thesis
    proof (cases "first_fit n bs")
      case None
      then show ?thesis using IH loop False b by auto
    next
      case (Some r)
      obtain q bs' where r: "r = (q, bs')" by (cases r)
      obtain m' where m': "kmalloc_loop m n (hb_next m a) = Some (q, m')"
        "chain m' (hb_next m a) bs'" "laid (unat a + 12 + unat s) bs' hi"
        and df: "\<And>x. m' x \<noteq> m x \<Longrightarrow> \<exists>c t. (c, t, True) \<in> set bs \<and> q = c + 12 \<and> n \<le> t
            \<and> in_rg x c (12 + unat t)"
        using IH Some r by auto
      have "m' x = m x" if "in_rg x a 12" for x
      proof (rule ccontr)
        assume "m' x \<noteq> m x"
        then obtain c t where c: "(c, t, True) \<in> set bs" "in_rg x c (12 + unat t)"
          using df by blast
        have "unat a + 12 + unat s \<le> unat c" "unat c + (12 + unat t) \<le> 2 ^ 32"
          using laid_mem [OF ld(2) c(1)] Cons.prems(3) by simp_all
        then have "unat a + 12 \<le> unat x" using c(2) in_rg_linear [of c "12 + unat t" x] by simp
        then show False using that in_rg_linear [of a 12 x] top by simp
      qed
      then have "hb_size m' a = s" "hb_free m' a = f" "hb_next m' a = hb_next m a"
        using header_reads_local [of a m' m] ch by auto
      then have "chain m' p ((a, s, f) # bs')" using ch m'(2) by simp
      moreover have "laid lo ((a, s, f) # bs') hi" using ld m'(3) by simp
      moreover have "\<forall>x. m' x \<noteq> m x \<longrightarrow> (\<exists>c t. (c, t, True) \<in> set (b # bs) \<and> q = c + 12
          \<and> n \<le> t \<and> in_rg x c (12 + unat t))"
        using df by (meson list.set_intros(2))
      moreover have ff: "first_fit n (b # bs) = Some (q, (a, s, f) # bs')"
        using Some r False b by auto
      ultimately show ?thesis unfolding ff option.case prod.case using loop m'(1) by metis
    qed
  qed
qed

section \<open>Freeing and merging\<close>

text \<open>
  One pass of the merging loop on the list of blocks: a merged block is not compared with its
  new successor, the pass moves on.
\<close>

fun coalesce :: "blk list \<Rightarrow> blk list" where
  "coalesce [] = []"
| "coalesce [b] = [b]"
| "coalesce ((a, s, f) # (b, t, g) # bs) =
     (if f \<and> g then (a, s + (t + 12), True) # coalesce bs
      else (a, s, f) # coalesce ((b, t, g) # bs))"

definition mark_free :: "u32 \<Rightarrow> blk list \<Rightarrow> blk list" where
  "mark_free a bs = map (\<lambda>(b, t, g). (b, t, b = a \<or> g)) bs"

text \<open>
  The recursive call after a merge receives the address of the next header and reads the byte
  8 below it, the 8th last byte of the payload just merged, as the \<open>free\<close> flag of a block.
  The call does nothing exactly when that byte is not 0.
\<close>

fun benign :: "mem \<Rightarrow> blk list \<Rightarrow> bool" where
  "benign m [] = True"
| "benign m [b] = True"
| "benign m ((a, s, f) # (b, t, g) # bs) =
     (if f \<and> g
      then (case bs of [] \<Rightarrow> True | (c, _, _) # _ \<Rightarrow> 8 \<le> unat t \<and> m (c - 8) \<noteq> 0) \<and> benign m bs
      else benign m ((b, t, g) # bs))"

lemma laid_coalesce: "laid lo bs hi \<Longrightarrow> hi < 2 ^ 32 \<Longrightarrow> laid lo (coalesce bs) hi"
proof (induction bs arbitrary: lo rule: coalesce.induct)
  case (3 a s f b t g bs)
  have top: "unat a + 12 + unat s \<le> unat b" "unat b + 12 + unat t \<le> hi"
    using 3(3) laid_le by auto
  have sum: "unat (s + (t + 12)) = unat s + (unat t + 12)"
    using top 3(4) by (simp add: unat_add_no_wrap)
  show ?case
  proof (cases "f \<and> g")
    case True
    have "laid (unat b + 12 + unat t) (coalesce bs) hi" using 3 True by simp
    then have "laid (unat a + 12 + unat (s + (t + 12))) (coalesce bs) hi"
      by (rule laid_mono) (use top sum in simp)
    then show ?thesis using True 3(3) by simp
  next
    case False
    then show ?thesis using 3 by auto
  qed
qed auto

lemma coalesce_headers: "(c, u, h) \<in> set (coalesce bs) \<Longrightarrow> \<exists>u' h'. (c, u', h') \<in> set bs"
proof (induction bs rule: coalesce.induct)
  case (3 a s f b t g bs)
  show ?case
  proof (cases "f \<and> g")
    case True
    then have "c = a \<or> (c, u, h) \<in> set (coalesce bs)" using 3(3) by auto
    then show ?thesis using 3(1) [OF True] by (metis list.set_intros(1,2))
  next
    case False
    then have "c = a \<or> (c, u, h) \<in> set (coalesce ((b, t, g) # bs))" using 3(3) by auto
    then show ?thesis using 3(2) [OF False] by (metis list.set_intros(1,2))
  qed
qed auto

lemma coalesce_live: "(c, u, False) \<in> set bs \<Longrightarrow> (c, u, False) \<in> set (coalesce bs)"
proof (induction bs rule: coalesce.induct)
  case (3 a s f b t g bs)
  then show ?case by (cases "f \<and> g") auto
qed auto

lemma mark_free_laid [simp]: "laid lo (mark_free a bs) hi = laid lo bs hi"
proof (induction bs arbitrary: lo)
  case Nil
  then show ?case by (simp add: mark_free_def)
next
  case (Cons b bs)
  obtain c t g where "b = (c, t, g)" by (cases b)
  then show ?case using Cons [of "unat c + 12 + unat t"] by (simp add: mark_free_def)
qed

lemma benign_cong:
  "(\<And>c t g. (c, t, g) \<in> set bs \<Longrightarrow> m' (c - 8) = m (c - 8)) \<Longrightarrow> benign m' bs = benign m bs"
proof (induction bs rule: coalesce.induct)
  case (3 a s f b t g bs)
  have c: "(c, u, h) \<in> set ((a, s, f) # (b, t, g) # bs) \<Longrightarrow> m' (c - 8) = m (c - 8)" for c u h
    by (rule 3(3))
  have "benign m' bs = benign m bs" if "f \<and> g"
    using that c by (intro 3(1)) (auto intro: list.set_intros)
  moreover have "benign m' ((b, t, g) # bs) = benign m ((b, t, g) # bs)" if "\<not> (f \<and> g)"
    using that c by (intro 3(2)) (auto intro: list.set_intros)
  moreover have "(case bs of [] \<Rightarrow> True | (c, _, _) # _ \<Rightarrow> 8 \<le> unat t \<and> m' (c - 8) \<noteq> 0) =
      (case bs of [] \<Rightarrow> True | (c, _, _) # _ \<Rightarrow> 8 \<le> unat t \<and> m (c - 8) \<noteq> 0)"
  proof (cases bs)
    case (Cons d ds)
    obtain e u h where "d = (e, u, h)" by (cases d)
    then show ?thesis using Cons c [of e u h] by simp
  qed simp
  ultimately show ?case by (cases f; cases g; simp)
qed auto

lemma below_header:
  fixes b c :: u32
  assumes "unat b + 12 + 8 \<le> unat c"
  shows "unat (c - 8) = unat c - 8"
proof -
  have "(8 :: u32) \<le> c" using assms by (simp add: word_le_nat_alt)
  then show ?thesis by (simp add: unat_sub)
qed

lemma merge_loop_refines:
  assumes "chain m p bs" and "laid lo bs hi" and "hi < 2 ^ 32" and "benign m bs"
    and "length bs + 2 \<le> n"
  shows "\<exists>m'. merge_loop n head m p = Some m' \<and> chain m' p (coalesce bs)
    \<and> (\<forall>x. m' x \<noteq> m x \<longrightarrow> (\<exists>a s. (a, s, True) \<in> set bs \<and> in_rg x a 12))"
  using assms
proof (induction bs arbitrary: m p lo n rule: coalesce.induct)
  case 1
  then show ?case by (cases n) auto
next
  case (2 b)
  obtain a s f where b: "b = (a, s, f)" by (cases b)
  obtain k where n: "n = Suc (Suc k)" using 2(5) by (metis add_2_eq_Suc' le_Suc_ex add_Suc)
  have "merge_loop n head m p = Some m" using 2(1) b by (simp add: n)
  then show ?case using 2(1) by simp
next
  case (3 a s f b t g bs)
  obtain k where n: "n = Suc k" and k: "Suc (length bs) + 2 \<le> k"
    using 3(7) by (cases n) auto
  have ch: "p = a" "a \<noteq> 0" "hb_size m a = s" "hb_free m a = f" "hb_next m a = b" "b \<noteq> 0"
    "hb_size m b = t" "hb_free m b = g" "chain m (hb_next m b) bs"
    using 3(3) by auto
  have ld: "lo \<le> unat a" "unat a + 12 + unat s \<le> unat b" "laid (unat b + 12 + unat t) bs hi"
    "laid (unat a + 12 + unat s) ((b, t, g) # bs) hi"
    using 3(4) by auto
  have hi: "unat b + 12 + unat t \<le> hi" "hi < 2 ^ 32" using laid_le [OF ld(3)] 3(5) by auto
  have rga: "in_rg x a 12 \<longleftrightarrow> unat a \<le> unat x \<and> unat x < unat a + 12" for x
    using ld(2) hi by (intro in_rg_linear) simp
  have later: "\<not> in_rg x a 12" if "(c, u, h) \<in> set ((b, t, g) # bs)" "in_rg x c 12" for c u h x
  proof -
    have c: "unat a + 12 + unat s \<le> unat c" "unat c + 12 \<le> 2 ^ 32"
      using laid_mem [OF ld(4) that(1)] hi by simp_all
    then show ?thesis using that(2) in_rg_linear [OF c(2)] rga by simp
  qed
  show ?case
  proof (cases "f \<and> g")
    case True
    define m1 where "m1 = set_size a (s + (t + hdr)) m"
    define m2 where "m2 = set_next a (hb_next m1 b) m1"
    have same: "m2 x = m x" if "\<not> in_rg x a 12" for x
      using that by (simp add: m2_def m1_def header_writes_local)
    have "m1 x = m x" if "in_rg x b 12" for x
      using that later [of b t g x] by (simp add: m1_def header_writes_local)
    then have nxb: "hb_next m1 b = hb_next m b" by (rule header_reads_local(3))
    have nx2: "hb_next m2 a = hb_next m b" by (simp add: m2_def frame_simps nxb)
    have ch2: "chain m2 (hb_next m b) bs"
    proof -
      have "m2 x = m x" if "(c, u, h) \<in> set bs" "in_rg x c 12" for c u h x
        using same later [of c u h x] that by simp
      then show ?thesis using ch(9) chain_cong [of bs m2 m] by blast
    qed
    have at8: "m2 (c - 8) = m (c - 8)" if "(c, u, h) \<in> set bs" "8 \<le> unat t" for c u h
    proof (rule same)
      have "unat b + 12 + 8 \<le> unat c" using laid_mem [OF ld(3) that(1)] that(2) by simp
      then have "unat a + 12 \<le> unat (c - 8)" using below_header [of b c] ld(2) by linarith
      then show "\<not> in_rg (c - 8) a 12" unfolding rga by linarith
    qed
    have inner: "kfree_fuel k head m2 (hb_next m b) = Some m2"
    proof (cases bs)
      case Nil
      then show ?thesis using ch(9) k by (cases k) auto
    next
      case (Cons c' bs')
      obtain c u h where c': "c' = (c, u, h)" by (cases c')
      have bn: "8 \<le> unat t" "m (c - 8) \<noteq> 0" using 3(6) True Cons c' by auto
      have nc: "hb_next m b = c" using ch(9) Cons c' by simp
      have "hb_free m2 (c - hdr)"
        using at8 [of c u h] bn Cons c' by (simp add: hb_free_def)
      then show ?thesis using k nc by (cases k) (auto simp: Let_def)
    qed
    have step: "merge_loop n head m p = merge_loop k head m2 (hb_next m b)"
      using True ch n inner nx2 by (simp add: Let_def m1_def [symmetric] m2_def [symmetric])
    have bn2: "benign m2 bs"
    proof (cases bs)
      case (Cons c' bs')
      obtain c u h where c': "c' = (c, u, h)" by (cases c')
      have "8 \<le> unat t" using 3(6) True Cons c' by auto
      then have "benign m2 bs = benign m bs" using at8 by (intro benign_cong) auto
      then show ?thesis using 3(6) True by simp
    qed simp
    have "length bs + 2 \<le> k" using k by simp
    from 3(1) [OF True ch2 ld(3) hi(2) bn2 this]
    obtain m' where m': "merge_loop k head m2 (hb_next m b) = Some m'"
      "chain m' (hb_next m b) (coalesce bs)"
      and df: "\<And>x. m' x \<noteq> m2 x \<Longrightarrow> \<exists>c u. (c, u, True) \<in> set bs \<and> in_rg x c 12"
      by blast
    have ag: "m' x = m2 x" if "in_rg x a 12" for x
    proof (rule ccontr)
      assume "m' x \<noteq> m2 x"
      then obtain c u where c: "(c, u, True) \<in> set bs" "in_rg x c 12" using df by blast
      then have "(c, u, True) \<in> set ((b, t, g) # bs)" by simp
      from later [OF this c(2)] that show False by simp
    qed
    note ra = header_reads_local [of a m' m2, OF ag]
    have "chain m' p (coalesce ((a, s, f) # (b, t, g) # bs))"
      using True ch ra m'(2) nx2 by (simp add: m2_def m1_def frame_simps)
    moreover have "\<exists>c u. (c, u, True) \<in> set ((a, s, f) # (b, t, g) # bs) \<and> in_rg x c 12"
      if "m' x \<noteq> m x" for x
      using True df [of x] same [of x] that by (metis list.set_intros(1,2))
    ultimately show ?thesis using step m'(1) by auto
  next
    case False
    have step: "merge_loop n head m p = merge_loop k head m b"
      using False ch n by auto
    have pr: "chain m b ((b, t, g) # bs)" "benign m ((b, t, g) # bs)"
      using ch 3(6) False by (auto split: if_splits)
    have "length ((b, t, g) # bs) + 2 \<le> k" using k by simp
    from 3(2) [OF False pr(1) ld(4) hi(2) pr(2) this]
    obtain m' where m': "merge_loop k head m b = Some m'"
      "chain m' b (coalesce ((b, t, g) # bs))"
      and df: "\<And>x. m' x \<noteq> m x \<Longrightarrow> \<exists>c u. (c, u, True) \<in> set ((b, t, g) # bs) \<and> in_rg x c 12"
      by blast
    have ag: "m' x = m x" if "in_rg x a 12" for x
      by (rule ccontr) (use df [of x] later [of _ _ True x] that in meson)
    note ra = header_reads_local [of a m' m, OF ag]
    have "chain m' p (coalesce ((a, s, f) # (b, t, g) # bs))"
      using False ch ra m'(2) by auto
    then show ?thesis using step m'(1) df by (metis list.set_intros(2))
  qed
qed

lemma laid_apart:
  "laid lo bs hi \<Longrightarrow> (a, s, f) \<in> set bs \<Longrightarrow> (c, u, h) \<in> set bs \<Longrightarrow> a \<noteq> c \<Longrightarrow>
   unat a + 12 + unat s \<le> unat c \<or> unat c + 12 + unat u \<le> unat a"
proof (induction bs arbitrary: lo)
  case (Cons b bs)
  obtain d t g where b: "b = (d, t, g)" by (cases b)
  have ld: "laid (unat d + 12 + unat t) bs hi" using Cons.prems(1) b by simp
  show ?case
  proof (cases "(a, s, f) \<in> set bs \<and> (c, u, h) \<in> set bs")
    case True
    then show ?thesis using Cons.IH [OF ld] Cons.prems(4) by blast
  next
    case False
    then show ?thesis
      using Cons.prems(2-4) b laid_mem [OF ld, of a s f] laid_mem [OF ld, of c u h] by auto
  qed
qed simp

lemma laid_unique:
  "laid lo bs hi \<Longrightarrow> (a, s, f) \<in> set bs \<Longrightarrow> (a, t, g) \<in> set bs \<Longrightarrow> t = s \<and> g = f"
proof (induction bs arbitrary: lo)
  case (Cons b bs)
  obtain d r k where b: "b = (d, r, k)" by (cases b)
  have ld: "laid (unat d + 12 + unat r) bs hi" using Cons.prems(1) b by simp
  show ?case
    using Cons.prems b Cons.IH [OF ld] laid_mem [OF ld, of a s f] laid_mem [OF ld, of a t g]
    by auto
qed simp

text \<open>The extents of two different blocks of the heap share no byte.\<close>

lemma extents_disjoint:
  assumes "laid lo bs hi" and "hi < 2 ^ 32" and "(a, s, f) \<in> set bs" and "(c, u, h) \<in> set bs"
    and "a \<noteq> c" and "in_rg x a (12 + unat s)"
  shows "\<not> in_rg x c (12 + unat u)"
proof -
  have "unat a + (12 + unat s) \<le> 2 ^ 32" "unat c + (12 + unat u) \<le> 2 ^ 32"
    using laid_mem [OF assms(1,3)] laid_mem [OF assms(1,4)] assms(2) by simp_all
  then show ?thesis
    using laid_apart [OF assms(1,3,4,5)] assms(6) in_rg_linear [of a "12 + unat s" x]
      in_rg_linear [of c "12 + unat u" x] by auto
qed

lemma chain_mem:
  "chain m p bs \<Longrightarrow> (a, s, f) \<in> set bs \<Longrightarrow> a \<noteq> 0 \<and> hb_size m a = s \<and> hb_free m a = f"
  by (induction m p bs rule: chain.induct) auto

lemma in_rg_mono: "in_rg x a n \<Longrightarrow> n \<le> k \<Longrightarrow> in_rg x a k"
  by (simp add: in_rg_def)

lemma mark_free_mem:
  "(c, u, h) \<in> set (mark_free a bs) \<longleftrightarrow> (\<exists>g. (c, u, g) \<in> set bs \<and> h = (c = a \<or> g))"
  by (force simp: mark_free_def)

lemma length_mark_free [simp]: "length (mark_free a bs) = length bs"
  by (simp add: mark_free_def)

lemma chain_mark_free:
  assumes "chain m p bs" and "\<And>c u h x. (c, u, h) \<in> set bs \<Longrightarrow> c \<noteq> a \<Longrightarrow> in_rg x c 12 \<Longrightarrow> \<not> in_rg x a 12"
  shows "chain (set_free a True m) p (mark_free a bs)"
  using assms
proof (induction bs arbitrary: p)
  case Nil
  then show ?case by (simp add: mark_free_def)
next
  case (Cons b bs)
  let ?m = "set_free a True m"
  obtain c u h where b: "b = (c, u, h)" by (cases b)
  have ch: "p = c" "c \<noteq> 0" "hb_size m c = u" "hb_free m c = h" "chain m (hb_next m c) bs"
    using Cons.prems(1) b by simp_all
  have IH: "chain ?m (hb_next m c) (mark_free a bs)"
    using Cons.IH [OF ch(5)] Cons.prems(2) by (meson list.set_intros(2))
  have fields: "hb_size ?m c = u \<and> hb_free ?m c = (c = a \<or> h) \<and> hb_next ?m c = hb_next m c"
  proof (cases "c = a")
    case True
    then show ?thesis using ch by (simp add: frame_simps)
  next
    case False
    have "?m x = m x" if "in_rg x c 12" for x
      using Cons.prems(2) [of c u h x] False that b by (simp add: header_writes_local)
    from header_reads_local [of c ?m m, OF this] show ?thesis using ch False by simp
  qed
  show ?case using IH fields ch b by (simp add: mark_free_def)
qed

lemma kfree_refines:
  assumes inv: "heap_inv h bs" and live: "(a, s, False) \<in> set bs" and s4: "4 \<le> unat s"
    and bn: "benign (set_free a True (hmem h)) (mark_free a bs)" and fuel: "length bs + 3 \<le> fuel"
  shows "\<exists>h'. kfree fuel h (a + 12) = Some h' \<and> heap_inv h' (coalesce (mark_free a bs))
    \<and> (\<forall>c u x. (c, u, False) \<in> set bs \<and> c \<noteq> a \<and> in_rg x c (12 + unat u) \<longrightarrow> hmem h' x = hmem h x)"
proof -
  define hi where "hi = unat HEAP_START + unat HEAP_SIZE"
  have hi: "hi < 2 ^ 32" by (simp add: hi_def HEAP_START_def HEAP_SIZE_def)
  have ch: "chain (hmem h) (heap_head h) bs" and ld: "laid (unat HEAP_START) bs hi"
    using inv by (simp_all add: heap_inv_def hi_def)
  let ?m1 = "set_free a True (hmem h)"
  have ext: "\<not> in_rg x a (12 + unat s)" if "(c, u, g) \<in> set bs" "c \<noteq> a" "in_rg x c (12 + unat u)" for c u g x
    using extents_disjoint [OF ld hi that(1) live that(2,3)] .
  have hdr12: "in_rg x c 12 \<Longrightarrow> in_rg x c (12 + unat u)" for x c and u :: u32
    by (rule in_rg_mono) auto
  have ch1: "chain ?m1 (heap_head h) (mark_free a bs)"
    by (rule chain_mark_free [OF ch]) (use ext hdr12 in blast)
  obtain k where k: "fuel = Suc k" and kb: "length (mark_free a bs) + 2 \<le> k"
    using fuel by (cases fuel) auto
  have ld1: "laid (unat HEAP_START) (mark_free a bs) hi" using ld by simp
  from merge_loop_refines [OF ch1 ld1 hi bn kb]
  obtain m2 where m2: "merge_loop k (heap_head h) ?m1 (heap_head h) = Some m2"
    "chain m2 (heap_head h) (coalesce (mark_free a bs))"
    and df: "\<And>x. m2 x \<noteq> ?m1 x \<Longrightarrow> \<exists>c u. (c, u, True) \<in> set (mark_free a bs) \<and> in_rg x c 12"
    by blast
  let ?m3 = "write32 m2 (a + 12) 0"
  have bound: "unat HEAP_START \<le> unat a" "unat a + 12 + unat s \<le> hi"
    using laid_mem [OF ld live] by simp_all
  have a12: "unat (a + 12) = unat a + 12"
    using bound hi by (simp add: unat_add_no_wrap)
  have free0: "\<not> hb_free (hmem h) a"
    using chain_mem [OF ch live] by simp
  have range: "a + 12 \<noteq> 0" "in_heap_range (a + 12)"
  proof -
    show "a + 12 \<noteq> 0" using a12 by (metis add_eq_0_iff_both_eq_0 unsigned_0 zero_neq_numeral)
    show "in_heap_range (a + 12)"
      using a12 bound by (auto simp: in_heap_range_def word_less_nat_alt HEAP_START_def HEAP_SIZE_def hi_def)
  qed
  have run: "kfree fuel h (a + 12) = Some (h\<lparr>hmem := ?m3\<rparr>)"
    using range free0 m2(1) by (simp add: kfree_def k Let_def)
  have pay: "in_rg x (a + 12) 4 \<Longrightarrow> in_rg x a (12 + unat s) \<and> \<not> in_rg x a 12" for x
    using in_rg_linear [of "a + 12" 4 x] in_rg_linear [of a "12 + unat s" x] in_rg_linear [of a 12 x]
      a12 bound hi s4 by auto
  have ch3: "chain ?m3 (heap_head h) (coalesce (mark_free a bs))"
  proof -
    have "?m3 x = m2 x" if c: "(c, u, g) \<in> set (coalesce (mark_free a bs))" "in_rg x c 12" for c u g x
    proof (rule write32_other)
      obtain u' g' where "(c, u', g') \<in> set bs"
        using coalesce_headers [OF c(1)] mark_free_mem by blast
      then show "\<not> in_rg x (a + 12) 4"
        using pay [of x] ext [of c u' g' x] hdr12 [OF c(2), of u'] c(2) by blast
    qed
    then show ?thesis using m2(2) chain_cong [of "coalesce (mark_free a bs)" ?m3 m2] by blast
  qed
  have keep: "?m3 x = hmem h x" if c: "(c, u, False) \<in> set bs" "c \<noteq> a" "in_rg x c (12 + unat u)" for c u x
  proof -
    have na: "\<not> in_rg x a (12 + unat s)" by (rule ext [OF c])
    have "?m3 x = m2 x" using pay [of x] na by (intro write32_other) blast
    moreover have "m2 x = ?m1 x"
    proof (rule ccontr)
      assume "m2 x \<noteq> ?m1 x"
      then obtain d t where d: "(d, t, True) \<in> set (mark_free a bs)" "in_rg x d 12"
        using df by blast
      then obtain g where g: "(d, t, g) \<in> set bs" "d = a \<or> g" by (auto simp: mark_free_mem)
      have "d \<noteq> c" using g c(2) laid_unique [OF ld c(1), of t g] by auto
      then show False
        using extents_disjoint [OF ld hi g(1) c(1)] hdr12 [OF d(2), of t] c(3) by blast
    qed
    moreover have "?m1 x = hmem h x"
      using na hdr12 [of x a s] by (intro header_writes_local(2)) blast
    ultimately show ?thesis by simp
  qed
  show ?thesis
    using run ch3 keep laid_coalesce [OF ld1 hi] by (auto simp: heap_inv_def hi_def)
qed

section \<open>The properties of the heap\<close>

lemma heap_init_inv [inv_intros]:
  "heap_inv (heap_init m) [(HEAP_START, HEAP_SIZE - hdr, True)]"
  by (simp add: heap_inv_def heap_init_def Let_def frame_simps HEAP_START_def HEAP_SIZE_def)

lemma kmalloc_refines:
  assumes "heap_inv h bs" and "sz \<noteq> 0"
  shows "case first_fit sz bs of
      None \<Rightarrow> kmalloc h sz = Some (0, h)
    | Some (p, bs') \<Rightarrow> \<exists>h'. kmalloc h sz = Some (p, h') \<and> heap_inv h' bs'
        \<and> (\<forall>x. hmem h' x \<noteq> hmem h x \<longrightarrow> (\<exists>a s. (a, s, True) \<in> set bs \<and> p = a + 12 \<and> sz \<le> s
             \<and> in_rg x a (12 + unat s)))"
proof -
  define hi where "hi = unat HEAP_START + unat HEAP_SIZE"
  have hi: "hi < 2 ^ 32" by (simp add: hi_def HEAP_START_def HEAP_SIZE_def)
  have ch: "chain (hmem h) (heap_head h) bs" and ld: "laid (unat HEAP_START) bs hi"
    using assms(1) by (simp_all add: heap_inv_def hi_def)
  note ref = kmalloc_loop_refines [OF ch ld hi, of sz]
  show ?thesis
  proof (cases "first_fit sz bs")
    case None
    then show ?thesis using ref assms(2) by (simp add: kmalloc_def)
  next
    case (Some r)
    obtain p bs' where r: "r = (p, bs')" by (cases r)
    obtain m' where m': "kmalloc_loop (hmem h) sz (heap_head h) = Some (p, m')"
      "chain m' (heap_head h) bs'" "laid (unat HEAP_START) bs' hi"
      and df: "\<forall>x. m' x \<noteq> hmem h x \<longrightarrow> (\<exists>a s. (a, s, True) \<in> set bs \<and> p = a + 12 \<and> sz \<le> s
             \<and> in_rg x a (12 + unat s))"
      using ref Some r by auto
    have "kmalloc h sz = Some (p, h\<lparr>hmem := m'\<rparr>)" using m'(1) assms(2) by (simp add: kmalloc_def)
    moreover have "heap_inv (h\<lparr>hmem := m'\<rparr>) bs'"
      using m'(2,3) by (simp add: heap_inv_def hi_def)
    ultimately show ?thesis using df Some r by auto
  qed
qed

lemma first_fit_chosen:
  "first_fit n bs = Some (p, bs') \<Longrightarrow> \<exists>a s. (a, s, True) \<in> set bs \<and> p = a + 12 \<and> n \<le> s \<and> (a, n, False) \<in> set bs'"
proof (induction bs arbitrary: bs')
  case (Cons b bs)
  obtain a s f where b: "b = (a, s, f)" by (cases b)
  show ?case
  proof (cases "f \<and> n \<le> s")
    case True
    then show ?thesis using Cons.prems b by (auto split: if_splits)
  next
    case False
    then obtain bs'' where "first_fit n bs = Some (p, bs'')" "bs' = (a, s, f) # bs''"
      using Cons.prems b by auto
    then show ?thesis using Cons.IH by fastforce
  qed
qed simp

text \<open>
  C1: on a well-formed heap \<open>kmalloc\<close> always returns.  It is first fit on the list of blocks:
  when no free block is large enough it returns the null pointer and changes nothing; otherwise
  the pointer it returns is the payload of a free block of at least the size asked for, the heap
  stays well formed, and not one byte of any allocated block, header or payload, is changed.
\<close>

theorem kmalloc_first_fit:
  assumes "heap_inv h bs" and "sz \<noteq> 0"
  shows "case first_fit sz bs of
      None \<Rightarrow> kmalloc h sz = Some (0, h)
    | Some (p, bs') \<Rightarrow> \<exists>h' a s. kmalloc h sz = Some (p, h') \<and> heap_inv h' bs'
        \<and> (a, s, True) \<in> set bs \<and> p = a + 12 \<and> sz \<le> s \<and> (a, sz, False) \<in> set bs'
        \<and> (\<forall>c u x. (c, u, False) \<in> set bs \<and> in_rg x c (12 + unat u) \<longrightarrow> hmem h' x = hmem h x)"
proof (cases "first_fit sz bs")
  case None
  then show ?thesis using kmalloc_refines [OF assms] by simp
next
  case (Some r)
  obtain p bs' where r: "r = (p, bs')" by (cases r)
  obtain h' where h': "kmalloc h sz = Some (p, h')" "heap_inv h' bs'"
    and df: "\<forall>x. hmem h' x \<noteq> hmem h x \<longrightarrow> (\<exists>a s. (a, s, True) \<in> set bs \<and> p = a + 12 \<and> sz \<le> s
      \<and> in_rg x a (12 + unat s))"
    using kmalloc_refines [OF assms] Some r by auto
  obtain a s where a: "(a, s, True) \<in> set bs" "p = a + 12" "sz \<le> s" "(a, sz, False) \<in> set bs'"
    using first_fit_chosen [of sz bs p bs'] Some r by blast
  have keep: "hmem h' x = hmem h x" if c: "(c, u, False) \<in> set bs" "in_rg x c (12 + unat u)" for c u x
  proof (rule ccontr)
    assume "hmem h' x \<noteq> hmem h x"
    then obtain d t where d: "(d, t, True) \<in> set bs" "in_rg x d (12 + unat t)" using df by blast
    have ld: "laid (unat HEAP_START) bs (unat HEAP_START + unat HEAP_SIZE)"
      using assms(1) by (simp add: heap_inv_def)
    have "d \<noteq> c" using laid_unique [OF ld c(1) , of t True] d(1) by blast
    then show False
      using extents_disjoint [OF ld _ d(1) c(1) _ d(2)] c(2)
      by (simp add: HEAP_START_def HEAP_SIZE_def)
  qed
  show ?thesis using Some r h' a keep by auto
qed

theorem kmalloc_first_fit_witness:
  "\<exists>h'. kmalloc (heap_init (\<lambda>_. 0)) 100 = Some (HEAP_START + 12, h')
    \<and> heap_inv h' [(HEAP_START, 100, False), (HEAP_START + 112, HEAP_SIZE - 124, True)]"
  using kmalloc_first_fit [OF heap_init_inv [of "\<lambda>_. 0"], of 100]
  by (simp add: HEAP_START_def HEAP_SIZE_def)

text \<open>
  C2: freeing a live block of at least 4 bytes.  When every recursive call of the merging loop
  is one that does nothing (\<open>benign\<close>: the byte 8 below the header after each merged pair is
  not 0), \<open>kfree\<close> returns, marks the block free and merges each free block with its free
  successor in one pass; the heap stays well formed and no other live block loses a byte.
\<close>

theorem kfree_marks_and_merges:
  assumes "heap_inv h bs" and "(a, s, False) \<in> set bs" and "4 \<le> unat s"
    and "benign (set_free a True (hmem h)) (mark_free a bs)" and "length bs + 3 \<le> fuel"
  shows "\<exists>h'. kfree fuel h (a + 12) = Some h' \<and> heap_inv h' (coalesce (mark_free a bs))
    \<and> (\<forall>c u x. (c, u, False) \<in> set bs \<and> c \<noteq> a \<and> in_rg x c (12 + unat u) \<longrightarrow> hmem h' x = hmem h x)"
  using kfree_refines [OF assms] .

definition heap_after :: "(u32 \<times> heap) option \<Rightarrow> heap" where
  "heap_after r = (case r of None \<Rightarrow> \<lparr>hmem = (\<lambda>_. 0), heap_head = 0\<rparr> | Some (_, h) \<Rightarrow> h)"

text \<open>A heap fresh from boot on which one block of 16 bytes and one of 32 were allocated.\<close>

definition demo_heap :: heap where
  "demo_heap = heap_after (kmalloc (heap_after (kmalloc (heap_init (\<lambda>_. 0)) 16)) 32)"

lemma demo_heap_inv:
  "heap_inv demo_heap [(0x200000, 16, False), (0x20001C, 32, False), (0x200048, 0x2FFFAC, True)]"
proof -
  obtain h1 where h1: "kmalloc (heap_init (\<lambda>_. 0)) 16 = Some (0x20000C, h1)"
    "heap_inv h1 [(0x200000, 16, False), (0x20001C, 0x2FFFD8, True)]"
    using kmalloc_refines [OF heap_init_inv [of "\<lambda>_. 0"], of 16]
    by (auto simp: HEAP_START_def HEAP_SIZE_def)
  obtain h2 where h2: "kmalloc h1 32 = Some (0x200028, h2)"
    "heap_inv h2 [(0x200000, 16, False), (0x20001C, 32, False), (0x200048, 0x2FFFAC, True)]"
    using kmalloc_refines [OF h1(2), of 32] by auto
  show ?thesis using h1(1) h2 by (simp add: demo_heap_def heap_after_def)
qed

theorem kfree_marks_and_merges_witness:
  "\<exists>h'. kfree 6 demo_heap 0x200028 = Some h'
     \<and> heap_inv h' [(0x200000, 16, False), (0x20001C, 0x2FFFD8, True)]"
  using kfree_marks_and_merges [OF demo_heap_inv, of "0x20001C" 32 6]
  by (auto simp: mark_free_def)

end
