(* ===== verification/HeapRun.thy ===== *)
theory HeapRun
  imports Heap
begin

text \<open>
  A run of the heap of \<open>src/kernel/mm/heap.cpp\<close> from boot, evaluated byte for byte: three
  blocks of 16 bytes are allocated and the first two are freed again.  The merge of the two
  free blocks calls \<open>kfree\<close> on the header of the third block, which is still allocated.
\<close>

section \<open>Evaluating reads of a memory written at literal addresses\<close>

lemma memset_zero [simp]: "memset (\<lambda>_. 0) a 0 n = (\<lambda>_. 0)"
  by (rule ext) (simp add: memset_eq)

lemma read32_write32_apart:
  "4 \<le> unat (b - a) \<Longrightarrow> 4 \<le> unat (a - b) \<Longrightarrow> read32 (write32 m a v) b = read32 m b"
proof (rule read32_cong, rule write32_other)
  fix x assume h: "4 \<le> unat (b - a)" "4 \<le> unat (a - b)" "in_rg x b 4"
  have d: "unat (a - b) = (if b = a then 0 else 2 ^ 32 - unat (b - a))"
    using unat_sub_if_size [of a b] unat_sub_if_size [of b a] unat_less_lit [of a]
    by (auto simp: word_size word_unat_eq_iff)
  have "unat (x - a) = unat ((x - b) + (b - a))" by simp
  also have "\<dots> = unat (x - b) + unat (b - a)"
    by (rule unat_add_no_wrap) (use h d unat_less_lit [of "b - a"] in \<open>auto simp: in_rg_def split: if_splits\<close>)
  finally show "\<not> in_rg x a 4" using h by (simp add: in_rg_def)
qed

lemma read32_upd_apart: "4 \<le> unat (a - b) \<Longrightarrow> read32 (m(a := v)) b = read32 m b"
  by (rule read32_cong) (auto simp: in_rg_def)

lemma write32_byte: "4 \<le> unat (x - a) \<Longrightarrow> write32 m a v x = m x"
  by (rule write32_other) (simp add: in_rg_def)

lemma read32_zero: "read32 (\<lambda>_. 0) a = 0" by (simp add: read32_def)

lemmas heap_eval = take_block_def set_size_def set_free_def set_next_def hb_size_def hb_free_def hb_next_def HEAP_START_def HEAP_SIZE_def Let_def
  read32_write32_apart read32_upd_apart write32_byte read32_zero

section \<open>The run\<close>

definition boot_mem :: mem where
  "boot_mem = set_next HEAP_START 0 (set_free HEAP_START True
     (set_size HEAP_START (HEAP_SIZE - 12) (\<lambda>_. 0)))"

lemma heap_init_boot_mem: "heap_init (\<lambda>_. 0) = \<lparr>hmem = boot_mem, heap_head = 0x200000\<rparr>"
  by (simp add: heap_init_def boot_mem_def Let_def HEAP_START_def)

definition run_m1 :: mem where
  "run_m1 = take_block boot_mem 0x200000 16"

definition run_m2 :: mem where
  "run_m2 = take_block run_m1 0x20001C 16"

definition run_m3 :: mem where
  "run_m3 = take_block run_m2 0x200038 16"

lemma run_alloc1: "kmalloc \<lparr>hmem = boot_mem, heap_head = 0x200000\<rparr> 16 = Some (0x20000C, \<lparr>hmem = run_m1, heap_head = 0x200000\<rparr>)"
  by (simp add: kmalloc_def run_m1_def kmalloc_loop.simps [where current = "0x200000"]) (simp add: boot_mem_def heap_eval)

lemma boot_mem_fields: "hb_next boot_mem 0x200000 = 0" "hb_free boot_mem 0x200000" "hb_size boot_mem 0x200000 = 0x2FFFF4"
  by (simp_all add: boot_mem_def heap_eval)

lemma run_m1_fields: "hb_next run_m1 0x200000 = 0x20001C" "hb_next run_m1 0x20001C = 0" 
 "\<not> hb_free run_m1 0x200000" "hb_free run_m1 0x20001C" "hb_size run_m1 0x200000 = 16" "hb_size run_m1 0x20001C = 0x2FFFD8" 
  by (simp_all add: run_m1_def boot_mem_def) (simp_all add: heap_eval)

lemma run_alloc2: "kmalloc \<lparr>hmem = run_m1, heap_head = 0x200000\<rparr> 16 = Some (0x200028, \<lparr>hmem = run_m2, heap_head = 0x200000\<rparr>)"
  by (simp add: kmalloc_def run_m1_fields run_m2_def kmalloc_loop.simps [where current = "0x200000"] kmalloc_loop.simps [where current = "0x20001C"])

lemma run_m2_fields: "hb_next run_m2 0x200000 = 0x20001C" "hb_next run_m2 0x20001C = 0x200038"  "hb_next run_m2 0x200038 = 0"
 "\<not> hb_free run_m2 0x200000" "\<not> hb_free run_m2 0x20001C" "hb_free run_m2 0x200038" "hb_size run_m2 0x200000 = 16" "hb_size run_m2 0x20001C = 16" "hb_size run_m2 0x200038 = 0x2FFFBC"
  by (simp_all add: run_m2_def run_m1_def boot_mem_def) (simp_all add: heap_eval)

lemma run_alloc3: "kmalloc \<lparr>hmem = run_m2, heap_head = 0x200000\<rparr> 16 = Some (0x200044, \<lparr>hmem = run_m3, heap_head = 0x200000\<rparr>)"
  by (simp add: kmalloc_def run_m2_fields run_m3_def kmalloc_loop.simps [where current = "0x200000"] kmalloc_loop.simps [where current = "0x20001C"] kmalloc_loop.simps [where current = "0x200038"])

lemma run_m3_fields: "hb_next run_m3 0x200000 = 0x20001C" "hb_next run_m3 0x20001C = 0x200038"  "hb_next run_m3 0x200038 = 0x200054" "hb_next run_m3 0x200054 = 0"
 "\<not> hb_free run_m3 0x200000" "\<not> hb_free run_m3 0x20001C" "\<not> hb_free run_m3 0x200038" "hb_free run_m3 0x200054" "hb_size run_m3 0x200000 = 16" "hb_size run_m3 0x20001C = 16" "hb_size run_m3 0x200038 = 16"
  by (simp_all add: run_m3_def run_m2_def run_m1_def boot_mem_def) (simp_all add: heap_eval)

lemma kfree_num: "kfree_fuel (numeral k) head m ptr =
     (if ptr = 0 then Some m
      else if \<not> in_heap_range ptr then Some m
      else let block = ptr - hdr in
        if hb_free m block then Some m
        else case merge_loop (pred_numeral k) head (set_free block True m) head of None \<Rightarrow> None
          | Some m' \<Rightarrow> Some (write32 m' ptr 0))"
 "merge_loop (numeral k) head m current =
     (if current = 0 then Some m
      else if hb_free m current \<and> hb_next m current \<noteq> 0 \<and> hb_free m (hb_next m current)
      then
        let nx = hb_next m current;
            m1 = set_size current (hb_size m current + (hb_size m nx + hdr)) m;
            m2 = set_next current (hb_next m1 nx) m1
        in case kfree_fuel (pred_numeral k) head m2 (hb_next m2 current) of None \<Rightarrow> None
          | Some m3 \<Rightarrow> merge_loop (pred_numeral k) head m3 (hb_next m3 current)
      else merge_loop (pred_numeral k) head m (hb_next m current))"
  by (simp_all only: numeral_eq_Suc kfree_fuel.simps merge_loop.simps)

definition run_f3 :: mem where
  "run_f3 = set_free 0x200000 True run_m3"

lemma run_f3_fields: "hb_next run_f3 0x200000 = 0x20001C" "hb_next run_f3 0x20001C = 0x200038"  "hb_next run_f3 0x200038 = 0x200054" "hb_next run_f3 0x200054 = 0"
 "hb_free run_f3 0x200000" "\<not> hb_free run_f3 0x20001C" "\<not> hb_free run_f3 0x200038" "hb_free run_f3 0x200054"
  by (simp_all add: run_f3_def run_m3_def run_m2_def run_m1_def boot_mem_def) (simp_all add: heap_eval)

definition run_m4 :: mem where
  "run_m4 = write32 run_f3 0x20000C 0"

lemma run_merge3: "merge_loop 12 0x200000 run_f3 0x200000 = Some run_f3"
  by (simp add: kfree_num run_f3_fields)

lemma run_free1: "kfree 13 \<lparr>hmem = run_m3, heap_head = 0x200000\<rparr> 0x20000C = Some \<lparr>hmem = run_m4, heap_head = 0x200000\<rparr>"
  by (simp add: kfree_def kfree_num(1) [of "num.Bit1 (num.Bit0 (num.Bit1 num.One))"] in_heap_range_def HEAP_START_def HEAP_SIZE_def run_m3_fields run_f3_def [symmetric] run_merge3 run_m4_def)

lemma run_m4_fields: "hb_next run_m4 0x200000 = 0x20001C" "hb_next run_m4 0x20001C = 0x200038"  "hb_next run_m4 0x200038 = 0x200054" "hb_next run_m4 0x200054 = 0"
 "hb_free run_m4 0x200000" "\<not> hb_free run_m4 0x20001C" "\<not> hb_free run_m4 0x200038" "hb_free run_m4 0x200054" "hb_size run_m4 0x200000 = 16" "hb_size run_m4 0x20001C = 16" "hb_size run_m4 0x200038 = 16"
  "run_m4 0x200030 = 0"
  apply (simp_all add: run_m4_def run_f3_def run_m3_def run_m2_def run_m1_def boot_mem_def) apply (simp_all add: heap_eval)
  done

definition run_m5 :: mem where
  "run_m5 = set_next 0x200000 0x200038 (set_size 0x200000 44 (set_free 0x20001C True run_m4))"

lemma run_m5_fields: "hb_next run_m5 0x200000 = 0x200038" "hb_next run_m5 0x200038 = 0x200054" "hb_next run_m5 0x200054 = 0"
 "hb_free run_m5 0x200000" "\<not> hb_free run_m5 0x200038" "hb_free run_m5 0x200054" "\<not> hb_free run_m5 0x20002C" 
  by (simp_all add: run_m5_def run_m4_def run_f3_def run_m3_def run_m2_def run_m1_def boot_mem_def) (simp_all add: heap_eval)

definition run_m6 :: mem where
  "run_m6 = set_free 0x20002C True run_m5"

lemma run_m6_fields: "hb_next run_m6 0x200000 = 0x200038" "hb_next run_m6 0x200038 = 0x200054" "hb_next run_m6 0x200054 = 0"
 "hb_free run_m6 0x200000" "\<not> hb_free run_m6 0x200038" "hb_free run_m6 0x200054"
  by (simp_all add: run_m6_def run_m5_def run_m4_def run_f3_def run_m3_def run_m2_def run_m1_def boot_mem_def) (simp_all add: heap_eval)

definition run_m7 :: mem where
  "run_m7 = write32 run_m6 0x200038 0"

lemma run_m7_fields: "hb_next run_m7 0x200000 = 0x200038" "hb_next run_m7 0x200038 = 0x200054" "hb_next run_m7 0x200054 = 0"
 "hb_free run_m7 0x200000" "\<not> hb_free run_m7 0x200038" "hb_free run_m7 0x200054" "hb_size run_m7 0x200038 = 0"
  by (simp_all add: run_m7_def run_m6_def run_m5_def run_m4_def run_f3_def run_m3_def run_m2_def run_m1_def boot_mem_def) (simp_all add: heap_eval)

lemma run_merge6: "merge_loop 10 0x200000 run_m6 0x200000 = Some run_m6"
  by (simp add: kfree_num run_m6_fields)

lemma run_inner_free: "kfree_fuel 11 0x200000 run_m5 0x200038 = Some run_m7"
  by (simp add: kfree_num(1) run_merge6 in_heap_range_def run_m5_fields HEAP_START_def HEAP_SIZE_def run_m6_def [symmetric] run_m7_def)

lemma run_merge7: "merge_loop 11 0x200000 run_m7 0x200038 = Some run_m7"
  by (simp add: kfree_num run_m7_fields)

definition run_f4 :: mem where
  "run_f4 = set_free 0x20001C True run_m4"

lemma run_f4_fields: "hb_next run_f4 0x200000 = 0x20001C" "hb_next run_f4 0x20001C = 0x200038" "hb_next run_f4 0x200038 = 0x200054"
 "hb_free run_f4 0x200000" "hb_free run_f4 0x20001C"  "hb_size run_f4 0x200000 = 16" "hb_size run_f4 0x20001C = 16"
 "hb_next (set_size 0x200000 44 run_f4) 0x20001C = 0x200038"
  by (simp_all add: run_f4_def run_m4_def run_f3_def run_m3_def run_m2_def run_m1_def boot_mem_def) (simp_all add: heap_eval)

lemma run_merge4: "merge_loop 12 0x200000 run_f4 0x200000 = Some run_m7"
  by (simp add: kfree_num(2) [of "num.Bit0 (num.Bit0 (num.Bit1 num.One))"] run_f4_fields Let_def frame_simps
   run_m5_def [folded run_f4_def, symmetric] run_inner_free run_m5_fields run_m7_fields run_merge7)

lemma run_free2: "kfree 13 \<lparr>hmem = run_m4, heap_head = 0x200000\<rparr> 0x200028 = Some \<lparr>hmem = write32 run_m7 0x200028 0, heap_head = 0x200000\<rparr>"
  by (simp add: kfree_def kfree_num(1) [of "num.Bit1 (num.Bit0 (num.Bit1 num.One))"] in_heap_range_def HEAP_START_def HEAP_SIZE_def run_m4_fields run_merge4 run_f4_def [symmetric])

lemma run_end_fields: "hb_size (write32 run_m7 0x200028 0) 0x200038 = 0"
   "\<not> hb_free (write32 run_m7 0x200028 0) 0x200038"
  using run_m7_fields by (simp_all add: heap_eval)

text \<open>
  The merging loop frees a live block.  From boot, allocate three blocks of 16 bytes, free
  the first, free the second.  The merge of the two calls \<open>kfree\<close> on the header address of the
  third block; the byte that call takes for a \<open>free\<close> flag lies in the freed second block, so
  it goes on and stores 0 through its argument.  The third block, never freed, is recorded
  with a payload of size 0 instead of 16.
\<close>

lemma kfree_merge_clobbers_live_header:
  "\<exists>h1 h2 h3 h4 h5. kmalloc (heap_init (\<lambda>_. 0)) 16 = Some (0x20000C, h1)
     \<and> kmalloc h1 16 = Some (0x200028, h2) \<and> kmalloc h2 16 = Some (0x200044, h3)
     \<and> kfree 13 h3 0x20000C = Some h4 \<and> kfree 13 h4 0x200028 = Some h5
     \<and> \<not> hb_free (hmem h4) 0x200038 \<and> hb_size (hmem h4) 0x200038 = 16
     \<and> \<not> hb_free (hmem h5) 0x200038 \<and> hb_size (hmem h5) 0x200038 = 0"
  by (intro exI conjI, subst heap_init_boot_mem, rule run_alloc1, rule run_alloc2, rule run_alloc3,
      rule run_free1, rule run_free2) (simp_all add: run_m4_fields run_end_fields)

end
