(* ===== verification/DataQueue.thy ===== *)
theory DataQueue
  imports Prelude
begin

text \<open>
  \<open>src/kernel/include/lib/data/queue.hpp\<close>: the template \<open>data::queue\<close>, a singly linked list
  of heap-allocated nodes with a head and a tail pointer.  The nodes a queue owns are a map
  from addresses to nodes: \<open>kmalloc\<close> adds one at the address it returns, an argument of the
  model, and \<open>kfree\<close> removes one.  \<open>None\<close> is an access through a null pointer or to a node
  that does not exist.

  The contract of a queue is the locale \<open>fifo\<close>; the linked queue is its interpretation.
\<close>

section \<open>The linked queue\<close>

record 'a qnode =
  nd_value :: 'a
  nd_next :: u32

record 'a queue =
  q_nodes :: "u32 \<Rightarrow> 'a qnode option"
  q_head :: u32
  q_tail :: u32
  q_count :: i32

text \<open>The default constructor does not set \<open>count\<close>: it keeps the value \<open>c\<close> the memory had.\<close>

definition queue_new :: "i32 \<Rightarrow> 'a queue" where
  "queue_new c = \<lparr>q_nodes = (\<lambda>_. None), q_head = 0, q_tail = 0, q_count = c\<rparr>"

definition q_empty :: "'a queue \<Rightarrow> bool" where
  "q_empty q \<longleftrightarrow> q_head q = 0"

definition q_size :: "'a queue \<Rightarrow> u32" where
  "q_size q = q_count q"

definition q_push :: "u32 \<Rightarrow> 'a \<Rightarrow> 'a queue \<Rightarrow> 'a queue option" where
  "q_push n v q =
     (if n = 0 then None
      else let q1 = q\<lparr>q_nodes := (q_nodes q)(n \<mapsto> \<lparr>nd_value = v, nd_next = 0\<rparr>)\<rparr> in
        if q_tail q1 = 0
        then Some (q1\<lparr>q_head := n, q_tail := n, q_count := q_count q1 + 1\<rparr>)
        else case q_nodes q1 (q_tail q1) of None \<Rightarrow> None
          | Some t \<Rightarrow> Some (q1\<lparr>q_nodes := (q_nodes q1)(q_tail q1 \<mapsto> t\<lparr>nd_next := n\<rparr>),
                q_tail := n, q_count := q_count q1 + 1\<rparr>))"

text \<open>An empty queue gives \<open>T()\<close>, here \<open>dflt\<close>.\<close>

definition q_pop :: "'a \<Rightarrow> 'a queue \<Rightarrow> ('a \<times> 'a queue) option" where
  "q_pop dflt q =
     (if q_head q = 0 then Some (dflt, q)
      else case q_nodes q (q_head q) of None \<Rightarrow> None
        | Some nd \<Rightarrow>
          let n = q_head q;
              val = nd_value nd;
              q1 = q\<lparr>q_head := nd_next nd\<rparr>;
              q2 = (if q_head q1 = 0 then q1\<lparr>q_tail := 0\<rparr> else q1)
          in Some (val, q2\<lparr>q_nodes := (q_nodes q2)(n := None), q_count := q_count q2 - 1\<rparr>))"

text \<open>\<open>requeue\<close> for a type whose values convert to bool by \<open>nz\<close>; \<open>n\<close> is the new node.\<close>

definition q_requeue :: "'a \<Rightarrow> ('a \<Rightarrow> bool) \<Rightarrow> u32 \<Rightarrow> 'a queue \<Rightarrow> ('a \<times> 'a queue) option" where
  "q_requeue dflt nz n q =
     (case q_pop dflt q of None \<Rightarrow> None
      | Some (val, q1) \<Rightarrow>
          if nz val then map_option (Pair val) (q_push n val q1) else Some (val, q1))"

definition q_front :: "'a queue \<Rightarrow> 'a option" where
  "q_front q = map_option nd_value (q_nodes q (q_head q))"

text \<open>
  The copy constructor pushes the values of the other queue one by one; \<open>ns\<close> are the
  addresses \<open>kmalloc\<close> returns, in order.  \<open>fuel\<close> bounds the walk over the nodes.
\<close>

fun q_copy_loop :: "nat \<Rightarrow> (u32 \<Rightarrow> 'a qnode option) \<Rightarrow> u32 \<Rightarrow> u32 list \<Rightarrow> 'a queue \<Rightarrow> 'a queue option" where
  "q_copy_loop fuel other cur ns q =
     (if cur = 0 then Some q
      else case (fuel, ns, other cur) of
        (Suc k, n # ns', Some nd) \<Rightarrow>
          (case q_push n (nd_value nd) q of None \<Rightarrow> None
           | Some q' \<Rightarrow> q_copy_loop k other (nd_next nd) ns' q')
      | _ \<Rightarrow> None)"

definition q_copy :: "nat \<Rightarrow> u32 list \<Rightarrow> 'a queue \<Rightarrow> 'a queue option" where
  "q_copy fuel ns other = q_copy_loop fuel (q_nodes other) (q_head other) ns (queue_new 0)"

text \<open>The destructor, as the addresses it passes to \<open>kfree\<close>.\<close>

fun q_destroy_loop :: "nat \<Rightarrow> (u32 \<Rightarrow> 'a qnode option) \<Rightarrow> u32 \<Rightarrow> u32 list option" where
  "q_destroy_loop fuel m cur =
     (if cur = 0 then Some []
      else case (fuel, m cur) of
        (Suc k, Some nd) \<Rightarrow> map_option (Cons cur) (q_destroy_loop k m (nd_next nd))
      | _ \<Rightarrow> None)"

definition q_destroy :: "nat \<Rightarrow> 'a queue \<Rightarrow> u32 list option" where
  "q_destroy fuel q =
     map_option (\<lambda>fs. fs @ (if q_head q \<noteq> 0 then [q_head q] else [])
         @ (if q_tail q \<noteq> 0 then [q_tail q] else []))
       (q_destroy_loop fuel (q_nodes q) (q_head q))"

declare q_copy_loop.simps [simp del] q_destroy_loop.simps [simp del]

section \<open>The contract of a queue\<close>

text \<open>Running a queue: pushing values at given nodes, and taking a number of values out.\<close>

fun push_all :: "('n \<Rightarrow> 'a \<Rightarrow> 'q \<Rightarrow> 'q option) \<Rightarrow> ('n \<times> 'a) list \<Rightarrow> 'q \<Rightarrow> 'q option" where
  "push_all psh [] q = Some q"
| "push_all psh ((n, v) # xs) q = (case psh n v q of None \<Rightarrow> None | Some q' \<Rightarrow> push_all psh xs q')"

fun pop_many :: "('q \<Rightarrow> ('a \<times> 'q) option) \<Rightarrow> nat \<Rightarrow> 'q \<Rightarrow> ('a list \<times> 'q) option" where
  "pop_many pp 0 q = Some ([], q)"
| "pop_many pp (Suc k) q =
     (case pp q of None \<Rightarrow> None
      | Some (v, q') \<Rightarrow> (case pop_many pp k q' of None \<Rightarrow> None
          | Some (vs, q'') \<Rightarrow> Some (v # vs, q'')))"

text \<open>
  \<open>holds q xs\<close>: the queue \<open>q\<close> holds the values of \<open>xs\<close>, oldest first, each at its node.
\<close>

locale fifo =
  fixes is_empty :: "'q \<Rightarrow> bool"
    and push :: "'n \<Rightarrow> 'a \<Rightarrow> 'q \<Rightarrow> 'q option"
    and pop :: "'q \<Rightarrow> ('a \<times> 'q) option"
    and holds :: "'q \<Rightarrow> ('n \<times> 'a) list \<Rightarrow> bool"
    and usable :: "'n \<Rightarrow> bool"
  assumes empty_law: "holds q xs \<Longrightarrow> is_empty q \<longleftrightarrow> xs = []"
    and push_law: "holds q xs \<Longrightarrow> usable n \<Longrightarrow> n \<notin> fst ` set xs
      \<Longrightarrow> \<exists>q'. push n v q = Some q' \<and> holds q' (xs @ [(n, v)])"
    and pop_law: "holds q ((n, v) # xs) \<Longrightarrow> \<exists>q'. pop q = Some (v, q') \<and> holds q' xs"
begin

lemma push_all_holds:
  "holds q xs \<Longrightarrow> \<forall>n \<in> fst ` set ys. usable n \<Longrightarrow> distinct (map fst (xs @ ys))
     \<Longrightarrow> \<exists>q'. push_all push ys q = Some q' \<and> holds q' (xs @ ys)"
proof (induction ys arbitrary: q xs)
  case Nil
  then show ?case by simp
next
  case (Cons y ys)
  obtain n v where y: "y = (n, v)" by (cases y)
  obtain q1 where q1: "push n v q = Some q1" "holds q1 (xs @ [(n, v)])"
    using push_law [OF Cons.prems(1), of n v] Cons.prems(2,3) y by auto
  show ?case
    using Cons.IH [OF q1(2)] Cons.prems(2,3) q1(1) y by auto
qed

lemma pop_many_holds:
  "holds q (xs @ ys) \<Longrightarrow> \<exists>q'. pop_many pop (length xs) q = Some (map snd xs, q') \<and> holds q' ys"
proof (induction xs arbitrary: q)
  case Nil
  then show ?case by simp
next
  case (Cons x xs)
  obtain n v where x: "x = (n, v)" by (cases x)
  obtain q1 where q1: "pop q = Some (v, q1)" "holds q1 (xs @ ys)"
    using pop_law [of q n v "xs @ ys"] Cons.prems x by auto
  then show ?case using Cons.IH [OF q1(2)] x by auto
qed

text \<open>First in, first out: what was queued before comes out before what is pushed now.\<close>

lemma fifo_order:
  assumes "holds q xs" and "\<forall>n \<in> fst ` set ys. usable n" and "distinct (map fst (xs @ ys))"
  shows "\<exists>q1 q2. push_all push ys q = Some q1
    \<and> pop_many pop (length xs + length ys) q1 = Some (map snd xs @ map snd ys, q2)
    \<and> is_empty q2"
proof -
  obtain q1 where q1: "push_all push ys q = Some q1" "holds q1 (xs @ ys)"
    using push_all_holds [OF assms] by blast
  obtain q2 where q2: "pop_many pop (length (xs @ ys)) q1 = Some (map snd (xs @ ys), q2)" "holds q2 []"
    using pop_many_holds [of q1 "xs @ ys" "[]"] q1(2) by auto
  show ?thesis using q1(1) q2 empty_law [of q2 "[]"] by auto
qed

end

section \<open>The linked queue keeps the contract\<close>

text \<open>The nodes from \<open>p\<close> on are those of the list, in order, and end in a null pointer.\<close>

fun linked :: "(u32 \<Rightarrow> 'a qnode option) \<Rightarrow> u32 \<Rightarrow> (u32 \<times> 'a) list \<Rightarrow> bool" where
  "linked m p [] \<longleftrightarrow> p = 0"
| "linked m p ((a, v) # xs) \<longleftrightarrow>
     p = a \<and> a \<noteq> 0 \<and> (\<exists>nx. m a = Some \<lparr>nd_value = v, nd_next = nx\<rparr> \<and> linked m nx xs)"

definition q_holds :: "'a queue \<Rightarrow> (u32 \<times> 'a) list \<Rightarrow> bool" where
  "q_holds q xs \<longleftrightarrow> linked (q_nodes q) (q_head q) xs \<and> distinct (map fst xs)
     \<and> q_tail q = (if xs = [] then 0 else fst (last xs))"

lemma linked_cong: "\<forall>a \<in> fst ` set xs. m' a = m a \<Longrightarrow> linked m' p xs = linked m p xs"
  by (induction m p xs rule: linked.induct) auto

lemma linked_upd: "a \<notin> fst ` set xs \<Longrightarrow> linked (m(a := v)) p xs = linked m p xs"
  by (rule linked_cong) auto

lemma linked_mem: "linked m p xs \<Longrightarrow> (a, v) \<in> set xs \<Longrightarrow> a \<noteq> 0 \<and> (\<exists>nx. m a = Some \<lparr>nd_value = v, nd_next = nx\<rparr>)"
  by (induction m p xs rule: linked.induct) auto

lemma linked_last:
  "linked m p (xs @ [(a, v)]) \<Longrightarrow> a \<notin> fst ` set xs \<Longrightarrow> n \<noteq> a \<Longrightarrow> n \<noteq> 0 \<Longrightarrow> n \<notin> fst ` set xs
   \<Longrightarrow> linked (m(n \<mapsto> \<lparr>nd_value = w, nd_next = 0\<rparr>, a \<mapsto> \<lparr>nd_value = v, nd_next = n\<rparr>)) p (xs @ [(a, v), (n, w)])"
proof (induction xs arbitrary: p)
  case (Cons x xs)
  obtain c u where x: "x = (c, u)" by (cases x)
  then show ?case using Cons by auto
qed auto

lemma q_push_holds:
  assumes "q_holds q xs" and "n \<noteq> 0" and "n \<notin> fst ` set xs"
  shows "\<exists>q'. q_push n v q = Some q' \<and> q_holds q' (xs @ [(n, v)]) \<and> q_count q' = q_count q + 1"
proof (cases xs rule: rev_cases)
  case Nil
  then show ?thesis using assms by (auto simp: q_holds_def q_push_def Let_def)
next
  case (snoc ys y)
  obtain a w where y: "y = (a, w)" by (cases y)
  have l: "linked (q_nodes q) (q_head q) (ys @ [(a, w)])" "distinct (map fst (ys @ [(a, w)]))"
    "q_tail q = a"
    using assms(1) snoc y by (auto simp: q_holds_def)
  have a: "a \<noteq> 0" "\<exists>nx. q_nodes q a = Some \<lparr>nd_value = w, nd_next = nx\<rparr>"
    using linked_mem [OF l(1), of a w] by auto
  show ?thesis
    using linked_last [OF l(1), of n v] l(2,3) a assms(2,3) snoc y
    by (auto simp: q_holds_def q_push_def Let_def)
qed

lemma q_pop_holds:
  assumes "q_holds q ((n, v) # xs)"
  shows "\<exists>q'. q_pop d q = Some (v, q') \<and> q_holds q' xs \<and> q_count q' = q_count q - 1"
proof -
  obtain nx where nx: "q_head q = n" "n \<noteq> 0" "q_nodes q n = Some \<lparr>nd_value = v, nd_next = nx\<rparr>"
    "linked (q_nodes q) nx xs" "n \<notin> fst ` set xs" "distinct (map fst xs)"
    "q_tail q = (if xs = [] then n else fst (last xs))"
    using assms by (auto simp: q_holds_def)
  have e: "nx = 0 \<longleftrightarrow> xs = []"
  proof (cases xs)
    case (Cons x ys)
    obtain c u where "x = (c, u)" by (cases x)
    then show ?thesis using nx(4) Cons by auto
  qed (use nx(4) in simp)
  show ?thesis
    using nx e by (auto simp: q_pop_def Let_def q_holds_def linked_upd)
qed

interpretation lq: fifo q_empty q_push "q_pop d" q_holds "\<lambda>n. n \<noteq> 0"
proof unfold_locales
  fix q :: "'a queue" and xs
  assume "q_holds q xs"
  then show "q_empty q \<longleftrightarrow> xs = []"
    by (cases xs) (auto simp: q_holds_def q_empty_def)
next
  fix q :: "'a queue" and xs n v
  assume "q_holds q xs" "n \<noteq> 0" "n \<notin> fst ` set xs"
  then show "\<exists>q'. q_push n v q = Some q' \<and> q_holds q' (xs @ [(n, v)])"
    using q_push_holds [of q xs n v] by auto
next
  fix q :: "'a queue" and n v xs
  assume "q_holds q ((n, v) # xs)"
  then show "\<exists>q'. q_pop d q = Some (v, q') \<and> q_holds q' xs"
    using q_pop_holds [of q n v xs d] by auto
qed

lemma queue_new_holds [simp]: "q_holds (queue_new c) []"
  by (simp add: q_holds_def queue_new_def)

text \<open>The number of elements is off by whatever \<open>count\<close> was at construction.\<close>

lemma push_all_count:
  "q_holds q xs \<Longrightarrow> \<forall>n \<in> fst ` set ys. n \<noteq> 0 \<Longrightarrow> distinct (map fst (xs @ ys))
     \<Longrightarrow> push_all q_push ys q = Some q' \<Longrightarrow> q_count q' = q_count q + of_nat (length ys)"
proof (induction ys arbitrary: q xs)
  case (Cons y ys)
  obtain n v where y: "y = (n, v)" by (cases y)
  obtain q1 where q1: "q_push n v q = Some q1" "q_holds q1 (xs @ [(n, v)])" "q_count q1 = q_count q + 1"
    using q_push_holds [OF Cons.prems(1), of n v] Cons.prems(2,3) y by auto
  show ?case
    using Cons.IH [OF q1(2)] Cons.prems(2-4) q1(1,3) y by simp
qed simp

lemma q_destroy_loop_linked:
  "linked m p xs \<Longrightarrow> length xs \<le> fuel \<Longrightarrow> q_destroy_loop fuel m p = Some (map fst xs)"
proof (induction m p xs arbitrary: fuel rule: linked.induct)
  case (1 m p)
  then show ?case by (simp add: q_destroy_loop.simps)
next
  case (2 m p a v xs)
  then obtain k where "fuel = Suc k" by (cases fuel) auto
  then show ?case using 2 by (auto simp: q_destroy_loop.simps [of "Suc k"])
qed

text \<open>
  C27: a queue built by its default constructor is first in, first out: after pushing values at
  distinct fresh nodes, popping as many values returns them in the order they were pushed and
  leaves the queue empty.  Its \<open>size()\<close> is the number pushed plus whatever the uninitialised
  \<open>count\<close> held, and its destructor hands the first and the last node to \<open>kfree\<close> twice.
\<close>

theorem queue_first_in_first_out:
  assumes "\<forall>n \<in> fst ` set xs. n \<noteq> 0" and "distinct (map fst xs)" and "xs \<noteq> []"
  shows "\<exists>q q'. push_all q_push xs (queue_new c) = Some q
    \<and> pop_many (q_pop d) (length xs) q = Some (map snd xs, q') \<and> q_empty q'
    \<and> q_size q = c + of_nat (length xs)
    \<and> q_destroy (length xs) q = Some (map fst xs @ [fst (hd xs), fst (last xs)])"
proof -
  obtain q q' where q: "push_all q_push xs (queue_new c) = Some q"
    "pop_many (q_pop d) (length xs) q = Some (map snd xs, q')" "q_empty q'"
    using lq.fifo_order [OF queue_new_holds, of xs c d] assms by auto
  have "q_holds q xs"
    using lq.push_all_holds [OF queue_new_holds [of c], of xs] assms q(1) by auto
  then have l: "linked (q_nodes q) (q_head q) xs" "q_tail q = fst (last xs)"
    using assms(3) by (auto simp: q_holds_def)
  obtain a v ys where x: "xs = (a, v) # ys" using assms(3) by (cases xs) auto
  have "last xs \<in> set xs" using assms(3) by simp
  then have ht: "q_head q = fst (hd xs)" "q_head q \<noteq> 0" "q_tail q \<noteq> 0"
    using l x assms(1) by auto
  show ?thesis
    using q push_all_count [OF queue_new_holds, of xs c q] assms l ht q_destroy_loop_linked [OF l(1), of "length xs"]
    by (auto simp: q_size_def q_destroy_def queue_new_def)
qed

theorem queue_first_in_first_out_witness:
  "\<exists>q q'. push_all q_push [(16, ''a''), (32, ''b'')] (queue_new 7) = Some q
    \<and> pop_many (q_pop []) 2 q = Some ([''a'', ''b''], q') \<and> q_empty q' \<and> q_size q = 9
    \<and> q_destroy 2 q = Some [16, 32, 16, 32]"
  using queue_first_in_first_out [of "[(16, ''a''), (32, ''b'')]" 7 "[]"]
  by (simp add: numeral_2_eq_2 [symmetric])

end
