(* ===== verification/Process.thy ===== *)
theory Process
  imports MathUtil StringUtil Memory
begin

text \<open>
  \<open>src/kernel/sched/process.cpp\<close> and \<open>process.hpp\<close>: the process control block, its creation and
  its state changes, and the context switch of \<open>src/kernel/arch/x86/sched\<close>.

  Process objects live in a store from addresses to process records (\<open>procs\<close>); the address
  \<open>kcalloc\<close> returned for a new one, the stack \<open>pmm::alloc_frame\<close> returned and the page
  directory with its physical address are arguments of \<open>create\<close>.  \<open>process_queue\<close> and
  \<open>zombie_queue\<close> are the contents of the two \<open>data::queue\<close>s (theory \<open>DataQueue\<close>), oldest
  first; \<open>cpu\<close> holds the registers of the running code.
\<close>

record context_t =
  c_eax :: u32  c_ebx :: u32  c_ecx :: u32  c_edx :: u32
  c_esi :: u32  c_edi :: u32  c_ebp :: u32  c_esp :: u32
  c_eip :: u32  c_eflags :: u32
  c_cs :: u32  c_ds :: u32  c_es :: u32  c_fs :: u32  c_gs :: u32  c_ss :: u32
  c_cr3 :: u32

datatype pstate = PROCESS_READY | PROCESS_RUNNING | PROCESS_BLOCKED | PROCESS_TERMINATED

record process =
  pid :: u32
  p_name :: "string option"
  pstate :: pstate
  ctx :: context_t
  p_stack :: u32
  p_pd :: u32
  priority :: u32
  time_slice :: u32

record sched =
  procs :: "u32 \<Rightarrow> process option"
  curr_process :: u32
  process_queue :: "u32 list"
  zombie_queue :: "u32 list"
  kernel_idle_process :: u32
  process_log_list :: "u32 list"
  next_pid :: u32
  kmem :: mem
  cpu :: context_t

definition KERNEL_PROCESS_STACK_SIZE :: u32 where "KERNEL_PROCESS_STACK_SIZE = 8192"
definition KERNEL_PROCESS_EFLAGS :: u32 where "KERNEL_PROCESS_EFLAGS = 0x202"
definition TIME_QUANTUM :: u32 where "TIME_QUANTUM = 5"
definition PROCESS_MIN_PRIORITY :: u32 where "PROCESS_MIN_PRIORITY = 1"
definition PROCESS_MAX_PRIORITY :: u32 where "PROCESS_MAX_PRIORITY = 10"

section \<open>Creating a process\<close>

text \<open>The number of frames of a stack, for frames of 4096 bytes.\<close>

definition stack_blocks :: u32 where
  "stack_blocks = ((KERNEL_PROCESS_STACK_SIZE + 4096 - 1) AND NOT (4096 - 1)) div 4096"

definition alloc_pid :: "sched \<Rightarrow> u32 \<times> sched" where
  "alloc_pid s = (next_pid s, s\<lparr>next_pid := next_pid s + 1\<rparr>)"

definition proc_name :: "string \<Rightarrow> u32 \<Rightarrow> string option" where
  "proc_name process_name i =
     (if strcmp process_name '''' = 0 then strcat (Some ''Kernel Process '') (num_to_string_u i)
      else Some process_name)"

definition zero_context :: context_t where
  "zero_context = \<lparr>c_eax = 0, c_ebx = 0, c_ecx = 0, c_edx = 0, c_esi = 0, c_edi = 0,
     c_ebp = 0, c_esp = 0, c_eip = 0, c_eflags = 0, c_cs = 0, c_ds = 0, c_es = 0, c_fs = 0,
     c_gs = 0, c_ss = 0, c_cr3 = 0\<rparr>"

text \<open>
  \<open>addr\<close>: what \<open>kcalloc\<close> returned; \<open>stack_bottom\<close>: what \<open>pmm::alloc_frame\<close> returned;
  \<open>pd\<close>, \<open>cr3\<close>: the active page directory and its physical address; \<open>exit_fn\<close>: the address of
  \<open>sched::exit_current_process\<close>.  A null \<open>addr\<close> is written through (\<open>None\<close>).  The result is
  the process pointer, null when there is no stack; the object and its pid stay used then.
\<close>

definition create :: "u32 \<Rightarrow> u32 \<Rightarrow> u32 \<Rightarrow> u32 \<Rightarrow> u32 \<Rightarrow> u32 \<Rightarrow> u32 \<Rightarrow> string \<Rightarrow> sched \<Rightarrow> (u32 \<times> sched) option" where
  "create addr stack_bottom pd cr3 exit_fn entry prio process_name s =
     (if addr = 0 then None
      else
        let (i, s1) = alloc_pid s;
            prio' = range_c prio PROCESS_MIN_PRIORITY PROCESS_MAX_PRIORITY;
            proc = \<lparr>pid = i, p_name = proc_name process_name i, pstate = PROCESS_READY,
              ctx = zero_context\<lparr>c_cr3 := cr3\<rparr>, p_stack = 0, p_pd = pd,
              priority = prio', time_slice = TIME_QUANTUM * prio'\<rparr>
        in if stack_bottom = 0
           then Some (0, s1\<lparr>procs := (procs s1)(addr \<mapsto> proc)\<rparr>)
           else
             let stack_top = stack_bottom + KERNEL_PROCESS_STACK_SIZE - 4;
                 proc' = proc\<lparr>p_stack := stack_bottom,
                   ctx := (ctx proc)\<lparr>c_esp := stack_top, c_eip := entry,
                     c_eflags := KERNEL_PROCESS_EFLAGS, c_cs := 0x08, c_ds := 0x10,
                     c_es := 0x10, c_fs := 0x10, c_gs := 0x10, c_ss := 0x10, c_eax := 0,
                     c_ebx := 0, c_ecx := 0, c_edx := 0, c_esi := 0, c_edi := 0, c_ebp := 0\<rparr>\<rparr>
             in Some (addr, s1\<lparr>kmem := write32 (kmem s1) stack_top exit_fn,
                  procs := (procs s1)(addr \<mapsto> proc'),
                  process_log_list := process_log_list s1 @ [addr]\<rparr>))"

section \<open>Setters\<close>

definition upd_proc :: "u32 \<Rightarrow> (process \<Rightarrow> process) \<Rightarrow> sched \<Rightarrow> sched" where
  "upd_proc a f s = s\<lparr>procs := (procs s)(a := map_option f (procs s a))\<rparr>"

definition set_state :: "pstate \<Rightarrow> process \<Rightarrow> process" where
  "set_state st p = p\<lparr>pstate := st\<rparr>"

definition set_time_slice :: "process \<Rightarrow> process" where
  "set_time_slice p = p\<lparr>time_slice := TIME_QUANTUM * priority p\<rparr>"

definition decrement_time_slice :: "process \<Rightarrow> process" where
  "decrement_time_slice p = (if 0 < time_slice p then p\<lparr>time_slice := time_slice p - 1\<rparr> else p)"

definition set_priority :: "u8 \<Rightarrow> process \<Rightarrow> process" where
  "set_priority v p = p\<lparr>priority := ucast v\<rparr>"

text \<open>\<open>start\<close> marks the process running and queues it.\<close>

definition start :: "u32 \<Rightarrow> sched \<Rightarrow> sched" where
  "start a s =
     (let s1 = upd_proc a (set_state PROCESS_RUNNING) s
      in s1\<lparr>process_queue := process_queue s1 @ [a]\<rparr>)"

section \<open>The context switch\<close>

text \<open>
  The registers as the interrupted call would see them on return: everything is stored but
  \<open>eax\<close>, which already holds the pointer to the old context.  Loading sets \<open>es\<close> from \<open>ds\<close>
  and does not load \<open>ss\<close>.
\<close>

definition ctx_save :: "context_t \<Rightarrow> context_t \<Rightarrow> context_t" where
  "ctx_save old_ctx r = r\<lparr>c_eax := c_eax old_ctx\<rparr>"

definition ctx_load :: "context_t \<Rightarrow> context_t \<Rightarrow> context_t" where
  "ctx_load new_ctx r = new_ctx\<lparr>c_es := c_ds new_ctx, c_ss := c_ss r\<rparr>"

definition ctx_switch :: "u32 \<Rightarrow> u32 \<Rightarrow> sched \<Rightarrow> sched" where
  "ctx_switch old new s =
     (let s1 = upd_proc old (\<lambda>p. p\<lparr>ctx := ctx_save (ctx p) (cpu s)\<rparr>) s
      in case procs s1 new of None \<Rightarrow> s1
         | Some p \<Rightarrow> s1\<lparr>cpu := ctx_load (ctx p) (cpu s1)\<rparr>)"

section \<open>Lemmas\<close>

lemma stack_blocks_2: "stack_blocks = 2"
  by (simp add: stack_blocks_def KERNEL_PROCESS_STACK_SIZE_def)

lemma proc_ops_fields [simp]:
  "pstate (set_state st p) = st" "time_slice (set_state st p) = time_slice p"
  "priority (set_state st p) = priority p" "pid (set_state st p) = pid p"
  "pstate (set_time_slice p) = pstate p" "time_slice (set_time_slice p) = TIME_QUANTUM * priority p"
  "priority (set_time_slice p) = priority p" "pid (set_time_slice p) = pid p"
  "pstate (decrement_time_slice p) = pstate p" "priority (decrement_time_slice p) = priority p"
  "pid (decrement_time_slice p) = pid p"
  by (simp_all add: set_state_def set_time_slice_def decrement_time_slice_def)

lemma upd_proc_simps [simp]:
  "procs (upd_proc a f s) = (procs s)(a := map_option f (procs s a))"
  "curr_process (upd_proc a f s) = curr_process s" "process_queue (upd_proc a f s) = process_queue s"
  "zombie_queue (upd_proc a f s) = zombie_queue s"
  "kernel_idle_process (upd_proc a f s) = kernel_idle_process s"
  "process_log_list (upd_proc a f s) = process_log_list s" "next_pid (upd_proc a f s) = next_pid s"
  "kmem (upd_proc a f s) = kmem s" "cpu (upd_proc a f s) = cpu s"
  by (simp_all add: upd_proc_def)

lemma ctx_switch_simps [simp]:
  "curr_process (ctx_switch a b s) = curr_process s" "process_queue (ctx_switch a b s) = process_queue s"
  "zombie_queue (ctx_switch a b s) = zombie_queue s"
  "kernel_idle_process (ctx_switch a b s) = kernel_idle_process s"
  "process_log_list (ctx_switch a b s) = process_log_list s" "next_pid (ctx_switch a b s) = next_pid s"
  "procs (ctx_switch a b s) =
     (procs s)(a := map_option (\<lambda>p. p\<lparr>ctx := ctx_save (ctx p) (cpu s)\<rparr>) (procs s a))"
  by (auto simp: ctx_switch_def Let_def split: option.split)

end
