(* ===== verification/Scheduler.thy ===== *)
theory Scheduler
  imports Process
begin

text \<open>
  \<open>src/kernel/sched/scheduler.cpp\<close> and the timer interrupt of \<open>src/kernel/drivers/pit.cpp\<close>:
  the round-robin scheduler, process exit and the zombie reaper, as functions on the state of
  theory \<open>Process\<close>, and the system they form as a step relation.
\<close>

section \<open>Operations\<close>

definition KERNEL_ERROR_PID :: u32 where "KERNEL_ERROR_PID = 0xFFFFFFFF"

definition state_of :: "sched \<Rightarrow> u32 \<Rightarrow> pstate option" where
  "state_of s a = map_option pstate (procs s a)"

text \<open>\<open>process_queue.pop()\<close>; an empty queue gives the null pointer.\<close>

definition select_next :: "sched \<Rightarrow> u32 \<times> sched" where
  "select_next s = (case process_queue s of [] \<Rightarrow> (0, s) | p # ps \<Rightarrow> (p, s\<lparr>process_queue := ps\<rparr>))"

definition schedule :: "sched \<Rightarrow> sched" where
  "schedule s =
     (if curr_process s = 0 then s
      else
        let old = curr_process s;
            (next, s1) = select_next s
        in if next = 0 \<and> state_of s1 old = Some PROCESS_RUNNING \<and> old \<noteq> kernel_idle_process s1
           then upd_proc old set_time_slice s1
           else
             let next' = (if next = 0 then kernel_idle_process s1 else next);
                 s2 = (if state_of s1 old = Some PROCESS_RUNNING
                       then if old \<noteq> next' \<and> old \<noteq> kernel_idle_process s1
                            then s1\<lparr>process_queue := process_queue s1 @ [old]\<rparr> else s1
                       else if state_of s1 old = Some PROCESS_TERMINATED
                       then s1\<lparr>zombie_queue := zombie_queue s1 @ [old]\<rparr>
                       else s1);
                 s3 = (upd_proc next' (\<lambda>p. set_time_slice (set_state PROCESS_RUNNING p)) s2)
                        \<lparr>curr_process := next'\<rparr>
             in if old \<noteq> next' then ctx_switch old next' s3 else s3)"

definition yield :: "sched \<Rightarrow> sched" where
  "yield s = schedule s"

definition proc_exit :: "u32 \<Rightarrow> sched \<Rightarrow> sched" where
  "proc_exit a s = schedule (upd_proc a (set_state PROCESS_TERMINATED) s)"

definition exit_current_process :: "sched \<Rightarrow> sched" where
  "exit_current_process s =
     (if curr_process s = 0 \<or> map_option pid (procs s (curr_process s)) = Some 0 then s
      else proc_exit (curr_process s) s)"

text \<open>
  One pass of the reaper's loop.  The first component lists the stack given to
  \<open>pmm::free_frame\<close> and the object given to \<open>kfree\<close>.
\<close>

definition zombie_reaper :: "sched \<Rightarrow> (u32 list \<times> u32 list) \<times> sched" where
  "zombie_reaper s =
     (let (z, s1) = (case zombie_queue s of [] \<Rightarrow> (0, s) | a # as \<Rightarrow> (a, s\<lparr>zombie_queue := as\<rparr>))
      in if z \<noteq> 0
         then (case procs s1 z of
             None \<Rightarrow> (([], [z]), s1)
           | Some p \<Rightarrow> ((if p_stack p \<noteq> 0 then [p_stack p] else [], [z]),
                s1\<lparr>procs := (procs s1)(z := None)\<rparr>))
         else (([], []), yield s1))"

text \<open>
  \<open>sched::init\<close>.  \<open>a1\<close>, \<open>k1\<close> and \<open>a2\<close>, \<open>k2\<close> are the objects and stacks allocated for the
  idle process and for the reaper.  Starting a null pointer and the panic are \<open>None\<close>.
\<close>

definition sched_init :: "u32 \<Rightarrow> u32 \<Rightarrow> u32 \<Rightarrow> u32 \<Rightarrow> u32 \<Rightarrow> u32 \<Rightarrow> u32 \<Rightarrow> u32 \<Rightarrow> u32 \<Rightarrow> sched \<Rightarrow> sched option" where
  "sched_init a1 k1 a2 k2 pd cr3 exit_fn idle_fn reaper_fn s =
     (case create a1 k1 pd cr3 exit_fn idle_fn 1 ''Kernel Idle Process'' s of None \<Rightarrow> None
      | Some (idle, s1) \<Rightarrow>
        if idle = 0 then None
        else let s2 = start idle (s1\<lparr>kernel_idle_process := idle, curr_process := idle\<rparr>) in
        case create a2 k2 pd cr3 exit_fn reaper_fn 1 ''Zombie Process Reaper'' s2 of None \<Rightarrow> None
        | Some (reaper, s3) \<Rightarrow>
          if reaper = 0 then None
          else let s4 = start reaper s3 in
            if map_option pid (procs s4 (curr_process s4)) = Some KERNEL_ERROR_PID then None
            else Some (schedule s4))"

text \<open>The timer interrupt, on the tick count and the scheduler.\<close>

definition onIrq0 :: "u64 \<times> sched \<Rightarrow> u64 \<times> sched" where
  "onIrq0 = (\<lambda>(ticks, s).
     (ticks + 1,
      if curr_process s \<noteq> 0 \<and> state_of s (curr_process s) = Some PROCESS_RUNNING
      then let s1 = upd_proc (curr_process s) decrement_time_slice s in
        if map_option time_slice (procs s1 (curr_process s1)) = Some 0 then schedule s1 else s1
      else s))"

section \<open>The system\<close>

text \<open>
  What may happen, one step at a time.  The three side conditions are what callers keep: a new
  object lies where no process is, a process is started once, when it is ready, and only
  after it was created.
\<close>

inductive sstep :: "sched \<Rightarrow> sched \<Rightarrow> bool" where
  timer: "sstep s (snd (onIrq0 (t, s)))"
| yields: "sstep s (yield s)"
| exits: "sstep s (exit_current_process s)"
| reaps: "sstep s (snd (zombie_reaper s))"
| creates: "create addr k pd cr3 exit_fn entry prio nm s = Some (r, s') \<Longrightarrow> procs s addr = None
    \<Longrightarrow> sstep s s'"
| starts: "state_of s a = Some PROCESS_READY \<Longrightarrow> sstep s (start a s)"

inductive sreach :: "sched \<Rightarrow> sched \<Rightarrow> bool" for s0 where
  init: "sreach s0 s0"
| step: "sreach s0 s \<Longrightarrow> sstep s s' \<Longrightarrow> sreach s0 s'"

section \<open>The invariant\<close>

text \<open>
  Queued processes are running ones, zombies are terminated ones, no process is queued twice
  or in both queues, and neither the current process nor the idle process is in a queue.
\<close>

definition sched_inv :: "sched \<Rightarrow> bool" where
  "sched_inv s \<longleftrightarrow>
     procs s 0 = None \<and> distinct (process_queue s @ zombie_queue s)
     \<and> (\<forall>a \<in> set (process_queue s). state_of s a = Some PROCESS_RUNNING)
     \<and> (\<forall>a \<in> set (zombie_queue s). state_of s a = Some PROCESS_TERMINATED)
     \<and> state_of s (curr_process s) = Some PROCESS_RUNNING
     \<and> curr_process s \<notin> set (process_queue s)
     \<and> (\<exists>p. procs s (kernel_idle_process s) = Some p \<and> pid p = 0 \<and> pstate p = PROCESS_RUNNING)
     \<and> kernel_idle_process s \<notin> set (process_queue s)"

definition slices_ok :: "sched \<Rightarrow> bool" where
  "slices_ok s \<longleftrightarrow> (\<forall>a p. procs s a = Some p \<longrightarrow>
     1 \<le> unat (priority p) \<and> unat (priority p) \<le> 10 \<and> unat (time_slice p) \<le> 5 * unat (priority p))"

lemma sched_invD:
  assumes "sched_inv s"
  shows "curr_process s \<noteq> 0" "kernel_idle_process s \<noteq> 0" "0 \<notin> set (process_queue s)"
    "state_of s (curr_process s) = Some PROCESS_RUNNING"
  using assms by (auto simp: sched_inv_def state_of_def)

text \<open>What \<open>schedule\<close> does when the current process may go on running.\<close>

lemma schedule_running:
  assumes "sched_inv s"
  shows "process_queue s = [] \<Longrightarrow> curr_process (schedule s) = curr_process s \<and> process_queue (schedule s) = []"
    and "process_queue s = p # ps \<Longrightarrow> curr_process (schedule s) = p
      \<and> process_queue (schedule s) = ps @ (if curr_process s = kernel_idle_process s then [] else [curr_process s])"
proof -
  note h = sched_invD [OF assms] assms [unfolded sched_inv_def]
  show "curr_process (schedule s) = curr_process s \<and> process_queue (schedule s) = []"
    if "process_queue s = []"
    using h that by (auto simp: schedule_def select_next_def Let_def)
  show "curr_process (schedule s) = p
      \<and> process_queue (schedule s) = ps @ (if curr_process s = kernel_idle_process s then [] else [curr_process s])"
    if "process_queue s = p # ps"
    using h that by (auto simp: schedule_def select_next_def Let_def state_of_def)
qed


text \<open>The invariant while the current process may just have been terminated.\<close>

definition sched_pre :: "sched \<Rightarrow> bool" where
  "sched_pre s \<longleftrightarrow>
     procs s 0 = None \<and> distinct (process_queue s @ zombie_queue s)
     \<and> (\<forall>a \<in> set (process_queue s). state_of s a = Some PROCESS_RUNNING)
     \<and> (\<forall>a \<in> set (zombie_queue s). state_of s a = Some PROCESS_TERMINATED)
     \<and> state_of s (curr_process s) \<in> {Some PROCESS_RUNNING, Some PROCESS_TERMINATED}
     \<and> curr_process s \<notin> set (process_queue s) \<and> curr_process s \<notin> set (zombie_queue s)
     \<and> (\<exists>p. procs s (kernel_idle_process s) = Some p \<and> pid p = 0 \<and> pstate p = PROCESS_RUNNING)
     \<and> kernel_idle_process s \<notin> set (process_queue s)"

lemma sched_inv_pre: "sched_inv s \<Longrightarrow> sched_pre s"
  by (auto simp: sched_inv_def sched_pre_def)

lemma state_of_upd [simp]:
  "state_of (upd_proc a f s) b = (if b = a then map_option (pstate \<circ> f) (procs s a) else state_of s b)"
  by (simp add: state_of_def option.map_comp)

lemma state_of_switch [simp]: "state_of (ctx_switch a b s) c = state_of s c"
  by (simp add: state_of_def option.map_comp comp_def)

lemma state_of_fields [simp]:
  "state_of (s\<lparr>process_queue := q\<rparr>) a = state_of s a" "state_of (s\<lparr>zombie_queue := q\<rparr>) a = state_of s a"
  "state_of (s\<lparr>curr_process := c\<rparr>) a = state_of s a"
  by (simp_all add: state_of_def)

lemma schedule_inv [inv_intros]:
  assumes "sched_pre s"
  shows "sched_inv (schedule s)"
proof -
  note h = assms [unfolded sched_pre_def]
  obtain c where c: "procs s (curr_process s) = Some c" "curr_process s \<noteq> 0"
    using h by (cases "curr_process s = 0") (auto simp: state_of_def)
  obtain i where i: "procs s (kernel_idle_process s) = Some i" "kernel_idle_process s \<noteq> 0"
    using h by (cases "kernel_idle_process s = 0") auto
  show ?thesis
  proof (cases "process_queue s")
    case Nil
    then show ?thesis
      using h c i by (auto simp: schedule_def select_next_def Let_def sched_inv_def)
       (auto simp: state_of_def)
  next
    case (Cons p ps)
    obtain q where q: "procs s p = Some q" "p \<noteq> 0" "pstate q = PROCESS_RUNNING"
      using h Cons by (cases "p = 0") (auto simp: state_of_def)
    then show ?thesis
      using h c i Cons by (auto simp: schedule_def select_next_def Let_def sched_inv_def)
  qed
qed

lemma yield_inv [inv_intros]: "sched_inv s \<Longrightarrow> sched_inv (yield s)"
  unfolding yield_def by (intro schedule_inv sched_inv_pre)

lemma exit_inv [inv_intros]:
  assumes "sched_inv s"
  shows "sched_inv (exit_current_process s)"
proof (cases "curr_process s = 0 \<or> map_option pid (procs s (curr_process s)) = Some 0")
  case False
  have "sched_pre (upd_proc (curr_process s) (set_state PROCESS_TERMINATED) s)"
    using assms False by (auto simp: sched_inv_def sched_pre_def state_of_def)
  moreover have "exit_current_process s = proc_exit (curr_process s) s"
    using False unfolding exit_current_process_def by (rule if_not_P)
  ultimately show ?thesis by (simp add: proc_exit_def schedule_inv)
qed (use assms in \<open>simp add: exit_current_process_def\<close>)

lemma reaper_inv [inv_intros]:
  assumes "sched_inv s"
  shows "sched_inv (snd (zombie_reaper s))"
proof (cases "zombie_queue s")
  case Nil
  then show ?thesis using assms by (simp add: zombie_reaper_def yield_inv)
next
  case (Cons z zs)
  have "z \<noteq> 0" "state_of s z = Some PROCESS_TERMINATED"
    using assms Cons by (auto simp: sched_inv_def state_of_def)
  then show ?thesis
    using assms Cons by (auto simp: zombie_reaper_def Let_def sched_inv_def split: option.split)
     (auto simp: state_of_def)
qed

lemma timer_inv [inv_intros]:
  assumes "sched_inv s"
  shows "sched_inv (snd (onIrq0 (t, s)))"
proof -
  let ?s = "upd_proc (curr_process s) decrement_time_slice s"
  have "sched_inv ?s"
    using assms by (auto simp: sched_inv_def state_of_def)
  then show ?thesis
    using assms schedule_inv [OF sched_inv_pre, of ?s] by (simp add: onIrq0_def Let_def)
qed

lemma create_inv [inv_intros]:
  assumes "sched_inv s" and "create a k pd cr3 ex en pr nm s = Some (r, s')" and "procs s a = None"
  shows "sched_inv s'"
proof -
  have "a \<notin> set (process_queue s)" "a \<notin> set (zombie_queue s)" "a \<noteq> curr_process s"
    "a \<noteq> kernel_idle_process s"
    using assms(1,3) by (auto simp: sched_inv_def state_of_def)
  then show ?thesis
    using assms by (auto simp: create_def alloc_pid_def Let_def sched_inv_def state_of_def split: if_splits)
qed

lemma start_inv [inv_intros]:
  assumes "sched_inv s" and "state_of s a = Some PROCESS_READY"
  shows "sched_inv (start a s)"
  using assms by (auto simp: start_def Let_def sched_inv_def state_of_def)

lemma sstep_inv: "sstep s s' \<Longrightarrow> sched_inv s \<Longrightarrow> sched_inv s'"
  by (induction rule: sstep.induct) (auto intro: inv_intros)

section \<open>Time slices\<close>

lemma slice_bound: "1 \<le> unat p \<Longrightarrow> unat p \<le> 10 \<Longrightarrow> unat (TIME_QUANTUM * p) = 5 * unat p"
  by (simp add: TIME_QUANTUM_def unat_mult_no_wrap)

lemma schedule_slices: "slices_ok s \<Longrightarrow> slices_ok (schedule s)"
  unfolding slices_ok_def schedule_def select_next_def Let_def
  by (auto simp: slice_bound split: list.splits if_splits)

lemma unat_dec: "0 < x \<Longrightarrow> unat (x - 1 :: u32) = unat x - 1"
  by (simp add: unat_sub_le word_le_nat_alt word_less_nat_alt)

lemma slices_upd:
  "slices_ok s \<Longrightarrow> (\<And>p. procs s a = Some p \<Longrightarrow> priority (f p) = priority p \<and> unat (time_slice (f p)) \<le> unat (time_slice p))
    \<Longrightarrow> slices_ok (upd_proc a f s)"
  by (fastforce simp: slices_ok_def)

lemma decrement_slice: "unat (time_slice (decrement_time_slice p)) = unat (time_slice p) - 1"
  by (cases "0 < time_slice p") (auto simp: decrement_time_slice_def unat_dec word_neq_0_conv [symmetric])

lemma timer_slices: "slices_ok s \<Longrightarrow> slices_ok (snd (onIrq0 (t, s)))"
  by (auto simp: onIrq0_def Let_def intro!: schedule_slices slices_upd simp: decrement_slice)

lemma range_priority:
  "1 \<le> unat (range_c prio PROCESS_MIN_PRIORITY PROCESS_MAX_PRIORITY)
    \<and> unat (range_c prio PROCESS_MIN_PRIORITY PROCESS_MAX_PRIORITY) \<le> 10"
proof -
  let ?r = "range_c prio PROCESS_MIN_PRIORITY PROCESS_MAX_PRIORITY"
  have b: "1 \<le> sint ?r" "sint ?r \<le> 10"
    using range_c_bounds [of PROCESS_MIN_PRIORITY PROCESS_MAX_PRIORITY prio]
    by (simp_all add: PROCESS_MIN_PRIORITY_def PROCESS_MAX_PRIORITY_def)
  have "uint ?r = sint ?r" using b by (simp only: uint_sint) (simp add: take_bit_int_eq_self)
  then show ?thesis using b by (simp add: unat_eq_nat_uint nat_le_iff le_nat_iff)
qed


lemma timer_keeps:
  assumes "sched_inv s" and "procs s (curr_process s) = Some p" and "2 \<le> unat (time_slice p)"
  shows "snd (onIrq0 (t, s)) = upd_proc (curr_process s) decrement_time_slice s"
proof -
  have "time_slice (decrement_time_slice p) \<noteq> 0"
    using assms(3) decrement_slice [of p] by auto
  then show ?thesis
    using assms sched_invD [OF assms(1)] by (simp add: onIrq0_def Let_def)
qed

lemma timer_expires:
  assumes "sched_inv s" and "procs s (curr_process s) = Some p" and "unat (time_slice p) \<le> 1"
  shows "snd (onIrq0 (t, s)) = schedule (upd_proc (curr_process s) decrement_time_slice s)"
proof -
  have "time_slice (decrement_time_slice p) = 0"
    using assms(3) decrement_slice [of p] by (simp add: unat_eq_zero)
  then show ?thesis
    using assms sched_invD [OF assms(1)] by (simp add: onIrq0_def Let_def)
qed

lemma decrement_inv:
  "sched_inv s \<Longrightarrow> sched_inv (upd_proc a decrement_time_slice s)"
  by (auto simp: sched_inv_def state_of_def)

lemma decrement_slices: "slices_ok s \<Longrightarrow> slices_ok (upd_proc a decrement_time_slice s)"
  by (rule slices_upd) (auto simp: decrement_slice)

text \<open>The current process runs for its slice, then the scheduler is called.\<close>

lemma slice_run:
  assumes "sched_inv s" and "slices_ok s" and "procs s (curr_process s) = Some p"
    and "unat (time_slice p) - 1 = k"
  shows "\<exists>s'. sched_inv s' \<and> slices_ok s' \<and> curr_process s' = curr_process s
    \<and> process_queue s' = process_queue s \<and> kernel_idle_process s' = kernel_idle_process s
    \<and> snd ((onIrq0 ^^ Suc k) (t, s)) = schedule s'
    \<and> (\<forall>n \<le> k. curr_process (snd ((onIrq0 ^^ n) (t, s))) = curr_process s)"
  using assms
proof (induction k arbitrary: s p t)
  case 0
  then show ?case
    using timer_expires [OF 0(1,3), of t] decrement_inv decrement_slices
    by (intro exI [of _ "upd_proc (curr_process s) decrement_time_slice s"]) auto
next
  case (Suc k)
  let ?s = "upd_proc (curr_process s) decrement_time_slice s"
  have tick: "onIrq0 (t, s) = (t + 1, ?s)"
    using timer_keeps [OF Suc.prems(1,3), of t] Suc.prems(4) by (cases "onIrq0 (t, s)") (auto simp: onIrq0_def)
  have k: "unat (time_slice (decrement_time_slice p)) - 1 = k"
    using Suc.prems(4) by (simp add: decrement_slice)
  have "procs ?s (curr_process ?s) = Some (decrement_time_slice p)" using Suc.prems(3) by simp
  from Suc.IH [OF decrement_inv [OF Suc.prems(1)] decrement_slices [OF Suc.prems(2)] this k, of "t + 1"]
  obtain s' where s': "sched_inv s'" "slices_ok s'" "curr_process s' = curr_process s"
    "process_queue s' = process_queue s" "kernel_idle_process s' = kernel_idle_process s"
    "snd ((onIrq0 ^^ Suc k) (t + 1, ?s)) = schedule s'"
    "\<forall>n \<le> k. curr_process (snd ((onIrq0 ^^ n) (t + 1, ?s))) = curr_process s"
    by auto
  have shift: "(onIrq0 ^^ Suc n) (t, s) = (onIrq0 ^^ n) (t + 1, ?s)" for n
    by (simp add: funpow_swap1 tick)
  have "curr_process (snd ((onIrq0 ^^ n) (t, s))) = curr_process s" if "n \<le> Suc k" for n
    using that s'(7) shift by (cases n) auto
  then show ?case using s'(1-6) shift by (intro exI [of _ s']) metis
qed

lemma step_slices: "sstep s s' \<Longrightarrow> slices_ok s \<Longrightarrow> slices_ok s'"
proof (induction rule: sstep.induct)
  case (exits s)
  have "slices_ok (upd_proc (curr_process s) (set_state PROCESS_TERMINATED) s)"
    using exits by (rule slices_upd) simp
  then show ?case
    using exits schedule_slices by (simp add: exit_current_process_def proc_exit_def)
next
  case (reaps s)
  have pop: "slices_ok (s\<lparr>zombie_queue := zs\<rparr>)" for zs
    using reaps by (simp add: slices_ok_def)
  have free: "slices_ok (s\<lparr>zombie_queue := zs, procs := (procs s)(z := None)\<rparr>)" for z zs
    using reaps by (simp add: slices_ok_def)
  show ?case
    using schedule_slices [OF reaps] schedule_slices [OF pop] pop free
    by (simp add: zombie_reaper_def yield_def Let_def split: list.split option.split)
next
  case (creates addr k pd cr3 exit_fn entry prio nm s r s')
  then show ?case
    using range_priority [of prio]
    by (auto simp: create_def alloc_pid_def Let_def slices_ok_def slice_bound split: if_splits)
next
  case (starts s a)
  have "slices_ok (upd_proc a (set_state PROCESS_RUNNING) s)"
    using starts(2) by (rule slices_upd) simp
  then show ?case by (simp add: start_def Let_def slices_ok_def)
qed (auto simp: timer_slices yield_def schedule_slices)

text \<open>The state before \<open>sched::init\<close>: no process, empty queues.\<close>

definition boot_sched :: "mem \<Rightarrow> context_t \<Rightarrow> sched" where
  "boot_sched m r = \<lparr>procs = (\<lambda>_. None), curr_process = 0, process_queue = [], zombie_queue = [],
     kernel_idle_process = 0, process_log_list = [], next_pid = 0, kmem = m, cpu = r\<rparr>"

lemma range_one: "range_c 1 PROCESS_MIN_PRIORITY PROCESS_MAX_PRIORITY = 1"
  by (rule range_c_fixed) (simp_all add: PROCESS_MIN_PRIORITY_def PROCESS_MAX_PRIORITY_def)

lemma sched_init_inv:
  assumes "a1 \<noteq> 0" and "k1 \<noteq> 0" and "a2 \<noteq> 0" and "k2 \<noteq> 0" and "a1 \<noteq> a2"
  shows "\<exists>s. sched_init a1 k1 a2 k2 pd cr3 ex f1 f2 (boot_sched m r) = Some s
    \<and> sched_inv s \<and> slices_ok s \<and> curr_process s = a1 \<and> process_queue s = [a2]
    \<and> kernel_idle_process s = a1 \<and> zombie_queue s = []
    \<and> (\<exists>p. procs s a1 = Some p \<and> priority p = 1 \<and> time_slice p = TIME_QUANTUM * priority p)
    \<and> (\<exists>q. procs s a2 = Some q \<and> pid q = 1) \<and> process_log_list s = [a1, a2]"
  using assms range_priority [of 1] range_one
  by (simp add: sched_init_def boot_sched_def create_def alloc_pid_def Let_def start_def schedule_def
      select_next_def state_of_def sched_inv_def slices_ok_def slice_bound KERNEL_ERROR_PID_def
      set_state_def set_time_slice_def TIME_QUANTUM_def)

text \<open>
  C4: after \<open>sched::init\<close> the scheduler's invariant holds in every state the system can reach,
  through timer interrupts, yields, exits, reaping, creation and start in any order: queued
  processes are running ones, zombies are terminated ones, no process is queued twice or in
  both queues, neither the current nor the idle process is queued, and every time slice is at
  most \<open>TIME_QUANTUM\<close> times a priority between 1 and 10.
\<close>

theorem scheduler_invariant:
  assumes "a1 \<noteq> 0" and "k1 \<noteq> 0" and "a2 \<noteq> 0" and "k2 \<noteq> 0" and "a1 \<noteq> a2"
  shows "\<exists>s0. sched_init a1 k1 a2 k2 pd cr3 ex f1 f2 (boot_sched m r) = Some s0
    \<and> (\<forall>s. sreach s0 s \<longrightarrow> sched_inv s \<and> slices_ok s)"
proof -
  obtain s0 where s0: "sched_init a1 k1 a2 k2 pd cr3 ex f1 f2 (boot_sched m r) = Some s0"
    "sched_inv s0" "slices_ok s0"
    using sched_init_inv [OF assms] by blast
  have "sched_inv s \<and> slices_ok s" if "sreach s0 s" for s
    using that s0(2,3) by (induction rule: sreach.induct) (auto dest: sstep_inv step_slices)
  then show ?thesis using s0(1) by blast
qed

theorem scheduler_invariant_witness:
  "\<exists>s0. sched_init 0x20000C 0x500000 0x200100 0x502000 0x1000 0x1000 0 0 0 (boot_sched (\<lambda>_. 0) zero_context) = Some s0
    \<and> (\<forall>s. sreach s0 s \<longrightarrow> sched_inv s \<and> slices_ok s)"
  by (rule scheduler_invariant) simp_all

text \<open>
  Weighted round robin.  A process that has just been given its slice runs for exactly
  \<open>TIME_QUANTUM * priority\<close> timer interrupts, and then the head of the queue runs, while it goes
  to the tail.
\<close>

lemma slice_is_priority_times_quantum:
  assumes "sched_inv s" and "slices_ok s" and "procs s (curr_process s) = Some p"
    and "time_slice p = TIME_QUANTUM * priority p" and "process_queue s = q # qs"
  shows "(\<forall>n < 5 * unat (priority p). curr_process (snd ((onIrq0 ^^ n) (t, s))) = curr_process s)
    \<and> curr_process (snd ((onIrq0 ^^ (5 * unat (priority p))) (t, s))) = q
    \<and> process_queue (snd ((onIrq0 ^^ (5 * unat (priority p))) (t, s)))
      = qs @ (if curr_process s = kernel_idle_process s then [] else [curr_process s])"
proof -
  have b: "1 \<le> unat (priority p)" "unat (priority p) \<le> 10" using assms(2,3) by (auto simp: slices_ok_def)
  then have k: "unat (time_slice p) - 1 = 5 * unat (priority p) - 1" "Suc (5 * unat (priority p) - 1) = 5 * unat (priority p)"
    using assms(4) slice_bound by simp_all
  obtain s' where s': "sched_inv s'" "curr_process s' = curr_process s" "process_queue s' = process_queue s"
    "kernel_idle_process s' = kernel_idle_process s" "snd ((onIrq0 ^^ (5 * unat (priority p))) (t, s)) = schedule s'"
    "\<forall>n \<le> 5 * unat (priority p) - 1. curr_process (snd ((onIrq0 ^^ n) (t, s))) = curr_process s"
    using slice_run [OF assms(1-3) k(1), of t] k(2) by auto
  show ?thesis
    using schedule_running(2) [OF s'(1), of q qs] s'(2-6) assms(5) by auto
qed

text \<open>The state right after \<open>sched::init\<close>, with the idle process at one address and the reaper
  at another.\<close>

definition demo_sched :: sched where
  "demo_sched = the (sched_init 0x20000C 0x500000 0x200100 0x502000 0x1000 0x1000 0 0 0
     (boot_sched (\<lambda>_. 0) zero_context))"

lemma demo_sched_facts:
  "sched_inv demo_sched" "slices_ok demo_sched" "curr_process demo_sched = 0x20000C"
  "process_queue demo_sched = [0x200100]" "kernel_idle_process demo_sched = 0x20000C"
  "\<exists>p. procs demo_sched 0x20000C = Some p \<and> priority p = 1 \<and> time_slice p = TIME_QUANTUM * priority p"
  "\<exists>q. procs demo_sched 0x200100 = Some q \<and> pid q = 1"
  "zombie_queue demo_sched = []" "process_log_list demo_sched = [0x20000C, 0x200100]"
  using sched_init_inv [of "0x20000C" "0x500000" "0x200100" "0x502000" "0x1000" "0x1000" 0 0 0 "\<lambda>_. 0" zero_context]
  by (auto simp: demo_sched_def)

lemma slice_is_priority_times_quantum_witness:
  "curr_process (snd ((onIrq0 ^^ 4) (0, demo_sched))) = 0x20000C
   \<and> curr_process (snd ((onIrq0 ^^ 5) (0, demo_sched))) = 0x200100"
proof -
  obtain p where p: "procs demo_sched 0x20000C = Some p" "priority p = 1" "time_slice p = TIME_QUANTUM * priority p"
    using demo_sched_facts(6) by blast
  show ?thesis
    using slice_is_priority_times_quantum [OF demo_sched_facts(1,2), of p "0x200100" "[]" 0] p
    by (simp add: demo_sched_facts(3,4,5))
qed

text \<open>
  C5: no process starves.  The process at position \<open>k\<close> of the queue becomes the current one
  within \<open>50 * (k + 1)\<close> timer interrupts.
\<close>

theorem scheduler_no_starvation:
  assumes "sched_inv s" and "slices_ok s" and "k < length (process_queue s)"
  shows "\<exists>n \<le> 50 * (k + 1). curr_process (snd ((onIrq0 ^^ n) (t, s))) = process_queue s ! k"
  using assms
proof (induction k arbitrary: s t)
  case (0 s t)
  obtain q qs where q: "process_queue s = q # qs" using 0 by (cases "process_queue s") auto
  obtain p where p: "procs s (curr_process s) = Some p"
    using sched_invD(4) [OF 0(1)] by (auto simp: state_of_def)
  obtain s' where s': "sched_inv s'" "process_queue s' = process_queue s"
    "snd ((onIrq0 ^^ Suc (unat (time_slice p) - 1)) (t, s)) = schedule s'"
    using slice_run [OF 0(1,2) p refl, of t] by blast
  have "unat (time_slice p) \<le> 50" using 0(2) p by (fastforce simp: slices_ok_def)
  then show ?case
    using s' schedule_running(2) [OF s'(1), of q qs] q
    by (intro exI [of _ "Suc (unat (time_slice p) - 1)"]) auto
next
  case (Suc k s t)
  obtain q qs where q: "process_queue s = q # qs" using Suc.prems(3) by (cases "process_queue s") auto
  obtain p where p: "procs s (curr_process s) = Some p"
    using sched_invD(4) [OF Suc.prems(1)] by (auto simp: state_of_def)
  define m where "m = Suc (unat (time_slice p) - 1)"
  obtain s' where s': "sched_inv s'" "slices_ok s'" "process_queue s' = process_queue s"
    "snd ((onIrq0 ^^ m) (t, s)) = schedule s'"
    using slice_run [OF Suc.prems(1,2) p refl, of t] unfolding m_def by blast
  have m: "m \<le> 50" using Suc.prems(2) p by (fastforce simp: slices_ok_def m_def)
  have sch: "sched_inv (schedule s')" "slices_ok (schedule s')"
    using s' schedule_inv [OF sched_inv_pre] schedule_slices by auto
  have kth: "k < length (process_queue (schedule s'))" "process_queue (schedule s') ! k = process_queue s ! Suc k"
    using schedule_running(2) [OF s'(1), of q qs] s'(3) q Suc.prems(3) by (auto simp: nth_append)
  obtain t' where t': "(onIrq0 ^^ m) (t, s) = (t', schedule s')"
    using s'(4) by (cases "(onIrq0 ^^ m) (t, s)") auto
  obtain n where n: "n \<le> 50 * (k + 1)" "curr_process (snd ((onIrq0 ^^ n) (t', schedule s'))) = process_queue s ! Suc k"
    using Suc.IH [OF sch kth(1), of t'] kth(2) by auto
  have "(onIrq0 ^^ (n + m)) (t, s) = (onIrq0 ^^ n) (t', schedule s')"
    by (simp add: funpow_add t')
  then show ?case using n m by (intro exI [of _ "n + m"]) auto
qed

theorem scheduler_no_starvation_witness:
  "\<exists>n \<le> 50. curr_process (snd ((onIrq0 ^^ n) (0, demo_sched))) = 0x200100"
  using scheduler_no_starvation [OF demo_sched_facts(1,2), of 0 0] by (simp add: demo_sched_facts(4))

text \<open>
  C20: exiting is final and cleaned up once.  When a process other than the one with pid 0
  exits, it is marked terminated, it becomes the youngest zombie, it is in no other queue and it
  is not the process that runs next; each pass of the reaper then frees the stack and the
  object of the oldest zombie, and the process is gone from the store.
\<close>

theorem exited_process_is_reaped:
  assumes "sched_inv s" and "procs s (curr_process s) = Some p" and "pid p \<noteq> 0"
  shows "(let s' = exit_current_process s in
      zombie_queue s' = zombie_queue s @ [curr_process s]
      \<and> state_of s' (curr_process s) = Some PROCESS_TERMINATED
      \<and> curr_process s \<notin> set (process_queue s') \<and> curr_process s' \<noteq> curr_process s
      \<and> curr_process s' = (if process_queue s = [] then kernel_idle_process s else hd (process_queue s)))
    \<and> (\<forall>z zs q. zombie_queue s = z # zs \<and> procs s z = Some q \<and> p_stack q \<noteq> 0 \<longrightarrow>
        zombie_reaper s = (([p_stack q], [z]), s\<lparr>zombie_queue := zs, procs := (procs s)(z := None)\<rparr>))"
proof -
  note inv = assms(1) [unfolded sched_inv_def]
  have idle: "curr_process s \<noteq> kernel_idle_process s" "kernel_idle_process s \<noteq> 0" "curr_process s \<noteq> 0"
    using assms inv by (auto simp: state_of_def)
  have "let s' = exit_current_process s in
      zombie_queue s' = zombie_queue s @ [curr_process s]
      \<and> state_of s' (curr_process s) = Some PROCESS_TERMINATED
      \<and> curr_process s \<notin> set (process_queue s') \<and> curr_process s' \<noteq> curr_process s
      \<and> curr_process s' = (if process_queue s = [] then kernel_idle_process s else hd (process_queue s))"
  proof (cases "process_queue s")
    case Nil
    then show ?thesis using assms idle
      by (auto simp: exit_current_process_def proc_exit_def schedule_def select_next_def Let_def)
  next
    case (Cons a as)
    have "a \<noteq> 0" "a \<noteq> curr_process s" "curr_process s \<notin> set as"
      using sched_invD(3) [OF assms(1)] inv Cons by auto
    then show ?thesis using assms idle Cons
      by (auto simp: exit_current_process_def proc_exit_def schedule_def select_next_def Let_def)
  qed
  moreover have "zombie_reaper s = (([p_stack q], [z]), s\<lparr>zombie_queue := zs, procs := (procs s)(z := None)\<rparr>)"
    if z: "zombie_queue s = z # zs" "procs s z = Some q" "p_stack q \<noteq> 0" for z zs q
  proof -
    have "z \<noteq> 0" using inv z by auto
    then show ?thesis using z by (simp add: zombie_reaper_def)
  qed
  ultimately show ?thesis by blast
qed

text \<open>The reaper process scheduled after boot, and the state after it has exited.\<close>

definition demo_running :: sched where
  "demo_running = schedule demo_sched"

definition demo_zombie :: sched where
  "demo_zombie = exit_current_process demo_running"

lemma demo_running_facts:
  "sched_inv demo_running" "curr_process demo_running = 0x200100"
  "\<exists>q. procs demo_running 0x200100 = Some q \<and> pid q = 1"
  "process_queue demo_running = []" "kernel_idle_process demo_running = 0x20000C"
  "process_log_list demo_running = [0x20000C, 0x200100]" "zombie_queue demo_running = []"
  using schedule_inv [OF sched_inv_pre [OF demo_sched_facts(1)]] demo_sched_facts(3-9)
    sched_invD(4) [OF demo_sched_facts(1)]
  by (auto simp: demo_running_def schedule_def select_next_def Let_def state_of_def)

theorem exited_process_is_reaped_witness:
  "zombie_queue (exit_current_process demo_running) = [0x200100]
   \<and> curr_process (exit_current_process demo_running) = 0x20000C"
proof -
  obtain q where "procs demo_running (curr_process demo_running) = Some q" "pid q \<noteq> 0"
    using demo_running_facts(2,3) by auto
  from exited_process_is_reaped [OF demo_running_facts(1) this] show ?thesis
    by (simp add: Let_def demo_running_facts(2,4,5,7))
qed

lemma demo_zombie_facts:
  "sched_inv demo_zombie" "zombie_queue demo_zombie = [0x200100]"
  "0x200100 \<in> set (process_log_list demo_zombie)"
  using exit_inv [OF demo_running_facts(1)] demo_running_facts sched_invD(1,2) [OF demo_running_facts(1)]
  by (auto simp: demo_zombie_def exit_current_process_def proc_exit_def schedule_def select_next_def Let_def)

text \<open>
  \<open>Process::exit\<close> called on a process that is waiting in the queue, not on the current one,
  does not end it: when it is at the head of the queue it is the process that runs next, marked
  running again.
\<close>

lemma exit_of_queued_process_revives_it:
  assumes "sched_inv s" and "process_queue s = a # qs"
  shows "curr_process (proc_exit a s) = a \<and> state_of (proc_exit a s) a = Some PROCESS_RUNNING
    \<and> a \<notin> set (zombie_queue (proc_exit a s))"
proof -
  note inv = assms(1) [unfolded sched_inv_def]
  have a: "a \<noteq> 0" "a \<noteq> curr_process s" "\<exists>p. procs s a = Some p" "a \<notin> set (zombie_queue s)"
    "curr_process s \<noteq> 0"
    using sched_invD [OF assms(1)] inv assms(2) by (auto simp: state_of_def)
  show ?thesis
    using a inv assms(2) by (auto simp: proc_exit_def schedule_def select_next_def Let_def)
qed

lemma exit_of_queued_process_revives_it_witness:
  "curr_process (proc_exit 0x200100 demo_sched) = 0x200100
   \<and> state_of (proc_exit 0x200100 demo_sched) 0x200100 = Some PROCESS_RUNNING"
  using exit_of_queued_process_revives_it [OF demo_sched_facts(1,4)] by simp

text \<open>
  The reaper frees a process but \<open>process_log_list\<close>, which the process listing walks, keeps
  its address: after a zombie that was logged is reaped, the log names an object that no
  longer exists.
\<close>

lemma reaped_process_stays_in_log:
  assumes "sched_inv s" and "zombie_queue s = z # zs" and "z \<in> set (process_log_list s)"
  shows "z \<in> set (process_log_list (snd (zombie_reaper s))) \<and> procs (snd (zombie_reaper s)) z = None"
proof -
  have "z \<noteq> 0" using assms(1,2) by (auto simp: sched_inv_def state_of_def)
  then show ?thesis using assms(2,3) by (simp add: zombie_reaper_def split: option.split)
qed

lemma reaped_process_stays_in_log_witness:
  "0x200100 \<in> set (process_log_list (snd (zombie_reaper demo_zombie)))
   \<and> procs (snd (zombie_reaper demo_zombie)) 0x200100 = None"
  using reaped_process_stays_in_log [OF demo_zombie_facts] by simp

text \<open>
  Switching from one process to another and back gives the first its registers again,
  except \<open>eax\<close>, which \<open>ctx_switch\<close> does not store, \<open>es\<close>, which it loads from the saved
  \<open>ds\<close>, and \<open>ss\<close>, which it does not load.
\<close>

lemma context_switch_roundtrip:
  assumes "procs s a = Some p" and "procs s b = Some q" and "a \<noteq> b"
  shows "cpu (ctx_switch b a (ctx_switch a b s))
    = (cpu s)\<lparr>c_eax := c_eax (ctx p), c_es := c_ds (cpu s)\<rparr>"
  using assms by (simp add: ctx_switch_def Let_def ctx_load_def ctx_save_def)

lemma context_switch_roundtrip_witness:
  "\<exists>p :: process. cpu (ctx_switch 0x200100 0x20000C (ctx_switch 0x20000C 0x200100 demo_sched))
    = (cpu demo_sched)\<lparr>c_eax := c_eax (ctx p), c_es := c_ds (cpu demo_sched)\<rparr>"
proof -
  obtain p q where "procs demo_sched 0x20000C = Some p" "procs demo_sched 0x200100 = Some q"
    using demo_sched_facts(6,7) by blast
  moreover have "(0x20000C :: u32) \<noteq> 0x200100" by simp
  ultimately have "cpu (ctx_switch 0x200100 0x20000C (ctx_switch 0x20000C 0x200100 demo_sched))
    = (cpu demo_sched)\<lparr>c_eax := c_eax (ctx p), c_es := c_ds (cpu demo_sched)\<rparr>"
    by (rule context_switch_roundtrip)
  then show ?thesis by (rule exI)
qed

end
