(* ===== verification/Pmm.thy ===== *)
theory Pmm
  imports Memory
begin

text \<open>
  \<open>src/kernel/mm/pmm.cpp\<close>: the physical memory manager.  Its metadata is a doubly linked list
  of nodes of 25 bytes (\<open>MetadataNode\<close> is packed), kept in an array from 6 MiB on; node
  addresses are the keys of \<open>pm_nodes\<close>.  This theory holds the list operations; paging and
  the functions \<open>alloc_frame\<close> and \<open>free_frame\<close> as a whole are in \<open>Vmm\<close>, since they call each
  other.
\<close>

section \<open>State\<close>

record mnode =
  m_addr :: u64
  m_size :: u64
  m_free :: bool
  m_next :: u32
  m_prev :: u32

record pmm =
  pm_nodes :: "u32 \<Rightarrow> mnode"
  low_alloc_mem_head :: u32
  high_alloc_mem_head :: u32
  total_usable_ram :: u64
  total_used_ram :: u64
  hardware_reserved_ram :: u64
  total_installed_ram :: u64
  LOW_DATA_START_ADDR :: u64
  metadata_reserved :: u64

definition METADATA_ADDR :: u32 where "METADATA_ADDR = 0x600000"
definition FRAME_SIZE :: u64 where "FRAME_SIZE = 0x1000"
definition PAGE_SIZE :: u32 where "PAGE_SIZE = 4096"

abbreviation (input) node_bytes :: u32 where "node_bytes \<equiv> 25"

section \<open>The memory map\<close>

record mmap_entry =
  e_addr :: u64
  e_len :: u64
  e_type :: u32

definition MULTIBOOT_MEMORY_AVAILABLE :: u32 where "MULTIBOOT_MEMORY_AVAILABLE = 1"

text \<open>One entry of the map; \<open>kernel_base\<close> is the address of \<open>__kernel_phys_base\<close>.\<close>

definition manage_entry :: "bool \<Rightarrow> u64 \<Rightarrow> 'a pmm_scheme \<Rightarrow> mmap_entry \<Rightarrow> 'a pmm_scheme" where
  "manage_entry pae kernel_base s entry =
     (let s1 =
       (if e_type entry = MULTIBOOT_MEMORY_AVAILABLE then
          if 0x100000000 \<le> e_addr entry \<and> pae then
            s\<lparr>total_usable_ram := total_usable_ram s + e_len entry,
              high_alloc_mem_head := METADATA_ADDR + node_bytes,
              pm_nodes := (pm_nodes s)(METADATA_ADDR + node_bytes :=
                \<lparr>m_addr = 0x100000000, m_size = e_len entry, m_free = True, m_next = 0,
                 m_prev = low_alloc_mem_head s\<rparr>)\<rparr>
          else if e_addr entry = kernel_base then
            s\<lparr>total_usable_ram := total_usable_ram s + e_len entry,
              low_alloc_mem_head := METADATA_ADDR,
              pm_nodes := (pm_nodes s)(METADATA_ADDR :=
                \<lparr>m_addr = 0, m_size = e_addr entry + e_len entry, m_free = True,
                 m_next = (if pae then high_alloc_mem_head s else 0), m_prev = 0\<rparr>)\<rparr>
          else s
        else s\<lparr>hardware_reserved_ram := hardware_reserved_ram s + e_len entry\<rparr>)
      in s1\<lparr>total_installed_ram := total_installed_ram s1 + e_len entry\<rparr>)"

definition manage_mmap :: "bool \<Rightarrow> u64 \<Rightarrow> mmap_entry list \<Rightarrow> 'a pmm_scheme \<Rightarrow> 'a pmm_scheme" where
  "manage_mmap pae kernel_base entries s =
     (let s1 = foldl (manage_entry pae kernel_base) s entries;
          reserved = (if pae then total_usable_ram s1 else 0x100000000 div FRAME_SIZE * 25)
      in s1\<lparr>metadata_reserved := reserved,
            LOW_DATA_START_ADDR := ucast (align_up (METADATA_ADDR + ucast reserved) PAGE_SIZE)\<rparr>)"

text \<open>\<open>pmm::init\<close> writes through the head before it checks it; \<open>None\<close> is that null pointer.\<close>

definition pmm_init :: "bool \<Rightarrow> u64 \<Rightarrow> mmap_entry list \<Rightarrow> 'a pmm_scheme \<Rightarrow> 'a pmm_scheme option" where
  "pmm_init pae kernel_base entries s =
     (let s1 = manage_mmap pae kernel_base entries s;
          h = low_alloc_mem_head s1;
          nd = pm_nodes s1 h
      in if h = 0 then None
         else Some (s1\<lparr>pm_nodes := (pm_nodes s1)(h := nd\<lparr>m_addr := LOW_DATA_START_ADDR s1,
                m_size := m_size nd - LOW_DATA_START_ADDR s1\<rparr>)\<rparr>))"

section \<open>The list operations\<close>

text \<open>The search of \<open>alloc_frame\<close>; a list that runs in a circle is never left (\<open>None\<close>).\<close>

partial_function (option) find_free :: "(u32 \<Rightarrow> mnode) \<Rightarrow> u64 \<Rightarrow> u32 \<Rightarrow> u32 option" where
  "find_free N sz current =
     (if current = 0 then Some 0
      else if m_free (N current) \<and> sz \<le> m_size (N current) then Some current
      else find_free N sz (m_next (N current)))"

text \<open>What \<open>alloc_frame\<close> does to the block it has found.\<close>

definition take_node :: "(u32 \<Rightarrow> mnode) \<Rightarrow> u64 \<Rightarrow> u32 \<Rightarrow> u32 \<Rightarrow> mnode" where
  "take_node N sz current =
     (let N1 =
       (if sz < m_size (N current) then
          let new_block = current + node_bytes;
              N' = N(new_block := \<lparr>m_addr = m_addr (N current) + sz,
                 m_size = m_size (N current) - sz, m_free = True,
                 m_next = m_next (N current), m_prev = current\<rparr>)
          in N'(current := (N' current)\<lparr>m_next := new_block\<rparr>)
        else N);
          N2 = N1(current := (N1 current)\<lparr>m_size := sz\<rparr>);
          N3 = (if m_prev (N2 current) \<noteq> 0
                then N2(current := (N2 current)\<lparr>m_addr :=
                   m_addr (N2 (m_prev (N2 current))) + m_size (N2 (m_prev (N2 current)))\<rparr>)
                else N2)
      in N3(current := (N3 current)\<lparr>m_free := False\<rparr>))"

partial_function (option) find_addr :: "(u32 \<Rightarrow> mnode) \<Rightarrow> u64 \<Rightarrow> u32 \<Rightarrow> u32 option" where
  "find_addr N a current =
     (if current = 0 then Some 0
      else if m_addr (N current) = a then Some current
      else find_addr N a (m_next (N current)))"

text \<open>One pass of the merging loop of \<open>free_frame\<close>, and the loop around it.\<close>

definition merge_two :: "(u32 \<Rightarrow> mnode) \<Rightarrow> u32 \<Rightarrow> u32 \<Rightarrow> mnode" where
  "merge_two N current =
     (let nx = m_next (N current);
          N1 = N(current := (N current)\<lparr>m_size := m_size (N current) + m_size (N nx)\<rparr>);
          N2 = N1(current := (N1 current)\<lparr>m_next := m_next (N1 nx)\<rparr>);
          after = m_next (N2 current)
      in if after \<noteq> 0 then N2(after := (N2 after)\<lparr>m_prev := current\<rparr>) else N2)"

definition may_merge :: "(u32 \<Rightarrow> mnode) \<Rightarrow> u32 \<Rightarrow> bool" where
  "may_merge N current \<longleftrightarrow>
     m_free (N current) \<and> m_next (N current) \<noteq> 0 \<and> m_free (N (m_next (N current)))
     \<and> m_addr (N (m_next (N current))) = m_addr (N current) + m_size (N current)"

partial_function (option) merge_pass ::
  "(u32 \<Rightarrow> mnode) \<Rightarrow> u32 \<Rightarrow> bool \<Rightarrow> ((u32 \<Rightarrow> mnode) \<times> bool) option" where
  "merge_pass N current merged =
     (if current = 0 then Some (N, merged)
      else if may_merge N current
      then merge_pass (merge_two N current) (m_next (merge_two N current current)) True
      else merge_pass N (m_next (N current)) merged)"

partial_function (option) merge_all :: "(u32 \<Rightarrow> mnode) \<Rightarrow> u32 \<Rightarrow> (u32 \<Rightarrow> mnode) option" where
  "merge_all N head =
     (case merge_pass N head False of None \<Rightarrow> None
      | Some (N', merged) \<Rightarrow> if merged then merge_all N' head else Some N')"

section \<open>The abstract list of blocks\<close>

text \<open>A block: its node's address, its first physical address, its size and whether it is free.\<close>

type_synonym pblk = "u32 \<times> u64 \<times> u64 \<times> bool"

fun chained :: "(u32 \<Rightarrow> mnode) \<Rightarrow> u32 \<Rightarrow> u32 \<Rightarrow> pblk list \<Rightarrow> bool" where
  "chained N pv p [] \<longleftrightarrow> p = 0"
| "chained N pv p ((n, a, z, f) # bs) \<longleftrightarrow>
     p = n \<and> n \<noteq> 0 \<and> m_addr (N n) = a \<and> m_size (N n) = z \<and> m_free (N n) = f \<and> m_prev (N n) = pv
     \<and> chained N n (m_next (N n)) bs"

fun tiled :: "u64 \<Rightarrow> pblk list \<Rightarrow> bool" where
  "tiled lo [] \<longleftrightarrow> True"
| "tiled lo ((n, a, z, f) # bs) \<longleftrightarrow> a = lo \<and> 0 < z \<and> tiled (lo + z) bs"

definition span :: "pblk list \<Rightarrow> nat" where
  "span bs = sum_list (map (\<lambda>(n, a, z, f). unat z) bs)"

fun used :: "pblk list \<Rightarrow> u64" where
  "used [] = 0"
| "used ((n, a, z, f) # bs) = (if f then 0 else z) + used bs"

definition slots :: "pblk list \<Rightarrow> u32 list" where
  "slots bs = map fst bs"

definition pmm_inv :: "'a pmm_scheme \<Rightarrow> u64 \<Rightarrow> pblk list \<Rightarrow> bool" where
  "pmm_inv s lo bs \<longleftrightarrow> chained (pm_nodes s) 0 (low_alloc_mem_head s) bs \<and> tiled lo bs
     \<and> distinct (slots bs) \<and> unat lo + span bs < 2 ^ 64 \<and> total_used_ram s = used bs"

text \<open>First fit; what is left of the chosen block goes to the slot behind its node.\<close>

fun pfit :: "u64 \<Rightarrow> pblk list \<Rightarrow> (u32 \<times> u64 \<times> pblk list) option" where
  "pfit sz [] = None"
| "pfit sz ((n, a, z, f) # bs) =
     (if f \<and> sz \<le> z
      then Some (n, a, if sz < z then (n, a, sz, False) # (n + 25, a + sz, z - sz, True) # bs
                    else (n, a, sz, False) # bs)
      else map_option (\<lambda>(m, p, bs'). (m, p, (n, a, z, f) # bs')) (pfit sz bs))"

text \<open>The split loses no node when it needs no slot or when the block is the last one.\<close>

fun safe_fit :: "u64 \<Rightarrow> pblk list \<Rightarrow> bool" where
  "safe_fit sz [] \<longleftrightarrow> True"
| "safe_fit sz ((n, a, z, f) # bs) \<longleftrightarrow>
     (if f \<and> sz \<le> z then sz = z \<or> bs = [] else safe_fit sz bs)"

fun merge_list :: "pblk list \<Rightarrow> pblk list \<times> bool" where
  "merge_list ((n, a, z, f) # (m, b, y, g) # bs) =
     (if f \<and> g then (let (r, _) = merge_list bs in ((n, a, z + y, True) # r, True))
      else (let (r, c) = merge_list ((m, b, y, g) # bs) in ((n, a, z, f) # r, c)))"
| "merge_list bs = (bs, False)"


lemma merge_list_length:
  "length (fst (merge_list bs)) \<le> length bs \<and> (snd (merge_list bs) \<longrightarrow> length (fst (merge_list bs)) < length bs)"
  by (induction bs rule: merge_list.induct) (auto split: prod.splits)

function merge_fix :: "pblk list \<Rightarrow> pblk list" where
  "merge_fix bs = (let (bs', c) = merge_list bs in if c then merge_fix bs' else bs')"
  by pat_completeness auto

termination
  using merge_list_length by (relation "measure length") (auto, metis fst_conv snd_conv)

declare merge_fix.simps [simp del]

fun no_adjacent_free :: "pblk list \<Rightarrow> bool" where
  "no_adjacent_free ((n, a, z, f) # (m, b, y, g) # bs) \<longleftrightarrow> \<not> (f \<and> g) \<and> no_adjacent_free ((m, b, y, g) # bs)"
| "no_adjacent_free bs \<longleftrightarrow> True"

fun slot_at :: "u64 \<Rightarrow> pblk list \<Rightarrow> u32" where
  "slot_at a [] = 0"
| "slot_at a ((n, b, z, f) # bs) = (if b = a then n else slot_at a bs)"

definition live :: "pblk list \<Rightarrow> pblk list" where
  "live bs = filter (\<lambda>(n, a, z, f). \<not> f) bs"

definition mark :: "u32 \<Rightarrow> pblk list \<Rightarrow> pblk list" where
  "mark n bs = map (\<lambda>(m, a, z, f). (m, a, z, m = n \<or> f)) bs"

section \<open>Searching\<close>

lemma chained_cong:
  "(\<And>x. x \<in> set (slots bs) \<Longrightarrow> N' x = N x) \<Longrightarrow> chained N' pv p bs = chained N pv p bs"
proof (induction bs arbitrary: pv p)
  case (Cons b bs)
  then show ?case by (cases b) (auto simp: slots_def)
qed simp

lemma chained_mem: "chained N pv p bs \<Longrightarrow> (n, a, z, f) \<in> set bs \<Longrightarrow>
    n \<noteq> 0 \<and> m_addr (N n) = a \<and> m_size (N n) = z \<and> m_free (N n) = f"
  by (induction N pv p bs rule: chained.induct) auto

lemma find_free_chained:
  "chained N pv p bs \<Longrightarrow> find_free N sz p = Some (case pfit sz bs of None \<Rightarrow> 0 | Some (n, _) \<Rightarrow> n)"
proof (induction bs arbitrary: pv p)
  case Nil
  then show ?case by (simp add: find_free.simps)
next
  case (Cons b bs)
  obtain n a z f where b: "b = (n, a, z, f)" by (cases b)
  then show ?case using Cons
    by (subst find_free.simps) (fastforce split: option.splits)
qed

lemma find_addr_chained:
  "chained N pv p bs \<Longrightarrow> find_addr N a p =
     Some (slot_at a bs)"
proof (induction bs arbitrary: pv p)
  case Nil
  then show ?case by (simp add: find_addr.simps)
next
  case (Cons b bs)
  obtain n a' z f where b: "b = (n, a', z, f)" by (cases b)
  then show ?case using Cons by (subst find_addr.simps) auto
qed

section \<open>Taking a block\<close>

lemma slots_simps [simp]:
  "slots [] = []" "slots ((n, a, z, f) # bs) = n # slots bs" "slots (bs @ cs) = slots bs @ slots cs"
  by (simp_all add: slots_def)

lemma take_node_other: "x \<noteq> n \<Longrightarrow> x \<noteq> n + 25 \<Longrightarrow> take_node N sz n x = N x"
  by (simp add: take_node_def Let_def)

lemma take_node_nosplit: "\<not> sz < m_size (N n) \<Longrightarrow> x \<noteq> n \<Longrightarrow> take_node N sz n x = N x"
  by (simp add: take_node_def Let_def)

lemma take_node_at:
  assumes "m_prev (N n) \<noteq> n"
  shows "\<not> sz < m_size (N n) \<Longrightarrow> take_node N sz n n = (N n)\<lparr>m_size := sz, m_free := False,
      m_addr := (if m_prev (N n) = 0 then m_addr (N n) else m_addr (N (m_prev (N n))) + m_size (N (m_prev (N n))))\<rparr>"
    and "sz < m_size (N n) \<Longrightarrow> m_prev (N n) \<noteq> n + 25 \<Longrightarrow> take_node N sz n n = (N n)\<lparr>m_size := sz, m_next := n + 25, m_free := False,
      m_addr := (if m_prev (N n) = 0 then m_addr (N n) else m_addr (N (m_prev (N n))) + m_size (N (m_prev (N n))))\<rparr>"
    and "sz < m_size (N n) \<Longrightarrow> take_node N sz n (n + 25) =
      \<lparr>m_addr = m_addr (N n) + sz, m_size = m_size (N n) - sz, m_free = True, m_next = m_next (N n), m_prev = n\<rparr>"
  using assms by (auto simp: take_node_def Let_def)

lemma pfit_slots: "pfit sz bs = Some (n, a, bs') \<Longrightarrow>
    n \<in> set (slots bs) \<and> set (slots bs') \<subseteq> insert (n + 25) (set (slots bs))
    \<and> set (slots bs) \<subseteq> set (slots bs')"
proof (induction bs arbitrary: bs')
  case (Cons b bs)
  obtain m c z f where b: "b = (m, c, z, f)" by (cases b)
  show ?case
  proof (cases "f \<and> sz \<le> z")
    case True
    then show ?thesis using Cons.prems b by (auto split: if_splits)
  next
    case False
    then obtain bs'' where "pfit sz bs = Some (n, a, bs'')" "bs' = (m, c, z, f) # bs''"
      using Cons.prems b by auto
    then show ?thesis using Cons.IH b by fastforce
  qed
qed simp

lemma pfit_split_slot:
  "pfit sz bs = Some (n, a, bs') \<Longrightarrow> chained N pv p bs \<Longrightarrow> sz < m_size (N n) \<Longrightarrow> n + 25 \<in> set (slots bs')"
proof (induction bs arbitrary: bs' pv p)
  case (Cons b bs)
  obtain m c z f where b: "b = (m, c, z, f)" by (cases b)
  show ?case
  proof (cases "f \<and> sz \<le> z")
    case True
    then show ?thesis using Cons.prems b by auto
  next
    case False
    then obtain bs'' where "pfit sz bs = Some (n, a, bs'')" "bs' = (m, c, z, f) # bs''"
      using Cons.prems b by auto
    then show ?thesis using Cons.IH [of bs'' m "m_next (N m)"] Cons.prems(2,3) b by auto
  qed
qed simp

lemma take_node_chained:
  assumes "chained N pv p bs" and "tiled lo bs" and "pfit sz bs = Some (n, a, bs')"
    and "safe_fit sz bs" and "distinct (slots bs')" and "0 \<notin> set (slots bs')" and "pv \<notin> set (slots bs')"
    and "pv \<noteq> 0 \<Longrightarrow> m_addr (N pv) + m_size (N pv) = lo"
  shows "chained (take_node N sz n) pv p bs'"
  using assms
proof (induction bs arbitrary: pv p lo bs')
  case (Cons b bs)
  obtain m c z f where b: "b = (m, c, z, f)" by (cases b)
  have nd: "p = m" "m \<noteq> 0" "m_addr (N m) = c" "m_size (N m) = z" "m_free (N m) = f" "m_prev (N m) = pv"
    "chained N m (m_next (N m)) bs" "c = lo" "tiled (lo + z) bs"
    using Cons.prems(1,2) b by auto
  show ?case
  proof (cases "f \<and> sz \<le> z")
    case True
    then have nm: "n = m" using Cons.prems(3) b by simp
    have pm: "pv \<noteq> m" using Cons.prems(3,7) True b by (auto split: if_splits)
    show ?thesis
    proof (cases "sz < z")
      case False
      then have bs': "bs' = (m, c, sz, False) # bs" "sz = z" using Cons.prems(3) True b by auto
      have eq: "take_node N sz m x = N x" if "x \<in> set (slots bs)" for x
        using that take_node_nosplit [of sz N m x] nd(4) False Cons.prems(5) bs' by auto
      have rest: "chained (take_node N sz m) m (m_next (N m)) bs"
        by (simp add: chained_cong [OF eq] nd(7))
      then show ?thesis
        using nd bs' pm Cons.prems(8) nm take_node_at(1) [of N m sz] False by auto
    next
      case split: True
      then have bs': "bs = []" "bs' = [(m, c, sz, False), (m + 25, c + sz, z - sz, True)]"
        using Cons.prems(3,4) True b by auto
      then show ?thesis
        using nd pm Cons.prems(5-8) nm split take_node_at(2,3) [of N m sz] by auto
    qed
  next
    case False
    then obtain bs'' where r: "pfit sz bs = Some (n, a, bs'')" "bs' = (m, c, z, f) # bs''"
      using Cons.prems(3) b by auto
    have sf: "safe_fit sz bs" using Cons.prems(4) b False by auto
    have IH: "chained (take_node N sz n) m (m_next (N m)) bs''"
      using Cons.IH [OF nd(7,9) r(1) sf] Cons.prems(5,6) r(2) nd(3,4,8) by auto
    have "n \<noteq> m" using pfit_slots [OF r(1)] Cons.prems(5) r(2) by auto
    moreover have "m \<noteq> n + 25 \<or> \<not> sz < m_size (N n)"
    proof (rule ccontr)
      assume h: "\<not> (m \<noteq> n + 25 \<or> \<not> sz < m_size (N n))"
      have "n + 25 \<in> set (slots bs'')"
        using pfit_split_slot [OF r(1) nd(7)] h by simp
      then show False using h Cons.prems(5) r(2) by auto
    qed
    ultimately have "take_node N sz n m = N m"
      using take_node_other [of m n N sz] take_node_nosplit [of sz N n m] by auto
    then show ?thesis using IH nd r(2) by simp
  qed
qed simp


lemma pfit_tiled:
  "pfit sz bs = Some (n, a, bs') \<Longrightarrow> tiled lo bs \<Longrightarrow> 0 < sz \<Longrightarrow>
     tiled lo bs' \<and> span bs' = span bs \<and> used bs' = used bs + sz
     \<and> (\<exists>z. (n, a, z, True) \<in> set bs \<and> sz \<le> z \<and> (n, a, sz, False) \<in> set bs')
     \<and> (\<forall>b \<in> set (live bs). b \<in> set (live bs'))"
proof (induction bs arbitrary: lo bs')
  case (Cons b bs)
  obtain m c z f where b: "b = (m, c, z, f)" by (cases b)
  show ?case
  proof (cases "f \<and> sz \<le> z")
    case True
    have "unat sz + unat (z - sz) = unat z" if "sz \<le> z"
      using that by (simp add: unat_sub word_le_nat_alt)
    moreover have "0 < z - sz" if "sz < z"
      using that by (auto simp: word_gt_0)
    ultimately show ?thesis
      using True Cons.prems b by (auto simp: span_def live_def split: if_splits)
  next
    case False
    then obtain bs'' where r: "pfit sz bs = Some (n, a, bs'')" "bs' = (m, c, z, f) # bs''"
      using Cons.prems(1) b by auto
    then show ?thesis
      using Cons.IH [OF r(1), of "lo + z"] Cons.prems(2,3) b by (auto simp: span_def live_def)
  qed
qed simp

section \<open>Merging\<close>

lemma merge_list_abs:
  "tiled lo bs \<Longrightarrow> unat lo + span bs < 2 ^ 64 \<Longrightarrow>
     tiled lo (fst (merge_list bs)) \<and> span (fst (merge_list bs)) = span bs
     \<and> used (fst (merge_list bs)) = used bs \<and> live (fst (merge_list bs)) = live bs
     \<and> set (slots (fst (merge_list bs))) \<subseteq> set (slots bs)
     \<and> (distinct (slots bs) \<longrightarrow> distinct (slots (fst (merge_list bs))))"
proof (induction bs arbitrary: lo rule: merge_list.induct)
  case (1 n a z f m b y g bs)
  have s: "unat (lo + z) = unat lo + unat z" "unat (z + y) = unat z + unat y"
    "unat (lo + (z + y)) = unat lo + (unat z + unat y)"
    using 1(4) by (simp_all add: span_def unat_add_no_wrap)
  have zy: "0 < z + y" using 1(3) s(2) by (simp add: word_less_nat_alt)
  show ?case
  proof (cases "f \<and> g")
    case True
    then show ?thesis
      using 1(1) [of "lo + z + y"] 1(3,4) s zy
      by (auto simp: span_def live_def add.assoc split: prod.splits)
  next
    case False
    then show ?thesis
      using 1(2) [of "lo + z"] 1(3,4) s
      by (auto simp: span_def live_def split: prod.splits)
  qed
qed auto

lemma merge_list_unchanged: "\<not> snd (merge_list bs) \<Longrightarrow> fst (merge_list bs) = bs \<and> no_adjacent_free bs"
  by (induction bs rule: merge_list.induct) (auto split: prod.splits if_splits)

lemma merge_fix_abs:
  "tiled lo bs \<Longrightarrow> unat lo + span bs < 2 ^ 64 \<Longrightarrow> distinct (slots bs) \<Longrightarrow>
     tiled lo (merge_fix bs) \<and> span (merge_fix bs) = span bs \<and> used (merge_fix bs) = used bs
     \<and> live (merge_fix bs) = live bs \<and> distinct (slots (merge_fix bs)) \<and> no_adjacent_free (merge_fix bs)"
proof (induction bs rule: merge_fix.induct)
  case (1 bs)
  obtain bs' c where m: "merge_list bs = (bs', c)" by (cases "merge_list bs")
  show ?case
  proof (cases c)
    case True
    then show ?thesis
      using 1 merge_list_abs [of lo bs] m by (simp add: merge_fix.simps [of bs])
  next
    case False
    then show ?thesis
      using merge_list_unchanged [of bs] 1(2-4) m by (simp add: merge_fix.simps [of bs])
  qed
qed

lemma merge_two_fields:
  assumes "m_next (N n) = m" and "m \<noteq> n" and "m_next (N m) \<noteq> n"
  shows "merge_two N n n = (N n)\<lparr>m_size := m_size (N n) + m_size (N m), m_next := m_next (N m)\<rparr>"
    and "x \<noteq> n \<Longrightarrow> m_next (N m) \<noteq> 0 \<Longrightarrow> merge_two N n x = (if x = m_next (N m) then (N x)\<lparr>m_prev := n\<rparr> else N x)"
    and "x \<noteq> n \<Longrightarrow> m_next (N m) = 0 \<Longrightarrow> merge_two N n x = N x"
  using assms by (auto simp: merge_two_def Let_def)

lemma chained_head_prev:
  assumes "chained N pv p bs" and "\<And>x. x \<in> set (slots bs) \<Longrightarrow> N' x = (if x = p then (N x)\<lparr>m_prev := q\<rparr> else N x)"
    and "distinct (slots bs)"
  shows "chained N' q p bs"
proof (cases bs)
  case Nil
  then show ?thesis using assms by simp
next
  case (Cons b cs)
  obtain n a z f where b: "b = (n, a, z, f)" by (cases b)
  have "N' x = N x" if "x \<in> set (slots cs)" for x
    using assms that Cons b by auto
  from chained_cong [of cs N' N, OF this] show ?thesis
    using assms(1) assms(2) [of n] Cons b by auto
qed

lemma merge_pass_refines:
  "chained N pv p bs \<Longrightarrow> tiled lo bs \<Longrightarrow> distinct (slots bs) \<Longrightarrow>
   \<exists>N'. merge_pass N p c = Some (N', c \<or> snd (merge_list bs)) \<and> chained N' pv p (fst (merge_list bs))
     \<and> (\<forall>x. x \<notin> set (slots bs) \<longrightarrow> N' x = N x)"
proof (induction bs arbitrary: N pv p c lo rule: merge_list.induct [case_names pair empty single])
  case (pair n a z f m b y g bs)
  have nd: "p = n" "n \<noteq> 0" "m_addr (N n) = a" "m_size (N n) = z" "m_free (N n) = f" "m_prev (N n) = pv"
    "m_next (N n) = m" "m \<noteq> 0" "m_addr (N m) = b" "m_size (N m) = y" "m_free (N m) = g"
    "chained N m (m_next (N m)) bs" "chained N n m ((m, b, y, g) # bs)" "b = a + z" "n \<noteq> m"
    "n \<notin> set (slots bs)" "m \<notin> set (slots bs)" "distinct (slots bs)" "a = lo" "tiled (lo + z + y) bs" "tiled (lo + z) ((m, b, y, g) # bs)"
    using pair(3-5) by auto
  have nx: "m_next (N m) \<noteq> n"
    using nd(2,12,16) by (cases bs) auto
  show ?case
  proof (cases "f \<and> g")
    case True
    let ?N = "merge_two N n"
    have pass: "merge_pass N p c = merge_pass ?N (m_next (N m)) True"
      using nd True merge_two_fields(1) [OF nd(7) _ nx] by (subst merge_pass.simps) (simp add: may_merge_def)
    have ch: "chained ?N n (m_next (N m)) bs"
    proof (rule chained_head_prev [OF nd(12) _ nd(18)])
      fix x assume x: "x \<in> set (slots bs)"
      then have "x \<noteq> n" "m_next (N m) \<noteq> 0" using nd(12,16) by (auto, cases bs, auto)
      then show "?N x = (if x = m_next (N m) then (N x)\<lparr>m_prev := n\<rparr> else N x)"
        using merge_two_fields(2) [OF nd(7) _ nx] nd(15) by auto
    qed
    obtain N' where N': "merge_pass ?N (m_next (N m)) True = Some (N', True)"
      "chained N' n (m_next (N m)) (fst (merge_list bs))" "\<forall>x. x \<notin> set (slots bs) \<longrightarrow> N' x = ?N x"
      using pair(1) [OF _ ch nd(20,18), of True] True by auto
    have "N' n = ?N n" using N'(3) nd(16) by blast
    moreover have "N' x = N x" if "x \<notin> set (slots ((n, a, z, f) # (m, b, y, g) # bs))" for x
    proof -
      have "x \<noteq> m_next (N m) \<or> m_next (N m) = 0" using that nd(12) by (cases bs) auto
      then show ?thesis
        using N'(3) that merge_two_fields(2,3) [OF nd(7) _ nx, of x] nd(15)
        by (cases "m_next (N m) = 0") auto
    qed
    ultimately show ?thesis
      using pass N'(1,2) True nd merge_two_fields(1) [OF nd(7) _ nx] by (auto split: prod.splits)
  next
    case False
    have pass: "merge_pass N p c = merge_pass N m c"
      using nd False by (subst merge_pass.simps) (auto simp: may_merge_def)
    have ds: "distinct (slots ((m, b, y, g) # bs))" using nd by simp
    obtain N' where N': "merge_pass N m c = Some (N', c \<or> snd (merge_list ((m, b, y, g) # bs)))"
      "chained N' n m (fst (merge_list ((m, b, y, g) # bs)))"
      "\<forall>x. x \<notin> set (slots ((m, b, y, g) # bs)) \<longrightarrow> N' x = N x"
      using pair(2) [OF False nd(13,21) ds, of c] by auto
    have "N' n = N n" using N'(3) nd(15,16) by auto
    then show ?thesis
      using pass N' False nd by (auto split: prod.splits)
  qed
next
  case (empty N pv p c lo)
  then show ?case by (simp add: merge_pass.simps)
next
  case (single v N pv p c lo)
  obtain n a z f where v: "v = (n, a, z, f)" by (cases v)
  then have "merge_pass N p c = Some (N, c)"
    using single(1) by (subst merge_pass.simps) (simp add: may_merge_def merge_pass.simps [of _ 0])
  then show ?case using single v by simp
qed

lemma merge_all_refines:
  "chained N pv p bs \<Longrightarrow> tiled lo bs \<Longrightarrow> unat lo + span bs < 2 ^ 64 \<Longrightarrow> distinct (slots bs) \<Longrightarrow>
   \<exists>N'. merge_all N p = Some N' \<and> chained N' pv p (merge_fix bs)"
proof (induction bs arbitrary: N rule: merge_fix.induct)
  case (1 bs)
  obtain bs' c where m: "merge_list bs = (bs', c)" by (cases "merge_list bs")
  obtain N1 where N1: "merge_pass N p False = Some (N1, c)" "chained N1 pv p bs'"
    using merge_pass_refines [OF 1(2,3,5), of False] m by auto
  show ?case
  proof (cases c)
    case True
    then show ?thesis
      using 1(1) [OF m [symmetric] refl True N1(2)] merge_list_abs [OF 1(3,4)] 1(4,5) m N1(1)
      by (simp add: merge_all.simps [of N] merge_fix.simps [of bs])
  next
    case False
    then show ?thesis
      using N1 m by (simp add: merge_all.simps [of N] merge_fix.simps [of bs])
  qed
qed

end
