(* ===== verification/Vmm.thy ===== *)
theory Vmm
  imports Pmm
begin

text \<open>
  \<open>src/kernel/mm/vmm.cpp\<close> and the two functions of \<open>src/kernel/mm/pmm.cpp\<close> that use it:
  the page directory, page tables, and \<open>alloc_frame\<close> and \<open>free_frame\<close> with their mapping and
  unmapping.  A page table lies in a frame: \<open>pt_pages\<close> gives the 1024 entries found at a frame
  address, whether or not the frame is in use as a table.  The state extends that of \<open>Pmm\<close>.

  \<open>alloc_page\<close> allocates a frame for a missing page table, and \<open>alloc_frame\<close> maps the frames it
  hands out with \<open>alloc_page\<close>: the two recurse.  They take the depth the recursion may have.
  \<open>None\<close> is exceeding that depth, an endless loop or a panic.
\<close>

section \<open>Paging structures\<close>

record pd_ent =
  de_present :: bool
  de_read_write :: bool
  de_user_supervisor :: bool
  de_write_through :: bool
  de_cache_disable :: bool
  de_accessed :: bool
  de_ps :: bool
  de_address :: "20 word"

record page_4kb =
  pg_present :: bool
  pg_read_write :: bool
  pg_user_supervisor :: bool
  pg_write_through :: bool
  pg_cache_disable :: bool
  pg_accessed :: bool
  pg_dirty :: bool
  pg_pat :: bool
  pg_global :: bool
  pg_address :: "20 word"

definition no_pde :: pd_ent where
  "no_pde = \<lparr>de_present = False, de_read_write = False, de_user_supervisor = False,
     de_write_through = False, de_cache_disable = False, de_accessed = False, de_ps = False,
     de_address = 0\<rparr>"

definition no_page :: page_4kb where
  "no_page = \<lparr>pg_present = False, pg_read_write = False, pg_user_supervisor = False,
     pg_write_through = False, pg_cache_disable = False, pg_accessed = False, pg_dirty = False,
     pg_pat = False, pg_global = False, pg_address = 0\<rparr>"

record mm = pmm +
  enabled_paging :: bool
  legacy_map :: bool
  active_pd :: u32
  pd_entries :: "10 word \<Rightarrow> pd_ent"
  page_tables :: "10 word \<Rightarrow> u32"
  pt_pages :: "u32 \<Rightarrow> 10 word \<Rightarrow> page_4kb"

definition PD_INDEX :: "u32 \<Rightarrow> 10 word" where "PD_INDEX v = ucast (drop_bit 22 v AND 0x3FF)"
definition PT_INDEX :: "u32 \<Rightarrow> 10 word" where "PT_INDEX v = ucast (drop_bit 12 v AND 0x3FF)"
definition PAGE_OFFSET :: "u32 \<Rightarrow> u32" where "PAGE_OFFSET v = v AND 0xFFF"
definition FRAME_TO_PHYS :: "20 word \<Rightarrow> u32" where "FRAME_TO_PHYS f = push_bit 12 (ucast f)"
definition PHYS_TO_FRAME :: "u32 \<Rightarrow> 20 word" where "PHYS_TO_FRAME p = ucast (drop_bit 12 p)"
definition FRAME4MB_TO_PHYS :: "20 word \<Rightarrow> u32" where "FRAME4MB_TO_PHYS f = push_bit 22 (ucast f)"
definition PHYS_TO_FRAME4MB :: "u32 \<Rightarrow> 20 word" where "PHYS_TO_FRAME4MB p = ucast (drop_bit 22 p)"

definition fl :: "u32 \<Rightarrow> u32 \<Rightarrow> bool" where "fl flags b \<longleftrightarrow> flags AND b \<noteq> 0"

abbreviation (input) PRESENT :: u32 where "PRESENT \<equiv> 0x1"
abbreviation (input) WRITABLE :: u32 where "WRITABLE \<equiv> 0x2"
abbreviation (input) USER :: u32 where "USER \<equiv> 0x4"
abbreviation (input) WRITETHROUGH :: u32 where "WRITETHROUGH \<equiv> 0x8"
abbreviation (input) NOTCACHABLE :: u32 where "NOTCACHABLE \<equiv> 0x10"
abbreviation (input) PATBIT :: u32 where "PATBIT \<equiv> 0x80"
abbreviation (input) CPU_GLOBAL :: u32 where "CPU_GLOBAL \<equiv> 0x100"

definition mk_pde :: "u32 \<Rightarrow> u32 \<Rightarrow> pd_ent" where
  "mk_pde flags pt = no_pde\<lparr>de_present := fl flags PRESENT, de_read_write := fl flags WRITABLE,
     de_user_supervisor := fl flags USER, de_write_through := fl flags WRITETHROUGH,
     de_cache_disable := fl flags NOTCACHABLE, de_address := PHYS_TO_FRAME pt, de_ps := False\<rparr>"

definition mk_page :: "u32 \<Rightarrow> u32 \<Rightarrow> page_4kb" where
  "mk_page flags phys_addr = no_page\<lparr>pg_present := fl flags PRESENT,
     pg_read_write := fl flags WRITABLE, pg_user_supervisor := fl flags USER,
     pg_write_through := fl flags WRITETHROUGH, pg_cache_disable := fl flags NOTCACHABLE,
     pg_pat := fl flags PATBIT, pg_global := fl flags CPU_GLOBAL,
     pg_address := PHYS_TO_FRAME phys_addr\<rparr>"

section \<open>Looking up and removing pages\<close>

text \<open>\<open>is_mapped\<close>; \<open>None\<close> is the panic for an inactive page directory.\<close>

definition is_mapped :: "'a mm_scheme \<Rightarrow> u32 \<Rightarrow> bool option" where
  "is_mapped s virt_addr =
     (if \<not> enabled_paging s \<and> \<not> legacy_map s then Some False
      else if active_pd s = 0 then None
      else Some (de_present (pd_entries s (PD_INDEX virt_addr))
             \<and> pg_present (pt_pages s (page_tables s (PD_INDEX virt_addr)) (PT_INDEX virt_addr))))"

definition virtual_to_physical :: "'a mm_scheme \<Rightarrow> u32 \<Rightarrow> u32 option" where
  "virtual_to_physical s virt_addr =
     (if \<not> enabled_paging s \<and> \<not> legacy_map s then Some virt_addr
      else if active_pd s = 0 then None
      else
        let pde = pd_entries s (PD_INDEX virt_addr);
            pt = page_tables s (PD_INDEX virt_addr);
            pg = pt_pages s pt (PT_INDEX virt_addr)
        in if de_present pde \<and> de_ps pde then Some (FRAME4MB_TO_PHYS (de_address pde))
           else if pt = 0 then Some 0
           else if \<not> pg_present pg then Some 0
           else Some (FRAME_TO_PHYS (pg_address pg) + PAGE_OFFSET virt_addr))"

definition set_page :: "u32 \<Rightarrow> 10 word \<Rightarrow> page_4kb \<Rightarrow> 'a mm_scheme \<Rightarrow> 'a mm_scheme" where
  "set_page pt i pg s = s\<lparr>pt_pages := (pt_pages s)(pt := (pt_pages s pt)(i := pg))\<rparr>"

definition free_page :: "u32 \<Rightarrow> 'a mm_scheme \<Rightarrow> (bool \<times> 'a mm_scheme) option" where
  "free_page virt_addr s =
     (if \<not> enabled_paging s \<and> \<not> legacy_map s then Some (True, s)
      else if active_pd s = 0 then None
      else
        let pdi = PD_INDEX virt_addr; pti = PT_INDEX virt_addr; pt = page_tables s pdi
        in if pt = 0 then Some (False, s)
           else if de_ps (pd_entries s pdi)
           then Some (True, s\<lparr>pd_entries := (pd_entries s)(pdi := no_pde)\<rparr>)
           else if \<not> pg_present (pt_pages s pt pti) then Some (False, s)
           else Some (True, set_page pt pti ((pt_pages s pt pti)\<lparr>pg_present := False\<rparr>) s))"

definition alloc_page_4mib :: "u32 \<Rightarrow> u32 \<Rightarrow> u32 \<Rightarrow> 'a mm_scheme \<Rightarrow> 'a mm_scheme option" where
  "alloc_page_4mib virt_addr phys_addr flags s =
     (if \<not> enabled_paging s \<and> \<not> legacy_map s then Some s
      else if active_pd s = 0 then None
      else Some (s\<lparr>pd_entries := (pd_entries s)(PD_INDEX virt_addr :=
        no_pde\<lparr>de_present := fl flags PRESENT, de_read_write := fl flags WRITABLE,
          de_user_supervisor := fl flags USER, de_write_through := fl flags WRITETHROUGH,
          de_cache_disable := fl flags NOTCACHABLE, de_ps := True,
          de_address := PHYS_TO_FRAME4MB phys_addr\<rparr>)\<rparr>))"

section \<open>Allocating frames and pages\<close>

text \<open>
  The \<open>memset\<close> of the first frame of an allocation: a page table at that address is cleared,
  and so is the half of the page directory that lies there.
\<close>

definition zero_frame :: "u32 \<Rightarrow> 'a mm_scheme \<Rightarrow> 'a mm_scheme" where
  "zero_frame a s = s\<lparr>pt_pages := (pt_pages s)(a := \<lambda>_. no_page),
     pd_entries := (if active_pd s \<noteq> 0 \<and> a = active_pd s then \<lambda>_. no_pde else pd_entries s),
     page_tables := (if active_pd s \<noteq> 0 \<and> a = active_pd s + 4096 then \<lambda>_. 0 else page_tables s)\<rparr>"

definition take_block :: "u64 \<Rightarrow> u32 \<Rightarrow> 'a mm_scheme \<Rightarrow> 'a mm_scheme" where
  "take_block sz current s = s\<lparr>pm_nodes := take_node (pm_nodes s) sz current,
     total_used_ram := total_used_ram s + sz\<rparr>"

text \<open>
  The loop of \<open>identity_map_region\<close>, over the function that maps one page; a loop whose end is
  never passed is \<open>None\<close>.
\<close>

partial_function (option) identity_map_with ::
  "(u32 \<Rightarrow> mm \<Rightarrow> mm option) \<Rightarrow> u32 \<Rightarrow> u32 \<Rightarrow> mm \<Rightarrow> mm option" where
  "identity_map_with page addr end_addr s =
     (if addr \<le> end_addr
      then (case page addr s of None \<Rightarrow> None
        | Some s' \<Rightarrow> identity_map_with page (addr + PAGE_SIZE) end_addr s')
      else Some s)"

text \<open>\<open>alloc_frame\<close>, over the function that identity maps a region.\<close>

definition alloc_frame_with ::
  "(u32 \<Rightarrow> u32 \<Rightarrow> mm \<Rightarrow> mm option) \<Rightarrow> u64 \<Rightarrow> bool \<Rightarrow> mm \<Rightarrow> (u32 \<times> mm) option" where
  "alloc_frame_with map_region num_blocks identity_map s =
     (if num_blocks = 0 then Some (0, s)
      else
        let sz = num_blocks * FRAME_SIZE in
        if enabled_paging s \<and> is_mapped s (low_alloc_mem_head s) = None then None
        else if enabled_paging s \<and> is_mapped s (low_alloc_mem_head s) = Some False then Some (0, s)
        else case find_free (pm_nodes s) sz (low_alloc_mem_head s) of None \<Rightarrow> None
          | Some current \<Rightarrow>
            if current = 0 then Some (0, s)
            else
              let s1 = take_block sz current s;
                  ret = m_addr (pm_nodes s1 current)
              in case (if enabled_paging s1 \<and> identity_map
                       then map_region (ucast ret) (ucast (ret + 4096 * num_blocks)) s1
                       else Some s1) of None \<Rightarrow> None
                 | Some s2 \<Rightarrow>
                   Some (align_up (ucast ret) PAGE_SIZE, zero_frame (ucast ret) s2))"

text \<open>\<open>alloc_page\<close>, with the depth to which it and \<open>alloc_frame\<close> may call each other.\<close>

primrec alloc_page :: "nat \<Rightarrow> u32 \<Rightarrow> u32 \<Rightarrow> u32 \<Rightarrow> mm \<Rightarrow> mm option" where
  "alloc_page 0 virt_addr phys_addr flags s = None"
| "alloc_page (Suc d) virt_addr phys_addr flags s =
     (if \<not> enabled_paging s \<and> \<not> legacy_map s then Some s
      else if active_pd s = 0 then None
      else
        let pdi = PD_INDEX virt_addr; pti = PT_INDEX virt_addr in
        case (if page_tables s pdi = 0
              then (case alloc_frame_with (identity_map_with (\<lambda>a. alloc_page d a a 3)) 1 True s of
                  None \<Rightarrow> None
                | Some (pt, s1) \<Rightarrow> Some (s1\<lparr>page_tables := (page_tables s1)(pdi := pt),
                    pd_entries := (pd_entries s1)(pdi := mk_pde flags pt)\<rparr>))
              else Some s) of None \<Rightarrow> None
        | Some s2 \<Rightarrow> Some (set_page (page_tables s2 pdi) pti (mk_page flags phys_addr) s2))"

definition identity_map_region :: "nat \<Rightarrow> u32 \<Rightarrow> u32 \<Rightarrow> u32 \<Rightarrow> mm \<Rightarrow> mm option" where
  "identity_map_region d start_addr end_addr flags s =
     identity_map_with (\<lambda>a. alloc_page d a a flags) start_addr end_addr s"

definition alloc_frame :: "nat \<Rightarrow> u64 \<Rightarrow> bool \<Rightarrow> mm \<Rightarrow> (u32 \<times> mm) option" where
  "alloc_frame d num_blocks identity_map s =
     alloc_frame_with (\<lambda>a e. identity_map_region d a e 3) num_blocks identity_map s"

section \<open>Freeing frames\<close>

text \<open>
  The unmapping loop of \<open>free_frame\<close>: it advances the block pointer instead of \<open>i\<close>, so it goes
  on while the node at that address is at least a page large.
\<close>

partial_function (option) unmap_loop :: "u32 \<Rightarrow> u32 \<Rightarrow> 'a mm_scheme \<Rightarrow> 'a mm_scheme option" where
  "unmap_loop block addr s =
     (if 0 < m_size (pm_nodes s block) div 4096
      then (case free_page addr s of None \<Rightarrow> None
        | Some (_, s') \<Rightarrow> unmap_loop (block + node_bytes) (addr + PAGE_SIZE) s')
      else Some s)"

text \<open>
  \<open>free_frame\<close>.  An address no node has leaves the block pointer uninitialised (\<open>None\<close>).
\<close>

definition free_frame :: "u32 \<Rightarrow> 'a mm_scheme \<Rightarrow> 'a mm_scheme option" where
  "free_frame ptr s =
     (if ptr = 0 then Some s
      else case find_addr (pm_nodes s) (ucast ptr) (low_alloc_mem_head s) of None \<Rightarrow> None
      | Some block \<Rightarrow>
        if block = 0 then None
        else
          let nd = pm_nodes s block;
              s1 = s\<lparr>pm_nodes := (pm_nodes s)(block := nd\<lparr>m_free := True\<rparr>),
                total_used_ram := total_used_ram s - m_size nd\<rparr>
          in case merge_all (pm_nodes s1) (low_alloc_mem_head s1) of None \<Rightarrow> None
             | Some N \<Rightarrow>
               let s2 = s1\<lparr>pm_nodes := N\<rparr>
               in if enabled_paging s2 then unmap_loop block 0 s2 else Some s2)"

text \<open>
  \<open>vmm::init\<close>, with the framebuffer's address (null when there is none) and size.  \<open>None\<close> also
  stands for the panic when the page directory is not mapped at the end.  The entries of the new
  directory are the first of its two frames, which \<open>alloc_frame\<close> has just cleared; its table
  pointers are the second, which holds what the memory held.
\<close>

fun map_framebuffer :: "nat \<Rightarrow> nat \<Rightarrow> u32 \<Rightarrow> mm \<Rightarrow> mm option" where
  "map_framebuffer fuel 0 fb s = Some s"
| "map_framebuffer fuel (Suc k) fb s =
     (case alloc_page fuel fb fb 3 s of None \<Rightarrow> None
      | Some s' \<Rightarrow> map_framebuffer fuel k (fb + PAGE_SIZE) s')"

definition vmm_init :: "nat \<Rightarrow> u32 \<Rightarrow> u32 \<Rightarrow> mm \<Rightarrow> mm option" where
  "vmm_init fuel fb fb_size s =
     (case alloc_frame fuel 2 True s of None \<Rightarrow> None
      | Some (pd, s1) \<Rightarrow>
        let s2 = s1\<lparr>active_pd := pd, pd_entries := \<lambda>_. no_pde, legacy_map := True\<rparr> in
        case identity_map_region fuel 0 (METADATA_ADDR + PAGE_SIZE) 3 s2 of None \<Rightarrow> None
        | Some s3 \<Rightarrow>
          case alloc_page fuel (low_alloc_mem_head s3) (low_alloc_mem_head s3) 3 s3 of None \<Rightarrow> None
          | Some s4 \<Rightarrow>
            case (if fb \<noteq> 0
                  then map_framebuffer fuel (unat ((fb_size + PAGE_SIZE - 1) div PAGE_SIZE)) fb s4
                  else Some s4) of None \<Rightarrow> None
            | Some s5 \<Rightarrow>
              case identity_map_region fuel (active_pd s5) (active_pd s5 + PAGE_SIZE * 5) 3 s5 of None \<Rightarrow> None
              | Some s6 \<Rightarrow>
                let s7 = s6\<lparr>legacy_map := False, enabled_paging := True\<rparr>
                in if is_mapped s7 (active_pd s7) = Some True then Some s7 else None)"

end
