(* ===== verification/Paging.thy ===== *)
theory Paging
  imports Vmm
begin

text \<open>
  What the page operations of \<open>src/kernel/mm/vmm.cpp\<close> do to the translation of addresses:
  mapping, unmapping, identity mapping of a region, and pages of 4 MiB.
\<close>

section \<open>Addresses and pages\<close>

definition same_page :: "u32 \<Rightarrow> u32 \<Rightarrow> bool" where
  "same_page v w \<longleftrightarrow> drop_bit 12 v = drop_bit 12 w"

lemma mask10: "(0x3FF :: u32) = mask 10" "(0xFFF :: u32) = mask 12"
  by (simp_all add: mask_eq_exp_minus_1)

lemma bit_PD_INDEX: "bit (PD_INDEX v) i \<longleftrightarrow> i < 10 \<and> bit v (i + 22)"
  by (auto simp: PD_INDEX_def mask10 bit_simps add.commute)

lemma bit_PT_INDEX: "bit (PT_INDEX v) i \<longleftrightarrow> i < 10 \<and> bit v (i + 12)"
  by (auto simp: PT_INDEX_def mask10 bit_simps add.commute)

lemma same_page_index: "same_page v w \<longleftrightarrow> PD_INDEX v = PD_INDEX w \<and> PT_INDEX v = PT_INDEX w"
proof
  assume h: "same_page v w"
  have b: "bit v (i + 12) = bit w (i + 12)" for i
    using arg_cong [OF h [unfolded same_page_def], of "\<lambda>x. bit x i"] by (simp add: bit_simps add.commute)
  have b22: "bit v (i + 22) = bit w (i + 22)" for i
    using b [of "i + 10"] by (simp add: add.assoc)
  show "PD_INDEX v = PD_INDEX w \<and> PT_INDEX v = PT_INDEX w"
    by (intro conjI bit_eqI) (simp_all add: bit_PD_INDEX bit_PT_INDEX b b22)
next
  assume h: "PD_INDEX v = PD_INDEX w \<and> PT_INDEX v = PT_INDEX w"
  have lo: "bit v (i + 12) = bit w (i + 12)" if "i < 10" for i
    using h that bit_PT_INDEX by metis
  have hi: "bit v (i + 22) = bit w (i + 22)" if "i < 10" for i
    using h that bit_PD_INDEX by metis
  have "bit v (12 + i) = bit w (12 + i)" if "12 + i < 32" for i
  proof (cases "i < 10")
    case True
    then show ?thesis using lo [of i] by (simp add: add.commute)
  next
    case False
    then show ?thesis using hi [of "i - 10"] that by (simp add: add.commute)
  qed
  then have "bit v (12 + i) = bit w (12 + i)" for i
    by (cases "12 + i < 32") (auto dest: bit_imp_le_length)
  then show "same_page v w"
    unfolding same_page_def by (intro bit_eqI) (simp add: bit_simps)
qed

lemma frame_roundtrip: "FRAME_TO_PHYS (PHYS_TO_FRAME p) = p AND NOT 0xFFF"
  unfolding FRAME_TO_PHYS_def PHYS_TO_FRAME_def mask10
  by (rule bit_eqI) (auto simp: bit_simps dest: bit_imp_le_length)

lemma page_base_offset: "(w AND NOT 0xFFF) + PAGE_OFFSET w = (w :: u32)"
proof -
  have "(w AND NOT 0xFFF) AND (w AND 0xFFF) = 0"
    unfolding mask10 by (rule bit_eqI) (auto simp: bit_simps)
  from disjunctive_add_eq_or [OF this] show ?thesis
    unfolding PAGE_OFFSET_def mask10 by (auto intro: bit_eqI simp: bit_simps)
qed

section \<open>Page tables in order\<close>

text \<open>Every page table that is there is present, is not a 4 MiB page and has one directory entry.\<close>

definition tables_ok :: "'a mm_scheme \<Rightarrow> bool" where
  "tables_ok s \<longleftrightarrow> (\<forall>i. page_tables s i \<noteq> 0 \<longrightarrow>
     de_present (pd_entries s i) \<and> \<not> de_ps (pd_entries s i)
     \<and> (\<forall>j. page_tables s j = page_tables s i \<longrightarrow> j = i))"

definition paging_on :: "'a mm_scheme \<Rightarrow> bool" where
  "paging_on s \<longleftrightarrow> (enabled_paging s \<or> legacy_map s) \<and> active_pd s \<noteq> 0"

definition has_table :: "'a mm_scheme \<Rightarrow> u32 \<Rightarrow> bool" where
  "has_table s v \<longleftrightarrow> page_tables s (PD_INDEX v) \<noteq> 0"

lemma set_page_fields [simp]:
  "enabled_paging (set_page pt i pg s) = enabled_paging s" "legacy_map (set_page pt i pg s) = legacy_map s"
  "active_pd (set_page pt i pg s) = active_pd s" "pd_entries (set_page pt i pg s) = pd_entries s"
  "page_tables (set_page pt i pg s) = page_tables s"
  "pt_pages (set_page pt i pg s) = (pt_pages s)(pt := (pt_pages s pt)(i := pg))"
  "pm_nodes (set_page pt i pg s) = pm_nodes s" "low_alloc_mem_head (set_page pt i pg s) = low_alloc_mem_head s"
  "total_used_ram (set_page pt i pg s) = total_used_ram s"
  by (simp_all add: set_page_def)

lemma set_page_ok [simp]:
  "tables_ok (set_page pt i pg s) = tables_ok s" "paging_on (set_page pt i pg s) = paging_on s"
  "has_table (set_page pt i pg s) v = has_table s v"
  by (simp_all add: tables_ok_def paging_on_def has_table_def)

text \<open>Writing the entry of one page changes the translation of that page only.\<close>

lemma set_page_translation:
  fixes s :: "'a mm_scheme"
  assumes "tables_ok s" and "paging_on s" and "has_table s v"
    and s'_def: "s' = set_page (page_tables s (PD_INDEX v)) (PT_INDEX v) pg s"
  shows "same_page w v \<Longrightarrow> virtual_to_physical s' w =
      Some (if pg_present pg then FRAME_TO_PHYS (pg_address pg) + PAGE_OFFSET w else 0)"
    and "same_page w v \<Longrightarrow> is_mapped s' w = Some (pg_present pg)"
    and "\<not> same_page w v \<Longrightarrow> virtual_to_physical s' w = virtual_to_physical s w"
    and "\<not> same_page w v \<Longrightarrow> is_mapped s' w = is_mapped s w"
proof -
  have t: "page_tables s (PD_INDEX v) \<noteq> 0" "de_present (pd_entries s (PD_INDEX v))"
    "\<not> de_ps (pd_entries s (PD_INDEX v))"
    "\<And>j. page_tables s j = page_tables s (PD_INDEX v) \<Longrightarrow> j = PD_INDEX v"
    using assms(1,3) by (auto simp: tables_ok_def has_table_def)
  show "same_page w v \<Longrightarrow> virtual_to_physical s' w =
      Some (if pg_present pg then FRAME_TO_PHYS (pg_address pg) + PAGE_OFFSET w else 0)"
    and "same_page w v \<Longrightarrow> is_mapped s' w = Some (pg_present pg)"
    using t assms(2) by (auto simp: s'_def virtual_to_physical_def is_mapped_def Let_def paging_on_def same_page_index)
  have ne: "pt_pages s' (page_tables s' (PD_INDEX w)) (PT_INDEX w) = pt_pages s (page_tables s (PD_INDEX w)) (PT_INDEX w)"
    if "\<not> same_page w v"
    using that t(4) [of "PD_INDEX w"] by (auto simp: s'_def same_page_index)
  show "\<not> same_page w v \<Longrightarrow> virtual_to_physical s' w = virtual_to_physical s w"
    using ne by (simp only: virtual_to_physical_def Let_def) (simp add: s'_def)
  show "\<not> same_page w v \<Longrightarrow> is_mapped s' w = is_mapped s w"
    using ne by (simp only: is_mapped_def) (simp add: s'_def)
qed

lemma alloc_page_present:
  assumes "paging_on s" and "has_table s v"
  shows "alloc_page (Suc d) v p flags s =
     Some (set_page (page_tables s (PD_INDEX v)) (PT_INDEX v) (mk_page flags p) s)"
  using assms by (auto simp: paging_on_def has_table_def Let_def)

lemma mk_page_simps [simp]:
  "pg_present (mk_page flags p) = fl flags 1" "pg_address (mk_page flags p) = PHYS_TO_FRAME p"
  by (simp_all add: mk_page_def)

section \<open>Identity mapping\<close>

definition pn :: "u32 \<Rightarrow> nat" where "pn v = unat v div 4096"

lemma same_page_pn: "same_page v w \<longleftrightarrow> pn v = pn w"
proof -
  have "unat (drop_bit 12 x) = pn x" for x :: u32
    unfolding pn_def by (simp only: unat_drop_bit_eq) (simp add: drop_bit_eq_div)
  then show ?thesis by (metis same_page_def word_unat_eq_iff)
qed

lemma same_page_base: "same_page w v \<Longrightarrow> v AND NOT 0xFFF = w AND NOT 0xFFF"
  unfolding same_page_def by (metis frame_roundtrip PHYS_TO_FRAME_def)

lemma same_page_base_offset: "same_page w v \<Longrightarrow> (v AND NOT 0xFFF) + PAGE_OFFSET w = w"
  using same_page_base page_base_offset by metis

text \<open>From \<open>s\<close> to \<open>s'\<close> the addresses in \<open>P\<close> became identity mapped and no other address changed.\<close>

definition identity_on :: "(u32 \<Rightarrow> bool) \<Rightarrow> mm \<Rightarrow> mm \<Rightarrow> bool" where
  "identity_on P s s' \<longleftrightarrow>
     (\<forall>w. P w \<longrightarrow> virtual_to_physical s' w = Some w \<and> is_mapped s' w = Some True)
     \<and> (\<forall>w. \<not> P w \<longrightarrow> virtual_to_physical s' w = virtual_to_physical s w \<and> is_mapped s' w = is_mapped s w)"

text \<open>Everything but the contents of page tables.\<close>

definition same_frames :: "mm \<Rightarrow> mm \<Rightarrow> bool" where
  "same_frames s s' \<longleftrightarrow> pm_nodes s' = pm_nodes s \<and> low_alloc_mem_head s' = low_alloc_mem_head s
     \<and> total_used_ram s' = total_used_ram s \<and> page_tables s' = page_tables s
     \<and> pd_entries s' = pd_entries s \<and> active_pd s' = active_pd s
     \<and> enabled_paging s' = enabled_paging s \<and> legacy_map s' = legacy_map s"

lemma same_frames_ok:
  "same_frames s s' \<Longrightarrow> tables_ok s' = tables_ok s \<and> paging_on s' = paging_on s \<and> has_table s' v = has_table s v"
  by (simp add: same_frames_def tables_ok_def paging_on_def has_table_def)

lemma identity_map_one:
  assumes "tables_ok s" and "paging_on s" and "has_table s a" and "fl flags 1"
  shows "\<exists>s'. alloc_page (Suc d) a a flags s = Some s' \<and> same_frames s s' \<and> identity_on (\<lambda>w. pn w = pn a) s s'"
proof -
  let ?s = "set_page (page_tables s (PD_INDEX a)) (PT_INDEX a) (mk_page flags a) s"
  have "identity_on (\<lambda>w. pn w = pn a) s ?s"
    unfolding identity_on_def same_page_pn [symmetric]
    using set_page_translation [OF assms(1-3) refl, of _ "mk_page flags a"] assms(4) same_page_base_offset [of _ a]
    by (auto simp: frame_roundtrip)
  moreover have "same_frames s ?s" by (simp add: same_frames_def)
  ultimately show ?thesis using alloc_page_present [OF assms(2,3)] by blast
qed

lemma identity_map_loop:
  assumes "tables_ok s" and "paging_on s" and "fl flags 1" and "unat a mod 4096 = 0"
    and "unat e + 4096 < 2 ^ 32" and "\<And>v. pn a \<le> pn v \<Longrightarrow> pn v \<le> pn e \<Longrightarrow> has_table s v"
    and "pn e + 1 - pn a = k"
  shows "\<exists>s'. identity_map_region (Suc d) a e flags s = Some s' \<and> same_frames s s'
    \<and> identity_on (\<lambda>w. pn a \<le> pn w \<and> pn w \<le> pn e) s s'"
  using assms
proof (induction k arbitrary: a s)
  case 0
  then have "e < a" by (simp add: pn_def word_less_nat_alt)
  then show ?case
    using 0 by (auto simp: identity_map_region_def identity_map_with.simps [of _ a] same_frames_def identity_on_def)
next
  case (Suc k)
  have le: "pn a \<le> pn e" using Suc.prems(7) by simp
  have ae: "a \<le> e" using le Suc.prems(4) by (simp add: pn_def word_le_nat_alt) (metis div_times_less_eq_dividend le_trans mult_le_mono1 mod_0_imp_dvd dvd_div_mult_self)
  have nx: "unat (a + PAGE_SIZE) = unat a + 4096"
    using ae Suc.prems(5) by (simp add: PAGE_SIZE_def word_le_nat_alt unat_add_no_wrap)
  then have pnx: "pn (a + PAGE_SIZE) = pn a + 1" "unat (a + PAGE_SIZE) mod 4096 = 0"
    using Suc.prems(4) by (simp_all add: pn_def)
  obtain s1 where s1: "alloc_page (Suc d) a a flags s = Some s1" "same_frames s s1"
    "identity_on (\<lambda>w. pn w = pn a) s s1"
    using identity_map_one [OF Suc.prems(1,2) _ Suc.prems(3)] Suc.prems(6) [of a] le by blast
  have t1: "has_table s1 v" if "pn (a + PAGE_SIZE) \<le> pn v" "pn v \<le> pn e" for v
    using Suc.prems(6) [of v] same_frames_ok [OF s1(2), of v] that pnx(1) by simp
  have k: "pn e + 1 - pn (a + PAGE_SIZE) = k" using Suc.prems(7) pnx(1) le by simp
  obtain s' where s': "identity_map_region (Suc d) (a + PAGE_SIZE) e flags s1 = Some s'" "same_frames s1 s'"
    "identity_on (\<lambda>w. pn (a + PAGE_SIZE) \<le> pn w \<and> pn w \<le> pn e) s1 s'"
    using Suc.IH [OF _ _ Suc.prems(3) pnx(2) Suc.prems(5) t1 k] same_frames_ok [OF s1(2)] Suc.prems(1,2) by auto
  have "identity_map_region (Suc d) a e flags s = Some s'"
    using s1(1) s'(1) ae by (simp add: identity_map_region_def identity_map_with.simps [of _ a])
  moreover have "same_frames s s'" using s1(2) s'(2) by (simp add: same_frames_def)
  moreover have "identity_on (\<lambda>w. pn a \<le> pn w \<and> pn w \<le> pn e) s s'"
    unfolding identity_on_def
  proof (intro conjI allI impI)
    fix w
    assume w: "pn a \<le> pn w \<and> pn w \<le> pn e"
    show "virtual_to_physical s' w = Some w" "is_mapped s' w = Some True"
      using s1(3) s'(3) pnx(1) w unfolding identity_on_def
      by (metis Suc_eq_plus1 le_antisym not_less_eq_eq)+
  next
    fix w
    assume w: "\<not> (pn a \<le> pn w \<and> pn w \<le> pn e)"
    then have "pn w \<noteq> pn a" "\<not> (pn (a + PAGE_SIZE) \<le> pn w \<and> pn w \<le> pn e)"
      using le pnx(1) by auto
    then show "virtual_to_physical s' w = virtual_to_physical s w" "is_mapped s' w = is_mapped s w"
      using s1(3) s'(3) unfolding identity_on_def by simp_all
  qed
  ultimately show ?case by blast
qed

section \<open>A concrete page directory\<close>

text \<open>Paging is on, the directory is at 0x1F00000 and only its first page table exists.\<close>

definition demo_mm :: mm where
  "demo_mm = \<lparr>pm_nodes = (\<lambda>_. \<lparr>m_addr = 0, m_size = 0, m_free = False, m_next = 0, m_prev = 0\<rparr>),
     low_alloc_mem_head = METADATA_ADDR, high_alloc_mem_head = 0, total_usable_ram = 0, total_used_ram = 0,
     hardware_reserved_ram = 0, total_installed_ram = 0, LOW_DATA_START_ADDR = 0, metadata_reserved = 0,
     enabled_paging = True, legacy_map = False, active_pd = 0x1F00000,
     pd_entries = (\<lambda>i. if i = 0 then mk_pde 3 0x1F02000 else no_pde),
     page_tables = (\<lambda>i. if i = 0 then 0x1F02000 else 0), pt_pages = (\<lambda>_ _. no_page)\<rparr>"

lemma demo_mm_ok: "tables_ok demo_mm" "paging_on demo_mm" "has_table demo_mm v = (PD_INDEX v = 0)" "fl 3 1"
  by (auto simp: demo_mm_def tables_ok_def paging_on_def has_table_def mk_pde_def fl_def no_pde_def)

lemma PD_INDEX_low: "pn v < 1024 \<Longrightarrow> PD_INDEX v = 0"
proof -
  assume h: "pn v < 1024"
  have "unat (drop_bit 22 v) = unat v div 2 ^ 22"
    by (simp only: unat_drop_bit_eq) (simp add: drop_bit_eq_div)
  also have "\<dots> = 0" using h by (simp add: pn_def)
  finally have "drop_bit 22 v = 0" by (simp add: unat_eq_zero)
  then show ?thesis by (simp add: PD_INDEX_def)
qed

section \<open>Mapping and unmapping\<close>





lemma aligned_next: "unat x mod 4096 = 0 \<Longrightarrow> unat (x + PAGE_SIZE) mod 4096 = 0"
proof -
  assume h: "unat x mod 4096 = 0"
  have "unat (x + PAGE_SIZE) = (unat x + 4096) mod 2 ^ 32"
    by (simp add: PAGE_SIZE_def unat_word_ariths)
  also have "\<dots> mod 4096 = (unat x + 4096) mod 4096"
    by (rule mod_mod_cancel) simp
  finally show ?thesis using h by simp
qed

lemma aligned_last: "unat (x :: u32) mod 4096 = 0 \<Longrightarrow> x \<le> 0xFFFFF000"
proof -
  assume "unat x mod 4096 = 0"
  then obtain q where q: "unat x = 4096 * q" by (auto simp: mod_eq_0_iff_dvd elim: dvdE)
  then have "q < 1048576" using unat_less_lit [of x] by simp
  then show ?thesis using q by (simp add: word_le_nat_alt)
qed

text \<open>
  \<open>identity_map_region\<close> never returns when the range ends in the last page of the address
  space: the address it has reached wraps around to 0 and is never greater than the end.
\<close>

lemma identity_map_region_endless:
  assumes "unat a mod 4096 = 0" and "0xFFFFF000 \<le> e"
  shows "identity_map_region d a e flags s = None"
proof -
  have never: "\<not> (unat x mod 4096 = 0 \<and> 0xFFFFF000 \<le> e')"
    if "identity_map_with page x e' s0 = Some s1" for page x e' s0 s1
    using that
  proof (rule identity_map_with.raw_induct [where P = "\<lambda>page x e' s r. \<not> (unat x mod 4096 = 0 \<and> 0xFFFFF000 \<le> e')", rotated 1])
    fix self page x e' s0 s1
    assume IH: "\<And>page x e' s y. self page x e' s = Some y \<Longrightarrow> \<not> (unat x mod 4096 = 0 \<and> 0xFFFFF000 \<le> e')"
      and run: "(if x \<le> e' then case page x s0 of None \<Rightarrow> None | Some s' \<Rightarrow> self page (x + PAGE_SIZE) e' s'
        else Some s0) = Some (s1 :: mm)"
    show "\<not> (unat x mod 4096 = 0 \<and> 0xFFFFF000 \<le> e')"
    proof
      assume h: "unat x mod 4096 = 0 \<and> 0xFFFFF000 \<le> e'"
      have "x \<le> 0xFFFFF000"
        using aligned_last [of x] h by simp
      then have "x \<le> e'" using h by (meson order_trans)
      then obtain s' where "self page (x + PAGE_SIZE) e' s' = Some s1"
        using run by (auto split: option.splits)
      from IH [OF this] have "unat (x + PAGE_SIZE) mod 4096 \<noteq> 0" using h by simp
      then show False using aligned_next [of x] h by simp
    qed
  qed
  show ?thesis
  proof (cases "identity_map_region d a e flags s")
    case (Some s')
    then show ?thesis using never [OF Some [unfolded identity_map_region_def]] assms by blast
  qed
qed

lemma identity_map_region_endless_witness:
  "identity_map_region 5 0 0xFFFFFFFF 3 demo_mm = None"
  by (rule identity_map_region_endless) simp_all

section \<open>Pages of 4 MiB\<close>

text \<open>
  The 32-bit word the processor reads for a directory entry, and the physical base it takes from
  the entry of a 4 MiB page: bits 22 to 31.
\<close>

definition pde_word :: "pd_ent \<Rightarrow> u32" where
  "pde_word e = of_bool (de_present e) OR push_bit 1 (of_bool (de_read_write e))
     OR push_bit 2 (of_bool (de_user_supervisor e)) OR push_bit 3 (of_bool (de_write_through e))
     OR push_bit 4 (of_bool (de_cache_disable e)) OR push_bit 5 (of_bool (de_accessed e))
     OR push_bit 7 (of_bool (de_ps e)) OR push_bit 12 (ucast (de_address e))"

definition big_page_base :: "u32 \<Rightarrow> u32" where
  "big_page_base e = push_bit 22 (drop_bit 22 e)"

lemma bit_of_bool_u32: "bit (of_bool b :: u32) n \<longleftrightarrow> b \<and> n = 0"
  by (cases b) (auto simp: bit_1_iff)

lemma big_page_base_zero:
  assumes "de_address e = PHYS_TO_FRAME4MB p"
  shows "big_page_base (pde_word e) = 0"
proof (rule bit_eqI)
  fix i
  have "bit p (i - 12 + 22) = False" if "22 \<le> i"
    using that by (auto dest: bit_imp_le_length)
  then show "bit (big_page_base (pde_word e)) i = bit (0 :: u32) i"
    by (auto simp: assms big_page_base_def pde_word_def PHYS_TO_FRAME4MB_def bit_simps bit_of_bool_u32 add.commute)
qed

lemma frame4mb_roundtrip: "FRAME4MB_TO_PHYS (PHYS_TO_FRAME4MB p) = p AND NOT 0x3FFFFF"
proof -
  have m: "(0x3FFFFF :: u32) = mask 22" by (simp add: mask_eq_exp_minus_1)
  show ?thesis
    unfolding FRAME4MB_TO_PHYS_def PHYS_TO_FRAME4MB_def m
    by (rule bit_eqI) (auto simp: bit_simps dest: bit_imp_le_length)
qed

text \<open>
  A page of 4 MiB mapped where no page table is.  The entry's physical base, as the
  processor reads it, is 0 whatever frame was asked for, since the frame number is stored as
  an address divided by 4 MiB in a field that counts 4 KiB; \<open>virtual_to_physical\<close> gives the
  start of the asked frame for every address of the page, without the offset; and \<open>free_page\<close>
  returns false and leaves the page mapped.
\<close>

lemma big_page_misbehaves:
  assumes "paging_on s" and "\<not> has_table s v" and "fl flags 1"
  shows "\<exists>s'. alloc_page_4mib v p flags s = Some s'
    \<and> big_page_base (pde_word (pd_entries s' (PD_INDEX v))) = 0
    \<and> (\<forall>w. PD_INDEX w = PD_INDEX v \<longrightarrow> virtual_to_physical s' w = Some (p AND NOT 0x3FFFFF))
    \<and> free_page v s' = Some (False, s')"
  using assms
  by (auto simp: big_page_base_zero [where p = p] alloc_page_4mib_def paging_on_def has_table_def virtual_to_physical_def
      free_page_def Let_def frame4mb_roundtrip no_pde_def)

lemma big_page_misbehaves_witness:
  "\<exists>s'. alloc_page_4mib 0x2000000 0x2000000 3 demo_mm = Some s'
    \<and> virtual_to_physical s' 0x2000123 = Some 0x2000000 \<and> free_page 0x2000000 s' = Some (False, s')"
proof -
  have i: "PD_INDEX 0x2000123 = PD_INDEX 0x2000000" "\<not> has_table demo_mm 0x2000000"
    by (simp_all add: PD_INDEX_def demo_mm_ok)
  show ?thesis
    using big_page_misbehaves [OF demo_mm_ok(2) i(2) demo_mm_ok(4), where p = "0x2000000"] i(1) by auto
qed

end
