(* ===== verification/FrameAlloc.thy ===== *)
theory FrameAlloc
  imports Paging
begin

text \<open>
  What \<open>alloc_frame\<close> and \<open>free_frame\<close> of \<open>src/kernel/mm/pmm.cpp\<close> do: the cases in which they
  keep the list of frames in order, two short runs in which they do not, the unmapping loop and
  the recursion through \<open>alloc_page\<close>.
\<close>

section \<open>Allocation and freeing without paging\<close>

lemma take_block_fields [simp]:
  "pm_nodes (take_block sz n s) = take_node (pm_nodes s) sz n"
  "low_alloc_mem_head (take_block sz n s) = low_alloc_mem_head s"
  "total_used_ram (take_block sz n s) = total_used_ram s + sz"
  "enabled_paging (take_block sz n s) = enabled_paging s" "legacy_map (take_block sz n s) = legacy_map s"
  "active_pd (take_block sz n s) = active_pd s" "page_tables (take_block sz n s) = page_tables s"
  "pd_entries (take_block sz n s) = pd_entries s" "pt_pages (take_block sz n s) = pt_pages s"
  by (simp_all add: take_block_def)

lemma zero_frame_fields [simp]:
  "pm_nodes (zero_frame a s) = pm_nodes s" "low_alloc_mem_head (zero_frame a s) = low_alloc_mem_head s"
  "total_used_ram (zero_frame a s) = total_used_ram s" "enabled_paging (zero_frame a s) = enabled_paging s"
  by (simp_all add: zero_frame_def)

lemma tiled_addr_ge:
  "tiled lo bs \<Longrightarrow> unat lo + span bs < 2 ^ 64 \<Longrightarrow> (n, a, z, f) \<in> set bs \<Longrightarrow>
     unat lo \<le> unat a \<and> unat a + unat z \<le> unat lo + span bs \<and> 0 < z"
proof (induction lo bs rule: tiled.induct)
  case (2 lo m c y g bs)
  have "unat (lo + y) = unat lo + unat y"
    using 2(3) by (simp add: span_def unat_add_no_wrap)
  then show ?case using 2 by (auto simp: span_def)
qed simp

lemma slot_at_block:
  "tiled lo bs \<Longrightarrow> unat lo + span bs < 2 ^ 64 \<Longrightarrow> (n, a, z, f) \<in> set bs \<Longrightarrow> slot_at a bs = n"
proof (induction lo bs rule: tiled.induct)
  case (2 lo m c y g bs)
  have s: "unat (lo + y) = unat lo + unat y"
    using 2(3) by (simp add: span_def unat_add_no_wrap)
  show ?case
  proof (cases "(n, a, z, f) \<in> set bs")
    case True
    have "unat (lo + y) \<le> unat a"
      using tiled_addr_ge [of "lo + y" bs n a z f] True 2(2,3) s by (simp add: span_def)
    then have "c \<noteq> a" using s 2(2) by (auto simp: word_less_nat_alt)
    then show ?thesis using 2(1) True 2(2,3) s by (simp add: span_def)
  next
    case False
    then show ?thesis using 2 by auto
  qed
qed simp

lemma mark_abs:
  "tiled lo bs \<Longrightarrow> tiled lo (mark n bs)" "span (mark n bs) = span bs" "slots (mark n bs) = slots bs"
  by (induction bs arbitrary: lo) (auto simp: mark_def span_def slots_def)

lemma used_mark:
  "distinct (slots bs) \<Longrightarrow> (n, a, z, False) \<in> set bs \<Longrightarrow> used (mark n bs) = used bs - z"
proof (induction bs)
  case (Cons b bs)
  obtain m c y g where b: "b = (m, c, y, g)" by (cases b)
  show ?case
  proof (cases "m = n")
    case True
    then have n: "n \<notin> set (slots bs)" "(c, y, g) = (a, z, False)"
      using Cons.prems b by (auto simp: slots_def image_iff)
    have "mark n bs = bs" using n(1) by (induction bs) (auto simp: mark_def slots_def)
    then show ?thesis using True b n by (simp add: mark_def)
  next
    case False
    then show ?thesis using Cons b by (simp add: mark_def)
  qed
qed simp

lemma live_mark:
  "distinct (slots bs) \<Longrightarrow> live (mark n bs) = filter (\<lambda>(m, c, y, g). m \<noteq> n) (live bs)"
  by (induction bs) (auto simp: live_def mark_def)

lemma chained_upd: "n \<notin> set (slots bs) \<Longrightarrow> chained (N(n := v)) pv p bs = chained N pv p bs"
  by (rule chained_cong) auto

lemma chained_mark:
  "chained N pv p bs \<Longrightarrow> distinct (slots bs) \<Longrightarrow> n \<in> set (slots bs)
     \<Longrightarrow> chained (N(n := (N n)\<lparr>m_free := True\<rparr>)) pv p (mark n bs)"
proof (induction bs arbitrary: pv p)
  case (Cons b bs)
  obtain m c y g where b: "b = (m, c, y, g)" by (cases b)
  let ?N = "N(n := (N n)\<lparr>m_free := True\<rparr>)"
  show ?case
  proof (cases "m = n")
    case True
    then have n: "n \<notin> set (slots bs)" using Cons.prems(2) b by simp
    then have "mark n bs = bs" by (induction bs) (auto simp: mark_def slots_def)
    moreover have "chained ?N m (m_next (N m)) bs"
      using n Cons.prems(1) b by (simp add: chained_upd)
    ultimately show ?thesis using Cons.prems(1) b True by (simp add: mark_def fun_upd_def)
  next
    case False
    then show ?thesis using Cons b by (auto simp: mark_def)
  qed
qed simp

text \<open>The two operations on a well-formed list, with the list each of them leaves.\<close>

lemma find_free_fit:
  assumes "pmm_inv s lo bs"
  shows "find_free (pm_nodes s) sz (low_alloc_mem_head s) = Some (case pfit sz bs of None \<Rightarrow> 0 | Some (n, _) \<Rightarrow> n)"
  using find_free_chained assms unfolding pmm_inv_def by blast

lemma alloc_frame_fit:
  assumes "pmm_inv s lo bs" and "\<not> enabled_paging s" and "sz = num * FRAME_SIZE" and "0 < num" and "0 < sz"
    and "pfit sz bs = Some (n, a, bs')" and h: "safe_fit sz bs" "distinct (slots bs')" "0 \<notin> set (slots bs')"
  shows "\<exists>s' z. alloc_frame d num im s = Some (align_up (ucast a) PAGE_SIZE, s') \<and> pmm_inv s' lo bs'
    \<and> (n, a, z, True) \<in> set bs \<and> sz \<le> z \<and> (n, a, sz, False) \<in> set bs'
    \<and> set (live bs) \<subseteq> set (live bs') \<and> total_used_ram s' = total_used_ram s + sz \<and> \<not> enabled_paging s'"
proof -
  note inv = assms(1) [unfolded pmm_inv_def]
  have ch: "chained (take_node (pm_nodes s) sz n) 0 (low_alloc_mem_head s) bs'"
    using take_node_chained [of "pm_nodes s" 0 "low_alloc_mem_head s" bs lo sz n a bs'] inv assms(6) h by simp
  have ab: "tiled lo bs' \<and> span bs' = span bs \<and> used bs' = used bs + sz
     \<and> (\<exists>z. (n, a, z, True) \<in> set bs \<and> sz \<le> z \<and> (n, a, sz, False) \<in> set bs')
     \<and> (\<forall>b \<in> set (live bs). b \<in> set (live bs'))"
    using pfit_tiled [of sz bs n a bs' lo] assms(6) inv assms(5) by auto
  have n0: "n \<noteq> 0" and a': "m_addr (take_node (pm_nodes s) sz n n) = a"
    using ab chained_mem [OF ch, of n a sz False] by auto
  let ?s = "zero_frame (ucast a) (take_block sz n s)"
  have "alloc_frame d num im s = Some (align_up (ucast a) PAGE_SIZE, ?s)"
    using find_free_fit [OF assms(1), of sz] assms(6) n0 a' assms(2-4) by (auto simp: alloc_frame_def alloc_frame_with_def Let_def)
  moreover have "pmm_inv ?s lo bs'"
    using ch ab h(2) inv by (simp add: pmm_inv_def)
  ultimately show ?thesis using ab assms(2) by auto
qed

lemma free_frame_run:
  assumes "pmm_inv s lo bs" and "\<not> enabled_paging s" and "(n, ucast ptr, z, False) \<in> set bs" and "ptr \<noteq> 0"
  shows "\<exists>s'. free_frame ptr s = Some s' \<and> pmm_inv s' lo (merge_fix (mark n bs)) \<and> total_used_ram s' = total_used_ram s - z
    \<and> \<not> enabled_paging s'"
proof -
  note inv = assms(1) [unfolded pmm_inv_def]
  have ns: "n \<in> set (slots bs)" using assms(3) by (force simp: slots_def)
  have nd: "n \<noteq> 0" "m_size (pm_nodes s n) = z"
    using chained_mem [of "pm_nodes s" 0 "low_alloc_mem_head s" bs n "ucast ptr" z False] inv assms(3) by auto
  have fa: "find_addr (pm_nodes s) (ucast ptr) (low_alloc_mem_head s) = Some n"
    using find_addr_chained [of "pm_nodes s" 0 "low_alloc_mem_head s" bs] slot_at_block [of lo bs n "ucast ptr" z False] inv assms(3) by simp
  let ?N = "(pm_nodes s)(n := (pm_nodes s n)\<lparr>m_free := True\<rparr>)"
  have ch: "chained ?N 0 (low_alloc_mem_head s) (mark n bs)"
    using chained_mark inv ns by blast
  have ab: "tiled lo (mark n bs)" "unat lo + span (mark n bs) < 2 ^ 64" "distinct (slots (mark n bs))"
    using mark_abs inv by auto
  obtain N' where N': "merge_all ?N (low_alloc_mem_head s) = Some N'"
    "chained N' 0 (low_alloc_mem_head s) (merge_fix (mark n bs))"
    using merge_all_refines [OF ch ab] by blast
  let ?s = "s\<lparr>pm_nodes := N', total_used_ram := total_used_ram s - z\<rparr>"
  have run: "free_frame ptr s = Some ?s"
    using fa nd N'(1) assms(2,4) by (simp add: free_frame_def Let_def)
  have "pmm_inv ?s lo (merge_fix (mark n bs))"
    using merge_fix_abs [OF ab] N'(2) used_mark [of bs n "ucast ptr" z] mark_abs(2) [of n bs] inv assms(3)
    by (auto simp: pmm_inv_def)
  then show ?thesis using run assms(2) by auto
qed

text \<open>
  C6: frame allocation while paging is off, on a well-formed list.  It is first fit: when no
  free block is large enough it returns null and changes nothing.  When the chosen block fits
  exactly or is the last of the list, the frames returned are the start of a free block that
  was large enough, the list stays well formed (so blocks tile memory and do not overlap), every
  allocated block stays allocated, and the count of used memory grows by the size.
\<close>

theorem alloc_frame_first_fit:
  assumes "pmm_inv s lo bs" and "\<not> enabled_paging s" and "sz = num * FRAME_SIZE" and "0 < num" and "0 < sz"
  shows "case pfit sz bs of
      None \<Rightarrow> alloc_frame d num im s = Some (0, s)
    | Some (n, a, bs') \<Rightarrow>
        safe_fit sz bs \<and> distinct (slots bs') \<and> 0 \<notin> set (slots bs') \<longrightarrow>
        (\<exists>s' z. alloc_frame d num im s = Some (align_up (ucast a) PAGE_SIZE, s') \<and> pmm_inv s' lo bs'
          \<and> (n, a, z, True) \<in> set bs \<and> sz \<le> z \<and> (n, a, sz, False) \<in> set bs'
          \<and> set (live bs) \<subseteq> set (live bs') \<and> total_used_ram s' = total_used_ram s + sz)"
proof (cases "pfit sz bs")
  case None
  then show ?thesis
    using find_free_fit [OF assms(1), of sz] assms(2-4) by (simp add: alloc_frame_def alloc_frame_with_def Let_def)
next
  case (Some r)
  obtain n a bs' where "r = (n, a, bs')" by (cases r)
  then show ?thesis using alloc_frame_fit [OF assms, of n a bs' d im] Some by auto
qed

text \<open>
  C7: freeing a frame while paging is off.  For the address of an allocated block of a
  well-formed list \<open>free_frame\<close> returns; the list stays well formed, no two neighbours are both
  free any more, exactly that block is no longer allocated, and the count of used memory drops
  by its size.
\<close>

theorem free_frame_merges:
  assumes "pmm_inv s lo bs" and "\<not> enabled_paging s" and "(n, ucast ptr, z, False) \<in> set bs" and "ptr \<noteq> 0"
  shows "\<exists>s' bs'. free_frame ptr s = Some s' \<and> pmm_inv s' lo bs' \<and> no_adjacent_free bs'
    \<and> live bs' = filter (\<lambda>(m, c, y, g). m \<noteq> n) (live bs) \<and> total_used_ram s' = total_used_ram s - z"
proof -
  have inv: "tiled lo (mark n bs)" "unat lo + span (mark n bs) < 2 ^ 64" "distinct (slots (mark n bs))"
    and d: "distinct (slots bs)"
    using mark_abs assms(1) by (auto simp: pmm_inv_def)
  show ?thesis
    using free_frame_run [OF assms] merge_fix_abs [OF inv] live_mark [OF d, of n] by auto
qed

section \<open>Two runs that break the list\<close>

text \<open>The first four nodes of the metadata array, every other node being blank.\<close>

definition nodes4 :: "mnode \<Rightarrow> mnode \<Rightarrow> mnode \<Rightarrow> mnode \<Rightarrow> u32 \<Rightarrow> mnode" where
  "nodes4 a b c d = (\<lambda>x. if x = 0x600000 then a else if x = 0x600019 then b
     else if x = 0x600032 then c else if x = 0x60004B then d
     else \<lparr>m_addr = 0, m_size = 0, m_free = False, m_next = 0, m_prev = 0\<rparr>)"

abbreviation (input) nd :: "u64 \<Rightarrow> u64 \<Rightarrow> bool \<Rightarrow> u32 \<Rightarrow> u32 \<Rightarrow> mnode" where
  "nd a z f n p \<equiv> \<lparr>m_addr = a, m_size = z, m_free = f, m_next = n, m_prev = p\<rparr>"

abbreviation (input) blank :: mnode where "blank \<equiv> nd 0 0 False 0 0"

lemma nodes4_simps [simp]:
  "nodes4 a b c d 0x600000 = a" "nodes4 a b c d 0x600019 = b" "nodes4 a b c d 0x600032 = c"
  "nodes4 a b c d 0x60004B = d"
  "(nodes4 a b c d)(0x600000 := v) = nodes4 v b c d" "(nodes4 a b c d)(0x600019 := v) = nodes4 a v c d"
  "(nodes4 a b c d)(0x600032 := v) = nodes4 a b v d" "(nodes4 a b c d)(0x60004B := v) = nodes4 a b c v"
  by (simp_all add: nodes4_def fun_eq_iff)

lemmas run_eval = alloc_frame_def alloc_frame_with_def free_frame_def take_node_def Let_def FRAME_SIZE_def
  merge_all.simps [of "nodes4 a b c d" for a b c d] merge_pass.simps [of "nodes4 a b c d" for a b c d]
  find_free.simps [of "nodes4 a b c d" for a b c d] find_addr.simps [of "nodes4 a b c d" for a b c d]
  may_merge_def merge_two_def

text \<open>Sixteen free frames at 31 MiB, paging off.\<close>

definition demo_frames :: mm where
  "demo_frames = demo_mm\<lparr>pm_nodes := nodes4 (nd 0x1F00000 0x10000 True 0 0) blank blank blank,
     low_alloc_mem_head := 0x600000, enabled_paging := False\<rparr>"

definition frame_state :: "(u32 \<Rightarrow> mnode) \<Rightarrow> mm \<Rightarrow> bool" where
  "frame_state N s \<longleftrightarrow> pm_nodes s = N \<and> low_alloc_mem_head s = 0x600000 \<and> \<not> enabled_paging s"

lemma frame_state_alloc:
  assumes "frame_state N s" and "0 < num" and "find_free N (num * FRAME_SIZE) 0x600000 = Some n" and "n \<noteq> 0"
  shows "\<exists>s'. alloc_frame d num im s = Some (align_up (ucast (m_addr (take_node N (num * FRAME_SIZE) n n))) PAGE_SIZE, s')
    \<and> frame_state (take_node N (num * FRAME_SIZE) n) s'"
  using assms by (auto simp: frame_state_def alloc_frame_def alloc_frame_with_def Let_def)

lemma frame_state_free:
  assumes "frame_state N s" and "p \<noteq> 0" and "find_addr N (ucast p) 0x600000 = Some n" and "n \<noteq> 0"
    and "merge_all (N(n := (N n)\<lparr>m_free := True\<rparr>)) 0x600000 = Some N'"
  shows "\<exists>s'. free_frame p s = Some s' \<and> frame_state N' s'"
  using assms by (auto simp: frame_state_def free_frame_def Let_def)

lemma demo_frames_state: "frame_state (nodes4 (nd 0x1F00000 0x10000 True 0 0) blank blank blank) demo_frames"
  by (simp add: frame_state_def demo_frames_def)

lemma stale_prev_1:
  "frame_state (nodes4 (nd 0x1F00000 0x10000 True 0 0) blank blank blank) s \<Longrightarrow> \<exists>s'. alloc_frame d 1 True s = Some (0x1F00000, s')
     \<and> frame_state (nodes4 (nd 0x1F00000 0x1000 False 0x600019 0) (nd 0x1F01000 0xF000 True 0 0x600000) blank blank) s'"
  by (drule frame_state_alloc [where num = 1 and n = "0x600000" and d = d and im = True])
    (simp_all add: run_eval align_up_def PAGE_SIZE_def)

lemma stale_prev_2:
  "frame_state (nodes4 (nd 0x1F00000 0x1000 False 0x600019 0) (nd 0x1F01000 0xF000 True 0 0x600000) blank blank) s \<Longrightarrow> \<exists>s'. alloc_frame d 1 True s = Some (0x1F01000, s')
     \<and> frame_state (nodes4 (nd 0x1F00000 0x1000 False 0x600019 0) (nd 0x1F01000 0x1000 False 0x600032 0x600000) (nd 0x1F02000 0xE000 True 0 0x600019) blank) s'"
  by (drule frame_state_alloc [where num = 1 and n = "0x600019" and d = d and im = True])
    (simp_all add: run_eval align_up_def PAGE_SIZE_def)

lemma stale_prev_3:
  "frame_state (nodes4 (nd 0x1F00000 0x1000 False 0x600019 0) (nd 0x1F01000 0x1000 False 0x600032 0x600000) (nd 0x1F02000 0xE000 True 0 0x600019) blank) s \<Longrightarrow> \<exists>s'. alloc_frame d 1 True s = Some (0x1F02000, s')
     \<and> frame_state (nodes4 (nd 0x1F00000 0x1000 False 0x600019 0) (nd 0x1F01000 0x1000 False 0x600032 0x600000) (nd 0x1F02000 0x1000 False 0x60004B 0x600019) (nd 0x1F03000 0xD000 True 0 0x600032)) s'"
  by (drule frame_state_alloc [where num = 1 and n = "0x600032" and d = d and im = True])
    (simp_all add: run_eval align_up_def PAGE_SIZE_def)

lemma stale_prev_4:
  "frame_state (nodes4 (nd 0x1F00000 0x1000 False 0x600019 0) (nd 0x1F01000 0x1000 False 0x600032 0x600000) (nd 0x1F02000 0x1000 False 0x60004B 0x600019) (nd 0x1F03000 0xD000 True 0 0x600032)) s \<Longrightarrow> \<exists>s'. free_frame 0x1F00000 s = Some s'
     \<and> frame_state (nodes4 (nd 0x1F00000 0x1000 True 0x600019 0) (nd 0x1F01000 0x1000 False 0x600032 0x600000) (nd 0x1F02000 0x1000 False 0x60004B 0x600019) (nd 0x1F03000 0xD000 True 0 0x600032)) s'"
  by (erule frame_state_free [where n = "0x600000"]) (simp_all add: run_eval)

lemma stale_prev_5:
  "frame_state (nodes4 (nd 0x1F00000 0x1000 True 0x600019 0) (nd 0x1F01000 0x1000 False 0x600032 0x600000) (nd 0x1F02000 0x1000 False 0x60004B 0x600019) (nd 0x1F03000 0xD000 True 0 0x600032)) s \<Longrightarrow> \<exists>s'. free_frame 0x1F01000 s = Some s'
     \<and> frame_state (nodes4 (nd 0x1F00000 0x2000 True 0x600032 0) (nd 0x1F01000 0x1000 True 0x600032 0x600000) (nd 0x1F02000 0x1000 False 0x60004B 0x600000) (nd 0x1F03000 0xD000 True 0 0x600032)) s'"
  by (erule frame_state_free [where n = "0x600019"]) (simp_all add: run_eval)

lemma stale_prev_6:
  "frame_state (nodes4 (nd 0x1F00000 0x2000 True 0x600032 0) (nd 0x1F01000 0x1000 True 0x600032 0x600000) (nd 0x1F02000 0x1000 False 0x60004B 0x600000) (nd 0x1F03000 0xD000 True 0 0x600032)) s \<Longrightarrow> \<exists>s'. alloc_frame d 1 True s = Some (0x1F00000, s')
     \<and> frame_state (nodes4 (nd 0x1F00000 0x1000 False 0x600019 0) (nd 0x1F01000 0x1000 True 0x600032 0x600000) (nd 0x1F02000 0x1000 False 0x60004B 0x600000) (nd 0x1F03000 0xD000 True 0 0x600032)) s'"
  by (drule frame_state_alloc [where num = 1 and n = "0x600000" and d = d and im = True])
    (simp_all add: run_eval align_up_def PAGE_SIZE_def)

lemma stale_prev_7:
  "frame_state (nodes4 (nd 0x1F00000 0x1000 False 0x600019 0) (nd 0x1F01000 0x1000 True 0x600032 0x600000) (nd 0x1F02000 0x1000 False 0x60004B 0x600000) (nd 0x1F03000 0xD000 True 0 0x600032)) s \<Longrightarrow> \<exists>s'. alloc_frame d 1 True s = Some (0x1F01000, s')
     \<and> frame_state (nodes4 (nd 0x1F00000 0x1000 False 0x600019 0) (nd 0x1F01000 0x1000 False 0x600032 0x600000) (nd 0x1F02000 0x1000 False 0x60004B 0x600000) (nd 0x1F03000 0xD000 True 0 0x600032)) s'"
  by (drule frame_state_alloc [where num = 1 and n = "0x600019" and d = d and im = True])
    (simp_all add: run_eval align_up_def PAGE_SIZE_def)

lemma stale_prev_8:
  "frame_state (nodes4 (nd 0x1F00000 0x1000 False 0x600019 0) (nd 0x1F01000 0x1000 False 0x600032 0x600000) (nd 0x1F02000 0x1000 False 0x60004B 0x600000) (nd 0x1F03000 0xD000 True 0 0x600032)) s \<Longrightarrow> \<exists>s'. free_frame 0x1F02000 s = Some s'
     \<and> frame_state (nodes4 (nd 0x1F00000 0x1000 False 0x600019 0) (nd 0x1F01000 0x1000 False 0x600032 0x600000) (nd 0x1F02000 0xE000 True 0 0x600000) (nd 0x1F03000 0xD000 True 0 0x600032)) s'"
  by (erule frame_state_free [where n = "0x600032"]) (simp_all add: run_eval)

lemma stale_prev_9:
  "frame_state (nodes4 (nd 0x1F00000 0x1000 False 0x600019 0) (nd 0x1F01000 0x1000 False 0x600032 0x600000) (nd 0x1F02000 0xE000 True 0 0x600000) (nd 0x1F03000 0xD000 True 0 0x600032)) s \<Longrightarrow> \<exists>s'. alloc_frame d 1 True s = Some (0x1F01000, s')
     \<and> frame_state (nodes4 (nd 0x1F00000 0x1000 False 0x600019 0) (nd 0x1F01000 0x1000 False 0x600032 0x600000) (nd 0x1F01000 0x1000 False 0x60004B 0x600000) (nd 0x1F03000 0xD000 True 0 0x600032)) s'"
  by (drule frame_state_alloc [where num = 1 and n = "0x600032" and d = d and im = True])
    (simp_all add: run_eval align_up_def PAGE_SIZE_def)

lemma wide_split_1:
  "frame_state (nodes4 (nd 0x1F00000 0x10000 True 0 0) blank blank blank) s \<Longrightarrow> \<exists>s'. alloc_frame d 2 True s = Some (0x1F00000, s')
     \<and> frame_state (nodes4 (nd 0x1F00000 0x2000 False 0x600019 0) (nd 0x1F02000 0xE000 True 0 0x600000) blank blank) s'"
  by (drule frame_state_alloc [where num = 2 and n = "0x600000" and d = d and im = True])
    (simp_all add: run_eval align_up_def PAGE_SIZE_def)

lemma wide_split_2:
  "frame_state (nodes4 (nd 0x1F00000 0x2000 False 0x600019 0) (nd 0x1F02000 0xE000 True 0 0x600000) blank blank) s \<Longrightarrow> \<exists>s'. alloc_frame d 1 True s = Some (0x1F02000, s')
     \<and> frame_state (nodes4 (nd 0x1F00000 0x2000 False 0x600019 0) (nd 0x1F02000 0x1000 False 0x600032 0x600000) (nd 0x1F03000 0xD000 True 0 0x600019) blank) s'"
  by (drule frame_state_alloc [where num = 1 and n = "0x600019" and d = d and im = True])
    (simp_all add: run_eval align_up_def PAGE_SIZE_def)

lemma wide_split_3:
  "frame_state (nodes4 (nd 0x1F00000 0x2000 False 0x600019 0) (nd 0x1F02000 0x1000 False 0x600032 0x600000) (nd 0x1F03000 0xD000 True 0 0x600019) blank) s \<Longrightarrow> \<exists>s'. free_frame 0x1F00000 s = Some s'
     \<and> frame_state (nodes4 (nd 0x1F00000 0x2000 True 0x600019 0) (nd 0x1F02000 0x1000 False 0x600032 0x600000) (nd 0x1F03000 0xD000 True 0 0x600019) blank) s'"
  by (erule frame_state_free [where n = "0x600000"]) (simp_all add: run_eval)

lemma wide_split_4:
  "frame_state (nodes4 (nd 0x1F00000 0x2000 True 0x600019 0) (nd 0x1F02000 0x1000 False 0x600032 0x600000) (nd 0x1F03000 0xD000 True 0 0x600019) blank) s \<Longrightarrow> \<exists>s'. alloc_frame d 1 True s = Some (0x1F00000, s')
     \<and> frame_state (nodes4 (nd 0x1F00000 0x1000 False 0x600019 0) (nd 0x1F01000 0x1000 True 0x600019 0x600000) (nd 0x1F03000 0xD000 True 0 0x600019) blank) s'"
  by (drule frame_state_alloc [where num = 1 and n = "0x600000" and d = d and im = True])
    (simp_all add: run_eval align_up_def PAGE_SIZE_def)

text \<open>The sixteen frames, and the same with the first one allocated.\<close>

definition demo_frames1 :: mm where
  "demo_frames1 = demo_frames\<lparr>pm_nodes := nodes4 (nd 0x1F00000 0x1000 False 0x600019 0)
     (nd 0x1F01000 0xF000 True 0 0x600000) blank blank, total_used_ram := 0x1000\<rparr>"

lemma demo_frames_inv:
  "pmm_inv demo_frames 0x1F00000 [(0x600000, 0x1F00000, 0x10000, True)]"
  "pmm_inv demo_frames1 0x1F00000 [(0x600000, 0x1F00000, 0x1000, False), (0x600019, 0x1F01000, 0xF000, True)]"
  by (simp_all add: pmm_inv_def demo_frames_def demo_frames1_def demo_mm_def span_def)

theorem alloc_frame_first_fit_witness:
  "\<exists>s'. alloc_frame 0 3 True demo_frames = Some (0x1F00000, s')
    \<and> pmm_inv s' 0x1F00000 [(0x600000, 0x1F00000, 0x3000, False), (0x600019, 0x1F03000, 0xD000, True)]"
proof -
  have "\<not> enabled_paging demo_frames" "0x3000 = 3 * FRAME_SIZE" "0 < (3 :: u64)" "0 < (0x3000 :: u64)"
    by (simp_all add: demo_frames_def FRAME_SIZE_def)
  from alloc_frame_first_fit [OF demo_frames_inv(1) this, of 0 True] show ?thesis
    by (auto simp: align_up_def PAGE_SIZE_def)
qed

theorem free_frame_merges_witness:
  "\<exists>s' bs'. free_frame 0x1F00000 demo_frames1 = Some s' \<and> pmm_inv s' 0x1F00000 bs' \<and> live bs' = []
    \<and> total_used_ram s' = 0"
  using free_frame_merges [OF demo_frames_inv(2), of "0x600000" "0x1F00000" "0x1000"]
  by (auto simp: demo_frames1_def demo_frames_def demo_mm_def live_def)

text \<open>
  A frame handed out twice.  Splitting a block does not set the \<open>prev\<close> pointer of the
  block after it, and \<open>alloc_frame\<close> recomputes a block's address from its \<open>prev\<close>.  With one-frame
  requests only: allocate A, B, C; free A, then B; allocate two frames (A and B again); free C;
  the next request is given B, which is in use.
\<close>

lemma alloc_frame_hands_out_live_frame:
  "\<exists>s1 s2 s3 s4 s5 s6 s7 s8 s9. alloc_frame d 1 True demo_frames = Some (0x1F00000, s1)
    \<and> alloc_frame d 1 True s1 = Some (0x1F01000, s2) \<and> alloc_frame d 1 True s2 = Some (0x1F02000, s3)
    \<and> free_frame 0x1F00000 s3 = Some s4 \<and> free_frame 0x1F01000 s4 = Some s5
    \<and> alloc_frame d 1 True s5 = Some (0x1F00000, s6) \<and> alloc_frame d 1 True s6 = Some (0x1F01000, s7)
    \<and> free_frame 0x1F02000 s7 = Some s8 \<and> alloc_frame d 1 True s8 = Some (0x1F01000, s9)"
  using stale_prev_1 [OF demo_frames_state, of d] stale_prev_2 [of _ d] stale_prev_3 [of _ d] stale_prev_4
    stale_prev_5 stale_prev_6 [of _ d] stale_prev_7 [of _ d] stale_prev_8 stale_prev_9 [of _ d]
  by meson

lemma find_free_stuck:
  assumes "m_next (N x) = x" and "x \<noteq> 0" and "\<not> (m_free (N x) \<and> sz \<le> m_size (N x))"
  shows "find_free N sz x = None"
proof (cases "find_free N sz x")
  case (Some r)
  have "\<not> (N' = N \<and> sz' = sz \<and> c = x)" if "find_free N' sz' c = Some r'" for N' sz' c r'
    using that
  proof (rule find_free.raw_induct [where P = "\<lambda>N' sz' c r. \<not> (N' = N \<and> sz' = sz \<and> c = x)", rotated 1])
    fix self N' sz' c r'
    assume IH: "\<And>N' sz' c y. self N' sz' c = Some y \<Longrightarrow> \<not> (N' = N \<and> sz' = sz \<and> c = x)"
      and run: "(if c = 0 then Some 0 else if m_free (N' c) \<and> sz' \<le> m_size (N' c) then Some c
        else self N' sz' (m_next (N' c))) = Some r'"
    show "\<not> (N' = N \<and> sz' = sz \<and> c = x)"
    proof
      assume "N' = N \<and> sz' = sz \<and> c = x"
      then have "self N sz x = Some r'" using run assms by (auto split: if_splits)
      from IH [OF this] show False by simp
    qed
  qed
  then show ?thesis using Some by blast
qed

lemma find_addr_stuck:
  assumes "m_next (N x) = x" and "x \<noteq> 0" and "m_addr (N x) \<noteq> a"
  shows "find_addr N a x = None"
proof (cases "find_addr N a x")
  case (Some r)
  have "\<not> (N' = N \<and> a' = a \<and> c = x)" if "find_addr N' a' c = Some r'" for N' a' c r'
    using that
  proof (rule find_addr.raw_induct [where P = "\<lambda>N' a' c r. \<not> (N' = N \<and> a' = a \<and> c = x)", rotated 1])
    fix self N' a' c r'
    assume IH: "\<And>N' a' c y. self N' a' c = Some y \<Longrightarrow> \<not> (N' = N \<and> a' = a \<and> c = x)"
      and run: "(if c = 0 then Some 0 else if m_addr (N' c) = a' then Some c
        else self N' a' (m_next (N' c))) = Some r'"
    show "\<not> (N' = N \<and> a' = a \<and> c = x)"
    proof
      assume "N' = N \<and> a' = a \<and> c = x"
      then have "self N a x = Some r'" using run assms by (auto split: if_splits)
      from IH [OF this] show False by simp
    qed
  qed
  then show ?thesis using Some by blast
qed

lemma wide_split_stuck:
  assumes "frame_state (nodes4 (nd 0x1F00000 0x1000 False 0x600019 0) (nd 0x1F01000 0x1000 True 0x600019 0x600000)
    (nd 0x1F03000 0xD000 True 0 0x600019) blank) s"
  shows "alloc_frame d 2 True s = None" and "free_frame 0x1F02000 s = None"
  using assms
  by (simp_all add: frame_state_def alloc_frame_def alloc_frame_with_def free_frame_def Let_def FRAME_SIZE_def
      find_free.simps [where current = "0x600000"] find_addr.simps [where current = "0x600000"]
      find_free_stuck find_addr_stuck)

text \<open>
  The metadata list is tied into a circle.  A split always puts the new node in the slot
  right behind the node it splits, which the node of the next block occupies when the split
  block had more than one frame.  Allocate two frames, then one; free the two; allocate one:
  the node of the block still in use is overwritten with one whose \<open>next\<close> is itself.  From
  then on a request for two frames never returns, and neither does freeing the lost block.
\<close>

lemma split_overwrites_live_node:
  "\<exists>s1 s2 s3 s4. alloc_frame d 2 True demo_frames = Some (0x1F00000, s1)
    \<and> alloc_frame d 1 True s1 = Some (0x1F02000, s2) \<and> free_frame 0x1F00000 s2 = Some s3
    \<and> alloc_frame d 1 True s3 = Some (0x1F00000, s4)
    \<and> alloc_frame d 2 True s4 = None \<and> free_frame 0x1F02000 s4 = None"
  using wide_split_1 [OF demo_frames_state, of d] wide_split_2 [of _ d] wide_split_3 wide_split_4 [of _ d]
    wide_split_stuck
  by meson

section \<open>Freeing with paging on\<close>

lemma free_page_one:
  assumes "tables_ok s" and "paging_on s" and "has_table s v"
  shows "\<exists>b s'. free_page v s = Some (b, s') \<and> same_frames s s'
    \<and> (\<forall>w. is_mapped s' w = (if pn w = pn v then Some False else is_mapped s w))"
proof (cases "pg_present (pt_pages s (page_tables s (PD_INDEX v)) (PT_INDEX v))")
  case True
  let ?pg = "(pt_pages s (page_tables s (PD_INDEX v)) (PT_INDEX v))\<lparr>pg_present := False\<rparr>"
  let ?s = "set_page (page_tables s (PD_INDEX v)) (PT_INDEX v) ?pg s"
  have "free_page v s = Some (True, ?s)"
    using assms True by (auto simp: free_page_def Let_def tables_ok_def paging_on_def has_table_def)
  moreover have "same_frames s ?s" by (simp add: same_frames_def)
  moreover have "is_mapped ?s w = (if pn w = pn v then Some False else is_mapped s w)" for w
    using set_page_translation(2,4) [OF assms refl, of w ?pg] by (simp add: same_page_pn)
  ultimately show ?thesis by blast
next
  case False
  have "free_page v s = Some (False, s)"
    using assms False by (auto simp: free_page_def Let_def tables_ok_def paging_on_def has_table_def)
  moreover have "is_mapped s w = Some False" if "pn w = pn v" for w
    using that False assms(2) by (auto simp: is_mapped_def paging_on_def same_page_pn [symmetric] same_page_index)
  ultimately show ?thesis by (auto simp: same_frames_def)
qed

lemma unmap_loop_pages:
  fixes s :: mm
  assumes "tables_ok s" and "paging_on s" and "unat a mod 4096 = 0" and "unat a + 4096 * k < 2 ^ 32"
    and "\<And>i. i < k \<Longrightarrow> 0 < m_size (pm_nodes s (block + 25 * of_nat i)) div 4096"
    and "\<not> 0 < m_size (pm_nodes s (block + 25 * of_nat k)) div 4096"
    and "\<And>v. pn a \<le> pn v \<Longrightarrow> pn v < pn a + k \<Longrightarrow> has_table s v"
  shows "\<exists>s'. unmap_loop block a s = Some s'
    \<and> (\<forall>w. is_mapped s' w = (if pn a \<le> pn w \<and> pn w < pn a + k then Some False else is_mapped s w))"
  using assms
proof (induction k arbitrary: a s block)
  case 0
  then show ?case by (subst unmap_loop.simps) auto
next
  case (Suc k)
  obtain b s1 where s1: "free_page a s = Some (b, s1)" "same_frames s s1"
    "\<forall>w. is_mapped s1 w = (if pn w = pn a then Some False else is_mapped s w)"
    using free_page_one [OF Suc.prems(1,2), of a] Suc.prems(7) [of a] by auto
  have nx: "unat (a + PAGE_SIZE) = unat a + 4096"
    using Suc.prems(4) by (simp add: PAGE_SIZE_def unat_add_no_wrap)
  then have pnx: "pn (a + PAGE_SIZE) = pn a + 1" "unat (a + PAGE_SIZE) mod 4096 = 0"
    "unat (a + PAGE_SIZE) + 4096 * k < 2 ^ 32"
    using Suc.prems(3,4) by (simp_all add: pn_def)
  have nodes: "pm_nodes s1 = pm_nodes s" using s1(2) by (simp add: same_frames_def)
  have sz: "0 < m_size (pm_nodes s1 (block + 25 + 25 * of_nat i)) div 4096" if "i < k" for i
    using Suc.prems(5) [of "Suc i"] that nodes by (simp add: algebra_simps)
  have sz': "\<not> 0 < m_size (pm_nodes s1 (block + 25 + 25 * of_nat k)) div 4096"
    using Suc.prems(6) nodes by (simp add: algebra_simps)
  have tb: "has_table s1 v" if "pn (a + PAGE_SIZE) \<le> pn v" "pn v < pn (a + PAGE_SIZE) + k" for v
    using Suc.prems(7) [of v] that same_frames_ok [OF s1(2), of v] pnx(1) by simp
  have ok: "tables_ok s1" "paging_on s1" using Suc.prems(1,2) same_frames_ok [OF s1(2)] by auto
  obtain s' where s': "unmap_loop (block + 25) (a + PAGE_SIZE) s1 = Some s'"
    "\<forall>w. is_mapped s' w = (if pn (a + PAGE_SIZE) \<le> pn w \<and> pn w < pn (a + PAGE_SIZE) + k then Some False else is_mapped s1 w)"
    using Suc.IH [OF ok pnx(2,3) sz sz' tb] by blast
  have "unmap_loop block a s = Some s'"
    using Suc.prems(5) [of 0] s1(1) s'(1) by (subst unmap_loop.simps) simp
  then show ?case using s'(2) s1(3) pnx(1) by (intro exI [of _ s']) auto
qed

text \<open>
  Freeing a frame while paging is on unmaps the wrong pages.  The loop takes its start
  address from the pointer that was just set to null, and advances the node pointer instead of
  the counter: it unmaps the first \<open>k\<close> pages of the address space, where \<open>k\<close> is the number of
  metadata slots from the block's on that record at least a page, and no other.  The frame
  that was freed stays mapped unless it is one of those.
\<close>

lemma free_frame_unmaps_low_pages:
  fixes s :: mm
  assumes "pmm_inv s lo bs" and "enabled_paging s" and "active_pd s \<noteq> 0" and "tables_ok s"
    and "(n, ucast ptr, z, False) \<in> set bs" and "ptr \<noteq> 0"
    and "merge_all ((pm_nodes s)(n := (pm_nodes s n)\<lparr>m_free := True\<rparr>)) (low_alloc_mem_head s) = Some N"
    and "\<And>i. i < k \<Longrightarrow> 0 < m_size (N (n + 25 * of_nat i)) div 4096"
    and "\<not> 0 < m_size (N (n + 25 * of_nat k)) div 4096"
    and "k < 2 ^ 20" and "\<And>v. pn v < k \<Longrightarrow> has_table s v"
  shows "\<exists>s'. free_frame ptr s = Some s'
    \<and> (\<forall>w. is_mapped s' w = (if pn w < k then Some False else is_mapped s w))"
proof -
  note inv = assms(1) [unfolded pmm_inv_def]
  have nd: "n \<noteq> 0" "m_size (pm_nodes s n) = z"
    using chained_mem [of "pm_nodes s" 0 "low_alloc_mem_head s" bs n "ucast ptr" z False] inv assms(5) by auto
  have fa: "find_addr (pm_nodes s) (ucast ptr) (low_alloc_mem_head s) = Some n"
    using find_addr_chained [of "pm_nodes s" 0 "low_alloc_mem_head s" bs] slot_at_block [of lo bs n "ucast ptr" z False]
      inv assms(5) by simp
  define s2 where "s2 = s\<lparr>total_used_ram := total_used_ram s - z, pm_nodes := N\<rparr>"
  have run: "free_frame ptr s = unmap_loop n 0 s2"
    using fa nd assms(2,6,7) by (simp add: free_frame_def Let_def s2_def)
  have ok: "tables_ok s2" "paging_on s2" "has_table s2 v = has_table s v" "is_mapped s2 w = is_mapped s w"
    "pm_nodes s2 = N" for v w
    using assms(2-4) by (auto simp: s2_def tables_ok_def paging_on_def has_table_def is_mapped_def)
  have "\<exists>s'. unmap_loop n 0 s2 = Some s'
    \<and> (\<forall>w. is_mapped s' w = (if pn 0 \<le> pn w \<and> pn w < pn 0 + k then Some False else is_mapped s2 w))"
    by (rule unmap_loop_pages) (use ok assms(8-11) in \<open>simp_all add: pn_def\<close>)
  then show ?thesis using run ok(4) by (auto simp: pn_def)
qed

text \<open>The first frame is in use, paging is on, and every page of the first table is present.\<close>

definition demo_paged :: mm where
  "demo_paged = demo_frames1\<lparr>enabled_paging := True, pt_pages := (\<lambda>_ _. mk_page 3 0)\<rparr>"

lemma free_frame_unmaps_low_pages_witness:
  "is_mapped demo_paged 0 = Some True \<and> (\<exists>s'. free_frame 0x1F00000 demo_paged = Some s'
    \<and> is_mapped s' 0 = Some False \<and> is_mapped s' 0x1FFF = Some False \<and> is_mapped s' 0x2000 = Some True)"
proof -
  let ?N = "nodes4 (nd 0x1F00000 0x10000 True 0 0) (nd 0x1F01000 0xF000 True 0 0x600000) blank blank"
  have inv: "pmm_inv demo_paged 0x1F00000 [(0x600000, 0x1F00000, 0x1000, False), (0x600019, 0x1F01000, 0xF000, True)]"
    using demo_frames_inv(2) by (simp add: demo_paged_def pmm_inv_def)
  have t: "page_tables demo_paged = page_tables demo_mm" "pd_entries demo_paged = pd_entries demo_mm"
    "active_pd demo_paged = active_pd demo_mm" "enabled_paging demo_paged"
    by (simp_all add: demo_paged_def demo_frames1_def demo_frames_def)
  have ok: "enabled_paging demo_paged" "active_pd demo_paged \<noteq> 0" "tables_ok demo_paged"
    using demo_mm_ok(1,2) unfolding tables_ok_def t by (simp_all add: t paging_on_def)
  have mem: "(0x600000, ucast (0x1F00000 :: u32), 0x1000, False) \<in> set [(0x600000 :: u32, 0x1F00000 :: u64, 0x1000 :: u64, False), (0x600019, 0x1F01000, 0xF000, True)]"
    "(0x1F00000 :: u32) \<noteq> 0"
    by simp_all
  have merged: "merge_all ((pm_nodes demo_paged)(0x600000 := (pm_nodes demo_paged 0x600000)\<lparr>m_free := True\<rparr>))
      (low_alloc_mem_head demo_paged) = Some ?N"
    by (simp add: demo_paged_def demo_frames1_def demo_frames_def run_eval)
  have sizes: "0 < m_size (?N (0x600000 + 25 * of_nat i)) div 4096" if "i < 2" for i :: nat
    using that by (cases "i = 0") (auto simp: less_2_cases_iff)
  have stop: "\<not> 0 < m_size (?N (0x600000 + 25 * of_nat 2)) div 4096" by simp
  have tab: "has_table demo_paged v" if "pn v < 2" for v
    using that demo_mm_ok(3) [of v] PD_INDEX_low [of v]
    by (simp add: has_table_def demo_paged_def demo_frames1_def demo_frames_def)
  obtain s' where s': "free_frame 0x1F00000 demo_paged = Some s'"
    "\<forall>w. is_mapped s' w = (if pn w < 2 then Some False else is_mapped demo_paged w)"
    using free_frame_unmaps_low_pages [OF inv ok mem merged sizes stop _ tab] by auto
  have m: "is_mapped demo_paged w = Some True" if "PD_INDEX w = 0" for w
    using that by (simp add: is_mapped_def demo_paged_def demo_frames1_def demo_frames_def demo_mm_def mk_pde_def fl_def)
  have i: "PD_INDEX 0 = 0" "PD_INDEX 0x2000 = 0" "pn 0 = 0" "pn 0x1FFF = 1" "pn 0x2000 = 2"
    by (simp_all add: PD_INDEX_low pn_def)
  show ?thesis using s' m [OF i(1)] m [OF i(2)] i by auto
qed

section \<open>Frames that need a new page table\<close>

text \<open>
  The blocks before the last are all in use; the last, free one starts at \<open>a\<close> with \<open>R\<close> frames;
  the metadata slots after its node are not in use; and no frame of it lies in a region that
  has a page table yet.
\<close>

definition unmapped_tail :: "mm \<Rightarrow> u64 \<Rightarrow> pblk list \<Rightarrow> u32 \<Rightarrow> u64 \<Rightarrow> nat \<Rightarrow> bool" where
  "unmapped_tail s lo bs c a R \<longleftrightarrow>
     chained (pm_nodes s) 0 (low_alloc_mem_head s) (bs @ [(c, a, of_nat R * 4096, True)])
     \<and> tiled lo (bs @ [(c, a, of_nat R * 4096, True)])
     \<and> (\<forall>(n, b, z, f) \<in> set bs. \<not> f) \<and> distinct (slots bs @ map (\<lambda>i. c + 25 * of_nat i) [0..<R])
     \<and> 0 \<notin> set (map (\<lambda>i. c + 25 * of_nat i) [0..<R]) \<and> R < 2 ^ 20
     \<and> enabled_paging s \<and> active_pd s \<noteq> 0 \<and> is_mapped s (low_alloc_mem_head s) = Some True
     \<and> (\<forall>i < R. page_tables s (PD_INDEX (ucast (a + 4096 * of_nat i))) = 0)
     \<and> unat a + R * 4096 < 2 ^ 32"

lemma pfit_last:
  "\<forall>(n, b, z, f) \<in> set bs. \<not> f \<Longrightarrow> sz \<le> y \<Longrightarrow> pfit sz (bs @ [(c, a, y, True)]) =
     Some (c, a, bs @ (if sz < y then [(c, a, sz, False), (c + 25, a + sz, y - sz, True)] else [(c, a, sz, False)]))
     \<and> safe_fit sz (bs @ [(c, a, y, True)])"
  by (induction bs) (auto split: if_splits)

lemma frames_size: "0 < R \<Longrightarrow> R < 2 ^ 20 \<Longrightarrow> unat (of_nat R * 4096 :: u64) = R * 4096"
  by (simp add: unat_mult_no_wrap unat_of_nat)

lemma chained_nonzero: "chained N pv p bs \<Longrightarrow> 0 \<notin> set (slots bs)"
  by (induction N pv p bs rule: chained.induct) auto

lemma tail_step:
  assumes "unmapped_tail s lo bs c a (Suc (Suc R))"
  shows "find_free (pm_nodes s) 4096 (low_alloc_mem_head s) = Some c" and "c \<noteq> 0"
    and "m_addr (take_node (pm_nodes s) 4096 c c) = a"
    and "unmapped_tail (take_block 4096 c s) lo (bs @ [(c, a, 4096, False)]) (c + 25) (a + 4096) (Suc R)"
proof -
  note u = assms [unfolded unmapped_tail_def]
  let ?y = "of_nat (Suc (Suc R)) * 4096 :: u64"
  have y: "unat ?y = Suc (Suc R) * 4096" using u by (intro frames_size) auto
  have lt: "4096 < ?y" using y by (simp add: word_less_nat_alt)
  have rest: "?y - 4096 = of_nat (Suc R) * 4096" by (simp add: algebra_simps)
  have pf: "pfit 4096 (bs @ [(c, a, ?y, True)]) = Some (c, a, bs @ [(c, a, 4096, False), (c + 25, a + 4096, ?y - 4096, True)])"
    "safe_fit 4096 (bs @ [(c, a, ?y, True)])"
    using pfit_last [of bs 4096 ?y c a] u lt by (auto simp: less_imp_le)
  show ff: "find_free (pm_nodes s) 4096 (low_alloc_mem_head s) = Some c"
    using find_free_chained [of "pm_nodes s" 0 "low_alloc_mem_head s" "bs @ [(c, a, ?y, True)]" 4096] u pf by simp
  let ?f = "\<lambda>i. c + 25 * of_nat i :: u32"
  have shift: "map (\<lambda>i. c + 25 + 25 * of_nat i) [0..<Suc R] = map ?f [Suc 0..<Suc (Suc R)]"
    by (simp only: map_Suc_upt [symmetric] map_map) (simp add: algebra_simps)
  have upt1: "map ?f [0..<Suc (Suc R)] = c # map ?f [Suc 0..<Suc (Suc R)]"
    by (simp del: upt_Suc add: upt_conv_Cons)
  have ds: "distinct (slots bs @ c # map ?f [Suc 0..<Suc (Suc R)])" "0 \<notin> set (c # map ?f [Suc 0..<Suc (Suc R)])"
    using u unfolding upt1 by auto
  show c0: "c \<noteq> 0" using ds(2) by auto
  have c25: "c + 25 \<in> set (map ?f [Suc 0..<Suc (Suc R)])"
    unfolding set_map by (rule image_eqI [of _ _ "Suc 0"]) auto
  have ch: "chained (take_node (pm_nodes s) 4096 c) 0 (low_alloc_mem_head s)
      (bs @ [(c, a, 4096, False), (c + 25, a + 4096, ?y - 4096, True)])"
  proof (rule take_node_chained [OF _ _ pf(1,2)])
    show "chained (pm_nodes s) 0 (low_alloc_mem_head s) (bs @ [(c, a, ?y, True)])" "tiled lo (bs @ [(c, a, ?y, True)])"
      using u by auto
    show "distinct (slots (bs @ [(c, a, 4096, False), (c + 25, a + 4096, ?y - 4096, True)]))"
      using ds c25 by auto
    have "0 \<notin> set (slots bs)"
      using u chained_nonzero [of "pm_nodes s" 0 "low_alloc_mem_head s" "bs @ [(c, a, ?y, True)]"] by simp
    then show "0 \<notin> set (slots (bs @ [(c, a, 4096, False), (c + 25, a + 4096, ?y - 4096, True)]))"
      "0 \<notin> set (slots (bs @ [(c, a, 4096, False), (c + 25, a + 4096, ?y - 4096, True)]))"
      using ds c25 by auto
  qed simp
  show "m_addr (take_node (pm_nodes s) 4096 c c) = a"
    using chained_mem [OF ch, of c a 4096 False] by simp
  have "tiled lo (bs @ [(c, a, 4096, False)] @ [(c + 25, a + 4096, of_nat (Suc R) * 4096, True)])"
    using pfit_tiled [OF pf(1), of lo] u rest by simp
  moreover have "unat (a + 4096) = unat a + 4096"
    using u by (simp add: unat_add_no_wrap)
  moreover have "page_tables s (PD_INDEX (ucast (a + 4096 + 4096 * of_nat i))) = 0" if "i < Suc R" for i
    using u that by (auto simp: algebra_simps dest!: spec [of _ "Suc i"])
  ultimately show "unmapped_tail (take_block 4096 c s) lo (bs @ [(c, a, 4096, False)]) (c + 25) (a + 4096) (Suc R)"
    using ch u ds rest unfolding unmapped_tail_def shift
    by (auto simp: is_mapped_def)
qed

lemma map_region_eta:
  "(\<lambda>a e. identity_map_region d a e flags) = identity_map_with (\<lambda>a. alloc_page d a a flags)"
  by (intro ext) (simp add: identity_map_region_def)

lemma tail_alloc:
  assumes "unmapped_tail s lo bs c a (Suc (Suc R))"
  shows "alloc_page d (ucast a) (ucast a) 3 (take_block 4096 c s) = None \<Longrightarrow> alloc_frame d 1 True s = None"
    and "enabled_paging s \<and> active_pd s \<noteq> 0" and "page_tables s (PD_INDEX (ucast a)) = 0"
proof -
  note u = assms [unfolded unmapped_tail_def] and t = tail_step [OF assms]
  show e: "enabled_paging s \<and> active_pd s \<noteq> 0" and "page_tables s (PD_INDEX (ucast a)) = 0"
    using u by (auto dest: spec [of _ 0])
  have a: "unat (ucast a :: u32) = unat a" "unat (ucast (a + 4096) :: u32) = unat a + 4096"
    using u by (simp_all add: unsigned_ucast_eq take_bit_eq_mod unat_add_no_wrap)
  then have "(ucast a :: u32) \<le> ucast (a + 4096)" by (simp add: word_le_nat_alt)
  then show "alloc_frame d 1 True s = None" if "alloc_page d (ucast a) (ucast a) 3 (take_block 4096 c s) = None"
    using that t(1-3) u
    by (simp add: alloc_frame_def alloc_frame_with_def identity_map_region_def Let_def FRAME_SIZE_def
        identity_map_with.simps [of _ "ucast a"])
qed

text \<open>
  Allocating a frame in a region that has no page table yet.  \<open>alloc_frame\<close> maps the frame it
  hands out, which allocates a frame for the page table, which is again in the region without
  a table, and so on: no recursion depth below the number of frames left is enough.
\<close>

lemma alloc_frame_recursion:
  assumes "unmapped_tail s lo bs c a R" and "Suc d < R"
  shows "alloc_frame d 1 True s = None"
  using assms
proof (induction d arbitrary: s bs c a R)
  case (0 s bs c a R)
  then obtain k where R: "R = Suc (Suc k)" by (metis Suc_less_eq less_imp_Suc_add add_Suc)
  show ?case
    using tail_alloc(1) [OF 0(1) [unfolded R], where d = 0] by simp
next
  case (Suc d s bs c a R)
  then obtain k where R: "R = Suc (Suc k)" by (metis Suc_less_eq less_imp_Suc_add add_Suc)
  have "alloc_frame d 1 True (take_block 4096 c s) = None"
    using Suc.IH [OF tail_step(4) [OF Suc.prems(1) [unfolded R]]] Suc.prems(2) R by simp
  then have "alloc_page (Suc d) (ucast a) (ucast a) 3 (take_block 4096 c s) = None"
    using tail_alloc(2,3) [OF Suc.prems(1) [unfolded R]]
    by (simp add: alloc_frame_def map_region_eta Let_def)
  then show ?case
    using tail_alloc(1) [OF Suc.prems(1) [unfolded R]] by simp
qed

text \<open>Three free frames at 32 MiB, where no page table is; those of the first 8 MiB exist.\<close>

definition demo_tail :: mm where
  "demo_tail = demo_mm\<lparr>pm_nodes := nodes4 (nd 0x2000000 0x3000 True 0 0) blank blank blank,
     low_alloc_mem_head := 0x600000,
     pd_entries := (\<lambda>i. if i = 0 \<or> i = 1 then mk_pde 3 0x1F02000 else no_pde),
     page_tables := (\<lambda>i. if i = 0 then 0x1F02000 else if i = 1 then 0x1F03000 else 0),
     pt_pages := (\<lambda>_ _. mk_page 3 0)\<rparr>"

lemma demo_tail_unmapped: "unmapped_tail demo_tail 0x2000000 [] 0x600000 0x2000000 3"
proof -
  have i: "PD_INDEX 0x600000 = 1" "PD_INDEX 0x2000000 = 8" "PD_INDEX 0x2001000 = 8" "PD_INDEX 0x2002000 = 8"
    by (simp_all add: PD_INDEX_def)
  have u: "[0..<3] = [0, 1, 2 :: nat]" by (simp add: upt_rec)
  have p: "page_tables demo_tail (PD_INDEX (ucast (0x2000000 + 4096 * of_nat k :: u64))) = 0" if "k < 3" for k
  proof -
    have "k = 0 \<or> k = 1 \<or> k = 2" using that by auto
    then show ?thesis using i by (auto simp: demo_tail_def)
  qed
  show ?thesis
    using i p unfolding unmapped_tail_def u
    by (simp add: demo_tail_def demo_mm_def is_mapped_def mk_pde_def fl_def)
qed

lemma alloc_frame_recursion_witness:
  "alloc_frame 1 1 True demo_tail = None"
  using alloc_frame_recursion [OF demo_tail_unmapped, of 1] by simp

end
