(* ===== verification/Keyboard.thy ===== *)
theory Keyboard
  imports Prelude
begin

text \<open>
  \<open>src/kernel/drivers/keyboard.cpp\<close>: the scancode tables and their lookup, the interrupt
  handler with its shift, caps-lock and extended-code state, and the ring buffer of key events,
  which keeps the contract of the locale \<open>bounded_fifo\<close>.
\<close>

section \<open>Key codes\<close>

definition chc :: "char \<Rightarrow> u32" where "chc c = of_nat (cv c)"

definition UNKNOWN :: u32 where "UNKNOWN = 0xFFFFFFFF"
definition ESC :: u32 where "ESC = 0xFFFFFFFF - 1"
definition CTRL :: u32 where "CTRL = 0xFFFFFFFF - 2"
definition LSHFT :: u32 where "LSHFT = 0xFFFFFFFF - 3"
definition RSHFT :: u32 where "RSHFT = 0xFFFFFFFF - 4"
definition ALT :: u32 where "ALT = 0xFFFFFFFF - 5"
definition F1 :: u32 where "F1 = 0xFFFFFFFF - 6"
definition F2 :: u32 where "F2 = 0xFFFFFFFF - 7"
definition F3 :: u32 where "F3 = 0xFFFFFFFF - 8"
definition F4 :: u32 where "F4 = 0xFFFFFFFF - 9"
definition F5 :: u32 where "F5 = 0xFFFFFFFF - 10"
definition F6 :: u32 where "F6 = 0xFFFFFFFF - 11"
definition F7 :: u32 where "F7 = 0xFFFFFFFF - 12"
definition F8 :: u32 where "F8 = 0xFFFFFFFF - 13"
definition F9 :: u32 where "F9 = 0xFFFFFFFF - 14"
definition F10 :: u32 where "F10 = 0xFFFFFFFF - 15"
definition F11 :: u32 where "F11 = 0xFFFFFFFF - 16"
definition F12 :: u32 where "F12 = 0xFFFFFFFF - 17"
definition SCRLCK :: u32 where "SCRLCK = 0xFFFFFFFF - 18"
definition HOME :: u32 where "HOME = 0xFFFFFFFF - 19"
definition UP :: u32 where "UP = 0xFFFFFFFF - 20"
definition LEFT :: u32 where "LEFT = 0xFFFFFFFF - 21"
definition RIGHT :: u32 where "RIGHT = 0xFFFFFFFF - 22"
definition DOWN :: u32 where "DOWN = 0xFFFFFFFF - 23"
definition PGUP :: u32 where "PGUP = 0xFFFFFFFF - 24"
definition PGDOWN :: u32 where "PGDOWN = 0xFFFFFFFF - 25"
definition END :: u32 where "END = 0xFFFFFFFF - 26"
definition INS :: u32 where "INS = 0xFFFFFFFF - 27"
definition DEL :: u32 where "DEL = 0xFFFFFFFF - 28"
definition CAPS :: u32 where "CAPS = 0xFFFFFFFF - 29"
definition NONE :: u32 where "NONE = 0xFFFFFFFF - 30"
definition ALTGR :: u32 where "ALTGR = 0xFFFFFFFF - 31"
definition NUMLCK :: u32 where "NUMLCK = 0xFFFFFFFF - 32"

definition lowercase :: "u32 list" where
  "lowercase =
    [UNKNOWN, ESC, chc (CHR ''1''), chc (CHR ''2''), chc (CHR ''3''), chc (CHR ''4''),
     chc (CHR ''5''), chc (CHR ''6''), chc (CHR ''7''), chc (CHR ''8''), chc (CHR ''9''),
     chc (CHR ''0''), chc (CHR ''-''), chc (CHR ''=''), chc (CHR 0x08), chc (CHR 0x09),
     chc (CHR ''q''), chc (CHR ''w''), chc (CHR ''e''), chc (CHR ''r''), chc (CHR ''t''),
     chc (CHR ''y''), chc (CHR ''u''), chc (CHR ''i''), chc (CHR ''o''), chc (CHR ''p''),
     chc (CHR ''[''), chc (CHR '']''), chc (CHR 0x0A), CTRL, chc (CHR ''a''), chc (CHR ''s''),
     chc (CHR ''d''), chc (CHR ''f''), chc (CHR ''g''), chc (CHR ''h''), chc (CHR ''j''),
     chc (CHR ''k''), chc (CHR ''l''), chc (CHR '';''), chc (CHR 0x27), chc (CHR 0x60), LSHFT,
     chc (CHR 0x5C), chc (CHR ''z''), chc (CHR ''x''), chc (CHR ''c''), chc (CHR ''v''),
     chc (CHR ''b''), chc (CHR ''n''), chc (CHR ''m''), chc (CHR '',''), chc (CHR ''.''),
     chc (CHR ''/''), RSHFT, chc (CHR ''*''), ALT, chc (CHR 0x20), CAPS, F1, F2, F3, F4, F5, F6,
     F7, F8, F9, F10, NUMLCK, SCRLCK, HOME, UP, PGUP, chc (CHR ''-''), LEFT, UNKNOWN, RIGHT,
     chc (CHR ''+''), END, DOWN, PGDOWN, INS, DEL, UNKNOWN, UNKNOWN, UNKNOWN, F11, F12, UNKNOWN,
     UNKNOWN, UNKNOWN, UNKNOWN, UNKNOWN, UNKNOWN, UNKNOWN, UNKNOWN, UNKNOWN, UNKNOWN, UNKNOWN,
     UNKNOWN, UNKNOWN, UNKNOWN, UNKNOWN, UNKNOWN, UNKNOWN, UNKNOWN, UNKNOWN, UNKNOWN, UNKNOWN,
     UNKNOWN, UNKNOWN, UNKNOWN, UNKNOWN, UNKNOWN, UNKNOWN, UNKNOWN, UNKNOWN, UNKNOWN, UNKNOWN,
     UNKNOWN, UNKNOWN, UNKNOWN, UNKNOWN, UNKNOWN, UNKNOWN, UNKNOWN, UNKNOWN]"

definition uppercase :: "u32 list" where
  "uppercase =
    [UNKNOWN, ESC, chc (CHR ''!''), chc (CHR ''@''), chc (CHR ''#''), chc (CHR ''$''),
     chc (CHR ''%''), chc (CHR ''^''), chc (CHR ''&''), chc (CHR ''*''), chc (CHR ''(''),
     chc (CHR '')''), chc (CHR ''_''), chc (CHR ''+''), chc (CHR 0x08), chc (CHR 0x09),
     chc (CHR ''Q''), chc (CHR ''W''), chc (CHR ''E''), chc (CHR ''R''), chc (CHR ''T''),
     chc (CHR ''Y''), chc (CHR ''U''), chc (CHR ''I''), chc (CHR ''O''), chc (CHR ''P''),
     chc (CHR ''{''), chc (CHR ''}''), chc (CHR 0x0A), CTRL, chc (CHR ''A''), chc (CHR ''S''),
     chc (CHR ''D''), chc (CHR ''F''), chc (CHR ''G''), chc (CHR ''H''), chc (CHR ''J''),
     chc (CHR ''K''), chc (CHR ''L''), chc (CHR '':''), chc (CHR 0x22), chc (CHR ''~''), LSHFT,
     chc (CHR ''|''), chc (CHR ''Z''), chc (CHR ''X''), chc (CHR ''C''), chc (CHR ''V''),
     chc (CHR ''B''), chc (CHR ''N''), chc (CHR ''M''), chc (CHR ''<''), chc (CHR ''>''),
     chc (CHR ''?''), RSHFT, chc (CHR ''*''), ALT, chc (CHR 0x20), CAPS, F1, F2, F3, F4, F5, F6,
     F7, F8, F9, F10, NUMLCK, SCRLCK, HOME, UP, PGUP, chc (CHR ''-''), LEFT, UNKNOWN, RIGHT,
     chc (CHR ''+''), END, DOWN, PGDOWN, INS, DEL, UNKNOWN, UNKNOWN, UNKNOWN, F11, F12, UNKNOWN,
     UNKNOWN, UNKNOWN, UNKNOWN, UNKNOWN, UNKNOWN, UNKNOWN, UNKNOWN, UNKNOWN, UNKNOWN, UNKNOWN,
     UNKNOWN, UNKNOWN, UNKNOWN, UNKNOWN, UNKNOWN, UNKNOWN, UNKNOWN, UNKNOWN, UNKNOWN, UNKNOWN,
     UNKNOWN, UNKNOWN, UNKNOWN, UNKNOWN, UNKNOWN, UNKNOWN, UNKNOWN, UNKNOWN, UNKNOWN, UNKNOWN,
     UNKNOWN, UNKNOWN, UNKNOWN, UNKNOWN, UNKNOWN, UNKNOWN, UNKNOWN, UNKNOWN]"

definition get_terminal_key :: "u8 \<Rightarrow> bool \<Rightarrow> bool \<Rightarrow> u32" where
  "get_terminal_key scancode shift capsLock =
     (if 128 \<le> scancode then UNKNOWN
      else
        let i = unat scancode;
            base = (if shift then uppercase ! i else lowercase ! i)
        in if lowercase ! i < 0xF0000000 \<or> uppercase ! i < 0xF0000000
           then (let useUpper = (capsLock \<noteq> shift) in if useUpper then uppercase ! i else lowercase ! i)
           else base)"

section \<open>The event buffer\<close>

record key_event =
  character :: u32
  pressed :: bool

definition KEYBOARD_BUFFER_SIZE :: nat where "KEYBOARD_BUFFER_SIZE = 128"

record kbd =
  keyboardBuffer :: "key_event list"
  kb_buf_head :: nat
  kb_buf_tail :: nat
  shift_on :: bool
  capsLock_on :: bool
  is_extended :: bool

definition push_key_event :: "key_event \<Rightarrow> kbd \<Rightarrow> kbd" where
  "push_key_event ev k =
     (let next = (kb_buf_head k + 1) mod KEYBOARD_BUFFER_SIZE in
      if next \<noteq> kb_buf_tail k
      then k\<lparr>keyboardBuffer := (keyboardBuffer k)[kb_buf_head k := ev], kb_buf_head := next\<rparr>
      else k)"

definition pop_key_event :: "kbd \<Rightarrow> (key_event \<times> kbd) option" where
  "pop_key_event k =
     (if kb_buf_head k = kb_buf_tail k then None
      else Some (keyboardBuffer k ! kb_buf_tail k,
        k\<lparr>kb_buf_tail := (kb_buf_tail k + 1) mod KEYBOARD_BUFFER_SIZE\<rparr>))"

section \<open>The interrupt handler\<close>

text \<open>\<open>raw_scancode\<close> is the byte read from the data port.\<close>

definition keyboardHandler :: "u8 \<Rightarrow> kbd \<Rightarrow> kbd" where
  "keyboardHandler raw_scancode k =
     (let scancode = raw_scancode AND 0x7F;
          press_state = raw_scancode AND 0x80
      in if raw_scancode = 0xE0 then k\<lparr>is_extended := True\<rparr>
         else if is_extended k then
           (let c = (if scancode = 0x1C then chc (CHR 0x0A)
                else if scancode = 72 then UP
                else if scancode = 80 then DOWN
                else UNKNOWN)
            in push_key_event \<lparr>character = c, pressed = (press_state = 0)\<rparr> (k\<lparr>is_extended := False\<rparr>))
         else if scancode = 0x2A \<or> scancode = 0x36 then k\<lparr>shift_on := (press_state = 0)\<rparr>
         else if scancode = 0x3A then
           (if press_state = 0 then k\<lparr>capsLock_on := \<not> capsLock_on k\<rparr> else k)
         else push_key_event \<lparr>character = get_terminal_key scancode (shift_on k) (capsLock_on k),
                pressed = (press_state = 0)\<rparr> k)"

definition kbrd_init :: "kbd \<Rightarrow> kbd" where
  "kbrd_init k = k\<lparr>shift_on := False, capsLock_on := False\<rparr>"

section \<open>A bounded queue that drops what does not fit\<close>

fun drain :: "('q \<Rightarrow> ('a \<times> 'q) option) \<Rightarrow> nat \<Rightarrow> 'q \<Rightarrow> 'a list" where
  "drain pp 0 q = []"
| "drain pp (Suc n) q = (case pp q of None \<Rightarrow> [] | Some (v, q') \<Rightarrow> v # drain pp n q')"

locale bounded_fifo =
  fixes cap :: nat
    and push :: "'a \<Rightarrow> 'q \<Rightarrow> 'q"
    and pop :: "'q \<Rightarrow> ('a \<times> 'q) option"
    and content :: "'q \<Rightarrow> 'a list"
    and ok :: "'q \<Rightarrow> bool"
  assumes push_law: "ok q \<Longrightarrow> ok (push v q)
      \<and> content (push v q) = (if length (content q) < cap then content q @ [v] else content q)"
    and pop_empty: "ok q \<Longrightarrow> content q = [] \<Longrightarrow> pop q = None"
    and pop_law: "ok q \<Longrightarrow> content q = v # vs \<Longrightarrow> \<exists>q'. pop q = Some (v, q') \<and> ok q' \<and> content q' = vs"
begin

lemma fold_push:
  "ok q \<Longrightarrow> length (content q) \<le> cap \<Longrightarrow>
     ok (fold push vs q) \<and> content (fold push vs q) = take cap (content q @ vs)"
proof (induction vs arbitrary: q)
  case (Cons v vs)
  have p: "ok (push v q)"
    "content (push v q) = (if length (content q) < cap then content q @ [v] else content q)"
    using push_law [OF Cons.prems(1)] by auto
  then show ?case
    using Cons.IH [OF p(1)] Cons.prems(2) by (auto simp: not_less take_Cons')
qed simp

lemma drain_content: "ok q \<Longrightarrow> length (content q) \<le> n \<Longrightarrow> drain pop n q = content q"
proof (induction n arbitrary: q)
  case (Suc n)
  show ?case
  proof (cases "content q")
    case Nil
    then show ?thesis using pop_empty Suc.prems by simp
  next
    case (Cons v vs)
    obtain q' where "pop q = Some (v, q')" "ok q'" "content q' = vs"
      using pop_law [OF Suc.prems(1) Cons] by blast
    then show ?thesis using Suc.IH [of q'] Suc.prems(2) Cons by simp
  qed
qed simp

text \<open>Of a burst only what fits is kept, the oldest first.\<close>

lemma burst:
  assumes "ok q" and "length (content q) \<le> cap"
  shows "drain pop cap (fold push vs q) = take cap (content q @ vs)"
  using fold_push [OF assms, of vs] drain_content [of "fold push vs q" cap] by simp

end

section \<open>The ring buffer keeps the contract\<close>

definition kbd_ok :: "kbd \<Rightarrow> bool" where
  "kbd_ok k \<longleftrightarrow> length (keyboardBuffer k) = 128 \<and> kb_buf_head k < 128 \<and> kb_buf_tail k < 128"

definition events :: "kbd \<Rightarrow> key_event list" where
  "events k = map (\<lambda>i. keyboardBuffer k ! ((kb_buf_tail k + i) mod 128))
     [0..<(kb_buf_head k + 128 - kb_buf_tail k) mod 128]"

definition fill :: "kbd \<Rightarrow> nat" where
  "fill k = (kb_buf_head k + 128 - kb_buf_tail k) mod 128"

lemma fill_cases:
  assumes "kbd_ok k"
  shows "fill k = (if kb_buf_tail k \<le> kb_buf_head k then kb_buf_head k - kb_buf_tail k
    else kb_buf_head k + 128 - kb_buf_tail k)"
  using assms by (auto simp: fill_def kbd_ok_def mod_if)

lemma mod128: "x < 256 \<Longrightarrow> x mod 128 = (if x < 128 then x else x - (128 :: nat))"
  by (simp add: mod_if)

lemma head_slot: "kbd_ok k \<Longrightarrow> (kb_buf_tail k + fill k) mod 128 = kb_buf_head k"
  by (auto simp: fill_cases) (auto simp: kbd_ok_def)

lemma other_slot:
  assumes "kbd_ok k" and "i < fill k"
  shows "(kb_buf_tail k + i) mod 128 \<noteq> kb_buf_head k"
proof -
  have b: "kb_buf_head k < 128" "kb_buf_tail k < 128" using assms(1) by (auto simp: kbd_ok_def)
  show ?thesis
  proof (cases "kb_buf_tail k \<le> kb_buf_head k")
    case True
    then have "kb_buf_tail k + i < kb_buf_head k"
      using assms(2) b unfolding fill_cases [OF assms(1)] by simp
    then show ?thesis using b by simp
  next
    case False
    then have "kb_buf_tail k + i < kb_buf_head k + 128"
      using assms(2) b unfolding fill_cases [OF assms(1)] by simp
    then show ?thesis using b False mod128 [of "kb_buf_tail k + i"] by auto
  qed
qed

lemma length_events [simp]: "length (events k) = fill k"
  by (simp add: events_def fill_def)

lemma push_fill:
  assumes "kbd_ok k"
  shows "(kb_buf_head k + 1) mod 128 \<noteq> kb_buf_tail k \<longleftrightarrow> fill k < 127"
    and "fill k < 127 \<Longrightarrow> fill (push_key_event ev k) = fill k + 1"
proof -
  have b: "kb_buf_head k < 128" "kb_buf_tail k < 128" using assms by (auto simp: kbd_ok_def)
  show "(kb_buf_head k + 1) mod 128 \<noteq> kb_buf_tail k \<longleftrightarrow> fill k < 127"
    using b by (auto simp: fill_cases [OF assms] mod_if)
  then show "fill k < 127 \<Longrightarrow> fill (push_key_event ev k) = fill k + 1"
    using b fill_cases [OF assms]
    by (auto simp: push_key_event_def KEYBOARD_BUFFER_SIZE_def Let_def fill_def mod_if split: if_splits)
qed

lemma push_ok: "kbd_ok k \<Longrightarrow> kbd_ok (push_key_event ev k)"
  by (simp add: kbd_ok_def push_key_event_def KEYBOARD_BUFFER_SIZE_def Let_def)

lemma push_events:
  assumes "kbd_ok k"
  shows "events (push_key_event ev k) = (if fill k < 127 then events k @ [ev] else events k)"
proof (cases "fill k < 127")
  case True
  let ?k = "push_key_event ev k"
  have run: "keyboardBuffer ?k = (keyboardBuffer k)[kb_buf_head k := ev]" "kb_buf_tail ?k = kb_buf_tail k"
    using True push_fill(1) [OF assms] by (simp_all add: push_key_event_def KEYBOARD_BUFFER_SIZE_def Let_def)
  have len: "length (keyboardBuffer k) = 128" "kb_buf_head k < 128" using assms by (auto simp: kbd_ok_def)
  have "events ?k = map (\<lambda>i. (keyboardBuffer k)[kb_buf_head k := ev] ! ((kb_buf_tail k + i) mod 128)) [0..<fill k + 1]"
    using push_fill(2) [OF assms True, of ev] run by (simp add: events_def fill_def)
  also have "\<dots> = events k @ [ev]"
  proof -
    have "(keyboardBuffer k)[kb_buf_head k := ev] ! ((kb_buf_tail k + i) mod 128) = keyboardBuffer k ! ((kb_buf_tail k + i) mod 128)"
      if "i < fill k" for i
      by (rule nth_list_update_neq [OF other_slot [OF assms that, THEN not_sym]])
    then have "map (\<lambda>i. (keyboardBuffer k)[kb_buf_head k := ev] ! ((kb_buf_tail k + i) mod 128)) [0..<fill k] = events k"
      unfolding events_def fill_def [symmetric] by simp
    then show ?thesis using head_slot [OF assms] len by simp
  qed
  finally show ?thesis using True by simp
next
  case False
  then have "push_key_event ev k = k"
    using push_fill(1) [OF assms] by (simp add: push_key_event_def KEYBOARD_BUFFER_SIZE_def Let_def)
  then show ?thesis using False by simp
qed

lemma pop_events:
  assumes "kbd_ok k" and "events k = v # vs"
  shows "\<exists>k'. pop_key_event k = Some (v, k') \<and> kbd_ok k' \<and> events k' = vs"
proof -
  have pos: "0 < fill k" using assms(2) length_events [of k] by simp
  then obtain n where n: "fill k = Suc n" by (cases "fill k") auto
  have ne: "kb_buf_head k \<noteq> kb_buf_tail k" using pos by (auto simp: fill_def)
  let ?k = "k\<lparr>kb_buf_tail := (kb_buf_tail k + 1) mod 128\<rparr>"
  have b: "kb_buf_head k < 128" "kb_buf_tail k < 128" using assms(1) by (auto simp: kbd_ok_def)
  have ok: "kbd_ok ?k" using assms(1) by (simp add: kbd_ok_def)
  have f: "fill ?k = n"
    using n b ne unfolding fill_cases [OF ok] fill_cases [OF assms(1)] by (auto simp: mod_if split: if_splits)
  have "events k = map (\<lambda>i. keyboardBuffer k ! ((kb_buf_tail k + i) mod 128)) (0 # map Suc [0..<n])"
    using n by (simp add: events_def fill_def upt_conv_Cons map_Suc_upt del: upt_Suc)
  then have ev: "v = keyboardBuffer k ! kb_buf_tail k"
    "vs = map (\<lambda>i. keyboardBuffer k ! ((kb_buf_tail k + Suc i) mod 128)) [0..<n]"
    using assms(2) b by (simp_all add: comp_def)
  have "events ?k = vs"
    using f unfolding ev(2) events_def by (simp add: fill_def mod_add_left_eq)
  then show ?thesis using ne ok ev(1) by (simp add: pop_key_event_def KEYBOARD_BUFFER_SIZE_def)
qed

interpretation ring: bounded_fifo 127 push_key_event pop_key_event events kbd_ok
proof unfold_locales
  fix k ev
  assume "kbd_ok k"
  then show "kbd_ok (push_key_event ev k)
      \<and> events (push_key_event ev k) = (if length (events k) < 127 then events k @ [ev] else events k)"
    using push_ok push_events by simp
next
  fix k
  assume "kbd_ok k" "events k = []"
  then have "fill k = 0" using length_events [of k] by simp
  then show "pop_key_event k = None"
    using \<open>kbd_ok k\<close> head_slot [of k] by (simp add: pop_key_event_def kbd_ok_def)
next
  fix k v vs
  assume "kbd_ok k" "events k = v # vs"
  then show "\<exists>k'. pop_key_event k = Some (v, k') \<and> kbd_ok k' \<and> events k' = vs"
    by (rule pop_events)
qed

section \<open>Properties\<close>

text \<open>
  C21: the key event buffer is a first-in first-out queue of 127 events.  Whatever the buffer
  holds and wherever in the array it stands, after a burst of new events the reader gets the
  events that were there, then the new ones in order, up to 127; later ones are dropped, and no
  event is lost or overwritten.
\<close>

theorem keyboard_buffer_fifo:
  assumes "kbd_ok k"
  shows "drain pop_key_event 127 (fold push_key_event evs k) = take 127 (events k @ evs)"
proof (rule ring.burst [OF assms])
  have "fill k < 128" by (simp add: fill_def)
  then show "length (events k) \<le> 127" by simp
qed

text \<open>An empty buffer that stands at slot 127.\<close>

definition demo_kbd :: kbd where
  "demo_kbd = \<lparr>keyboardBuffer = replicate 128 \<lparr>character = 0, pressed = False\<rparr>, kb_buf_head = 127,
     kb_buf_tail = 127, shift_on = False, capsLock_on = False, is_extended = False\<rparr>"

theorem keyboard_buffer_fifo_witness:
  "drain pop_key_event 127 (fold push_key_event (replicate 130 \<lparr>character = 65, pressed = True\<rparr>) demo_kbd)
    = replicate 127 \<lparr>character = 65, pressed = True\<rparr>"
proof -
  have "kbd_ok demo_kbd" by (simp add: kbd_ok_def demo_kbd_def)
  from keyboard_buffer_fifo [OF this, of "replicate 130 \<lparr>character = 65, pressed = True\<rparr>"]
  show ?thesis by (simp add: events_def demo_kbd_def)
qed

lemma chc_small [simp]: "chc c < 0xF0000000"
proof -
  have "cv c mod 4294967296 \<le> cv c" by simp
  then have "cv c mod 4294967296 < 4026531840" using cv_less_256 [of c] by linarith
  then show ?thesis by (simp add: chc_def word_less_nat_alt unat_of_nat)
qed

lemma tables_length: "length lowercase = 128" "length uppercase = 128"
  by (simp_all add: lowercase_def uppercase_def)

lemma special_keys:
  "list_all (\<lambda>(l, u). \<not> l < 0xF0000000 \<and> \<not> u < 0xF0000000 \<longrightarrow> l = u) (zip lowercase uppercase)"
  by (simp add: lowercase_def uppercase_def)

text \<open>
  The character of a key is taken from the table of capitals exactly when one of shift and
  caps lock is on, for every key of the tables and not only for the letters: with caps lock on
  and shift not pressed the digit keys give their symbols, and the keys without a character
  have the same code in both tables.
\<close>

lemma caps_lock_affects_every_key:
  "get_terminal_key scancode shift caps =
     (if 128 \<le> scancode then UNKNOWN
      else (if shift \<noteq> caps then uppercase else lowercase) ! unat scancode)
   \<and> get_terminal_key 2 False True = chc (CHR ''!'') \<and> get_terminal_key 2 True True = chc (CHR ''1'')"
proof -
  have special: "lowercase ! unat scancode = uppercase ! unat scancode"
    if "\<not> 128 \<le> scancode" "\<not> (lowercase ! unat scancode < 0xF0000000 \<or> uppercase ! unat scancode < 0xF0000000)"
  proof -
    have "unat scancode < 128" using that(1) by (simp add: word_le_nat_alt)
    then show ?thesis
      using special_keys tables_length that(2) unfolding list_all_length
      by (auto dest: spec [of _ "unat scancode"])
  qed
  have "get_terminal_key 2 False True = chc (CHR ''!'')" "get_terminal_key 2 True True = chc (CHR ''1'')"
    by (simp_all add: get_terminal_key_def lowercase_def uppercase_def chc_def cv_def)
  then show ?thesis
    using special by (auto simp: get_terminal_key_def Let_def)
qed

end
