(* ===== verification/Clock.thy ===== *)
theory Clock
  imports MathUtil StringUtil
begin

text \<open>
  Time: the CMOS clock and its UNIX timestamps (\<open>src/kernel/drivers/rtc.cpp\<close>), and the delay and
  uptime of the programmable interval timer (\<open>src/kernel/drivers/pit.cpp\<close>; its interrupt is in
  theory \<open>Scheduler\<close>).  The CMOS registers are a function from register numbers to bytes.
\<close>

section \<open>The CMOS clock\<close>

definition bcd_to_bin :: "u8 \<Rightarrow> u8" where
  "bcd_to_bin val = drop_bit 4 val * 10 + (val AND 0x0F)"

definition get_year :: "(u8 \<Rightarrow> u8) \<Rightarrow> u8" where "get_year cmos = bcd_to_bin (cmos 0x09)"
definition get_month :: "(u8 \<Rightarrow> u8) \<Rightarrow> u8" where "get_month cmos = bcd_to_bin (cmos 0x08)"
definition get_day :: "(u8 \<Rightarrow> u8) \<Rightarrow> u8" where "get_day cmos = bcd_to_bin (cmos 0x07)"
definition get_weekday :: "(u8 \<Rightarrow> u8) \<Rightarrow> u8" where "get_weekday cmos = bcd_to_bin (cmos 0x06)"
definition get_hour :: "(u8 \<Rightarrow> u8) \<Rightarrow> u8" where "get_hour cmos = bcd_to_bin (cmos 0x04)"
definition get_minute :: "(u8 \<Rightarrow> u8) \<Rightarrow> u8" where "get_minute cmos = bcd_to_bin (cmos 0x02)"
definition get_second :: "(u8 \<Rightarrow> u8) \<Rightarrow> u8" where "get_second cmos = bcd_to_bin (cmos 0x00)"

definition is_leap :: "nat \<Rightarrow> bool" where
  "is_leap year \<longleftrightarrow> year mod 4 = 0 \<and> (year mod 100 \<noteq> 0 \<or> year mod 400 = 0)"

definition days_before_month :: "nat list" where
  "days_before_month = [0, 31, 59, 90, 120, 151, 181, 212, 243, 273, 304, 334]"

text \<open>A month of 0 or above 12 reads outside the table: \<open>None\<close>.\<close>

definition get_unix_timestamp :: "(u8 \<Rightarrow> u8) \<Rightarrow> u32 option" where
  "get_unix_timestamp cmos =
     (let sec = unat (get_second cmos); mins = unat (get_minute cmos); hour = unat (get_hour cmos);
          day = get_day cmos; month = unat (get_month cmos); yy = unat (get_year cmos);
          year = (if yy < 70 then yy + 2000 else yy + 1900);
          days0 = of_int (int (year - 1970) * 365 + int ((year - 1969) div 4)
            - int ((year - 1901) div 100) + int ((year - 1601) div 400)) :: u32
      in if month = 0 \<or> 12 < month then None
         else let days1 = days0 + of_nat (days_before_month ! (month - 1));
                  days2 = (if is_leap year \<and> 2 < month then days1 + 1 else days1);
                  days3 = days2 + (ucast day - 1)
              in Some (((days3 * 24 + of_nat hour) * 60 + of_nat mins) * 60 + of_nat sec))"

definition days_in_year :: "nat \<Rightarrow> nat" where
  "days_in_year year = (if is_leap year then 366 else 365)"

function year_loop :: "nat \<Rightarrow> nat \<Rightarrow> nat \<times> nat" where
  "year_loop days year =
     (if days_in_year year \<le> days then year_loop (days - days_in_year year) (year + 1) else (year, days))"
  by pat_completeness auto

termination
  by (relation "measure fst") (auto simp: days_in_year_def split: if_splits)

definition days_in_month :: "nat list" where
  "days_in_month = [31, 28, 31, 30, 31, 30, 31, 31, 30, 31, 30, 31]"

definition dim :: "bool \<Rightarrow> nat \<Rightarrow> nat" where
  "dim leap month = days_in_month ! month + (if leap \<and> month = 1 then 1 else 0)"

function month_loop :: "bool \<Rightarrow> nat \<Rightarrow> nat \<Rightarrow> nat \<times> nat" where
  "month_loop leap days month =
     (if month < 12 \<and> dim leap month \<le> days then month_loop leap (days - dim leap month) (month + 1)
      else (month, days))"
  by pat_completeness auto

termination
  by (relation "measure (\<lambda>(leap, days, month). 12 - month)") auto

declare year_loop.simps [simp del] month_loop.simps [simp del]

text \<open>\<open>append_number\<close>: the last \<open>width\<close> decimal digits.\<close>

fun append_number :: "nat \<Rightarrow> nat \<Rightarrow> string" where
  "append_number num 0 = []"
| "append_number num (Suc width) = append_number (num div 10) width @ [char_of (48 + num mod 10)]"

definition date_string :: "nat \<Rightarrow> nat \<Rightarrow> nat \<Rightarrow> nat \<Rightarrow> nat \<Rightarrow> nat \<Rightarrow> string" where
  "date_string year month day hours minutes seconds =
     append_number year 4 @ ''-'' @ append_number month 2 @ ''-'' @ append_number day 2 @ '' ''
       @ append_number hours 2 @ '':'' @ append_number minutes 2 @ '':'' @ append_number seconds 2"

definition timestamp_to_string :: "u32 \<Rightarrow> string" where
  "timestamp_to_string ts =
     (let seconds = unat ts mod 60; ts1 = unat ts div 60;
          minutes = ts1 mod 60; ts2 = ts1 div 60;
          hours = ts2 mod 24; days = ts2 div 24;
          (year, days') = year_loop days 1970;
          (month, days'') = month_loop (is_leap year) days' 0;
          day = days'' + 1
      in date_string year (month + 1) day hours minutes seconds)"

definition get_time :: "(u8 \<Rightarrow> u8) \<Rightarrow> string option" where
  "get_time cmos =
     strcat (strcat (strcat (strcat (strcat (Some []) (num_to_string_u (get_hour cmos))) (Some '':''))
       (num_to_string_u (get_minute cmos))) (Some '':'')) (num_to_string_u (get_second cmos))"

section \<open>The interval timer\<close>

definition frequency :: u32 where "frequency = 1000"

text \<open>The bytes \<open>pit::init\<close> writes, as pairs of port and value.\<close>

definition pit_init_writes :: "(u16 \<times> u8) list" where
  "pit_init_writes =
     (let divisor = 1193182 div frequency in
      [(0x43, 0x36), (0x40, ucast (divisor AND 0xFF)), (0x40, ucast (drop_bit 8 divisor AND 0xFF))])"

text \<open>The tick count \<open>pit::delay\<close> waits for; \<open>start\<close> is a \<open>uint32_t\<close>.\<close>

definition delay_target :: "u64 \<Rightarrow> u64 \<Rightarrow> u64" where
  "delay_target ticks ms = ucast (ucast ticks :: u32) + udiv64 (ms * ucast frequency) 1000"

definition delay_done :: "u64 \<Rightarrow> u64 \<Rightarrow> u64 \<Rightarrow> bool" where
  "delay_done ticks0 ms ticks \<longleftrightarrow> \<not> ticks < delay_target ticks0 ms"

definition getuptime :: "u64 \<Rightarrow> u64 \<times> u64 \<times> u64" where
  "getuptime ticks =
     (let total_seconds = udiv64 ticks (ucast frequency) in
      (udiv64 total_seconds 3600, udiv64 (umod64 total_seconds 3600) 60, umod64 total_seconds 60))"

section \<open>Years and months\<close>

definition days_to_year :: "nat \<Rightarrow> nat" where
  "days_to_year year = (year - 1970) * 365 + (year - 1969) div 4 - (year - 1901) div 100 + (year - 1601) div 400"

lemma div_next: "0 < k \<Longrightarrow> (n + 1) div k = n div k + (if (n + 1) mod k = 0 then 1 else (0 :: nat))"
  by (simp add: div_Suc mod_Suc)

lemma days_to_year_next:
  assumes "1970 \<le> y"
  shows "days_to_year (y + 1) = days_to_year y + days_in_year y"
proof -
  obtain n where y: "y = n + 1970" using assms by (metis le_add_diff_inverse2)
  have a: "(n + 2) div 4 = (n + 1) div 4 + (if y mod 4 = 0 then 1 else 0)"
  proof -
    have "(n + 1 + 1) mod 4 = 0 \<longleftrightarrow> y mod 4 = 0" unfolding y by presburger
    then show ?thesis using div_next [of 4 "n + 1"] by simp
  qed
  have b: "(n + 70) div 100 = (n + 69) div 100 + (if y mod 100 = 0 then 1 else 0)"
  proof -
    have "(n + 69 + 1) mod 100 = 0 \<longleftrightarrow> y mod 100 = 0"
      unfolding y using mod_mult_self1 [of "n + 70" 19 100] by (simp add: add.commute)
    then show ?thesis using div_next [of 100 "n + 69"] by simp
  qed
  have c: "(n + 370) div 400 = (n + 369) div 400 + (if y mod 400 = 0 then 1 else 0)"
  proof -
    have "(n + 369 + 1) mod 400 = 0 \<longleftrightarrow> y mod 400 = 0"
      unfolding y using mod_mult_self1 [of "n + 370" 4 400] by (simp add: add.commute)
    then show ?thesis using div_next [of 400 "n + 369"] by simp
  qed
  have d: "y mod 400 = 0 \<Longrightarrow> y mod 100 = 0" "y mod 100 = 0 \<Longrightarrow> y mod 4 = 0"
    by (auto simp: mod_eq_0_iff_dvd elim: dvd_trans [rotated])
  have le: "(n + 69) div 100 \<le> n * 365 + (n + 1) div 4" by linarith
  have e: "days_to_year (y + 1) = (n + 1) * 365 + (n + 2) div 4 - (n + 70) div 100 + (n + 370) div 400"
    "days_to_year y = n * 365 + (n + 1) div 4 - (n + 69) div 100 + (n + 369) div 400"
    by (simp_all add: days_to_year_def y add.commute)
  define A B C where "A = (n + 1) div 4" and "B = (n + 69) div 100" and "C = (n + 369) div 400"
  have le: "B \<le> n * 365 + A" using le by (simp add: A_def B_def)
  show ?thesis
    unfolding e a b c days_in_year_def is_leap_def A_def [symmetric] B_def [symmetric] C_def [symmetric]
    by (cases "y mod 4 = 0"; cases "y mod 100 = 0"; cases "y mod 400 = 0") (use d le in simp_all)
qed

lemma year_loop_skip: "year_loop (days_to_year (1970 + n) + k) 1970 = year_loop k (1970 + n)"
proof (induction n arbitrary: k)
  case 0
  then show ?case by (simp add: days_to_year_def)
next
  case (Suc n)
  have "days_to_year (1970 + Suc n) + k = days_to_year (1970 + n) + (days_in_year (1970 + n) + k)"
    using days_to_year_next [of "1970 + n"] by (simp add: add.assoc)
  then show ?case
    using Suc [of "days_in_year (1970 + n) + k"] year_loop.simps [of "days_in_year (1970 + n) + k" "1970 + n"]
    by (simp add: add.assoc)
qed

definition days_to_month :: "bool \<Rightarrow> nat \<Rightarrow> nat" where
  "days_to_month leap month = days_before_month ! month + (if leap \<and> 2 \<le> month then 1 else 0)"

lemma month_cases: "month < 12 \<Longrightarrow> month \<in> {0, 1, 2, 3, 4, 5, 6, 7, 8, 9, 10, 11 :: nat}"
  by (simp only: insert_iff empty_iff) presburger

lemma days_to_month_next: "m < 11 \<Longrightarrow> days_to_month leap (Suc m) = days_to_month leap m + dim leap m"
  using month_cases [of m] by (auto simp: days_to_month_def dim_def days_before_month_def days_in_month_def)

lemma month_loop_skip: "m < 12 \<Longrightarrow> month_loop leap (days_to_month leap m + k) 0 = month_loop leap k m"
proof (induction m arbitrary: k)
  case 0
  then show ?case by (simp add: days_to_month_def days_before_month_def)
next
  case (Suc m)
  then show ?case
    using days_to_month_next [of m leap] Suc.IH [of "dim leap m + k"]
      month_loop.simps [of leap "dim leap m + k" m] by (simp add: add.assoc)
qed

section \<open>Timestamps\<close>

text \<open>The register that shows \<open>n\<close> in binary coded decimal.\<close>

definition bcd :: "nat \<Rightarrow> u8" where
  "bcd n = of_nat (n div 10 * 16 + n mod 10)"

lemma bcd_roundtrip:
  assumes "n < 100"
  shows "unat (bcd_to_bin (bcd n)) = n"
proof -
  have "list_all (\<lambda>n. unat (bcd_to_bin (of_nat (n div 10 * 16 + n mod 10))) = n) [0..<100]"
    unfolding bcd_to_bin_def by code_simp
  then show ?thesis using assms by (simp add: list_all_iff bcd_def)
qed

lemma month_days: "m < 12 \<Longrightarrow> days_to_month leap m + dim leap m \<le> 366"
  using month_cases [of m] by (auto simp: days_to_month_def dim_def days_before_month_def days_in_month_def)

lemma month_fits:
  "m < 12 \<Longrightarrow> d \<le> dim (is_leap y) m \<Longrightarrow> 1 \<le> d \<Longrightarrow> days_to_month (is_leap y) m + (d - 1) < days_in_year y"
  using month_cases [of m]
  by (auto simp: days_to_month_def dim_def days_before_month_def days_in_month_def days_in_year_def)

lemma days_to_year_bound: "1970 \<le> y \<Longrightarrow> y \<le> 2069 \<Longrightarrow> days_to_year y \<le> 36200"
proof -
  assume y: "1970 \<le> y" "y \<le> 2069"
  then have "(y - 1970) * 365 \<le> 99 * 365" "(y - 1969) div 4 \<le> 25" "(y - 1601) div 400 \<le> 1"
    by (auto intro: div_le_mono [THEN order_trans])
  then show ?thesis unfolding days_to_year_def by linarith
qed

text \<open>The date and time a count of seconds since 1970 stands for.\<close>

definition seconds_of :: "nat \<Rightarrow> nat \<Rightarrow> nat \<Rightarrow> nat \<Rightarrow> nat \<Rightarrow> nat \<Rightarrow> nat" where
  "seconds_of y mo d h mi s =
     (((days_to_year y + days_to_month (is_leap y) (mo - 1) + (d - 1)) * 24 + h) * 60 + mi) * 60 + s"

definition valid_date :: "nat \<Rightarrow> nat \<Rightarrow> nat \<Rightarrow> nat \<Rightarrow> nat \<Rightarrow> nat \<Rightarrow> bool" where
  "valid_date y mo d h mi s \<longleftrightarrow> 1970 \<le> y \<and> y \<le> 2069 \<and> 1 \<le> mo \<and> mo \<le> 12
     \<and> 1 \<le> d \<and> d \<le> dim (is_leap y) (mo - 1) \<and> h < 24 \<and> mi < 60 \<and> s < 60"

lemma split_digit: "s < k \<Longrightarrow> (a * k + s) mod k = s" "s < k \<Longrightarrow> (a * k + s) div k = (a :: nat)"
  by simp_all

lemma timestamp_decodes:
  assumes "valid_date y mo d h mi s" and "unat ts = seconds_of y mo d h mi s"
  shows "timestamp_to_string ts = date_string y mo d h mi s"
proof -
  note v = assms(1) [unfolded valid_date_def]
  define D where "D = days_to_year y + days_to_month (is_leap y) (mo - 1) + (d - 1)"
  have ts: "unat ts = ((D * 24 + h) * 60 + mi) * 60 + s" using assms(2) by (simp add: seconds_of_def D_def)
  have q: "unat ts mod 60 = s" "unat ts div 60 = (D * 24 + h) * 60 + mi"
    "((D * 24 + h) * 60 + mi) mod 60 = mi" "((D * 24 + h) * 60 + mi) div 60 = D * 24 + h"
    "(D * 24 + h) mod 24 = h" "(D * 24 + h) div 24 = D"
    using v unfolding ts by (simp_all only: split_digit)
  have m12: "mo - 1 < 12" using v by auto
  let ?r = "days_to_month (is_leap y) (mo - 1) + (d - 1)"
  have "year_loop D 1970 = year_loop ?r y"
    using year_loop_skip [of "y - 1970" ?r] v by (simp add: D_def add.assoc)
  also have "\<dots> = (y, ?r)"
  proof -
    have "\<not> days_in_year y \<le> ?r" using month_fits [OF m12, of d y] v by simp
    then show ?thesis by (subst year_loop.simps) (rule if_not_P)
  qed
  finally have yl: "year_loop D 1970 = (y, ?r)" .
  have "month_loop (is_leap y) ?r 0 = month_loop (is_leap y) (d - 1) (mo - 1)"
    by (rule month_loop_skip [OF m12])
  also have "\<dots> = (mo - 1, d - 1)"
  proof -
    have "\<not> (mo - 1 < 12 \<and> dim (is_leap y) (mo - 1) \<le> d - 1)" using v by auto
    then show ?thesis by (subst month_loop.simps) (rule if_not_P)
  qed
  finally have ml: "month_loop (is_leap y) ?r 0 = (mo - 1, d - 1)" .
  show ?thesis
    unfolding timestamp_to_string_def Let_def q yl prod.case ml using v by simp
qed

lemma timestamp_encodes:
  assumes v: "valid_date y mo d h mi s" and "cmos 9 = bcd (y mod 100)" and "cmos 8 = bcd mo"
    and "cmos 7 = bcd d" and "cmos 4 = bcd h" and "cmos 2 = bcd mi" and "cmos 0 = bcd s"
  shows "\<exists>ts. get_unix_timestamp cmos = Some ts \<and> unat ts = seconds_of y mo d h mi s"
proof -
  note v = v [unfolded valid_date_def]
  have dim: "dim (is_leap y) (mo - 1) \<le> 31"
  proof -
    have "mo - 1 < 12" using v by auto
    from month_cases [OF this] show ?thesis by (auto simp: dim_def days_in_month_def)
  qed
  have reg: "unat (get_year cmos) = y mod 100" "unat (get_month cmos) = mo" "unat (get_day cmos) = d"
    "unat (get_hour cmos) = h" "unat (get_minute cmos) = mi" "unat (get_second cmos) = s"
    using assms v dim by (simp_all add: get_year_def get_month_def get_day_def get_hour_def get_minute_def
        get_second_def bcd_roundtrip)
  have year: "(if y mod 100 < 70 then y mod 100 + 2000 else y mod 100 + 1900) = y"
  proof (cases "y < 2000")
    case True
    then have "y mod 100 = y - 1900" using v by (intro mod_nat_eqI) auto
    then show ?thesis using v True by auto
  next
    case False
    then have "y mod 100 = y - 2000" using v by (intro mod_nat_eqI) auto
    then show ?thesis using v False by auto
  qed
  have "(y - 1901) div 100 \<le> (y - 1970) * 365 + (y - 1969) div 4"
    using v by linarith
  then have i: "int (y - 1970) * 365 + int ((y - 1969) div 4) - int ((y - 1901) div 100) + int ((y - 1601) div 400)
      = int (days_to_year y)"
    by (simp add: days_to_year_def of_nat_diff)
  have dm: "(if is_leap y \<and> 2 < mo then X + of_nat (days_before_month ! (mo - 1)) + 1
      else X + of_nat (days_before_month ! (mo - 1)))
      = X + (of_nat (days_to_month (is_leap y) (mo - 1)) :: u32)" for X
    using v by (auto simp: days_to_month_def)
  have day: "ucast (get_day cmos) - 1 = (of_nat (d - 1) :: u32)"
  proof -
    have "ucast (get_day cmos) = (of_nat d :: u32)"
      by (simp flip: reg(3))
    then show ?thesis using v by (simp add: of_nat_diff)
  qed
  define N where "N = seconds_of y mo d h mi s"
  have "get_unix_timestamp cmos = Some (of_nat N)"
    using v unfolding get_unix_timestamp_def Let_def reg year i dm day by (simp add: N_def seconds_of_def)
  moreover have "N < 2 ^ 32"
  proof -
    have "days_to_month (is_leap y) (mo - 1) + (d - 1) < 366 + 1"
    proof -
      have "mo - 1 < 12" using v by auto
      moreover have "days_in_year y \<le> 366" by (simp add: days_in_year_def)
      ultimately show ?thesis using month_fits [of "mo - 1" d y] v by linarith
    qed
    then have "days_to_year y + days_to_month (is_leap y) (mo - 1) + (d - 1) \<le> 36600"
      using days_to_year_bound [of y] v by linarith
    moreover have "h < 24" "mi < 60" "s < 60" using v by auto
    ultimately show ?thesis unfolding N_def seconds_of_def by simp
  qed
  ultimately show ?thesis by (auto simp: unat_of_nat N_def)
qed

text \<open>
  C22: for every date and time from 1970 to 2069 that the CMOS clock can show, the timestamp
  the clock is read as is the number of seconds since 1970 began, leap days included, it does
  not overflow 32 bits, and writing that timestamp out gives the same date and time again.
\<close>

theorem timestamp_roundtrip:
  assumes "valid_date y mo d h mi s" and "cmos 9 = bcd (y mod 100)" and "cmos 8 = bcd mo"
    and "cmos 7 = bcd d" and "cmos 4 = bcd h" and "cmos 2 = bcd mi" and "cmos 0 = bcd s"
  shows "\<exists>ts. get_unix_timestamp cmos = Some ts \<and> unat ts = seconds_of y mo d h mi s
    \<and> timestamp_to_string ts = date_string y mo d h mi s"
  using timestamp_encodes [OF assms] timestamp_decodes [OF assms(1)] by blast

lemma append_number_2: "append_number n 2 = [char_of (48 + n div 10 mod 10), char_of (48 + n mod 10)]"
  by (simp add: numeral_2_eq_2)

lemma append_number_4:
  "append_number n 4 = [char_of (48 + n div 1000 mod 10), char_of (48 + n div 100 mod 10),
     char_of (48 + n div 10 mod 10), char_of (48 + n mod 10)]"
proof -
  have "4 = Suc (Suc (Suc (Suc 0)))" by simp
  then show ?thesis by (simp only: append_number.simps) (simp add: div_mult2_eq [symmetric])
qed

definition demo_cmos :: "u8 \<Rightarrow> u8" where
  "demo_cmos r = (if r = 9 then 0x24 else if r = 8 then 0x02 else if r = 7 then 0x29
     else if r = 4 then 0x23 else if r = 2 then 0x59 else 0x58)"

theorem timestamp_roundtrip_witness:
  "\<exists>ts. get_unix_timestamp demo_cmos = Some ts \<and> timestamp_to_string ts = ''2024-02-29 23:59:58''"
proof -
  have "valid_date 2024 2 29 23 59 58"
    by (simp add: valid_date_def dim_def is_leap_def days_in_month_def)
  moreover have "demo_cmos 9 = bcd (2024 mod 100)" "demo_cmos 8 = bcd 2" "demo_cmos 7 = bcd 29"
    "demo_cmos 4 = bcd 23" "demo_cmos 2 = bcd 59" "demo_cmos 0 = bcd 58"
    by (simp_all add: demo_cmos_def bcd_def)
  ultimately have "\<exists>ts. get_unix_timestamp demo_cmos = Some ts \<and> unat ts = seconds_of 2024 2 29 23 59 58
    \<and> timestamp_to_string ts = date_string 2024 2 29 23 59 58"
    by (rule timestamp_roundtrip)
  moreover have "date_string 2024 2 29 23 59 58 = ''2024-02-29 23:59:58''"
    by (simp add: date_string_def append_number_2 append_number_4 char_of_def bit_numeral_rec bit_0)
  ultimately show ?thesis by auto
qed

section \<open>Delays\<close>

lemma delay_target_unat:
  assumes "unat ms * 1000 < 2 ^ 64"
  shows "unat (delay_target ticks0 ms) = unat ticks0 mod 2 ^ 32 + unat ms"
proof -
  have "unat (ms * 1000) = unat ms * 1000" using assms by (simp add: unat_mult_no_wrap)
  then have d: "unat (ms * 1000 div 1000) = unat ms" by (simp add: unat_div)
  have lo: "unat (ucast (ucast ticks0 :: u32) :: u64) = unat ticks0 mod 2 ^ 32"
    by (simp add: unsigned_ucast_eq take_bit_eq_mod unat_mod)
  have "unat ms < 2 ^ 64 div 1000 + 1" using assms by simp
  then have "unat (ucast (ucast ticks0 :: u32) :: u64) + unat (ms * 1000 div 1000) < 2 ^ 64"
    unfolding lo d using mod_less_divisor [of "2 ^ 32" "unat ticks0"] by simp
  then show ?thesis
    using lo d by (simp add: delay_target_def frequency_def unat_add_no_wrap)
qed

text \<open>
  The delay of the interval timer.  In the first \<open>2 ^ 32\<close> ticks after boot (1000 a second,
  just under 50 days) a delay of \<open>ms\<close> milliseconds ends when the tick count has grown by \<open>ms\<close>,
  and not before.  After that the start of the delay is cut to 32 bits, and a delay of less
  than \<open>2 ^ 32\<close> milliseconds ends at once when the cut start plus the delay is not above the tick
  count.
\<close>

lemma delay_waits:
  assumes "unat ms * 1000 < 2 ^ 64"
  shows "(unat ticks0 < 2 ^ 32 \<longrightarrow> (delay_done ticks0 ms ticks \<longleftrightarrow> unat ticks0 + unat ms \<le> unat ticks))
    \<and> (2 ^ 32 \<le> unat ticks0 \<and> unat ms \<le> unat ticks0 - unat ticks0 mod 2 ^ 32 \<longrightarrow> delay_done ticks0 ms ticks0)"
proof -
  have "unat ticks0 mod 2 ^ 32 \<le> unat ticks0" by simp
  then show ?thesis
    using delay_target_unat [OF assms, of ticks0]
    by (auto simp: delay_done_def word_less_nat_alt not_less)
qed

lemma delay_waits_witness:
  "\<not> delay_done 7 100 106 \<and> delay_done 7 100 107 \<and> delay_done 0x100000000 60000 0x100000000"
  using delay_waits [of 100 7 106] delay_waits [of 100 7 107] delay_waits [of 60000 "0x100000000" 0] by simp

end
