(* ===== verification/Bytes.thy ===== *)
theory Bytes
  imports Memory
begin

text \<open>
  Packed structures as the lists of their bytes: the fields of 16 and 32 bits at an offset, little
  endian, and the copy of some bytes into a buffer, all inside the buffer.
\<close>

definition get16 :: "nat \<Rightarrow> u8 list \<Rightarrow> u16" where
  "get16 off d = ucast (d ! off) OR push_bit 8 (ucast (d ! (off + 1)))"

definition put16 :: "nat \<Rightarrow> u16 \<Rightarrow> u8 list \<Rightarrow> u8 list" where
  "put16 off v d = d[off := ucast v, off + 1 := ucast (drop_bit 8 v)]"

definition put32 :: "nat \<Rightarrow> u32 \<Rightarrow> u8 list \<Rightarrow> u8 list" where
  "put32 off v d = d[off := ucast v, off + 1 := ucast (drop_bit 8 v),
     off + 2 := ucast (drop_bit 16 v), off + 3 := ucast (drop_bit 24 v)]"

definition get32 :: "nat \<Rightarrow> u8 list \<Rightarrow> u32" where
  "get32 off d = ucast (d ! off) OR push_bit 8 (ucast (d ! (off + 1)))
     OR push_bit 16 (ucast (d ! (off + 2))) OR push_bit 24 (ucast (d ! (off + 3)))"

definition get_bytes :: "nat \<Rightarrow> nat \<Rightarrow> u8 list \<Rightarrow> u8 list" where
  "get_bytes off n d = take n (drop off d)"

definition put_bytes :: "nat \<Rightarrow> u8 list \<Rightarrow> u8 list \<Rightarrow> u8 list" where
  "put_bytes off bs d = take off d @ bs @ drop (off + length bs) d"

lemma length_put32 [simp]: "length (put32 off v d) = length d"
  by (simp add: put32_def)

lemma put32_nth:
  "i < length d \<Longrightarrow> i < off \<or> off + 4 \<le> i \<Longrightarrow> put32 off v d ! i = d ! i"
  by (auto simp: put32_def)

lemma get32_put32 [simp]: "off + 4 \<le> length d \<Longrightarrow> get32 off (put32 off v d) = v"
  using bytes_of_word [of v] by (simp add: get32_def put32_def)

lemma get32_cong:
  "(\<And>i. off \<le> i \<Longrightarrow> i < off + 4 \<Longrightarrow> d ! i = d' ! i) \<Longrightarrow> get32 off d = get32 off d'"
  by (simp add: get32_def)

lemma halves_of_word16:
  "ucast (ucast (v :: u16) :: u8) OR push_bit 8 (ucast (ucast (drop_bit 8 v) :: u8)) = v"
proof (rule bit_eqI)
  fix n
  assume "possible_bit TYPE(16 word) n"
  then have n: "n < 16" by simp
  have r: "8 \<le> n \<Longrightarrow> (n - 8) + 8 = n" by simp
  show "bit (ucast (ucast (v :: u16) :: u8) OR push_bit 8 (ucast (ucast (drop_bit 8 v) :: u8)) :: u16) n = bit v n"
    using n r by (cases "n < 8") (auto simp: bit_simps)
qed

lemma length_put16 [simp]: "length (put16 off v d) = length d"
  by (simp add: put16_def)

lemma get16_put16 [simp]: "off + 2 \<le> length d \<Longrightarrow> get16 off (put16 off v d) = v"
  using halves_of_word16 [of v] by (simp add: get16_def put16_def)

lemma put16_nth: "i < off \<or> off + 2 \<le> i \<Longrightarrow> put16 off v d ! i = d ! i"
  by (auto simp: put16_def)

lemma get16_cong:
  "d ! off = d' ! off \<Longrightarrow> d ! (off + 1) = d' ! (off + 1) \<Longrightarrow> get16 off d = get16 off d'"
  by (simp add: get16_def)

text \<open>A field is not changed by a store to bytes outside it.\<close>

lemma fields_apart [simp]:
  "a + 4 \<le> b \<or> b + 4 \<le> a \<Longrightarrow> get32 a (put32 b v d) = get32 a d"
  "a + 4 \<le> b \<or> b + 2 \<le> a \<Longrightarrow> get32 a (put16 b w d) = get32 a d"
  "a + 2 \<le> b \<or> b + 4 \<le> a \<Longrightarrow> get16 a (put32 b v d) = get16 a d"
  "a + 2 \<le> b \<or> b + 2 \<le> a \<Longrightarrow> get16 a (put16 b w d) = get16 a d"
  by (auto simp: get32_def put32_def get16_def put16_def)

lemma get_put_bytes:
  "off + length bs \<le> length d \<Longrightarrow> get_bytes off (length bs) (put_bytes off bs d) = bs"
  by (simp add: get_bytes_def put_bytes_def)

lemma length_put_bytes [simp]:
  "off + length bs \<le> length d \<Longrightarrow> length (put_bytes off bs d) = length d"
  by (simp add: put_bytes_def)

lemma put_bytes_nth:
  "off + length bs \<le> length d \<Longrightarrow> i < length d \<Longrightarrow>
   put_bytes off bs d ! i = (if off \<le> i \<and> i < off + length bs then bs ! (i - off) else d ! i)"
  by (simp add: put_bytes_def nth_append) (auto simp: not_less)

lemma get_bytes_apart:
  assumes "off + length bs \<le> length d" and "a + n \<le> off \<or> off + length bs \<le> a" and "a + n \<le> length d"
  shows "get_bytes a n (put_bytes off bs d) = get_bytes a n d"
proof (rule nth_equalityI)
  show "length (get_bytes a n (put_bytes off bs d)) = length (get_bytes a n d)"
    using assms(1) by (simp add: get_bytes_def)
  fix i
  assume "i < length (get_bytes a n (put_bytes off bs d))"
  then have "i < n" "a + i < length d" using assms(1) by (auto simp: get_bytes_def)
  then show "get_bytes a n (put_bytes off bs d) ! i = get_bytes a n d ! i"
    using assms by (auto simp: get_bytes_def put_bytes_nth)
qed

end
