(* ===== verification/Ata.thy ===== *)
theory Ata
  imports Bytes
begin

text \<open>
  \<open>src/kernel/drivers/ata.cpp\<close> with its registers in \<open>include/drivers/ata.hpp\<close>, and the ATA part
  of \<open>src/kernel/device.cpp\<close>.  What the hardware answers is an input: the bytes and words the
  ports give, in the order they are read, and when interrupts arrive; what the driver writes to
  ports is recorded.  A polling loop that runs out of answers gives \<open>None\<close>: it is still waiting.
\<close>

section \<open>Ports\<close>

datatype bus = Primary | Secondary
datatype drive = Master | Slave

definition data_port :: "bus \<Rightarrow> u16" where
  "data_port b = (case b of Secondary \<Rightarrow> 0x170 | Primary \<Rightarrow> 0x1F0)"
definition sector_count_port :: "bus \<Rightarrow> u16" where
  "sector_count_port b = (case b of Secondary \<Rightarrow> 0x172 | Primary \<Rightarrow> 0x1F2)"
definition sector_num_port :: "bus \<Rightarrow> u16" where
  "sector_num_port b = (case b of Secondary \<Rightarrow> 0x173 | Primary \<Rightarrow> 0x1F3)"
definition lba_low_port :: "bus \<Rightarrow> u16" where
  "lba_low_port b = (case b of Secondary \<Rightarrow> 0x174 | Primary \<Rightarrow> 0x1F4)"
definition lba_high_port :: "bus \<Rightarrow> u16" where
  "lba_high_port b = (case b of Secondary \<Rightarrow> 0x175 | Primary \<Rightarrow> 0x1F5)"
definition drive_head_port :: "bus \<Rightarrow> u16" where
  "drive_head_port b = (case b of Secondary \<Rightarrow> 0x176 | Primary \<Rightarrow> 0x1F6)"
definition command_port :: "bus \<Rightarrow> u16" where
  "command_port b = (case b of Secondary \<Rightarrow> 0x177 | Primary \<Rightarrow> 0x1F7)"
definition device_control_port :: "bus \<Rightarrow> u16" where
  "device_control_port b = (case b of Secondary \<Rightarrow> 0x376 | Primary \<Rightarrow> 0x3F6)"

definition IDENTIFY_COMMAND :: u8 where "IDENTIFY_COMMAND = 0xEC"
definition READ_SECTOR_COMMAND :: u8 where "READ_SECTOR_COMMAND = 0x20"
definition WRITE_SECTOR_COMMAND :: u8 where "WRITE_SECTOR_COMMAND = 0x30"

text \<open>
  \<open>outs\<close> is what has been written, oldest first; \<open>bytes_in\<close> and \<open>words_in\<close> are the answers to
  come.  \<open>arrivals\<close> has, for each wait that finds no interrupt, the number of milliseconds after
  which it arrives, if it does.
\<close>

record hw =
  outs :: "(u16 \<times> u16) list"
  bytes_in :: "u8 list"
  words_in :: "u16 list"
  arrivals :: "nat option list"
  primary_irq_received :: bool
  secondary_irq_received :: bool

definition outB :: "u16 \<Rightarrow> u8 \<Rightarrow> hw \<Rightarrow> hw" where
  "outB p v h = h\<lparr>outs := outs h @ [(p, ucast v)]\<rparr>"

definition outW :: "u16 \<Rightarrow> u16 \<Rightarrow> hw \<Rightarrow> hw" where
  "outW p v h = h\<lparr>outs := outs h @ [(p, v)]\<rparr>"

definition inB :: "hw \<Rightarrow> (u8 \<times> hw) option" where
  "inB h = (case bytes_in h of [] \<Rightarrow> None | b # bs \<Rightarrow> Some (b, h\<lparr>bytes_in := bs\<rparr>))"

definition inW :: "hw \<Rightarrow> (u16 \<times> hw) option" where
  "inW h = (case words_in h of [] \<Rightarrow> None | w # ws \<Rightarrow> Some (w, h\<lparr>words_in := ws\<rparr>))"

section \<open>Waiting\<close>

definition irq_flag :: "bus \<Rightarrow> hw \<Rightarrow> bool" where
  "irq_flag b h = (case b of Secondary \<Rightarrow> secondary_irq_received h | Primary \<Rightarrow> primary_irq_received h)"

definition set_irq_flag :: "bus \<Rightarrow> bool \<Rightarrow> hw \<Rightarrow> hw" where
  "set_irq_flag b v h = (case b of Secondary \<Rightarrow> h\<lparr>secondary_irq_received := v\<rparr>
     | Primary \<Rightarrow> h\<lparr>primary_irq_received := v\<rparr>)"

definition ata_handler :: "bus \<Rightarrow> hw \<Rightarrow> hw" where
  "ata_handler b h = set_irq_flag b True h"

text \<open>
  The loop of \<open>ata_irq_wait\<close>: \<open>k\<close> is the number of milliseconds until the interrupt, if any.  The
  result says whether it came before the counter reached 0.
\<close>

fun irq_wait_loop :: "nat \<Rightarrow> nat option \<Rightarrow> bool" where
  "irq_wait_loop timeout (Some 0) = True"
| "irq_wait_loop timeout (Some (Suc k)) = (1 < timeout \<and> irq_wait_loop (timeout - 1) (Some k))"
| "irq_wait_loop timeout None = False"

definition ata_irq_wait :: "bus \<Rightarrow> hw \<Rightarrow> hw" where
  "ata_irq_wait b h =
     (if irq_flag b h then set_irq_flag b False h
      else case arrivals h of [] \<Rightarrow> h
        | a # as \<Rightarrow> let h1 = h\<lparr>arrivals := as\<rparr> in
            if irq_wait_loop 2000 a then set_irq_flag b False (ata_handler b h1) else h1)"

fun read_statuses :: "nat \<Rightarrow> hw \<Rightarrow> hw option" where
  "read_statuses 0 h = Some h"
| "read_statuses (Suc n) h = (case inB h of None \<Rightarrow> None | Some (_, h1) \<Rightarrow> read_statuses n h1)"

definition delay_400ns :: "hw \<Rightarrow> hw option" where
  "delay_400ns h = read_statuses 4 h"

text \<open>Reading the status until a condition on it holds: the answer, and what is left.\<close>

fun poll :: "(u8 \<Rightarrow> bool) \<Rightarrow> u8 list \<Rightarrow> (u8 \<times> u8 list) option" where
  "poll P [] = None"
| "poll P (s # ss) = (if P s then Some (s, ss) else poll P ss)"

definition poll_hw :: "(u8 \<Rightarrow> bool) \<Rightarrow> hw \<Rightarrow> (u8 \<times> hw) option" where
  "poll_hw P h = (case poll P (bytes_in h) of None \<Rightarrow> None
     | Some (s, ss) \<Rightarrow> Some (s, h\<lparr>bytes_in := ss\<rparr>))"

fun read_words :: "nat \<Rightarrow> hw \<Rightarrow> (u16 list \<times> hw) option" where
  "read_words 0 h = Some ([], h)"
| "read_words (Suc n) h = (case inW h of None \<Rightarrow> None
     | Some (w, h1) \<Rightarrow> (case read_words n h1 of None \<Rightarrow> None | Some (ws, h2) \<Rightarrow> Some (w # ws, h2)))"

fun write_words :: "u16 \<Rightarrow> u16 list \<Rightarrow> hw \<Rightarrow> hw" where
  "write_words p [] h = h"
| "write_words p (w # ws) h = write_words p ws (outW p w h)"

section \<open>Transfers\<close>

definition drive_head :: "drive \<Rightarrow> u32 \<Rightarrow> u8" where
  "drive_head d lba = (case d of Slave \<Rightarrow> 0xF0 | Master \<Rightarrow> 0xE0) OR (ucast (drop_bit 24 lba) AND 0x0F)"

definition read_one_sector :: "bus \<Rightarrow> drive \<Rightarrow> u32 \<Rightarrow> hw \<Rightarrow> (u16 list \<times> hw) option" where
  "read_one_sector b d lba h =
     (let h1 = outB (drive_head_port b) (drive_head d lba) h;
          h2 = outB (sector_count_port b) 1 h1;
          h3 = outB (sector_num_port b) (ucast lba) h2;
          h4 = outB (lba_low_port b) (ucast (drop_bit 8 lba)) h3;
          h5 = outB (lba_high_port b) (ucast (drop_bit 16 lba)) h4;
          h6 = outB (command_port b) READ_SECTOR_COMMAND h5;
          h7 = ata_irq_wait b h6
      in case poll_hw (\<lambda>s. s AND 0x80 = 0) h7 of None \<Rightarrow> None
         | Some (_, h8) \<Rightarrow> (case poll_hw (\<lambda>s. s AND 0x8 \<noteq> 0) h8 of None \<Rightarrow> None
           | Some (_, h9) \<Rightarrow> read_words 256 h9))"

fun read_sectors :: "bus \<Rightarrow> drive \<Rightarrow> u32 \<Rightarrow> nat \<Rightarrow> hw \<Rightarrow> (u16 list \<times> hw) option" where
  "read_sectors b d lba 0 h = Some ([], h)"
| "read_sectors b d lba (Suc n) h =
     (case read_one_sector b d lba h of None \<Rightarrow> None
      | Some (ws, h1) \<Rightarrow> (case read_sectors b d (lba + 1) n h1 of None \<Rightarrow> None
        | Some (ws', h2) \<Rightarrow> Some (ws @ ws', h2)))"

text \<open>
  The write's polling loop ends with an error (ERR or DF set), or ready.  The error is not
  handed to the caller.
\<close>

definition write_failed :: "u8 \<Rightarrow> bool" where
  "write_failed s \<longleftrightarrow> s AND 0x01 \<noteq> 0 \<or> s AND 0x20 \<noteq> 0"

definition write_waits :: "u8 \<Rightarrow> bool" where
  "write_waits s \<longleftrightarrow> s AND 0x80 \<noteq> 0 \<or> s AND 0x08 = 0"

definition write_one_sector :: "bus \<Rightarrow> drive \<Rightarrow> u32 \<Rightarrow> u16 list \<Rightarrow> hw \<Rightarrow> hw option" where
  "write_one_sector b d lba buffer h =
     (let h1 = outB (drive_head_port b) (drive_head d lba) h in
      case read_statuses 4 h1 of None \<Rightarrow> None
      | Some h2 \<Rightarrow>
        let h3 = outB (sector_count_port b) 1 h2;
            h4 = outB (sector_num_port b) (ucast (lba AND 0xFF)) h3;
            h5 = outB (lba_low_port b) (ucast (drop_bit 8 lba AND 0xFF)) h4;
            h6 = outB (lba_high_port b) (ucast (drop_bit 16 lba AND 0xFF)) h5;
            h7 = outB (command_port b) WRITE_SECTOR_COMMAND h6
        in case poll_hw (\<lambda>s. write_failed s \<or> \<not> write_waits s) h7 of None \<Rightarrow> None
           | Some (s, h8) \<Rightarrow>
               if write_failed s then Some h8
               else Some (ata_irq_wait b (write_words (data_port b) (take 256 buffer) h8)))"

fun write_sectors :: "bus \<Rightarrow> drive \<Rightarrow> u32 \<Rightarrow> u16 list \<Rightarrow> nat \<Rightarrow> hw \<Rightarrow> (bool \<times> hw) option" where
  "write_sectors b d lba buffer 0 h = Some (True, h)"
| "write_sectors b d lba buffer (Suc n) h =
     (case write_one_sector b d lba buffer h of None \<Rightarrow> None
      | Some h1 \<Rightarrow> write_sectors b d (lba + 1) (drop 256 buffer) n h1)"

definition flush_cache :: "bus \<Rightarrow> hw \<Rightarrow> hw option" where
  "flush_cache b h = map_option snd (poll_hw (\<lambda>s. s AND 0x80 = 0) (outB (command_port b) 0xE7 h))"

text \<open>\<open>AtaDevice::read\<close> and \<open>write\<close> cut the 64-bit sector number and count to 32 bits.\<close>

definition AtaDevice_read :: "bus \<Rightarrow> drive \<Rightarrow> u64 \<Rightarrow> u64 \<Rightarrow> hw \<Rightarrow> (u16 list \<times> hw) option" where
  "AtaDevice_read b d lba sectors h = read_sectors b d (ucast lba) (unat (ucast sectors :: u32)) h"

definition AtaDevice_write :: "bus \<Rightarrow> drive \<Rightarrow> u16 list \<Rightarrow> u64 \<Rightarrow> u64 \<Rightarrow> hw \<Rightarrow> hw option" where
  "AtaDevice_write b d buffer lba sectors h =
     map_option snd (write_sectors b d (ucast lba) buffer (unat (ucast sectors :: u32)) h)"

section \<open>Devices\<close>

text \<open>
  A \<open>device_t\<close> is its 88 bytes: \<open>model\<close> from 0, \<open>serial\<close> from 41, \<open>firmware\<close> from 62,
  \<open>total_sectors\<close> from 72, the two support flags at 76 and 77, \<open>bus\<close> from 80 and \<open>drive\<close> from 84.
\<close>

definition sizeof_device_t :: nat where "sizeof_device_t = 88"

fun put_words :: "nat \<Rightarrow> u16 list \<Rightarrow> u8 list \<Rightarrow> u8 list" where
  "put_words off [] d = d"
| "put_words off (w # ws) d =
     put_words (off + 2) ws (d[off := ucast (drop_bit 8 w), off + 1 := ucast (w AND 0xFF)])"

definition bus_no :: "bus \<Rightarrow> u32" where
  "bus_no b = (case b of Primary \<Rightarrow> 0 | Secondary \<Rightarrow> 1)"

definition drive_no :: "drive \<Rightarrow> u32" where
  "drive_no d = (case d of Master \<Rightarrow> 0 | Slave \<Rightarrow> 1)"

text \<open>The bytes \<open>save_ata_device\<close> stores in the fresh block \<open>d0\<close>, in its order.\<close>

definition device_bytes :: "u16 list \<Rightarrow> bus \<Rightarrow> drive \<Rightarrow> u8 list \<Rightarrow> u8 list" where
  "device_bytes data b dr d0 =
     (let d1 = (put_words 41 (take 20 (drop 10 data)) d0)[61 := 0];
          d2 = (put_words 62 (take 4 (drop 23 data)) d1)[70 := 0];
          d3 = (put_words 0 (take 20 (drop 27 data)) d2)[40 := 0];
          d4 = d3[76 := of_bool (data ! 49 AND 0x200 \<noteq> 0), 77 := of_bool (data ! 49 AND 0x100 \<noteq> 0)];
          d5 = put32 72 (ucast (data ! 60) OR push_bit 16 (ucast (data ! 61))) d4
      in put32 84 (drive_no dr) (put32 80 (bus_no b) d5))"

record ata_state =
  port :: hw
  ata_devices :: "u8 list list"

definition last_ata_device_index :: "ata_state \<Rightarrow> u8" where
  "last_ata_device_index s = of_nat (length (ata_devices s))"

definition device_init :: "ata_state \<Rightarrow> ata_state" where
  "device_init s = s\<lparr>ata_devices := []\<rparr>"

definition save_ata_device :: "u16 list \<Rightarrow> bus \<Rightarrow> drive \<Rightarrow> u8 list \<Rightarrow> ata_state \<Rightarrow> ata_state" where
  "save_ata_device data b dr d0 s = s\<lparr>ata_devices := ata_devices s @ [device_bytes data b dr d0]\<rparr>"

definition dev_serial :: "u8 list \<Rightarrow> u8 list" where
  "dev_serial d = take 21 (drop 41 d)"

definition dev_bus :: "u8 list \<Rightarrow> bus" where
  "dev_bus d = (if get32 80 d = 1 then Secondary else Primary)"

definition dev_drive :: "u8 list \<Rightarrow> drive" where
  "dev_drive d = (if get32 84 d = 1 then Slave else Master)"

text \<open>The transfers on a device; an empty serial number makes them fail.\<close>

definition read_sector :: "u8 list \<Rightarrow> u32 \<Rightarrow> u32 \<Rightarrow> hw \<Rightarrow> (bool \<times> u16 list \<times> hw) option" where
  "read_sector dev lba sectors h =
     (if hd (dev_serial dev) = 0 then Some (False, [], h)
      else map_option (\<lambda>(ws, h'). (True, ws, h'))
        (read_sectors (dev_bus dev) (dev_drive dev) lba (unat sectors) h))"

definition write_sector :: "u8 list \<Rightarrow> u32 \<Rightarrow> u16 list \<Rightarrow> u32 \<Rightarrow> hw \<Rightarrow> (bool \<times> hw) option" where
  "write_sector dev lba buffer sectors h =
     (if hd (dev_serial dev) = 0 then Some (False, h)
      else write_sectors (dev_bus dev) (dev_drive dev) lba buffer (unat sectors) h)"

section \<open>Identification\<close>

definition identify_select :: "bus \<Rightarrow> drive \<Rightarrow> hw \<Rightarrow> hw option" where
  "identify_select b d h =
     (case delay_400ns (outB (drive_head_port b) (case d of Slave \<Rightarrow> 0xB0 | Master \<Rightarrow> 0xA0) h)
      of None \<Rightarrow> None
      | Some h1 \<Rightarrow>
        let h2 = outB (sector_count_port b) 0 h1;
            h3 = outB (sector_num_port b) 0 h2;
            h4 = outB (lba_low_port b) 0 h3;
            h5 = outB (lba_high_port b) 0 h4
        in delay_400ns (outB (command_port b) IDENTIFY_COMMAND h5))"

text \<open>
  The signature of a device that is not ATA: the second port is read only when the first has
  the value looked for.
\<close>

definition not_ata :: "hw \<Rightarrow> (bool \<times> hw) option" where
  "not_ata h = (case inB h of None \<Rightarrow> None
     | Some (m, h1) \<Rightarrow> if m \<noteq> 0x14 then Some (False, h1)
         else (case inB h1 of None \<Rightarrow> None | Some (x, h2) \<Rightarrow> Some (x = 0xEB, h2)))"

definition identify_data :: "hw \<Rightarrow> (u16 list option \<times> hw) option" where
  "identify_data h =
     (case poll_hw (\<lambda>s. s AND 0x08 \<noteq> 0 \<or> s AND 0x01 \<noteq> 0) h of None \<Rightarrow> None
      | Some (s, h1) \<Rightarrow>
          if s AND 0x08 \<noteq> 0 then map_option (\<lambda>(ws, h2). (Some ws, h2)) (read_words 256 h1)
          else Some (None, h1))"

definition identify :: "bus \<Rightarrow> drive \<Rightarrow> u8 list \<Rightarrow> ata_state \<Rightarrow> (bool \<times> ata_state) option" where
  "identify b d d0 s =
     (case identify_select b d (port s) of None \<Rightarrow> None
      | Some h1 \<Rightarrow> (case inB h1 of None \<Rightarrow> None
      | Some (st, h2) \<Rightarrow>
          if st = 0 then Some (False, s\<lparr>port := h2\<rparr>)
          else (case not_ata (ata_irq_wait b h2) of None \<Rightarrow> None
            | Some (True, h3) \<Rightarrow> Some (False, s\<lparr>port := h3\<rparr>)
            | Some (False, h3) \<Rightarrow>
                (case identify_data h3 of None \<Rightarrow> None
                 | Some (None, h4) \<Rightarrow> Some (False, s\<lparr>port := h4\<rparr>)
                 | Some (Some data, h4) \<Rightarrow> Some (True, save_ata_device data b d d0 (s\<lparr>port := h4\<rparr>))))))"

text \<open>\<open>fresh\<close> gives the bytes of the block allocated for a device found at a place.\<close>

fun probe_loop :: "(bus \<times> drive) list \<Rightarrow> (bus \<Rightarrow> drive \<Rightarrow> u8 list) \<Rightarrow> bool \<Rightarrow> ata_state \<Rightarrow> (bool \<times> ata_state) option" where
  "probe_loop [] fresh found s = Some (found, s)"
| "probe_loop ((b, d) # bds) fresh found s =
     (case identify b d (fresh b d) s of None \<Rightarrow> None | Some (f, s1) \<Rightarrow> probe_loop bds fresh (f \<or> found) s1)"

definition probe :: "(bus \<Rightarrow> drive \<Rightarrow> u8 list) \<Rightarrow> ata_state \<Rightarrow> (bool \<times> ata_state) option" where
  "probe fresh s =
     probe_loop [(Primary, Master), (Primary, Slave), (Secondary, Master), (Secondary, Slave)] fresh False s"

definition ata_init :: "(bus \<Rightarrow> drive \<Rightarrow> u8 list) \<Rightarrow> ata_state \<Rightarrow> ata_state option" where
  "ata_init fresh s =
     (let h1 = outW (device_control_port Primary) 0 (port s);
          h2 = outW (device_control_port Secondary) 0 h1
      in map_option snd (probe fresh (s\<lparr>port := h2\<rparr>)))"

section \<open>What the transfers do\<close>

text \<open>
  The registers of a bus as the drive sees them when a command comes: the last value written to
  each port.  \<open>ata_target\<close> is the drive, the sector and the number of sectors the command is for.
\<close>

definition reg :: "(u16 \<times> u16) list \<Rightarrow> u16 \<Rightarrow> nat" where
  "reg ws p = (case map_of (rev ws) p of None \<Rightarrow> 0 | Some v \<Rightarrow> unat v)"

definition ata_target :: "bus \<Rightarrow> (u16 \<times> u16) list \<Rightarrow> drive \<times> nat \<times> nat" where
  "ata_target b ws =
     (if odd (reg ws (drive_head_port b) div 16) then Slave else Master,
      reg ws (sector_num_port b) + 2 ^ 8 * reg ws (lba_low_port b) + 2 ^ 16 * reg ws (lba_high_port b)
        + 2 ^ 24 * (reg ws (drive_head_port b) mod 16),
      reg ws (sector_count_port b))"

definition command :: "bus \<Rightarrow> drive \<Rightarrow> u32 \<Rightarrow> u8 \<Rightarrow> (u16 \<times> u16) list" where
  "command b d lba c =
     [(drive_head_port b, ucast (drive_head d lba)), (sector_count_port b, 1),
      (sector_num_port b, ucast (ucast lba :: u8)), (lba_low_port b, ucast (ucast (drop_bit 8 lba) :: u8)),
      (lba_high_port b, ucast (ucast (drop_bit 16 lba) :: u8)), (command_port b, ucast c)]"

lemma ports_distinct: "distinct (map fst (command b d lba c))"
  by (cases b) (simp_all add: command_def drive_head_port_def sector_count_port_def sector_num_port_def
      lba_low_port_def lba_high_port_def command_port_def)

lemma reg_command: "(p, v) \<in> set (command b d lba c) \<Longrightarrow> reg (command b d lba c) p = unat v"
  using ports_distinct [of b d lba c] by (simp add: reg_def rev_map [symmetric])

lemma unat_byte: "unat (ucast (x :: u32) :: u8) = unat x mod 2 ^ 8"
  by (simp only: unsigned_ucast_eq take_bit_eq_mod) simp

lemma unat_wide_byte: "unat (ucast (x :: u8) :: u16) = unat x"
  using unat_less_lit [of x] by (simp only: unsigned_ucast_eq take_bit_eq_mod) simp

lemma unat_low_byte: "unat (ucast (ucast (x :: u32) :: u8) :: u16) = unat x mod 2 ^ 8"
  by (simp only: unat_wide_byte unat_byte)

lemma low_bytes_sum:
  "(n :: nat) mod 2 ^ 8 + 2 ^ 8 * (n div 2 ^ 8 mod 2 ^ 8) + 2 ^ 16 * (n div 2 ^ 16 mod 2 ^ 8)
    + 2 ^ 24 * (n div 2 ^ 24 mod 2 ^ 4) = n mod 2 ^ 28"
proof -
  have m: "n mod (2 ^ a * 2 ^ b) = 2 ^ a * (n div 2 ^ a mod 2 ^ b) + n mod 2 ^ a" for a b :: nat
    by (simp add: mod_mult2_eq)
  show ?thesis
    using m [of 24 4] m [of 16 8] m [of 8 8] by simp
qed

lemma unat_drive_head:
  "unat (ucast (drive_head d lba) :: u16) = (case d of Slave \<Rightarrow> 0xF0 | Master \<Rightarrow> 0xE0) + unat lba div 2 ^ 24 mod 16"
proof -
  have "ucast (drop_bit 24 lba) AND 0x0F = take_bit 4 (ucast (drop_bit 24 lba) :: u8)"
    by (simp add: take_bit_eq_mask mask_eq_exp_minus_1)
  then have "unat (ucast (drop_bit 24 lba) AND 0x0F :: u8) = unat (ucast (drop_bit 24 lba) :: u8) mod 16"
    by (simp only: unsigned_take_bit_eq) (simp add: take_bit_eq_mod)
  moreover have "(k :: nat) mod 256 mod 16 = k mod 16" for k by (rule mod_mod_cancel) simp
  ultimately have l: "unat (ucast (drop_bit 24 lba) AND 0x0F :: u8) = unat lba div 2 ^ 24 mod 16"
    by (simp only: unat_byte unat_drop_bit_eq) (simp add: drop_bit_eq_div)
  have "unat (h OR (ucast (drop_bit 24 lba) AND 0x0F) :: u8) = unat h + unat lba div 2 ^ 24 mod 16"
    if "h = 0xF0 \<or> h = 0xE0" for h :: u8
  proof (subst unat_or_disjoint)
    show "h AND (ucast (drop_bit 24 lba) AND 0x0F) = 0"
    proof -
      have "h AND 0x0F = 0" using that by auto
      then have "ucast (drop_bit 24 lba) AND (h AND 0x0F) = 0" by simp
      then show ?thesis by (simp only: ac_simps)
    qed
    show "unat h + unat (ucast (drop_bit 24 lba) AND 0x0F :: u8) < 2 ^ LENGTH(8)"
      using that l by auto
  qed (simp add: l)
  then show ?thesis
    by (cases d) (simp_all add: drive_head_def unat_wide_byte)
qed

lemma target_command:
  "ata_target b (command b d lba c) = (d, unat lba mod 2 ^ 28, 1)"
proof -
  let ?ws = "command b d lba c"
  have r: "reg ?ws (drive_head_port b) = (case d of Slave \<Rightarrow> 0xF0 | Master \<Rightarrow> 0xE0) + unat lba div 2 ^ 24 mod 16"
    "reg ?ws (sector_count_port b) = 1" "reg ?ws (sector_num_port b) = unat lba mod 2 ^ 8"
    "reg ?ws (lba_low_port b) = unat lba div 2 ^ 8 mod 2 ^ 8"
    "reg ?ws (lba_high_port b) = unat lba div 2 ^ 16 mod 2 ^ 8"
    by (subst reg_command, force simp: command_def,
        simp only: unat_drive_head unat_low_byte unat_drop_bit_eq unsigned_1, (simp only: drop_bit_eq_div)?)+
  have "odd (((case d of Slave \<Rightarrow> 0xF0 | Master \<Rightarrow> 0xE0) + x mod 16) div 16) \<longleftrightarrow> d = Slave" for x :: nat
    by (cases d) (simp_all add: div_add1_eq)
  moreover have "(224 + x mod 16) mod 16 = x mod 16" "(240 + x mod 16) mod 16 = x mod 16" for x :: nat
    using mod_add_left_eq [of 224 16 "x mod 16"] mod_add_left_eq [of 240 16 "x mod 16"] by simp_all
  ultimately show ?thesis
    using low_bytes_sum [of "unat lba"] r by (cases d) (simp_all add: ata_target_def)
qed

lemma poll_until:
  "list_all (\<lambda>s. \<not> P s) us \<Longrightarrow> P a \<Longrightarrow> poll P (us @ a # ss) = Some (a, ss)"
  by (induction us) auto

lemma read_words_eq:
  "n \<le> length (words_in h) \<Longrightarrow>
   read_words n h = Some (take n (words_in h), h\<lparr>words_in := drop n (words_in h)\<rparr>)"
proof (induction n arbitrary: h)
  case (Suc n)
  then obtain w ws where "words_in h = w # ws" by (cases "words_in h") auto
  then show ?case using Suc by (simp add: inW_def)
qed simp

lemma write_words_eq: "write_words p ws h = h\<lparr>outs := outs h @ map (Pair p) ws\<rparr>"
  by (induction ws arbitrary: h) (simp_all add: outW_def)

lemma irq_wait_fields [simp]:
  "outs (ata_irq_wait b h) = outs h" "bytes_in (ata_irq_wait b h) = bytes_in h"
  "words_in (ata_irq_wait b h) = words_in h"
  by (cases b; simp add: ata_irq_wait_def set_irq_flag_def ata_handler_def Let_def split: list.split)+

text \<open>
  What the status port says while a sector is read: busy for a while, then not busy, then
  without data for a while, then with data.
\<close>

definition read_script :: "u8 list \<Rightarrow> bool" where
  "read_script s \<longleftrightarrow> (\<exists>us a vs c. s = us @ a # vs @ [c] \<and> list_all (\<lambda>x. x AND 0x80 \<noteq> 0) us \<and> a AND 0x80 = 0
     \<and> list_all (\<lambda>x. x AND 0x8 = 0) vs \<and> c AND 0x8 \<noteq> 0)"

lemma read_one_sector_eq:
  assumes "bytes_in h = s @ rest" and "read_script s" and "256 \<le> length (words_in h)"
  obtains h' where "read_one_sector b d lba h = Some (take 256 (words_in h), h')"
    and "outs h' = outs h @ command b d lba READ_SECTOR_COMMAND" and "bytes_in h' = rest"
    and "words_in h' = drop 256 (words_in h)"
proof -
  obtain us a vs c where s: "s = us @ a # vs @ [c]" "list_all (\<lambda>x. \<not> x AND 0x80 = 0) us" "a AND 0x80 = 0"
    "list_all (\<lambda>x. \<not> x AND 0x8 \<noteq> 0) vs" "c AND 0x8 \<noteq> 0"
    using assms(2) by (auto simp: read_script_def)
  have p: "poll (\<lambda>s. s AND 0x80 = 0) (s @ rest) = Some (a, vs @ c # rest)"
    "poll (\<lambda>s. s AND 0x8 \<noteq> 0) (vs @ c # rest) = Some (c, rest)"
    using poll_until [of "\<lambda>x. x AND 0x80 = 0", OF s(2,3)] poll_until [of "\<lambda>x. x AND 0x8 \<noteq> 0", OF s(4,5)]
    by (simp_all add: s(1))
  show ?thesis
    by (rule that, simp add: read_one_sector_def Let_def poll_hw_def outB_def p read_words_eq assms(1,3))
      (simp_all add: command_def)
qed

lemma read_sectors_eq:
  assumes "bytes_in h = concat ss @ rest" and "length ss = n" and "list_all read_script ss"
    and "256 * n \<le> length (words_in h)"
  shows "\<exists>h'. read_sectors b d lba n h = Some (take (256 * n) (words_in h), h')
    \<and> outs h' = outs h @ concat (map (\<lambda>i. command b d (lba + of_nat i) READ_SECTOR_COMMAND) [0..<n])
    \<and> bytes_in h' = rest \<and> words_in h' = drop (256 * n) (words_in h)"
  using assms
proof (induction n arbitrary: ss lba h)
  case (Suc n)
  then obtain s ss' where ss: "ss = s # ss'" by (cases ss) auto
  obtain h1 where h1: "read_one_sector b d lba h = Some (take 256 (words_in h), h1)"
    "outs h1 = outs h @ command b d lba READ_SECTOR_COMMAND" "bytes_in h1 = concat ss' @ rest"
    "words_in h1 = drop 256 (words_in h)"
    by (rule read_one_sector_eq [of h s "concat ss' @ rest" b d lba]) (use Suc.prems in \<open>auto simp: ss\<close>)
  have le: "256 * n \<le> length (words_in h1)" using Suc.prems(4) h1(4) by simp
  obtain h' where h': "read_sectors b d (lba + 1) n h1 = Some (take (256 * n) (words_in h1), h')"
    "outs h' = outs h1 @ concat (map (\<lambda>i. command b d (lba + 1 + of_nat i) READ_SECTOR_COMMAND) [0..<n])"
    "bytes_in h' = rest" "words_in h' = drop (256 * n) (words_in h1)"
    using Suc.IH [OF h1(3) _ _ le, of "lba + 1"] Suc.prems(2,3) by (auto simp: ss)
  have "map (\<lambda>i. command b d (lba + of_nat i) READ_SECTOR_COMMAND) [0..<Suc n]
    = command b d lba READ_SECTOR_COMMAND # map (\<lambda>i. command b d (lba + 1 + of_nat i) READ_SECTOR_COMMAND) [0..<n]"
    by (simp add: upt_conv_Cons map_Suc_upt [symmetric] del: upt_Suc) (simp add: algebra_simps)
  then show ?case
    using h1 h' by (simp add: take_add add.commute drop_drop)
qed simp

text \<open>
  What it says while a sector is written, after the four reads that let the drive settle: busy
  or without data and no error, until it is ready or has an error.
\<close>

definition write_script :: "bool \<Rightarrow> u8 list \<Rightarrow> bool" where
  "write_script ok s \<longleftrightarrow> (\<exists>ds us e. s = ds @ us @ [e] \<and> length ds = 4
     \<and> list_all (\<lambda>x. \<not> (write_failed x \<or> \<not> write_waits x)) us
     \<and> (if ok then \<not> write_failed e \<and> \<not> write_waits e else write_failed e))"

lemma read_statuses_eq:
  "bytes_in h = ds @ rest \<Longrightarrow> length ds = n \<Longrightarrow> read_statuses n h = Some (h\<lparr>bytes_in := rest\<rparr>)"
proof (induction n arbitrary: h ds)
  case (Suc n)
  then obtain d ds' where "ds = d # ds'" by (cases ds) auto
  then show ?case using Suc by (simp add: inB_def)
qed simp

lemma byte_mask: "(ucast (x AND 0xFF :: u32) :: u8) = ucast x"
proof -
  have "x AND 0xFF = take_bit 8 x" by (simp add: take_bit_eq_mask mask_eq_exp_minus_1)
  then show ?thesis by (simp only:) (rule bit_eqI, auto simp: bit_simps)
qed

lemma write_one_sector_eq:
  assumes "bytes_in h = s @ rest" and "write_script ok s"
  obtains h' where "write_one_sector b d lba buf h = Some h'" and "bytes_in h' = rest"
    and "outs h' = outs h @ command b d lba WRITE_SECTOR_COMMAND
      @ (if ok then map (Pair (data_port b)) (take 256 buf) else [])"
proof -
  let ?P = "\<lambda>x. write_failed x \<or> \<not> write_waits x"
  obtain ds us e where s: "s = ds @ us @ [e]" "length ds = 4" "list_all (\<lambda>x. \<not> ?P x) us"
    "if ok then \<not> write_failed e \<and> \<not> write_waits e else write_failed e"
    using assms(2) unfolding write_script_def by blast
  have p: "poll ?P (us @ e # rest) = Some (e, rest)" and err: "write_failed e = (\<not> ok)"
    using s(4) by (auto intro!: poll_until [OF s(3)] split: if_splits)
  have r: "read_statuses 4 (outB p v h) = Some (outB p v h\<lparr>bytes_in := us @ e # rest\<rparr>)" for p v
    by (rule read_statuses_eq [OF _ s(2)]) (simp add: assms(1) s(1) outB_def)
  show ?thesis
  proof (cases ok)
    case True
    show ?thesis
      by (rule that, simp add: write_one_sector_def r, simp add: poll_hw_def outB_def p err True)
        (simp_all add: True byte_mask command_def write_words_eq)
  next
    case False
    show ?thesis
      by (rule that, simp add: write_one_sector_def r, simp add: poll_hw_def outB_def p err False)
        (simp_all add: False byte_mask command_def)
  qed
qed

lemma write_sectors_eq:
  assumes "bytes_in h = concat ss @ rest" and "list_all2 write_script oks ss" and "length oks = n"
  shows "\<exists>h'. write_sectors b d lba buf n h = Some (True, h') \<and> bytes_in h' = rest
    \<and> outs h' = outs h @ concat (map (\<lambda>i. command b d (lba + of_nat i) WRITE_SECTOR_COMMAND
        @ (if oks ! i then map (Pair (data_port b)) (take 256 (drop (256 * i) buf)) else [])) [0..<n])"
  using assms
proof (induction n arbitrary: ss oks lba buf h)
  case (Suc n)
  then obtain ok oks' s ss' where c: "oks = ok # oks'" "ss = s # ss'" "write_script ok s"
    "list_all2 write_script oks' ss'" "length oks' = n" by (auto simp: length_Suc_conv list_all2_Cons1)
  obtain h1 where h1: "write_one_sector b d lba buf h = Some h1" "bytes_in h1 = concat ss' @ rest"
    "outs h1 = outs h @ command b d lba WRITE_SECTOR_COMMAND
      @ (if ok then map (Pair (data_port b)) (take 256 buf) else [])"
    by (rule write_one_sector_eq [of h s "concat ss' @ rest" ok b d lba buf])
      (use Suc.prems c in \<open>auto simp: c\<close>)
  obtain h' where h': "write_sectors b d (lba + 1) (drop 256 buf) n h1 = Some (True, h')" "bytes_in h' = rest"
    "outs h' = outs h1 @ concat (map (\<lambda>i. command b d (lba + 1 + of_nat i) WRITE_SECTOR_COMMAND
        @ (if oks' ! i then map (Pair (data_port b)) (take 256 (drop (256 * i) (drop 256 buf))) else [])) [0..<n])"
    using Suc.IH [OF h1(2) c(4,5), of "lba + 1" "drop 256 buf"] by blast
  have "map (\<lambda>i. command b d (lba + of_nat i) WRITE_SECTOR_COMMAND
        @ (if oks ! i then map (Pair (data_port b)) (take 256 (drop (256 * i) buf)) else [])) [0..<Suc n]
    = (command b d lba WRITE_SECTOR_COMMAND @ (if ok then map (Pair (data_port b)) (take 256 buf) else []))
      # map (\<lambda>i. command b d (lba + 1 + of_nat i) WRITE_SECTOR_COMMAND
        @ (if oks' ! i then map (Pair (data_port b)) (take 256 (drop (256 * i) (drop 256 buf))) else [])) [0..<n]"
    by (simp add: upt_conv_Cons map_Suc_upt [symmetric] c(1) del: upt_Suc) (simp add: algebra_simps)
  then show ?case
    using h1 h' by simp
qed simp

section \<open>Properties\<close>

text \<open>
  C28: reading \<open>n\<close> sectors.  Whatever the drive's answers, as long as each command is followed by a
  phase of being busy and then one without data, both ending, the driver returns the next
  \<open>256 * n\<close> words of the data port in order.  It has sent one command for each of the \<open>n\<close>
  consecutive sector numbers, to the drive asked for and for one sector, but only the low 28
  bits of a sector number reach the drive.
\<close>

theorem ata_read_sectors:
  assumes "bytes_in h = concat ss @ rest" and "length ss = n" and "list_all read_script ss"
    and "256 * n \<le> length (words_in h)"
  shows "(\<exists>h'. read_sectors b d lba n h = Some (take (256 * n) (words_in h), h')
      \<and> outs h' = outs h @ concat (map (\<lambda>i. command b d (lba + of_nat i) READ_SECTOR_COMMAND) [0..<n])
      \<and> bytes_in h' = rest \<and> words_in h' = drop (256 * n) (words_in h))
    \<and> (\<forall>i. ata_target b (command b d (lba + of_nat i) READ_SECTOR_COMMAND)
         = (d, unat (lba + of_nat i) mod 2 ^ 28, 1))"
  using read_sectors_eq [OF assms] target_command by blast

definition demo_hw :: hw where
  "demo_hw = \<lparr>outs = [], bytes_in = [0xD0, 0x50, 0x50, 0x58, 0x50, 0x58], words_in = replicate 512 7,
     arrivals = [], primary_irq_received = False, secondary_irq_received = True\<rparr>"

lemma demo_scripts: "list_all read_script [[0xD0, 0x50, 0x50, 0x58], [0x50, 0x58]]"
proof -
  have "read_script ([0xD0] @ 0x50 # [0x50] @ [0x58])" "read_script ([] @ 0x50 # [] @ [0x58])"
    unfolding read_script_def by (intro exI conjI, rule refl; simp)+
  then show ?thesis by simp
qed

theorem ata_read_sectors_witness:
  "\<exists>h'. read_sectors Secondary Slave 0x12345678 2 demo_hw = Some (replicate 512 7, h')
    \<and> outs h' = command Secondary Slave 0x12345678 0x20 @ command Secondary Slave 0x12345679 0x20
    \<and> ata_target Secondary (command Secondary Slave 0x12345679 0x20) = (Slave, 0x2345679, 1)"
proof -
  have "unat (0x12345678 + of_nat 1 :: u32) mod 2 ^ 28 = 0x2345679" by simp
  then show ?thesis
    using ata_read_sectors [of demo_hw "[[0xD0, 0x50, 0x50, 0x58], [0x50, 0x58]]" "[]" 2 Secondary Slave "0x12345678"]
      demo_scripts
    by (auto simp: demo_hw_def numeral_2_eq_2 READ_SECTOR_COMMAND_def dest: spec [of _ "Suc 0"])
qed

text \<open>
  Writing \<open>n\<close> sectors.  For each sector the drive is ready after a while (\<open>oks ! i\<close>) or reports
  an error.  The driver sends the command for each of the consecutive sector numbers, and the
  256 words of its part of the buffer exactly to those that the drive was ready for.  It returns
  true in every case: the caller never learns that a sector was not written.
\<close>

lemma ata_write_hides_errors:
  assumes "bytes_in h = concat ss @ rest" and "list_all2 write_script oks ss" and "length oks = n"
  shows "\<exists>h'. write_sectors b d lba buf n h = Some (True, h') \<and> bytes_in h' = rest
    \<and> outs h' = outs h @ concat (map (\<lambda>i. command b d (lba + of_nat i) WRITE_SECTOR_COMMAND
        @ (if oks ! i then map (Pair (data_port b)) (take 256 (drop (256 * i) buf)) else [])) [0..<n])"
  by (rule write_sectors_eq [OF assms])

definition demo_hw2 :: hw where
  "demo_hw2 = \<lparr>outs = [], bytes_in = [0x50, 0x50, 0x50, 0x50, 0xD0, 0x58, 0x50, 0x50, 0x50, 0x50, 0x51],
     words_in = [], arrivals = [Some 3], primary_irq_received = False, secondary_irq_received = False\<rparr>"

lemma demo_write_scripts:
  "list_all2 write_script [True, False] [[0x50, 0x50, 0x50, 0x50, 0xD0, 0x58], [0x50, 0x50, 0x50, 0x50, 0x51]]"
proof -
  have "write_script True ([0x50, 0x50, 0x50, 0x50] @ [0xD0] @ [0x58])"
    "write_script False ([0x50, 0x50, 0x50, 0x50] @ [] @ [0x51])"
    unfolding write_script_def by (intro exI conjI, rule refl; simp add: write_failed_def write_waits_def)+
  then show ?thesis by simp
qed

lemma ata_write_hides_errors_witness:
  "\<exists>h'. write_sectors Primary Master 5 (replicate 512 9) 2 demo_hw2 = Some (True, h')
    \<and> outs h' = command Primary Master 5 0x30 @ replicate 256 (0x1F0, 9) @ command Primary Master 6 0x30"
  using ata_write_hides_errors [of demo_hw2 "[[0x50, 0x50, 0x50, 0x50, 0xD0, 0x58], [0x50, 0x50, 0x50, 0x50, 0x51]]"
      "[]" "[True, False]" 2 Primary Master 5 "replicate 512 9"] demo_write_scripts
  by (auto simp: demo_hw2_def numeral_2_eq_2 WRITE_SECTOR_COMMAND_def data_port_def map_replicate_const)

text \<open>Bytes of a device.\<close>

lemma put_words_nth:
  "i < length d \<Longrightarrow> off + 2 * length ws \<le> length d \<Longrightarrow>
   put_words off ws d ! i = (if off \<le> i \<and> i < off + 2 * length ws
     then (if even (i - off) then ucast (drop_bit 8 (ws ! ((i - off) div 2))) else ucast (ws ! ((i - off) div 2) AND 0xFF))
     else d ! i)"
proof (induction ws arbitrary: off d)
  case (Cons w ws)
  have "i = off \<or> i = off + 1 \<or> i < off \<or> off + 2 \<le> i" by linarith
  then show ?case
  proof (elim disjE)
    assume i: "off + 2 \<le> i"
    then have "i - off = Suc (Suc (i - (off + 2)))" by simp
    then show ?thesis using Cons i by (simp add: nth_Cons')
  qed (use Cons in auto)
qed auto

lemma length_put_words [simp]: "length (put_words off ws d) = length d"
  by (induction ws arbitrary: off d) simp_all

definition ata_string :: "u16 list \<Rightarrow> u8 list" where
  "ata_string ws = concat (map (\<lambda>w. [ucast (drop_bit 8 w), ucast (w AND 0xFF)]) ws)"

lemma length_ata_string [simp]: "length (ata_string ws) = 2 * length ws"
  by (induction ws) (simp_all add: ata_string_def)

lemma ata_string_nth:
  "i < 2 * length ws \<Longrightarrow> ata_string ws ! i =
    (if even i then ucast (drop_bit 8 (ws ! (i div 2))) else ucast (ws ! (i div 2) AND 0xFF))"
proof (induction ws arbitrary: i)
  case (Cons w ws)
  have "i = 0 \<or> i = 1 \<or> 2 \<le> i" by linarith
  then show ?case
  proof (elim disjE)
    assume i: "2 \<le> i"
    then obtain j where "i = Suc (Suc j)" by (metis add_2_eq_Suc le_Suc_ex)
    then show ?thesis using Cons by (simp add: ata_string_def)
  qed (simp_all add: ata_string_def)
qed simp

text \<open>The bytes of a device one by one; those of the serial number are its first twenty.\<close>

lemma device_bytes_nth:
  assumes "length d0 = 88" and "length data = 256" and "i < 72"
  shows "device_bytes data b dr d0 ! i =
    (if i < 40 then ata_string (take 20 (drop 27 data)) ! i else if i = 40 then 0
     else if i < 61 then ata_string (take 10 (drop 10 data)) ! (i - 41) else if i = 61 then 0
     else if i < 70 then ata_string (take 4 (drop 23 data)) ! (i - 62) else if i = 70 then 0
     else device_bytes data b dr d0 ! i)"
proof (cases "i = 71")
  case False
  have dv: "device_bytes data b dr d0 ! i = (put_words 0 (take 20 (drop 27 data))
      ((put_words 62 (take 4 (drop 23 data)) ((put_words 41 (take 20 (drop 10 data)) d0)[61 := 0]))[70 := 0]))[40 := 0] ! i"
    using assms by (simp add: device_bytes_def Let_def put32_nth)
  consider "i < 40" | "i = 40" | "41 \<le> i" "i < 61" | "i = 61" | "62 \<le> i" "i < 70" | "i = 70"
    using assms(3) False by linarith
  then show ?thesis
  proof cases
    case 1
    then show ?thesis using assms by (simp add: dv put_words_nth ata_string_nth)
  next
    case 3
    then have "(i - 41) div 2 < 10" by linarith
    then show ?thesis using assms 3 by (simp add: dv put_words_nth ata_string_nth)
  next
    case 5
    then have "(i - 62) div 2 < 4" by linarith
    then show ?thesis using assms 5 by (simp add: dv put_words_nth ata_string_nth)
  qed (use assms dv in \<open>simp_all add: put_words_nth\<close>)
qed simp

text \<open>
  What a device records of the drive's identification.  The loop that copies the serial
  number stores 40 bytes into a field of 21, over the firmware revision, the sector count and
  the flags behind it; as all of these are stored later, every field is right in the end: the
  strings are those of their words, high byte first, with a zero behind, the sector count is
  that of words 60 and 61, and the place is the one identified.
\<close>

lemma save_ata_device_fields:
  assumes "length d0 = 88" and "length data = 256"
  shows "(let d = device_bytes data b dr d0 in
    take 41 d = ata_string (take 20 (drop 27 data)) @ [0]
    \<and> dev_serial d = ata_string (take 10 (drop 10 data)) @ [0]
    \<and> take 9 (drop 62 d) = ata_string (take 4 (drop 23 data)) @ [0]
    \<and> get32 72 d = ucast (data ! 60) OR push_bit 16 (ucast (data ! 61))
    \<and> d ! 76 = of_bool (data ! 49 AND 0x200 \<noteq> 0) \<and> d ! 77 = of_bool (data ! 49 AND 0x100 \<noteq> 0)
    \<and> dev_bus d = b \<and> dev_drive d = dr)"
proof -
  let ?d = "device_bytes data b dr d0"
  have len: "length ?d = 88" using assms(1) by (simp add: device_bytes_def Let_def)
  note nth = device_bytes_nth [OF assms, of _ b dr]
  have str: "take 41 ?d = ata_string (take 20 (drop 27 data)) @ [0]"
    "dev_serial ?d = ata_string (take 10 (drop 10 data)) @ [0]"
    "take 9 (drop 62 ?d) = ata_string (take 4 (drop 23 data)) @ [0]"
    by (rule nth_equalityI; use assms len in \<open>auto simp: dev_serial_def nth nth_append split: if_splits\<close>)+
  have g: "get32 72 ?d = ucast (data ! 60) OR push_bit 16 (ucast (data ! 61))" "get32 80 ?d = bus_no b"
    "get32 84 ?d = drive_no dr"
    using assms(1)
    by (simp_all add: device_bytes_def Let_def get32_cong [of _ "put32 _ _ _" _, OF put32_nth])
  have "?d ! 76 = of_bool (data ! 49 AND 0x200 \<noteq> 0)" "?d ! 77 = of_bool (data ! 49 AND 0x100 \<noteq> 0)"
    using assms(1) by (simp_all add: device_bytes_def Let_def put32_nth)
  then show ?thesis
    using str g by (cases b; cases dr) (simp_all add: Let_def dev_bus_def dev_drive_def bus_no_def drive_no_def)
qed

lemma save_ata_device_fields_witness:
  "dev_serial (device_bytes (map of_nat [0..<256]) Secondary Slave (replicate 88 0xCC))
     = [0, 10, 0, 11, 0, 12, 0, 13, 0, 14, 0, 15, 0, 16, 0, 17, 0, 18, 0, 19, 0]
   \<and> get32 72 (device_bytes (map of_nat [0..<256]) Secondary Slave (replicate 88 0xCC)) = 60 + 61 * 0x10000
   \<and> dev_drive (device_bytes (map of_nat [0..<256]) Secondary Slave (replicate 88 0xCC)) = Slave"
proof -
  have "ata_string (take 10 (drop 10 (map of_nat [0..<256])))
    = [0, 10, 0, 11, 0, 12, 0, 13, 0, 14, 0, 15, 0, 16, 0, 17, 0, 18, 0, 19]"
    by (simp add: take_map drop_map ata_string_def upt_rec)
  then show ?thesis
    using save_ata_device_fields [of "replicate 88 0xCC" "map of_nat [0..<256]" Secondary Slave]
    by (simp add: Let_def)
qed

end
