(* ===== verification/Ext2Block.thy ===== *)
theory Ext2Block
  imports Bytes
begin

text \<open>
  The storage layer of the Ext2 file system: \<open>src/kernel/fs/ext/block.cpp\<close>, \<open>inode.cpp\<close> and the
  helpers of \<open>ext2.cpp\<close> on bitmaps, the superblock and the block group descriptors, with the
  structures of \<open>include/fs/ext/ext2.hpp\<close> and \<open>inode.hpp\<close> as their bytes.

  The drive is a map from sector number to 512 bytes.  \<open>None\<close> stands for a call that does not
  return: a kernel panic, a division by zero, an endless loop, or an access outside a buffer.
  Buffers from the kernel heap are assumed to be given.
\<close>

section \<open>Structures\<close>

type_synonym disk = "u32 \<Rightarrow> u8 list"

text \<open>
  \<open>ext2_fs_t\<close>: \<open>sb\<close> and \<open>blk_grp_descs\<close> are the bytes of the superblock and of the descriptor
  table.
\<close>

record ext2_fs_t =
  disk :: disk
  partition_start :: u32
  sb :: "u8 list"
  blk_grp_descs :: "u8 list"
  block_size :: u32
  blocks_per_group :: u32
  inodes_per_group :: u32
  total_groups :: u32
  blk_grp_desc_blocks :: u32

definition sb_blks_num :: "u8 list \<Rightarrow> u32" where "sb_blks_num b = get32 4 b"
definition sb_unalloc_blk_num :: "u8 list \<Rightarrow> u32" where "sb_unalloc_blk_num b = get32 12 b"
definition sb_unalloc_inode_num :: "u8 list \<Rightarrow> u32" where "sb_unalloc_inode_num b = get32 16 b"
definition sb_superblock_blk_num :: "u8 list \<Rightarrow> u32" where "sb_superblock_blk_num b = get32 20 b"
definition sb_blk_size :: "u8 list \<Rightarrow> u32" where "sb_blk_size b = get32 24 b"
definition sb_blkgroup_blk_num :: "u8 list \<Rightarrow> u32" where "sb_blkgroup_blk_num b = get32 32 b"
definition sb_blkgroup_inode_num :: "u8 list \<Rightarrow> u32" where "sb_blkgroup_inode_num b = get32 40 b"
definition sb_ext2_magic :: "u8 list \<Rightarrow> u16" where "sb_ext2_magic b = get16 56 b"
definition sb_inode_size :: "u8 list \<Rightarrow> u16" where "sb_inode_size b = get16 88 b"
definition sb_blkgrp_superblk :: "u8 list \<Rightarrow> u16" where "sb_blkgrp_superblk b = get16 90 b"

text \<open>The descriptor of a group, 32 bytes each.\<close>

definition bg_block_bitmap :: "ext2_fs_t \<Rightarrow> nat \<Rightarrow> u32" where
  "bg_block_bitmap fs g = get32 (32 * g) (blk_grp_descs fs)"
definition bg_inode_bitmap :: "ext2_fs_t \<Rightarrow> nat \<Rightarrow> u32" where
  "bg_inode_bitmap fs g = get32 (32 * g + 4) (blk_grp_descs fs)"
definition bg_inode_table :: "ext2_fs_t \<Rightarrow> nat \<Rightarrow> u32" where
  "bg_inode_table fs g = get32 (32 * g + 8) (blk_grp_descs fs)"
definition bg_free_blocks :: "ext2_fs_t \<Rightarrow> nat \<Rightarrow> u16" where
  "bg_free_blocks fs g = get16 (32 * g + 12) (blk_grp_descs fs)"
definition bg_free_inodes :: "ext2_fs_t \<Rightarrow> nat \<Rightarrow> u16" where
  "bg_free_inodes fs g = get16 (32 * g + 14) (blk_grp_descs fs)"

definition add_free_blocks :: "nat \<Rightarrow> u16 \<Rightarrow> ext2_fs_t \<Rightarrow> ext2_fs_t" where
  "add_free_blocks g k fs = fs\<lparr>blk_grp_descs :=
     put16 (32 * g + 12) (bg_free_blocks fs g + k) (blk_grp_descs fs)\<rparr>"
definition add_free_inodes :: "nat \<Rightarrow> u16 \<Rightarrow> ext2_fs_t \<Rightarrow> ext2_fs_t" where
  "add_free_inodes g k fs = fs\<lparr>blk_grp_descs :=
     put16 (32 * g + 14) (bg_free_inodes fs g + k) (blk_grp_descs fs)\<rparr>"
definition add_sb_blocks :: "u32 \<Rightarrow> ext2_fs_t \<Rightarrow> ext2_fs_t" where
  "add_sb_blocks k fs = fs\<lparr>sb := put32 12 (sb_unalloc_blk_num (sb fs) + k) (sb fs)\<rparr>"
definition add_sb_inodes :: "u32 \<Rightarrow> ext2_fs_t \<Rightarrow> ext2_fs_t" where
  "add_sb_inodes k fs = fs\<lparr>sb := put32 16 (sb_unalloc_inode_num (sb fs) + k) (sb fs)\<rparr>"

section \<open>Blocks\<close>

text \<open>The sectors a device driver transfers, one after another.\<close>

fun disk_read :: "u32 \<Rightarrow> nat \<Rightarrow> disk \<Rightarrow> u8 list" where
  "disk_read lba 0 d = []"
| "disk_read lba (Suc n) d = d lba @ disk_read (lba + 1) n d"

fun disk_write :: "u32 \<Rightarrow> nat \<Rightarrow> u8 list \<Rightarrow> disk \<Rightarrow> disk" where
  "disk_write lba 0 buf d = d"
| "disk_write lba (Suc n) buf d = disk_write (lba + 1) n (drop 512 buf) (d(lba := take 512 buf))"

definition block_lba :: "ext2_fs_t \<Rightarrow> u32 \<Rightarrow> u32" where
  "block_lba fs block_num = partition_start fs + (block_num * block_size fs) div 512"

definition lba_blocks :: "ext2_fs_t \<Rightarrow> u32 \<Rightarrow> nat" where
  "lba_blocks fs n = unat ((n * block_size fs) div 512)"

definition read_block :: "ext2_fs_t \<Rightarrow> u32 \<Rightarrow> u32 \<Rightarrow> u8 list" where
  "read_block fs block_num blocks_to_read =
     disk_read (block_lba fs block_num) (lba_blocks fs blocks_to_read) (disk fs)"

definition write_block :: "ext2_fs_t \<Rightarrow> u32 \<Rightarrow> u8 list \<Rightarrow> u32 \<Rightarrow> ext2_fs_t" where
  "write_block fs block_num buffer blocks_to_write =
     fs\<lparr>disk := disk_write (block_lba fs block_num) (lba_blocks fs blocks_to_write) buffer (disk fs)\<rparr>"

text \<open>
  \<open>rewrite_sb\<close> reads sectors 2 and 3 into a scratch buffer, copies memory over it, and then reads
  the sectors again where it means to write them: it changes nothing.
\<close>

definition rewrite_sb :: "ext2_fs_t \<Rightarrow> ext2_fs_t" where
  "rewrite_sb fs =
     (let buf = disk_read 2 2 (disk fs);
          buf = put_bytes 0 (sb fs) buf;
          buf = disk_read 2 2 (disk fs)
      in fs)"

fun rewrite_bgds_loop :: "u32 \<Rightarrow> nat \<Rightarrow> nat \<Rightarrow> ext2_fs_t \<Rightarrow> ext2_fs_t" where
  "rewrite_bgds_loop start i 0 fs = fs"
| "rewrite_bgds_loop start i (Suc n) fs =
     rewrite_bgds_loop start (i + 1) n
       (write_block fs (start + of_nat i) (drop (i * unat (block_size fs)) (blk_grp_descs fs)) 1)"

definition bgd_start_block :: "ext2_fs_t \<Rightarrow> u32" where
  "bgd_start_block fs = (if block_size fs = 1024 then 2 else 1)"

definition rewrite_bgds :: "ext2_fs_t \<Rightarrow> ext2_fs_t" where
  "rewrite_bgds fs = rewrite_bgds_loop (bgd_start_block fs) 0 (unat (blk_grp_desc_blocks fs)) fs"

section \<open>Bitmaps\<close>

definition test_bit :: "u8 list \<Rightarrow> nat \<Rightarrow> bool" where
  "test_bit bitmap i = bit (bitmap ! (i div 8)) (i mod 8)"

definition set_bitmap_bit :: "u8 list \<Rightarrow> nat \<Rightarrow> u8 list" where
  "set_bitmap_bit bitmap i = bitmap[i div 8 := set_bit (i mod 8) (bitmap ! (i div 8))]"

definition clear_bitmap_bit :: "u8 list \<Rightarrow> nat \<Rightarrow> u8 list" where
  "clear_bitmap_bit bitmap i = bitmap[i div 8 := unset_bit (i mod 8) (bitmap ! (i div 8))]"

definition in_bitmap :: "u8 list \<Rightarrow> nat \<Rightarrow> bool" where
  "in_bitmap bitmap i \<longleftrightarrow> i div 8 < length bitmap"

definition groups_count :: "ext2_fs_t \<Rightarrow> u32" where
  "groups_count fs = (sb_blks_num (sb fs) + sb_blkgroup_blk_num (sb fs) - 1) div sb_blkgroup_blk_num (sb fs)"

text \<open>The null pointer is \<open>None\<close>.\<close>

definition get_block_bitmap :: "ext2_fs_t \<Rightarrow> u32 \<Rightarrow> u8 list option" where
  "get_block_bitmap fs grp =
     (if groups_count fs \<le> grp then None
      else Some (read_block fs (bg_block_bitmap fs (unat grp)) 1))"

definition write_block_bitmap :: "ext2_fs_t \<Rightarrow> u32 \<Rightarrow> u8 list \<Rightarrow> ext2_fs_t" where
  "write_block_bitmap fs grp bitmap =
     (if groups_count fs \<le> grp then fs
      else write_block fs (bg_block_bitmap fs (unat grp)) bitmap 1)"

definition get_inode_bitmap :: "ext2_fs_t \<Rightarrow> u32 \<Rightarrow> u8 list option" where
  "get_inode_bitmap fs grp =
     (if groups_count fs \<le> grp then None
      else Some (read_block fs (bg_inode_bitmap fs (unat grp)) 1))"

definition write_inode_bitmap :: "ext2_fs_t \<Rightarrow> u32 \<Rightarrow> u8 list \<Rightarrow> ext2_fs_t" where
  "write_inode_bitmap fs grp bitmap =
     (if groups_count fs \<le> grp then fs
      else write_block fs (bg_inode_bitmap fs (unat grp)) bitmap 1)"

text \<open>
  The search of the allocators: the first offset from \<open>i\<close> on, of \<open>n\<close>, that is not skipped and
  whose bit \<open>idx i\<close> is clear.  The outer \<open>None\<close> is an access outside the bitmap.
\<close>

fun find_clear :: "(nat \<Rightarrow> nat) \<Rightarrow> (nat \<Rightarrow> bool) \<Rightarrow> u8 list \<Rightarrow> nat \<Rightarrow> nat \<Rightarrow> nat option option" where
  "find_clear idx skip bm i 0 = Some None"
| "find_clear idx skip bm i (Suc n) =
     (if skip i then find_clear idx skip bm (i + 1) n
      else if \<not> in_bitmap bm (idx i) then None
      else if test_bit bm (idx i) then find_clear idx skip bm (i + 1) n
      else Some (Some i))"

section \<open>Allocating and freeing blocks\<close>

definition take_block_bit :: "ext2_fs_t \<Rightarrow> u32 \<Rightarrow> u8 list \<Rightarrow> nat \<Rightarrow> ext2_fs_t" where
  "take_block_bit fs grp bm i =
     (let fs1 = write_block_bitmap fs grp (set_bitmap_bit bm i);
          fs2 = add_free_blocks (unat grp) (- 1) fs1;
          fs3 = add_sb_blocks (- 1) fs2
      in rewrite_sb (rewrite_bgds fs3))"

fun alloc_block_loop :: "u32 \<Rightarrow> nat \<Rightarrow> ext2_fs_t \<Rightarrow> (u32 \<times> ext2_fs_t) option" where
  "alloc_block_loop grp 0 fs = None"
| "alloc_block_loop grp (Suc n) fs =
     (if bg_free_blocks fs (unat grp) = 0 then alloc_block_loop (grp + 1) n fs
      else case get_block_bitmap fs grp of None \<Rightarrow> None
      | Some bm \<Rightarrow>
        (case find_clear id (\<lambda>_. False) bm 0 (unat (blocks_per_group fs)) of
          None \<Rightarrow> None
        | Some None \<Rightarrow> alloc_block_loop (grp + 1) n fs
        | Some (Some i) \<Rightarrow>
            Some (grp * blocks_per_group fs + of_nat i + ucast (sb_blkgrp_superblk (sb fs)),
              take_block_bit fs grp bm i)))"

definition alloc_block :: "ext2_fs_t \<Rightarrow> (u32 \<times> ext2_fs_t) option" where
  "alloc_block fs =
     (if sb_blkgroup_blk_num (sb fs) = 0 then None
      else alloc_block_loop 0 (unat (groups_count fs)) fs)"

definition free_block :: "u32 \<Rightarrow> ext2_fs_t \<Rightarrow> ext2_fs_t option" where
  "free_block block_num fs =
     (if block_num = 0 then Some fs
      else if sb_blkgroup_blk_num (sb fs) = 0 then None
      else
        let rel = block_num - ucast (sb_blkgrp_superblk (sb fs));
            grp = rel div sb_blkgroup_blk_num (sb fs);
            offset = unat (rel mod sb_blkgroup_blk_num (sb fs))
        in case get_block_bitmap fs grp of None \<Rightarrow> Some fs
           | Some bm \<Rightarrow>
               if \<not> in_bitmap bm offset then None
               else
                 let fs1 = add_free_blocks (unat grp) 1 fs;
                     fs2 = add_sb_blocks 1 fs1;
                     fs3 = write_block_bitmap fs2 grp (clear_bitmap_bit bm offset)
                 in Some (rewrite_sb (rewrite_bgds fs3)))"

text \<open>
  \<open>free_blocks\<close> works on the inode in memory, here its bytes: it frees the blocks its pointers
  name and zeroes the pointers.  The number of entries of a pointer block it looks at is
  computed from the superblock's \<open>blk_size\<close>, the binary logarithm of the size in KiB.
\<close>

definition direct_blk_ptr :: "u8 list \<Rightarrow> nat \<Rightarrow> u32" where
  "direct_blk_ptr ino i = get32 (40 + 4 * i) ino"
definition singly_inderect_blk_ptr :: "u8 list \<Rightarrow> u32" where
  "singly_inderect_blk_ptr ino = get32 88 ino"
definition doubly_inderect_blk_ptr :: "u8 list \<Rightarrow> u32" where
  "doubly_inderect_blk_ptr ino = get32 92 ino"
definition triply_inderect_blk_ptr :: "u8 list \<Rightarrow> u32" where
  "triply_inderect_blk_ptr ino = get32 96 ino"

fun fold_opt :: "('a \<Rightarrow> 's \<Rightarrow> 's option) \<Rightarrow> 'a list \<Rightarrow> 's \<Rightarrow> 's option" where
  "fold_opt f [] s = Some s"
| "fold_opt f (x # xs) s = (case f x s of None \<Rightarrow> None | Some s1 \<Rightarrow> fold_opt f xs s1)"

definition freed_entries :: "ext2_fs_t \<Rightarrow> nat" where
  "freed_entries fs = unat (sb_blk_size (sb fs) div 4)"

text \<open>Level 0 is a data block; level \<open>l + 1\<close> is a block of pointers to level \<open>l\<close>.\<close>

primrec free_indirect :: "nat \<Rightarrow> u32 \<Rightarrow> ext2_fs_t \<Rightarrow> ext2_fs_t option" where
  "free_indirect 0 = free_block"
| "free_indirect (Suc l) = (\<lambda>block_num fs.
     let blocks = read_block fs block_num 1 in
     case fold_opt (\<lambda>i fs1. if get32 (4 * i) blocks = 0 then Some fs1
                      else free_indirect l (get32 (4 * i) blocks) fs1)
            [0..<freed_entries fs] fs of None \<Rightarrow> None
     | Some fs2 \<Rightarrow> free_block block_num fs2)"

definition free_direct :: "nat \<Rightarrow> u8 list \<times> ext2_fs_t \<Rightarrow> (u8 list \<times> ext2_fs_t) option" where
  "free_direct i s = (case s of (ino, fs) \<Rightarrow>
     if direct_blk_ptr ino i = 0 then Some (ino, fs)
     else map_option (\<lambda>fs1. (put32 (40 + 4 * i) 0 ino, fs1)) (free_block (direct_blk_ptr ino i) fs))"

definition free_level :: "nat \<times> nat \<Rightarrow> u8 list \<times> ext2_fs_t \<Rightarrow> (u8 list \<times> ext2_fs_t) option" where
  "free_level lo s = (case lo of (l, off) \<Rightarrow> (case s of (ino, fs) \<Rightarrow>
     if get32 off ino = 0 then Some (ino, fs)
     else map_option (\<lambda>fs1. (put32 off 0 ino, fs1)) (free_indirect l (get32 off ino) fs)))"

definition free_blocks :: "u8 list \<Rightarrow> ext2_fs_t \<Rightarrow> (u8 list \<times> ext2_fs_t) option" where
  "free_blocks ino fs =
     (case fold_opt free_direct [0..<12] (ino, fs) of None \<Rightarrow> None
      | Some s \<Rightarrow> fold_opt free_level [(1, 88), (2, 92), (3, 96)] s)"

section \<open>Inodes\<close>

definition EXT2_FIRST_NONRESERVED_INO :: nat where "EXT2_FIRST_NONRESERVED_INO = 11"
definition sizeof_inode_t :: nat where "sizeof_inode_t = 128"

definition load_inode :: "ext2_fs_t \<Rightarrow> u32 \<Rightarrow> u8 list option" where
  "load_inode fs inode_num =
     (if sb_blkgroup_inode_num (sb fs) = 0 \<or> block_size fs = 0 then None
      else
        let grp = (inode_num - 1) div sb_blkgroup_inode_num (sb fs);
            index = (inode_num - 1) mod sb_blkgroup_inode_num (sb fs);
            offset = index * ucast (sb_inode_size (sb fs));
            block_num = bg_inode_table fs (unat grp) + offset div block_size fs;
            offset_in_block = unat (offset mod block_size fs);
            buffer = read_block fs block_num 1
        in if length buffer < offset_in_block + sizeof_inode_t then None
           else Some (get_bytes offset_in_block sizeof_inode_t buffer))"

definition write_inode :: "ext2_fs_t \<Rightarrow> u32 \<Rightarrow> u8 list \<Rightarrow> ext2_fs_t option" where
  "write_inode fs inode_num ino =
     (if inodes_per_group fs = 0 \<or> block_size fs = 0 then None
      else
        let index = inode_num - 1;
            grp = index div inodes_per_group fs;
            index_in_group = index mod inodes_per_group fs;
            offset = index_in_group * ucast (sb_inode_size (sb fs));
            block_num = bg_inode_table fs (unat grp) + offset div block_size fs;
            byte_offset = unat (offset mod block_size fs);
            buf = read_block fs block_num 1;
            copy_size = min sizeof_inode_t (unat (sb_inode_size (sb fs)))
        in if length buf < byte_offset + copy_size then None
           else Some (write_block fs block_num (put_bytes byte_offset (take copy_size ino) buf) 1))"

definition take_inode_bit :: "ext2_fs_t \<Rightarrow> u32 \<Rightarrow> u8 list \<Rightarrow> nat \<Rightarrow> ext2_fs_t" where
  "take_inode_bit fs grp bm bit_no =
     (let fs1 = write_inode_bitmap fs grp (set_bitmap_bit bm bit_no);
          fs2 = add_free_inodes (unat grp) (- 1) fs1;
          fs3 = add_sb_inodes (- 1) fs2
      in rewrite_sb (rewrite_bgds fs3))"

text \<open>The number of the inode at an offset of a group, and the bit the code looks at for it.\<close>

definition ino_of :: "ext2_fs_t \<Rightarrow> u32 \<Rightarrow> nat \<Rightarrow> u32" where
  "ino_of fs grp i = grp * inodes_per_group fs + of_nat i + 1"

fun alloc_inode_loop :: "u32 \<Rightarrow> nat \<Rightarrow> ext2_fs_t \<Rightarrow> (u32 \<times> ext2_fs_t) option" where
  "alloc_inode_loop grp 0 fs = None"
| "alloc_inode_loop grp (Suc n) fs =
     (if bg_free_inodes fs (unat grp) = 0 then alloc_inode_loop (grp + 1) n fs
      else case get_inode_bitmap fs grp of None \<Rightarrow> None
      | Some bm \<Rightarrow>
        (case find_clear (\<lambda>i. unat (ino_of fs grp i - 1))
                (\<lambda>i. unat (ino_of fs grp i) < EXT2_FIRST_NONRESERVED_INO) bm 0 (unat (inodes_per_group fs)) of
          None \<Rightarrow> None
        | Some None \<Rightarrow> alloc_inode_loop (grp + 1) n fs
        | Some (Some i) \<Rightarrow>
            Some (ino_of fs grp i, take_inode_bit fs grp bm (unat (ino_of fs grp i - 1)))))"

definition alloc_inode :: "ext2_fs_t \<Rightarrow> (u32 \<times> ext2_fs_t) option" where
  "alloc_inode fs =
     (if sb_blkgroup_blk_num (sb fs) = 0 then None
      else alloc_inode_loop 0 (unat (groups_count fs)) fs)"

definition free_inode :: "u32 \<Rightarrow> ext2_fs_t \<Rightarrow> ext2_fs_t option" where
  "free_inode inode_num fs =
     (if inode_num = 0 then Some fs
      else if sb_blkgroup_inode_num (sb fs) = 0 \<or> sb_blkgroup_blk_num (sb fs) = 0 then None
      else
        let grp = (inode_num - 1) div sb_blkgroup_inode_num (sb fs);
            offset = unat ((inode_num - 1) mod sb_blkgroup_inode_num (sb fs));
            bm = get_inode_bitmap fs grp
        in if (case bm of None \<Rightarrow> False | Some b \<Rightarrow> \<not> in_bitmap b offset) then None
           else
             let bm1 = map_option (\<lambda>b. clear_bitmap_bit b offset) bm;
                 fs1 = add_free_inodes (unat grp) 1 fs;
                 fs2 = add_sb_inodes 1 fs1;
                 fs3 = (case bm1 of None \<Rightarrow> fs2 | Some b \<Rightarrow> write_inode_bitmap fs2 grp b)
             in Some (rewrite_sb (rewrite_bgds fs3)))"

text \<open>
  \<open>check_inode_status\<close> reads the bitmap after giving it back to the heap; \<open>kfree\<close> leaves its
  bytes as they were.
\<close>

definition check_inode_status :: "ext2_fs_t \<Rightarrow> u32 \<Rightarrow> bool option" where
  "check_inode_status fs inode_num =
     (if inodes_per_group fs = 0 \<or> sb_blkgroup_blk_num (sb fs) = 0 then None
      else case get_inode_bitmap fs ((inode_num - 1) div inodes_per_group fs) of
        None \<Rightarrow> Some False
      | Some bm \<Rightarrow>
          if \<not> in_bitmap bm (unat (inode_num - 1)) then None
          else Some (test_bit bm (unat (inode_num - 1))))"

end
