(* ===== verification/Ext2Store.thy ===== *)
theory Ext2Store
  imports Ext2Block
begin

text \<open>
  What the storage layer of the Ext2 file system promises: blocks are cells that a write
  changes one of, the allocator takes a clear bit and freeing gives it back, and an inode that
  was written is loaded again.
\<close>

section \<open>Blocks as cells\<close>

fun wr_all :: "('s \<Rightarrow> 'k \<Rightarrow> 'v \<Rightarrow> 's) \<Rightarrow> ('k \<times> 'v) list \<Rightarrow> 's \<Rightarrow> 's" where
  "wr_all wr [] s = s"
| "wr_all wr ((a, v) # avs) s = wr_all wr avs (wr s a v)"

text \<open>
  A store of cells: what is written to a valid cell is read from it, and no other valid cell
  changes.
\<close>

locale cell_store =
  fixes rd :: "'s \<Rightarrow> 'k \<Rightarrow> 'v" and wr :: "'s \<Rightarrow> 'k \<Rightarrow> 'v \<Rightarrow> 's"
    and valid :: "'s \<Rightarrow> 'k \<Rightarrow> bool" and fits :: "'s \<Rightarrow> 'v \<Rightarrow> bool"
  assumes rd_wr: "valid s a \<Longrightarrow> valid s b \<Longrightarrow> fits s v \<Longrightarrow> rd (wr s a v) b = (if a = b then v else rd s b)"
    and valid_wr: "valid s a \<Longrightarrow> fits s v \<Longrightarrow> valid (wr s a v) b = valid s b"
    and fits_wr: "valid s a \<Longrightarrow> fits s v \<Longrightarrow> fits (wr s a v) w = fits s w"
begin

lemma rd_wr_all_other:
  "valid s b \<Longrightarrow> b \<notin> fst ` set avs \<Longrightarrow> (\<forall>(a, v) \<in> set avs. valid s a \<and> fits s v) \<Longrightarrow>
   rd (wr_all wr avs s) b = rd s b"
proof (induction avs arbitrary: s)
  case (Cons av avs)
  obtain a v where av: "av = (a, v)" by (cases av)
  then have a: "valid s a" "fits s v" using Cons.prems(3) by auto
  have "rd (wr_all wr avs (wr s a v)) b = rd (wr s a v) b"
    using Cons.prems a by (intro Cons.IH) (auto simp: valid_wr fits_wr)
  then show ?case using Cons.prems a by (auto simp: av rd_wr)
qed simp

lemma valid_wr_all:
  "(\<forall>(a, v) \<in> set avs. valid s a \<and> fits s v) \<Longrightarrow> valid (wr_all wr avs s) b = valid s b"
proof (induction avs arbitrary: s)
  case (Cons av avs)
  obtain a v where av: "av = (a, v)" by (cases av)
  then have a: "valid s a" "fits s v" using Cons.prems by auto
  have "valid (wr_all wr avs (wr s a v)) b = valid (wr s a v) b"
    using Cons.prems a by (intro Cons.IH) (auto simp: valid_wr fits_wr)
  then show ?case using a by (simp add: av valid_wr)
qed simp

lemma rd_wr_all_same:
  "(a, v) \<in> set avs \<Longrightarrow> distinct (map fst avs) \<Longrightarrow> (\<forall>(a, v) \<in> set avs. valid s a \<and> fits s v) \<Longrightarrow>
   rd (wr_all wr avs s) a = v"
proof (induction avs arbitrary: s)
  case (Cons av avs)
  obtain a' v' where av: "av = (a', v')" by (cases av)
  then have a: "valid s a'" "fits s v'" "\<forall>(a, v) \<in> set avs. valid (wr s a' v') a \<and> fits (wr s a' v') v"
    using Cons.prems(3) by (auto simp: valid_wr fits_wr)
  show ?case
  proof (cases "a = a'")
    case True
    then have "v = v'" "a \<notin> fst ` set avs"
      using Cons.prems(1,2) by (auto simp: av intro: rev_image_eqI)
    then show ?thesis
      using True a by (simp add: av rd_wr_all_other [OF _ _ a(3)] valid_wr rd_wr)
  next
    case False
    then show ?thesis using Cons.IH [OF _ _ a(3)] Cons.prems(1,2) by (auto simp: av)
  qed
qed simp

end

text \<open>The sectors of a block, and the blocks that lie within the drive's 32-bit sector numbers.\<close>

definition block_sectors :: "ext2_fs_t \<Rightarrow> nat" where
  "block_sectors fs = unat (block_size fs) div 512"

definition blocks_ok :: "ext2_fs_t \<Rightarrow> bool" where
  "blocks_ok fs \<longleftrightarrow> 512 dvd unat (block_size fs) \<and> block_size fs \<noteq> 0 \<and> (\<forall>x. length (disk fs x) = 512)"

definition on_disk :: "ext2_fs_t \<Rightarrow> u32 \<Rightarrow> bool" where
  "on_disk fs b \<longleftrightarrow> blocks_ok fs \<and> (unat b + 1) * unat (block_size fs) \<le> 2 ^ 32
     \<and> unat (partition_start fs) + (unat b + 1) * block_sectors fs \<le> 2 ^ 32"

definition block_fits :: "ext2_fs_t \<Rightarrow> u8 list \<Rightarrow> bool" where
  "block_fits fs v \<longleftrightarrow> length v = unat (block_size fs)"

lemma disk_write_other: "n \<le> unat (x - lba) \<Longrightarrow> disk_write lba n buf d x = d x"
proof (induction n arbitrary: lba buf d)
  case (Suc n)
  have nz: "x - lba \<noteq> 0" using Suc.prems by auto
  then have "unat (x - lba - 1) = unat (x - lba) - 1" by (rule unat_minus_one)
  then have "n \<le> unat (x - (lba + 1))" using Suc.prems by (simp add: diff_diff_eq)
  then show ?case using Suc.IH nz by auto
qed simp

lemma disk_read_cong:
  "(\<And>i. i < n \<Longrightarrow> d (lba + of_nat i) = d' (lba + of_nat i)) \<Longrightarrow> disk_read lba n d = disk_read lba n d'"
proof (induction n arbitrary: lba)
  case (Suc n)
  have "d (lba + 1 + of_nat i) = d' (lba + 1 + of_nat i)" if "i < n" for i
    using Suc.prems [of "Suc i"] that by (simp add: add.assoc)
  then show ?case using Suc.IH [of "lba + 1"] Suc.prems [of 0] by simp
qed simp

lemma disk_read_write: "n \<le> 2 ^ 32 \<Longrightarrow> length buf = 512 * n \<Longrightarrow> disk_read lba n (disk_write lba n buf d) = buf"
proof (induction n arbitrary: lba buf d)
  case (Suc n)
  have "lba - (lba + 1) = - 1" by simp
  then have "unat (lba - (lba + 1)) = 2 ^ 32 - 1"
    by (simp only: unsigned_minus_1_eq_mask) (simp add: mask_eq_exp_minus_1)
  then have "disk_write (lba + 1) n (drop 512 buf) (d(lba := take 512 buf)) lba = take 512 buf"
    using Suc.prems(1) by (subst disk_write_other) simp_all
  then show ?case using Suc by simp
qed simp

lemma disk_write_length:
  "\<forall>x. length (d x) = 512 \<Longrightarrow> length buf = 512 * n \<Longrightarrow> length (disk_write lba n buf d x) = 512"
  by (induction n arbitrary: lba buf d) auto

lemma block_div: "unat ((b :: u32) div 512) = unat b div 512"
  by (simp add: unat_div)

lemma unat_block_lba:
  assumes "on_disk fs b"
  shows "unat (block_lba fs b) = unat (partition_start fs) + unat b * block_sectors fs"
    and "lba_blocks fs 1 = block_sectors fs"
proof -
  obtain k where k: "unat (block_size fs) = 512 * k" using assms by (auto simp: on_disk_def blocks_ok_def)
  have sec: "block_sectors fs = k" by (simp add: block_sectors_def k)
  have "unat (block_size fs) \<noteq> 0" using assms by (simp add: on_disk_def blocks_ok_def unat_eq_0)
  then have le: "unat b * unat (block_size fs) < 2 ^ 32" using assms by (auto simp: on_disk_def)
  have m: "unat (b * block_size fs) = unat b * unat (block_size fs)"
    by (rule unat_mult_no_wrap) (use le in simp)
  have d: "unat ((b * block_size fs) div 512) = unat b * k"
    by (simp only: block_div m k; simp)
  have "k \<noteq> 0" using \<open>unat (block_size fs) \<noteq> 0\<close> k by auto
  then have "unat (partition_start fs) + unat b * k < 2 ^ 32"
    using assms sec by (auto simp: on_disk_def)
  then show "unat (block_lba fs b) = unat (partition_start fs) + unat b * block_sectors fs"
    unfolding block_lba_def by (subst unat_add_no_wrap) (simp_all add: d sec)
  show "lba_blocks fs 1 = block_sectors fs" by (simp add: lba_blocks_def block_sectors_def block_div)
qed

lemma write_block_fields [simp]:
  "partition_start (write_block fs a v n) = partition_start fs" "sb (write_block fs a v n) = sb fs"
  "blk_grp_descs (write_block fs a v n) = blk_grp_descs fs" "block_size (write_block fs a v n) = block_size fs"
  "blocks_per_group (write_block fs a v n) = blocks_per_group fs"
  "inodes_per_group (write_block fs a v n) = inodes_per_group fs"
  "total_groups (write_block fs a v n) = total_groups fs"
  "blk_grp_desc_blocks (write_block fs a v n) = blk_grp_desc_blocks fs"
  by (simp_all add: write_block_def)

lemma blocks_ok_write:
  assumes "on_disk fs a" and "block_fits fs v"
  shows "blocks_ok (write_block fs a v 1)"
proof -
  have "length v = 512 * lba_blocks fs 1"
    using assms unat_block_lba(2) [OF assms(1)]
    by (auto simp: block_fits_def on_disk_def blocks_ok_def block_sectors_def)
  then show ?thesis
    using assms(1) by (simp add: on_disk_def blocks_ok_def write_block_def disk_write_length)
qed

lemma read_write_block:
  assumes "on_disk fs a" and "on_disk fs b" and "block_fits fs v"
  shows "read_block (write_block fs a v 1) b 1 = (if a = b then v else read_block fs b 1)"
proof -
  let ?k = "block_sectors fs"
  have len: "length v = 512 * ?k"
    using assms by (auto simp: block_fits_def on_disk_def blocks_ok_def block_sectors_def)
  have kb: "?k \<le> 2 ^ 32" using assms(1) by (auto simp: on_disk_def)
  have rb: "read_block (write_block fs a v 1) b 1 = disk_read (block_lba fs b) ?k (disk_write (block_lba fs a) ?k v (disk fs))"
    using unat_block_lba(2) [OF assms(1)] by (simp add: read_block_def write_block_def block_lba_def lba_blocks_def)
  show ?thesis
  proof (cases "a = b")
    case True
    then show ?thesis using rb disk_read_write [OF kb len] by simp
  next
    case False
    have "disk_write (block_lba fs a) ?k v (disk fs) (block_lba fs b + of_nat i) = disk fs (block_lba fs b + of_nat i)"
      if "i < ?k" for i
    proof (rule disk_write_other)
      note la = unat_block_lba(1) [OF assms(1)] and lb = unat_block_lba(1) [OF assms(2)]
      have ob: "unat (partition_start fs) + (unat b + 1) * ?k \<le> 2 ^ 32" "unat (partition_start fs) + (unat a + 1) * ?k \<le> 2 ^ 32"
        using assms by (auto simp: on_disk_def)
      have ui: "unat (of_nat i :: u32) = i" using that kb by (simp add: unat_of_nat)
      have s: "unat (block_lba fs b + of_nat i) = unat (partition_start fs) + unat b * ?k + i"
        using ob that lb ui by (subst unat_add_no_wrap) auto
      have "unat a < unat b \<or> unat b < unat a" using False by (metis nat_neq_iff word_unat_eq_iff)
      then show "?k \<le> unat (block_lba fs b + of_nat i - block_lba fs a)"
      proof
        assume "unat a < unat b"
        then have "(unat a + 1) * ?k \<le> unat b * ?k" by (intro mult_right_mono) auto
        then have "block_lba fs a \<le> block_lba fs b + of_nat i" "unat a * ?k + ?k \<le> unat b * ?k"
          using s la by (auto simp: word_le_nat_alt)
        then show ?thesis using s la by (simp add: unat_sub)
      next
        assume "unat b < unat a"
        then have m: "(unat b + 1) * ?k \<le> unat a * ?k" by (intro mult_right_mono) auto
        then have lt: "unat (block_lba fs b + of_nat i) < unat (block_lba fs a)"
          using s la that by auto
        then have "unat (block_lba fs b + of_nat i - block_lba fs a)
          = unat (block_lba fs b + of_nat i) + 2 ^ 32 - unat (block_lba fs a)"
          by (simp add: unat_sub_if_size word_size)
        then show ?thesis using ob(2) la by auto
      qed
    qed
    then show ?thesis
      using rb False unat_block_lba(2) [OF assms(2)]
      by (simp add: read_block_def) (rule disk_read_cong, simp)
  qed
qed

lemma on_disk_write [simp]:
  assumes "on_disk fs a" and "block_fits fs v"
  shows "on_disk (write_block fs a v 1) b = on_disk fs b"
  using blocks_ok_write [OF assms] assms(1) by (simp add: on_disk_def block_sectors_def)

interpretation blocks: cell_store "\<lambda>fs b. read_block fs b 1" "\<lambda>fs b v. write_block fs b v 1" on_disk block_fits
  by unfold_locales (simp_all add: read_write_block, simp add: block_fits_def)

text \<open>Only the bytes of one block are written.\<close>

lemma disk_write_take: "disk_write lba n (take (512 * n) buf) d = disk_write lba n buf d"
proof (induction n arbitrary: lba buf d)
  case (Suc n)
  have "drop 512 (take (512 * Suc n) buf) = take (512 * n) (drop 512 buf)"
    and "take 512 (take (512 * Suc n) buf) = take 512 buf" by (simp_all add: drop_take)
  then show ?case by (simp only: disk_write.simps Suc.IH)
qed simp

lemma write_block_take:
  assumes "blocks_ok fs"
  shows "write_block fs b (take (unat (block_size fs)) v) 1 = write_block fs b v 1"
proof -
  have "unat (block_size fs) = 512 * lba_blocks fs 1"
    using assms by (auto simp: blocks_ok_def lba_blocks_def block_div)
  then show ?thesis by (simp add: write_block_def disk_write_take)
qed

section \<open>The layout of the metadata\<close>

definition bgd_blocks :: "ext2_fs_t \<Rightarrow> u32 list" where
  "bgd_blocks fs = map (\<lambda>j. bgd_start_block fs + of_nat j) [0..<unat (blk_grp_desc_blocks fs)]"

definition bitmap_blocks :: "ext2_fs_t \<Rightarrow> u32 list" where
  "bitmap_blocks fs = map (bg_block_bitmap fs) [0..<unat (groups_count fs)]
     @ map (bg_inode_bitmap fs) [0..<unat (groups_count fs)]"

definition meta_blocks :: "ext2_fs_t \<Rightarrow> u32 list" where
  "meta_blocks fs = bitmap_blocks fs @ bgd_blocks fs"

text \<open>The operations of this theory keep where things are and how large they are.\<close>

definition same_layout :: "ext2_fs_t \<Rightarrow> ext2_fs_t \<Rightarrow> bool" where
  "same_layout fs fs' \<longleftrightarrow> partition_start fs' = partition_start fs \<and> block_size fs' = block_size fs
     \<and> blocks_per_group fs' = blocks_per_group fs \<and> inodes_per_group fs' = inodes_per_group fs
     \<and> blk_grp_desc_blocks fs' = blk_grp_desc_blocks fs
     \<and> length (blk_grp_descs fs') = length (blk_grp_descs fs) \<and> length (sb fs') = length (sb fs)
     \<and> sb_blks_num (sb fs') = sb_blks_num (sb fs) \<and> sb_blkgroup_blk_num (sb fs') = sb_blkgroup_blk_num (sb fs)
     \<and> sb_blkgroup_inode_num (sb fs') = sb_blkgroup_inode_num (sb fs)
     \<and> sb_inode_size (sb fs') = sb_inode_size (sb fs) \<and> sb_blkgrp_superblk (sb fs') = sb_blkgrp_superblk (sb fs)
     \<and> sb_superblock_blk_num (sb fs') = sb_superblock_blk_num (sb fs) \<and> sb_blk_size (sb fs') = sb_blk_size (sb fs)
     \<and> (\<forall>g. bg_block_bitmap fs' g = bg_block_bitmap fs g \<and> bg_inode_bitmap fs' g = bg_inode_bitmap fs g
          \<and> bg_inode_table fs' g = bg_inode_table fs g)
     \<and> blocks_ok fs' = blocks_ok fs"

lemma same_layout_refl [simp]: "same_layout fs fs"
  by (simp add: same_layout_def)

lemma same_layout_trans [trans]: "same_layout a b \<Longrightarrow> same_layout b c \<Longrightarrow> same_layout a c"
  by (simp add: same_layout_def)

lemma same_layout_derived:
  assumes "same_layout fs fs'"
  shows "groups_count fs' = groups_count fs" "bgd_blocks fs' = bgd_blocks fs" "meta_blocks fs' = meta_blocks fs"
    "on_disk fs' b = on_disk fs b" "block_fits fs' v = block_fits fs v"
  using assms
  by (simp_all add: same_layout_def groups_count_def bgd_blocks_def bgd_start_block_def bitmap_blocks_def
      meta_blocks_def on_disk_def block_sectors_def block_fits_def cong: map_cong)

lemma same_layout_write:
  "on_disk fs a \<Longrightarrow> block_fits fs v \<Longrightarrow> same_layout fs (write_block fs a v 1)"
  using blocks_ok_write
  by (simp add: same_layout_def bg_block_bitmap_def bg_inode_bitmap_def bg_inode_table_def on_disk_def)

lemma same_layout_counts [simp]:
  "same_layout fs (add_free_blocks g k fs)" "same_layout fs (add_free_inodes g k fs)"
  "same_layout fs (add_sb_blocks m fs)" "same_layout fs (add_sb_inodes m fs)"
proof -
  have a: "32 * h + o' + 4 \<le> 32 * g + oo \<or> 32 * g + oo + 2 \<le> 32 * h + o'"
    if "o' + 4 \<le> oo" "oo + 2 \<le> 32" for h o' oo :: nat
    using that by (cases "h \<le> g") auto
  have r: "get32 (32 * h + o') (put16 (32 * g + oo) v d) = get32 (32 * h + o') d"
    if "o' + 4 \<le> oo" "oo + 2 \<le> 32" for h o' oo v d
    using a [OF that] by (rule fields_apart)
  show "same_layout fs (add_free_blocks g k fs)" "same_layout fs (add_free_inodes g k fs)"
    using r [of 0] r [of 4] r [of 8]
    by (simp_all add: same_layout_def add_free_blocks_def add_free_inodes_def bg_block_bitmap_def
        bg_inode_bitmap_def bg_inode_table_def blocks_ok_def)
  show "same_layout fs (add_sb_blocks m fs)" "same_layout fs (add_sb_inodes m fs)"
    by (simp_all add: same_layout_def add_sb_blocks_def add_sb_inodes_def bg_block_bitmap_def
        bg_inode_bitmap_def bg_inode_table_def blocks_ok_def sb_blks_num_def sb_blkgroup_blk_num_def
        sb_blkgroup_inode_num_def sb_inode_size_def sb_blkgrp_superblk_def sb_superblock_blk_num_def
        sb_blk_size_def)
qed

definition fs_ok :: "ext2_fs_t \<Rightarrow> bool" where
  "fs_ok fs \<longleftrightarrow> blocks_ok fs \<and> sb_blkgroup_blk_num (sb fs) \<noteq> 0
     \<and> blocks_per_group fs = sb_blkgroup_blk_num (sb fs) \<and> unat (blocks_per_group fs) \<le> 8 * unat (block_size fs)
     \<and> unat (groups_count fs) * unat (blocks_per_group fs) \<le> 2 ^ 32
     \<and> length (blk_grp_descs fs) = unat (blk_grp_desc_blocks fs) * unat (block_size fs)
     \<and> 32 * unat (groups_count fs) \<le> length (blk_grp_descs fs) \<and> length (sb fs) = 1024
     \<and> distinct (meta_blocks fs) \<and> (\<forall>b \<in> set (meta_blocks fs). on_disk fs b)"

lemma fs_ok_same_layout: "same_layout fs fs' \<Longrightarrow> fs_ok fs' = fs_ok fs"
  using same_layout_derived [of fs fs'] by (simp add: fs_ok_def) (simp add: same_layout_def)

text \<open>Rewriting the descriptors changes only their blocks.\<close>

definition bgd_writes :: "ext2_fs_t \<Rightarrow> u8 list \<Rightarrow> nat \<Rightarrow> nat \<Rightarrow> (u32 \<times> u8 list) list" where
  "bgd_writes fs ds i n = map (\<lambda>j. (bgd_start_block fs + of_nat j,
     take (unat (block_size fs)) (drop (j * unat (block_size fs)) ds))) [i..<i + n]"

lemma rewrite_bgds_loop_eq:
  assumes "\<forall>(b, v) \<in> set (bgd_writes fs (blk_grp_descs fs) i n). on_disk fs b \<and> block_fits fs v" and "blocks_ok fs"
  shows "rewrite_bgds_loop (bgd_start_block fs) i n fs
    = wr_all (\<lambda>fs b v. write_block fs b v 1) (bgd_writes fs (blk_grp_descs fs) i n) fs"
  using assms
proof (induction n arbitrary: i fs)
  case (Suc n)
  let ?v = "drop (i * unat (block_size fs)) (blk_grp_descs fs)" and ?b = "bgd_start_block fs + of_nat i"
  let ?fs = "write_block fs ?b ?v 1"
  have w: "?fs = write_block fs ?b (take (unat (block_size fs)) ?v) 1"
    using write_block_take [OF Suc.prems(2)] by simp
  have bw: "bgd_writes fs ds i (Suc n) = (?b, take (unat (block_size fs)) (drop (i * unat (block_size fs)) ds))
      # bgd_writes fs ds (i + 1) n" for ds
    by (simp add: bgd_writes_def upt_conv_Cons del: upt_Suc)
  have od: "on_disk fs ?b" "block_fits fs (take (unat (block_size fs)) ?v)"
    using Suc.prems(1) by (simp_all add: bw)
  note sl = same_layout_write [OF od, folded w]
  have same: "bgd_writes ?fs (blk_grp_descs ?fs) (i + 1) n = bgd_writes fs (blk_grp_descs fs) (i + 1) n"
    "bgd_start_block ?fs = bgd_start_block fs"
    by (simp_all add: bgd_writes_def bgd_start_block_def)
  have "\<forall>(b, v) \<in> set (bgd_writes ?fs (blk_grp_descs ?fs) (i + 1) n). on_disk ?fs b \<and> block_fits ?fs v"
    unfolding same same_layout_derived [OF sl] using Suc.prems(1) by (simp add: bw)
  moreover have "blocks_ok ?fs" using sl Suc.prems(2) by (simp add: same_layout_def)
  ultimately have "rewrite_bgds_loop (bgd_start_block ?fs) (i + 1) n ?fs
    = wr_all (\<lambda>fs b v. write_block fs b v 1) (bgd_writes ?fs (blk_grp_descs ?fs) (i + 1) n) ?fs"
    by (rule Suc.IH)
  then show ?case
    unfolding same bw rewrite_bgds_loop.simps wr_all.simps w [symmetric] .
qed (simp add: bgd_writes_def)

lemma wr_all_fields:
  "\<forall>(b, v) \<in> set ws. on_disk fs b \<and> block_fits fs v \<Longrightarrow>
   same_layout fs (wr_all (\<lambda>fs b v. write_block fs b v 1) ws fs)
   \<and> blk_grp_descs (wr_all (\<lambda>fs b v. write_block fs b v 1) ws fs) = blk_grp_descs fs
   \<and> sb (wr_all (\<lambda>fs b v. write_block fs b v 1) ws fs) = sb fs"
proof (induction ws arbitrary: fs)
  case (Cons bv ws)
  obtain b v where bv: "bv = (b, v)" by (cases bv)
  have od: "on_disk fs b" "block_fits fs v" using Cons.prems by (auto simp: bv)
  note sl = same_layout_write [OF od]
  have "\<forall>(b', v') \<in> set ws. on_disk (write_block fs b v 1) b' \<and> block_fits (write_block fs b v 1) v'"
    using Cons.prems same_layout_derived [OF sl] by auto
  from Cons.IH [OF this] show ?case using sl by (auto simp: bv intro: same_layout_trans)
qed simp

lemma rewrite_bgds_effect:
  assumes "fs_ok fs"
  shows "same_layout fs (rewrite_bgds fs)" "blk_grp_descs (rewrite_bgds fs) = blk_grp_descs fs"
    "sb (rewrite_bgds fs) = sb fs"
    "on_disk fs b \<Longrightarrow> b \<notin> set (bgd_blocks fs) \<Longrightarrow> read_block (rewrite_bgds fs) b 1 = read_block fs b 1"
proof -
  let ?n = "unat (blk_grp_desc_blocks fs)" and ?bs = "unat (block_size fs)"
  let ?ws = "bgd_writes fs (blk_grp_descs fs) 0 ?n"
  have fst: "map fst ?ws = bgd_blocks fs" by (simp add: bgd_writes_def bgd_blocks_def comp_def)
  have fit: "j * ?bs + ?bs \<le> length (blk_grp_descs fs)" if "j < ?n" for j
  proof -
    have "Suc j * ?bs \<le> ?n * ?bs" using that by (intro mult_right_mono) auto
    then show ?thesis using assms by (simp add: fs_ok_def)
  qed
  have ok: "\<forall>(b, v) \<in> set ?ws. on_disk fs b \<and> block_fits fs v"
  proof (clarify, intro conjI)
    fix b v
    assume bv: "(b, v) \<in> set ?ws"
    then have "b \<in> set (bgd_blocks fs)" unfolding fst [symmetric] by force
    then show "on_disk fs b" using assms by (auto simp: fs_ok_def meta_blocks_def)
    obtain j where "j < ?n" "v = take ?bs (drop (j * ?bs) (blk_grp_descs fs))"
      using bv by (auto simp: bgd_writes_def)
    then show "block_fits fs v" using fit [of j] by (simp add: block_fits_def)
  qed
  have eq: "rewrite_bgds fs = wr_all (\<lambda>fs b v. write_block fs b v 1) ?ws fs"
    unfolding rewrite_bgds_def using ok assms by (intro rewrite_bgds_loop_eq) (auto simp: fs_ok_def)
  show "same_layout fs (rewrite_bgds fs)" "blk_grp_descs (rewrite_bgds fs) = blk_grp_descs fs"
    "sb (rewrite_bgds fs) = sb fs"
    using wr_all_fields [OF ok] by (simp_all add: eq)
  show "read_block (rewrite_bgds fs) b 1 = read_block fs b 1" if "on_disk fs b" "b \<notin> set (bgd_blocks fs)"
    unfolding eq using that ok by (intro blocks.rd_wr_all_other) (auto simp flip: fst)
qed

section \<open>Bitmaps and the block allocator\<close>

lemma test_set_bitmap_bit:
  "in_bitmap bm i \<Longrightarrow> test_bit (set_bitmap_bit bm i) j \<longleftrightarrow> test_bit bm j \<or> i = j"
proof (cases "i div 8 = j div 8")
  case True
  then have "i = j \<longleftrightarrow> i mod 8 = j mod 8" by (metis div_mult_mod_eq)
  moreover assume "in_bitmap bm i"
  ultimately show ?thesis using True
    by (auto simp: in_bitmap_def test_bit_def set_bitmap_bit_def bit_set_bit_iff)
qed (auto simp: in_bitmap_def test_bit_def set_bitmap_bit_def nth_list_update)

lemma test_clear_bitmap_bit:
  "in_bitmap bm i \<Longrightarrow> test_bit (clear_bitmap_bit bm i) j \<longleftrightarrow> test_bit bm j \<and> i \<noteq> j"
proof (cases "i div 8 = j div 8")
  case True
  then have "i = j \<longleftrightarrow> i mod 8 = j mod 8" by (metis div_mult_mod_eq)
  moreover assume "in_bitmap bm i"
  ultimately show ?thesis using True
    by (auto simp: in_bitmap_def test_bit_def clear_bitmap_bit_def bit_unset_bit_iff)
qed (auto simp: in_bitmap_def test_bit_def clear_bitmap_bit_def nth_list_update)

lemma length_bitmap_bits [simp]:
  "length (set_bitmap_bit bm i) = length bm" "length (clear_bitmap_bit bm i) = length bm"
  by (simp_all add: set_bitmap_bit_def clear_bitmap_bit_def)

lemma find_clear_eq:
  "i + n \<le> 8 * length bm \<Longrightarrow>
   find_clear id (\<lambda>_. False) bm i n = Some (List.find (\<lambda>j. \<not> test_bit bm j) [i..<i + n])"
proof (induction n arbitrary: i)
  case (Suc n)
  then have "in_bitmap bm i" by (simp add: in_bitmap_def)
  then show ?case using Suc by (simp add: upt_conv_Cons del: upt_Suc)
qed simp

text \<open>A block is in use when its bit is set.\<close>

definition used :: "ext2_fs_t \<Rightarrow> nat \<Rightarrow> nat \<Rightarrow> bool" where
  "used fs g i = test_bit (read_block fs (bg_block_bitmap fs g) 1) i"

definition group_has_free :: "ext2_fs_t \<Rightarrow> nat \<Rightarrow> bool" where
  "group_has_free fs g \<longleftrightarrow> bg_free_blocks fs g \<noteq> 0 \<and> (\<exists>i < unat (blocks_per_group fs). \<not> used fs g i)"

lemma length_disk_read: "\<forall>x. length (d x) = 512 \<Longrightarrow> length (disk_read lba n d) = 512 * n"
  by (induction n arbitrary: lba) simp_all

lemma length_read_block:
  assumes "blocks_ok fs"
  shows "length (read_block fs b 1) = unat (block_size fs)"
proof -
  have "512 * lba_blocks fs 1 = unat (block_size fs)"
    using assms by (auto simp: blocks_ok_def lba_blocks_def block_div)
  then show ?thesis using assms by (simp add: read_block_def blocks_ok_def length_disk_read)
qed

lemma fs_ok_blocks:
  assumes "fs_ok fs" and "g < unat (groups_count fs)"
  shows "on_disk fs (bg_block_bitmap fs g)" "on_disk fs (bg_inode_bitmap fs g)"
    "bg_block_bitmap fs g \<notin> set (bgd_blocks fs)" "bg_inode_bitmap fs g \<notin> set (bgd_blocks fs)"
    "h < unat (groups_count fs) \<Longrightarrow> bg_block_bitmap fs g = bg_block_bitmap fs h \<longleftrightarrow> g = h"
    "h < unat (groups_count fs) \<Longrightarrow> bg_inode_bitmap fs g = bg_inode_bitmap fs h \<longleftrightarrow> g = h"
    "h < unat (groups_count fs) \<Longrightarrow> bg_block_bitmap fs g \<noteq> bg_inode_bitmap fs h"
proof -
  have d: "distinct (meta_blocks fs)" "\<forall>b \<in> set (meta_blocks fs). on_disk fs b"
    using assms(1) by (auto simp: fs_ok_def)
  let ?G = "unat (groups_count fs)"
  have mem: "bg_block_bitmap fs g \<in> set (map (bg_block_bitmap fs) [0..<?G])"
    "bg_inode_bitmap fs g \<in> set (map (bg_inode_bitmap fs) [0..<?G])" using assms(2) by auto
  show "on_disk fs (bg_block_bitmap fs g)" "on_disk fs (bg_inode_bitmap fs g)"
    "bg_block_bitmap fs g \<notin> set (bgd_blocks fs)" "bg_inode_bitmap fs g \<notin> set (bgd_blocks fs)"
    using d mem unfolding meta_blocks_def bitmap_blocks_def distinct_append set_append by blast+
  have inj: "inj_on (bg_block_bitmap fs) {0..<?G}" "inj_on (bg_inode_bitmap fs) {0..<?G}"
    using d(1) by (simp_all add: meta_blocks_def bitmap_blocks_def distinct_map)
  show "bg_block_bitmap fs g = bg_block_bitmap fs h \<longleftrightarrow> g = h"
    "bg_inode_bitmap fs g = bg_inode_bitmap fs h \<longleftrightarrow> g = h" if "h < ?G"
    using inj that assms(2) by (auto dest: inj_onD)
  show "bg_block_bitmap fs g \<noteq> bg_inode_bitmap fs h" if "h < ?G"
  proof -
    have "set (map (bg_block_bitmap fs) [0..<?G]) \<inter> set (map (bg_inode_bitmap fs) [0..<?G]) = {}"
      using d(1) by (simp add: meta_blocks_def bitmap_blocks_def) blast
    then show ?thesis using that assms(2) by force
  qed
qed

text \<open>
  A bitmap block is replaced, counters change, and the descriptors are written: what is left of
  the other blocks.
\<close>

definition commit_bitmap :: "u32 \<Rightarrow> u8 list \<Rightarrow> ext2_fs_t \<Rightarrow> ext2_fs_t \<Rightarrow> ext2_fs_t" where
  "commit_bitmap a bm fs fs' = rewrite_bgds (fs'\<lparr>disk := disk (write_block fs a bm 1)\<rparr>)"

lemma commit_effect:
  assumes "fs_ok fs" and "on_disk fs a" and "a \<notin> set (bgd_blocks fs)" and "length bm = unat (block_size fs)"
    and "same_layout fs fs'" and "disk fs' = disk fs"
  shows "fs_ok (commit_bitmap a bm fs fs')" "same_layout fs (commit_bitmap a bm fs fs')"
    "blk_grp_descs (commit_bitmap a bm fs fs') = blk_grp_descs fs'" "sb (commit_bitmap a bm fs fs') = sb fs'"
    "on_disk fs b \<Longrightarrow> b \<notin> set (bgd_blocks fs) \<Longrightarrow>
      read_block (commit_bitmap a bm fs fs') b 1 = (if a = b then bm else read_block fs b 1)"
proof -
  let ?f = "fs'\<lparr>disk := disk (write_block fs a bm 1)\<rparr>"
  have fit: "block_fits fs bm" using assms(4) by (simp add: block_fits_def)
  have "blocks_ok fs" using assms(1) by (simp add: fs_ok_def)
  then have sl: "same_layout fs ?f"
    using assms(5) blocks_ok_write [OF assms(2) fit]
    by (simp add: same_layout_def blocks_ok_def bg_block_bitmap_def bg_inode_bitmap_def bg_inode_table_def)
  then have ok: "fs_ok ?f" using assms(1) by (simp add: fs_ok_same_layout)
  show "same_layout fs (commit_bitmap a bm fs fs')"
    using same_layout_trans [OF sl rewrite_bgds_effect(1) [OF ok]] by (simp add: commit_bitmap_def)
  then show "fs_ok (commit_bitmap a bm fs fs')" using assms(1) by (simp add: fs_ok_same_layout)
  show "blk_grp_descs (commit_bitmap a bm fs fs') = blk_grp_descs fs'" "sb (commit_bitmap a bm fs fs') = sb fs'"
    using rewrite_bgds_effect(2,3) [OF ok] by (simp_all add: commit_bitmap_def)
  assume b: "on_disk fs b" "b \<notin> set (bgd_blocks fs)"
  have "read_block (commit_bitmap a bm fs fs') b 1 = read_block ?f b 1"
    unfolding commit_bitmap_def using b same_layout_derived [OF sl] by (intro rewrite_bgds_effect(4) [OF ok]) auto
  also have "\<dots> = read_block (write_block fs a bm 1) b 1"
    using assms(5) by (simp add: read_block_def block_lba_def lba_blocks_def same_layout_def)
  finally show "read_block (commit_bitmap a bm fs fs') b 1 = (if a = b then bm else read_block fs b 1)"
    using read_write_block [OF assms(2) b(1) fit] by simp
qed

lemma take_block_bit_commit:
  "g < unat (groups_count fs) \<Longrightarrow> grp = of_nat g \<Longrightarrow>
   take_block_bit fs grp bm i = commit_bitmap (bg_block_bitmap fs g) (set_bitmap_bit bm i) fs
     (add_sb_blocks (- 1) (add_free_blocks g (- 1) fs))"
proof -
  assume g: "g < unat (groups_count fs)" "grp = of_nat g"
  then have "unat grp = g" "grp < groups_count fs"
    using unat_less_lit [of "groups_count fs"] by (simp_all add: unat_of_nat word_less_nat_alt)
  then show ?thesis
    by (simp add: take_block_bit_def Let_def rewrite_sb_def commit_bitmap_def write_block_bitmap_def not_le
        add_free_blocks_def add_sb_blocks_def bg_free_blocks_def) (cases fs, simp add: write_block_def)
qed

lemma of_nat_group:
  "g < unat (groups_count fs) \<Longrightarrow> unat (of_nat g :: u32) = g \<and> \<not> groups_count fs \<le> of_nat g"
  using unat_less_lit [of "groups_count fs"] by (simp add: unat_of_nat not_le word_less_nat_alt)

text \<open>The search through the groups finds the first one with a free block.\<close>

lemma alloc_block_loop_finds:
  assumes "fs_ok fs" and "g + n = unat (groups_count fs)" and "g \<le> k" and "k < g + n" and "group_has_free fs k"
    and "\<forall>h. g \<le> h \<and> h < k \<longrightarrow> \<not> group_has_free fs h"
  shows "\<exists>i < unat (blocks_per_group fs). \<not> used fs k i \<and> (\<forall>j<i. used fs k j)
    \<and> alloc_block_loop (of_nat g) n fs = Some (of_nat k * blocks_per_group fs + of_nat i
        + ucast (sb_blkgrp_superblk (sb fs)),
        take_block_bit fs (of_nat k) (read_block fs (bg_block_bitmap fs k) 1) i)"
  using assms(2-)
proof (induction n arbitrary: g)
  case (Suc n)
  have g: "g < unat (groups_count fs)" using Suc.prems by simp
  have bok: "blocks_ok fs" "unat (blocks_per_group fs) \<le> 8 * unat (block_size fs)" using assms(1) by (auto simp: fs_ok_def)
  let ?bm = "read_block fs (bg_block_bitmap fs g) 1" and ?n = "unat (blocks_per_group fs)"
  have bm: "get_block_bitmap fs (of_nat g) = Some ?bm" using of_nat_group [OF g] by (simp add: get_block_bitmap_def)
  have fc: "find_clear id (\<lambda>_. False) ?bm 0 ?n = Some (List.find (\<lambda>j. \<not> used fs g j) [0..<?n])"
    using find_clear_eq [of 0 ?n ?bm] bok length_read_block [OF bok(1)] by (simp add: used_def)
  have next_grp: "of_nat g + 1 = (of_nat (g + 1) :: u32)" by simp
  show ?case
  proof (cases "group_has_free fs g")
    case True
    then have k: "k = g" using Suc.prems(2,5) by (cases "g = k") auto
    obtain i where i: "List.find (\<lambda>j. \<not> used fs g j) [0..<?n] = Some i"
      using True by (cases "List.find (\<lambda>j. \<not> used fs g j) [0..<?n]") (auto simp: group_has_free_def find_None_iff)
    then have ip: "i < ?n" "\<not> used fs g i" "\<forall>j<i. used fs g j" by (auto simp: find_Some_iff)
    have "bg_free_blocks fs (unat (of_nat g :: u32)) \<noteq> 0"
      using True of_nat_group [OF g] by (simp add: group_has_free_def)
    then have "alloc_block_loop (of_nat g) (Suc n) fs = Some (of_nat g * blocks_per_group fs + of_nat i
        + ucast (sb_blkgrp_superblk (sb fs)), take_block_bit fs (of_nat g) ?bm i)"
      using bm fc i by simp
    then show ?thesis using ip k by blast
  next
    case False
    then have "g \<noteq> k" using Suc.prems(4) by auto
    then have r: "\<exists>i < ?n. \<not> used fs k i \<and> (\<forall>j<i. used fs k j)
      \<and> alloc_block_loop (of_nat (g + 1)) n fs = Some (of_nat k * blocks_per_group fs + of_nat i
          + ucast (sb_blkgrp_superblk (sb fs)),
          take_block_bit fs (of_nat k) (read_block fs (bg_block_bitmap fs k) 1) i)"
      using Suc.prems by (intro Suc.IH) auto
    have "alloc_block_loop (of_nat g) (Suc n) fs = alloc_block_loop (of_nat (g + 1)) n fs"
    proof (cases "bg_free_blocks fs g = 0")
      case True
      then show ?thesis using of_nat_group [OF g] by (simp add: next_grp)
    next
      case nz: False
      then have "List.find (\<lambda>j. \<not> used fs g j) [0..<?n] = None"
        using False by (auto simp: group_has_free_def find_None_iff)
      then show ?thesis using of_nat_group [OF g] bm fc nz by (simp add: next_grp)
    qed
    then show ?thesis using r by simp
  qed
qed simp

lemma unat_block_number:
  assumes "fs_ok fs" and "g < unat (groups_count fs)" and "i < unat (blocks_per_group fs)"
  shows "unat (of_nat g * blocks_per_group fs + of_nat i :: u32) = g * unat (blocks_per_group fs) + i"
proof -
  let ?b = "unat (blocks_per_group fs)"
  have "(g + 1) * ?b \<le> unat (groups_count fs) * ?b" using assms(2) by (intro mult_right_mono) auto
  also have "\<dots> \<le> 2 ^ 32" using assms(1) by (auto simp: fs_ok_def)
  finally have le: "g * ?b + i < 2 ^ 32" using assms(3) by simp
  have "unat (of_nat (g * ?b + i) :: u32) = g * ?b + i"
    by (subst unat_of_nat) (use le in simp)
  then show ?thesis by simp
qed

text \<open>Freeing a block clears the bit the allocator set.\<close>

lemma free_block_commit:
  assumes "fs_ok fs" and "g < unat (groups_count fs)" and "i < unat (blocks_per_group fs)"
    and "n = of_nat g * blocks_per_group fs + of_nat i + ucast (sb_blkgrp_superblk (sb fs))" and "n \<noteq> 0"
  shows "free_block n fs = Some (commit_bitmap (bg_block_bitmap fs g)
    (clear_bitmap_bit (read_block fs (bg_block_bitmap fs g) 1) i) fs (add_sb_blocks 1 (add_free_blocks g 1 fs)))"
proof -
  let ?bpg = "blocks_per_group fs" and ?rel = "n - ucast (sb_blkgrp_superblk (sb fs))"
  have b: "sb_blkgroup_blk_num (sb fs) = ?bpg" "?bpg \<noteq> 0" "blocks_ok fs" "unat ?bpg \<le> 8 * unat (block_size fs)"
    using assms(1) by (auto simp: fs_ok_def)
  have rel: "unat ?rel = g * unat ?bpg + i" using unat_block_number [OF assms(1-3)] by (simp add: assms(4))
  have grp: "?rel div ?bpg = of_nat g"
    by (rule word_unat_eq_iff [THEN iffD2]) (use rel assms(3) of_nat_group [OF assms(2)] in \<open>simp add: unat_div\<close>)
  have off: "unat (?rel mod ?bpg) = i" using rel assms(3) by (simp add: unat_mod)
  have inb: "in_bitmap (read_block fs (bg_block_bitmap fs g) 1) i"
    using assms(3) b length_read_block [OF b(3)] by (simp add: in_bitmap_def)
  note og = of_nat_group [OF assms(2)]
  have sl: "same_layout fs (add_sb_blocks 1 (add_free_blocks g 1 fs))"
    by (rule same_layout_trans [OF same_layout_counts(1) same_layout_counts(3)])
  have w: "\<not> groups_count (add_sb_blocks 1 (add_free_blocks g 1 fs)) \<le> of_nat g"
    "bg_block_bitmap (add_sb_blocks 1 (add_free_blocks g 1 fs)) g = bg_block_bitmap fs g"
    using same_layout_derived(1) [OF sl] sl og by (simp_all add: same_layout_def)
  have "write_block_bitmap (add_sb_blocks 1 (add_free_blocks g 1 fs)) (of_nat g) bm
    = (add_sb_blocks 1 (add_free_blocks g 1 fs))\<lparr>disk := disk (write_block fs (bg_block_bitmap fs g) bm 1)\<rparr>" for bm
    using w og by (simp add: write_block_bitmap_def write_block_def block_lba_def lba_blocks_def
        add_sb_blocks_def add_free_blocks_def)
  then show ?thesis
    using assms(5) b inb og
    by (simp add: free_block_def Let_def grp off get_block_bitmap_def commit_bitmap_def rewrite_sb_def)
qed

lemma counts_add:
  assumes "fs_ok fs" and "g < unat (groups_count fs)" and "h < unat (groups_count fs)"
  shows "bg_free_blocks (add_sb_blocks m (add_free_blocks g k fs)) h
    = bg_free_blocks fs h + (if h = g then k else 0)"
proof -
  have "32 * g + 32 \<le> length (blk_grp_descs fs)" using assms by (auto simp: fs_ok_def)
  moreover have "h \<noteq> g \<Longrightarrow> 32 * h + 12 + 2 \<le> 32 * g + 12 \<or> 32 * g + 12 + 2 \<le> 32 * h + 12" by auto
  ultimately show ?thesis
    by (auto simp: bg_free_blocks_def add_sb_blocks_def add_free_blocks_def)
qed

lemma add_back:
  assumes "fs_ok fs" and "g < unat (groups_count fs)" and "blk_grp_descs fs' = blk_grp_descs (add_sb_blocks (- 1) (add_free_blocks g (- 1) fs))"
    and "sb fs' = sb (add_sb_blocks (- 1) (add_free_blocks g (- 1) fs))"
  shows "blk_grp_descs (add_sb_blocks 1 (add_free_blocks g 1 fs')) = blk_grp_descs fs"
    and "sb (add_sb_blocks 1 (add_free_blocks g 1 fs')) = sb fs"
proof -
  have p16: "put16 o' (get16 o' d) (put16 o' v d) = d" if "o' + 2 \<le> length d" for o' v d
  proof (rule nth_equalityI)
    fix i
    assume "i < length (put16 o' (get16 o' d) (put16 o' v d))"
    have "(ucast (get16 o' d) :: u8) = d ! o'" "(ucast (drop_bit 8 (get16 o' d)) :: u8) = d ! (o' + 1)"
      by (rule bit_eqI, auto simp: get16_def bit_simps dest: bit_imp_le_length)+
    then show "put16 o' (get16 o' d) (put16 o' v d) ! i = d ! i"
      using that by (auto simp: put16_def nth_list_update)
  qed simp
  have p32: "put32 o' (get32 o' d) (put32 o' v d) = d" if "o' + 4 \<le> length d" for o' v d
  proof (rule nth_equalityI)
    fix i
    assume "i < length (put32 o' (get32 o' d) (put32 o' v d))"
    have "(ucast (get32 o' d) :: u8) = d ! o'" "(ucast (drop_bit 8 (get32 o' d)) :: u8) = d ! (o' + 1)"
      "(ucast (drop_bit 16 (get32 o' d)) :: u8) = d ! (o' + 2)" "(ucast (drop_bit 24 (get32 o' d)) :: u8) = d ! (o' + 3)"
      by (rule bit_eqI, auto simp: get32_def bit_simps dest: bit_imp_le_length)+
    then show "put32 o' (get32 o' d) (put32 o' v d) ! i = d ! i"
      using that by (auto simp: put32_def nth_list_update)
  qed simp
  have l: "32 * g + 14 \<le> length (blk_grp_descs fs)" "16 \<le> length (sb fs)" using assms(1,2) by (auto simp: fs_ok_def)
  show "blk_grp_descs (add_sb_blocks 1 (add_free_blocks g 1 fs')) = blk_grp_descs fs"
    using l p16 [of "32 * g + 12" "blk_grp_descs fs"] assms(3)
    by (simp add: add_sb_blocks_def add_free_blocks_def bg_free_blocks_def)
  show "sb (add_sb_blocks 1 (add_free_blocks g 1 fs')) = sb fs"
    using l p32 [of 12 "sb fs"] assms(4)
    by (simp add: add_sb_blocks_def add_free_blocks_def sb_unalloc_blk_num_def)
qed

text \<open>Which bits are set after a bitmap of block bits was committed.\<close>

lemma used_commit:
  assumes "fs_ok fs" and "g < unat (groups_count fs)" and "length bm = unat (block_size fs)"
    and "same_layout fs fs'" and "disk fs' = disk fs" and "h < unat (groups_count fs)"
  shows "used (commit_bitmap (bg_block_bitmap fs g) bm fs fs') h j = (if h = g then test_bit bm j else used fs h j)"
proof -
  note b = fs_ok_blocks [OF assms(1)]
  note c = commit_effect [OF assms(1) b(1,3) [OF assms(2)] assms(3-5)]
  show ?thesis
    using c(2) c(5) [OF b(1,3) [OF assms(6)]] b(5) [OF assms(2,6)]
    by (auto simp: used_def same_layout_def)
qed

lemma alloc_block_commits:
  assumes "fs_ok fs" and "g < unat (groups_count fs)" and "group_has_free fs g"
    and "\<forall>h < g. \<not> group_has_free fs h"
    and c_def: "c = add_sb_blocks (- 1) (add_free_blocks g (- 1) fs)"
  obtains i fs' where "i < unat (blocks_per_group fs)" and "\<not> used fs g i" and "\<forall>j<i. used fs g j"
    and "alloc_block fs = Some (of_nat g * blocks_per_group fs + of_nat i + ucast (sb_blkgrp_superblk (sb fs)), fs')"
    and "fs_ok fs'" and "same_layout fs fs'" and "blk_grp_descs fs' = blk_grp_descs c" and "sb fs' = sb c"
    and "\<And>h j. h < unat (groups_count fs) \<Longrightarrow> used fs' h j \<longleftrightarrow> used fs h j \<or> (h = g \<and> j = i)"
    and "\<And>b. on_disk fs b \<Longrightarrow> b \<notin> set (bgd_blocks fs) \<Longrightarrow> b \<noteq> bg_block_bitmap fs g \<Longrightarrow> read_block fs' b 1 = read_block fs b 1"
proof -
  have bok: "blocks_ok fs" "unat (blocks_per_group fs) \<le> 8 * unat (block_size fs)" "sb_blkgroup_blk_num (sb fs) \<noteq> 0"
    using assms(1) by (auto simp: fs_ok_def)
  let ?a = "bg_block_bitmap fs g" and ?bm = "read_block fs (bg_block_bitmap fs g) 1"
  obtain i where i: "i < unat (blocks_per_group fs)" "\<not> used fs g i" "\<forall>j<i. used fs g j"
    "alloc_block_loop (of_nat 0) (unat (groups_count fs)) fs = Some (of_nat g * blocks_per_group fs + of_nat i
        + ucast (sb_blkgrp_superblk (sb fs)), take_block_bit fs (of_nat g) ?bm i)"
    using alloc_block_loop_finds [OF assms(1), of 0 "unat (groups_count fs)" g] assms(2-4) by auto
  define fs' where "fs' = commit_bitmap ?a (set_bitmap_bit ?bm i) fs c"
  have al: "alloc_block fs = Some (of_nat g * blocks_per_group fs + of_nat i + ucast (sb_blkgrp_superblk (sb fs)), fs')"
    using i(4) bok(3) take_block_bit_commit [OF assms(2) refl] by (simp add: alloc_block_def fs'_def c_def)
  have sl: "same_layout fs c"
    unfolding c_def by (rule same_layout_trans [OF same_layout_counts(1) same_layout_counts(3)])
  have dc: "disk c = disk fs" by (simp add: c_def add_sb_blocks_def add_free_blocks_def)
  note b = fs_ok_blocks [OF assms(1,2)]
  have len: "length (set_bitmap_bit ?bm i) = unat (block_size fs)" using length_read_block [OF bok(1)] by simp
  note e = commit_effect [OF assms(1) b(1,3) len sl dc, folded fs'_def]
  have inb: "in_bitmap ?bm i" using i(1) bok length_read_block [OF bok(1)] by (simp add: in_bitmap_def)
  have "used fs' h j \<longleftrightarrow> used fs h j \<or> (h = g \<and> j = i)" if "h < unat (groups_count fs)" for h j
    using used_commit [OF assms(1,2) len sl dc that] test_set_bitmap_bit [OF inb]
    by (auto simp: fs'_def used_def)
  then show ?thesis using that [OF i(1-3) al e(1-4)] e(5) by auto
qed

lemma free_block_gives_back:
  assumes "fs_ok fs" and "fs_ok fs'" and "same_layout fs fs'" and "g < unat (groups_count fs)" and "i < unat (blocks_per_group fs)"
    and "\<not> used fs g i" and us: "\<And>h j. h < unat (groups_count fs) \<Longrightarrow> used fs' h j \<longleftrightarrow> used fs h j \<or> (h = g \<and> j = i)"
    and "blk_grp_descs fs' = blk_grp_descs (add_sb_blocks (- 1) (add_free_blocks g (- 1) fs))"
    and "sb fs' = sb (add_sb_blocks (- 1) (add_free_blocks g (- 1) fs))"
    and "n = of_nat g * blocks_per_group fs + of_nat i + ucast (sb_blkgrp_superblk (sb fs))" and "n \<noteq> 0"
  shows "\<exists>fs''. free_block n fs' = Some fs'' \<and> fs_ok fs'' \<and> blk_grp_descs fs'' = blk_grp_descs fs
    \<and> sb fs'' = sb fs \<and> (\<forall>h < unat (groups_count fs). \<forall>j. used fs'' h j = used fs h j)"
proof -
  note same = assms(3) [unfolded same_layout_def] and der = same_layout_derived [OF assms(3)]
  have g': "g < unat (groups_count fs')" "i < unat (blocks_per_group fs')" using assms(4,5) same der by simp_all
  let ?bm' = "clear_bitmap_bit (read_block fs' (bg_block_bitmap fs' g) 1) i"
  let ?c' = "add_sb_blocks 1 (add_free_blocks g 1 fs')"
  have fr: "free_block n fs' = Some (commit_bitmap (bg_block_bitmap fs' g) ?bm' fs' ?c')"
    using same assms(10,11) by (intro free_block_commit [OF assms(2) g']) auto
  have sl': "same_layout fs' ?c'" by (rule same_layout_trans [OF same_layout_counts(1) same_layout_counts(3)])
  have dc': "disk ?c' = disk fs'" by (simp add: add_sb_blocks_def add_free_blocks_def)
  have bok': "blocks_ok fs'" "unat (blocks_per_group fs') \<le> 8 * unat (block_size fs')" using assms(2) by (auto simp: fs_ok_def)
  have len': "length ?bm' = unat (block_size fs')" using length_read_block [OF bok'(1)] by simp
  note b' = fs_ok_blocks [OF assms(2) g'(1)]
  note e = commit_effect [OF assms(2) b'(1,3) len' sl' dc']
  have inb': "in_bitmap (read_block fs' (bg_block_bitmap fs' g) 1) i"
    using g'(2) bok' length_read_block [OF bok'(1)] by (simp add: in_bitmap_def)
  have "used (commit_bitmap (bg_block_bitmap fs' g) ?bm' fs' ?c') h j = used fs h j" if "h < unat (groups_count fs)" for h j
    using used_commit [OF assms(2) g'(1) len' sl' dc', of h j] that der(1) us [OF that, of j] assms(6)
      test_clear_bitmap_bit [OF inb', of j] us [OF assms(4), of j]
    by (auto simp: used_def)
  then show ?thesis
    using fr e(1,3,4) add_back [OF assms(1,4,8,9)] by auto
qed

text \<open>
  C19: the block allocator.  On a well-formed file system, with \<open>g\<close> the first group that has a
  free block by its counter and its bitmap, \<open>alloc_block\<close> returns; it sets the first clear bit
  \<open>i\<close> of that group's bitmap and no other bit of any group, takes one off the group's counter,
  keeps the file system well formed, and changes no block but the bitmap and the descriptors.
  The number it returns is \<open>g\<close> times the blocks per group, plus \<open>i\<close>, plus the superblock's
  \<open>blkgrp_superblk\<close>.  Unless that is 0, \<open>free_block\<close> of it restores every bit, the descriptors and
  the superblock.
\<close>

theorem alloc_block_then_free:
  assumes "fs_ok fs" and "g < unat (groups_count fs)" and "group_has_free fs g"
    and "\<forall>h < g. \<not> group_has_free fs h"
  shows "\<exists>i n fs'. alloc_block fs = Some (n, fs') \<and> i < unat (blocks_per_group fs)
    \<and> n = of_nat g * blocks_per_group fs + of_nat i + ucast (sb_blkgrp_superblk (sb fs))
    \<and> \<not> used fs g i \<and> (\<forall>j<i. used fs g j) \<and> fs_ok fs'
    \<and> (\<forall>h < unat (groups_count fs). \<forall>j. used fs' h j \<longleftrightarrow> used fs h j \<or> (h = g \<and> j = i))
    \<and> (\<forall>h < unat (groups_count fs). bg_free_blocks fs' h = bg_free_blocks fs h - (if h = g then 1 else 0))
    \<and> (\<forall>b. on_disk fs b \<and> b \<notin> set (bgd_blocks fs) \<and> b \<noteq> bg_block_bitmap fs g \<longrightarrow> read_block fs' b 1 = read_block fs b 1)
    \<and> (n \<noteq> 0 \<longrightarrow> (\<exists>fs''. free_block n fs' = Some fs'' \<and> fs_ok fs'' \<and> blk_grp_descs fs'' = blk_grp_descs fs
         \<and> sb fs'' = sb fs \<and> (\<forall>h < unat (groups_count fs). \<forall>j. used fs'' h j = used fs h j)))"
proof -
  obtain i fs' where a: "i < unat (blocks_per_group fs)" "\<not> used fs g i" "\<forall>j<i. used fs g j"
    "alloc_block fs = Some (of_nat g * blocks_per_group fs + of_nat i + ucast (sb_blkgrp_superblk (sb fs)), fs')"
    "fs_ok fs'" "same_layout fs fs'" "blk_grp_descs fs' = blk_grp_descs (add_sb_blocks (- 1) (add_free_blocks g (- 1) fs))"
    "sb fs' = sb (add_sb_blocks (- 1) (add_free_blocks g (- 1) fs))"
    "\<And>h j. h < unat (groups_count fs) \<Longrightarrow> used fs' h j \<longleftrightarrow> used fs h j \<or> (h = g \<and> j = i)"
    "\<And>b. on_disk fs b \<Longrightarrow> b \<notin> set (bgd_blocks fs) \<Longrightarrow> b \<noteq> bg_block_bitmap fs g \<Longrightarrow> read_block fs' b 1 = read_block fs b 1"
    by (rule alloc_block_commits [OF assms refl]) blast
  have "bg_free_blocks fs' h = bg_free_blocks fs h - (if h = g then 1 else 0)" if "h < unat (groups_count fs)" for h
    using counts_add [OF assms(1,2) that, of "- 1" "- 1"] a(7) by (simp add: bg_free_blocks_def)
  then show ?thesis
    using a free_block_gives_back [OF assms(1) a(5,6) assms(2) a(1,2,9,7,8) refl]
    by (intro exI [of _ i] exI [of _ "of_nat g * blocks_per_group fs + of_nat i + ucast (sb_blkgrp_superblk (sb fs))"] exI [of _ fs']) blast
qed

text \<open>
  A file system of one group of 8192 blocks of 1 KiB: the superblock in block 1, the descriptors
  in block 2, the bitmaps in blocks 3 and 4, the inode table from block 5 on.  The first three
  bits of the block bitmap are set.
\<close>

definition demo_fs :: ext2_fs_t where
  "demo_fs = \<lparr>disk = (\<lambda>lba. if lba = 6 then 7 # replicate 511 0 else replicate 512 0), partition_start = 0,
     sb = put32 4 8192 (put32 20 1 (put32 32 8192 (put32 40 1024 (put16 88 128 (replicate 1024 0))))),
     blk_grp_descs = put32 0 3 (put32 4 4 (put32 8 5 (put16 12 100 (put16 14 100 (replicate 1024 0))))),
     block_size = 1024, blocks_per_group = 8192, inodes_per_group = 1024, total_groups = 1,
     blk_grp_desc_blocks = 1\<rparr>"

lemma get_replicate [simp]:
  "off + 4 \<le> n \<Longrightarrow> get32 off (replicate n 0) = 0" "off + 2 \<le> n \<Longrightarrow> get16 off (replicate n 0) = 0"
  by (simp_all add: get32_def get16_def)

lemma demo_fs_fields:
  "sb_blkgroup_blk_num (sb demo_fs) = 8192" "sb_blkgrp_superblk (sb demo_fs) = 0" "groups_count demo_fs = 1"
  "sb_superblock_blk_num (sb demo_fs) = 1" "bg_block_bitmap demo_fs 0 = 3" "bg_inode_bitmap demo_fs 0 = 4"
  "bg_free_blocks demo_fs 0 = 100" "block_size demo_fs = 1024" "blocks_per_group demo_fs = 8192"
  by (simp_all add: demo_fs_def sb_blkgroup_blk_num_def sb_blkgrp_superblk_def groups_count_def sb_blks_num_def
      sb_superblock_blk_num_def bg_block_bitmap_def bg_inode_bitmap_def bg_free_blocks_def)

lemma demo_fs_ok: "fs_ok demo_fs"
proof -
  have "blocks_ok demo_fs" by (simp add: blocks_ok_def demo_fs_def)
  moreover from this have "on_disk demo_fs 2" "on_disk demo_fs 3" "on_disk demo_fs 4"
    by (simp_all add: on_disk_def block_sectors_def) (simp_all add: demo_fs_def)
  moreover have "meta_blocks demo_fs = [3, 4, 2]"
    by (simp add: meta_blocks_def bitmap_blocks_def bgd_blocks_def bgd_start_block_def demo_fs_fields)
      (simp add: demo_fs_def)
  moreover have "length (blk_grp_descs demo_fs) = 1024" "blk_grp_desc_blocks demo_fs = 1" "length (sb demo_fs) = 1024"
    by (simp_all add: demo_fs_def)
  ultimately show ?thesis by (simp add: fs_ok_def demo_fs_fields)
qed

lemma demo_fs_used: "used demo_fs 0 i \<longleftrightarrow> i < 3" if "i < 8"
proof -
  have "read_block demo_fs 3 1 = 7 # replicate 1023 0"
    by (simp add: read_block_def block_lba_def lba_blocks_def demo_fs_fields)
      (simp add: demo_fs_def numeral_2_eq_2 flip: replicate_add)
  moreover have "i = 0 \<or> i = 1 \<or> i = 2 \<or> i = 3 \<or> i = 4 \<or> i = 5 \<or> i = 6 \<or> i = 7" using that by linarith
  ultimately show ?thesis
    by (auto simp: used_def demo_fs_fields test_bit_def bit_simps)
qed

lemma demo_fs_free: "group_has_free demo_fs 0"
  using demo_fs_used [of 3] by (auto simp: group_has_free_def demo_fs_fields intro!: exI [of _ 3])

theorem alloc_block_then_free_witness:
  "\<exists>fs'. alloc_block demo_fs = Some (3, fs') \<and> used fs' 0 3 \<and> bg_free_blocks fs' 0 = 99
    \<and> (\<exists>fs''. free_block 3 fs' = Some fs'' \<and> \<not> used fs'' 0 3)"
proof -
  have g: "0 < unat (groups_count demo_fs)" by (simp add: demo_fs_fields)
  have none: "\<forall>h < 0. \<not> group_has_free demo_fs h" by simp
  from alloc_block_then_free [OF demo_fs_ok g demo_fs_free none]
  obtain i n fs' where r0: "alloc_block demo_fs = Some (n, fs')"
    "n = of_nat 0 * blocks_per_group demo_fs + of_nat i + ucast (sb_blkgrp_superblk (sb demo_fs))"
    "\<not> used demo_fs 0 i" "\<forall>j<i. used demo_fs 0 j"
    "\<forall>h < unat (groups_count demo_fs). \<forall>j. used fs' h j \<longleftrightarrow> used demo_fs h j \<or> (h = 0 \<and> j = i)"
    "\<forall>h < unat (groups_count demo_fs). bg_free_blocks fs' h = bg_free_blocks demo_fs h - (if h = 0 then 1 else 0)"
    "n \<noteq> 0 \<longrightarrow> (\<exists>fs''. free_block n fs' = Some fs'' \<and> fs_ok fs'' \<and> blk_grp_descs fs'' = blk_grp_descs demo_fs
         \<and> sb fs'' = sb demo_fs \<and> (\<forall>h < unat (groups_count demo_fs). \<forall>j. used fs'' h j = used demo_fs h j))"
    by blast
  have r: "alloc_block demo_fs = Some (n, fs')" "n = of_nat i" "\<not> used demo_fs 0 i" "\<forall>j<i. used demo_fs 0 j"
    "used fs' 0 i" "bg_free_blocks fs' 0 = 99"
    "n \<noteq> 0 \<longrightarrow> (\<exists>fs''. free_block n fs' = Some fs'' \<and> (\<forall>j. used fs'' 0 j = used demo_fs 0 j))"
    using r0(1-4) r0(5,6) [rule_format, OF g] r0(7) g by (simp_all add: demo_fs_fields, blast)
  have "i = 3" using r(3,4) demo_fs_used [of i] demo_fs_used [of 3] by (cases "i < 3"; cases "i = 3") auto
  then show ?thesis using r demo_fs_used [of 3] by auto
qed

text \<open>
  The number \<open>alloc_block\<close> returns is wrong where the first data block is block 1, as on every
  file system of 1 KiB blocks.  There bit \<open>i\<close> of group \<open>g\<close>'s bitmap describes block \<open>g\<close> times the
  blocks per group plus \<open>i\<close> plus 1; the code adds the superblock's own group number instead, 0
  for the first superblock.  Unless the bit it found is the first of its group, the block it hands out
  is the one before, whose bit is set: a block in use.
\<close>

definition described_by :: "ext2_fs_t \<Rightarrow> u32 \<Rightarrow> nat \<times> nat" where
  "described_by fs n =
     (let k = unat (n - sb_superblock_blk_num (sb fs)); b = unat (sb_blkgroup_blk_num (sb fs))
      in (k div b, k mod b))"

lemma alloc_block_returns_used_block:
  assumes "fs_ok fs" and "g < unat (groups_count fs)" and "group_has_free fs g"
    and "\<forall>h < g. \<not> group_has_free fs h" and "used fs g 0"
    and "sb_superblock_blk_num (sb fs) = 1" and "sb_blkgrp_superblk (sb fs) = 0"
  shows "\<exists>n fs'. alloc_block fs = Some (n, fs') \<and> used fs (fst (described_by fs n)) (snd (described_by fs n))"
proof -
  obtain i where i: "i < unat (blocks_per_group fs)" "\<not> used fs g i" "\<forall>j<i. used fs g j"
    "alloc_block_loop (of_nat 0) (unat (groups_count fs)) fs = Some (of_nat g * blocks_per_group fs + of_nat i
        + ucast (sb_blkgrp_superblk (sb fs)), take_block_bit fs (of_nat g) (read_block fs (bg_block_bitmap fs g) 1) i)"
    using alloc_block_loop_finds [OF assms(1), of 0 "unat (groups_count fs)" g] assms(2-4) by auto
  have b: "sb_blkgroup_blk_num (sb fs) = blocks_per_group fs" "sb_blkgroup_blk_num (sb fs) \<noteq> 0"
    using assms(1) by (auto simp: fs_ok_def)
  have i0: "0 < i" using i(2) assms(5) by (cases "i = 0") auto
  let ?n = "of_nat g * blocks_per_group fs + of_nat i :: u32"
  have n: "unat ?n = g * unat (blocks_per_group fs) + i" by (rule unat_block_number [OF assms(1,2) i(1)])
  then have "?n \<noteq> 0" using i0 by auto
  then have "unat (?n - 1) = g * unat (blocks_per_group fs) + (i - 1)"
    using n i0 by (simp add: unat_minus_one)
  then have "described_by fs ?n = (g, i - 1)"
    using i(1) by (simp add: described_by_def Let_def assms(6) b(1))
  moreover have "alloc_block fs = Some (?n, take_block_bit fs (of_nat g) (read_block fs (bg_block_bitmap fs g) 1) i)"
    using i(4) b(2) assms(7) by (simp add: alloc_block_def)
  ultimately show ?thesis using i(3) i0 by auto
qed

lemma alloc_block_returns_used_block_witness:
  "\<exists>n fs'. alloc_block demo_fs = Some (n, fs')
    \<and> used demo_fs (fst (described_by demo_fs n)) (snd (described_by demo_fs n))"
  by (rule alloc_block_returns_used_block [OF demo_fs_ok, of 0])
    (simp_all add: demo_fs_free demo_fs_fields demo_fs_used)

text \<open>
  C29: blocks behave as cells.  A block that was written is read back, and every other block is
  read as before, as long as both lie in the part of the drive that 32-bit byte offsets and
  sector numbers reach.  Beyond it block numbers alias: numbers whose difference times the block
  size is a multiple of \<open>2 ^ 32\<close> (4 GiB apart) name the same sectors.
\<close>

theorem block_read_after_write:
  assumes "on_disk fs a" and "on_disk fs b" and "length v = unat (block_size fs)"
  shows "read_block (write_block fs a v 1) b 1 = (if a = b then v else read_block fs b 1)
    \<and> on_disk (write_block fs a v 1) b
    \<and> (\<forall>k. k * block_size fs = 0 \<longrightarrow> read_block (write_block fs a v 1) (a + k) 1 = v)"
proof -
  have fit: "block_fits fs v" using assms(3) by (simp add: block_fits_def)
  have "block_lba (write_block fs a v 1) (a + k) = block_lba (write_block fs a v 1) a" if "k * block_size fs = 0" for k
    using that by (simp add: block_lba_def distrib_right)
  then have "read_block (write_block fs a v 1) (a + k) 1 = v" if "k * block_size fs = 0" for k
    using that blocks.rd_wr [OF assms(1,1) fit] by (simp add: read_block_def)
  then show ?thesis
    using blocks.rd_wr [OF assms(1,2) fit] blocks.valid_wr [OF assms(1) fit] assms(2) by simp
qed

theorem block_read_after_write_witness:
  "read_block (write_block demo_fs 9 (replicate 1024 5) 1) 9 1 = replicate 1024 5
   \<and> read_block (write_block demo_fs 9 (replicate 1024 5) 1) 0x400009 1 = replicate 1024 5"
proof -
  have "on_disk demo_fs 9"
    using demo_fs_ok by (simp add: fs_ok_def on_disk_def block_sectors_def) (simp add: demo_fs_def)
  from block_read_after_write [OF this this, of "replicate 1024 5"] show ?thesis
    by (auto simp: demo_fs_fields dest: spec [of _ "0x400000"])
qed

section \<open>Inodes\<close>

text \<open>Where an inode is: its block and the offset in the block.\<close>

definition inode_place :: "ext2_fs_t \<Rightarrow> u32 \<Rightarrow> u32 \<times> nat" where
  "inode_place fs n =
     (let index = (n - 1) mod inodes_per_group fs; offset = index * ucast (sb_inode_size (sb fs))
      in (bg_inode_table fs (unat ((n - 1) div inodes_per_group fs)) + offset div block_size fs,
          unat (offset mod block_size fs)))"

definition inodes_ok :: "ext2_fs_t \<Rightarrow> bool" where
  "inodes_ok fs \<longleftrightarrow> blocks_ok fs \<and> inodes_per_group fs = sb_blkgroup_inode_num (sb fs) \<and> sb_blkgroup_inode_num (sb fs) \<noteq> 0
     \<and> 128 \<le> unat (sb_inode_size (sb fs)) \<and> unat (sb_inode_size (sb fs)) dvd unat (block_size fs)
     \<and> unat (sb_blkgroup_inode_num (sb fs)) * unat (sb_inode_size (sb fs)) \<le> 2 ^ 32"

lemma unat_wide16 [simp]: "unat (ucast (w :: u16) :: u32) = unat w"
  using unat_less_lit [of w] by (simp only: unsigned_ucast_eq take_bit_eq_mod) simp

lemma dvd_room:
  assumes "(s :: nat) dvd off" and "s dvd b" and "off < b"
  shows "off + s \<le> b"
proof -
  obtain j k where jk: "off = s * j" "b = s * k" using assms(1,2) by (auto elim!: dvdE)
  then have "j < k" using assms(3) by simp
  then have "s * (j + 1) \<le> s * k" by (intro mult_left_mono) simp_all
  then show ?thesis by (simp add: jk)
qed

lemma inode_offset:
  assumes "inodes_ok fs"
  shows "unat (sb_inode_size (sb fs)) dvd snd (inode_place fs n)"
    and "snd (inode_place fs n) + unat (sb_inode_size (sb fs)) \<le> unat (block_size fs)"
proof -
  let ?s = "unat (sb_inode_size (sb fs))" and ?b = "unat (block_size fs)" and ?i = "(n - 1) mod inodes_per_group fs"
  have d: "?s dvd ?b" "0 < ?b" using assms by (auto simp: inodes_ok_def blocks_ok_def unat_gt_0)
  have "inodes_per_group fs \<noteq> 0" using assms by (simp add: inodes_ok_def)
  then have "unat ?i < unat (inodes_per_group fs)" by (simp add: unat_mod unat_gt_0)
  moreover have "0 < ?s" using assms by (simp add: inodes_ok_def)
  ultimately have "unat ?i * ?s < unat (inodes_per_group fs) * ?s" by simp
  also have "\<dots> \<le> 2 ^ 32" using assms by (simp add: inodes_ok_def)
  finally have lt: "unat ?i * ?s < 2 ^ 32" .
  have "unat (?i * ucast (sb_inode_size (sb fs))) = unat ?i * ?s"
    using unat_mult_no_wrap [of ?i "ucast (sb_inode_size (sb fs))"] lt by simp
  then have sn: "snd (inode_place fs n) = unat ?i * ?s mod ?b"
    by (simp add: inode_place_def Let_def unat_mod)
  show dv: "?s dvd snd (inode_place fs n)" unfolding sn using d(1) by (simp add: dvd_mod)
  have "snd (inode_place fs n) < ?b" using d(2) by (simp add: sn)
  then show "snd (inode_place fs n) + ?s \<le> ?b" using dv d(1) by (intro dvd_room)
qed

lemma load_inode_place:
  assumes "inodes_ok fs"
  shows "load_inode fs n = Some (get_bytes (snd (inode_place fs n)) 128 (read_block fs (fst (inode_place fs n)) 1))"
proof -
  have "snd (inode_place fs n) + 128 \<le> unat (block_size fs)"
    using inode_offset(2) [OF assms, of n] assms by (simp add: inodes_ok_def)
  then show ?thesis
    using assms length_read_block [of fs]
    by (simp add: load_inode_def Let_def inode_place_def inodes_ok_def blocks_ok_def sizeof_inode_t_def)
qed

lemma write_inode_place:
  assumes "inodes_ok fs"
  shows "write_inode fs n ino = Some (write_block fs (fst (inode_place fs n))
    (put_bytes (snd (inode_place fs n)) (take 128 ino) (read_block fs (fst (inode_place fs n)) 1)) 1)"
proof -
  have "snd (inode_place fs n) + 128 \<le> unat (block_size fs)" "128 \<le> unat (sb_inode_size (sb fs))"
    using inode_offset(2) [OF assms, of n] assms by (simp_all add: inodes_ok_def)
  then show ?thesis
    using assms length_read_block [of fs]
    by (simp add: write_inode_def Let_def inode_place_def inodes_ok_def blocks_ok_def sizeof_inode_t_def min_def)
qed

lemma load_written_inode:
  assumes "inodes_ok fs" and "on_disk fs (fst (inode_place fs n))" and "on_disk fs (fst (inode_place fs m))"
    and "length ino = 128"
  shows "\<exists>fs'. write_inode fs n ino = Some fs' \<and> load_inode fs' n = Some ino
    \<and> (inode_place fs m \<noteq> inode_place fs n \<longrightarrow> load_inode fs' m = load_inode fs m)"
proof -
  let ?b = "fst (inode_place fs n)" and ?o = "snd (inode_place fs n)" and ?s = "unat (sb_inode_size (sb fs))"
  let ?v = "put_bytes ?o ino (read_block fs ?b 1)" and ?o' = "snd (inode_place fs m)"
  have bok: "blocks_ok fs" and s: "128 \<le> ?s" using assms(1) by (auto simp: inodes_ok_def)
  note len = length_read_block [OF bok]
  have o: "?o + ?s \<le> unat (block_size fs)" "?o' + ?s \<le> unat (block_size fs)" "?s dvd ?o" "?s dvd ?o'"
    using inode_offset [OF assms(1)] by auto
  have fit: "block_fits fs ?v" using o(1) s len assms(4) by (simp add: block_fits_def)
  let ?fs = "write_block fs ?b ?v 1"
  have w: "write_inode fs n ino = Some ?fs" using write_inode_place [OF assms(1), of n ino] assms(4) by simp
  have ok': "inodes_ok ?fs"
    using assms(1) blocks_ok_write [OF assms(2) fit] by (simp add: inodes_ok_def)
  have pl: "inode_place ?fs k = inode_place fs k" for k
    by (simp add: inode_place_def bg_inode_table_def)
  have ln: "load_inode ?fs n = Some ino"
    using load_inode_place [OF ok', of n] read_write_block [OF assms(2,2) fit] get_put_bytes [of ?o ino "read_block fs ?b 1"]
      o(1) s len assms(4)
    by (simp add: pl)
  have lm: "load_inode ?fs m = load_inode fs m" if "inode_place fs m \<noteq> inode_place fs n"
  proof (cases "fst (inode_place fs m) = ?b")
    case False
    then show ?thesis
      using load_inode_place [OF ok', of m] load_inode_place [OF assms(1), of m] read_write_block [OF assms(2,3) fit]
      by (simp add: pl)
  next
    case True
    then have ne: "?o \<noteq> ?o'" using that by (auto simp: prod_eq_iff)
    obtain j k where jk: "?o = ?s * j" "?o' = ?s * k" using o(3,4) by (auto elim!: dvdE)
    have "j < k \<or> k < j" using ne jk by (metis nat_neq_iff)
    then have "?s * (j + 1) \<le> ?s * k \<or> ?s * (k + 1) \<le> ?s * j" by (auto intro!: mult_left_mono simp del: mult_Suc_right)
    then have apart: "?o' + 128 \<le> ?o \<or> ?o + 128 \<le> ?o'" using jk s by (auto simp: algebra_simps)
    have "get_bytes ?o' 128 ?v = get_bytes ?o' 128 (read_block fs ?b 1)"
      using get_bytes_apart [of ?o ino "read_block fs ?b 1" ?o' 128] apart o s len assms(4) by simp
    then show ?thesis
      using load_inode_place [OF ok', of m] load_inode_place [OF assms(1), of m] read_write_block [OF assms(2,3) fit] True
      by (simp add: pl)
  qed
  show ?thesis using w ln lm by blast
qed

text \<open>
  An inode that was written is loaded back byte for byte, and every inode stored at another
  place is loaded as before.
\<close>

lemma inode_load_after_write:
  assumes "inodes_ok fs" and "on_disk fs (fst (inode_place fs n))" and "on_disk fs (fst (inode_place fs m))"
    and "length ino = 128"
  shows "\<exists>fs'. write_inode fs n ino = Some fs' \<and> load_inode fs' n = Some ino
    \<and> (inode_place fs m \<noteq> inode_place fs n \<longrightarrow> load_inode fs' m = load_inode fs m)"
  using load_written_inode [OF assms] .

lemma inode_load_after_write_witness:
  "\<exists>fs'. write_inode demo_fs 12 (replicate 128 9) = Some fs' \<and> load_inode fs' 12 = Some (replicate 128 9)
    \<and> load_inode fs' 11 = load_inode demo_fs 11"
proof -
  have f: "sb_blkgroup_inode_num (sb demo_fs) = 1024" "sb_inode_size (sb demo_fs) = 128" "inodes_per_group demo_fs = 1024"
    "bg_inode_table demo_fs 0 = 5"
    by (simp_all add: demo_fs_def sb_blkgroup_inode_num_def sb_inode_size_def bg_inode_table_def)
  have ok: "inodes_ok demo_fs" using demo_fs_ok by (simp add: inodes_ok_def fs_ok_def f demo_fs_fields)
  have p: "inode_place demo_fs 12 = (6, 384)" "inode_place demo_fs 11 = (6, 256)"
    by (simp_all add: inode_place_def Let_def f demo_fs_fields)
  have od: "on_disk demo_fs 6"
    using demo_fs_ok by (simp add: fs_ok_def on_disk_def block_sectors_def) (simp add: demo_fs_def)
  show ?thesis
    using inode_load_after_write [OF ok, of 12 11 "replicate 128 9"] od by (auto simp: p)
qed

end
