(* ===== verification/Ext2Dir.thy ===== *)
theory Ext2Dir
  imports Ext2Store
begin

text \<open>
  Directory entries of the Ext2 file system, from \<open>src/kernel/fs/ext/ext2.cpp\<close>: inserting an entry
  into a block and into a directory, removing one, the first block of a new directory, and the
  list of a block's entries.  A block is the list of its bytes; \<open>None\<close> is an access outside it
  or a call that does not return.
\<close>

section \<open>Entries\<close>

definition align4_u16 :: "u16 \<Rightarrow> u16" where
  "align4_u16 x = (x + 3) AND NOT 3"

definition dirent_rec_len :: "u8 \<Rightarrow> u16" where
  "dirent_rec_len name_len = 8 + align4_u16 (ucast name_len)"

definition de_inode :: "u8 list \<Rightarrow> nat \<Rightarrow> u32" where "de_inode b off = get32 off b"
definition de_entry_size :: "u8 list \<Rightarrow> nat \<Rightarrow> u16" where "de_entry_size b off = get16 (off + 4) b"
definition de_name_len :: "u8 list \<Rightarrow> nat \<Rightarrow> u8" where "de_name_len b off = b ! (off + 6)"
definition de_type :: "u8 list \<Rightarrow> nat \<Rightarrow> u8" where "de_type b off = b ! (off + 7)"

definition put_header :: "nat \<Rightarrow> u32 \<Rightarrow> u8 \<Rightarrow> u8 \<Rightarrow> u8 list \<Rightarrow> u8 list" where
  "put_header off ino len ty b = (put32 off ino b)[off + 6 := len, off + 7 := ty]"

definition zero_block :: "ext2_fs_t \<Rightarrow> u32 \<Rightarrow> ext2_fs_t" where
  "zero_block fs blk = write_block fs blk (replicate (unat (block_size fs)) 0) 1"

text \<open>
  An entry in place at \<open>off\<close> of the room \<open>room\<close>: what is beyond the needed length becomes an empty
  entry.  Every byte must be inside the block.
\<close>

definition place_entry :: "nat \<Rightarrow> u16 \<Rightarrow> u8 list \<Rightarrow> u32 \<Rightarrow> u8 \<Rightarrow> u8 list \<Rightarrow> u8 list option" where
  "place_entry off room name ino ty b =
     (let len = of_nat (length name) :: u8;
          needed = dirent_rec_len len;
          b1 = put_header off ino len ty b;
          rem = off + unat needed;
          b2 = (if needed < room
                then put16 (rem + 4) (room - needed) (put_header rem 0 0 0 (put16 (off + 4) needed b1))
                else put16 (off + 4) room b1)
      in if length b < off + 8 + unat len \<or> (needed < room \<and> length b < rem + 8) then None
         else Some (put_bytes (off + 8) (take (unat len) name) b2))"

text \<open>
  The scan of \<open>insert_into_block\<close>: an empty entry that is large enough, or the room behind the
  name of one that is in use or too small.  The type comes from the inode, which is loaded when a
  place has been found.
\<close>

function insert_scan :: "u8 list \<Rightarrow> nat \<Rightarrow> u8 list \<Rightarrow> u32 \<Rightarrow> u8 option \<Rightarrow> nat \<Rightarrow> u8 list option option" where
  "insert_scan b bs name ino ty off =
     (if bs \<le> off then Some None
      else if length b < off + 8 then None
      else
        let es = de_entry_size b off;
            needed = dirent_rec_len (of_nat (length name));
            actual = dirent_rec_len (de_name_len b off)
        in if es = 0 then Some None
           else if de_inode b off = 0 \<and> needed \<le> es
           then (case ty of None \<Rightarrow> None | Some t \<Rightarrow> map_option Some (place_entry off es name ino t b))
           else if actual < es \<and> needed \<le> es - actual
           then (case ty of None \<Rightarrow> None
             | Some t \<Rightarrow> map_option Some
                 (place_entry (off + unat actual) (es - actual) name ino t (put16 (off + 4) actual b)))
           else insert_scan b bs name ino ty (off + unat es))"
  by pat_completeness auto
termination
  by (relation "measure (\<lambda>(b, bs, name, ino, ty, off). bs - off)") (auto intro!: diff_less_mono2 simp: unat_gt_0)

declare insert_scan.simps [simp del]

definition EXT2_S_IFMT :: u16 where "EXT2_S_IFMT = 0xF000"

definition get_inode_type :: "u8 list \<Rightarrow> u8" where
  "get_inode_type ino =
     (let f = get16 0 ino AND EXT2_S_IFMT in
      if f = 0x8000 then 1 else if f = 0x4000 then 2 else if f = 0x2000 then 3
      else if f = 0x6000 then 4 else if f = 0x1000 then 5 else if f = 0xC000 then 6
      else if f = 0xA000 then 7 else 0)"

definition insert_into_block :: "ext2_fs_t \<Rightarrow> u32 \<Rightarrow> u8 list \<Rightarrow> u32 \<Rightarrow> (bool \<times> ext2_fs_t) option" where
  "insert_into_block fs block_num name inode_num =
     (case insert_scan (read_block fs block_num 1) (unat (block_size fs)) name inode_num
             (map_option get_inode_type (load_inode fs inode_num)) 0 of
        None \<Rightarrow> None
      | Some None \<Rightarrow> Some (False, fs)
      | Some (Some b) \<Rightarrow> Some (True, write_block fs block_num b 1))"

section \<open>Inserting into a directory\<close>

text \<open>
  The outcome of a level: inserted, no room below it, or an error code.  The state is the inode
  of the directory, as its bytes, and the file system.
\<close>

datatype ins = Inserted | No_room | Ins_error int

definition size_low :: "u8 list \<Rightarrow> u32" where "size_low ino = get32 4 ino"

definition grow :: "ext2_fs_t \<Rightarrow> u8 list \<Rightarrow> u8 list" where
  "grow fs ino = put32 4 (size_low ino + block_size fs) ino"

text \<open>
  A pointer that is 0 gets a new, zeroed block; \<open>leaf\<close> says whether it is one of entries, which
  makes the directory larger.  The result is \<open>Inl\<close> when the allocator gives the error number.
\<close>

definition new_pointer :: "bool \<Rightarrow> u32 \<Rightarrow> u8 list \<times> ext2_fs_t \<Rightarrow> (u32 \<times> u8 list \<times> ext2_fs_t) option option" where
  "new_pointer leaf p s = (case s of (ino, fs) \<Rightarrow>
     if p \<noteq> 0 then Some (Some (p, ino, fs))
     else case alloc_block fs of None \<Rightarrow> None
       | Some (n, fs1) \<Rightarrow>
           if n = - 1 then Some None
           else Some (Some (n, if leaf then grow fs1 ino else ino, zero_block fs1 n)))"

text \<open>
  The loop over the pointers of a block, \<open>below\<close> being what is done for each block it points to.
  The table is written back when the entry was inserted or the loop has ended, but not on an
  error.
\<close>

fun table_loop ::
  "(u32 \<Rightarrow> u8 list \<times> ext2_fs_t \<Rightarrow> (ins \<times> u8 list \<times> ext2_fs_t) option) \<Rightarrow> bool \<Rightarrow> u32 \<Rightarrow> nat \<Rightarrow> nat
   \<Rightarrow> u8 list \<Rightarrow> u8 list \<times> ext2_fs_t \<Rightarrow> (ins \<times> u8 list \<times> ext2_fs_t) option" where
  "table_loop below leaf blk i 0 tbl s = (case s of (ino, fs) \<Rightarrow> Some (No_room, ino, write_block fs blk tbl 1))"
| "table_loop below leaf blk i (Suc n) tbl s =
     (case new_pointer leaf (get32 (4 * i) tbl) s of
        None \<Rightarrow> None
      | Some None \<Rightarrow> Some (Ins_error (- 2), s)
      | Some (Some (p, s1)) \<Rightarrow>
          let tbl1 = put32 (4 * i) p tbl in
          (case below p s1 of
             None \<Rightarrow> None
           | Some (Inserted, ino2, fs2) \<Rightarrow> Some (Inserted, ino2, write_block fs2 blk tbl1 1)
           | Some (No_room, s2) \<Rightarrow> table_loop below leaf blk (i + 1) n tbl1 s2
           | Some (Ins_error e, s2) \<Rightarrow> Some (Ins_error e, s2)))"

primrec ins_level :: "nat \<Rightarrow> u8 list \<Rightarrow> u32 \<Rightarrow> u32 \<Rightarrow> u8 list \<times> ext2_fs_t \<Rightarrow> (ins \<times> u8 list \<times> ext2_fs_t) option" where
  "ins_level 0 name inode_num = (\<lambda>blk s. case s of (ino, fs) \<Rightarrow>
     (case insert_into_block fs blk name inode_num of None \<Rightarrow> None
      | Some (done, fs1) \<Rightarrow> Some (if done then Inserted else No_room, ino, fs1)))"
| "ins_level (Suc l) name inode_num = (\<lambda>blk s. case s of (ino, fs) \<Rightarrow>
     table_loop (ins_level l name inode_num) (l = 0) blk 0 (unat (block_size fs div 4)) (read_block fs blk 1) s)"

text \<open>The pointers in the inode itself: offset in the inode, level, and the error code.\<close>

fun inode_loop :: "(nat \<times> nat \<times> int) list \<Rightarrow> u8 list \<Rightarrow> u32 \<Rightarrow> u8 list \<times> ext2_fs_t \<Rightarrow> (ins \<times> u8 list \<times> ext2_fs_t) option" where
  "inode_loop [] name inode_num s = Some (No_room, s)"
| "inode_loop ((off, l, err) # ps) name inode_num s =
     (case new_pointer (l = 0) (get32 off (fst s)) s of
        None \<Rightarrow> None
      | Some None \<Rightarrow> Some (Ins_error err, put32 off (- 1) (fst s), snd s)
      | Some (Some (p, ino1, fs1)) \<Rightarrow>
          (case ins_level l name inode_num p (put32 off p ino1, fs1) of
             None \<Rightarrow> None
           | Some (No_room, s2) \<Rightarrow> inode_loop ps name inode_num s2
           | Some r \<Rightarrow> Some r))"

definition inode_pointers :: "(nat \<times> nat \<times> int) list" where
  "inode_pointers = map (\<lambda>i. (40 + 4 * i, 0, - 1)) [0..<12] @ [(88, 1, - 2), (92, 2, - 2), (96, 3, - 2)]"

definition insert_directory_entry ::
  "ext2_fs_t \<Rightarrow> u8 list \<Rightarrow> u8 list \<Rightarrow> u32 \<Rightarrow> (int \<times> u8 list \<times> ext2_fs_t) option" where
  "insert_directory_entry fs parent_inode name inode_num =
     (case inode_loop inode_pointers name inode_num (parent_inode, fs) of
        None \<Rightarrow> None
      | Some (Inserted, s) \<Rightarrow> Some (0, s)
      | Some (No_room, s) \<Rightarrow> Some (- 3, s)
      | Some (Ins_error e, s) \<Rightarrow> Some (e, s))"

section \<open>Removing an entry\<close>

text \<open>
  The scan of \<open>remove_dir_entry\<close> over a block: the offset of the previous entry, the offset of the
  entry.  \<open>Some None\<close> says that the entry is not there.  An entry of size 0 is scanned again and
  again.
\<close>

partial_function (option) remove_scan ::
  "nat \<Rightarrow> u8 list \<Rightarrow> u8 \<Rightarrow> u8 list \<Rightarrow> nat option \<Rightarrow> nat \<Rightarrow> u8 list option option" where
  "remove_scan bs name ty b prev off =
     (if bs \<le> off then Some None
      else if length b < off + 8 \<or> (de_inode b off \<noteq> 0 \<and> length b < off + 8 + unat (de_name_len b off)) then None
      else if de_inode b off \<noteq> 0 \<and> de_type b off = ty
        \<and> takeWhile (\<lambda>c. c \<noteq> 0) (get_bytes (off + 8) (unat (de_name_len b off)) b) = takeWhile (\<lambda>c. c \<noteq> 0) name
      then Some (Some (case prev of
          Some p \<Rightarrow> put16 (p + 4) (de_entry_size b p + de_entry_size b off) b
        | None \<Rightarrow> put32 off 0 b))
      else remove_scan bs name ty b (Some off) (off + unat (de_entry_size b off)))"

definition remove_in_block :: "u8 list \<Rightarrow> u8 \<Rightarrow> u32 \<Rightarrow> ext2_fs_t \<Rightarrow> (bool \<times> ext2_fs_t) option" where
  "remove_in_block name ty block_num fs =
     (if block_num = 0 then Some (False, fs)
      else case remove_scan (unat (block_size fs)) name ty (read_block fs block_num 1) None 0 of
        None \<Rightarrow> None
      | Some None \<Rightarrow> Some (False, fs)
      | Some (Some b) \<Rightarrow> Some (True, write_block fs block_num b 1))"

text \<open>Trying blocks in order until one has the entry.\<close>

fun first_block :: "(u32 \<Rightarrow> ext2_fs_t \<Rightarrow> (bool \<times> ext2_fs_t) option) \<Rightarrow> u32 list \<Rightarrow> ext2_fs_t \<Rightarrow> (bool \<times> ext2_fs_t) option" where
  "first_block f [] fs = Some (False, fs)"
| "first_block f (p # ps) fs =
     (case f p fs of None \<Rightarrow> None
      | Some (True, fs1) \<Rightarrow> Some (True, fs1)
      | Some (False, fs1) \<Rightarrow> first_block f ps fs1)"

definition block_pointers :: "ext2_fs_t \<Rightarrow> u32 \<Rightarrow> u32 list" where
  "block_pointers fs blk = map (\<lambda>i. get32 (4 * i) (read_block fs blk 1)) [0..<unat (block_size fs div 4)]"

primrec remove_level :: "nat \<Rightarrow> u8 list \<Rightarrow> u8 \<Rightarrow> u32 \<Rightarrow> ext2_fs_t \<Rightarrow> (bool \<times> ext2_fs_t) option" where
  "remove_level 0 name ty = remove_in_block name ty"
| "remove_level (Suc l) name ty = (\<lambda>blk fs.
     if blk = 0 then Some (False, fs)
     else first_block (remove_level l name ty) (block_pointers fs blk) fs)"

definition remove_dir_entry :: "ext2_fs_t \<Rightarrow> u8 list \<Rightarrow> u8 list \<Rightarrow> u8 \<Rightarrow> ext2_fs_t option" where
  "remove_dir_entry fs parent_inode name ty =
     (case first_block (remove_level 0 name ty) (map (direct_blk_ptr parent_inode) [0..<12]) fs of
        None \<Rightarrow> None
      | Some (True, fs1) \<Rightarrow> Some fs1
      | Some (False, fs1) \<Rightarrow>
          (case remove_level 1 name ty (singly_inderect_blk_ptr parent_inode) fs1 of
             None \<Rightarrow> None
           | Some (True, fs2) \<Rightarrow> Some fs2
           | Some (False, fs2) \<Rightarrow>
               (case remove_level 2 name ty (doubly_inderect_blk_ptr parent_inode) fs2 of
                  None \<Rightarrow> None
                | Some (True, fs3) \<Rightarrow> Some fs3
                | Some (False, fs3) \<Rightarrow>
                    map_option snd (remove_level 3 name ty (triply_inderect_blk_ptr parent_inode) fs3))))"

section \<open>The first block of a new directory\<close>

definition new_dir_block :: "u32 \<Rightarrow> u32 \<Rightarrow> u32 \<Rightarrow> u8 list" where
  "new_dir_block bs inode_num parent_num =
     (let b0 = replicate (unat bs) 0;
          b1 = put_header 0 inode_num 1 2 b0;
          b2 = (b1[8 := 0x2E]);
          dot_size = dirent_rec_len 1;
          b3 = put16 4 dot_size b2;
          o2 = unat dot_size;
          b4 = put_header o2 parent_num 2 2 b3;
          b5 = b4[o2 + 8 := 0x2E, o2 + 9 := 0x2E]
      in put16 (o2 + 4) (ucast (bs - ucast dot_size)) b5)"

section \<open>Listing a block\<close>

text \<open>
  The entries \<open>parse_directory_block\<close> goes through: it stops at the first whose inode is 0 or
  whose size is below 8.
\<close>

function list_entries :: "u8 list \<Rightarrow> nat \<Rightarrow> nat \<Rightarrow> (u32 \<times> u8 \<times> u8 list) list option" where
  "list_entries b bs off =
     (if bs \<le> off then Some []
      else if length b < off + 8 then None
      else if de_inode b off = 0 then Some []
      else if unat (de_entry_size b off) < 8 then Some []
      else if length b < off + 8 + unat (de_name_len b off) then None
      else case list_entries b bs (off + unat (de_entry_size b off)) of None \<Rightarrow> None
        | Some es \<Rightarrow> Some ((de_inode b off, de_type b off, get_bytes (off + 8) (unat (de_name_len b off)) b) # es))"
  by pat_completeness auto
termination
  by (relation "measure (\<lambda>(b, bs, off). bs - off)") auto

declare list_entries.simps [simp del]

section \<open>Blocks as lists of entries\<close>

text \<open>
  A segment of a block that is an entry: its bytes begin with the inode number, its own length,
  the length of the name and the type, and the name follows.
\<close>

type_synonym dentry = "u32 \<times> u8 \<times> u8 list"

definition is_entry :: "u8 list \<Rightarrow> dentry \<Rightarrow> bool" where
  "is_entry x e = (case e of (ino, ty, name) \<Rightarrow>
     length name < 256 \<and> 8 + length name \<le> length x \<and> length x < 2 ^ 16 \<and> get32 0 x = ino
     \<and> get16 4 x = of_nat (length x) \<and> x ! 6 = of_nat (length name) \<and> x ! 7 = ty
     \<and> take (length name) (drop 8 x) = name)"

definition live :: "dentry \<Rightarrow> bool" where
  "live e \<longleftrightarrow> fst e \<noteq> 0"

definition rec_len :: "u8 list \<Rightarrow> nat" where
  "rec_len name = 8 + 4 * ((length name + 3) div 4)"

text \<open>The room behind the name of an entry.\<close>

definition spare :: "u8 list \<Rightarrow> dentry \<Rightarrow> nat" where
  "spare x e = length x - rec_len (snd (snd e))"

lemma unat_rec_len:
  assumes "length name < 256"
  shows "unat (dirent_rec_len (of_nat (length name))) = rec_len name"
proof -
  let ?n = "length name"
  have l: "unat (ucast (of_nat ?n :: u8) :: u16) = ?n"
    using assms unat_less_lit [of "of_nat ?n :: u8"]
    by (simp only: unsigned_ucast_eq take_bit_eq_mod) (simp add: unat_of_nat)
  have "unat (ucast (of_nat ?n :: u8) + 3 :: u16) = ?n + 3"
    using l assms by (subst unat_add_no_wrap) simp_all
  moreover have "unat (y AND NOT 3 :: u16) = 4 * (unat y div 4)" for y :: u16
    using unat_and_not_low [of y 2] by simp
  ultimately have "unat (align4_u16 (ucast (of_nat ?n :: u8))) = 4 * ((?n + 3) div 4)"
    by (simp add: align4_u16_def)
  then show ?thesis
    using assms by (simp add: dirent_rec_len_def rec_len_def) (subst unat_add_no_wrap; simp)
qed

text \<open>Accesses inside one part of a block.\<close>

lemma part_reads:
  "o' + 4 \<le> length x \<Longrightarrow> get32 (length p + o') (p @ x @ q) = get32 o' x"
  "o' + 2 \<le> length x \<Longrightarrow> get16 (length p + o') (p @ x @ q) = get16 o' x"
  "o' < length x \<Longrightarrow> (p @ x @ q) ! (length p + o') = x ! o'"
  "o' + n \<le> length x \<Longrightarrow> get_bytes (length p + o') n (p @ x @ q) = get_bytes o' n x"
  by (simp_all add: get32_def get16_def get_bytes_def nth_append)

lemma part_writes:
  "o' + 4 \<le> length x \<Longrightarrow> put32 (length p + o') v (p @ x @ q) = p @ put32 o' v x @ q"
  "o' + 2 \<le> length x \<Longrightarrow> put16 (length p + o') w (p @ x @ q) = p @ put16 o' w x @ q"
  "o' < length x \<Longrightarrow> (p @ x @ q)[length p + o' := c] = p @ x[o' := c] @ q"
  "o' + length bs \<le> length x \<Longrightarrow> put_bytes (length p + o') bs (p @ x @ q) = p @ put_bytes o' bs x @ q"
  by (simp_all add: put32_def put16_def put_bytes_def list_update_append)

lemma part_header:
  "o' + 8 \<le> length x \<Longrightarrow> put_header (length p + o') i l t (p @ x @ q) = p @ put_header o' i l t x @ q"
  by (simp add: put_header_def part_writes(1)) (simp add: list_update_append)

lemma length_put_header [simp]: "length (put_header off i l t b) = length b"
  by (simp add: put_header_def)

lemma place_entry_part:
  assumes "8 + length name \<le> unat needed" and "needed = dirent_rec_len (of_nat (length name))" and "length name < 256"
    and "unat room = length x" and "needed = room \<or> needed < room \<and> unat needed + 8 \<le> length x"
  shows "place_entry (length p) room name ino ty (p @ x @ q)
    = map_option (\<lambda>x'. p @ x' @ q) (place_entry 0 room name ino ty x)"
    and "\<exists>x'. place_entry 0 room name ino ty x = Some x' \<and> length x' = length x"
proof -
  have l: "unat (of_nat (length name) :: u8) = length name" using assms(3) by (simp add: unat_of_nat)
  have le: "unat needed \<le> length x" using assms(4,5) by (auto simp: word_less_nat_alt)
  have x8: "8 \<le> length x" "8 + length name \<le> length x" using assms(1) le by auto
  note w = part_writes [where p = p and q = q] part_header [where p = p and q = q]
  note w0 = w(1,2,3,5) [where o' = 0, simplified] part_writes(4) [where p = p and q = q and o' = 8]
  show "place_entry (length p) room name ino ty (p @ x @ q)
    = map_option (\<lambda>x'. p @ x' @ q) (place_entry 0 room name ino ty x)"
    using assms(5)
  proof
    assume "needed = room"
    then show ?thesis
      using x8 by (simp add: place_entry_def Let_def l assms(2) [symmetric] w0 part_writes(2) add.commute [of 4])
  next
    assume "needed < room \<and> unat needed + 8 \<le> length x"
    then show ?thesis
      using x8 by (simp add: place_entry_def Let_def l assms(2) [symmetric] w0 part_writes(2) part_header add.assoc)
  qed
  show "\<exists>x'. place_entry 0 room name ino ty x = Some x' \<and> length x' = length x"
    using assms(5) x8 by (auto simp: place_entry_def Let_def l assms(2) [symmetric])
qed

lemma fields_put_bytes:
  assumes "off + length bs \<le> length d"
  shows "a + 4 \<le> off \<or> off + length bs \<le> a \<and> a + 4 \<le> length d \<Longrightarrow> get32 a (put_bytes off bs d) = get32 a d"
    and "a + 2 \<le> off \<or> off + length bs \<le> a \<and> a + 2 \<le> length d \<Longrightarrow> get16 a (put_bytes off bs d) = get16 a d"
    and "a < off \<Longrightarrow> put_bytes off bs d ! a = d ! a"
  using assms by (auto intro!: get32_cong get16_cong simp: put_bytes_nth)

lemma fields_take:
  "a + 4 \<le> n \<Longrightarrow> get32 a (take n d) = get32 a d" "a + 2 \<le> n \<Longrightarrow> get16 a (take n d) = get16 a d"
  by (simp_all add: get32_def get16_def)

lemma fields_update:
  "i < a \<or> a + 4 \<le> i \<Longrightarrow> get32 a (d[i := c]) = get32 a d" "i < a \<or> a + 2 \<le> i \<Longrightarrow> get16 a (d[i := c]) = get16 a d"
  by (auto simp: get32_def get16_def)

lemma header_fields:
  "off + 8 \<le> length d \<Longrightarrow> get32 off (put_header off i l t d) = i"
  "a + 4 \<le> off \<or> off + 8 \<le> a \<Longrightarrow> get32 a (put_header off i l t d) = get32 a d"
  "a + 2 \<le> off \<or> off + 8 \<le> a \<or> a = off + 4 \<Longrightarrow> get16 a (put_header off i l t d) = get16 a d"
  "off + 8 \<le> length d \<Longrightarrow> put_header off i l t d ! (off + 6) = l"
  "off + 8 \<le> length d \<Longrightarrow> put_header off i l t d ! (off + 7) = t"
  "a < off \<or> off + 8 \<le> a \<Longrightarrow> put_header off i l t d ! a = d ! a"
  by (auto simp: put_header_def fields_update put32_nth) (auto simp: put32_def)

lemma placed_is_entry:
  assumes "place_entry 0 room name ino ty x = Some x'" and "8 + length name \<le> unat needed"
    and "needed = dirent_rec_len (of_nat (length name))" and "length name < 256" and "unat room = length x"
    and "needed = room \<or> needed < room \<and> unat needed + 8 \<le> length x"
  shows "is_entry (take (unat needed) x') (ino, ty, name)"
    and "needed < room \<Longrightarrow> get32 (unat needed) x' = 0"
    and "needed < room \<Longrightarrow> get16 (unat needed + 4) x' = room - needed"
proof -
  have l: "unat (of_nat (length name) :: u8) = length name" using assms(4) by (simp add: unat_of_nat)
  have le: "unat needed \<le> length x" using assms(5,6) by (auto simp: word_less_nat_alt)
  have x8: "8 + length name \<le> length x" using assms(2) le by simp
  let ?n = "unat needed"
  define b1 where "b1 = put_header 0 ino (of_nat (length name)) ty x"
  define b2 where "b2 = (if needed < room
    then put16 (?n + 4) (room - needed) (put_header ?n 0 0 0 (put16 4 needed b1)) else put16 4 room b1)"
  have len: "length b1 = length x" "length b2 = length x" by (simp_all add: b1_def b2_def)
  have x': "x' = put_bytes 8 name b2" and fit: "needed < room \<Longrightarrow> ?n + 8 \<le> length x"
    using assms(1) x8 by (auto simp: place_entry_def Let_def l assms(3) [symmetric] b1_def b2_def split: if_splits)
  have lx: "length x' = length x" using x8 len by (simp add: x')
  have pb: "8 + length name \<le> length b2" using x8 len by simp
  have lt: "length x < 2 ^ 16" using unat_less_lit [of room] assms(5) by simp
  have n_of: "of_nat ?n = needed" "of_nat (min (length x') ?n) = needed" using le lx by (simp_all add: min_def)
  have f: "get32 0 b2 = ino" "get16 4 b2 = needed" "b2 ! 6 = of_nat (length name)" "b2 ! 7 = ty"
    using assms(2,6) x8 fit header_fields(4,5) [of 0 x ino "of_nat (length name)" ty]
    by (auto simp: b2_def b1_def header_fields put16_nth)
  have "take (length name) (drop 8 (take ?n x')) = name"
  proof -
    have "take (length name) (drop 8 (take ?n x')) = take (length name) (drop 8 x')"
      using assms(2) by (simp add: drop_take min_def)
    then show ?thesis using get_put_bytes [OF pb] by (simp add: x' get_bytes_def)
  qed
  then show "is_entry (take ?n x') (ino, ty, name)"
    using assms(2,4) le lt lx f fields_put_bytes [OF pb] n_of
    by (simp add: is_entry_def fields_take) (simp add: x')
  show "get32 ?n x' = 0" "get16 (?n + 4) x' = room - needed" if "needed < room"
    using fields_put_bytes(1) [OF pb, of ?n] fields_put_bytes(2) [OF pb, of "?n + 4"] fit [OF that] that assms(2) len
    by (simp_all add: x' b2_def header_fields)
qed

section \<open>Scanning and listing\<close>

lemma is_entry_sizes:
  assumes "is_entry x (i, t, nm)"
  shows "8 + length nm \<le> length x" "length x < 2 ^ 16" "length nm < 256" "unat (of_nat (length nm) :: u8) = length nm"
  using assms by (auto simp: is_entry_def unat_of_nat)

lemma is_entry_fields:
  assumes "is_entry x (i, t, nm)"
  shows "length p + 8 + length nm \<le> length (p @ x @ q)" "de_inode (p @ x @ q) (length p) = i"
    "unat (de_entry_size (p @ x @ q) (length p)) = length x"
    "de_name_len (p @ x @ q) (length p) = of_nat (length nm)"
    "de_type (p @ x @ q) (length p) = t" "get_bytes (length p + 8) (length nm) (p @ x @ q) = nm"
proof -
  have a: "8 + length nm \<le> length x" "length x < 2 ^ 16" "get32 0 x = i" "get16 4 x = of_nat (length x)"
    "x ! 6 = of_nat (length nm)" "x ! 7 = t" "take (length nm) (drop 8 x) = nm"
    using assms by (auto simp: is_entry_def)
  have x8: "6 < length x" "7 < length x" "0 + 4 \<le> length x" "4 + 2 \<le> length x" using a(1) by simp_all
  show "length p + 8 + length nm \<le> length (p @ x @ q)" using a(1) by simp
  show "de_inode (p @ x @ q) (length p) = i" "de_name_len (p @ x @ q) (length p) = of_nat (length nm)"
    "de_type (p @ x @ q) (length p) = t"
    using a part_reads(1) [OF x8(3), of p q] part_reads(3) [OF x8(1), of p q] part_reads(3) [OF x8(2), of p q]
    by (simp_all add: de_inode_def de_name_len_def de_type_def)
  have "unat (of_nat (length x) :: u16) = length x" using a(2) by (subst unat_of_nat) simp
  then show "unat (de_entry_size (p @ x @ q) (length p)) = length x"
    using a(4) part_reads(2) [OF x8(4), of p q] by (simp add: de_entry_size_def)
  show "get_bytes (length p + 8) (length nm) (p @ x @ q) = nm"
    using a(1,7) by (subst part_reads(4)) (simp_all add: get_bytes_def)
qed

lemma rec_len_ge: "8 + length name \<le> rec_len name"
  unfolding rec_len_def by presburger

lemma scan_step:
  assumes "is_entry x (i, t, nm)" and "i \<noteq> 0" and "length p < bs" and "length name < 256"
  shows "insert_scan (p @ x @ q) bs name ino (Some ty) (length p) =
    (if rec_len name \<le> spare x (i, t, nm)
     then map_option Some (place_entry (length p + rec_len nm) (of_nat (spare x (i, t, nm))) name ino ty
            (put16 (length p + 4) (dirent_rec_len (of_nat (length nm))) (p @ x @ q)))
     else insert_scan (p @ x @ q) bs name ino (Some ty) (length p + length x))"
proof -
  note f = is_entry_fields [OF assms(1), of p q] and z = is_entry_sizes [OF assms(1)]
  let ?es = "de_entry_size (p @ x @ q) (length p)" and ?act = "dirent_rec_len (of_nat (length nm))"
  have u: "unat ?act = rec_len nm" "unat (dirent_rec_len (of_nat (length name))) = rec_len name"
    using unat_rec_len z(3) assms(4) by auto
  have nz: "?es \<noteq> 0" using f(3) z(1) by auto
  have ac: "?act < ?es \<longleftrightarrow> rec_len nm < length x" using u f(3) by (simp add: word_less_nat_alt)
  have sub: "unat (?es - ?act) = length x - rec_len nm" if "rec_len nm < length x"
    using that u f(3) ac by (subst unat_sub) (auto simp: word_le_nat_alt)
  have room: "?es - ?act = of_nat (length x - rec_len nm)" if "rec_len nm < length x"
    using sub [OF that] by (simp flip: sub [OF that])
  have c: "?act < ?es \<and> dirent_rec_len (of_nat (length name)) \<le> ?es - ?act \<longleftrightarrow> rec_len name \<le> spare x (i, t, nm)"
    using ac sub u rec_len_ge [of name] by (auto simp: word_le_nat_alt spare_def)
  have sp: "rec_len nm < length x" if "rec_len name \<le> spare x (i, t, nm)"
    using that rec_len_ge [of name] by (simp add: spare_def)
  have bound: "\<not> length (p @ x @ q) < length p + 8" using z(1) by simp
  show ?thesis
  proof (cases "rec_len name \<le> spare x (i, t, nm)")
    case True
    then show ?thesis
      using c assms(2,3) bound nz room [OF sp [OF True]] u f(2,4)
      by (subst insert_scan.simps) (simp add: Let_def spare_def)
  next
    case False
    have "\<not> (?act < ?es \<and> dirent_rec_len (of_nat (length name)) \<le> ?es - ?act)" using c False by simp
    then show ?thesis
      using False assms(2,3) bound nz f(2,3,4)
      by (subst insert_scan.simps) (simp only: Let_def if_False if_True not_le de_inode_def; simp add: de_inode_def)
  qed
qed

lemma list_step:
  assumes "is_entry x e" and "live e" and "length p < bs"
  shows "list_entries (p @ x @ q) bs (length p) = map_option (Cons e) (list_entries (p @ x @ q) bs (length p + length x))"
proof -
  obtain i t nm where e: "e = (i, t, nm)" by (cases e)
  note f = is_entry_fields [OF assms(1) [unfolded e], of p q] and z = is_entry_sizes [OF assms(1) [unfolded e]]
  show ?thesis
    using assms(2,3) f z by (subst list_entries.simps) (auto simp: e live_def split: option.split)
qed

lemma list_segments:
  assumes "list_all2 is_entry segs es" and "list_all live es" and "length p + length (concat segs) \<le> bs"
  shows "list_entries (p @ concat segs @ q) bs (length p)
    = map_option ((@) es) (list_entries (p @ concat segs @ q) bs (length p + length (concat segs)))"
  using assms
proof (induction segs es arbitrary: p rule: list_all2_induct)
  case (Cons x segs e es)
  have "8 \<le> length x" using Cons.hyps(1) by (cases e) (auto simp: is_entry_def)
  then have "length p < bs" using Cons.prems(2) by simp
  then show ?case
    using list_step [OF Cons.hyps(1), of p bs "concat segs @ q"] Cons.IH [of "p @ x"] Cons.prems
    by (simp add: option.map_comp comp_def add.assoc)
next
  case Nil
  then show ?case by (cases "list_entries (p @ q) bs (length p)") simp_all
qed

text \<open>Entries in use without the room for the new name are passed over.\<close>

lemma scan_segments:
  assumes "list_all2 is_entry segs es" and "list_all live es" and "length p + length (concat segs) \<le> bs"
    and "\<forall>(x, e) \<in> set (zip segs es). spare x e < rec_len name" and "length name < 256"
  shows "insert_scan (p @ concat segs @ q) bs name ino (Some ty) (length p)
    = insert_scan (p @ concat segs @ q) bs name ino (Some ty) (length p + length (concat segs))"
  using assms(1-4)
proof (induction segs es arbitrary: p rule: list_all2_induct)
  case (Cons x segs e es)
  obtain i t nm where e: "e = (i, t, nm)" by (cases e)
  have "8 \<le> length x" using Cons.hyps(1) by (cases e) (auto simp: is_entry_def)
  then have "length p < bs" using Cons.prems(2) by simp
  then show ?case
    using scan_step [OF Cons.hyps(1) [unfolded e] _ _ assms(5), of p bs "concat segs @ q"]
      Cons.IH [of "p @ x"] Cons.prems
    by (simp add: e live_def add.assoc)
qed simp

text \<open>The entry a new one is split from keeps its inode and name.\<close>

lemma shortened_entry:
  assumes "is_entry (xa @ y) (i, t, nm)" and "length xa = rec_len nm"
  shows "is_entry (put16 4 (dirent_rec_len (of_nat (length nm))) xa) (i, t, nm)"
proof -
  note z = is_entry_sizes [OF assms(1)]
  have r: "8 + length nm \<le> length xa" using assms(2) rec_len_ge by simp
  have u: "dirent_rec_len (of_nat (length nm)) = of_nat (length xa)"
    using unat_rec_len [OF z(3)] assms(2) by (metis of_nat_unat ucast_id)
  have "put16 4 w xa ! k = (xa @ y) ! k" if "k < length xa" "k \<noteq> 4" "k \<noteq> 5" for k w
    using that by (auto simp: put16_def nth_append)
  moreover from this have "take (length nm) (drop 8 (put16 4 w xa)) = take (length nm) (drop 8 (xa @ y))" for w
    using r by (auto intro!: nth_equalityI simp: nth_append)
  moreover have "get32 0 (put16 4 w xa) = get32 0 (xa @ y)" for w
    using r by (intro get32_cong calculation(1)) auto
  ultimately show ?thesis
    using assms(1) r z by (simp add: is_entry_def u)
qed

text \<open>What is placed at the start of a segment, as segments.\<close>

lemma placed_segments:
  assumes "place_entry 0 room name ino ty x = Some x'" and "unat room = length x" and "length name < 256"
    and "length x = rec_len name \<or> rec_len name + 8 \<le> length x"
  shows "\<exists>y z. x' = y @ z \<and> is_entry y (ino, ty, name) \<and> length y = rec_len name
    \<and> (if length x = rec_len name then z = [] else 8 \<le> length z \<and> get32 0 z = 0)"
proof -
  let ?n = "dirent_rec_len (of_nat (length name))"
  have u: "unat ?n = rec_len name" by (rule unat_rec_len [OF assms(3)])
  have cases: "?n = room \<or> ?n < room \<and> unat ?n + 8 \<le> length x"
    using assms(2,4) u by (auto simp: word_less_nat_alt word_unat_eq_iff)
  have r: "8 + length name \<le> unat ?n" using u rec_len_ge by simp
  note pl = placed_is_entry [OF assms(1) r refl assms(3,2) cases]
  obtain x'' where "place_entry 0 room name ino ty x = Some x''" "length x'' = length x"
    using place_entry_part(2) [OF r refl assms(3,2) cases] by blast
  then have lx: "length x' = length x" using assms(1) by simp
  have le: "rec_len name \<le> length x'" using assms(4) lx by auto
  have "get32 0 (drop (rec_len name) x') = get32 (rec_len name) x'" using le by (simp add: get32_def add.commute)
  moreover have "length x \<noteq> rec_len name \<Longrightarrow> ?n < room" using cases u assms(2) by auto
  ultimately show ?thesis
    using pl u lx le assms(4)
    by (intro exI [of _ "take (rec_len name) x'"] exI [of _ "drop (rec_len name) x'"]) auto
qed

lemma list_entries_end: "bs \<le> off \<Longrightarrow> list_entries b bs off = Some []"
  by (subst list_entries.simps) simp

lemma list_entries_stop:
  "off + 8 \<le> length b \<Longrightarrow> de_inode b off = 0 \<Longrightarrow> list_entries b bs off = Some []"
  by (subst list_entries.simps) simp

lemma insert_listed:
  assumes "list_all2 is_entry segs es" and "is_entry x e" and "list_all2 is_entry segs' es'"
    and "list_all live (es @ e # es')" and "\<forall>(y, f) \<in> set (zip segs es). spare y f < rec_len name"
    and "length name < 256" and "ino \<noteq> 0" and "spare x e = rec_len name \<or> rec_len name + 8 \<le> spare x e"
    and "b = concat segs @ x @ concat segs'"
  shows "list_entries b (length b) 0 = Some (es @ e # es') \<and> (\<exists>b'. insert_scan b (length b) name ino (Some ty) 0 = Some (Some b')
    \<and> length b' = length b
    \<and> list_entries b' (length b) 0
      = Some (es @ [e, (ino, ty, name)] @ (if spare x e = rec_len name then es' else [])))"
proof -
  obtain i t nm where e: "e = (i, t, nm)" by (cases e)
  let ?p = "concat segs" and ?q = "concat segs'" and ?bs = "length b"
  note z = is_entry_sizes [OF assms(2) [unfolded e]]
  have fit: "rec_len name \<le> spare x e" using assms(8) by auto
  then have rl: "rec_len nm < length x" using rec_len_ge [of name] by (simp add: spare_def e)
  define xa y where "xa = take (rec_len nm) x" and "y = drop (rec_len nm) x"
  have x: "x = xa @ y" "length xa = rec_len nm" "length y = spare x e"
    using rl by (simp_all add: xa_def y_def spare_def e)
  let ?xa = "put16 4 (dirent_rec_len (of_nat (length nm))) xa"
  have xa: "is_entry ?xa e" using shortened_entry [of xa y i t nm] assms(2) x by (simp add: e)
  have b: "b = ?p @ x @ ?q" by (rule assms(9))
  have bs: "length ?p + length x + length ?q = ?bs" by (simp add: b)
  have pn: "length ?p < ?bs" using rl bs by linarith
  have room: "unat (of_nat (spare x e) :: u16) = length y" using x(3) z(2) x(1) by (subst unat_of_nat) simp
  have u: "unat (dirent_rec_len (of_nat (length name))) = rec_len name" by (rule unat_rec_len [OF assms(6)])
  have r8: "8 + length name \<le> unat (dirent_rec_len (of_nat (length name)))" using u rec_len_ge by simp
  have cs: "dirent_rec_len (of_nat (length name)) = of_nat (spare x e)
    \<or> dirent_rec_len (of_nat (length name)) < of_nat (spare x e) \<and> unat (dirent_rec_len (of_nat (length name))) + 8 \<le> length y"
    using assms(8) u room x(3) by (auto simp: word_less_nat_alt word_unat_eq_iff)
  obtain y' where y': "place_entry 0 (of_nat (spare x e)) name ino ty y = Some y'" "length y' = length y"
    using place_entry_part(2) [OF r8 refl assms(6) room cs] by blast
  have xl: "6 \<le> length xa" using x(2) rec_len_ge [of nm] by simp
  have w: "put16 (length ?p + 4) (dirent_rec_len (of_nat (length nm))) b = (?p @ ?xa) @ y @ ?q"
    using xl by (simp add: b x(1) part_writes(2))
  have "insert_scan b ?bs name ino (Some ty) 0 = insert_scan b ?bs name ino (Some ty) (length ?p)"
    using scan_segments [OF assms(1) _ _ assms(5,6), of "[]" ?bs "x @ ?q" ino ty] assms(4) pn by (simp add: b)
  also have "\<dots> = map_option Some (place_entry (length ?p + rec_len nm) (of_nat (spare x e)) name ino ty ((?p @ ?xa) @ y @ ?q))"
    using scan_step [OF assms(2) [unfolded e] _ pn assms(6), of ?q ino ty] fit assms(4) w
    by (simp add: e [symmetric] b [symmetric]) (simp add: e live_def)
  also have "\<dots> = Some (Some ((?p @ ?xa) @ y' @ ?q))"
    using place_entry_part(1) [OF r8 refl assms(6) room cs, of "?p @ ?xa" ino ty ?q] y' x(2) by simp
  finally have ins: "insert_scan b ?bs name ino (Some ty) 0 = Some (Some (?p @ ?xa @ y' @ ?q))" by simp
  let ?b' = "?p @ ?xa @ y' @ ?q"
  obtain n r where nr: "y' = n @ r" "is_entry n (ino, ty, name)" "length n = rec_len name"
    "if length y = rec_len name then r = [] else 8 \<le> length r \<and> get32 0 r = 0"
    using placed_segments [OF y'(1) room assms(6)] assms(8) x(3) by auto
  have len: "length ?b' = ?bs" using x y'(2) by (simp add: b)
  let ?pre = "segs @ [?xa, n]" and ?les = "es @ [e, (ino, ty, name)]"
  have pre: "list_all2 is_entry ?pre ?les" using assms(1) xa nr(2) by (simp add: list_all2_appendI)
  have pl: "list_all live ?les" using assms(4,7) by (auto simp: live_def)
  have b': "?b' = concat ?pre @ r @ ?q" by (simp add: nr(1))
  have l1: "list_entries ?b' ?bs 0 = map_option ((@) ?les) (list_entries ?b' ?bs (length (concat ?pre)))"
    using list_segments [OF pre pl, of "[]" ?bs "r @ ?q"] len unfolding b' by simp
  have l2: "list_entries ?b' ?bs (length (concat ?pre)) = Some (if spare x e = rec_len name then es' else [])"
  proof (cases "spare x e = rec_len name")
    case True
    then have "r = []" using nr(4) x(3) by simp
    then have "?b' = concat ?pre @ ?q @ []" "length (concat ?pre) + length ?q = ?bs" using b' len by simp_all
    then show ?thesis
      using list_segments [OF assms(3), of "concat ?pre" ?bs "[]"] assms(4) True
      by (simp only:) (simp add: list_entries_end)
  next
    case False
    then have "8 \<le> length r" "get32 0 r = 0" using nr(4) x(3) by auto
    then show ?thesis
      using False part_reads(1) [of 0 r "concat ?pre" ?q]
      unfolding b' by (subst list_entries_stop) (simp_all add: de_inode_def)
  qed
  have "list_all2 is_entry (segs @ x # segs') (es @ e # es')" using assms(1-3) by (simp add: list_all2_appendI)
  from list_segments [OF this assms(4), of "[]" ?bs "[]"]
  have "list_entries b ?bs 0 = Some (es @ e # es')" by (simp add: b list_entries_end)
  then show ?thesis using ins len l1 l2 by (intro conjI exI [of _ ?b']) simp_all
qed

text \<open>
  C30: inserting a name into a block of directory entries, all in use, where the first entry with
  room behind its name for the new one is \<open>e\<close>.  The call returns a block of the same length in
  which \<open>e\<close> and the entries before it are listed as before, followed by the new entry.  The
  entries behind \<open>e\<close> are still listed only when the new one takes the room exactly; otherwise the
  rest of the room becomes an empty entry, where the listing of a directory stops, and every
  entry behind it has disappeared.
\<close>

theorem insert_entry_listed:
  assumes "list_all2 is_entry segs es" and "is_entry x e" and "list_all2 is_entry segs' es'"
    and "list_all live (es @ e # es')" and "\<forall>(y, f) \<in> set (zip segs es). spare y f < rec_len name"
    and "length name < 256" and "ino \<noteq> 0" and "spare x e = rec_len name \<or> rec_len name + 8 \<le> spare x e"
    and "b = concat segs @ x @ concat segs'"
  shows "list_entries b (length b) 0 = Some (es @ e # es') \<and> (\<exists>b'. insert_scan b (length b) name ino (Some ty) 0 = Some (Some b')
    \<and> length b' = length b
    \<and> list_entries b' (length b) 0
      = Some (es @ [e, (ino, ty, name)] @ (if spare x e = rec_len name then es' else [])))"
  by (rule insert_listed [OF assms])

lemma cut_header_clobbers:
  assumes "rem + 8 \<le> length d"
  shows "get32 (rem + 4) (put16 (rem + 4) 4 (put_header rem 0 0 0 d)) = 4"
proof -
  have n: "put16 (rem + 4) 4 (put_header rem 0 0 0 d) ! (rem + 4) = 4"
    "put16 (rem + 4) 4 (put_header rem 0 0 0 d) ! (rem + 4 + 1) = 0"
    "put16 (rem + 4) 4 (put_header rem 0 0 0 d) ! (rem + 4 + 2) = 0"
    "put16 (rem + 4) 4 (put_header rem 0 0 0 d) ! (rem + 4 + 3) = 0"
    using assms by (simp_all add: put16_def put_header_def nth_list_update add.assoc)
  show ?thesis by (simp only: get32_def n) simp
qed

text \<open>
  When the room left over is exactly 4 bytes, the header of the empty entry that is put there
  is 4 bytes longer than it.  If the split entry is the last of the block, the header is written
  past the end of the buffer.  Otherwise it overwrites the inode number of the next entry with
  its own size: from then on that name stands for inode 4.
\<close>

lemma insert_clobbers_next_entry:
  assumes "list_all2 is_entry segs es" and "is_entry x e" and "list_all2 is_entry segs' es'"
    and "list_all live (es @ e # es')" and "\<forall>(y, f) \<in> set (zip segs es). spare y f < rec_len name"
    and "length name < 256" and "spare x e = rec_len name + 4" and "b = concat segs @ x @ concat segs'"
  shows "if segs' = [] then insert_scan b (length b) name ino (Some ty) 0 = None
    else \<exists>b'. insert_scan b (length b) name ino (Some ty) 0 = Some (Some b')
      \<and> de_inode b' (length (concat segs @ x)) = 4"
proof -
  obtain i t nm where e: "e = (i, t, nm)" by (cases e)
  let ?p = "concat segs" and ?q = "concat segs'" and ?bs = "length b"
  note z = is_entry_sizes [OF assms(2) [unfolded e]]
  have rl: "length x = rec_len nm + rec_len name + 4" using assms(7) by (simp add: spare_def e)
  have b: "b = ?p @ x @ ?q" by (rule assms(8))
  have pn: "length ?p < ?bs" using rl by (simp add: b)
  let ?off = "length ?p + rec_len nm" and ?n = "dirent_rec_len (of_nat (length name))" and ?room = "of_nat (spare x e) :: u16"
  let ?B = "put16 (length ?p + 4) (dirent_rec_len (of_nat (length nm))) b"
  have u: "unat ?n = rec_len name" by (rule unat_rec_len [OF assms(6)])
  have room: "unat ?room = rec_len name + 4" using assms(7) z(2) rl by (subst unat_of_nat) simp
  have lt: "?n < ?room" using u room by (simp add: word_less_nat_alt)
  then have "unat (?room - ?n) = 4" using u room by (simp add: unat_sub less_imp_le)
  then have r4: "?room - ?n = 4" by (simp add: word_unat_eq_iff)
  have l: "unat (of_nat (length name) :: u8) = length name" using assms(6) by (simp add: unat_of_nat)
  have "insert_scan b ?bs name ino (Some ty) 0 = insert_scan b ?bs name ino (Some ty) (length ?p)"
    using scan_segments [OF assms(1) _ _ assms(5,6), of "[]" ?bs "x @ ?q" ino ty] assms(4) pn by (simp add: b)
  also have "\<dots> = map_option Some (place_entry ?off ?room name ino ty ?B)"
    using scan_step [OF assms(2) [unfolded e] _ pn assms(6), of ?q ino ty] assms(4,7)
    by (simp add: e [symmetric] b [symmetric]) (simp add: e live_def)
  finally have ins: "insert_scan b ?bs name ino (Some ty) 0 = map_option Some (place_entry ?off ?room name ino ty ?B)" .
  have end_x: "?off + rec_len name + 4 = length (?p @ x)" using rl by simp
  show ?thesis
  proof (cases "segs' = []")
    case True
    then have "length ?B < ?off + rec_len name + 8" using end_x by (simp add: b)
    then show ?thesis using ins lt True by (simp add: place_entry_def Let_def u)
  next
    case False
    then obtain y segs'' f es'' where "segs' = y # segs''" "is_entry y f"
      using assms(3) by (cases segs') (auto simp: list_all2_Cons1)
    then have "8 \<le> length ?q" using is_entry_sizes(1) [of y] by (cases f) fastforce
    then have lB: "?off + rec_len name + 8 \<le> length ?B" using end_x by (simp add: b)
    let ?b1 = "put16 (?off + 4) ?n (put_header ?off ino (of_nat (length name)) ty ?B)"
    let ?b2 = "put16 (?off + rec_len name + 4) 4 (put_header (?off + rec_len name) 0 0 0 ?b1)"
    have pl: "place_entry ?off ?room name ino ty ?B = Some (put_bytes (?off + 8) name ?b2)"
      using lB lt r4 rec_len_ge [of name] by (simp add: place_entry_def Let_def u l add.assoc)
    have "get32 (?off + rec_len name + 4) (put_bytes (?off + 8) name ?b2) = get32 (?off + rec_len name + 4) ?b2"
      using lB rec_len_ge [of name] by (intro fields_put_bytes(1)) auto
    also have "\<dots> = 4" using lB by (intro cut_header_clobbers) simp
    finally show ?thesis using ins pl end_x False by (simp add: de_inode_def)
  qed
qed

text \<open>A block with two entries, the first with \<open>n\<close> bytes of room behind its name.\<close>

definition demo_entry :: "u32 \<Rightarrow> nat \<Rightarrow> u8 list" where
  "demo_entry ino n = (put32 0 ino (put16 4 (of_nat n) (replicate n 0)))[6 := 1, 7 := 2, 8 := 0x61]"

lemma demo_entry_ok:
  assumes "9 \<le> n" and "n < 2 ^ 16"
  shows "is_entry (demo_entry ino n) (ino, 2, [0x61])" and "length (demo_entry ino n) = n"
proof -
  let ?d = "put32 0 ino (put16 4 (of_nat n) (replicate n 0))"
  show l: "length (demo_entry ino n) = n" by (simp add: demo_entry_def)
  have "get32 0 (demo_entry ino n) = ino" "get16 4 (demo_entry ino n) = of_nat n"
    using assms by (simp_all add: demo_entry_def fields_update)
  moreover have "demo_entry ino n ! 6 = 1" "demo_entry ino n ! 7 = 2" "demo_entry ino n ! 8 = 0x61"
    using assms by (simp_all add: demo_entry_def)
  moreover have "take 1 (drop 8 (demo_entry ino n)) = [demo_entry ino n ! 8]"
    using assms l by (intro nth_equalityI) auto
  ultimately show "is_entry (demo_entry ino n) (ino, 2, [0x61])"
    using assms l by (simp add: is_entry_def)
qed

theorem insert_entry_listed_witness:
  "let b = demo_entry 11 40 @ demo_entry 12 12 in
     list_entries b (length b) 0 = Some [(11, 2, [0x61]), (12, 2, [0x61])]
     \<and> (\<exists>b'. insert_scan b (length b) [0x62] 13 (Some 1) 0 = Some (Some b')
       \<and> list_entries b' (length b) 0 = Some [(11, 2, [0x61]), (13, 1, [0x62])])"
proof -
  have s: "spare (demo_entry 11 40) (11, 2, [0x61]) = 28" "rec_len [0x62] = 12"
    by (simp_all add: spare_def rec_len_def demo_entry_ok(2))
  show ?thesis
    using insert_entry_listed [of "[]" "[]" "demo_entry 11 40" "(11, 2, [0x61])" "[demo_entry 12 12]" "[(12, 2, [0x61])]"
        "[0x62]" 13 _ 1] demo_entry_ok [of 40 11] demo_entry_ok [of 12 12]
    by (simp add: s live_def Let_def) blast
qed

lemma insert_clobbers_next_entry_witness:
  "let b = demo_entry 11 28 @ demo_entry 12 12 in
     \<exists>b'. insert_scan b (length b) [0x62] 13 (Some 1) 0 = Some (Some b') \<and> de_inode b 28 = 12 \<and> de_inode b' 28 = 4"
proof -
  have s: "spare (demo_entry 11 28) (11, 2, [0x61]) = 16" "rec_len [0x62] = 12"
    by (simp_all add: spare_def rec_len_def demo_entry_ok(2))
  have "de_inode (demo_entry 11 28 @ demo_entry 12 12) 28 = 12"
    using is_entry_fields(2) [OF demo_entry_ok(1) [of 12 12], of "demo_entry 11 28" "[]"] by (simp add: demo_entry_ok(2))
  then show ?thesis
    using insert_clobbers_next_entry [of "[]" "[]" "demo_entry 11 28" "(11, 2, [0x61])" "[demo_entry 12 12]" "[(12, 2, [0x61])]"
        "[0x62]" _ 13 1] demo_entry_ok [of 28 11] demo_entry_ok [of 12 12]
    by (simp add: s live_def Let_def)
qed

end
