(* ===== verification/Ext2Grow.thy ===== *)
theory Ext2Grow
  imports Ext2Dir
begin

text \<open>
  A directory of the Ext2 file system whose blocks are full cannot grow: what
  \<open>insert_directory_entry\<close> does with the blocks it allocates.
\<close>

section \<open>Directories that are full\<close>

lemma blocks_ok_bytes: "blocks_ok fs \<Longrightarrow> unat (block_size fs) = 512 * lba_blocks fs 1"
  by (auto simp: blocks_ok_def lba_blocks_def block_div)

lemma read_own_write:
  assumes "blocks_ok fs" and "length v = unat (block_size fs)"
  shows "read_block (write_block fs a v 1) a 1 = v" and "same_layout fs (write_block fs a v 1)"
proof -
  have n: "lba_blocks fs 1 \<le> 2 ^ 32" using unat_less_lit [of "(1 * block_size fs) div 512"] by (simp add: lba_blocks_def)
  have len: "length v = 512 * lba_blocks fs 1" using assms blocks_ok_bytes by simp
  show "read_block (write_block fs a v 1) a 1 = v"
    using disk_read_write [OF n len] by (simp add: read_block_def write_block_def block_lba_def lba_blocks_def)
  show "same_layout fs (write_block fs a v 1)"
    using assms(1) disk_write_length [of "disk fs" v "lba_blocks fs 1"] len
    by (simp add: same_layout_def bg_block_bitmap_def bg_inode_bitmap_def bg_inode_table_def blocks_ok_def)
      (simp add: write_block_def)
qed

lemma alloc_block_loop_ok:
  assumes "fs_ok fs" and "g + n = unat (groups_count fs)" and "alloc_block_loop (of_nat g) n fs = Some (m, fs')"
  shows "fs_ok fs' \<and> same_layout fs fs'"
  using assms(2,3)
proof (induction n arbitrary: g)
  case (Suc n)
  have g: "g < unat (groups_count fs)" using Suc.prems(1) by simp
  have bok: "blocks_ok fs" using assms(1) by (simp add: fs_ok_def)
  note og = of_nat_group [OF g] and b = fs_ok_blocks [OF assms(1) g]
  let ?bm = "read_block fs (bg_block_bitmap fs g) 1"
  have next_grp: "of_nat g + 1 = (of_nat (g + 1) :: u32)" by simp
  have IH: "alloc_block_loop (of_nat g + 1) n fs = Some (m, fs') \<Longrightarrow> ?thesis"
    using Suc.IH [of "g + 1"] Suc.prems(1) unfolding next_grp by simp
  have take: "fs_ok (take_block_bit fs (of_nat g) ?bm i) \<and> same_layout fs (take_block_bit fs (of_nat g) ?bm i)" for i
  proof -
    have sl: "same_layout fs (add_sb_blocks (- 1) (add_free_blocks g (- 1) fs))"
      by (rule same_layout_trans [OF same_layout_counts(1) same_layout_counts(3)])
    show ?thesis
      unfolding take_block_bit_commit [OF g refl]
      using commit_effect(1,2) [OF assms(1) b(1,3) _ sl] length_read_block [OF bok]
      by (simp add: add_sb_blocks_def add_free_blocks_def)
  qed
  have bm: "get_block_bitmap fs (of_nat g) = Some ?bm" using og by (simp add: get_block_bitmap_def)
  show ?case
    using Suc.prems(2) IH take og bm
    by (auto split: if_splits option.splits)
qed simp

lemma alloc_block_ok:
  "fs_ok fs \<Longrightarrow> alloc_block fs = Some (m, fs') \<Longrightarrow> fs_ok fs' \<and> same_layout fs fs'"
  using alloc_block_loop_ok [of fs 0 "unat (groups_count fs)"] by (simp add: alloc_block_def split: if_splits)

definition zeroed :: "ext2_fs_t \<Rightarrow> u32 \<Rightarrow> bool" where
  "zeroed fs b \<longleftrightarrow> read_block fs b 1 = replicate (unat (block_size fs)) 0"

lemma zero_block_ok:
  assumes "fs_ok fs"
  shows "fs_ok (zero_block fs b)" "zeroed (zero_block fs b) b" "block_size (zero_block fs b) = block_size fs"
proof -
  have "blocks_ok fs" using assms by (simp add: fs_ok_def)
  note w = read_own_write [OF this, of "replicate (unat (block_size fs)) 0" b]
  show "fs_ok (zero_block fs b)" "zeroed (zero_block fs b) b" "block_size (zero_block fs b) = block_size fs"
    using w assms by (simp_all add: zero_block_def zeroed_def fs_ok_same_layout)
qed

text \<open>A block of zeroes takes no entry: its first entry has size 0.\<close>

lemma zeroed_refuses:
  assumes "fs_ok fs" and "zeroed fs b"
  shows "insert_into_block fs b name ino = Some (False, fs)"
proof -
  have "0 < unat (block_size fs)" "512 dvd unat (block_size fs)"
    using assms(1) by (auto simp: fs_ok_def blocks_ok_def unat_gt_0)
  then have "512 \<le> unat (block_size fs)" by (auto dest: dvd_imp_le)
  then have "insert_scan (replicate (unat (block_size fs)) 0) (unat (block_size fs)) name ino ty 0 = Some None" for ty
    by (subst insert_scan.simps) (simp add: Let_def de_entry_size_def)
  then show ?thesis using assms(2) by (simp add: insert_into_block_def zeroed_def)
qed

text \<open>A pointer that is 0 gets a zeroed block.\<close>

lemma new_pointer_fresh:
  assumes "fs_ok fs" and "new_pointer leaf 0 (ino, fs) = Some (Some (p, ino1, fs1))"
  shows "fs_ok fs1" "zeroed fs1 p" "8 \<le> off \<Longrightarrow> get32 off ino1 = get32 off ino" "block_size fs1 = block_size fs"
proof -
  obtain fs' where a: "alloc_block fs = Some (p, fs')" "fs1 = zero_block fs' p" "ino1 = (if leaf then grow fs' ino else ino)"
    using assms(2) by (auto simp: new_pointer_def split: option.splits if_splits)
  note ok = alloc_block_ok [OF assms(1) a(1)]
  show "fs_ok fs1" "zeroed fs1 p" using zero_block_ok [of fs' p] ok by (simp_all add: a)
  show "get32 off ino1 = get32 off ino" if "8 \<le> off" using that by (simp add: a grow_def)
  show "block_size fs1 = block_size fs" using zero_block_ok [of fs' p] ok by (simp add: a same_layout_def)
qed

definition stays_out :: "(u32 \<Rightarrow> u8 list \<times> ext2_fs_t \<Rightarrow> (ins \<times> u8 list \<times> ext2_fs_t) option) \<Rightarrow> bool" where
  "stays_out f \<longleftrightarrow> (\<forall>b ino fs r ino' fs'. fs_ok fs \<longrightarrow> zeroed fs b \<longrightarrow> f b (ino, fs) = Some (r, ino', fs') \<longrightarrow>
     r \<noteq> Inserted \<and> fs_ok fs' \<and> block_size fs' = block_size fs \<and> (\<forall>off \<ge> 8. get32 off ino' = get32 off ino))"

lemma stays_outD:
  "stays_out f \<Longrightarrow> f b (ino, fs) = Some (r, ino', fs') \<Longrightarrow> fs_ok fs \<Longrightarrow> zeroed fs b \<Longrightarrow>
   r \<noteq> Inserted \<and> fs_ok fs' \<and> block_size fs' = block_size fs \<and> (\<forall>off \<ge> 8. get32 off ino' = get32 off ino)"
  by (simp add: stays_out_def)

lemma table_loop_stays_out:
  assumes "stays_out f" and "fs_ok fs" and "length tbl = unat (block_size fs)" and "\<forall>j \<ge> i. j < i + n \<longrightarrow> get32 (4 * j) tbl = 0"
    and "table_loop f leaf blk i n tbl (ino, fs) = Some (r, ino', fs')"
  shows "r \<noteq> Inserted \<and> fs_ok fs' \<and> block_size fs' = block_size fs \<and> (\<forall>off \<ge> 8. get32 off ino' = get32 off ino)"
  using assms(2-5)
proof (induction n arbitrary: i tbl ino fs)
  case 0
  have "blocks_ok fs" using 0(1) by (simp add: fs_ok_def)
  from read_own_write(2) [OF this 0(2), of blk] show ?case
    using 0 fs_ok_same_layout by auto
next
  case (Suc n)
  have z: "get32 (4 * i) tbl = 0" using Suc.prems(3) by simp
  obtain np where np: "new_pointer leaf 0 (ino, fs) = Some np"
    using Suc.prems(4) z by (auto split: option.splits)
  show ?case
  proof (cases np)
    case None
    then show ?thesis using Suc.prems np z by auto
  next
    case (Some q)
    obtain p ino1 fs1 where q: "q = (p, ino1, fs1)" by (cases q) auto
    note fr = new_pointer_fresh [OF Suc.prems(1) np [unfolded Some q]]
    let ?tbl = "put32 (4 * i) p tbl"
    have tz: "\<forall>j \<ge> i + 1. j < i + 1 + n \<longrightarrow> get32 (4 * j) ?tbl = 0" using Suc.prems(3) by auto
    obtain r2 ino2 fs2 where f: "f p (ino1, fs1) = Some (r2, ino2, fs2)"
      using Suc.prems(4) z np Some q by (auto simp: Let_def split: option.splits)
    note so = stays_outD [OF assms(1) f fr(1,2)]
    have step: "table_loop f leaf blk i (Suc n) tbl (ino, fs) = (case r2 of
        Inserted \<Rightarrow> Some (Inserted, ino2, write_block fs2 blk ?tbl 1)
      | No_room \<Rightarrow> table_loop f leaf blk (i + 1) n ?tbl (ino2, fs2)
      | Ins_error e \<Rightarrow> Some (Ins_error e, ino2, fs2))"
      using z np Some q f by (simp add: Let_def split: ins.split)
    show ?thesis
    proof (cases r2)
      case No_room
      then have "table_loop f leaf blk (i + 1) n ?tbl (ino2, fs2) = Some (r, ino', fs')" using step Suc.prems(4) by simp
      then have "r \<noteq> Inserted \<and> fs_ok fs' \<and> block_size fs' = block_size fs2 \<and> (\<forall>off \<ge> 8. get32 off ino' = get32 off ino2)"
        using so Suc.prems(2) fr(4) tz by (intro Suc.IH) auto
      then show ?thesis using so fr(3,4) by auto
    qed (use step Suc.prems(4) so fr(3,4) in auto)
  qed
qed

lemma ins_level_stays_out: "stays_out (ins_level l name inum)"
proof (induction l)
  case 0
  then show ?case by (auto simp: stays_out_def zeroed_refuses)
next
  case (Suc l)
  show ?case
    unfolding stays_out_def
  proof (intro allI impI)
    fix b ino fs r ino' fs'
    assume h: "fs_ok fs" "zeroed fs b" "ins_level (Suc l) name inum b (ino, fs) = Some (r, ino', fs')"
    let ?n = "unat (block_size fs div 4)"
    have "4 * ?n \<le> unat (block_size fs)" by (simp add: unat_div)
    then have "\<forall>j \<ge> 0. j < 0 + ?n \<longrightarrow> get32 (4 * j) (read_block fs b 1) = 0" using h(2) by (auto simp: zeroed_def)
    then show "r \<noteq> Inserted \<and> fs_ok fs' \<and> block_size fs' = block_size fs \<and> (\<forall>off\<ge>8. get32 off ino' = get32 off ino)"
      using h by (intro table_loop_stays_out [OF Suc h(1), of "read_block fs b 1" 0 ?n "l = 0" b]) (auto simp: zeroed_def)
  qed
qed

lemma table_loop_error:
  assumes "\<And>b s0 s1 e. g b s0 = Some (Ins_error e, s1) \<Longrightarrow> e = - 2"
    and "table_loop g leaf blk i n tbl s0 = Some (Ins_error e, s1)"
  shows "e = - 2"
  using assms(2)
proof (induction n arbitrary: i tbl s0)
  case (Suc n)
  then show ?case using assms(1) by (auto simp: Let_def split: option.splits ins.splits)
qed (auto split: prod.splits)

lemma ins_level_error: "ins_level l name inum b s0 = Some (Ins_error e, s1) \<Longrightarrow> e = - 2"
proof (induction l arbitrary: b s0 s1 e)
  case 0
  then show ?case by (cases s0) (auto split: option.splits if_splits)
next
  case (Suc l)
  from Suc.prems show ?case
    by (cases s0) (auto dest!: table_loop_error [rotated] dest: Suc.IH)
qed

lemma inode_loop_fresh:
  assumes "fs_ok fs" and "\<forall>(off, l, err) \<in> set ps. 8 \<le> off \<and> get32 off ino = 0 \<and> err \<noteq> 0"
    and "sorted_wrt (\<lambda>q r. fst q + 4 \<le> fst r) ps" and "inode_loop ps name inum (ino, fs) = Some (r, s)"
  shows "r \<noteq> Inserted \<and> r \<noteq> Ins_error 0"
  using assms
proof (induction ps arbitrary: ino fs)
  case (Cons q ps)
  obtain off l err where q: "q = (off, l, err)" by (cases q) auto
  have z: "get32 off ino = 0" "8 \<le> off" "err \<noteq> 0" using Cons.prems(2) by (auto simp: q)
  obtain np where np: "new_pointer (l = 0) 0 (ino, fs) = Some np"
    using Cons.prems(4) z by (auto simp: q split: option.splits)
  show ?case
  proof (cases np)
    case None
    then show ?thesis using Cons.prems(4) np z by (auto simp: q)
  next
    case (Some w)
    obtain p ino1 fs1 where w: "w = (p, ino1, fs1)" by (cases w) auto
    note fr = new_pointer_fresh [OF Cons.prems(1) np [unfolded Some w]]
    obtain r2 ino2 fs2 where f: "ins_level l name inum p (put32 off p ino1, fs1) = Some (r2, ino2, fs2)"
      using Cons.prems(4) z np Some w by (auto simp: q split: option.splits)
    note so = stays_outD [OF ins_level_stays_out f fr(1,2)]
    have err_l: "e \<noteq> 0" if "r2 = Ins_error e" for e
      using ins_level_error [OF f [unfolded that]] by simp
    have step: "inode_loop (q # ps) name inum (ino, fs) = (case r2 of
        No_room \<Rightarrow> inode_loop ps name inum (ino2, fs2) | _ \<Rightarrow> Some (r2, ino2, fs2))"
      using z np Some w f by (simp add: q split: ins.split)
    show ?thesis
    proof (cases r2)
      case No_room
      have "\<forall>(off', l', err') \<in> set ps. 8 \<le> off' \<and> get32 off' ino2 = 0 \<and> err' \<noteq> 0"
      proof (clarify, intro conjI)
        fix off' l' err'
        assume m: "(off', l', err') \<in> set ps"
        then show g8: "8 \<le> off'" and "err' \<noteq> 0" using Cons.prems(2) by auto
        have "off + 4 \<le> off'" using m Cons.prems(3) by (auto simp: q)
        then have "get32 off' ino2 = get32 off' ino" using so fr(3) g8 by simp
        then show "get32 off' ino2 = 0" using m Cons.prems(2) by auto
      qed
      then show ?thesis
        using Cons.IH [of fs2 ino2] Cons.prems(3,4) so step No_room by simp
    qed (use step Cons.prems(4) so err_l in auto)
  qed
qed simp

lemma put32_get32: "put32 off (get32 off b) b = b"
proof -
  have "(ucast (get32 off b) :: u8) = b ! off" "(ucast (drop_bit 8 (get32 off b)) :: u8) = b ! (off + 1)"
    "(ucast (drop_bit 16 (get32 off b)) :: u8) = b ! (off + 2)" "(ucast (drop_bit 24 (get32 off b)) :: u8) = b ! (off + 3)"
    by (rule bit_eqI, auto simp: get32_def bit_simps dest: bit_imp_le_length)+
  then show ?thesis by (simp add: put32_def)
qed

lemma inode_pointers_sorted: "sorted_wrt (\<lambda>q r. fst q + 4 \<le> fst r) inode_pointers"
  by (simp add: inode_pointers_def upt_rec)

lemma inode_loop_refused:
  assumes "\<forall>(off, l, err) \<in> set qs. l = 0 \<and> get32 off ino \<noteq> 0
      \<and> insert_into_block fs (get32 off ino) name inum = Some (False, fs)"
    and "\<forall>(off, l, err) \<in> set qs. off + 4 \<le> length ino"
  shows "inode_loop (qs @ ps) name inum (ino, fs) = inode_loop ps name inum (ino, fs)"
  using assms
proof (induction qs)
  case (Cons q qs)
  obtain off l err where q: "q = (off, l, err)" by (cases q) auto
  have same: "put32 off (get32 off ino) ino = ino" by (rule put32_get32)
  have "get32 off ino \<noteq> 0" "l = 0" "insert_into_block fs (get32 off ino) name inum = Some (False, fs)"
    using Cons.prems(1) by (auto simp: q)
  then show ?case
    using Cons by (simp add: q new_pointer_def same)
qed simp



end
