(* ===== verification/DataString.thy ===== *)
theory DataString
  imports StringUtil "HOL-Library.Sublist"
begin

text \<open>
  The string classes of \<open>src/kernel/include/lib/data/string.hpp\<close> and \<open>large_string.hpp\<close>, and the
  functions that split a string into tokens (\<open>split_string_tokens\<close> of \<open>string_util.cpp\<close> and
  \<open>split_path_tokens\<close> of \<open>path_util.cpp\<close>).  A string is its buffer, or null, and its length; the
  buffer is the list of the characters before the NUL its constructors store behind them.
  \<open>None\<close> as the result of an operation is an access through a null pointer or outside the buffer.
  Allocation is assumed to succeed, as the code assumes.
\<close>

section \<open>The class string\<close>

record dstring =
  d_data :: "string option"
  d_len :: u32

definition string_new :: dstring where
  "string_new = \<lparr>d_data = None, d_len = 0\<rparr>"

definition string_of_cstr :: "string \<Rightarrow> dstring" where
  "string_of_cstr str = \<lparr>d_data = Some (cstr str), d_len = of_nat (strlen str)\<rparr>"

definition string_of_buf :: "string \<Rightarrow> u32 \<Rightarrow> dstring option" where
  "string_of_buf buf len =
     (if length buf < unat len then None else Some \<lparr>d_data = Some (take (unat len) buf), d_len = len\<rparr>)"

text \<open>The copy constructor, and the assignment from another string; a null buffer of length 0 is copied to an empty one.\<close>

definition string_copy :: "dstring \<Rightarrow> dstring" where
  "string_copy other =
     \<lparr>d_data = Some (take (unat (d_len other)) (case d_data other of None \<Rightarrow> [] | Some c \<Rightarrow> c)), d_len = d_len other\<rparr>"

definition string_assign :: "bool \<Rightarrow> dstring \<Rightarrow> dstring \<Rightarrow> dstring" where
  "string_assign same this other = (if same then this else string_copy other)"

definition string_assign_cstr :: "string \<Rightarrow> dstring" where
  "string_assign_cstr str = \<lparr>d_data = Some (cstr str), d_len = of_nat (strlen str)\<rparr>"

definition c_str :: "dstring \<Rightarrow> string option" where
  "c_str s = d_data s"

definition string_equals :: "dstring \<Rightarrow> string option \<Rightarrow> bool option" where
  "string_equals s str =
     (case (d_data s, str) of (Some a, Some b) \<Rightarrow> Some (strcmp a b = 0) | _ \<Rightarrow> None)"

definition string_eq :: "dstring \<Rightarrow> dstring \<Rightarrow> bool option" where
  "string_eq s t = string_equals s (d_data t)"

definition string_neq :: "dstring \<Rightarrow> dstring \<Rightarrow> bool option" where
  "string_neq s t = map_option Not (string_eq s t)"

text \<open>Reading the NUL behind the last character is inside the buffer.\<close>

definition string_nth :: "dstring \<Rightarrow> u32 \<Rightarrow> char option" where
  "string_nth s i =
     (case d_data s of None \<Rightarrow> None
      | Some c \<Rightarrow> if unat i < length c then Some (c ! unat i) else if unat i = length c then Some NUL else None)"

definition string_at :: "dstring \<Rightarrow> u32 \<Rightarrow> char option" where
  "string_at s i = (if d_len s \<le> i then Some NUL else string_nth s i)"

definition string_size :: "dstring \<Rightarrow> u32" where
  "string_size s = d_len s"

definition string_empty :: "dstring \<Rightarrow> bool" where
  "string_empty s \<longleftrightarrow> d_len s = 0"

definition string_clear :: "dstring \<Rightarrow> dstring" where
  "string_clear s = s\<lparr>d_data := None, d_len := 0\<rparr>"

definition string_append :: "dstring \<Rightarrow> string option \<Rightarrow> dstring" where
  "string_append s str =
     (case str of None \<Rightarrow> s
      | Some b \<Rightarrow>
          if at_end b then s
          else \<lparr>d_data = Some ((case d_data s of None \<Rightarrow> [] | Some c \<Rightarrow> take (unat (d_len s)) c) @ cstr b),
                d_len = d_len s + of_nat (strlen b)\<rparr>)"

definition string_append_string :: "dstring \<Rightarrow> dstring \<Rightarrow> dstring" where
  "string_append_string s t = string_append s (d_data t)"

definition string_append_char :: "dstring \<Rightarrow> char \<Rightarrow> dstring" where
  "string_append_char s c = string_append s (Some [c])"

text \<open>The copying loop of \<open>substr\<close>: \<open>n\<close> bounds the iterations, which stop at \<open>start + len\<close> computed in 32 bits.\<close>

fun substr_loop :: "nat \<Rightarrow> string \<Rightarrow> u32 \<Rightarrow> u32 \<Rightarrow> string option" where
  "substr_loop 0 c i stop = Some []"
| "substr_loop (Suc n) c i stop =
     (if i < stop
      then if unat i < length c then map_option ((#) (c ! unat i)) (substr_loop n c (i + 1) stop) else None
      else Some [])"

definition string_substr :: "dstring \<Rightarrow> u32 \<Rightarrow> u32 \<Rightarrow> dstring option" where
  "string_substr s start len =
     (if d_len s < start + len then Some string_new
      else map_option string_of_cstr
        (substr_loop (unat (d_len s)) (case d_data s of None \<Rightarrow> [] | Some c \<Rightarrow> c) start (start + len)))"

text \<open>Matching \<open>sub\<close> against the characters from some position on, and the loop over the positions.\<close>

fun matches :: "string \<Rightarrow> string \<Rightarrow> bool" where
  "matches [] d \<longleftrightarrow> True"
| "matches (c # cs) d \<longleftrightarrow>
     (if c = NUL then True else case d of [] \<Rightarrow> False | x # xs \<Rightarrow> if x \<noteq> NUL \<and> x = c then matches cs xs else False)"

fun includes_loop :: "string \<Rightarrow> string \<Rightarrow> bool" where
  "includes_loop sub [] \<longleftrightarrow> False"
| "includes_loop sub (x # xs) \<longleftrightarrow> (if x = NUL then False else if matches sub (x # xs) then True else includes_loop sub xs)"

definition string_includes :: "dstring \<Rightarrow> string option \<Rightarrow> bool option" where
  "string_includes s sub =
     (case sub of None \<Rightarrow> Some False
      | Some b \<Rightarrow> (case d_data s of None \<Rightarrow> None | Some c \<Rightarrow> Some (includes_loop b c)))"

section \<open>The class large_string\<close>

text \<open>The same over frames of the physical memory: \<open>l_blocks\<close> is how many the buffer has.\<close>

record lstring =
  l_data :: "string option"
  l_len :: u32
  l_blocks :: u32

definition FRAME_BYTES :: u32 where "FRAME_BYTES = 0x1000"

definition calc_blocks :: "u32 \<Rightarrow> u32" where
  "calc_blocks bytes = (bytes + FRAME_BYTES - 1) div FRAME_BYTES"

definition large_new :: lstring where
  "large_new = \<lparr>l_data = None, l_len = 0, l_blocks = 0\<rparr>"

definition large_make :: "string \<Rightarrow> u32 \<Rightarrow> lstring" where
  "large_make c len = \<lparr>l_data = Some c, l_len = len, l_blocks = calc_blocks (len + 1)\<rparr>"

definition large_of_cstr :: "string option \<Rightarrow> lstring" where
  "large_of_cstr str = (case str of None \<Rightarrow> large_new | Some b \<Rightarrow> large_make (cstr b) (of_nat (strlen b)))"

definition large_of_buf :: "string \<Rightarrow> u32 \<Rightarrow> lstring option" where
  "large_of_buf buf len = (if length buf < unat len then None else Some (large_make (take (unat len) buf) len))"

definition large_copy :: "lstring \<Rightarrow> lstring" where
  "large_copy other =
     large_make (take (unat (l_len other)) (case l_data other of None \<Rightarrow> [] | Some c \<Rightarrow> c)) (l_len other)"

definition large_assign :: "bool \<Rightarrow> lstring \<Rightarrow> lstring \<Rightarrow> lstring" where
  "large_assign same this other = (if same then this else large_copy other)"

definition large_assign_cstr :: "lstring \<Rightarrow> string option \<Rightarrow> lstring" where
  "large_assign_cstr this str = (case str of None \<Rightarrow> this | Some b \<Rightarrow> large_make (cstr b) (of_nat (strlen b)))"

definition large_equals :: "lstring \<Rightarrow> string option \<Rightarrow> bool option" where
  "large_equals s str =
     (case (l_data s, str) of (Some a, Some b) \<Rightarrow> Some (strcmp a b = 0) | _ \<Rightarrow> None)"

definition large_at :: "lstring \<Rightarrow> u32 \<Rightarrow> char option" where
  "large_at s i =
     (if l_len s \<le> i then Some NUL
      else case l_data s of None \<Rightarrow> None | Some c \<Rightarrow> if unat i < length c then Some (c ! unat i) else None)"

definition large_size :: "lstring \<Rightarrow> u32" where
  "large_size s = l_len s"

definition large_empty :: "lstring \<Rightarrow> bool" where
  "large_empty s \<longleftrightarrow> l_len s = 0"

definition large_clear :: "lstring \<Rightarrow> lstring" where
  "large_clear s = s\<lparr>l_data := None, l_len := 0, l_blocks := 0\<rparr>"

definition large_append :: "lstring \<Rightarrow> string option \<Rightarrow> lstring" where
  "large_append s str =
     (case str of None \<Rightarrow> s
      | Some b \<Rightarrow>
          if at_end b then s
          else large_make ((case l_data s of None \<Rightarrow> [] | Some c \<Rightarrow> take (unat (l_len s)) c) @ cstr b)
                 (l_len s + of_nat (strlen b)))"

definition large_append_char :: "lstring \<Rightarrow> char \<Rightarrow> lstring" where
  "large_append_char s c = large_append s (Some [c])"

definition large_substr :: "lstring \<Rightarrow> u32 \<Rightarrow> u32 \<Rightarrow> lstring option" where
  "large_substr s start len =
     (if l_len s \<le> start then Some large_new
      else let n = (if l_len s < start + len then l_len s - start else len);
               c = (case l_data s of None \<Rightarrow> [] | Some c \<Rightarrow> c)
        in if length c < unat start + unat n then None else Some (large_make (take (unat n) (drop (unat start) c)) n))"

fun large_includes_loop :: "string \<Rightarrow> string \<Rightarrow> nat \<Rightarrow> bool" where
  "large_includes_loop sub c 0 \<longleftrightarrow> False"
| "large_includes_loop sub c (Suc n) \<longleftrightarrow> (if matches sub c then True else large_includes_loop sub (drop 1 c) n)"

definition large_includes :: "lstring \<Rightarrow> string option \<Rightarrow> bool option" where
  "large_includes s sub =
     (case sub of None \<Rightarrow> Some False
      | Some b \<Rightarrow>
          if l_len s = 0 then Some False
          else (case l_data s of None \<Rightarrow> None | Some c \<Rightarrow> Some (large_includes_loop b c (unat (l_len s)))))"

section \<open>Tokens\<close>

lemma shorter_after_token:
  "s \<noteq> [] \<Longrightarrow> length (dropWhile (\<lambda>c. c \<noteq> sep) (dropWhile (\<lambda>c. c = sep) s)) < length s"
proof (cases s)
  case (Cons c cs)
  have "length (dropWhile (\<lambda>c. c \<noteq> sep) (dropWhile (\<lambda>c. c = sep) xs)) \<le> length xs" for xs
    using length_dropWhile_le [of "\<lambda>c. c \<noteq> sep" "dropWhile (\<lambda>c. c = sep) xs"] length_dropWhile_le [of "\<lambda>c. c = sep" xs] by simp
  then show ?thesis using Cons length_dropWhile_le [of "\<lambda>c. c \<noteq> sep" cs] by (cases "c = sep") (auto simp: less_Suc_eq_le)
qed simp

text \<open>The rest of the string is what the index has not passed.\<close>

function space_loop :: "string \<Rightarrow> string list" where
  "space_loop s =
     (if s = [] then []
      else let s1 = dropWhile (\<lambda>c. c = CHR '' '') s;
               tok = takeWhile (\<lambda>c. c \<noteq> CHR '' '') s1;
               s2 = dropWhile (\<lambda>c. c \<noteq> CHR '' '') s1
        in if tok = [] then space_loop s2 else tok # space_loop s2)"
  by pat_completeness auto
termination
  by (relation "measure length") (simp_all add: shorter_after_token)

declare space_loop.simps [simp del]

definition split_string_tokens :: "dstring \<Rightarrow> dstring list" where
  "split_string_tokens str =
     (if string_empty str then []
      else map (\<lambda>t. \<lparr>d_data = Some t, d_len = of_nat (length t)\<rparr>)
        (space_loop (case d_data str of None \<Rightarrow> [] | Some c \<Rightarrow> take (unat (d_len str)) c)))"

definition max_tokens :: nat where "max_tokens = 16"

function path_loop :: "nat \<Rightarrow> string \<Rightarrow> string list" where
  "path_loop token_index s =
     (if s = [] \<or> max_tokens \<le> token_index then []
      else let s1 = dropWhile (\<lambda>c. c = CHR ''/'') s;
               tok = takeWhile (\<lambda>c. c \<noteq> CHR ''/'') s1;
               s2 = dropWhile (\<lambda>c. c \<noteq> CHR ''/'') s1
        in if tok = [] then path_loop token_index s2 else tok # path_loop (token_index + 1) s2)"
  by pat_completeness auto
termination
  by (relation "measure (\<lambda>(n, s). length s)") (simp_all add: shorter_after_token)

declare path_loop.simps [simp del]

definition split_path_tokens :: "dstring \<Rightarrow> dstring list option" where
  "split_path_tokens path =
     (if string_empty path then None
      else let s = (case d_data path of None \<Rightarrow> [] | Some c \<Rightarrow> take (unat (d_len path)) c);
               toks = (case s of c # cs \<Rightarrow> if c = CHR ''/'' then [c] # path_loop 1 cs else path_loop 0 s | [] \<Rightarrow> [])
        in if toks = [] then None else Some (map (\<lambda>t. \<lparr>d_data = Some t, d_len = of_nat (length t)\<rparr>) toks))"

section \<open>Strings as lists of characters\<close>

definition chars :: "dstring \<Rightarrow> string" where
  "chars s = (case d_data s of None \<Rightarrow> [] | Some c \<Rightarrow> c)"

text \<open>A string whose length is that of its buffer, which holds no NUL; null only when it is empty.\<close>

definition string_ok :: "dstring \<Rightarrow> bool" where
  "string_ok s \<longleftrightarrow> NUL \<notin> set (chars s) \<and> length (chars s) = unat (d_len s)"

lemma at_end_no_nul: "NUL \<notin> set c \<Longrightarrow> at_end c \<longleftrightarrow> c = []"
  by (cases c) auto

lemma of_nat_chars: "string_ok s \<Longrightarrow> of_nat (length (chars s)) = d_len s"
  by (simp add: string_ok_def)

lemma append_ok:
  assumes "string_ok s" and "NUL \<notin> set b" and "length (chars s) + length b < 2 ^ 32"
  shows "string_ok (string_append s (Some b)) \<and> chars (string_append s (Some b)) = chars s @ b"
proof (cases "b = []")
  case False
  have "unat (of_nat (length b) :: u32) = length b" using assms(3) by (simp add: unat_of_nat)
  then have "unat (d_len s + of_nat (length b)) = length (chars s) + length b"
    using assms(1,3) by (subst unat_add_no_wrap) (simp_all add: string_ok_def)
  moreover have "(case d_data s of None \<Rightarrow> [] | Some c \<Rightarrow> take (unat (d_len s)) c) = chars s"
    using assms(1) by (simp add: string_ok_def chars_def split: option.splits)
  ultimately show ?thesis
    using assms(1,2) False by (simp add: string_append_def at_end_no_nul string_ok_def) (simp add: chars_def)
qed (use assms in \<open>simp add: string_append_def\<close>)

lemma substr_loop_eq:
  assumes "unat stop \<le> length c" and "unat stop - unat i \<le> n"
  shows "substr_loop n c i stop = Some (take (unat stop - unat i) (drop (unat i) c))"
  using assms(2)
proof (induction n arbitrary: i)
  case (Suc n)
  show ?case
  proof (cases "i < stop")
    case True
    then have lt: "unat i < unat stop" by (simp add: word_less_nat_alt)
    then have s: "unat (i + 1) = unat i + 1"
      using unat_less_lit [of stop] by (subst unat_add_no_wrap) simp_all
    have "substr_loop n c (i + 1) stop = Some (take (unat stop - unat (i + 1)) (drop (unat (i + 1)) c))"
      by (rule Suc.IH) (use Suc.prems s in simp)
    moreover have "take (unat stop - unat i) (drop (unat i) c) = c ! unat i # take (unat stop - unat i - 1) (drop (unat i + 1) c)"
      using lt assms(1) by (simp add: Cons_nth_drop_Suc [symmetric] take_Cons')
    ultimately show ?thesis using True lt assms(1) s by simp
  qed (simp add: word_less_nat_alt)
qed simp

lemma matches_prefix: "NUL \<notin> set sub \<Longrightarrow> NUL \<notin> set d \<Longrightarrow> matches sub d \<longleftrightarrow> prefix sub d"
  by (induction sub d rule: matches.induct) (auto split: list.splits)

lemma includes_loop_sublist:
  "NUL \<notin> set sub \<Longrightarrow> NUL \<notin> set c \<Longrightarrow> includes_loop sub c \<longleftrightarrow> c \<noteq> [] \<and> sublist sub c"
  by (induction c) (auto simp: matches_prefix sublist_Cons_right)

fun split_on :: "char \<Rightarrow> string \<Rightarrow> string list" where
  "split_on sep [] = [[]]"
| "split_on sep (c # cs) = (if c = sep then [] # split_on sep cs
     else (c # hd (split_on sep cs)) # tl (split_on sep cs))"

text \<open>The parts of a string between separators that are not empty.\<close>

definition parts :: "char \<Rightarrow> string \<Rightarrow> string list" where
  "parts sep s = filter (\<lambda>t. t \<noteq> []) (split_on sep s)"

lemma split_on_span:
  "split_on sep s = takeWhile (\<lambda>c. c \<noteq> sep) s
     # (case dropWhile (\<lambda>c. c \<noteq> sep) s of [] \<Rightarrow> [] | _ # r \<Rightarrow> split_on sep r)"
  by (induction s) auto

lemma parts_skip [simp]: "parts sep (dropWhile (\<lambda>c. c = sep) s) = parts sep s"
  by (induction s) (auto simp: parts_def)

lemma parts_Nil [simp]: "parts sep [] = []"
  by (simp add: parts_def)

lemma parts_next:
  "parts sep s = (let s1 = dropWhile (\<lambda>c. c = sep) s; tok = takeWhile (\<lambda>c. c \<noteq> sep) s1;
      s2 = dropWhile (\<lambda>c. c \<noteq> sep) s1 in if tok = [] then [] else tok # parts sep s2)"
proof -
  let ?s = "dropWhile (\<lambda>c. c = sep) s"
  have "parts sep s = parts sep ?s" by simp
  also have "\<dots> = (if takeWhile (\<lambda>c. c \<noteq> sep) ?s = [] then [] else takeWhile (\<lambda>c. c \<noteq> sep) ?s # parts sep (dropWhile (\<lambda>c. c \<noteq> sep) ?s))"
  proof (cases ?s)
    case (Cons c cs)
    then have "c \<noteq> sep" by (simp add: dropWhile_eq_Cons_conv)
    have d: "parts sep (dropWhile P ?s) = (case dropWhile P ?s of [] \<Rightarrow> [] | _ # r \<Rightarrow> parts sep r)" if "P = (\<lambda>c. c \<noteq> sep)" for P
    proof (cases "dropWhile P ?s")
      case (Cons a r)
      then have "a = sep" by (simp add: dropWhile_eq_Cons_conv that)
      then show ?thesis by (simp add: Cons parts_def)
    next
      case Nil
      show ?thesis unfolding Nil by simp
    qed
    have "parts sep (c # cs) = takeWhile (\<lambda>c. c \<noteq> sep) (c # cs)
        # (case dropWhile (\<lambda>c. c \<noteq> sep) (c # cs) of [] \<Rightarrow> [] | _ # r \<Rightarrow> parts sep r)"
      unfolding parts_def by (subst split_on_span) (use \<open>c \<noteq> sep\<close> in \<open>cases "dropWhile (\<lambda>c. c \<noteq> sep) cs"; simp add: parts_def del: dropWhile_eq_Nil_conv\<close>)
    then show ?thesis using d [OF refl] \<open>c \<noteq> sep\<close> by (simp only: Cons) simp
  next
    case Nil
    show ?thesis unfolding Nil by simp
  qed
  finally show ?thesis by (simp add: Let_def)
qed

lemma no_token: "takeWhile (\<lambda>c. c \<noteq> sep) (dropWhile (\<lambda>c. c = sep) s) = [] \<Longrightarrow> dropWhile (\<lambda>c. c = sep) s = []"
  using hd_dropWhile [of "\<lambda>c. c = sep" s] by (cases "dropWhile (\<lambda>c. c = sep) s") auto

lemma space_loop_parts: "space_loop s = parts (CHR '' '') s"
proof (induction s rule: space_loop.induct)
  case (1 s)
  let ?s1 = "dropWhile (\<lambda>c. c = CHR '' '') s"
  let ?tok = "takeWhile (\<lambda>c. c \<noteq> CHR '' '') ?s1" and ?s2 = "dropWhile (\<lambda>c. c \<noteq> CHR '' '') ?s1"
  note p = parts_next [of "CHR '' ''" s, unfolded Let_def]
  consider "s = []" | "s \<noteq> []" "?tok = []" | "s \<noteq> []" "?tok \<noteq> []" by blast
  then show ?case
  proof cases
    case 1
    then show ?thesis by (simp add: space_loop.simps)
  next
    case 2
    note s1 = no_token [OF 2(2)]
    have "parts (CHR '' '') s = []" using p 2(2) by simp
    moreover have "space_loop s = space_loop []"
      using 2 s1 by (subst space_loop.simps) (simp add: Let_def del: dropWhile_eq_Nil_conv takeWhile_eq_Nil_iff)
    ultimately show ?thesis by (simp add: space_loop.simps)
  next
    case 3
    then show ?thesis using "1.IH"(2) [OF _ refl refl refl] p by (subst space_loop.simps) (simp add: Let_def)
  qed
qed

lemma path_loop_parts: "path_loop k s = take (max_tokens - k) (parts (CHR ''/'') s)"
proof (induction k s rule: path_loop.induct)
  case (1 k s)
  let ?s1 = "dropWhile (\<lambda>c. c = CHR ''/'') s"
  let ?tok = "takeWhile (\<lambda>c. c \<noteq> CHR ''/'') ?s1" and ?s2 = "dropWhile (\<lambda>c. c \<noteq> CHR ''/'') ?s1"
  note p = parts_next [of "CHR ''/''" s, unfolded Let_def]
  consider "s = [] \<or> max_tokens \<le> k" | "\<not> (s = [] \<or> max_tokens \<le> k)" "?tok = []"
    | "\<not> (s = [] \<or> max_tokens \<le> k)" "?tok \<noteq> []" by blast
  then show ?case
  proof cases
    case 1
    then show ?thesis by (auto simp: path_loop.simps)
  next
    case 2
    note s1 = no_token [OF 2(2)]
    have "parts (CHR ''/'') s = []" using p 2(2) by simp
    moreover have "path_loop k s = path_loop k []"
      using 2 s1 by (subst path_loop.simps) (simp add: Let_def del: dropWhile_eq_Nil_conv takeWhile_eq_Nil_iff)
    ultimately show ?thesis by (simp add: path_loop.simps)
  next
    case 3
    have "max_tokens - k = Suc (max_tokens - (k + 1))" using 3(1) by linarith
    then show ?thesis
      using 3 "1.IH"(2) [OF 3(1) refl refl refl] p by (subst path_loop.simps) (simp add: Let_def)
  qed
qed

text \<open>
  Strings without NULs behave as lists of characters.  Appending concatenates, also a null or
  empty string, and keeps the length right; a copy has the same characters; two strings that are
  not null are equal when their characters are; \<open>includes\<close> decides whether one list is a
  contiguous part of the other, except that an empty string includes nothing; and \<open>substr\<close> gives
  the characters asked for when their end, computed in 32 bits, is inside, and the empty string
  otherwise.
\<close>

lemma string_is_list:
  assumes "string_ok s" and "string_ok t" and "length (chars s) + length (chars t) < 2 ^ 32"
  shows "string_ok (string_append_string s t) \<and> chars (string_append_string s t) = chars s @ chars t
    \<and> string_ok (string_copy s) \<and> chars (string_copy s) = chars s
    \<and> string_eq s t = (if d_data s = None \<or> d_data t = None then None else Some (chars s = chars t))
    \<and> (d_data s \<noteq> None \<longrightarrow> d_data t \<noteq> None \<longrightarrow>
        string_includes s (d_data t) = Some (chars s \<noteq> [] \<and> sublist (chars t) (chars s)))
    \<and> (\<exists>u. string_substr s start len = Some u \<and> string_ok u
        \<and> chars u = (if d_len s < start + len then [] else take (unat (start + len) - unat start) (drop (unat start) (chars s))))"
proof -
  have n: "NUL \<notin> set (chars s)" "NUL \<notin> set (chars t)" and l: "length (chars s) = unat (d_len s)"
    using assms(1,2) by (simp_all add: string_ok_def)
  have app: "string_ok (string_append_string s t) \<and> chars (string_append_string s t) = chars s @ chars t"
  proof (cases "d_data t")
    case (Some b)
    then show ?thesis using append_ok [OF assms(1), of b] n(2) assms(3) by (simp add: string_append_string_def chars_def)
  qed (use assms(1) in \<open>simp add: string_append_string_def string_append_def chars_def\<close>)
  have copy: "string_ok (string_copy s) \<and> chars (string_copy s) = chars s"
    using n l by (auto simp: string_copy_def string_ok_def chars_def split: option.splits)
  have eq: "string_eq s t = (if d_data s = None \<or> d_data t = None then None else Some (chars s = chars t))"
    using n by (auto simp: string_eq_def string_equals_def chars_def strcmp_eq_0 split: option.splits)
  have inc: "string_includes s (d_data t) = Some (chars s \<noteq> [] \<and> sublist (chars t) (chars s))"
    if "d_data s \<noteq> None" "d_data t \<noteq> None"
    using that n includes_loop_sublist [of "chars t" "chars s"] by (auto simp: string_includes_def chars_def)
  have sub: "\<exists>u. string_substr s start len = Some u \<and> string_ok u
      \<and> chars u = (if d_len s < start + len then [] else take (unat (start + len) - unat start) (drop (unat start) (chars s)))"
  proof (cases "d_len s < start + len")
    case False
    let ?c = "take (unat (start + len) - unat start) (drop (unat start) (chars s))"
    have le: "unat (start + len) \<le> length (chars s)" using False l by (simp add: word_less_nat_alt)
    have "substr_loop (unat (d_len s)) (chars s) start (start + len) = Some ?c"
      by (rule substr_loop_eq) (use le l in simp_all)
    moreover have nc: "NUL \<notin> set ?c" using n(1) by (meson in_set_dropD in_set_takeD)
    moreover have "unat (of_nat (length ?c) :: u32) = length ?c"
      using assms(3) by (simp add: unat_of_nat)
    ultimately show ?thesis
      using False by (auto simp: string_substr_def string_of_cstr_def string_ok_def chars_def [of "\<lparr>d_data = Some _, d_len = _\<rparr>"] chars_def [symmetric])
  qed (auto simp: string_substr_def string_new_def string_ok_def chars_def)
  show ?thesis using app copy eq inc sub by blast
qed

lemma string_is_list_witness:
  "chars (string_append_string (string_of_cstr ''ab'') (string_of_cstr ''cd'')) = ''abcd''
    \<and> string_includes (string_of_cstr ''abc'') (d_data (string_of_cstr ''bc'')) = Some True"
proof -
  have ok: "string_ok (string_of_cstr x)" if "NUL \<notin> set x" "length x < 4" for x
    using that by (simp add: string_ok_def string_of_cstr_def chars_def unat_of_nat)
  show ?thesis
    using string_is_list [OF ok ok, of "''ab''" "''cd''" 0 0] string_is_list [OF ok ok, of "''abc''" "''bc''" 0 0]
    by (simp add: string_of_cstr_def chars_def sublist_code)
qed

end
