(* ===== verification/Ext2Mode.thy ===== *)
theory Ext2Mode
  imports Ext2Dir DataString
begin

text \<open>
  File modes and permissions of the Ext2 file system: \<open>mode_to_string\<close> and \<open>get_perms\<close> of
  \<open>src/kernel/fs/ext/ext2.cpp\<close>.  An inode is the list of its bytes, as in the other theories.
\<close>

section \<open>The mode of an inode\<close>

definition type_and_perm :: "u8 list \<Rightarrow> u16" where "type_and_perm ino = get16 0 ino"
definition i_uid :: "u8 list \<Rightarrow> u16" where "i_uid ino = get16 2 ino"
definition i_gid :: "u8 list \<Rightarrow> u16" where "i_gid ino = get16 24 ino"

definition EXT2_S_IFSOCK :: u16 where "EXT2_S_IFSOCK = 0xC000"
definition EXT2_S_IFLNK :: u16 where "EXT2_S_IFLNK = 0xA000"
definition EXT2_S_IFREG :: u16 where "EXT2_S_IFREG = 0x8000"
definition EXT2_S_IFBLK :: u16 where "EXT2_S_IFBLK = 0x6000"
definition EXT2_S_IFDIR :: u16 where "EXT2_S_IFDIR = 0x4000"
definition EXT2_S_IFCHR :: u16 where "EXT2_S_IFCHR = 0x2000"
definition EXT2_S_IFIFO :: u16 where "EXT2_S_IFIFO = 0x1000"
definition EXT2_S_IRUSR :: u16 where "EXT2_S_IRUSR = 0x0100"
definition EXT2_S_IWUSR :: u16 where "EXT2_S_IWUSR = 0x0080"
definition EXT2_S_IXUSR :: u16 where "EXT2_S_IXUSR = 0x0040"
definition EXT2_S_IRGRP :: u16 where "EXT2_S_IRGRP = 0x0020"
definition EXT2_S_IWGRP :: u16 where "EXT2_S_IWGRP = 0x0010"
definition EXT2_S_IXGRP :: u16 where "EXT2_S_IXGRP = 0x0008"
definition EXT2_S_IROTH :: u16 where "EXT2_S_IROTH = 0x0004"
definition EXT2_S_IWOTH :: u16 where "EXT2_S_IWOTH = 0x0002"
definition EXT2_S_IXOTH :: u16 where "EXT2_S_IXOTH = 0x0001"

lemmas mode_bits = EXT2_S_IFMT_def EXT2_S_IFSOCK_def EXT2_S_IFLNK_def EXT2_S_IFREG_def EXT2_S_IFBLK_def EXT2_S_IFDIR_def
  EXT2_S_IFCHR_def EXT2_S_IFIFO_def EXT2_S_IRUSR_def EXT2_S_IWUSR_def EXT2_S_IXUSR_def EXT2_S_IRGRP_def EXT2_S_IWGRP_def
  EXT2_S_IXGRP_def EXT2_S_IROTH_def EXT2_S_IWOTH_def EXT2_S_IXOTH_def

definition INODE_IS_DIR :: "u8 list \<Rightarrow> bool" where
  "INODE_IS_DIR ino \<longleftrightarrow> type_and_perm ino AND EXT2_S_IFMT = EXT2_S_IFDIR"

definition type_char :: "u16 \<Rightarrow> char" where
  "type_char mode =
     (let f = mode AND EXT2_S_IFMT in
      if f = EXT2_S_IFREG then CHR ''-''
      else if f = EXT2_S_IFDIR then CHR ''d''
      else if f = EXT2_S_IFLNK then CHR ''l''
      else if f = EXT2_S_IFCHR then CHR ''c''
      else if f = EXT2_S_IFBLK then CHR ''b''
      else if f = EXT2_S_IFIFO then CHR ''p''
      else if f = EXT2_S_IFSOCK then CHR ''s''
      else CHR ''?'')"

definition bit_char :: "u16 \<Rightarrow> u16 \<Rightarrow> char \<Rightarrow> char" where
  "bit_char mode b c = (if mode AND b \<noteq> 0 then c else CHR ''-'')"

definition mode_to_string :: "u16 \<Rightarrow> dstring" where
  "mode_to_string mode =
     foldl string_append_char string_new
       [type_char mode,
        bit_char mode EXT2_S_IRUSR (CHR ''r''), bit_char mode EXT2_S_IWUSR (CHR ''w''), bit_char mode EXT2_S_IXUSR (CHR ''x''),
        bit_char mode EXT2_S_IRGRP (CHR ''r''), bit_char mode EXT2_S_IWGRP (CHR ''w''), bit_char mode EXT2_S_IXGRP (CHR ''x''),
        bit_char mode EXT2_S_IROTH (CHR ''r''), bit_char mode EXT2_S_IWOTH (CHR ''w''), bit_char mode EXT2_S_IXOTH (CHR ''x'')]"

record ext2_perms =
  p_read :: bool
  p_write :: bool
  p_execute :: bool

text \<open>A null inode is \<open>None\<close>.  The user and group numbers of an inode have 16 bits, those of the user 32.\<close>

definition get_perms :: "u8 list option \<Rightarrow> u32 \<Rightarrow> u32 \<Rightarrow> ext2_perms" where
  "get_perms inode uid gid =
     (case inode of None \<Rightarrow> \<lparr>p_read = False, p_write = False, p_execute = False\<rparr>
      | Some ino \<Rightarrow>
          if uid = 0 then \<lparr>p_read = True, p_write = True, p_execute = True\<rparr>
          else
            let mode = type_and_perm ino in
            if ucast (i_uid ino) = uid
            then \<lparr>p_read = mode AND EXT2_S_IRUSR \<noteq> 0, p_write = mode AND EXT2_S_IWUSR \<noteq> 0, p_execute = mode AND EXT2_S_IXUSR \<noteq> 0\<rparr>
            else if ucast (i_gid ino) = gid
            then \<lparr>p_read = mode AND EXT2_S_IRGRP \<noteq> 0, p_write = mode AND EXT2_S_IWGRP \<noteq> 0, p_execute = mode AND EXT2_S_IXGRP \<noteq> 0\<rparr>
            else \<lparr>p_read = mode AND EXT2_S_IROTH \<noteq> 0, p_write = mode AND EXT2_S_IWOTH \<noteq> 0, p_execute = mode AND EXT2_S_IXOTH \<noteq> 0\<rparr>)"

section \<open>Permissions as they are displayed\<close>

lemma foldl_append_chars:
  "NUL \<notin> set cs \<Longrightarrow> string_ok s \<Longrightarrow> length (chars s) + length cs < 2 ^ 32 \<Longrightarrow>
   string_ok (foldl string_append_char s cs) \<and> chars (foldl string_append_char s cs) = chars s @ cs"
proof (induction cs arbitrary: s)
  case (Cons c cs)
  have "string_ok (string_append_char s c) \<and> chars (string_append_char s c) = chars s @ [c]"
    using Cons.prems append_ok [of s "[c]"] by (simp add: string_append_char_def)
  then show ?case using Cons by simp
qed simp

lemma mode_chars:
  "chars (mode_to_string mode) =
     [type_char mode,
      bit_char mode EXT2_S_IRUSR (CHR ''r''), bit_char mode EXT2_S_IWUSR (CHR ''w''), bit_char mode EXT2_S_IXUSR (CHR ''x''),
      bit_char mode EXT2_S_IRGRP (CHR ''r''), bit_char mode EXT2_S_IWGRP (CHR ''w''), bit_char mode EXT2_S_IXGRP (CHR ''x''),
      bit_char mode EXT2_S_IROTH (CHR ''r''), bit_char mode EXT2_S_IWOTH (CHR ''w''), bit_char mode EXT2_S_IXOTH (CHR ''x'')]"
    (is "_ = ?cs")
proof -
  have "type_char mode \<noteq> NUL" by (simp add: type_char_def Let_def)
  then have "NUL \<notin> set ?cs" by (simp add: bit_char_def)
  moreover have "string_ok string_new" "chars string_new = []" by (simp_all add: string_ok_def string_new_def chars_def)
  ultimately show ?thesis
    using foldl_append_chars [of ?cs string_new] by (simp add: mode_to_string_def)
qed

text \<open>The file type of a directory entry that goes with each first character of a mode string.\<close>

definition ft_of_char :: "char \<Rightarrow> u8 option" where
  "ft_of_char = map_of (zip ''?-dcbpsl'' [0, 1, 2, 3, 4, 5, 6, 7])"

text \<open>
  C32: the permissions of a user are the ones the mode string shows.  Root has all of them.  For
  another user they are the three characters of the owner's, the group's or the others' part of
  the string, the first of these that applies, a letter where the permission is given; and the
  first of the ten characters says which of the eight types the directory entry of the inode gets.
\<close>

theorem perms_match_mode_string:
  assumes "uid \<noteq> 0"
  shows "let s = chars (mode_to_string (type_and_perm ino)); p = get_perms (Some ino) uid gid;
           k = (if ucast (i_uid ino) = uid then 1 else if ucast (i_gid ino) = gid then 4 else 7)
         in length s = 10 \<and> (p_read p \<longleftrightarrow> s ! k = CHR ''r'') \<and> (p_write p \<longleftrightarrow> s ! (k + 1) = CHR ''w'')
           \<and> (p_execute p \<longleftrightarrow> s ! (k + 2) = CHR ''x'')
           \<and> ft_of_char (s ! 0) = Some (get_inode_type ino)
           \<and> (s ! 0 = CHR ''d'' \<longleftrightarrow> INODE_IS_DIR ino)
           \<and> get_perms (Some ino) 0 gid = \<lparr>p_read = True, p_write = True, p_execute = True\<rparr>"
proof -
  let ?f = "type_and_perm ino AND EXT2_S_IFMT"
  have t: "ft_of_char (type_char (type_and_perm ino)) = Some (get_inode_type ino)"
    by (simp add: ft_of_char_def type_char_def get_inode_type_def type_and_perm_def mode_bits Let_def)
  have d: "type_char (type_and_perm ino) = CHR ''d'' \<longleftrightarrow> INODE_IS_DIR ino"
    by (simp add: type_char_def INODE_IS_DIR_def mode_bits Let_def)
  have c: "bit_char m b c = c \<longleftrightarrow> m AND b \<noteq> 0" if "c \<noteq> CHR ''-''" for m b c
    using that by (simp add: bit_char_def)
  have p: "get_perms (Some ino) uid gid
      = (let mode = type_and_perm ino in
         if ucast (i_uid ino) = uid
         then \<lparr>p_read = mode AND EXT2_S_IRUSR \<noteq> 0, p_write = mode AND EXT2_S_IWUSR \<noteq> 0, p_execute = mode AND EXT2_S_IXUSR \<noteq> 0\<rparr>
         else if ucast (i_gid ino) = gid
         then \<lparr>p_read = mode AND EXT2_S_IRGRP \<noteq> 0, p_write = mode AND EXT2_S_IWGRP \<noteq> 0, p_execute = mode AND EXT2_S_IXGRP \<noteq> 0\<rparr>
         else \<lparr>p_read = mode AND EXT2_S_IROTH \<noteq> 0, p_write = mode AND EXT2_S_IWOTH \<noteq> 0, p_execute = mode AND EXT2_S_IXOTH \<noteq> 0\<rparr>)"
    using assms by (simp only: get_perms_def option.case if_False)
  have r: "get_perms (Some ino) 0 gid = \<lparr>p_read = True, p_write = True, p_execute = True\<rparr>"
    by (simp only: get_perms_def option.case refl if_True)
  consider "ucast (i_uid ino) = uid" | "ucast (i_uid ino) \<noteq> uid" "ucast (i_gid ino) = gid"
    | "ucast (i_uid ino) \<noteq> uid" "ucast (i_gid ino) \<noteq> gid" by blast
  then show ?thesis
    by cases (simp_all add: mode_chars p r c Let_def t d)
qed

theorem perms_match_mode_string_witness:
  "p_write (get_perms (Some (put16 0 0x81A4 (replicate 128 1))) 0x101 5) \<and> \<not> p_write (get_perms (Some (put16 0 0x81A4 (replicate 128 1))) 7 5)"
proof -
  let ?i = "put16 0 0x81A4 (replicate 128 1)"
  have m: "type_and_perm ?i = 0x81A4" "i_uid ?i = 0x101" "i_gid ?i = 0x101"
    by (simp_all add: type_and_perm_def i_uid_def i_gid_def) (simp_all add: get16_def)
  show ?thesis
    using perms_match_mode_string [of "0x101" ?i 5] perms_match_mode_string [of 7 ?i 5]
    by (simp add: Let_def m mode_chars bit_char_def mode_bits)
qed

end
