(* ===== verification/DataTree.thy ===== *)
theory DataTree
  imports Prelude "HOL-Library.Monad_Syntax"
begin

text \<open>
  \<open>src/kernel/include/lib/data/tree.hpp\<close>: the template \<open>data::tree\<close>, nodes with pointers to the
  parent, the first child and the next sibling.  The nodes that exist are a map from addresses to
  nodes; \<open>kcalloc\<close> gives an address, an argument of the model, and \<open>kfree\<close> removes a node.
  \<open>None\<close> is an access to a node that does not exist, or a walk over siblings that does not end.
\<close>

section \<open>Nodes and operations\<close>

record 'a tnode =
  tn_data :: 'a
  tn_parent :: u32
  tn_first_child :: u32
  tn_next_sibling :: u32

type_synonym 'a theap = "u32 \<Rightarrow> 'a tnode option"

record 'a tree =
  t_heap :: "'a theap"
  t_root :: u32

definition tree_new :: "'a theap \<Rightarrow> 'a tree" where
  "tree_new h = \<lparr>t_heap = h, t_root = 0\<rparr>"

definition get_root :: "'a tree \<Rightarrow> u32" where
  "get_root t = t_root t"

text \<open>An assignment to fields of the node at \<open>p\<close>.\<close>

definition upd :: "u32 \<Rightarrow> ('a tnode \<Rightarrow> 'a tnode) \<Rightarrow> 'a theap \<Rightarrow> 'a theap option" where
  "upd p f h = (case h p of None \<Rightarrow> None | Some n \<Rightarrow> Some (h(p \<mapsto> f n)))"

definition create :: "u32 \<Rightarrow> 'a \<Rightarrow> 'a theap \<Rightarrow> u32 \<times> 'a theap" where
  "create a v h =
     (if a = 0 then (0, h)
      else (a, h(a \<mapsto> \<lparr>tn_data = v, tn_parent = 0, tn_first_child = 0, tn_next_sibling = 0\<rparr>)))"

partial_function (option) find_prev :: "u32 \<Rightarrow> u32 \<Rightarrow> 'a theap \<Rightarrow> u32 option" where
  "find_prev node prev h =
     (if prev = 0 then Some 0
      else do { n \<leftarrow> h prev;
                if tn_next_sibling n = node then Some prev else find_prev node (tn_next_sibling n) h })"

definition detach_from_parent :: "u32 \<Rightarrow> 'a theap \<Rightarrow> 'a theap option" where
  "detach_from_parent node h =
     (if node = 0 then Some h
      else do {
        nd \<leftarrow> h node;
        if tn_parent nd = 0 then Some h
        else do {
          pn \<leftarrow> h (tn_parent nd);
          h1 \<leftarrow> (if tn_first_child pn = node
            then upd (tn_parent nd) (\<lambda>n. n\<lparr>tn_first_child := tn_next_sibling nd\<rparr>) h
            else do {
              prev \<leftarrow> find_prev node (tn_first_child pn) h;
              if prev \<noteq> 0 then upd prev (\<lambda>n. n\<lparr>tn_next_sibling := tn_next_sibling nd\<rparr>) h else Some h });
          upd node (\<lambda>n. n\<lparr>tn_parent := 0\<rparr>) h1 } })"

partial_function (option) last_sibling :: "u32 \<Rightarrow> 'a theap \<Rightarrow> u32 option" where
  "last_sibling cur h =
     do { n \<leftarrow> h cur;
          if tn_next_sibling n = 0 then Some cur else last_sibling (tn_next_sibling n) h }"

definition add_child :: "u32 \<Rightarrow> u32 \<Rightarrow> 'a theap \<Rightarrow> 'a theap option" where
  "add_child parent child h =
     (if parent = 0 \<or> child = 0 then Some h
      else do {
        c \<leftarrow> h child;
        h1 \<leftarrow> (if tn_parent c \<noteq> 0 then detach_from_parent child h else Some h);
        h2 \<leftarrow> upd child (\<lambda>n. n\<lparr>tn_next_sibling := 0, tn_parent := parent\<rparr>) h1;
        p \<leftarrow> h2 parent;
        if tn_first_child p = 0 then upd parent (\<lambda>n. n\<lparr>tn_first_child := child\<rparr>) h2
        else do {
          cur \<leftarrow> last_sibling (tn_first_child p) h2;
          upd cur (\<lambda>n. n\<lparr>tn_next_sibling := child\<rparr>) h2 } })"

text \<open>
  \<open>delete_subtree\<close>: \<open>unlink_and_free\<close> is what it does after its children are gone, and
  \<open>delete_siblings\<close> its loop over the children, with the recursive call written out: the children
  of the child, and then the child.
\<close>

definition unlink_and_free :: "u32 \<Rightarrow> 'a theap \<Rightarrow> 'a theap option" where
  "unlink_and_free node h =
     do {
       nd \<leftarrow> h node;
       h1 \<leftarrow> (if tn_parent nd \<noteq> 0 then detach_from_parent node h else Some h);
       h2 \<leftarrow> upd node (\<lambda>n. n\<lparr>tn_first_child := 0, tn_next_sibling := 0, tn_parent := 0\<rparr>) h1;
       Some (h2(node := None)) }"

partial_function (option) delete_siblings :: "u32 \<Rightarrow> 'a theap \<Rightarrow> 'a theap option" where
  "delete_siblings child h =
     (if child = 0 then Some h
      else do {
        n \<leftarrow> h child;
        h1 \<leftarrow> delete_siblings (tn_first_child n) h;
        h2 \<leftarrow> unlink_and_free child h1;
        delete_siblings (tn_next_sibling n) h2 })"

definition delete_subtree :: "u32 \<Rightarrow> 'a theap \<Rightarrow> 'a theap option" where
  "delete_subtree node h =
     (if node = 0 then Some h
      else do {
        n \<leftarrow> h node;
        h1 \<leftarrow> delete_siblings (tn_first_child n) h;
        unlink_and_free node h1 })"

definition set_root :: "u32 \<Rightarrow> 'a tree \<Rightarrow> 'a tree option" where
  "set_root node t =
     do {
       h \<leftarrow> (if t_root t \<noteq> 0 \<and> t_root t \<noteq> node then delete_subtree (t_root t) (t_heap t) else Some (t_heap t));
       Some (t\<lparr>t_heap := h, t_root := node\<rparr>) }"

definition tree_destroy :: "'a tree \<Rightarrow> 'a tree option" where
  "tree_destroy t = do { h \<leftarrow> delete_subtree (t_root t) (t_heap t); Some (t\<lparr>t_heap := h, t_root := 0\<rparr>) }"

text \<open>The move constructor and assignment: the roots of this tree and the other one, over the same nodes.\<close>

definition tree_move :: "u32 \<Rightarrow> u32 \<times> u32" where
  "tree_move other_root = (other_root, 0)"

definition tree_move_assign :: "u32 \<Rightarrow> u32 \<Rightarrow> 'a theap \<Rightarrow> (u32 \<times> u32 \<times> 'a theap) option" where
  "tree_move_assign this_root other_root h =
     do { h1 \<leftarrow> delete_subtree this_root h; Some (other_root, 0, h1) }"

partial_function (option) children_loop :: "u32 \<Rightarrow> 'a theap \<Rightarrow> 'a list option" where
  "children_loop cur h =
     (if cur = 0 then Some []
      else do { n \<leftarrow> h cur; vs \<leftarrow> children_loop (tn_next_sibling n) h; Some (tn_data n # vs) })"

definition get_children :: "u32 \<Rightarrow> 'a theap \<Rightarrow> 'a list option" where
  "get_children parent h = do { p \<leftarrow> h parent; children_loop (tn_first_child p) h }"

partial_function (option) find_loop :: "('a \<Rightarrow> bool) \<Rightarrow> u32 \<Rightarrow> 'a theap \<Rightarrow> u32 option" where
  "find_loop predicate cur h =
     (if cur = 0 then Some 0
      else do { n \<leftarrow> h cur; if predicate (tn_data n) then Some cur else find_loop predicate (tn_next_sibling n) h })"

definition find_child_by_predicate :: "u32 \<Rightarrow> ('a \<Rightarrow> bool) \<Rightarrow> 'a theap \<Rightarrow> u32 option" where
  "find_child_by_predicate parent predicate h =
     (if parent = 0 then Some 0 else do { p \<leftarrow> h parent; find_loop predicate (tn_first_child p) h })"

partial_function (option) find_all_loop :: "('a \<Rightarrow> bool) \<Rightarrow> u32 \<Rightarrow> 'a theap \<Rightarrow> u32 list option" where
  "find_all_loop predicate cur h =
     (if cur = 0 then Some []
      else do {
        n \<leftarrow> h cur;
        ps \<leftarrow> find_all_loop predicate (tn_next_sibling n) h;
        Some (if predicate (tn_data n) then cur # ps else ps) })"

text \<open>The array of \<open>find_children_by_predicate\<close> and its count; the count is the length of the array.\<close>

definition find_children_by_predicate :: "u32 \<Rightarrow> ('a \<Rightarrow> bool) \<Rightarrow> 'a theap \<Rightarrow> (u32 list \<times> nat) option" where
  "find_children_by_predicate parent predicate h =
     (if parent = 0 then Some ([], 0)
      else do { p \<leftarrow> h parent; ps \<leftarrow> find_all_loop predicate (tn_first_child p) h; Some (ps, length ps) })"

text \<open>\<open>traverse\<close>, as the nodes it visits in order with their depths.\<close>

partial_function (option) traverse_siblings :: "int \<Rightarrow> u32 \<Rightarrow> 'a theap \<Rightarrow> (u32 \<times> int) list option" where
  "traverse_siblings depth child h =
     (if child = 0 then Some []
      else do {
        n \<leftarrow> h child;
        below \<leftarrow> traverse_siblings (depth + 1) (tn_first_child n) h;
        rest \<leftarrow> traverse_siblings depth (tn_next_sibling n) h;
        Some ((child, depth) # below @ rest) })"

definition traverse :: "u32 \<Rightarrow> int \<Rightarrow> 'a theap \<Rightarrow> (u32 \<times> int) list option" where
  "traverse node depth h =
     (if node = 0 then Some []
      else do {
        n \<leftarrow> h node;
        below \<leftarrow> traverse_siblings (depth + 1) (tn_first_child n) h;
        Some ((node, depth) # below) })"

section \<open>The trees the nodes stand for\<close>

datatype 'a rtree = T (root: u32) (val: 'a) (kids: "'a rtree list")

fun ptrs :: "'a rtree \<Rightarrow> u32 list" where
  "ptrs (T p d ts) = p # concat (map ptrs ts)"

definition ptrss :: "'a rtree list \<Rightarrow> u32 list" where
  "ptrss ts = concat (map ptrs ts)"

lemma ptrss_simps [simp]:
  "ptrss [] = []" "ptrss (t # ts) = ptrs t @ ptrss ts" "ptrss (us @ vs) = ptrss us @ ptrss vs"
  by (simp_all add: ptrss_def)

lemma ptrs_T [simp]: "ptrs (T p d ts) = p # ptrss ts"
  by (simp add: ptrss_def)

declare ptrs.simps [simp del]

lemma set_ptrss: "set (ptrss ts) = (\<Union>t \<in> set ts. set (ptrs t))"
  by (simp add: ptrss_def)

definition first :: "u32 \<Rightarrow> 'a rtree list \<Rightarrow> u32" where
  "first e ts = (case ts of [] \<Rightarrow> e | t # _ \<Rightarrow> root t)"

lemma first_simps [simp]: "first e [] = e" "first e (t # ts) = root t"
  by (simp_all add: first_def)

lemma first_append [simp]: "first e (us @ vs) = first (first e vs) us"
  by (cases us) simp_all

text \<open>The nodes of siblings, the last of which is followed by \<open>e\<close>.\<close>

fun siblings :: "'a theap \<Rightarrow> u32 \<Rightarrow> u32 \<Rightarrow> 'a rtree list \<Rightarrow> bool" where
  "siblings h par e [] \<longleftrightarrow> True"
| "siblings h par e (T p d ts # us) \<longleftrightarrow>
     p \<noteq> 0 \<and> h p = Some \<lparr>tn_data = d, tn_parent = par, tn_first_child = first 0 ts, tn_next_sibling = first e us\<rparr>
     \<and> siblings h p 0 ts \<and> siblings h par e us"

definition is_tree :: "'a theap \<Rightarrow> 'a rtree \<Rightarrow> bool" where
  "is_tree h t \<longleftrightarrow> siblings h 0 0 [t] \<and> distinct (ptrs t)"

lemma root_in_ptrs [simp]: "root t \<in> set (ptrs t)"
  by (cases t) simp

lemma siblings_append [simp]:
  "siblings h par e (us @ vs) \<longleftrightarrow> siblings h par (first e vs) us \<and> siblings h par e vs"
proof (induction us)
  case (Cons t us)
  then show ?case by (cases t) auto
qed simp

lemma siblings_frame:
  "\<forall>q \<in> set (ptrss us). h' q = h q \<Longrightarrow> siblings h par e us \<Longrightarrow> siblings h' par e us"
  by (induction h par e us rule: siblings.induct) auto

lemma siblings_ptrs:
  "siblings h par e us \<Longrightarrow> q \<in> set (ptrss us) \<Longrightarrow> q \<noteq> 0 \<and> h q \<noteq> None"
  by (induction h par e us rule: siblings.induct) auto

text \<open>Changing the children of the node \<open>p\<close> of a tree.\<close>

fun graft :: "u32 \<Rightarrow> ('a rtree list \<Rightarrow> 'a rtree list) \<Rightarrow> 'a rtree \<Rightarrow> 'a rtree" where
  "graft p f (T q d ts) = T q d (if q = p then f ts else map (graft p f) ts)"

lemma root_graft [simp]: "root (graft p f t) = root t"
  by (cases t) simp

lemma first_graft [simp]: "first e (map (graft p f) us) = first e us"
  by (cases us) simp_all

lemma graft_id [simp]: "p \<notin> set (ptrs t) \<Longrightarrow> graft p f t = t"
  by (induction t) (auto simp: set_ptrss intro: map_idI)

lemma graft_ids [simp]: "p \<notin> set (ptrss us) \<Longrightarrow> map (graft p f) us = us"
  by (auto simp: set_ptrss intro: map_idI)

text \<open>
  \<open>rewires h h' p f X\<close>: from \<open>h\<close> to \<open>h'\<close> the children \<open>ts\<close> of \<open>p\<close> become \<open>f ts\<close>, and nodes other
  than \<open>p\<close>, those below it and the ones of \<open>X\<close> stay as they are.
\<close>

definition rewires :: "'a theap \<Rightarrow> 'a theap \<Rightarrow> u32 \<Rightarrow> ('a rtree list \<Rightarrow> 'a rtree list) \<Rightarrow> u32 set \<Rightarrow> bool" where
  "rewires h h' p f X \<longleftrightarrow> (\<forall>d par nx ts.
     h p = Some \<lparr>tn_data = d, tn_parent = par, tn_first_child = first 0 ts, tn_next_sibling = nx\<rparr> \<longrightarrow>
     siblings h p 0 ts \<longrightarrow> distinct (p # ptrss ts) \<longrightarrow> X \<inter> set (p # ptrss ts) = {} \<longrightarrow>
       h' p = Some \<lparr>tn_data = d, tn_parent = par, tn_first_child = first 0 (f ts), tn_next_sibling = nx\<rparr>
       \<and> siblings h' p 0 (f ts) \<and> distinct (ptrss (f ts)) \<and> set (ptrss (f ts)) \<subseteq> set (ptrss ts) \<union> X
       \<and> (\<forall>q. q \<noteq> p \<longrightarrow> q \<notin> set (ptrss ts) \<union> X \<longrightarrow> h' q = h q))"

lemma rewiresD:
  assumes "rewires h h' p f X" and "h p = Some \<lparr>tn_data = d, tn_parent = par, tn_first_child = first 0 ts, tn_next_sibling = nx\<rparr>"
    and "siblings h p 0 ts" and "distinct (ptrss ts)" and "p \<notin> set (ptrss ts)" and "X \<inter> set (ptrss ts) = {}" and "p \<notin> X"
  shows "h' p = Some \<lparr>tn_data = d, tn_parent = par, tn_first_child = first 0 (f ts), tn_next_sibling = nx\<rparr>"
    and "siblings h' p 0 (f ts)" and "distinct (ptrss (f ts))" and "set (ptrss (f ts)) \<subseteq> set (ptrss ts) \<union> X"
    and "\<And>q. q \<noteq> p \<Longrightarrow> q \<notin> set (ptrss ts) \<union> X \<Longrightarrow> h' q = h q"
  using assms(1) [unfolded rewires_def, rule_format, OF assms(2,3)] assms(4-7) by auto

lemma graft_siblings:
  assumes "rewires h h' p f X" and "siblings h par e us" and "distinct (ptrss us)" and "p \<in> set (ptrss us)"
    and "X \<inter> set (ptrss us) = {}"
  shows "siblings h' par e (map (graft p f) us) \<and> distinct (ptrss (map (graft p f) us))
    \<and> set (ptrss (map (graft p f) us)) \<subseteq> set (ptrss us) \<union> X \<and> (\<forall>q. q \<notin> set (ptrss us) \<union> X \<longrightarrow> h' q = h q)"
  using assms
proof (induction h par e us rule: siblings.induct)
  case (2 h par e q d ts us)
  have s: "q \<noteq> 0" "h q = Some \<lparr>tn_data = d, tn_parent = par, tn_first_child = first 0 ts, tn_next_sibling = first e us\<rparr>"
    "siblings h q 0 ts" "siblings h par e us"
    using "2.prems"(2) by auto
  have di: "distinct (ptrss ts)" "distinct (ptrss us)" "q \<notin> set (ptrss ts)" "q \<notin> set (ptrss us)"
    "set (ptrss ts) \<inter> set (ptrss us) = {}"
    using "2.prems"(3) by auto
  have X: "X \<inter> set (ptrss ts) = {}" "X \<inter> set (ptrss us) = {}" "q \<notin> X" using "2.prems"(5) by auto
  consider "p = q" | "p \<noteq> q" "p \<in> set (ptrss ts)" "p \<notin> set (ptrss us)" | "p \<noteq> q" "p \<notin> set (ptrss ts)" "p \<in> set (ptrss us)"
    using "2.prems"(4) di by auto
  then show ?case
  proof cases
    case 1
    note r = rewiresD [OF "2.prems"(1) [unfolded 1] s(2,3) di(1,3) X(1,3)]
    have "siblings h' par e us" by (rule siblings_frame [OF _ s(4)], rule ballI, rule r(5)) (use di X in auto)
    moreover have "map (graft p f) (T q d ts # us) = T q d (f ts) # us" using 1 di(4) by simp
    ultimately show ?thesis using r s(1) di X by (simp only: siblings.simps) (simp, blast)
  next
    case 2
    note IH = "2.IH"(1) [OF "2.prems"(1) s(3) di(1) 2(2) X(1)]
    note o = IH [THEN conjunct2, THEN conjunct2, THEN conjunct2, rule_format]
    have "siblings h' par e us" by (rule siblings_frame [OF _ s(4)], rule ballI, rule o) (use di X in auto)
    moreover have "h' q = h q" by (rule o) (use di X in auto)
    moreover have "map (graft p f) (T q d ts # us) = T q d (map (graft p f) ts) # us" using 2 by simp
    ultimately show ?thesis using IH s(1,2) di X by (simp only: siblings.simps) (simp, blast)
  next
    case 3
    note IH = "2.IH"(2) [OF "2.prems"(1) s(4) di(2) 3(3) X(2)]
    note o = IH [THEN conjunct2, THEN conjunct2, THEN conjunct2, rule_format]
    have "siblings h' q 0 ts" by (rule siblings_frame [OF _ s(3)], rule ballI, rule o) (use di X in auto)
    moreover have "h' q = h q" by (rule o) (use di X in auto)
    moreover have "map (graft p f) (T q d ts # us) = T q d ts # map (graft p f) us" using 3 by simp
    ultimately show ?thesis using IH s(1,2) di X by (simp only: siblings.simps) (simp, blast)
  qed
qed simp

lemma graft_tree:
  assumes "is_tree h t" and "p \<in> set (ptrs t)" and "rewires h h' p f X" and "X \<inter> set (ptrs t) = {}"
  shows "is_tree h' (graft p f t)" and "q \<notin> set (ptrs t) \<union> X \<Longrightarrow> h' q = h q"
  using graft_siblings [OF assms(3), of 0 0 "[t]"] assms by (auto simp: is_tree_def)

section \<open>Walks over siblings\<close>

lemma first_not_0: "siblings h par 0 us \<Longrightarrow> us \<noteq> [] \<Longrightarrow> first 0 us \<noteq> 0"
  by (cases us; cases "hd us") auto

lemma last_sibling_end:
  "siblings h par 0 (us @ [t]) \<Longrightarrow> last_sibling (first 0 (us @ [t])) h = Some (root t)"
proof (induction us)
  case Nil
  then show ?case by (cases t) (subst last_sibling.simps, simp)
next
  case (Cons u us)
  have "siblings h par 0 (us @ [t])" using Cons.prems by (cases u) simp
  then have "first 0 (us @ [t]) \<noteq> 0" by (rule first_not_0) simp
  then show ?case using Cons by (cases u) (subst last_sibling.simps, simp)
qed

lemma find_prev_end:
  "siblings h par q us \<Longrightarrow> us \<noteq> [] \<Longrightarrow> q \<notin> set (map root us) \<Longrightarrow> find_prev q (first q us) h = Some (root (last us))"
proof (induction us)
  case (Cons u us)
  show ?case
  proof (cases us)
    case Nil
    then show ?thesis using Cons by (cases u) (subst find_prev.simps, simp)
  next
    case c: (Cons v vs)
    then have "root v \<noteq> q" using Cons.prems(3) by auto
    then show ?thesis using Cons c by (cases u) (subst find_prev.simps, simp)
  qed
qed simp

lemma children_loop_kids: "siblings h par 0 us \<Longrightarrow> children_loop (first 0 us) h = Some (map val us)"
proof (induction us)
  case (Cons u us)
  then show ?case by (cases u) (subst children_loop.simps, simp)
qed (subst children_loop.simps, simp)

lemma find_loop_kids:
  "siblings h par 0 us \<Longrightarrow> find_loop P (first 0 us) h = Some (case find (\<lambda>u. P (val u)) us of None \<Rightarrow> 0 | Some u \<Rightarrow> root u)"
proof (induction us)
  case (Cons u us)
  then show ?case by (cases u) (subst find_loop.simps, simp)
qed (subst find_loop.simps, simp)

lemma find_all_loop_kids:
  "siblings h par 0 us \<Longrightarrow> find_all_loop P (first 0 us) h = Some (map root (filter (\<lambda>u. P (val u)) us))"
proof (induction us)
  case (Cons u us)
  then show ?case by (cases u) (subst find_all_loop.simps, simp)
qed (subst find_all_loop.simps, simp)

fun preorder :: "int \<Rightarrow> 'a rtree \<Rightarrow> (u32 \<times> int) list" where
  "preorder k (T p d ts) = (p, k) # concat (map (preorder (k + 1)) ts)"

lemma traverse_siblings_preorder:
  "siblings h par e us \<Longrightarrow> e = 0 \<Longrightarrow> traverse_siblings k (first 0 us) h = Some (concat (map (preorder k) us))"
proof (induction h par e us arbitrary: k rule: siblings.induct)
  case 1
  then show ?case by (subst traverse_siblings.simps) simp
next
  case (2 h par e p d ts us)
  then show ?case by (subst traverse_siblings.simps) simp
qed

text \<open>Every node of a tree has the form its subtree says.\<close>

fun subtrees :: "'a rtree \<Rightarrow> 'a rtree list" where
  "subtrees (T p d ts) = T p d ts # concat (map subtrees ts)"

lemma subtree_at:
  assumes "siblings h par e us" and "T p d ts \<in> set (concat (map subtrees us))" and "distinct (ptrss us)"
  shows "\<exists>par' nx. h p = Some \<lparr>tn_data = d, tn_parent = par', tn_first_child = first 0 ts, tn_next_sibling = nx\<rparr>
    \<and> p \<noteq> 0 \<and> siblings h p 0 ts \<and> distinct (p # ptrss ts) \<and> set (p # ptrss ts) \<subseteq> set (ptrss us)"
  using assms
proof (induction h par e us rule: siblings.induct)
  case (2 h par e q d' ks us)
  have di: "distinct (ptrss ks)" "distinct (ptrss us)" and ss: "siblings h q 0 ks" "siblings h par e us"
    using "2.prems"(1,3) by auto
  consider "T p d ts = T q d' ks" | "T p d ts \<in> set (concat (map subtrees ks))" | "T p d ts \<in> set (concat (map subtrees us))"
    using "2.prems"(2) by auto
  then show ?case
  proof cases
    case 1
    then show ?thesis using "2.prems"(1,3) by auto
  next
    case 2
    from "2.IH"(1) [OF ss(1) 2 di(1)] show ?thesis by auto
  next
    case 3
    from "2.IH"(2) [OF ss(2) 3 di(2)] show ?thesis by auto
  qed
qed simp

text \<open>The nodes determine the tree.\<close>

lemma siblings_unique:
  "siblings h par 0 us \<Longrightarrow> siblings h par 0 vs \<Longrightarrow> first 0 us = first 0 vs \<Longrightarrow> us = vs"
proof (induction "length (ptrss us)" arbitrary: us vs par rule: less_induct)
  case less
  show ?case
  proof (cases us)
    case Nil
    then show ?thesis using less.prems first_not_0 [of h par vs] by auto
  next
    case (Cons t us')
    obtain q d ks where t: "t = T q d ks" by (cases t)
    have "q \<noteq> 0" using less.prems(1) by (simp add: Cons t)
    then obtain d' ks' vs' where v: "vs = T q d' ks' # vs'" using less.prems(3) by (cases vs; cases "hd vs") (auto simp: Cons t)
    have e: "d' = d" "first 0 ks' = first 0 ks" "first 0 vs' = first 0 us'" using less.prems(1,2) by (auto simp: Cons t v)
    have "ks = ks'" by (rule less.hyps) (use less.prems e in \<open>auto simp: Cons t v\<close>)
    moreover have "us' = vs'" by (rule less.hyps) (use less.prems e in \<open>auto simp: Cons t v\<close>)
    ultimately show ?thesis using e by (simp add: Cons t v)
  qed
qed

lemma subtree_of_ptr: "p \<in> set (ptrs t) \<Longrightarrow> \<exists>d ts. T p d ts \<in> set (subtrees t)"
proof (induction t)
  case (T q d ts)
  then show ?case by (simp add: set_ptrss) blast
qed

lemma tree_node:
  assumes "is_tree h t" and "T p d ts \<in> set (subtrees t)"
  obtains par nx where
    "h p = Some \<lparr>tn_data = d, tn_parent = par, tn_first_child = first 0 ts, tn_next_sibling = nx\<rparr>"
    "siblings h p 0 ts" "distinct (p # ptrss ts)" "set (p # ptrss ts) \<subseteq> set (ptrs t)" "p \<noteq> 0"
  using subtree_at [of h 0 0 "[t]" p d ts] assms by (auto simp: is_tree_def)

section \<open>What the operations do to the children of a node\<close>

abbreviation tnode :: "'a \<Rightarrow> u32 \<Rightarrow> u32 \<Rightarrow> u32 \<Rightarrow> 'a tnode" where
  "tnode d par fc nx \<equiv> \<lparr>tn_data = d, tn_parent = par, tn_first_child = fc, tn_next_sibling = nx\<rparr>"

text \<open>A change of the pointer behind the last of some siblings.\<close>

lemma siblings_relink:
  assumes "siblings h par e (us @ [T l d ks])" and "distinct (ptrss (us @ [T l d ks]))"
    and "h' l = Some (tnode d par (first 0 ks) e')" and "\<forall>q \<in> set (ptrss us) \<union> set (ptrss ks). h' q = h q"
  shows "siblings h' par e' (us @ [T l d ks])"
proof -
  have "siblings h' par l us" by (rule siblings_frame [of _ _ h]) (use assms in auto)
  moreover have "siblings h' l 0 ks" by (rule siblings_frame [of _ _ h]) (use assms in auto)
  ultimately show ?thesis using assms(1,3) by simp
qed

lemma add_child_local:
  assumes "h p = Some (tnode dp par (first 0 ts) nx)" and "siblings h p 0 ts" and "p \<noteq> 0"
    and "h c = Some (tnode d 0 (first 0 us) x)" and "siblings h c 0 us" and "c \<noteq> 0"
    and "distinct (p # ptrss ts @ ptrs (T c d us))"
  shows "\<exists>h'. add_child p c h = Some h' \<and> h' p = Some (tnode dp par (first 0 (ts @ [T c d us])) nx)
    \<and> siblings h' p 0 (ts @ [T c d us]) \<and> (\<forall>q. q \<noteq> p \<longrightarrow> q \<notin> set (ptrss ts) \<union> {c} \<longrightarrow> h' q = h q)"
proof -
  define h2 where "h2 = h(c \<mapsto> tnode d p (first 0 us) 0)"
  have di: "p \<noteq> c" "c \<notin> set (ptrss ts)" "c \<notin> set (ptrss us)" "p \<notin> set (ptrss us)" "p \<notin> set (ptrss ts)"
    "set (ptrss ts) \<inter> set (ptrss us) = {}" "distinct (ptrss ts)"
    using assms(7) by auto
  have start: "add_child p c h = (if first 0 ts = 0 then upd p (\<lambda>n. n\<lparr>tn_first_child := c\<rparr>) h2
      else do { l \<leftarrow> last_sibling (first 0 ts) h2; upd l (\<lambda>n. n\<lparr>tn_next_sibling := c\<rparr>) h2 })"
    using assms(1,3,4,6) di(1) by (simp add: add_child_def upd_def h2_def)
  have s2: "siblings h2 p 0 ts" by (rule siblings_frame [OF _ assms(2)]) (use di in \<open>auto simp: h2_def\<close>)
  show ?thesis
  proof (cases ts rule: rev_cases)
    case Nil
    let ?h = "h2(p \<mapsto> tnode dp par c nx)"
    have "siblings ?h c 0 us" by (rule siblings_frame [OF _ assms(5)]) (use di in \<open>auto simp: h2_def\<close>)
    then show ?thesis using start Nil assms(1,6) di(1) by (auto simp: upd_def h2_def)
  next
    case (snoc us1 t)
    obtain l dl ks where t: "t = T l dl ks" by (cases t)
    have l: "h2 l = Some (tnode dl p (first 0 ks) 0)" using s2 by (simp add: snoc t)
    let ?h = "h2(l \<mapsto> tnode dl p (first 0 ks) c)"
    have "first 0 ts \<noteq> 0" by (rule first_not_0 [OF s2]) (simp add: snoc)
    then have r: "add_child p c h = Some ?h"
      using start last_sibling_end [OF s2 [unfolded snoc]] l by (simp add: snoc t upd_def)
    have lc: "l \<noteq> c" "l \<notin> set (ptrss us)" "l \<noteq> p" using di by (auto simp: snoc t)
    have a: "siblings ?h p c (us1 @ [T l dl ks])"
      by (rule siblings_relink [OF s2 [unfolded snoc t]]) (use di(7) in \<open>auto simp: snoc t\<close>)
    have "siblings ?h c 0 us" by (rule siblings_frame [OF _ assms(5)]) (use di lc in \<open>auto simp: h2_def\<close>)
    then have b: "siblings ?h p 0 [T c d us]" using assms(6) lc by (simp add: h2_def)
    have "siblings ?h p 0 (ts @ [T c d us])" using a b by (simp add: snoc t)
    moreover have "?h p = Some (tnode dp par (first 0 (ts @ [T c d us])) nx)"
      using assms(1) di(1) lc by (cases us1) (simp_all add: h2_def snoc t)
    moreover have "\<forall>q. q \<noteq> p \<longrightarrow> q \<notin> set (ptrss ts) \<union> {c} \<longrightarrow> ?h q = h q" by (simp add: h2_def snoc t)
    ultimately show ?thesis using r by blast
  qed
qed

lemma detach_local:
  assumes "h p = Some (tnode dp par (first 0 (us @ T q d ks # vs)) nx)" and "siblings h p 0 (us @ T q d ks # vs)"
    and "p \<noteq> 0" and "distinct (p # ptrss (us @ T q d ks # vs))"
  shows "\<exists>h'. detach_from_parent q h = Some h' \<and> h' p = Some (tnode dp par (first 0 (us @ vs)) nx)
    \<and> siblings h' p 0 (us @ vs) \<and> h' q = Some (tnode d 0 (first 0 ks) (first 0 vs))
    \<and> (\<forall>r. r \<noteq> p \<longrightarrow> r \<noteq> q \<longrightarrow> r \<notin> set (ptrss us) \<longrightarrow> h' r = h r)"
proof -
  have q: "q \<noteq> 0" "h q = Some (tnode d p (first 0 ks) (first 0 vs))" "siblings h p q us" "siblings h p 0 vs"
    using assms(2) by auto
  have di: "q \<noteq> p" "q \<notin> set (ptrss us)" "q \<notin> set (ptrss vs)" "p \<notin> set (ptrss us)" "p \<notin> set (ptrss vs)"
    "set (ptrss us) \<inter> set (ptrss vs) = {}" "distinct (ptrss us)"
    using assms(4) by auto
  show ?thesis
  proof (cases us rule: rev_cases)
    case Nil
    let ?h = "h(p \<mapsto> tnode dp par (first 0 vs) nx, q \<mapsto> tnode d 0 (first 0 ks) (first 0 vs))"
    have "siblings ?h p 0 vs" by (rule siblings_frame [OF _ q(4)]) (use di in auto)
    moreover have "detach_from_parent q h = Some ?h"
      using assms(1,3) q(1,2) di(1) by (simp add: detach_from_parent_def upd_def Nil)
    ultimately show ?thesis using di(1) by (auto simp: Nil)
  next
    case (snoc us1 t)
    obtain l dl ls where t: "t = T l dl ls" by (cases t)
    have l: "h l = Some (tnode dl p (first 0 ls) q)" "l \<noteq> 0" using q(3) by (simp_all add: snoc t)
    have lq: "l \<noteq> p" "l \<noteq> q" "l \<notin> set (ptrss us1)" using di by (auto simp: snoc t)
    let ?h = "h(l \<mapsto> tnode dl p (first 0 ls) (first 0 vs), q \<mapsto> tnode d 0 (first 0 ks) (first 0 vs))"
    have nq: "q \<notin> set (map root us)" using di(2) by (auto simp: set_ptrss)
    have ne: "us \<noteq> []" by (simp add: snoc)
    then have "first q us \<noteq> q" using nq by (cases us) auto
    then have "detach_from_parent q h = Some ?h"
      using assms(1,3) q(1,2) l lq find_prev_end [OF q(3) ne nq] by (simp add: detach_from_parent_def upd_def snoc t)
    moreover have "siblings ?h p (first 0 vs) (us1 @ [T l dl ls])"
      by (rule siblings_relink [OF q(3) [unfolded snoc t]]) (use di lq in \<open>auto simp: snoc t\<close>)
    moreover have "siblings ?h p 0 vs" by (rule siblings_frame [OF _ q(4)]) (use di in \<open>auto simp: snoc t\<close>)
    ultimately show ?thesis using assms(1) di(1) lq by (auto simp: snoc t)
  qed
qed

lemma unlink_local:
  assumes "h p = Some (tnode dp par (first 0 (us @ T q d ks # vs)) nx)" and "siblings h p 0 (us @ T q d ks # vs)"
    and "p \<noteq> 0" and "distinct (p # ptrss (us @ T q d ks # vs))"
  shows "\<exists>h'. unlink_and_free q h = Some h' \<and> h' p = Some (tnode dp par (first 0 (us @ vs)) nx)
    \<and> siblings h' p 0 (us @ vs) \<and> h' q = None
    \<and> (\<forall>r. r \<noteq> p \<longrightarrow> r \<noteq> q \<longrightarrow> r \<notin> set (ptrss us) \<longrightarrow> h' r = h r)"
proof -
  obtain h' where h': "detach_from_parent q h = Some h'" "h' p = Some (tnode dp par (first 0 (us @ vs)) nx)"
    "siblings h' p 0 (us @ vs)" "h' q = Some (tnode d 0 (first 0 ks) (first 0 vs))"
    "\<forall>r. r \<noteq> p \<longrightarrow> r \<noteq> q \<longrightarrow> r \<notin> set (ptrss us) \<longrightarrow> h' r = h r"
    using detach_local [OF assms] by blast
  have q: "q \<noteq> p" "q \<notin> set (ptrss (us @ vs))" "h q = Some (tnode d p (first 0 ks) (first 0 vs))"
    using assms(2,4) by auto
  have "unlink_and_free q h = Some (h'(q := None))"
    using q(3) assms(3) h'(1,4) by (simp add: unlink_and_free_def upd_def)
  moreover have "siblings (h'(q := None)) p 0 (us @ vs)" by (rule siblings_frame [OF _ h'(3)]) (use q(2) in auto)
  ultimately show ?thesis using h' q(1) by auto
qed

lemma delete_siblings_all:
  assumes "siblings h par 0 us" and "h par = Some (tnode dp pp (first 0 us) nx)" and "par \<noteq> 0" and "distinct (par # ptrss us)"
  shows "\<exists>h'. delete_siblings (first 0 us) h = Some h' \<and> h' par = Some (tnode dp pp 0 nx)
    \<and> (\<forall>r \<in> set (ptrss us). h' r = None) \<and> (\<forall>r. r \<noteq> par \<longrightarrow> r \<notin> set (ptrss us) \<longrightarrow> h' r = h r)"
  using assms
proof (induction "length (ptrss us)" arbitrary: us h par dp pp nx rule: less_induct)
  case less
  show ?case
  proof (cases us)
    case Nil
    then show ?thesis using less.prems by (subst delete_siblings.simps) simp
  next
    case (Cons t vs)
    obtain q d ks where t: "t = T q d ks" by (cases t)
    have q: "q \<noteq> 0" "h q = Some (tnode d par (first 0 ks) (first 0 vs))" "siblings h q 0 ks" "siblings h par 0 vs"
      using less.prems(1) by (auto simp: Cons t)
    have di: "q \<noteq> par" "distinct (q # ptrss ks)" "distinct (par # ptrss vs)" "q \<notin> set (ptrss vs)" "par \<notin> set (ptrss ks)"
      "set (ptrss ks) \<inter> set (ptrss vs) = {}"
      using less.prems(4) by (auto simp: Cons t)
    obtain h1 where h1: "delete_siblings (first 0 ks) h = Some h1" "h1 q = Some (tnode d par 0 (first 0 vs))"
      "\<forall>r \<in> set (ptrss ks). h1 r = None" "\<forall>r. r \<noteq> q \<longrightarrow> r \<notin> set (ptrss ks) \<longrightarrow> h1 r = h r"
      using less.hyps [OF _ q(3,2,1) di(2)] by (auto simp: Cons t)
    have p1: "h1 par = Some (tnode dp pp q nx)" using h1(4) di less.prems(2) by (simp add: Cons t)
    have "siblings h1 par 0 vs" by (rule siblings_frame [OF _ q(4)]) (use h1(4) di in auto)
    then have s1: "siblings h1 par 0 ([] @ T q d [] # vs)" using h1(2) q(1) by simp
    obtain h2 where h2: "unlink_and_free q h1 = Some h2" "h2 par = Some (tnode dp pp (first 0 vs) nx)" "siblings h2 par 0 vs"
      "h2 q = None" "\<forall>r. r \<noteq> par \<longrightarrow> r \<noteq> q \<longrightarrow> h2 r = h1 r"
      using unlink_local [OF _ s1 less.prems(3), of dp pp nx] p1 di by auto
    obtain h3 where h3: "delete_siblings (first 0 vs) h2 = Some h3" "h3 par = Some (tnode dp pp 0 nx)"
      "\<forall>r \<in> set (ptrss vs). h3 r = None" "\<forall>r. r \<noteq> par \<longrightarrow> r \<notin> set (ptrss vs) \<longrightarrow> h3 r = h2 r"
      using less.hyps [OF _ h2(3,2) less.prems(3) di(3)] by (auto simp: Cons t)
    have "delete_siblings (first 0 us) h = Some h3"
      using q h1(1) h2(1) h3(1) by (subst delete_siblings.simps) (simp add: Cons t)
    moreover have "h3 r = None" if "r \<in> set (ptrss us)" for r
    proof (cases "r \<in> set (ptrss vs)")
      case False
      then have "r = q \<or> r \<in> set (ptrss ks)" "r \<noteq> par" using that di by (auto simp: Cons t)
      then show ?thesis using False h3(4) h2(4,5) h1(3) by (cases "r = q") auto
    qed (use h3(3) in blast)
    moreover have "h3 r = h r" if "r \<noteq> par" "r \<notin> set (ptrss us)" for r
      using that h3(4) h2(5) h1(4) by (simp add: Cons t)
    ultimately show ?thesis using h3(2) by blast
  qed
qed

lemma delete_local:
  assumes "h p = Some (tnode dp par (first 0 (us @ T q d ks # vs)) nx)" and "siblings h p 0 (us @ T q d ks # vs)"
    and "p \<noteq> 0" and "distinct (p # ptrss (us @ T q d ks # vs))"
  shows "\<exists>h'. delete_subtree q h = Some h' \<and> h' p = Some (tnode dp par (first 0 (us @ vs)) nx)
    \<and> siblings h' p 0 (us @ vs) \<and> (\<forall>r \<in> set (q # ptrss ks). h' r = None)
    \<and> (\<forall>r. r \<noteq> p \<longrightarrow> r \<notin> set (ptrss us) \<union> set (q # ptrss ks) \<longrightarrow> h' r = h r)"
proof -
  have q: "q \<noteq> 0" "h q = Some (tnode d p (first 0 ks) (first 0 vs))" "siblings h q 0 ks" "siblings h p q us" "siblings h p 0 vs"
    using assms(2) by auto
  have di: "q \<noteq> p" "distinct (q # ptrss ks)" "p \<notin> set (ptrss ks)" "q \<notin> set (ptrss us)" "q \<notin> set (ptrss vs)"
    "set (ptrss ks) \<inter> set (ptrss us) = {}" "set (ptrss ks) \<inter> set (ptrss vs) = {}"
    using assms(4) by auto
  obtain h1 where h1: "delete_siblings (first 0 ks) h = Some h1" "h1 q = Some (tnode d p 0 (first 0 vs))"
    "\<forall>r \<in> set (ptrss ks). h1 r = None" "\<forall>r. r \<noteq> q \<longrightarrow> r \<notin> set (ptrss ks) \<longrightarrow> h1 r = h r"
    using delete_siblings_all [OF q(3,2,1) di(2)] by auto
  have "siblings h1 p q us" by (rule siblings_frame [OF _ q(4)]) (use h1(4) di in auto)
  moreover have "siblings h1 p 0 vs" by (rule siblings_frame [OF _ q(5)]) (use h1(4) di in auto)
  ultimately have s1: "siblings h1 p 0 (us @ T q d [] # vs)" using h1(2) q(1) by simp
  have p1: "h1 p = Some (tnode dp par (first 0 (us @ T q d [] # vs)) nx)" using h1(4) di(1,3) assms(1) by simp
  have d1: "distinct (p # ptrss (us @ T q d [] # vs))" using assms(4) by auto
  obtain h2 where h2: "unlink_and_free q h1 = Some h2" "h2 p = Some (tnode dp par (first 0 (us @ vs)) nx)"
    "siblings h2 p 0 (us @ vs)" "h2 q = None" "\<forall>r. r \<noteq> p \<longrightarrow> r \<noteq> q \<longrightarrow> r \<notin> set (ptrss us) \<longrightarrow> h2 r = h1 r"
    using unlink_local [OF p1 s1 assms(3) d1] by blast
  have "delete_subtree q h = Some h2" using q(1,2) h1(1) h2(1) by (simp add: delete_subtree_def)
  moreover have "\<forall>r \<in> set (q # ptrss ks). h2 r = None" using h2(4,5) h1(3) di by auto
  moreover have "\<forall>r. r \<noteq> p \<longrightarrow> r \<notin> set (ptrss us) \<union> set (q # ptrss ks) \<longrightarrow> h2 r = h r" using h2(5) h1(4) by auto
  ultimately show ?thesis using h2(2,3) by blast
qed

section \<open>What they do to a tree\<close>

lemma rewires_from_local:
  assumes "\<And>d par nx ts. h p = Some (tnode d par (first 0 ts) nx) \<Longrightarrow> siblings h p 0 ts \<Longrightarrow> distinct (p # ptrss ts) \<Longrightarrow>
     X \<inter> set (p # ptrss ts) = {} \<Longrightarrow> \<exists>h'. r = Some h' \<and> h' p = Some (tnode d par (first 0 (f ts)) nx)
       \<and> siblings h' p 0 (f ts) \<and> distinct (ptrss (f ts)) \<and> set (ptrss (f ts)) \<subseteq> set (ptrss ts) \<union> X
       \<and> (\<forall>q. q \<noteq> p \<longrightarrow> q \<notin> set (ptrss ts) \<union> X \<longrightarrow> h' q = h q)"
    and "r = Some h'"
  shows "rewires h h' p f X"
  unfolding rewires_def
proof (intro allI impI)
  fix d par nx ts
  assume "h p = Some (tnode d par (first 0 ts) nx)" "siblings h p 0 ts" "distinct (p # ptrss ts)" "X \<inter> set (p # ptrss ts) = {}"
  from assms(1) [OF this] assms(2) show "h' p = Some (tnode d par (first 0 (f ts)) nx)
       \<and> siblings h' p 0 (f ts) \<and> distinct (ptrss (f ts)) \<and> set (ptrss (f ts)) \<subseteq> set (ptrss ts) \<union> X
       \<and> (\<forall>q. q \<noteq> p \<longrightarrow> q \<notin> set (ptrss ts) \<union> X \<longrightarrow> h' q = h q)" by simp
qed

lemma add_child_tree:
  assumes "is_tree h t" and "p \<in> set (ptrs t)" and "h c = Some (tnode d 0 (first 0 us) x)" and "siblings h c 0 us" and "c \<noteq> 0"
    and "distinct (ptrs (T c d us))" and "set (ptrs (T c d us)) \<inter> set (ptrs t) = {}"
  shows "\<exists>h'. add_child p c h = Some h' \<and> is_tree h' (graft p (\<lambda>ts. ts @ [T c d us]) t)
    \<and> (\<forall>q. q \<notin> set (ptrs t) \<union> set (ptrs (T c d us)) \<longrightarrow> h' q = h q)"
proof -
  let ?X = "set (ptrs (T c d us))" and ?f = "\<lambda>ts. ts @ [T c d us]"
  obtain dp0 ts0 where "T p dp0 ts0 \<in> set (subtrees t)" using subtree_of_ptr [OF assms(2)] by blast
  then obtain par0 nx0 where n: "h p = Some (tnode dp0 par0 (first 0 ts0) nx0)" "siblings h p 0 ts0" "distinct (p # ptrss ts0)"
    "set (p # ptrss ts0) \<subseteq> set (ptrs t)" and p: "p \<noteq> 0"
    by (rule tree_node [OF assms(1)])
  have loc: "\<exists>h'. add_child p c h = Some h' \<and> h' p = Some (tnode dp par (first 0 (?f ts)) nx)
       \<and> siblings h' p 0 (?f ts) \<and> distinct (ptrss (?f ts)) \<and> set (ptrss (?f ts)) \<subseteq> set (ptrss ts) \<union> ?X
       \<and> (\<forall>q. q \<noteq> p \<longrightarrow> q \<notin> set (ptrss ts) \<union> ?X \<longrightarrow> h' q = h q)"
    if "h p = Some (tnode dp par (first 0 ts) nx)" "siblings h p 0 ts" "distinct (p # ptrss ts)" "?X \<inter> set (p # ptrss ts) = {}" for dp par nx ts
  proof -
    note th = that(1,2)
    have di: "distinct (p # ptrss ts @ ptrs (T c d us))" using that(3,4) assms(6) by auto
    obtain h' where "add_child p c h = Some h'" "h' p = Some (tnode dp par (first 0 (?f ts)) nx)" "siblings h' p 0 (?f ts)"
      "\<forall>q. q \<noteq> p \<longrightarrow> q \<notin> set (ptrss ts) \<union> {c} \<longrightarrow> h' q = h q"
      using add_child_local [OF th p assms(3-5) di] by blast
    then show ?thesis using di by auto
  qed
  have "?X \<inter> set (p # ptrss ts0) = {}" using n(4) assms(7) by auto
  then obtain h' where h': "add_child p c h = Some h'" using loc [OF n(1-3)] by blast
  have rw: "rewires h h' p ?f ?X" by (rule rewires_from_local [OF loc h'])
  show ?thesis using graft_tree [OF assms(1,2) rw assms(7)] h' by blast
qed

text \<open>Without the child \<open>q\<close>.\<close>

definition without :: "u32 \<Rightarrow> 'a rtree list \<Rightarrow> 'a rtree list" where
  "without q ts = filter (\<lambda>t. root t \<noteq> q) ts"

lemma without_split:
  assumes "distinct (ptrss (us @ T q d ks # vs))"
  shows "without q (us @ T q d ks # vs) = us @ vs"
proof -
  have "root t \<noteq> q" if "t \<in> set us \<union> set vs" for t
    using that assms by (auto simp: set_ptrss)
  then show ?thesis by (auto simp: without_def filter_id_conv)
qed

lemma delete_subtree_tree:
  assumes "is_tree h t" and "T p d ts \<in> set (subtrees t)" and "u \<in> set ts"
  shows "\<exists>h'. delete_subtree (root u) h = Some h' \<and> is_tree h' (graft p (without (root u)) t)
    \<and> (\<forall>r \<in> set (ptrs u). h' r = None) \<and> (\<forall>r. r \<notin> set (ptrs t) \<longrightarrow> h' r = h r)"
proof -
  obtain q dq ks where u: "u = T q dq ks" by (cases u)
  obtain par nx where n: "h p = Some (tnode d par (first 0 ts) nx)" "siblings h p 0 ts" "distinct (p # ptrss ts)"
    "set (p # ptrss ts) \<subseteq> set (ptrs t)" and p: "p \<noteq> 0"
    by (rule tree_node [OF assms(1,2)])
  obtain us vs where ts: "ts = us @ T q dq ks # vs" using split_list [OF assms(3)] by (auto simp: u)
  obtain h' where h': "delete_subtree q h = Some h'" "h' p = Some (tnode d par (first 0 (us @ vs)) nx)"
    "siblings h' p 0 (us @ vs)" "\<forall>r \<in> set (q # ptrss ks). h' r = None"
    "\<forall>r. r \<noteq> p \<longrightarrow> r \<notin> set (ptrss us) \<union> set (q # ptrss ks) \<longrightarrow> h' r = h r"
    using delete_local [OF n(1,2) [unfolded ts] p n(3) [unfolded ts]] by blast
  have same: "d' = d \<and> par' = par \<and> nx' = nx \<and> ts' = ts"
    if "h p = Some (tnode d' par' (first 0 ts') nx')" "siblings h p 0 ts'" for d' par' nx' ts'
    using that n(1,2) siblings_unique [of h p ts' ts] by simp
  have w: "without q ts = us @ vs" using without_split [of us q dq ks vs] n(3) by (simp add: ts)
  have rw: "rewires h h' p (without q) {}"
    unfolding rewires_def
  proof (intro allI impI)
    fix d' par' nx' ts'
    assume "h p = Some (tnode d' par' (first 0 ts') nx')" "siblings h p 0 ts'"
    then have e: "d' = d" "par' = par" "nx' = nx" "ts' = ts" using same by blast+
    show "h' p = Some (tnode d' par' (first 0 (without q ts')) nx') \<and> siblings h' p 0 (without q ts')
       \<and> distinct (ptrss (without q ts')) \<and> set (ptrss (without q ts')) \<subseteq> set (ptrss ts') \<union> {}
       \<and> (\<forall>q. q \<noteq> p \<longrightarrow> q \<notin> set (ptrss ts') \<union> {} \<longrightarrow> h' q = h q)"
      unfolding e w using h' n(3) by (auto simp: ts)
  qed
  have pt: "p \<in> set (ptrs t)" using n(4) by simp
  show ?thesis using graft_tree [OF assms(1) pt rw] h'(1,4) by (auto simp: u)
qed

section \<open>The operations on a tree\<close>

lemma add_child_grafts:
  assumes "is_tree h t" and "T p d ts \<in> set (subtrees t)" and "a \<noteq> 0" and "h a = None"
  shows "\<exists>h'. add_child p a (snd (create a v h)) = Some h' \<and> is_tree h' (graft p (\<lambda>ts. ts @ [T a v []]) t)"
proof -
  obtain par nx where n: "set (p # ptrss ts) \<subseteq> set (ptrs t)"
    by (rule tree_node [OF assms(1,2)])
  have at: "a \<notin> set (ptrs t)" using siblings_ptrs [of h 0 0 "[t]" a] assms(1,4) by (auto simp: is_tree_def)
  have "siblings (h(a \<mapsto> tnode v 0 0 0)) 0 0 [t]"
    by (rule siblings_frame [of _ _ h]) (use at assms(1) in \<open>auto simp: is_tree_def\<close>)
  then have "is_tree (h(a \<mapsto> tnode v 0 0 0)) t" using assms(1) by (simp add: is_tree_def)
  then show ?thesis
    using add_child_tree [of "h(a \<mapsto> tnode v 0 0 0)" t p a v "[]" 0] n at assms(3) by (auto simp: create_def)
qed

text \<open>
  C12: for a node \<open>p\<close> with the children \<open>ts\<close> somewhere in a well-linked tree \<open>t\<close>.  The children are
  read in order, the search gives the first one whose value satisfies the predicate or null, and
  the traversal visits every node before its children, with its depth.  A new node that becomes a
  child of \<open>p\<close> is its last child, in a tree that is well linked again.  Deleting the subtree of a
  child takes exactly that child out, frees every node of it, and changes no node outside the
  tree.
\<close>

theorem tree_operations:
  assumes "is_tree h t" and "T p d ts \<in> set (subtrees t)"
  shows "get_children p h = Some (map val ts)
    \<and> find_child_by_predicate p P h = Some (case find (\<lambda>u. P (val u)) ts of None \<Rightarrow> 0 | Some u \<Rightarrow> root u)
    \<and> find_children_by_predicate p P h
      = Some (map root (filter (\<lambda>u. P (val u)) ts), length (filter (\<lambda>u. P (val u)) ts))
    \<and> traverse (root t) k h = Some (preorder k t)
    \<and> (a \<noteq> 0 \<and> h a = None \<longrightarrow> (\<exists>h'. add_child p a (snd (create a v h)) = Some h'
        \<and> is_tree h' (graft p (\<lambda>ts. ts @ [T a v []]) t)))
    \<and> (\<forall>u \<in> set ts. \<exists>h'. delete_subtree (root u) h = Some h' \<and> is_tree h' (graft p (without (root u)) t)
        \<and> (\<forall>r \<in> set (ptrs u). h' r = None) \<and> (\<forall>r. r \<notin> set (ptrs t) \<longrightarrow> h' r = h r))"
proof -
  obtain par nx where n: "h p = Some (tnode d par (first 0 ts) nx)" "siblings h p 0 ts"
    "set (p # ptrss ts) \<subseteq> set (ptrs t)" and p: "p \<noteq> 0"
    by (rule tree_node [OF assms])
  have tr: "traverse (root t) k h = Some (preorder k t)"
    using assms(1) traverse_siblings_preorder [of h "root t" 0 "kids t" "k + 1"]
    by (cases t) (simp add: is_tree_def traverse_def)
  show ?thesis
    using n p tr add_child_grafts [OF assms, of a v] children_loop_kids [OF n(2)] find_loop_kids [OF n(2), of P] find_all_loop_kids [OF n(2), of P]
      delete_subtree_tree [OF assms]
    by (simp add: get_children_def find_child_by_predicate_def find_children_by_predicate_def del: Set.bex_simps)
qed

definition demo_heap :: "nat theap" where
  "demo_heap = [1 \<mapsto> \<lparr>tn_data = 7, tn_parent = 0, tn_first_child = 2, tn_next_sibling = 0\<rparr>,
    2 \<mapsto> \<lparr>tn_data = 8, tn_parent = 1, tn_first_child = 0, tn_next_sibling = 3\<rparr>,
    3 \<mapsto> \<lparr>tn_data = 9, tn_parent = 1, tn_first_child = 0, tn_next_sibling = 0\<rparr>]"

theorem tree_operations_witness:
  "find_child_by_predicate 1 (\<lambda>x. x = 9) demo_heap = Some 3 \<and> traverse 1 0 demo_heap = Some [(1, 0), (2, 1), (3, 1)]
    \<and> (\<exists>h'. delete_subtree 2 demo_heap = Some h' \<and> is_tree h' (T 1 7 [T 3 9 []]))"
proof -
  have t: "is_tree demo_heap (T 1 7 [T 2 8 [], T 3 9 []])" by (simp add: is_tree_def demo_heap_def)
  show ?thesis
    using tree_operations [OF t, of 1 7 "[T 2 8 [], T 3 9 []]" "\<lambda>x. x = 9" 0 0 0] by (auto simp: without_def)
qed

end
