(* ===== verification/Vfs.thy ===== *)
theory Vfs
  imports DataTree DataString
begin

text \<open>
  The virtual file system of \<open>src/kernel/fs/ext/vfs.cpp\<close>: a tree of nodes with names and paths, the
  search for a path and the nodes a mount or a directory listing adds.  Inodes and file systems are
  pointers, 0 for null; \<open>mode_of\<close> is the field \<open>type_and_perm\<close> of the inode at a pointer.  The
  strings of the nodes in the tree are never null.  \<open>None\<close> is an access through a null pointer or
  to a node that does not exist.
\<close>

section \<open>State and operations\<close>

record vfsNode =
  vn_name :: dstring
  vn_path :: dstring
  vn_is_dir :: bool
  vn_inode_num :: u32
  vn_inode :: u32
  vn_fs :: u32

record vfs =
  vfs_tree :: "vfsNode tree"
  currentDir :: dstring
  currUid :: u32
  currGid :: u32
  device_name_index :: nat
  ide_device_name_index :: nat

definition EXT2_ROOT_INO :: u32 where "EXT2_ROOT_INO = 2"
definition EXT2_BAD_INO :: u32 where "EXT2_BAD_INO = 1"

definition device_names :: "string list" where
  "device_names = map (\<lambda>c. [CHR ''s'', CHR ''d'', c])
     [CHR ''a'', CHR ''b'', CHR ''c'', CHR ''d'', CHR ''e'', CHR ''f'', CHR ''g'', CHR ''h'', CHR ''i'', CHR ''j'',
      CHR ''k'', CHR ''l'', CHR ''m'', CHR ''n'', CHR ''o'', CHR ''p'', CHR ''q'', CHR ''r'', CHR ''s'', CHR ''t'',
      CHR ''u'', CHR ''v'', CHR ''w'', CHR ''x'', CHR ''y'', CHR ''z'']"

definition ide_device_names :: "string list" where
  "ide_device_names = [''hda'', ''hdb'', ''hdc'', ''hdd'']"

definition inode_is_dir :: "u16 \<Rightarrow> bool" where
  "inode_is_dir mode \<longleftrightarrow> mode AND 0xF000 = 0x4000"

definition is_true :: "bool option \<Rightarrow> bool" where
  "is_true b \<longleftrightarrow> b = Some True"

text \<open>A node is what \<open>print_node\<close> prints for it; \<open>None\<close> when the current directory has never been set.\<close>

definition print_node :: "dstring \<Rightarrow> vfsNode \<Rightarrow> int \<Rightarrow> string option" where
  "print_node cur node depth =
     do { here \<leftarrow> string_eq (vn_path node) cur;
          Some (replicate (nat depth) CHR '' '' @ cstr (chars (vn_name node)) @ (if here then '' <==='' else []) @ [CHR 0x0A]) }"

fun print_nodes :: "dstring \<Rightarrow> vfsNode theap \<Rightarrow> (u32 \<times> int) list \<Rightarrow> string option" where
  "print_nodes cur h [] = Some []"
| "print_nodes cur h ((p, k) # ps) =
     do { n \<leftarrow> h p; line \<leftarrow> print_node cur (tn_data n) k; rest \<leftarrow> print_nodes cur h ps; Some (line @ rest) }"

definition print_tree :: "vfs \<Rightarrow> string option" where
  "print_tree s =
     do { ps \<leftarrow> traverse (t_root (vfs_tree s)) 0 (t_heap (vfs_tree s));
          print_nodes (currentDir s) (t_heap (vfs_tree s)) ps }"

text \<open>
  \<open>init\<close> with the inode of the root directory and the file system, both 0 in the variant without
  a file system; \<open>a\<close> is the address of the new node.
\<close>

definition vfs_init :: "u32 \<Rightarrow> u32 \<Rightarrow> u32 \<Rightarrow> vfs \<Rightarrow> (u32 \<times> vfs) option" where
  "vfs_init a root_inode fs s =
     (let (node, h) = create a \<lparr>vn_name = string_of_cstr ''/'', vn_path = string_of_cstr ''/'', vn_is_dir = True,
            vn_inode_num = EXT2_ROOT_INO, vn_inode = root_inode, vn_fs = fs\<rparr> (t_heap (vfs_tree s))
      in do { t \<leftarrow> set_root node ((vfs_tree s)\<lparr>t_heap := h\<rparr>); Some (node, s\<lparr>vfs_tree := t\<rparr>) })"

text \<open>The node that \<open>add_node\<close> creates with \<open>kcalloc\<close> giving \<open>a\<close>, and its place below the parent.\<close>

definition hang :: "u32 \<Rightarrow> u32 \<Rightarrow> vfsNode \<Rightarrow> vfsNode theap \<Rightarrow> (vfsNode option \<times> vfsNode theap) option" where
  "hang a parent v h =
     (let (node, h1) = create a v h
      in do { h2 \<leftarrow> add_child parent node h1; n \<leftarrow> h2 node; Some (Some (tn_data n), h2) })"

definition node_path :: "dstring \<Rightarrow> dstring \<Rightarrow> bool \<Rightarrow> dstring" where
  "node_path parent_path name slash =
     (let p = string_append_string (string_copy parent_path) name
      in if slash then string_append p (Some ''/'') else p)"

text \<open>\<open>add_node\<close>; the first component of the result is \<open>None\<close> for the default node it returns when it adds nothing.\<close>

definition add_node :: "(u32 \<Rightarrow> u16) \<Rightarrow> u32 \<Rightarrow> u32 \<Rightarrow> dstring \<Rightarrow> u32 \<Rightarrow> u32 \<Rightarrow> u32 \<Rightarrow> vfsNode theap
    \<Rightarrow> (vfsNode option \<times> vfsNode theap) option" where
  "add_node mode_of a parent name inode_num inode fs h =
     (if string_empty name \<or> parent = 0 then Some (None, h)
      else do {
        pn \<leftarrow> h parent;
        if \<not> vn_is_dir (tn_data pn) then Some (None, h)
        else
          let path = node_path (vn_path (tn_data pn)) name (inode = 0 \<or> inode_is_dir (mode_of inode)) in
          if inode = 0 \<or> fs = 0
          then hang a parent \<lparr>vn_name = string_copy name, vn_path = string_copy path, vn_is_dir = True,
                 vn_inode_num = EXT2_BAD_INO, vn_inode = 0, vn_fs = 0\<rparr> h
          else do {
            child \<leftarrow> find_child_by_predicate parent (\<lambda>n. is_true (string_eq (vn_path n) path)) h;
            c \<leftarrow> (if child = 0 then Some None else map_option Some (h child));
            (case c of
               Some cn \<Rightarrow>
                 if vn_is_dir (tn_data cn) = inode_is_dir (mode_of inode)
                 then let d = tn_data cn;
                          d1 = (if vn_inode d = 0 then d\<lparr>vn_inode := inode\<rparr> else d);
                          d2 = (if vn_fs d1 = 0 then d1\<lparr>vn_fs := fs\<rparr> else d1)
                      in Some (Some d2, h(child \<mapsto> cn\<lparr>tn_data := d2\<rparr>))
                 else hang a parent \<lparr>vn_name = string_copy name, vn_path = string_copy path,
                        vn_is_dir = inode_is_dir (mode_of inode), vn_inode_num = inode_num, vn_inode = inode, vn_fs = fs\<rparr> h
             | None \<Rightarrow> hang a parent \<lparr>vn_name = string_copy name, vn_path = string_copy path,
                        vn_is_dir = inode_is_dir (mode_of inode), vn_inode_num = inode_num, vn_inode = inode, vn_fs = fs\<rparr> h) } })"

definition add_vfs_node :: "(u32 \<Rightarrow> u16) \<Rightarrow> u32 \<Rightarrow> u32 \<Rightarrow> vfsNode \<Rightarrow> vfsNode theap \<Rightarrow> (vfsNode option \<times> vfsNode theap) option" where
  "add_vfs_node mode_of a parent node h = add_node mode_of a parent (vn_name node) (vn_inode_num node) (vn_inode node) (vn_fs node) h"

text \<open>The walk from a node along the tokens, one child search each.\<close>

fun walk :: "dstring list \<Rightarrow> u32 \<Rightarrow> vfsNode theap \<Rightarrow> u32 option" where
  "walk [] cur h = Some cur"
| "walk (tok # toks) cur h =
     do { child \<leftarrow> find_child_by_predicate cur (\<lambda>n. is_true (string_eq (vn_name n) tok)) h;
          if child = 0 then Some 0 else walk toks child h }"

definition get_node :: "vfsNode tree \<Rightarrow> dstring \<Rightarrow> u32 option" where
  "get_node t path =
     (if string_empty path then Some 0
      else case split_path_tokens path of
        None \<Rightarrow> Some 0
      | Some tokens \<Rightarrow>
          (if \<not> is_true (string_equals (hd tokens) (Some ''/'')) then Some 0
           else walk (tl tokens) (get_root t) (t_heap t)))"

definition find_inode :: "vfsNode tree \<Rightarrow> dstring \<Rightarrow> u32 option" where
  "find_inode t path =
     (if string_empty path then Some 0
      else case split_path_tokens path of
        None \<Rightarrow> Some 0
      | Some tokens \<Rightarrow>
          (if \<not> is_true (string_equals (hd tokens) (Some ''/'')) then Some 0
           else if get_root t = 0 then Some 0
           else do {
             cur \<leftarrow> walk (tl tokens) (get_root t) (t_heap t);
             if cur = 0 then Some 0
             else do { n \<leftarrow> t_heap t cur; Some (vn_inode (tn_data n)) } }))"

definition mount_dev :: "(u32 \<Rightarrow> u16) \<Rightarrow> u32 \<Rightarrow> dstring \<Rightarrow> u32 \<Rightarrow> u32 \<Rightarrow> vfs \<Rightarrow> vfs option" where
  "mount_dev mode_of a name root_inode fs s =
     do {
       mnt \<leftarrow> get_node (vfs_tree s) (string_of_cstr ''/mnt/'');
       mnt1 \<leftarrow> (if mnt = 0 then get_node (vfs_tree s) (string_of_cstr ''/'') else Some mnt);
       if mnt1 = 0 then Some s
       else do {
         r \<leftarrow> add_node mode_of a mnt1 name EXT2_ROOT_INO root_inode fs (t_heap (vfs_tree s));
         Some (s\<lparr>vfs_tree := (vfs_tree s)\<lparr>t_heap := snd r\<rparr>\<rparr>) } }"

section \<open>Lookup in the tree of nodes\<close>

definition name_of :: "vfsNode rtree \<Rightarrow> string" where
  "name_of u = chars (vn_name (val u))"

fun lookup :: "string list \<Rightarrow> vfsNode rtree \<Rightarrow> vfsNode rtree option" where
  "lookup [] t = Some t"
| "lookup (n # ns) t = (case find (\<lambda>u. name_of u = n) (kids t) of None \<Rightarrow> None | Some u \<Rightarrow> lookup ns u)"

text \<open>Names that are not null, without NULs.\<close>

fun named :: "vfsNode rtree \<Rightarrow> bool" where
  "named (T p d ts) \<longleftrightarrow> d_data (vn_name d) \<noteq> None \<and> string_ok (vn_name d) \<and> (\<forall>t \<in> set ts. named t)"

lemma named_node: "named u \<Longrightarrow> d_data (vn_name (val u)) \<noteq> None \<and> string_ok (vn_name (val u))"
  by (cases u) simp

definition tok :: "string \<Rightarrow> dstring" where
  "tok t = \<lparr>d_data = Some t, d_len = of_nat (length t)\<rparr>"

lemma eq_tok:
  "d_data s \<noteq> None \<Longrightarrow> string_ok s \<Longrightarrow> NUL \<notin> set t \<Longrightarrow> is_true (string_eq s (tok t)) \<longleftrightarrow> chars s = t"
  by (auto simp: is_true_def string_eq_def string_equals_def tok_def strcmp_eq_0 chars_def string_ok_def)

lemma find_cong: "(\<And>x. x \<in> set xs \<Longrightarrow> P x = Q x) \<Longrightarrow> find P xs = find Q xs"
  by (induction xs) auto

lemma find_in_set: "find P xs = Some x \<Longrightarrow> x \<in> set xs"
  by (induction xs) (auto split: if_splits)

lemma walk_lookup:
  assumes "h (root t) = Some (tnode (val t) par (first 0 (kids t)) nx)" and "root t \<noteq> 0"
    and "siblings h (root t) 0 (kids t)" and "named t" and "\<forall>n \<in> set ns. NUL \<notin> set n"
  shows "walk (map tok ns) (root t) h = Some (case lookup ns t of None \<Rightarrow> 0 | Some u \<Rightarrow> root u)"
  using assms
proof (induction ns arbitrary: t par nx)
  case (Cons n ns)
  have k: "\<forall>u \<in> set (kids t). named u" using Cons.prems(4) by (cases t) simp
  have "find (\<lambda>u. is_true (string_eq (vn_name (val u)) (tok n))) (kids t) = find (\<lambda>u. name_of u = n) (kids t)"
    using k Cons.prems(5) by (intro find_cong) (simp add: eq_tok named_node name_of_def)
  then have f: "find_child_by_predicate (root t) (\<lambda>m. is_true (string_eq (vn_name m) (tok n))) h
      = Some (case find (\<lambda>u. name_of u = n) (kids t) of None \<Rightarrow> 0 | Some u \<Rightarrow> root u)"
    using Cons.prems(1,2) find_loop_kids [OF Cons.prems(3)] by (simp add: find_child_by_predicate_def)
  show ?case
  proof (cases "find (\<lambda>u. name_of u = n) (kids t)")
    case (Some u)
    obtain us vs where "kids t = us @ u # vs" using split_list [OF find_in_set [OF Some]] by auto
    then have s: "siblings h (root t) (first 0 vs) [u]" using Cons.prems(3) by (cases u) auto
    have "walk (map tok ns) (root u) h = Some (case lookup ns u of None \<Rightarrow> 0 | Some w \<Rightarrow> root w)"
      by (rule Cons.IH [of u "root t" "first 0 vs"]) (use s k find_in_set [OF Some] Cons.prems(5) in \<open>cases u; auto\<close>)+
    then show ?thesis using f Some s by (cases u) simp
  qed (use f in simp)
qed simp

lemma parts_no_nul: "NUL \<notin> set s \<Longrightarrow> n \<in> set (parts sep s) \<Longrightarrow> NUL \<notin> set n"
proof (induction sep s arbitrary: n rule: split_on.induct)
  case (2 sep c cs)
  have "n \<in> set (split_on sep s) \<Longrightarrow> set n \<subseteq> set s" for n s
  proof (induction s arbitrary: n)
    case (Cons a s)
    have "split_on sep s \<noteq> []" by (subst split_on_span) simp
    then have "hd (split_on sep s) \<in> set (split_on sep s)" "set (tl (split_on sep s)) \<subseteq> set (split_on sep s)"
      by (auto dest: list.set_sel(2))
    then show ?case using Cons by (fastforce split: if_splits)
  qed simp
  from this [of n "c # cs"] show ?case using 2 by (auto simp: parts_def)
qed simp

lemma path_tokens:
  assumes "string_ok path" and "chars path = CHR ''/'' # s"
  shows "split_path_tokens path = Some (tok ''/'' # map tok (take 15 (parts (CHR ''/'') s)))"
proof -
  have l: "d_len path \<noteq> 0" "length (chars path) = unat (d_len path)" using assms by (auto simp: string_ok_def)
  then have c: "(case d_data path of None \<Rightarrow> [] | Some c \<Rightarrow> take (unat (d_len path)) c) = CHR ''/'' # s"
    using assms(2) by (simp add: chars_def split: option.splits)
  show ?thesis
    using l c by (simp add: split_path_tokens_def string_empty_def path_loop_parts max_tokens_def tok_def Let_def)
qed

lemma get_node_eq:
  assumes "is_tree (t_heap v) t" and "t_root v = root t" and "named t" and "string_ok path" and "chars path = CHR ''/'' # s"
  shows "get_node v path = Some (case lookup (take 15 (parts (CHR ''/'') s)) t of None \<Rightarrow> 0 | Some u \<Rightarrow> root u)"
proof -
  obtain p d ts where t: "t = T p d ts" by (cases t)
  have n: "t_heap v p = Some (tnode d 0 (first 0 ts) 0)" "p \<noteq> 0" "siblings (t_heap v) p 0 ts"
    using assms(1) by (auto simp: is_tree_def t)
  have nul: "\<forall>n \<in> set (take 15 (parts (CHR ''/'') s)). NUL \<notin> set n"
    using parts_no_nul [of s _ "CHR ''/''"] assms(4,5) by (auto simp: string_ok_def dest: in_set_takeD)
  have "string_empty path = False" using assms(4,5) by (auto simp: string_ok_def string_empty_def)
  moreover have "is_true (string_equals (tok ''/'') (Some ''/''))"
    by (simp add: is_true_def string_equals_def tok_def)
  ultimately show ?thesis
    using walk_lookup [of "t_heap v" t 0 0 "take 15 (parts (CHR ''/'') s)"] n nul assms(2,3) path_tokens [OF assms(4,5)]
    by (simp add: get_node_def get_root_def t)
qed

section \<open>Paths of the nodes\<close>

abbreviation slash :: char where
  "slash \<equiv> CHR ''/''"

text \<open>
  The names from the root to a node are the parts of its path; a directory's path ends with a slash,
  and only directories have children.
\<close>

definition dir_path :: "string \<Rightarrow> bool" where
  "dir_path c \<longleftrightarrow> (\<exists>s. c = s @ [slash])"

definition path_ok :: "string list \<Rightarrow> vfsNode \<Rightarrow> bool" where
  "path_ok ns d \<longleftrightarrow> string_ok (vn_path d) \<and> d_data (vn_path d) \<noteq> None \<and> (\<exists>s. chars (vn_path d) = slash # s)
     \<and> parts slash (chars (vn_path d)) = ns \<and> (vn_is_dir d \<longrightarrow> dir_path (chars (vn_path d)))"

fun pathed :: "string list \<Rightarrow> vfsNode rtree \<Rightarrow> bool" where
  "pathed ns (T p d ts) \<longleftrightarrow> path_ok ns d \<and> (ts \<noteq> [] \<longrightarrow> vn_is_dir d) \<and> (\<forall>t \<in> set ts. pathed (ns @ [name_of t]) t)"

lemma pathed_node: "pathed ns u \<Longrightarrow> path_ok ns (val u)"
  by (cases u) simp

definition vfs_ok :: "vfsNode tree \<Rightarrow> vfsNode rtree \<Rightarrow> bool" where
  "vfs_ok v t \<longleftrightarrow> is_tree (t_heap v) t \<and> t_root v = root t \<and> named t \<and> pathed [] t"

lemma split_on_append: "split_on sep (s @ sep # r) = split_on sep s @ split_on sep r"
proof (induction s)
  case (Cons c cs)
  have "split_on sep cs \<noteq> []" by (subst split_on_span) simp
  then show ?case using Cons by simp
qed simp

lemma parts_append: "parts sep (s @ sep # r) = parts sep s @ parts sep r"
  by (simp add: parts_def split_on_append)

lemma parts_name: "c \<noteq> [] \<Longrightarrow> sep \<notin> set c \<Longrightarrow> parts sep c = [c]"
proof -
  assume c: "c \<noteq> []" "sep \<notin> set c"
  then have "takeWhile (\<lambda>x. x \<noteq> sep) c = c" "dropWhile (\<lambda>x. x \<noteq> sep) c = []"
    by (auto simp: takeWhile_eq_all_conv)
  then have "split_on sep c = [c]" by (subst split_on_span) (simp only: list.case)
  then show ?thesis using c(1) by (simp add: parts_def)
qed

lemma node_path_chars:
  assumes "string_ok pp" and "string_ok name" and "length (chars pp) + length (chars name) + 1 < 2 ^ 32"
  shows "string_ok (node_path pp name b) \<and> d_data (node_path pp name b) \<noteq> None
    \<and> chars (node_path pp name b) = chars pp @ chars name @ (if b then [slash] else [])"
proof -
  let ?p = "string_append_string (string_copy pp) name"
  have pc: "string_ok (string_copy pp) \<and> chars (string_copy pp) = chars pp"
    using assms(1) by (auto simp: string_copy_def string_ok_def chars_def split: option.splits)
  have p: "string_ok ?p \<and> chars ?p = chars pp @ chars name \<and> d_data ?p \<noteq> None"
  proof (cases "d_data name")
    case (Some b)
    have "d_data (string_append (string_copy pp) (Some b)) \<noteq> None" by (simp add: string_append_def string_copy_def)
    moreover have b: "chars name = b" by (simp add: Some chars_def)
    moreover have "string_ok (string_append (string_copy pp) (Some b))
        \<and> chars (string_append (string_copy pp) (Some b)) = chars (string_copy pp) @ b"
      by (rule append_ok) (use pc b assms(2,3) in \<open>auto simp: string_ok_def\<close>)
    ultimately show ?thesis using pc by (simp add: string_append_string_def Some)
  next
    case None
    then have "chars name = []" by (simp add: chars_def)
    moreover have "d_data (string_copy pp) \<noteq> None" by (simp add: string_copy_def)
    ultimately show ?thesis using pc None by (simp add: string_append_string_def string_append_def)
  qed
  moreover have "string_ok (string_append ?p (Some [slash])) \<and> chars (string_append ?p (Some [slash])) = chars ?p @ [slash]"
    using p assms(3) by (intro append_ok) auto
  moreover have "d_data (string_append ?p (Some [slash])) \<noteq> None" by (simp add: string_append_def)
  ultimately show ?thesis by (simp add: node_path_def)
qed

lemma child_path_ok:
  assumes "path_ok ns d" and "vn_is_dir d" and "string_ok name" and "chars name \<noteq> []" and "slash \<notin> set (chars name)"
    and "length (chars (vn_path d)) + length (chars name) + 1 < 2 ^ 32"
    and "vn_path v = string_copy (node_path (vn_path d) name (vn_is_dir v))"
  shows "path_ok (ns @ [chars name]) v"
proof -
  let ?q = "node_path (vn_path d) name (vn_is_dir v)"
  note a = assms(1) [unfolded path_ok_def]
  note q = node_path_chars [OF conjunct1 [OF a] assms(3,6), of "vn_is_dir v"]
  have cp: "string_ok (vn_path v)" "chars (vn_path v) = chars ?q" "d_data (vn_path v) \<noteq> None"
    using q unfolding assms(7) by (auto simp: string_copy_def string_ok_def chars_def)
  obtain s where s: "chars (vn_path d) = s @ [slash]" using a assms(2) by (auto simp: dir_path_def)
  have "parts slash (chars ?q) = ns @ [chars name]"
  proof -
    have "parts slash (s @ slash # chars name @ (if vn_is_dir v then [slash] else [])) = ns @ [chars name]"
      using a parts_append [of slash "chars name" "[]"] assms(4,5) parts_append [of slash s "[]"]
      by (simp add: s parts_append parts_name)
    then show ?thesis using q by (simp add: s)
  qed
  moreover have "\<exists>s. chars ?q = slash # s" using a q by auto
  moreover have "vn_is_dir v \<longrightarrow> dir_path (chars ?q)" using q by (auto simp: dir_path_def)
  ultimately show ?thesis using cp by (simp add: path_ok_def)
qed

section \<open>Adding a node\<close>

lemma find_map: "find P (map g xs) = map_option g (find (\<lambda>x. P (g x)) xs)"
  by (induction xs) auto

lemma find_append: "find P (xs @ ys) = (case find P xs of None \<Rightarrow> find P ys | Some x \<Rightarrow> Some x)"
  by (induction xs) auto

lemma val_graft [simp]: "val (graft p f u) = val u"
  by (cases u) simp

lemma name_of_graft [simp]: "name_of (graft p f u) = name_of u"
  by (simp add: name_of_def)

lemma lookup_subtree: "lookup ns t = Some u \<Longrightarrow> u \<in> set (subtrees t)"
proof (induction ns arbitrary: t)
  case Nil
  then have "t = u" by simp
  then show ?case by (cases u) simp
next
  case (Cons n ns)
  obtain p d ts where t: "t = T p d ts" by (cases t)
  obtain w where w: "find (\<lambda>u. name_of u = n) ts = Some w" "lookup ns w = Some u"
    using Cons.prems by (auto simp: t split: option.splits)
  then show ?case using Cons.IH [OF w(2)] find_in_set [OF w(1)] by (auto simp: t)
qed

lemma subtree_ptr: "u \<in> set (subtrees t) \<Longrightarrow> root u \<in> set (ptrs t)"
  by (induction t) (auto simp: set_ptrss)

lemma pathed_lookup: "pathed ms t \<Longrightarrow> lookup ns t = Some u \<Longrightarrow> pathed (ms @ ns) u"
proof (induction ns arbitrary: t ms)
  case (Cons n ns)
  obtain p d ts where t: "t = T p d ts" by (cases t)
  obtain w where w: "find (\<lambda>u. name_of u = n) ts = Some w" "lookup ns w = Some u"
    using Cons.prems(2) by (auto simp: t split: option.splits)
  have "name_of w = n" using w(1) by (auto simp: find_Some_iff)
  moreover have "pathed (ms @ [name_of w]) w" using Cons.prems(1) find_in_set [OF w(1)] by (simp add: t)
  ultimately show ?case using Cons.IH [OF _ w(2), of "ms @ [n]"] by simp
qed simp

lemma lookup_new:
  assumes "lookup ns t = Some (T p d ts)" and "distinct (ptrs t)" and "\<forall>u \<in> set ts. name_of u \<noteq> n" and "name_of new = n"
  shows "lookup (ns @ [n]) (graft p (\<lambda>ts. ts @ [new]) t) = Some new"
  using assms
proof (induction ns arbitrary: t)
  case Nil
  then have "find (\<lambda>u. name_of u = n) ts = None" by (auto simp: find_None_iff)
  then show ?case using Nil by (simp add: find_append)
next
  case (Cons m ns)
  obtain q dq ks where t: "t = T q dq ks" by (cases t)
  obtain w where w: "find (\<lambda>u. name_of u = m) ks = Some w" "lookup ns w = Some (T p d ts)"
    using Cons.prems(1) by (auto simp: t split: option.splits)
  have pk: "p \<in> set (ptrs w)" using subtree_ptr [OF lookup_subtree [OF w(2)]] by simp
  then have "q \<noteq> p" and dw: "distinct (ptrs w)"
    using Cons.prems(2) find_in_set [OF w(1)] by (auto simp: t set_ptrss dest!: split_list)
  then show ?case using w Cons.IH [OF w(2) dw] Cons.prems(3,4) by (simp add: t find_map)
qed

lemma named_graft: "named t \<Longrightarrow> named new \<Longrightarrow> named (graft p (\<lambda>ts. ts @ [new]) t)"
  by (induction t) auto

lemma pathed_graft:
  assumes "pathed ns t" and "\<forall>d ts ms. T p d ts \<in> set (subtrees t) \<longrightarrow> path_ok ms d \<longrightarrow> vn_is_dir d \<and> pathed (ms @ [name_of new]) new"
  shows "pathed ns (graft p (\<lambda>ts. ts @ [new]) t)"
  using assms
proof (induction t arbitrary: ns)
  case (T q d ts)
  show ?case
  proof (cases "q = p")
    case True
    have "T p d ts \<in> set (subtrees (T q d ts))" "path_ok ns d" using T.prems(1) True by simp_all
    then have "vn_is_dir d \<and> pathed (ns @ [name_of new]) new" using T.prems(2) by blast
    then show ?thesis using T.prems(1) True by simp
  next
    case False
    have "pathed (ns @ [name_of u]) (graft p (\<lambda>ts. ts @ [new]) u)" if u: "u \<in> set ts" for u
    proof (rule T.IH [OF u])
      show "pathed (ns @ [name_of u]) u" using T.prems(1) u by simp
      have "set (subtrees u) \<subseteq> set (subtrees (T q d ts))" using u by auto
      then show "\<forall>d ts ms. T p d ts \<in> set (subtrees u) \<longrightarrow> path_ok ms d \<longrightarrow> vn_is_dir d \<and> pathed (ms @ [name_of new]) new"
        using T.prems(2) by blast
    qed
    then show ?thesis using T.prems(1) False by simp
  qed
qed

lemma tree_node_ex:
  assumes "is_tree h t" and "T p d ts \<in> set (subtrees t)"
  shows "\<exists>par nx. h p = Some (tnode d par (first 0 ts) nx)"
  using subtree_at [of h 0 0 "[t]" p d ts] assms by (auto simp: is_tree_def)

lemma subtree_unique:
  assumes "is_tree h t" and "T p d ts \<in> set (subtrees t)" and "T p d' ts' \<in> set (subtrees t)"
  shows "d' = d"
  using tree_node_ex [OF assms(1,2)] tree_node_ex [OF assms(1,3)] by auto

lemma hang_adds:
  assumes "vfs_ok v t" and "lookup ns t = Some (T p d ts)" and "vn_is_dir d" and "string_ok name" and "chars name \<noteq> []"
    and "slash \<notin> set (chars name)" and "\<forall>u \<in> set ts. name_of u \<noteq> chars name" and "a \<noteq> 0" and "t_heap v a = None"
    and "length (chars (vn_path d)) + length (chars name) + 1 < 2 ^ 32"
    and "vn_name nd = string_copy name" and "vn_path nd = string_copy (node_path (vn_path d) name (vn_is_dir nd))"
  shows "\<exists>h'. hang a p nd (t_heap v) = Some (Some nd, h')
    \<and> vfs_ok (v\<lparr>t_heap := h'\<rparr>) (graft p (\<lambda>ts. ts @ [T a nd []]) t)
    \<and> lookup (ns @ [chars name]) (graft p (\<lambda>ts. ts @ [T a nd []]) t) = Some (T a nd [])"
proof -
  let ?h = "t_heap v" and ?new = "T a nd []"
  have tr: "is_tree ?h t" "t_root v = root t" "named t" "pathed [] t" using assms(1) by (simp_all add: vfs_ok_def)
  have sub: "T p d ts \<in> set (subtrees t)" by (rule lookup_subtree [OF assms(2)])
  have pd: "path_ok ns d" using pathed_lookup [OF tr(4) assms(2)] by simp
  have nm: "named ?new" "name_of ?new = chars name"
    using assms(4,11) by (auto simp: string_copy_def string_ok_def chars_def name_of_def split: option.splits)
  have pn: "path_ok (ns @ [chars name]) nd" by (rule child_path_ok [OF pd assms(3-6,10,12)])
  obtain h' where h': "add_child p a (snd (create a nd ?h)) = Some h'" "is_tree h' (graft p (\<lambda>ts. ts @ [?new]) t)"
    using add_child_grafts [OF tr(1) sub assms(8,9), of nd] by blast
  have di: "distinct (ptrs t)" using tr(1) by (simp add: is_tree_def)
  have lk: "lookup (ns @ [chars name]) (graft p (\<lambda>ts. ts @ [?new]) t) = Some ?new"
    by (rule lookup_new [OF assms(2) di assms(7) nm(2)])
  obtain par' nx' where "h' a = Some (tnode nd par' 0 nx')"
    using tree_node_ex [OF h'(2) lookup_subtree [OF lk]] by auto
  then have hang: "hang a p nd ?h = Some (Some nd, h')"
    using h'(1) assms(8) by (simp add: hang_def create_def)
  have "pathed [] (graft p (\<lambda>ts. ts @ [?new]) t)"
  proof (rule pathed_graft [OF tr(4)], intro allI impI)
    fix d' ts' ms
    assume s: "T p d' ts' \<in> set (subtrees t)" and o: "path_ok ms d'"
    have "d' = d" by (rule subtree_unique [OF tr(1) sub s])
    then have "ms = ns" using o pd by (simp add: path_ok_def)
    then show "vn_is_dir d' \<and> pathed (ms @ [name_of ?new]) ?new" using \<open>d' = d\<close> assms(3) pn nm(2) by simp
  qed
  then show ?thesis using hang lk h'(2) tr(2) named_graft [OF tr(3) nm(1)] by (auto simp: vfs_ok_def)
qed

lemma add_node_adds:
  assumes "vfs_ok v t" and "lookup ns t = Some (T p d ts)" and "vn_is_dir d" and "string_ok name" and "chars name \<noteq> []"
    and "slash \<notin> set (chars name)" and "\<forall>u \<in> set ts. name_of u \<noteq> chars name" and "inode \<noteq> 0" and "fs \<noteq> 0"
    and "a \<noteq> 0" and "t_heap v a = None" and "length (chars (vn_path d)) + length (chars name) + 1 < 2 ^ 32"
    and "nd = \<lparr>vn_name = string_copy name, vn_path = string_copy (node_path (vn_path d) name (inode_is_dir (mode_of inode))),
           vn_is_dir = inode_is_dir (mode_of inode), vn_inode_num = inode_num, vn_inode = inode, vn_fs = fs\<rparr>"
  shows "\<exists>h'. add_node mode_of a p name inode_num inode fs (t_heap v) = Some (Some nd, h')
    \<and> vfs_ok (v\<lparr>t_heap := h'\<rparr>) (graft p (\<lambda>ts. ts @ [T a nd []]) t)
    \<and> lookup (ns @ [chars name]) (graft p (\<lambda>ts. ts @ [T a nd []]) t) = Some (T a nd [])"
proof -
  let ?h = "t_heap v" and ?path = "node_path (vn_path d) name (inode_is_dir (mode_of inode))"
  have tr: "is_tree ?h t" "pathed [] t" using assms(1) by (simp_all add: vfs_ok_def)
  obtain par nx where n: "?h p = Some (tnode d par (first 0 ts) nx)" "siblings ?h p 0 ts"
    "set (p # ptrss ts) \<subseteq> set (ptrs t)" and p: "p \<noteq> 0"
    by (rule tree_node [OF tr(1) lookup_subtree [OF assms(2)]])
  have pd: "path_ok ns d" and pk: "\<forall>u \<in> set ts. pathed (ns @ [name_of u]) u"
    using pathed_lookup [OF tr(2) assms(2)] by simp_all
  have pn: "path_ok (ns @ [chars name]) nd"
    by (rule child_path_ok [OF pd assms(3-6,12)]) (simp add: assms(13))
  have np: "string_ok ?path \<and> d_data ?path \<noteq> None" and cp: "chars (vn_path nd) = chars ?path"
  proof -
    have so: "string_ok (vn_path d)" using pd by (simp add: path_ok_def)
    show "string_ok ?path \<and> d_data ?path \<noteq> None"
      using node_path_chars [OF so assms(4,12), of "inode_is_dir (mode_of inode)"] by simp
    then show "chars (vn_path nd) = chars ?path"
      by (auto simp: assms(13) string_copy_def chars_def string_ok_def)
  qed
  have "find (\<lambda>u. is_true (string_eq (vn_path (val u)) ?path)) ts = None"
  proof -
    have "\<not> is_true (string_eq (vn_path (val u)) ?path)" if u: "u \<in> set ts" for u
    proof
      assume "is_true (string_eq (vn_path (val u)) ?path)"
      moreover have po: "path_ok (ns @ [name_of u]) (val u)" using pk u by (intro pathed_node) simp
      ultimately have "chars (vn_path (val u)) = chars ?path"
        using np by (auto simp: is_true_def string_eq_def string_equals_def path_ok_def string_ok_def chars_def strcmp_eq_0 split: option.splits)
      then have "ns @ [name_of u] = ns @ [chars name]" using po pn cp by (simp add: path_ok_def)
      then show False using assms(7) u by simp
    qed
    then show ?thesis by (simp add: find_None_iff)
  qed
  then have none: "find_child_by_predicate p (\<lambda>n. is_true (string_eq (vn_path n) ?path)) ?h = Some 0"
    using n(1) p find_loop_kids [OF n(2), of "\<lambda>n. is_true (string_eq (vn_path n) ?path)"] by (simp add: find_child_by_predicate_def)
  obtain h' where h': "hang a p nd ?h = Some (Some nd, h')" "vfs_ok (v\<lparr>t_heap := h'\<rparr>) (graft p (\<lambda>ts. ts @ [T a nd []]) t)"
    "lookup (ns @ [chars name]) (graft p (\<lambda>ts. ts @ [T a nd []]) t) = Some (T a nd [])"
    using hang_adds [OF assms(1-7,10-12), of nd] by (auto simp: assms(13))
  have "add_node mode_of a p name inode_num inode fs ?h = Some (Some nd, h')"
    using n(1) p assms(3,5,8,9) none h'(1) assms(4)
    by (auto simp: add_node_def assms(13) string_empty_def string_ok_def Let_def)
  then show ?thesis using h'(2,3) by auto
qed

text \<open>A node without an inode or a file system: always a new one, a directory.\<close>

lemma add_empty_adds:
  assumes "vfs_ok v t" and "lookup ns t = Some (T p d ts)" and "vn_is_dir d" and "string_ok name" and "chars name \<noteq> []"
    and "slash \<notin> set (chars name)" and "\<forall>u \<in> set ts. name_of u \<noteq> chars name"
    and "a \<noteq> 0" and "t_heap v a = None" and "length (chars (vn_path d)) + length (chars name) + 1 < 2 ^ 32"
    and "nd = \<lparr>vn_name = string_copy name, vn_path = string_copy (node_path (vn_path d) name True),
           vn_is_dir = True, vn_inode_num = EXT2_BAD_INO, vn_inode = 0, vn_fs = 0\<rparr>"
  shows "\<exists>h'. add_node mode_of a p name inode_num 0 fs (t_heap v) = Some (Some nd, h')
    \<and> vfs_ok (v\<lparr>t_heap := h'\<rparr>) (graft p (\<lambda>ts. ts @ [T a nd []]) t)"
proof -
  let ?path = "node_path (vn_path d) name True"
  have tr: "is_tree (t_heap v) t" "pathed [] t" using assms(1) by (simp_all add: vfs_ok_def)
  obtain par nx where n: "t_heap v p = Some (tnode d par (first 0 ts) nx)" and p: "p \<noteq> 0"
    by (rule tree_node [OF tr(1) lookup_subtree [OF assms(2)]])
  have "string_ok (vn_path d)" using pathed_lookup [OF tr(2) assms(2)] by (simp add: path_ok_def)
  then have so: "string_ok ?path \<and> d_data ?path \<noteq> None" using node_path_chars [OF _ assms(4,10), of True] by simp
  obtain h' where h': "hang a p nd (t_heap v) = Some (Some nd, h')" "vfs_ok (v\<lparr>t_heap := h'\<rparr>) (graft p (\<lambda>ts. ts @ [T a nd []]) t)"
    using hang_adds [OF assms(1-10), of nd] by (auto simp: assms(11))
  then show ?thesis
    using n p assms(3-5) so by (auto simp: add_node_def assms(11) string_empty_def string_ok_def Let_def)
qed

section \<open>Paths are found\<close>

text \<open>
  Looking up an absolute path in a well-linked tree goes down from the root along the parts of
  the path between slashes, taking the first child of each name, and gives the node it ends at, or
  null when a name is missing.  Only the first 15 names count: a longer path gives the ancestor of
  its node at depth 15.
\<close>

lemma get_node_walks:
  assumes "is_tree (t_heap v) t" and "t_root v = root t" and "named t" and "string_ok path" and "chars path = slash # s"
  shows "get_node v path = Some (case lookup (take 15 (parts slash s)) t of None \<Rightarrow> 0 | Some u \<Rightarrow> root u)"
  by (rule get_node_eq [OF assms])

lemma find_inode_eq:
  assumes "is_tree (t_heap v) t" and "t_root v = root t" and "named t" and "string_ok path" and "chars path = slash # s"
    and "lookup (take 15 (parts slash s)) t = Some u"
  shows "find_inode v path = Some (vn_inode (val u))"
proof -
  have g: "get_node v path = Some (root u)" using get_node_eq [OF assms(1-5)] assms(6) by simp
  obtain p d ts where u: "u = T p d ts" by (cases u)
  have p: "p \<noteq> 0" "root t \<noteq> 0" using assms(1) lookup_subtree [OF assms(6)] siblings_ptrs [of "t_heap v" 0 0 "[t]"]
    subtree_ptr [of u t] by (auto simp: is_tree_def u)
  obtain par nx where n: "t_heap v p = Some (tnode d par (first 0 ts) nx)"
    using tree_node_ex [OF assms(1) lookup_subtree [OF assms(6) [unfolded u]]] by auto
  have "string_empty path = False" using assms(4,5) by (auto simp: string_ok_def string_empty_def)
  moreover have "is_true (string_equals (tok ''/'') (Some ''/''))"
    by (simp add: is_true_def string_equals_def tok_def)
  ultimately show ?thesis
    using g path_tokens [OF assms(4,5)] n p assms(2)
    by (simp add: get_node_def find_inode_def get_root_def u)
qed

text \<open>
  C13: adding an entry to a directory of the tree at depth at most 14, under a name that is new there,
  with an inode and a file system.  The node that is returned is the one stored, the tree stays well
  formed with the new node as the last child of the directory and nothing else changed, and looking
  up the path recorded in the new node gives this node, and its inode.
\<close>

theorem add_node_then_get_node:
  assumes "vfs_ok v t" and "lookup ns t = Some (T p d ts)" and "vn_is_dir d" and "length ns \<le> 14"
    and "string_ok name" and "chars name \<noteq> []" and "slash \<notin> set (chars name)" and "\<forall>u \<in> set ts. name_of u \<noteq> chars name"
    and "inode \<noteq> 0" and "fs \<noteq> 0" and "a \<noteq> 0" and "t_heap v a = None"
    and "length (chars (vn_path d)) + length (chars name) + 1 < 2 ^ 32"
  shows "\<exists>nd h'. add_node mode_of a p name inode_num inode fs (t_heap v) = Some (Some nd, h')
    \<and> vn_name nd = string_copy name \<and> vn_inode nd = inode \<and> vn_is_dir nd = inode_is_dir (mode_of inode)
    \<and> vfs_ok (v\<lparr>t_heap := h'\<rparr>) (graft p (\<lambda>ts. ts @ [T a nd []]) t)
    \<and> get_node (v\<lparr>t_heap := h'\<rparr>) (vn_path nd) = Some a \<and> find_inode (v\<lparr>t_heap := h'\<rparr>) (vn_path nd) = Some inode"
proof -
  define nd where "nd = \<lparr>vn_name = string_copy name, vn_path = string_copy (node_path (vn_path d) name (inode_is_dir (mode_of inode))),
    vn_is_dir = inode_is_dir (mode_of inode), vn_inode_num = inode_num, vn_inode = inode, vn_fs = fs\<rparr>"
  let ?t = "graft p (\<lambda>ts. ts @ [T a nd []]) t"
  obtain h' where h': "add_node mode_of a p name inode_num inode fs (t_heap v) = Some (Some nd, h')"
    "vfs_ok (v\<lparr>t_heap := h'\<rparr>) ?t" "lookup (ns @ [chars name]) ?t = Some (T a nd [])"
    using add_node_adds [where mode_of = mode_of and inode_num = inode_num, OF assms(1-3,5-13) nd_def] by blast
  have tr: "is_tree (t_heap (v\<lparr>t_heap := h'\<rparr>)) ?t" "t_root (v\<lparr>t_heap := h'\<rparr>) = root ?t" "named ?t" "pathed [] ?t"
    using h'(2) by (simp_all add: vfs_ok_def)
  have po: "path_ok (ns @ [chars name]) nd" using pathed_lookup [OF tr(4) h'(3)] by simp
  then obtain s where s: "chars (vn_path nd) = slash # s" "string_ok (vn_path nd)"
    "parts slash (slash # s) = ns @ [chars name]" by (auto simp: path_ok_def)
  then have "take 15 (parts slash s) = ns @ [chars name]" using assms(4) by (simp add: parts_def)
  then show ?thesis
    using h' get_node_eq [OF tr(1-3) s(2,1)] find_inode_eq [OF tr(1-3) s(2,1), of "T a nd []"]
    by (intro exI [of _ nd] exI [of _ h']) (simp add: nd_def)
qed

definition demo_root :: vfsNode where
  "demo_root = \<lparr>vn_name = string_of_cstr ''/'', vn_path = string_of_cstr ''/'', vn_is_dir = True,
     vn_inode_num = EXT2_ROOT_INO, vn_inode = 0x500, vn_fs = 0x600\<rparr>"

definition demo_vfs :: "vfsNode tree" where
  "demo_vfs = \<lparr>t_heap = [0x100 \<mapsto> \<lparr>tn_data = demo_root, tn_parent = 0, tn_first_child = 0, tn_next_sibling = 0\<rparr>], t_root = 0x100\<rparr>"

lemma demo_vfs_ok: "vfs_ok demo_vfs (T 0x100 demo_root [])"
  by (simp add: vfs_ok_def demo_vfs_def is_tree_def demo_root_def string_of_cstr_def string_ok_def chars_def
      path_ok_def parts_def dir_path_def)

lemma get_node_walks_witness:
  "get_node demo_vfs (string_of_cstr ''//'') = Some 0x100 \<and> get_node demo_vfs (string_of_cstr ''/a'') = Some 0"
proof -
  have r: "is_tree (t_heap demo_vfs) (T 0x100 demo_root [])" "t_root demo_vfs = root (T 0x100 demo_root [])" "named (T 0x100 demo_root [])"
    using demo_vfs_ok by (simp_all add: vfs_ok_def)
  have "string_ok (string_of_cstr ''//'')" "string_ok (string_of_cstr ''/a'')" by (simp_all add: string_ok_def string_of_cstr_def chars_def)
  then show ?thesis
    using get_node_walks [OF r, of "string_of_cstr ''//''" "''/''"] get_node_walks [OF r, of "string_of_cstr ''/a''" "''a''"]
    by (simp add: string_of_cstr_def chars_def parts_def)
qed

theorem add_node_then_get_node_witness:
  "\<exists>nd h'. add_node (\<lambda>_. 0x41ED) 0x200 0x100 (string_of_cstr ''etc'') 12 0x700 0x600 (t_heap demo_vfs) = Some (Some nd, h')
    \<and> get_node (demo_vfs\<lparr>t_heap := h'\<rparr>) (vn_path nd) = Some 0x200"
  using add_node_then_get_node [where v = demo_vfs and t = "T 0x100 demo_root []" and ns = "[]" and p = "0x100" and d = demo_root and ts = "[]"
      and name = "string_of_cstr ''etc''" and inode = "0x700" and fs = "0x600" and a = "0x200" and mode_of = "\<lambda>_. 0x41ED"
      and inode_num = 12] demo_vfs_ok
  by (auto simp: demo_root_def demo_vfs_def string_of_cstr_def string_ok_def chars_def)

end
