(* ===== verification/Ext2File.thy ===== *)
theory Ext2File
  imports Ext2Mode Ext2Store Vfs
begin

text \<open>
  Reading and writing the content of a file: \<open>get_file_contents\<close> and \<open>write_file_content\<close> of
  \<open>src/kernel/fs/ext/ext2.cpp\<close> with their helpers.  The state is the virtual file system, the
  inodes in memory and the file systems by their addresses, and \<open>curr_fs\<close>; \<open>kfree\<close> of an inode
  removes it, and \<open>w_addrs\<close> are the addresses the next allocations of inodes and nodes give.  \<open>None\<close> is a call that does not return or an access outside a buffer.

  The buffer of one block that the callers share is part of the state where a function reads what
  another one left in it; where it is filled before it is used it is left out.
\<close>

record world =
  w_vfs :: vfs
  w_inodes :: "u32 \<Rightarrow> u8 list option"
  w_fs :: "u32 \<Rightarrow> ext2_fs_t"
  w_curr_fs :: u32
  w_addrs :: "u32 list"

definition size_high :: "u8 list \<Rightarrow> u32" where "size_high ino = get32 108 ino"

definition file_size :: "u8 list \<Rightarrow> u64" where
  "file_size ino = ucast (size_low ino) OR push_bit 32 (ucast (size_high ino))"

definition set_access_time :: "u32 \<Rightarrow> u8 list \<Rightarrow> u8 list" where "set_access_time now ino = put32 8 now ino"
definition set_mod_time :: "u32 \<Rightarrow> u8 list \<Rightarrow> u8 list" where "set_mod_time now ino = put32 16 now ino"
definition set_size :: "u64 \<Rightarrow> u8 list \<Rightarrow> u8 list" where
  "set_size n ino = put32 108 (ucast (drop_bit 32 n)) (put32 4 (ucast n) ino)"

section \<open>Reading\<close>

text \<open>The shared block buffer, the text read so far, and \<open>bytes_read\<close>.\<close>

type_synonym reading = "u8 list \<times> lstring \<times> u32"

definition to_char :: "u8 \<Rightarrow> char" where
  "to_char b = char_of (unat b)"

definition read_file_block :: "ext2_fs_t \<Rightarrow> u32 \<Rightarrow> u32 \<Rightarrow> reading \<Rightarrow> reading" where
  "read_file_block fs fsize block_num s = (case s of (buf, out, bytes_read) \<Rightarrow>
     if block_num = 0 \<or> fsize \<le> bytes_read then s
     else
       let buf1 = read_block fs block_num 1;
           to_copy = (if block_size fs < fsize - bytes_read then block_size fs else fsize - bytes_read)
       in (buf1, foldl large_append_char out (map to_char (take (unat to_copy) buf1)), bytes_read + to_copy))"

text \<open>The loop over the pointers in the buffer, which the calls in it overwrite.\<close>

fun entries_loop :: "(u32 \<Rightarrow> reading \<Rightarrow> reading) \<Rightarrow> u32 \<Rightarrow> nat \<Rightarrow> nat \<Rightarrow> reading \<Rightarrow> reading" where
  "entries_loop f fsize i 0 s = s"
| "entries_loop f fsize i (Suc n) s =
     (let s1 = f (get32 (4 * i) (fst s)) s
      in if fsize \<le> snd (snd s1) then s1 else entries_loop f fsize (i + 1) n s1)"

primrec read_level :: "nat \<Rightarrow> ext2_fs_t \<Rightarrow> u32 \<Rightarrow> u32 \<Rightarrow> reading \<Rightarrow> reading" where
  "read_level 0 fs fsize = read_file_block fs fsize"
| "read_level (Suc l) fs fsize = (\<lambda>block_num s.
     if block_num = 0 \<or> fsize \<le> snd (snd s) then s
     else entries_loop (read_level l fs fsize) fsize 0 (unat (block_size fs div 4)) (read_block fs block_num 1, snd s))"

fun read_direct :: "nat list \<Rightarrow> ext2_fs_t \<Rightarrow> u8 list \<Rightarrow> u64 \<Rightarrow> reading \<Rightarrow> reading" where
  "read_direct [] fs ino fsize s = s"
| "read_direct (i # is) fs ino fsize s =
     (if direct_blk_ptr ino i = 0 then s
      else let s1 = read_file_block fs (ucast fsize) (direct_blk_ptr ino i) s
           in if fsize \<le> ucast (snd (snd s1)) then s1 else read_direct is fs ino fsize s1)"

definition read_indirect :: "ext2_fs_t \<Rightarrow> u64 \<Rightarrow> nat \<Rightarrow> u32 \<Rightarrow> reading \<Rightarrow> reading" where
  "read_indirect fs fsize level p s =
     (if ucast (snd (snd s)) < fsize \<and> p \<noteq> 0 then read_level level fs (ucast fsize) p s else s)"

definition read_content :: "ext2_fs_t \<Rightarrow> u8 list \<Rightarrow> lstring" where
  "read_content fs ino =
     (let n = file_size ino;
          s0 = read_direct [0..<12] fs ino n (replicate (unat (block_size fs)) 0, large_new, 0);
          s1 = read_indirect fs n 1 (singly_inderect_blk_ptr ino) s0;
          s2 = read_indirect fs n 2 (doubly_inderect_blk_ptr ino) s1;
          s3 = read_indirect fs n 3 (triply_inderect_blk_ptr ino) s2
      in fst (snd s3))"

text \<open>The blocks are read from the current file system, whichever one the file is in.\<close>

definition get_file_contents :: "u32 \<Rightarrow> dstring \<Rightarrow> world \<Rightarrow> (lstring \<times> world) option" where
  "get_file_contents now path w =
     (case get_node (vfs_tree (w_vfs w)) path of None \<Rightarrow> None
      | Some p \<Rightarrow>
          if p = 0 then Some (large_new, w)
          else (case t_heap (vfs_tree (w_vfs w)) p of None \<Rightarrow> None
          | Some tn \<Rightarrow>
              let inode = vn_inode (tn_data tn) in
              if inode = 0 then Some (large_new, w)
              else (case w_inodes w inode of None \<Rightarrow> None
              | Some ino \<Rightarrow>
                  if INODE_IS_DIR ino then Some (large_new, w)
                  else if \<not> p_read (get_perms (Some ino) (currUid (w_vfs w)) (currGid (w_vfs w))) then Some (large_new, w)
                  else if w_curr_fs w = 0 then None
                  else Some (read_content (w_fs w (w_curr_fs w)) ino,
                         w\<lparr>w_inodes := (w_inodes w)(inode \<mapsto> set_access_time now ino)\<rparr>))))"

section \<open>Writing\<close>

text \<open>The characters \<open>in[i]\<close>, \<open>n\<close> of them.\<close>

fun input_bytes :: "dstring \<Rightarrow> u32 \<Rightarrow> nat \<Rightarrow> u8 list option" where
  "input_bytes input i 0 = Some []"
| "input_bytes input i (Suc n) =
     (case string_nth input i of None \<Rightarrow> None
      | Some c \<Rightarrow> map_option ((#) (of_nat (of_char c))) (input_bytes input (i + 1) n))"

definition write_file_block :: "dstring \<Rightarrow> u32 \<Rightarrow> u32 \<Rightarrow> ext2_fs_t \<times> u32 \<Rightarrow> (u32 \<times> ext2_fs_t \<times> u32) option" where
  "write_file_block input fsize block_num s = (case s of (fs, bytes_written) \<Rightarrow>
     if fsize \<le> bytes_written then Some (block_num, fs, bytes_written)
     else if block_size fs = 0 then None
     else
       case (if block_num \<noteq> 0 then Some (block_num, fs, read_block fs block_num 1)
             else map_option (\<lambda>(n, fs1). (n, fs1, replicate (unat (block_size fs)) 0)) (alloc_block fs)) of
         None \<Rightarrow> None
       | Some (n, fs1, buf) \<Rightarrow>
           if n = 0 then Some (0, fs1, bytes_written)
           else
             let offset = bytes_written mod block_size fs;
                 to_write = (if block_size fs - offset < fsize - bytes_written then block_size fs - offset
                             else fsize - bytes_written)
             in case input_bytes input bytes_written (unat to_write) of None \<Rightarrow> None
                | Some bs \<Rightarrow> Some (n, write_block fs1 n (put_bytes (unat offset) bs buf) 1, bytes_written + to_write))"

fun write_entries :: "(u32 \<Rightarrow> ext2_fs_t \<times> u32 \<Rightarrow> (u32 \<times> ext2_fs_t \<times> u32) option) \<Rightarrow> u32 \<Rightarrow> nat \<Rightarrow> nat
    \<Rightarrow> u8 list \<Rightarrow> ext2_fs_t \<times> u32 \<Rightarrow> (u8 list \<times> ext2_fs_t \<times> u32) option" where
  "write_entries f fsize i 0 tbl s = Some (tbl, s)"
| "write_entries f fsize i (Suc n) tbl s =
     (case f (get32 (4 * i) tbl) s of None \<Rightarrow> None
      | Some (p, s1) \<Rightarrow>
          let tbl1 = put32 (4 * i) p tbl
          in if fsize \<le> snd s1 then Some (tbl1, s1) else write_entries f fsize (i + 1) n tbl1 s1)"

primrec write_level :: "nat \<Rightarrow> dstring \<Rightarrow> u32 \<Rightarrow> u32 \<Rightarrow> ext2_fs_t \<times> u32 \<Rightarrow> (u32 \<times> ext2_fs_t \<times> u32) option" where
  "write_level 0 input fsize = write_file_block input fsize"
| "write_level (Suc l) input fsize = (\<lambda>block_num s. case s of (fs, bytes_written) \<Rightarrow>
     case (if block_num \<noteq> 0 then Some (block_num, fs)
           else map_option (\<lambda>(n, fs1). (n, if n = 0 then fs1 else write_block fs1 n (replicate (unat (block_size fs)) 0) 1)) (alloc_block fs)) of
       None \<Rightarrow> None
     | Some (n, fs1) \<Rightarrow>
         if n = 0 then Some (0, fs1, bytes_written)
         else (case write_entries (write_level l input fsize) fsize 0 (unat (block_size fs div 4)) (read_block fs1 n 1) (fs1, bytes_written) of
           None \<Rightarrow> None
         | Some (tbl, fs2, bw2) \<Rightarrow> Some (n, write_block fs2 n tbl 1, bw2)))"

fun write_direct :: "nat list \<Rightarrow> dstring \<Rightarrow> u64 \<Rightarrow> u8 list \<Rightarrow> ext2_fs_t \<times> u32 \<Rightarrow> (u8 list \<times> ext2_fs_t \<times> u32) option" where
  "write_direct [] input tot ino s = Some (ino, s)"
| "write_direct (i # is) input tot ino s =
     (if ucast (snd s) < tot
      then (case write_file_block input (ucast tot) (direct_blk_ptr ino i) s of None \<Rightarrow> None
        | Some (p, s1) \<Rightarrow> write_direct is input tot (put32 (40 + 4 * i) p ino) s1)
      else Some (ino, s))"

text \<open>One of the three indirect pointers of the inode, at \<open>off\<close>.\<close>

definition write_indirect :: "nat \<Rightarrow> nat \<Rightarrow> dstring \<Rightarrow> u64 \<Rightarrow> u8 list \<Rightarrow> ext2_fs_t \<times> u32 \<Rightarrow> (u8 list \<times> ext2_fs_t \<times> u32) option" where
  "write_indirect level off input tot ino s =
     (if ucast (snd s) < tot
      then (case write_level level input (ucast tot) (get32 off ino) s of None \<Rightarrow> None
        | Some (p, s1) \<Rightarrow> Some (put32 off p ino, s1))
      else Some (ino, s))"

definition write_blocks :: "dstring \<Rightarrow> u64 \<Rightarrow> u64 \<Rightarrow> u8 list \<Rightarrow> ext2_fs_t \<Rightarrow> (u8 list \<times> ext2_fs_t) option" where
  "write_blocks input start tot ino fs =
     (case write_direct [0..<12] input tot ino (fs, ucast start) of None \<Rightarrow> None
      | Some (ino1, s1) \<Rightarrow> (case write_indirect 1 88 input tot ino1 s1 of None \<Rightarrow> None
      | Some (ino2, s2) \<Rightarrow> (case write_indirect 2 92 input tot ino2 s2 of None \<Rightarrow> None
      | Some (ino3, s3) \<Rightarrow> (case write_indirect 3 96 input tot ino3 s3 of None \<Rightarrow> None
      | Some (ino4, s4) \<Rightarrow> Some (ino4, fst s4)))))"

definition write_file_content :: "u32 \<Rightarrow> dstring \<Rightarrow> dstring \<Rightarrow> bool \<Rightarrow> world \<Rightarrow> (bool \<times> world) option" where
  "write_file_content now path input overwrite w =
     (if w_curr_fs w = 0 then Some (False, w)
      else case get_node (vfs_tree (w_vfs w)) path of None \<Rightarrow> None
      | Some p \<Rightarrow>
          if p = 0 then Some (False, w)
          else (case t_heap (vfs_tree (w_vfs w)) p of None \<Rightarrow> None
          | Some tn \<Rightarrow>
              let inode_num = vn_inode_num (tn_data tn); inode = vn_inode (tn_data tn) in
              if inode_num = EXT2_BAD_INO then Some (False, w)
              else if inode = 0 then Some (False, w)
              else (case w_inodes w inode of None \<Rightarrow> None
              | Some ino \<Rightarrow>
                  if INODE_IS_DIR ino then Some (False, w\<lparr>w_inodes := (w_inodes w)(inode := None)\<rparr>)
                  else
                    let fs = w_fs w (w_curr_fs w);
                        start = (if overwrite then 0 else file_size ino);
                        tot = start + ucast (string_size input)
                    in (case write_blocks input start tot ino fs of None \<Rightarrow> None
                      | Some (ino1, fs1) \<Rightarrow>
                          let ino2 = set_access_time now (set_mod_time now (set_size tot ino1))
                          in (case write_inode fs1 inode_num ino2 of None \<Rightarrow> None
                            | Some fs2 \<Rightarrow> Some (True, w\<lparr>w_inodes := (w_inodes w)(inode \<mapsto> ino2),
                                w_fs := (w_fs w)(w_curr_fs w := fs2)\<rparr>))))))"

section \<open>Text and bytes\<close>

definition to_byte :: "char \<Rightarrow> u8" where
  "to_byte c = of_nat (of_char c)"

lemma to_char_byte [simp]: "to_char (to_byte c) = c"
proof -
  have "unat (of_nat (of_char c) :: u8) = of_char c"
    using of_char_mod_256 [of c] by (simp add: unat_of_nat)
  then show ?thesis by (simp add: to_char_def to_byte_def)
qed

definition lchars :: "lstring \<Rightarrow> string" where
  "lchars s = (case l_data s of None \<Rightarrow> [] | Some c \<Rightarrow> c)"

definition large_ok :: "lstring \<Rightarrow> bool" where
  "large_ok s \<longleftrightarrow> length (lchars s) = unat (l_len s)"

lemma large_append_char_ok:
  assumes "large_ok s" and "c \<noteq> NUL" and "length (lchars s) + 1 < 2 ^ 32"
  shows "large_ok (large_append_char s c) \<and> lchars (large_append_char s c) = lchars s @ [c]"
proof -
  have "unat (l_len s + 1) = unat (l_len s) + 1" using assms(1,3) by (subst unat_add_no_wrap) (simp_all add: large_ok_def)
  then show ?thesis
    using assms(1,2)
    by (auto simp: large_append_char_def large_append_def large_make_def large_ok_def lchars_def split: option.splits)
qed

lemma foldl_large_append:
  "NUL \<notin> set cs \<Longrightarrow> large_ok s \<Longrightarrow> length (lchars s) + length cs < 2 ^ 32 \<Longrightarrow>
   large_ok (foldl large_append_char s cs) \<and> lchars (foldl large_append_char s cs) = lchars s @ cs"
proof (induction cs arbitrary: s)
  case (Cons c cs)
  have "large_ok (large_append_char s c) \<and> lchars (large_append_char s c) = lchars s @ [c]"
    using Cons.prems by (intro large_append_char_ok) auto
  then show ?case using Cons by simp
qed simp

lemma input_bytes_eq:
  assumes "string_ok input" and "unat i + n \<le> length (chars input)"
  shows "input_bytes input i n = Some (map to_byte (take n (drop (unat i) (chars input))))"
  using assms(2)
proof (induction n arbitrary: i)
  case (Suc n)
  have l: "length (chars input) < 2 ^ 32" using assms(1) unat_less_lit [of "d_len input"] by (simp add: string_ok_def)
  have s: "unat (i + 1) = unat i + 1" using Suc.prems l by (subst unat_add_no_wrap) simp_all
  have "string_nth input i = Some (chars input ! unat i)"
    using Suc.prems by (auto simp: string_nth_def chars_def split: option.splits)
  moreover have "take (Suc n) (drop (unat i) (chars input)) = chars input ! unat i # take n (drop (unat i + 1) (chars input))"
    using Suc.prems by (simp add: Cons_nth_drop_Suc [symmetric])
  ultimately show ?case using Suc s by (simp add: to_byte_def)
qed simp

section \<open>Whole blocks\<close>

text \<open>The part of the data that belongs to block \<open>j\<close> of a file.\<close>

definition chunk :: "nat \<Rightarrow> 'a list \<Rightarrow> nat \<Rightarrow> 'a list" where
  "chunk bs xs j = take bs (drop (j * bs) xs)"

lemma length_chunk: "length (chunk bs xs j) = min bs (length xs - j * bs)"
  by (simp add: chunk_def)

lemma drop_chunk: "drop (j * bs) xs = chunk bs xs j @ drop ((j + 1) * bs) xs"
  by (simp add: chunk_def add.commute flip: drop_drop)

lemma word_of_unat: "unat w = n \<Longrightarrow> w = of_nat n"
  by auto

lemma write_file_block_chunk:
  assumes "blocks_ok fs" and "string_ok input" and "unat fsize = length (chars input)" and "p \<noteq> 0"
    and "unat bw = j * unat (block_size fs)" and "j * unat (block_size fs) < length (chars input)"
  shows "write_file_block input fsize p (fs, bw) =
    (let c = chunk (unat (block_size fs)) (map to_byte (chars input)) j
     in Some (p, write_block fs p (c @ drop (length c) (read_block fs p 1)) 1, bw + of_nat (length c)))"
proof -
  let ?bs = "unat (block_size fs)" and ?n = "length (chars input)"
  let ?tw = "if block_size fs - bw mod block_size fs < fsize - bw then block_size fs - bw mod block_size fs else fsize - bw"
  have b0: "block_size fs \<noteq> 0" using assms(1) by (simp add: blocks_ok_def)
  have le: "\<not> fsize \<le> bw" using assms(3,5,6) by (simp add: word_le_nat_alt)
  have "unat (bw mod block_size fs) = 0" using assms(5) by (simp add: unat_mod)
  then have off: "bw mod block_size fs = 0" by (simp add: unat_eq_0)
  have d: "unat (fsize - bw) = ?n - j * ?bs" using le assms(3,5) by (subst unat_sub) auto
  have tw: "unat ?tw = min ?bs (?n - j * ?bs)" unfolding off using d by (simp add: word_less_nat_alt min_def)
  let ?c = "chunk ?bs (map to_byte (chars input)) j"
  have "input_bytes input bw (unat ?tw) = Some (map to_byte (take (unat ?tw) (drop (unat bw) (chars input))))"
    by (rule input_bytes_eq [OF assms(2)]) (use tw assms(5,6) in simp)
  also have "map to_byte (take (unat ?tw) (drop (unat bw) (chars input))) = ?c"
    unfolding tw assms(5) by (simp add: chunk_def take_map drop_map min_def)
  finally have ib: "input_bytes input bw (unat ?tw) = Some ?c" .
  have "length ?c = unat ?tw" unfolding tw by (simp add: length_chunk)
  then have tn: "bw + ?tw = bw + of_nat (length ?c)" by (simp add: word_of_unat [symmetric])
  have "write_file_block input fsize p (fs, bw) = (case input_bytes input bw (unat ?tw) of None \<Rightarrow> None
      | Some bs \<Rightarrow> Some (p, write_block fs p (put_bytes (unat (bw mod block_size fs)) bs (read_block fs p 1)) 1, bw + ?tw))"
    using b0 le assms(4) by (simp add: write_file_block_def Let_def)
  then show ?thesis
    unfolding ib tn unfolding off by (simp add: Let_def put_bytes_def)
qed

lemma unat_add_chunk:
  assumes "unat bw = j * bs" and "j * bs < length xs" and "length xs < 2 ^ 32"
  shows "unat (bw + of_nat (length (chunk bs xs j)) :: u32) = min ((j + 1) * bs) (length xs)"
proof -
  have "j * bs + length (chunk bs xs j) = min ((j + 1) * bs) (length xs)"
    using assms(2) by (cases "bs \<le> length xs - j * bs") (auto simp: length_chunk min_def)
  then show ?thesis
    using assms unat_add_no_wrap [of bw "of_nat (length (chunk bs xs j))"] by (simp add: unat_of_nat)
qed

section \<open>The direct blocks of a file\<close>

text \<open>
  The first blocks of a file, as many as \<open>n\<close> bytes need: the pointers are not 0, name blocks of the
  drive, and no block twice.
\<close>

definition room_for :: "ext2_fs_t \<Rightarrow> u8 list \<Rightarrow> nat \<Rightarrow> bool" where
  "room_for fs ino n \<longleftrightarrow> (\<forall>j. j * unat (block_size fs) < n \<longrightarrow>
     j < 12 \<and> direct_blk_ptr ino j \<noteq> 0 \<and> on_disk fs (direct_blk_ptr ino j)
     \<and> (\<forall>i. i * unat (block_size fs) < n \<longrightarrow> direct_blk_ptr ino i = direct_blk_ptr ino j \<longrightarrow> i = j))"

lemma put_ptr_same: "put32 (40 + 4 * i) (direct_blk_ptr ino i) ino = ino"
proof -
  have "(ucast (get32 off b) :: u8) = b ! off" "(ucast (drop_bit 8 (get32 off b)) :: u8) = b ! (off + 1)"
    "(ucast (drop_bit 16 (get32 off b)) :: u8) = b ! (off + 2)" "(ucast (drop_bit 24 (get32 off b)) :: u8) = b ! (off + 3)" for off b
    by (rule bit_eqI, auto simp: get32_def bit_simps dest: bit_imp_le_length)+
  then show ?thesis unfolding direct_blk_ptr_def put32_def by (simp only: list_update_id)
qed

lemma write_direct_stores:
  assumes "blocks_ok fs" and "string_ok input" and "room_for fs ino n" and "n = length (chars input)" and "unat tot = n"
    and "i \<le> 12" and "unat bw = min (i * unat (block_size fs)) n"
  shows "\<exists>fs'. write_direct [i..<12] input tot ino (fs, bw) = Some (ino, fs', of_nat n) \<and> same_layout fs fs'
    \<and> (\<forall>j \<ge> i. j * unat (block_size fs) < n \<longrightarrow>
        (let c = chunk (unat (block_size fs)) (map to_byte (chars input)) j
         in take (length c) (read_block fs' (direct_blk_ptr ino j) 1) = c))
    \<and> (\<forall>b. on_disk fs b \<longrightarrow> (\<forall>j \<ge> i. j * unat (block_size fs) < n \<longrightarrow> b \<noteq> direct_blk_ptr ino j) \<longrightarrow>
        read_block fs' b 1 = read_block fs b 1)"
  using assms
proof (induction "12 - i" arbitrary: i fs bw)
  case 0
  let ?bs = "unat (block_size fs)"
  have i: "i = 12" using 0(1,7) by simp
  have nn: "\<not> 12 * ?bs < n" using 0(4) unfolding room_for_def by blast
  then have "bw = of_nat n" using 0(8) by (intro word_of_unat) (simp add: i min_def split: if_splits)
  moreover have "\<not> j * ?bs < n" if "12 \<le> j" for j
    using mult_le_mono1 [OF that, of ?bs] nn by linarith
  ultimately show ?case by (simp add: i)
next
  case (Suc m)
  let ?bs = "unat (block_size fs)" and ?d = "map to_byte (chars input)"
  have b0: "0 < ?bs" using Suc.prems(1) by (simp add: blocks_ok_def unat_gt_0)
  have i: "i < 12" "m = 12 - (i + 1)" using Suc.hyps(2) by simp_all
  then have up: "[i..<12] = i # [i + 1..<12]" by (simp add: upt_conv_Cons)
  have n32: "n < 2 ^ 32" using Suc.prems(2,4) unat_less_lit [of "d_len input"] by (simp add: string_ok_def)
  show ?case
  proof (cases "i * ?bs < n")
    case False
    then have "bw = of_nat n" using Suc.prems(7) by (intro word_of_unat) (simp add: min_def split: if_splits)
    moreover have "\<not> ucast bw < tot" using False Suc.prems(5,7) by (simp add: word_less_nat_alt min_def)
    moreover have "\<not> j * ?bs < n" if "i \<le> j" for j
      using mult_le_mono1 [OF that, of ?bs] False by linarith
    ultimately show ?thesis by (simp add: up)
  next
    case True
    let ?p = "direct_blk_ptr ino i" and ?c = "chunk ?bs ?d i"
    have r: "?p \<noteq> 0" "on_disk fs ?p" using Suc.prems(3) True by (auto simp: room_for_def)
    let ?v = "?c @ drop (length ?c) (read_block fs ?p 1)" and ?bw = "bw + of_nat (length ?c)"
    let ?fs = "write_block fs ?p ?v 1"
    have ubw: "unat bw = i * ?bs" using Suc.prems(7) True by simp
    have "unat (ucast tot :: u32) = n"
      using Suc.prems(5) n32 by (simp add: unsigned_ucast_eq take_bit_eq_mod)
    then have w: "write_file_block input (ucast tot) ?p (fs, bw) = Some (?p, ?fs, ?bw)"
      using write_file_block_chunk [OF Suc.prems(1,2), of "ucast tot" ?p bw i] r(1) ubw True Suc.prems(4) by (simp add: Let_def)
    have lc: "length ?c \<le> ?bs" by (simp add: length_chunk)
    have fit: "block_fits fs ?v" using lc length_read_block [OF Suc.prems(1), of ?p] by (simp add: block_fits_def)
    have sl: "same_layout fs ?fs" by (rule same_layout_write [OF r(2) fit])
    have rd: "read_block ?fs b 1 = (if ?p = b then ?v else read_block fs b 1)" if "on_disk fs b" for b
      by (rule read_write_block [OF r(2) that fit])
    have u2: "unat ?bw = min ((i + 1) * ?bs) n"
      using unat_add_chunk [OF ubw, of ?d] True n32 Suc.prems(4) by simp
    have "\<exists>fs'. write_direct [i + 1..<12] input tot ino (?fs, ?bw) = Some (ino, fs', of_nat n) \<and> same_layout ?fs fs'
      \<and> (\<forall>j \<ge> i + 1. j * unat (block_size ?fs) < n \<longrightarrow>
          (let c = chunk (unat (block_size ?fs)) (map to_byte (chars input)) j
           in take (length c) (read_block fs' (direct_blk_ptr ino j) 1) = c))
      \<and> (\<forall>b. on_disk ?fs b \<longrightarrow> (\<forall>j \<ge> i + 1. j * unat (block_size ?fs) < n \<longrightarrow> b \<noteq> direct_blk_ptr ino j) \<longrightarrow>
          read_block fs' b 1 = read_block ?fs b 1)"
    proof (rule Suc.hyps(1) [OF i(2)])
      show "blocks_ok ?fs" using sl Suc.prems(1) by (simp add: same_layout_def)
      show "room_for ?fs ino n" using Suc.prems(3) same_layout_derived(4) [OF sl] by (simp add: room_for_def)
    qed (use Suc.prems i u2 in simp_all)
    then obtain fs' where fs': "write_direct [i + 1..<12] input tot ino (?fs, ?bw) = Some (ino, fs', of_nat n)" "same_layout ?fs fs'"
      and st: "\<And>j. i + 1 \<le> j \<Longrightarrow> j * ?bs < n \<Longrightarrow> take (length (chunk ?bs ?d j)) (read_block fs' (direct_blk_ptr ino j) 1) = chunk ?bs ?d j"
      and ot: "\<And>b. on_disk fs b \<Longrightarrow> (\<And>j. i + 1 \<le> j \<Longrightarrow> j * ?bs < n \<Longrightarrow> b \<noteq> direct_blk_ptr ino j) \<Longrightarrow>
          read_block fs' b 1 = read_block ?fs b 1"
      using same_layout_derived(4) [OF sl] by (auto simp: Let_def)
    have run: "write_direct [i..<12] input tot ino (fs, bw) = Some (ino, fs', of_nat n)"
      using w fs'(1) ubw True Suc.prems(5) by (simp add: up put_ptr_same word_less_nat_alt)
    have pi: "read_block fs' ?p 1 = ?v"
    proof -
      have "?p \<noteq> direct_blk_ptr ino j" if "i + 1 \<le> j" "j * ?bs < n" for j
        using that Suc.prems(3) True unfolding room_for_def by (metis Suc_eq_plus1 not_less_eq_eq order_refl)
      then show ?thesis using ot [OF r(2)] rd [OF r(2)] by simp
    qed
    have "take (length (chunk ?bs ?d j)) (read_block fs' (direct_blk_ptr ino j) 1) = chunk ?bs ?d j" if "i \<le> j" "j * ?bs < n" for j
    proof (cases "j = i")
      case True
      then show ?thesis using pi by simp
    next
      case False
      then show ?thesis using st [of j] that by simp
    qed
    moreover have "read_block fs' b 1 = read_block fs b 1"
      if "on_disk fs b" "\<forall>j \<ge> i. j * ?bs < n \<longrightarrow> b \<noteq> direct_blk_ptr ino j" for b
      using that True ot [of b] rd [of b] by auto
    ultimately show ?thesis using run same_layout_trans [OF sl fs'(2)] by (auto simp: Let_def)
  qed
qed

lemma read_direct_content:
  assumes "blocks_ok fs" and "room_for fs ino n" and "n = length xs" and "NUL \<notin> set xs" and "unat fsize = n" and "n < 2 ^ 32"
    and "\<And>j. j * unat (block_size fs) < n \<Longrightarrow>
      take (length (chunk (unat (block_size fs)) (map to_byte xs) j)) (read_block fs (direct_blk_ptr ino j) 1)
      = chunk (unat (block_size fs)) (map to_byte xs) j"
    and "i * unat (block_size fs) < n" and "unat br = i * unat (block_size fs)" and "large_ok out"
    and "lchars out = take (i * unat (block_size fs)) xs"
  shows "\<exists>buf' out'. read_direct [i..<12] fs ino fsize (buf, out, br) = (buf', out', of_nat n) \<and> large_ok out' \<and> lchars out' = xs"
  using assms(8-11)
proof (induction "12 - i" arbitrary: i buf out br)
  case 0
  then have "12 * unat (block_size fs) \<le> i * unat (block_size fs)" by (intro mult_le_mono1) simp
  then have "12 * unat (block_size fs) < n" using 0(2) by linarith
  then show ?case using assms(2) unfolding room_for_def by blast
next
  case (Suc m)
  let ?bs = "unat (block_size fs)" and ?p = "direct_blk_ptr ino i" and ?c = "chunk (unat (block_size fs)) (map to_byte xs) i"
  have i: "i < 12" "m = 12 - (i + 1)" using Suc.hyps(2) by simp_all
  then have up: "[i..<12] = i # [i + 1..<12]" by (simp add: upt_conv_Cons)
  have r: "?p \<noteq> 0" using assms(2) Suc.prems(1) by (auto simp: room_for_def)
  have f32: "unat (ucast fsize :: u32) = n" using assms(5,6) by (simp add: unsigned_ucast_eq take_bit_eq_mod)
  let ?f = "ucast fsize :: u32"
  let ?tc = "if block_size fs < ?f - br then block_size fs else ?f - br"
  have le: "\<not> ?f \<le> br" using f32 Suc.prems(1,2) by (simp add: word_le_nat_alt)
  have d: "unat (?f - br) = n - i * ?bs" using le f32 Suc.prems(2) by (subst unat_sub) auto
  have tc: "unat ?tc = length ?c" using d assms(3) by (auto simp: word_less_nat_alt length_chunk min_def)
  let ?b = "read_block fs ?p 1" and ?cs = "take ?bs (drop (i * ?bs) xs)" and ?br = "br + of_nat (length ?c)"
  have cs: "map to_char (take (unat ?tc) ?b) = ?cs"
    unfolding tc assms(7) [OF Suc.prems(1)] by (simp add: chunk_def take_map drop_map comp_def)
  have "br + ?tc = ?br" using tc by (simp add: word_of_unat [symmetric])
  then have st: "read_file_block fs ?f ?p (buf, out, br) = (?b, foldl large_append_char out ?cs, ?br)"
    using r le cs unfolding read_file_block_def by (simp add: Let_def)
  have nul: "NUL \<notin> set ?cs" using assms(4) by (meson in_set_dropD in_set_takeD)
  have o: "large_ok (foldl large_append_char out ?cs) \<and> lchars (foldl large_append_char out ?cs) = lchars out @ ?cs"
    by (rule foldl_large_append [OF nul Suc.prems(3)]) (use Suc.prems(1,4) assms(3,6) in simp)
  have lo: "lchars out @ ?cs = take ((i + 1) * ?bs) xs"
  proof -
    have "(i + 1) * ?bs = i * ?bs + ?bs" by simp
    then show ?thesis unfolding Suc.prems(4) by (simp only: take_add)
  qed
  have u2: "unat ?br = min ((i + 1) * ?bs) n"
    using unat_add_chunk [OF Suc.prems(2), of "map to_byte xs"] Suc.prems(1) assms(3,6) by simp
  have cmp: "fsize \<le> ucast ?br \<longleftrightarrow> n \<le> (i + 1) * ?bs" using u2 assms(5) by (simp add: word_le_nat_alt)
  show ?case
  proof (cases "n \<le> (i + 1) * ?bs")
    case True
    then have "?br = of_nat n" using u2 by (intro word_of_unat) simp
    moreover have "take ((i + 1) * ?bs) xs = xs" using True assms(3) by simp
    moreover have "read_direct [i..<12] fs ino fsize (buf, out, br) = (?b, foldl large_append_char out ?cs, ?br)"
      using r st cmp True by (simp add: up)
    ultimately show ?thesis using o lo by auto
  next
    case False
    have "\<exists>buf' out'. read_direct [i + 1..<12] fs ino fsize (?b, foldl large_append_char out ?cs, ?br) = (buf', out', of_nat n)
      \<and> large_ok out' \<and> lchars out' = xs"
      by (rule Suc.hyps(1) [OF i(2)]) (use False u2 o lo in auto)
    moreover have "read_direct [i..<12] fs ino fsize (buf, out, br)
        = read_direct [i + 1..<12] fs ino fsize (?b, foldl large_append_char out ?cs, ?br)"
      using r st cmp False by (simp add: up)
    ultimately show ?thesis by simp
  qed
qed

lemma read_content_eq:
  assumes "blocks_ok fs" and "room_for fs ino n" and "n = length xs" and "NUL \<notin> set xs" and "unat (file_size ino) = n" and "n < 2 ^ 32"
    and "\<And>j. j * unat (block_size fs) < n \<Longrightarrow>
      take (length (chunk (unat (block_size fs)) (map to_byte xs) j)) (read_block fs (direct_blk_ptr ino j) 1)
      = chunk (unat (block_size fs)) (map to_byte xs) j"
  shows "lchars (read_content fs ino) = xs"
proof -
  let ?s0 = "(replicate (unat (block_size fs)) 0, large_new, 0)"
  have "\<exists>buf out. read_direct [0..<12] fs ino (file_size ino) ?s0 = (buf, out, of_nat n) \<and> lchars out = xs"
  proof (cases "n = 0")
    case True
    then have "file_size ino = 0" using assms(5) by (simp add: unat_eq_0)
    moreover have "[0..<12] = 0 # [1..<12]" by (simp add: upt_rec)
    ultimately show ?thesis using True assms(3) by (simp add: read_file_block_def lchars_def large_new_def)
  next
    case False
    have "large_ok large_new" "lchars large_new = []" by (simp_all add: large_ok_def lchars_def large_new_def)
    then show ?thesis
      using read_direct_content [OF assms(1-7), of 0 0 large_new "replicate (unat (block_size fs)) 0"] False by auto
  qed
  then obtain buf out where "read_direct [0..<12] fs ino (file_size ino) ?s0 = (buf, out, of_nat n)" "lchars out = xs" by blast
  moreover have "\<not> ucast (of_nat n :: u32) < file_size ino"
    using assms(5,6) by (simp add: word_less_nat_alt unat_of_nat)
  ultimately show ?thesis by (simp add: read_content_def read_indirect_def)
qed

section \<open>Files\<close>

lemma size_set_size: "length ino = 128 \<Longrightarrow> file_size (set_size n ino) = n"
proof -
  assume l: "length ino = 128"
  have "ucast (ucast n :: u32) OR push_bit 32 (ucast (ucast (drop_bit 32 n) :: u32)) = n"
  proof (rule bit_eqI)
    fix k
    assume "possible_bit TYPE(64 word) k"
    then have "k < 64" by simp
    moreover have "32 \<le> k \<Longrightarrow> 32 + (k - 32) = k" by simp
    ultimately show "bit (ucast (ucast n :: u32) OR push_bit 32 (ucast (ucast (drop_bit 32 n) :: u32)) :: u64) k = bit n k"
      by (cases "k < 32") (auto simp: bit_simps)
  qed
  then show ?thesis by (simp add: file_size_def size_low_def size_high_def set_size_def l)
qed

text \<open>The path leads to a file: its node, and its inode in memory.\<close>

definition opens :: "world \<Rightarrow> dstring \<Rightarrow> u32 \<Rightarrow> u32 \<Rightarrow> u8 list \<Rightarrow> bool" where
  "opens w path inode_num inode ino \<longleftrightarrow> (\<exists>p tn. get_node (vfs_tree (w_vfs w)) path = Some p \<and> p \<noteq> 0
     \<and> t_heap (vfs_tree (w_vfs w)) p = Some tn \<and> vn_inode_num (tn_data tn) = inode_num \<and> inode_num \<noteq> EXT2_BAD_INO
     \<and> vn_inode (tn_data tn) = inode \<and> inode \<noteq> 0 \<and> w_inodes w inode = Some ino \<and> \<not> INODE_IS_DIR ino)"

lemma write_blocks_direct:
  assumes "write_direct [0..<12] input tot ino (fs, 0) = Some (ino, fs', of_nat n)" and "unat tot = n" and "n < 2 ^ 32"
  shows "write_blocks input 0 tot ino fs = Some (ino, fs')"
proof -
  have "\<not> ucast (of_nat n :: u32) < tot" using assms(2,3) by (simp add: word_less_nat_alt unat_of_nat)
  then show ?thesis using assms(1) by (simp add: write_blocks_def write_indirect_def)
qed

lemma inodes_ok_same_layout:
  assumes "same_layout fs fs'"
  shows "inodes_ok fs' = inodes_ok fs" and "inode_place fs' k = inode_place fs k"
  using assms by (simp_all add: same_layout_def inodes_ok_def inode_place_def)

text \<open>The inode after a file has been written over: the size and the times are new.\<close>

definition resized :: "u32 \<Rightarrow> u64 \<Rightarrow> u8 list \<Rightarrow> u8 list" where
  "resized now tot ino = set_access_time now (set_mod_time now (set_size tot ino))"

lemma resized_inode:
  assumes "length ino = 128"
  shows "length (resized now tot ino) = 128" and "file_size (resized now tot ino) = tot"
    and "get_perms (Some (resized now tot ino)) uid gid = get_perms (Some ino) uid gid"
    and "INODE_IS_DIR (resized now tot ino) = INODE_IS_DIR ino"
    and "j < 12 \<Longrightarrow> direct_blk_ptr (resized now tot ino) j = direct_blk_ptr ino j"
proof -
  have i: "type_and_perm (resized now tot ino) = type_and_perm ino" "i_uid (resized now tot ino) = i_uid ino"
    "i_gid (resized now tot ino) = i_gid ino"
    using assms by (simp_all add: resized_def set_access_time_def set_mod_time_def set_size_def type_and_perm_def i_uid_def i_gid_def)
  show "get_perms (Some (resized now tot ino)) uid gid = get_perms (Some ino) uid gid"
    by (simp only: get_perms_def option.case i)
  show "INODE_IS_DIR (resized now tot ino) = INODE_IS_DIR ino" by (simp only: INODE_IS_DIR_def i)
  show "length (resized now tot ino) = 128" "file_size (resized now tot ino) = tot"
    using assms size_set_size [OF assms, of tot]
    by (simp_all add: resized_def set_access_time_def set_mod_time_def set_size_def file_size_def size_low_def size_high_def)
  show "direct_blk_ptr (resized now tot ino) j = direct_blk_ptr ino j" if "j < 12"
    using that by (simp add: resized_def set_access_time_def set_mod_time_def set_size_def direct_blk_ptr_def)
qed

lemma store_inode:
  assumes "inodes_ok fs" and "on_disk fs (fst (inode_place fs num))" and "length ino = 128"
  obtains fs2 where "write_inode fs num ino = Some fs2" and "load_inode fs2 num = Some ino" and "same_layout fs fs2"
    and "\<And>b. on_disk fs b \<Longrightarrow> b \<noteq> fst (inode_place fs num) \<Longrightarrow> read_block fs2 b 1 = read_block fs b 1"
proof -
  let ?b0 = "fst (inode_place fs num)"
  let ?v = "put_bytes (snd (inode_place fs num)) ino (read_block fs ?b0 1)"
  have w: "write_inode fs num ino = Some (write_block fs ?b0 ?v 1)"
    using write_inode_place [OF assms(1), of num ino] assms(3) by simp
  have len: "snd (inode_place fs num) + 128 \<le> unat (block_size fs)"
    using inode_offset(2) [OF assms(1), of num] assms(1) by (simp add: inodes_ok_def)
  have b: "blocks_ok fs" using assms(1) by (simp add: inodes_ok_def)
  have fit: "block_fits fs ?v" using len assms(3) length_read_block [OF b, of ?b0] by (simp add: block_fits_def)
  have ld: "load_inode (write_block fs ?b0 ?v 1) num = Some ino"
    using load_written_inode [OF assms(1,2,2,3)] w by auto
  have "read_block (write_block fs ?b0 ?v 1) b 1 = read_block fs b 1" if "on_disk fs b" "b \<noteq> ?b0" for b
    using read_write_block [OF assms(2) that(1) fit] that(2) by simp
  then show ?thesis using that [OF w ld same_layout_write [OF assms(2) fit]] by blast
qed

lemma write_over_stores:
  assumes "opens w path num inode ino" and "length ino = 128" and "w_curr_fs w \<noteq> 0" and "fs = w_fs w (w_curr_fs w)"
    and "inodes_ok fs" and "on_disk fs (fst (inode_place fs num))" and "string_ok input" and "n = length (chars input)"
    and "room_for fs ino n" and "\<forall>j. j * unat (block_size fs) < n \<longrightarrow> direct_blk_ptr ino j \<noteq> fst (inode_place fs num)"
    and "tot = ucast (string_size input)"
  obtains fs2 where "write_file_content now path input True w
      = Some (True, w\<lparr>w_inodes := (w_inodes w)(inode \<mapsto> resized now tot ino), w_fs := (w_fs w)(w_curr_fs w := fs2)\<rparr>)"
    and "load_inode fs2 num = Some (resized now tot ino)" and "same_layout fs fs2"
    and "\<And>b. on_disk fs b \<Longrightarrow> b \<noteq> fst (inode_place fs num) \<Longrightarrow> \<forall>j. j * unat (block_size fs) < n \<longrightarrow> b \<noteq> direct_blk_ptr ino j \<Longrightarrow>
        read_block fs2 b 1 = read_block fs b 1"
    and "\<And>j. j * unat (block_size fs) < n \<Longrightarrow>
        take (length (chunk (unat (block_size fs)) (map to_byte (chars input)) j)) (read_block fs2 (direct_blk_ptr ino j) 1)
        = chunk (unat (block_size fs)) (map to_byte (chars input)) j"
proof -
  let ?bs = "unat (block_size fs)" and ?b0 = "fst (inode_place fs num)" and ?ino1 = "resized now tot ino"
  have bok: "blocks_ok fs" using assms(5) by (simp add: inodes_ok_def)
  have n32: "n < 2 ^ 32" and tot: "unat tot = n"
    using assms(7,8,11) unat_less_lit [of "d_len input"] by (simp_all add: string_ok_def string_size_def)
  obtain fs1 where fs1: "write_direct [0..<12] input tot ino (fs, 0) = Some (ino, fs1, of_nat n)" "same_layout fs fs1"
    and st: "\<And>j. j * ?bs < n \<Longrightarrow> take (length (chunk ?bs (map to_byte (chars input)) j)) (read_block fs1 (direct_blk_ptr ino j) 1)
        = chunk ?bs (map to_byte (chars input)) j"
    and ot: "\<And>b. on_disk fs b \<Longrightarrow> \<forall>j. j * ?bs < n \<longrightarrow> b \<noteq> direct_blk_ptr ino j \<Longrightarrow> read_block fs1 b 1 = read_block fs b 1"
    using write_direct_stores [OF bok assms(7,9,8) tot, of 0 0] by (auto simp: Let_def)
  note ok1 = inodes_ok_same_layout [OF fs1(2)] and od1 = same_layout_derived(4) [OF fs1(2)]
  have iok: "inodes_ok fs1" and od: "on_disk fs1 (fst (inode_place fs1 num))" using ok1 assms(5,6) od1 by simp_all
  obtain fs2 where w2: "write_inode fs1 num ?ino1 = Some fs2" "load_inode fs2 num = Some ?ino1" "same_layout fs1 fs2"
    and rd: "\<And>b. on_disk fs1 b \<Longrightarrow> b \<noteq> fst (inode_place fs1 num) \<Longrightarrow> read_block fs2 b 1 = read_block fs1 b 1"
    by (rule store_inode [OF iok od resized_inode(1) [OF assms(2)]]) blast
  have run: "write_file_content now path input True w
      = Some (True, w\<lparr>w_inodes := (w_inodes w)(inode \<mapsto> ?ino1), w_fs := (w_fs w)(w_curr_fs w := fs2)\<rparr>)"
    using assms(1,3,4,11) write_blocks_direct [OF fs1(1) tot n32] w2(1)
    by (auto simp: opens_def write_file_content_def Let_def resized_def)
  have rd': "read_block fs2 b 1 = read_block fs1 b 1" if "on_disk fs b" "b \<noteq> ?b0" for b
    using rd [of b] that ok1(2) od1 by simp
  have "read_block fs2 b 1 = read_block fs b 1"
    if "on_disk fs b" "b \<noteq> ?b0" "\<forall>j. j * ?bs < n \<longrightarrow> b \<noteq> direct_blk_ptr ino j" for b
    using rd' [OF that(1,2)] ot [OF that(1,3)] by simp
  moreover have "read_block fs2 (direct_blk_ptr ino j) 1 = read_block fs1 (direct_blk_ptr ino j) 1" if "j * ?bs < n" for j
    using rd' assms(9,10) that by (auto simp: room_for_def)
  ultimately show ?thesis using that [OF run w2(2) same_layout_trans [OF fs1(2) w2(3)]] st by simp
qed

lemma written_file_reads:
  assumes "opens w path num inode ino" and "length ino = 128" and "w_curr_fs w \<noteq> 0" and "fs = w_fs w (w_curr_fs w)"
    and "inodes_ok fs" and "on_disk fs (fst (inode_place fs num))" and "string_ok input" and "n = length (chars input)"
    and "room_for fs ino n" and "\<forall>j. j * unat (block_size fs) < n \<longrightarrow> direct_blk_ptr ino j \<noteq> fst (inode_place fs num)"
    and "p_read (get_perms (Some ino) (currUid (w_vfs w)) (currGid (w_vfs w)))"
    and "ino1 = resized now (ucast (string_size input)) ino"
  obtains fs2 out w2 where "write_file_content now path input True w
      = Some (True, w\<lparr>w_inodes := (w_inodes w)(inode \<mapsto> ino1), w_fs := (w_fs w)(w_curr_fs w := fs2)\<rparr>)"
    and "load_inode fs2 num = Some ino1"
    and "\<And>b. on_disk fs b \<Longrightarrow> b \<noteq> fst (inode_place fs num) \<Longrightarrow> \<forall>j. j * unat (block_size fs) < n \<longrightarrow> b \<noteq> direct_blk_ptr ino j \<Longrightarrow>
        read_block fs2 b 1 = read_block fs b 1"
    and "get_file_contents now' path (w\<lparr>w_inodes := (w_inodes w)(inode \<mapsto> ino1), w_fs := (w_fs w)(w_curr_fs w := fs2)\<rparr>) = Some (out, w2)"
    and "lchars out = chars input" and "w_vfs w2 = w_vfs w"
proof -
  let ?tot = "ucast (string_size input) :: u64"
  obtain fs2 where run: "write_file_content now path input True w
      = Some (True, w\<lparr>w_inodes := (w_inodes w)(inode \<mapsto> ino1), w_fs := (w_fs w)(w_curr_fs w := fs2)\<rparr>)"
    and ld: "load_inode fs2 num = Some ino1" and sl: "same_layout fs fs2"
    and rest: "\<And>b. on_disk fs b \<Longrightarrow> b \<noteq> fst (inode_place fs num) \<Longrightarrow> \<forall>j. j * unat (block_size fs) < n \<longrightarrow> b \<noteq> direct_blk_ptr ino j \<Longrightarrow>
        read_block fs2 b 1 = read_block fs b 1"
    and st: "\<And>j. j * unat (block_size fs) < n \<Longrightarrow>
        take (length (chunk (unat (block_size fs)) (map to_byte (chars input)) j)) (read_block fs2 (direct_blk_ptr ino j) 1)
        = chunk (unat (block_size fs)) (map to_byte (chars input)) j"
    by (rule write_over_stores [OF assms(1-10) refl, where now = now]) (use assms(12) in blast)
  let ?w1 = "w\<lparr>w_inodes := (w_inodes w)(inode \<mapsto> ino1), w_fs := (w_fs w)(w_curr_fs w := fs2)\<rparr>"
  note r = resized_inode [OF assms(2), where now = now and tot = ?tot, folded assms(12)]
  have n: "unat ?tot = n" "n < 2 ^ 32"
    using assms(7,8) unat_less_lit [of "d_len input"] by (simp_all add: string_ok_def string_size_def)
  have bs: "block_size fs2 = block_size fs" and bok: "blocks_ok fs2"
    using sl assms(5) by (simp_all add: same_layout_def inodes_ok_def)
  have same: "lchars (read_content fs2 ino1) = chars input"
  proof (rule read_content_eq [OF bok, of _ n])
    show "room_for fs2 ino1 n" using assms(9) r(5) same_layout_derived(4) [OF sl] unfolding room_for_def bs by simp
    show "NUL \<notin> set (chars input)" using assms(7) by (simp add: string_ok_def)
    fix j
    assume j: "j * unat (block_size fs2) < n"
    then have "j < 12" using assms(9) unfolding room_for_def bs by blast
    then show "take (length (chunk (unat (block_size fs2)) (map to_byte (chars input)) j)) (read_block fs2 (direct_blk_ptr ino1 j) 1)
      = chunk (unat (block_size fs2)) (map to_byte (chars input)) j"
      using st j r(5) unfolding bs by simp
  qed (use assms(8) r(2) n in simp_all)
  have g: "get_file_contents now' path ?w1
      = Some (read_content fs2 ino1, ?w1\<lparr>w_inodes := (w_inodes ?w1)(inode \<mapsto> set_access_time now' ino1)\<rparr>)"
    using assms(1,3,11) r(3,4) by (auto simp: opens_def get_file_contents_def Let_def)
  show ?thesis by (rule that [OF run ld rest g same]) simp_all
qed

text \<open>
  C10: writing a text over the content of a file that has enough direct blocks, and then reading the
  file.  The file's blocks must be distinct blocks of the drive, apart from the one its inode is
  in.  The write succeeds, the inode on the drive is the one in memory and has the new size, no
  other block of the drive has changed, and reading the file gives the text.
\<close>

theorem write_then_read_file:
  assumes "opens w path num inode ino" and "length ino = 128" and "w_curr_fs w \<noteq> 0" and "fs = w_fs w (w_curr_fs w)"
    and "inodes_ok fs" and "on_disk fs (fst (inode_place fs num))" and "string_ok input" and "n = length (chars input)"
    and "room_for fs ino n" and "\<forall>j. j * unat (block_size fs) < n \<longrightarrow> direct_blk_ptr ino j \<noteq> fst (inode_place fs num)"
    and "p_read (get_perms (Some ino) (currUid (w_vfs w)) (currGid (w_vfs w)))"
  shows "\<exists>w1 ino1 out w2. write_file_content now path input True w = Some (True, w1)
    \<and> w_inodes w1 inode = Some ino1 \<and> load_inode (w_fs w1 (w_curr_fs w)) num = Some ino1 \<and> unat (file_size ino1) = n
    \<and> (\<forall>b. on_disk fs b \<longrightarrow> b \<noteq> fst (inode_place fs num) \<longrightarrow> (\<forall>j. j * unat (block_size fs) < n \<longrightarrow> b \<noteq> direct_blk_ptr ino j) \<longrightarrow>
        read_block (w_fs w1 (w_curr_fs w)) b 1 = read_block fs b 1)
    \<and> get_file_contents now' path w1 = Some (out, w2) \<and> lchars out = chars input"
proof -
  let ?ino1 = "resized now (ucast (string_size input)) ino"
  obtain fs2 out w2 where "write_file_content now path input True w
      = Some (True, w\<lparr>w_inodes := (w_inodes w)(inode \<mapsto> ?ino1), w_fs := (w_fs w)(w_curr_fs w := fs2)\<rparr>)"
    and "load_inode fs2 num = Some ?ino1"
    and "\<And>b. on_disk fs b \<Longrightarrow> b \<noteq> fst (inode_place fs num) \<Longrightarrow> \<forall>j. j * unat (block_size fs) < n \<longrightarrow> b \<noteq> direct_blk_ptr ino j \<Longrightarrow>
        read_block fs2 b 1 = read_block fs b 1"
    and "get_file_contents now' path (w\<lparr>w_inodes := (w_inodes w)(inode \<mapsto> ?ino1), w_fs := (w_fs w)(w_curr_fs w := fs2)\<rparr>) = Some (out, w2)"
    and "lchars out = chars input"
    by (rule written_file_reads [OF assms refl, where now = now and now' = now']) blast
  moreover have "unat (file_size ?ino1) = n"
    using assms(7,8) resized_inode(2) [OF assms(2)] unat_less_lit [of "d_len input"] by (simp add: string_ok_def string_size_def)
  ultimately show ?thesis by (intro exI conjI) (assumption | simp)+
qed

section \<open>Files the code does not handle\<close>

lemma read_file_block_0 [simp]: "read_file_block fs fsize 0 s = s"
  by (simp add: read_file_block_def split: prod.splits)

lemma entries_loop_empty:
  "(\<forall>j \<ge> i. j < i + n \<longrightarrow> get32 (4 * j) (fst s) = 0) \<Longrightarrow> entries_loop (read_file_block fs fsize) fsize i n s = s"
  by (induction n arbitrary: i) (auto simp: Let_def)

text \<open>
  Reading through an indirect block loses data.  The table of pointers is read into the same
  buffer as the blocks it names, so after the first one the pointers are taken from the content of
  the file.  When that block holds only zeroes behind its first four bytes, reading ends after it,
  whatever the table says and however much of the file is left.
\<close>

lemma read_indirect_loses_data:
  assumes "blocks_ok fs" and "block_size fs \<noteq> 0" and "t \<noteq> 0" and "p = get32 0 (read_block fs t 1)" and "p \<noteq> 0"
    and "unat br + unat (block_size fs) < unat fsize"
    and "\<forall>j. 1 \<le> j \<and> 4 * j + 4 \<le> unat (block_size fs) \<longrightarrow> get32 (4 * j) (read_block fs p 1) = 0"
  shows "read_level 1 fs fsize t (buf, out, br)
      = (read_block fs p 1, foldl large_append_char out (map to_char (read_block fs p 1)), br + block_size fs)
    \<and> br + block_size fs < fsize"
proof -
  let ?b = "read_block fs p 1" and ?br = "br + block_size fs"
  have ub: "unat ?br = unat br + unat (block_size fs)"
    using assms(6) unat_less_lit [of fsize] by (subst unat_add_no_wrap) simp_all
  then have lt: "?br < fsize" using assms(6) by (simp add: word_less_nat_alt)
  have le: "\<not> fsize \<le> br" using assms(6) by (simp add: word_le_nat_alt)
  have "unat (fsize - br) = unat fsize - unat br" using le by (subst unat_sub) auto
  then have tc: "block_size fs < fsize - br" using assms(6) by (simp add: word_less_nat_alt)
  have tk: "take (unat (block_size fs)) ?b = ?b" using length_read_block [OF assms(1), of p] by simp
  let ?n = "unat (block_size fs div 4)"
  have "512 dvd unat (block_size fs)" "0 < unat (block_size fs)" using assms(1,2) by (auto simp: blocks_ok_def unat_gt_0)
  then have n: "?n = Suc (?n - 1)" "4 * ?n \<le> unat (block_size fs)" by (auto simp: unat_div dest: dvd_imp_le)
  have first: "read_file_block fs fsize p (read_block fs t 1, out, br) = (?b, foldl large_append_char out (map to_char ?b), ?br)"
    using le tc tk assms(5) by (simp add: read_file_block_def Let_def)
  have z: "\<forall>j \<ge> 1. j < 1 + (?n - 1) \<longrightarrow> get32 (4 * j) ?b = 0" using assms(7) n by auto
  have "read_level 1 fs fsize t (buf, out, br) = entries_loop (read_file_block fs fsize) fsize 0 (Suc (?n - 1)) (read_block fs t 1, out, br)"
    using le assms(3) n(1) by simp
  also have "\<dots> = entries_loop (read_file_block fs fsize) fsize 1 (?n - 1) (?b, foldl large_append_char out (map to_char ?b), ?br)"
    using first lt assms(4) by (simp add: Let_def)
  also have "\<dots> = (?b, foldl large_append_char out (map to_char ?b), ?br)" by (rule entries_loop_empty) (use z in simp)
  finally show ?thesis using lt by simp
qed

text \<open>
  Appending to a file that is longer than the text reads outside the text: the characters are
  taken at the offset in the file, not at the offset in the text.
\<close>

lemma append_reads_past_input:
  assumes "opens w path num inode ino" and "w_curr_fs w \<noteq> 0" and "block_size (w_fs w (w_curr_fs w)) \<noteq> 0"
    and "direct_blk_ptr ino 0 \<noteq> 0" and "string_ok input" and "0 < length (chars input)"
    and "length (chars input) < unat (file_size ino)" and "unat (file_size ino) + length (chars input) < 2 ^ 32"
  shows "write_file_content now path input False w = None"
proof -
  let ?fs = "w_fs w (w_curr_fs w)" and ?old = "file_size ino" and ?new = "ucast (string_size input) :: u64"
  have new: "unat ?new = length (chars input)" using assms(5) by (simp add: string_ok_def string_size_def)
  have tot: "unat (?old + ?new) = unat ?old + length (chars input)" using assms(8) new by (subst unat_add_no_wrap) simp_all
  let ?bw = "ucast ?old :: u32" and ?f = "ucast (?old + ?new) :: u32"
  have bw: "unat ?bw = unat ?old" "unat ?f = unat ?old + length (chars input)"
    using assms(8) tot by (simp_all add: unsigned_ucast_eq take_bit_eq_mod)
  have lt: "ucast ?bw < ?old + ?new" using bw tot assms(6) by (simp add: word_less_nat_alt)
  let ?off = "?bw mod block_size ?fs"
  let ?tw = "if block_size ?fs - ?off < ?f - ?bw then block_size ?fs - ?off else ?f - ?bw"
  have "unat ?off < unat (block_size ?fs)" using assms(3) by (simp add: unat_mod unat_gt_0)
  then have "block_size ?fs - ?off \<noteq> 0" by (metis eq_iff_diff_eq_0 less_irrefl)
  moreover have "?f - ?bw \<noteq> 0" using bw assms(6) by (metis eq_iff_diff_eq_0 less_add_same_cancel1 less_irrefl)
  ultimately have "0 < unat ?tw" by (simp add: unat_gt_0)
  then obtain m where m: "unat ?tw = Suc m" using gr0_implies_Suc by blast
  have "string_nth input ?bw = None"
    using bw assms(7) by (auto simp: string_nth_def chars_def split: option.splits)
  then have ib: "input_bytes input ?bw (unat ?tw) = None" unfolding m by simp
  have nle: "\<not> ?f \<le> ?bw" using bw assms(6) by (simp add: word_le_nat_alt)
  have "write_file_block input ?f (direct_blk_ptr ino 0) (?fs, ?bw) = (case input_bytes input ?bw (unat ?tw) of None \<Rightarrow> None
      | Some bs \<Rightarrow> Some (direct_blk_ptr ino 0, write_block ?fs (direct_blk_ptr ino 0) (put_bytes (unat ?off) bs (read_block ?fs (direct_blk_ptr ino 0) 1)) 1, ?bw + ?tw))"
    using assms(3,4) nle by (simp add: write_file_block_def Let_def)
  then have wf: "write_file_block input ?f (direct_blk_ptr ino 0) (?fs, ?bw) = None" unfolding ib by simp
  have "[0..<12] = 0 # [1..<12]" by (simp add: upt_rec)
  then have "write_direct [0..<12] input (?old + ?new) ino (?fs, ?bw) = None" using lt wf by simp
  then have "write_blocks input ?old (?old + ?new) ino ?fs = None" by (simp add: write_blocks_def)
  then show ?thesis using assms(1,2) by (auto simp: opens_def write_file_content_def Let_def)
qed

section \<open>A small file\<close>

definition demo_ino :: "u32 \<Rightarrow> u8 list" where
  "demo_ino n = put32 4 n (put32 40 20 (put16 0 0x81A4 (replicate 128 0)))"

definition demo_file :: vfsNode where
  "demo_file = \<lparr>vn_name = string_of_cstr ''f'', vn_path = string_of_cstr ''/f'', vn_is_dir = False,
     vn_inode_num = 12, vn_inode = 0x700, vn_fs = 0x600\<rparr>"

definition demo_world :: "u32 \<Rightarrow> world" where
  "demo_world n = \<lparr>w_vfs = \<lparr>vfs_tree = \<lparr>t_heap = [0x100 \<mapsto> \<lparr>tn_data = demo_root, tn_parent = 0, tn_first_child = 0x200, tn_next_sibling = 0\<rparr>,
       0x200 \<mapsto> \<lparr>tn_data = demo_file, tn_parent = 0x100, tn_first_child = 0, tn_next_sibling = 0\<rparr>], t_root = 0x100\<rparr>,
     currentDir = string_of_cstr ''/'', currUid = 0, currGid = 0, device_name_index = 0, ide_device_name_index = 0\<rparr>,
     w_inodes = [0x700 \<mapsto> demo_ino n], w_fs = (\<lambda>_. demo_fs), w_curr_fs = 0x600, w_addrs = []\<rparr>"

lemma demo_world_fields:
  "w_curr_fs (demo_world n) = 0x600" "w_fs (demo_world n) 0x600 = demo_fs" "currUid (w_vfs (demo_world n)) = 0"
  by (simp_all add: demo_world_def)

lemma demo_ino_facts:
  "length (demo_ino n) = 128" "direct_blk_ptr (demo_ino n) 0 = 20" "file_size (demo_ino n) = ucast n" "\<not> INODE_IS_DIR (demo_ino n)"
  by (simp_all add: demo_ino_def direct_blk_ptr_def file_size_def size_low_def size_high_def INODE_IS_DIR_def type_and_perm_def mode_bits)

lemma demo_opens: "opens (demo_world n) (string_of_cstr ''/f'') 12 0x700 (demo_ino n)"
proof -
  let ?v = "vfs_tree (w_vfs (demo_world n))" and ?t = "T 0x100 demo_root [T 0x200 demo_file []]"
  have r: "is_tree (t_heap ?v) ?t" "t_root ?v = root ?t" "named ?t"
    by (simp_all add: demo_world_def is_tree_def demo_root_def demo_file_def string_of_cstr_def string_ok_def chars_def)
  have "string_ok (string_of_cstr ''/f'')" by (simp add: string_ok_def string_of_cstr_def chars_def)
  then have "get_node ?v (string_of_cstr ''/f'') = Some 0x200"
    using get_node_eq [OF r, of "string_of_cstr ''/f''" "''f''"]
    by (simp add: string_of_cstr_def chars_def parts_def name_of_def demo_file_def)
  then show ?thesis
    by (simp add: opens_def demo_ino_facts(4)) (simp add: demo_world_def demo_file_def EXT2_BAD_INO_def)
qed

lemma demo_inodes: "inodes_ok demo_fs" "inode_place demo_fs 12 = (6, 384)"
proof -
  have f: "sb_blkgroup_inode_num (sb demo_fs) = 1024" "sb_inode_size (sb demo_fs) = 128" "inodes_per_group demo_fs = 1024"
    "bg_inode_table demo_fs 0 = 5"
    by (simp_all add: demo_fs_def sb_blkgroup_inode_num_def sb_inode_size_def bg_inode_table_def)
  show "inodes_ok demo_fs" using demo_fs_ok by (simp add: inodes_ok_def fs_ok_def f demo_fs_fields)
  show "inode_place demo_fs 12 = (6, 384)" by (simp add: inode_place_def Let_def f demo_fs_fields)
qed

lemma demo_on_disk: "unat b < 100 \<Longrightarrow> on_disk demo_fs b"
  using demo_fs_ok by (simp add: fs_ok_def on_disk_def block_sectors_def) (simp add: demo_fs_def)

theorem write_then_read_file_witness:
  "\<exists>w1 out w2. write_file_content 7 (string_of_cstr ''/f'') (string_of_cstr ''hi'') True (demo_world 0) = Some (True, w1)
    \<and> get_file_contents 8 (string_of_cstr ''/f'') w1 = Some (out, w2) \<and> lchars out = ''hi''"
proof -
  have s: "string_ok (string_of_cstr ''hi'')" "chars (string_of_cstr ''hi'') = ''hi''"
    by (simp_all add: string_ok_def string_of_cstr_def chars_def)
  have j: "j * 1024 < 2 \<longleftrightarrow> j = 0" for j :: nat by (cases j) auto
  have r: "room_for demo_fs (demo_ino 0) 2"
    using demo_on_disk [of 20] by (simp add: room_for_def demo_fs_fields j demo_ino_facts)
  have nz: "w_curr_fs (demo_world 0) \<noteq> 0" by (simp add: demo_world_def)
  have fs: "w_fs (demo_world 0) (w_curr_fs (demo_world 0)) = demo_fs" by (simp add: demo_world_fields)
  have root: "p_read (get_perms (Some (demo_ino 0)) (currUid (w_vfs (demo_world 0))) (currGid (w_vfs (demo_world 0))))"
    by (simp add: get_perms_def demo_world_fields)
  have other: "\<forall>j. j * unat (block_size demo_fs) < 2 \<longrightarrow> direct_blk_ptr (demo_ino 0) j \<noteq> fst (inode_place demo_fs 12)"
    by (simp add: demo_fs_fields j demo_ino_facts demo_inodes(2))
  have od: "on_disk demo_fs (fst (inode_place demo_fs 12))" by (simp add: demo_inodes(2) demo_on_disk)
  have two: "2 = length (chars (string_of_cstr ''hi''))" by (simp add: s)
  show ?thesis
    using write_then_read_file [OF demo_opens demo_ino_facts(1) nz fs [symmetric] demo_inodes(1) od s(1) two r other root, of 7 8]
    unfolding s(2) by blast
qed

lemma read_indirect_loses_data_witness:
  "let fs = write_block demo_fs 30 (put32 0 31 (replicate 1024 0)) 1
   in snd (snd (read_level 1 fs 5000 30 ([], large_new, 0))) = 1024"
proof -
  let ?v = "put32 0 31 (replicate 1024 0) :: u8 list" and ?fs = "write_block demo_fs 30 (put32 0 31 (replicate 1024 0)) 1"
  have fit: "block_fits demo_fs ?v" by (simp add: block_fits_def demo_fs_fields)
  have rd: "read_block ?fs b 1 = (if 30 = b then ?v else read_block demo_fs b 1)" if "unat b < 100" for b
    using read_write_block [OF demo_on_disk demo_on_disk [OF that] fit, of 30] by simp
  have ok: "blocks_ok ?fs" using blocks_ok_write [OF demo_on_disk fit, of 30] by simp
  have z: "read_block demo_fs 31 1 = replicate 1024 0"
  proof -
    have "read_block demo_fs 31 1 = disk_read 62 2 (disk demo_fs)"
      by (simp add: read_block_def block_lba_def lba_blocks_def demo_fs_fields) (simp add: demo_fs_def)
    also have "\<dots> = replicate 512 0 @ replicate 512 0" by (simp add: numeral_2_eq_2) (simp add: demo_fs_def)
    finally show ?thesis by (simp flip: replicate_add)
  qed
  show ?thesis
    using read_indirect_loses_data [OF ok, of 30 31 0 5000 "[]" large_new] rd [of 30] rd [of 31] z
    by (simp add: Let_def demo_fs_fields)
qed

lemma append_reads_past_input_witness:
  "write_file_content 7 (string_of_cstr ''/f'') (string_of_cstr ''hi'') False (demo_world 100) = None"
proof -
  have s: "string_ok (string_of_cstr ''hi'')" "chars (string_of_cstr ''hi'') = ''hi''"
    by (simp_all add: string_ok_def string_of_cstr_def chars_def)
  show ?thesis
    using append_reads_past_input [OF demo_opens [of 100], of "string_of_cstr ''hi''" 7] s
    by (simp add: demo_ino_facts demo_world_fields demo_fs_fields)
qed

end
