(* ===== verification/Ext2Ops.thy ===== *)
theory Ext2Ops
  imports Ext2File
begin

text \<open>
  The operations of the Ext2 file system that connect the directories on the drive with the tree of
  the virtual file system, from \<open>src/kernel/fs/ext/ext2.cpp\<close>: listing a directory, changing the
  current one, making directories and files, and removing entries.  The state is the one of
  \<open>Ext2File\<close>; \<open>now\<close> is what the clock gives.
\<close>

section \<open>Inodes and nodes in memory\<close>

definition EXT2_FT_DIR :: u8 where "EXT2_FT_DIR = 2"

definition take_addr :: "world \<Rightarrow> (u32 \<times> world) option" where
  "take_addr w = (case w_addrs w of [] \<Rightarrow> None | a # as \<Rightarrow> Some (a, w\<lparr>w_addrs := as\<rparr>))"

text \<open>\<open>load_inode\<close> into new memory.\<close>

definition fetch_inode :: "u32 \<Rightarrow> u32 \<Rightarrow> world \<Rightarrow> (u32 \<times> world) option" where
  "fetch_inode fs inode_num w =
     do {
       ino \<leftarrow> load_inode (w_fs w fs) inode_num;
       (a, w1) \<leftarrow> take_addr w;
       Some (a, w1\<lparr>w_inodes := (w_inodes w1)(a \<mapsto> ino)\<rparr>) }"

definition mode_of :: "world \<Rightarrow> u32 \<Rightarrow> u16" where
  "mode_of w p = (case w_inodes w p of None \<Rightarrow> 0 | Some ino \<Rightarrow> type_and_perm ino)"

definition perms_of :: "world \<Rightarrow> u32 \<Rightarrow> ext2_perms" where
  "perms_of w p = get_perms (w_inodes w p) (currUid (w_vfs w)) (currGid (w_vfs w))"

definition heap_of :: "world \<Rightarrow> vfsNode theap" where
  "heap_of w = t_heap (vfs_tree (w_vfs w))"

definition set_heap :: "vfsNode theap \<Rightarrow> world \<Rightarrow> world" where
  "set_heap h w = w\<lparr>w_vfs := (w_vfs w)\<lparr>vfs_tree := (vfs_tree (w_vfs w))\<lparr>t_heap := h\<rparr>\<rparr>\<rparr>"

definition set_fs :: "u32 \<Rightarrow> ext2_fs_t \<Rightarrow> world \<Rightarrow> world" where
  "set_fs p fs w = w\<lparr>w_fs := (w_fs w)(p := fs)\<rparr>"

definition set_inode :: "u32 \<Rightarrow> u8 list \<Rightarrow> world \<Rightarrow> world" where
  "set_inode p ino w = w\<lparr>w_inodes := (w_inodes w)(p \<mapsto> ino)\<rparr>"

text \<open>\<open>vfs::add_node\<close> with a new address for the node it may create.\<close>

definition add_entry :: "u32 \<Rightarrow> dstring \<Rightarrow> u32 \<Rightarrow> u32 \<Rightarrow> u32 \<Rightarrow> world \<Rightarrow> (vfsNode option \<times> world) option" where
  "add_entry parent name inode_num inode fs w =
     do {
       (a, w1) \<leftarrow> take_addr w;
       (n, h) \<leftarrow> add_node (mode_of w1) a parent name inode_num inode fs (heap_of w1);
       Some (n, set_heap h w1) }"

section \<open>Listing a directory\<close>

text \<open>An entry that is not in the tree yet is loaded, and added when it may be read.\<close>

definition new_entry :: "u32 \<Rightarrow> u32 \<Rightarrow> dstring \<Rightarrow> u32 \<Rightarrow> world \<Rightarrow> (vfsNode option list \<times> world) option" where
  "new_entry fs parentNode name inode_num w =
     do {
       (inode, w1) \<leftarrow> fetch_inode fs inode_num w;
       if \<not> p_read (perms_of w1 inode) then Some ([], w1)
       else do {
         (n, w2) \<leftarrow> add_entry parentNode name inode_num inode (w_curr_fs w1) w1;
         Some ([n], w2) } }"

definition known_entry :: "u32 \<Rightarrow> u32 \<Rightarrow> world \<Rightarrow> (vfsNode option list \<times> world) option" where
  "known_entry parentNode p w =
     do {
       tn \<leftarrow> heap_of w p;
       let d = tn_data tn;
       (n, w1) \<leftarrow> add_entry parentNode (vn_name d) (vn_inode_num d) (vn_inode d) (vn_fs d) w;
       tn1 \<leftarrow> heap_of w1 p;
       Some ([Some (tn_data tn1)], w1) }"

definition parse_entry :: "u32 \<Rightarrow> u32 \<Rightarrow> vfsNode \<Rightarrow> u8 list \<Rightarrow> nat \<Rightarrow> world \<Rightarrow> (vfsNode option list \<times> world) option" where
  "parse_entry fs parentNode parent block off w =
     do {
       name \<leftarrow> string_of_buf (map to_char (get_bytes (off + 8) (unat (de_name_len block off)) block)) (ucast (de_name_len block off));
       let path = node_path (vn_path parent) name (de_type block off = EXT2_FT_DIR);
       p \<leftarrow> get_node (vfs_tree (w_vfs w)) path;
       if p \<noteq> 0 then known_entry parentNode p w
       else new_entry fs parentNode name (de_inode block off) w }"

function parse_directory_block :: "u32 \<Rightarrow> u8 list \<Rightarrow> u32 \<Rightarrow> vfsNode \<Rightarrow> nat \<Rightarrow> nat \<Rightarrow> world \<Rightarrow> (vfsNode option list \<times> world) option" where
  "parse_directory_block fs block parentNode parent bs off w =
     (if bs \<le> off then Some ([], w)
      else if length block < off + 8 then None
      else if de_inode block off = 0 then Some ([], w)
      else if unat (de_entry_size block off) < 8 then Some ([], w)
      else case parse_entry fs parentNode parent block off w of None \<Rightarrow> None
        | Some (es, w1) \<Rightarrow>
            (case parse_directory_block fs block parentNode parent bs (off + unat (de_entry_size block off)) w1 of None \<Rightarrow> None
             | Some (es', w2) \<Rightarrow> Some (es @ es', w2)))"
  by pat_completeness auto
termination
  by (relation "measure (\<lambda>(fs, block, parentNode, parent, bs, off, w). bs - off)") auto

declare parse_directory_block.simps [simp del]

definition read_and_parse :: "u32 \<Rightarrow> vfsNode \<Rightarrow> u32 \<Rightarrow> world \<Rightarrow> (vfsNode option list \<times> world) option" where
  "read_and_parse tree_node node block_num w =
     (if block_num = 0 then Some ([], w)
      else let fs = w_fs w (w_curr_fs w)
           in parse_directory_block (w_curr_fs w) (read_block fs block_num 1) tree_node node (unat (block_size fs)) 0 w)"

fun each_block :: "(u32 \<Rightarrow> world \<Rightarrow> (vfsNode option list \<times> world) option) \<Rightarrow> u32 list \<Rightarrow> world \<Rightarrow> (vfsNode option list \<times> world) option" where
  "each_block f [] w = Some ([], w)"
| "each_block f (p # ps) w =
     (case f p w of None \<Rightarrow> None
      | Some (es, w1) \<Rightarrow> (case each_block f ps w1 of None \<Rightarrow> None | Some (es', w2) \<Rightarrow> Some (es @ es', w2)))"

primrec dir_level :: "nat \<Rightarrow> u32 \<Rightarrow> vfsNode \<Rightarrow> u32 \<Rightarrow> world \<Rightarrow> (vfsNode option list \<times> world) option" where
  "dir_level 0 tree_node node = read_and_parse tree_node node"
| "dir_level (Suc l) tree_node node = (\<lambda>blk w.
     if blk = 0 then Some ([], w)
     else each_block (dir_level l tree_node node) (block_pointers (w_fs w (w_curr_fs w)) blk) w)"

definition read_dir :: "u32 \<Rightarrow> world \<Rightarrow> (vfsNode option list \<times> world) option" where
  "read_dir tree_node w =
     do {
       tn \<leftarrow> heap_of w tree_node;
       let node = tn_data tn;
       let w0 = w\<lparr>w_curr_fs := vn_fs node\<rparr>;
       if \<not> vn_is_dir node then Some ([], w0)
       else if vn_fs node = 0
       then do { ns \<leftarrow> get_children tree_node (heap_of w0); Some (map Some ns, w0) }
       else do {
         ino \<leftarrow> w_inodes w0 (vn_inode node);
         (e0, w1) \<leftarrow> each_block (dir_level 0 tree_node node) (map (direct_blk_ptr ino) [0..<12]) w0;
         (e1, w2) \<leftarrow> dir_level 1 tree_node node (singly_inderect_blk_ptr ino) w1;
         (e2, w3) \<leftarrow> dir_level 2 tree_node node (doubly_inderect_blk_ptr ino) w2;
         (e3, w4) \<leftarrow> dir_level 3 tree_node node (triply_inderect_blk_ptr ino) w3;
         Some (e0 @ e1 @ e2 @ e3, w4) } }"

text \<open>
  The first of the listed nodes that satisfies \<open>P\<close>; the default node that \<open>add_node\<close> returns when it
  adds nothing has a null name, which the comparison reads.
\<close>

fun find_entry :: "(vfsNode \<Rightarrow> bool) \<Rightarrow> vfsNode option list \<Rightarrow> vfsNode option option" where
  "find_entry P [] = Some None"
| "find_entry P (None # ns) = None"
| "find_entry P (Some n # ns) = (if P n then Some (Some n) else find_entry P ns)"

definition is_named :: "dstring \<Rightarrow> bool \<Rightarrow> vfsNode \<Rightarrow> bool" where
  "is_named name dir n \<longleftrightarrow> is_true (string_eq (vn_name n) name) \<and> vn_is_dir n = dir"

section \<open>Changing the directory\<close>

text \<open>The node is where the current directory changes to, when it may be entered.\<close>

definition enter :: "vfsNode \<Rightarrow> world \<Rightarrow> bool \<times> world" where
  "enter d w =
     (if vn_inode d \<noteq> 0 \<and> \<not> p_execute (perms_of w (vn_inode d)) then (False, w)
      else (True, w\<lparr>w_vfs := (w_vfs w)\<lparr>currentDir := string_copy (vn_path d)\<rparr>, w_curr_fs := vn_fs d\<rparr>))"

definition change_dir_physically :: "dstring \<Rightarrow> u32 \<Rightarrow> world \<Rightarrow> (bool \<times> world) option" where
  "change_dir_physically dir cur w =
     (if w_curr_fs w = 0 then Some (False, w)
      else do {
        (nodes, w1) \<leftarrow> read_dir cur w;
        found \<leftarrow> find_entry (is_named dir True) nodes;
        (case found of None \<Rightarrow> Some (False, w1)
         | Some n \<Rightarrow>
             (case enter n w1 of (ok, w2) \<Rightarrow>
                if \<not> ok then Some (False, w2)
                else do {
                  (_, w3) \<leftarrow> add_entry cur (vn_name n) (vn_inode_num n) (vn_inode n) (vn_fs n) w2;
                  Some (True, w3) })) })"

definition change_dir :: "dstring \<Rightarrow> world \<Rightarrow> (bool \<times> world) option" where
  "change_dir dir w =
     (if is_true (string_equals dir (Some ''.'')) then Some (True, w)
      else do {
        cur \<leftarrow> get_node (vfs_tree (w_vfs w)) (currentDir (w_vfs w));
        if is_true (string_equals dir (Some ''..''))
        then do {
          cn \<leftarrow> heap_of w cur;
          if tn_parent cn = 0 then Some (False, w)
          else do { pn \<leftarrow> heap_of w (tn_parent cn); Some (enter (tn_data pn) w) } }
        else do {
          found \<leftarrow> find_child_by_predicate cur (\<lambda>n. is_true (string_eq (vn_name n) dir)) (heap_of w);
          d \<leftarrow> (if found = 0 then Some None else map_option (\<lambda>n. Some (tn_data n)) (heap_of w found));
          (case d of
             Some dn \<Rightarrow> if vn_is_dir dn then Some (enter dn w) else change_dir_physically dir cur w
           | None \<Rightarrow> change_dir_physically dir cur w) } })"

section \<open>Making directories and files\<close>

definition hard_link_count :: "u8 list \<Rightarrow> u16" where "hard_link_count ino = get16 26 ino"
definition add_link :: "u16 \<Rightarrow> u8 list \<Rightarrow> u8 list" where "add_link k ino = put16 26 (hard_link_count ino + k) ino"

text \<open>The fields of a new inode: mode, owner, size, times, links, sectors, and the first block.\<close>

definition new_inode :: "u16 \<Rightarrow> vfs \<Rightarrow> u32 \<Rightarrow> u32 \<Rightarrow> u16 \<Rightarrow> u32 \<Rightarrow> u32 \<Rightarrow> u8 list" where
  "new_inode mode v sz now links sectors blk =
     put32 40 blk (put32 28 sectors (put16 26 links (put32 12 now (put32 8 now (put32 16 now
       (put32 4 sz (put16 24 (ucast (currGid v)) (put16 2 (ucast (currUid v)) (put16 0 mode
         (replicate sizeof_inode_t 0))))))))))"

definition name_bytes :: "dstring \<Rightarrow> u8 list option" where
  "name_bytes name = map_option (\<lambda>c. map to_byte (cstr c)) (d_data name)"

text \<open>
  What \<open>make_dir\<close> and \<open>make_file\<close> share after the inode is stored: the entry in the parent, the
  parent's inode, and the new node.
\<close>

definition link_entry :: "dstring \<Rightarrow> vfsNode \<Rightarrow> u32 \<Rightarrow> u32 \<Rightarrow> u16 \<Rightarrow> u32 \<Rightarrow> world \<Rightarrow> world option" where
  "link_entry name parent node inode_num links now w =
     do {
       let f = vn_fs parent;
       ino \<leftarrow> w_inodes w (vn_inode parent);
       nm \<leftarrow> name_bytes name;
       (res, ino1, fs1) \<leftarrow> insert_directory_entry (w_fs w f) ino nm inode_num;
       let w1 = set_inode (vn_inode parent) ino1 (set_fs f fs1 w);
       if res \<noteq> 0 then Some w1
       else do {
         let ino2 = set_mod_time now (add_link links ino1);
         fs2 \<leftarrow> write_inode fs1 (vn_inode_num parent) ino2;
         (inode, w2) \<leftarrow> fetch_inode f inode_num (set_inode (vn_inode parent) ino2 (set_fs f fs2 w1));
         (_, w3) \<leftarrow> add_entry node name inode_num inode f w2;
         Some w3 } }"

definition may_not_write :: "vfsNode \<Rightarrow> world \<Rightarrow> bool" where
  "may_not_write parent w \<longleftrightarrow> vn_inode parent \<noteq> 0 \<and> \<not> p_write (perms_of w (vn_inode parent))"

text \<open>The inode that is loaded for the new number is overwritten at once.\<close>

definition make_dir :: "dstring \<Rightarrow> vfsNode \<Rightarrow> u32 \<Rightarrow> u16 \<Rightarrow> u32 \<Rightarrow> world \<Rightarrow> world option" where
  "make_dir dir parent node perms now w =
     (let f = vn_fs parent in
      if f = 0 then Some w
      else if may_not_write parent w then Some w
      else do {
        (nodes, w1) \<leftarrow> read_dir node w;
        found \<leftarrow> find_entry (is_named dir True) nodes;
        if found \<noteq> None then Some w1
        else do {
          (inode_num, fs1) \<leftarrow> alloc_inode (w_fs w1 f);
          if inode_num = - 1 then Some (set_fs f fs1 w1)
          else do {
            (block_num, fs2) \<leftarrow> alloc_block fs1;
            if block_num = - 1 then Some (set_fs f fs2 w1)
            else do {
              (a, w2) \<leftarrow> fetch_inode f inode_num (set_fs f fs2 w1);
              let ino = new_inode (EXT2_S_IFDIR OR perms) (w_vfs w2) (block_size fs2) now 2 (block_size fs2 div 512) block_num;
              let fs3 = write_block fs2 block_num (new_dir_block (block_size fs2) inode_num (vn_inode_num parent)) 1;
              fs4 \<leftarrow> write_inode fs3 inode_num ino;
              link_entry dir parent node inode_num 1 now (set_inode a ino (set_fs f fs4 w2)) } } } })"

definition make_file :: "dstring \<Rightarrow> vfsNode \<Rightarrow> u32 \<Rightarrow> u16 \<Rightarrow> u32 \<Rightarrow> world \<Rightarrow> world option" where
  "make_file file parent node perms now w =
     (let f = vn_fs parent in
      if f = 0 then Some w
      else if may_not_write parent w then Some w
      else do {
        (nodes, w1) \<leftarrow> read_dir node w;
        found \<leftarrow> find_entry (is_named file False) nodes;
        if found \<noteq> None then Some w1
        else do {
          (inode_num, fs1) \<leftarrow> alloc_inode (w_fs w1 f);
          if inode_num = - 1 then Some (set_fs f fs1 w1)
          else do {
            (a, w2) \<leftarrow> fetch_inode f inode_num (set_fs f fs1 w1);
            let ino = new_inode (EXT2_S_IFREG OR perms) (w_vfs w2) 0 now 1 0 0;
            fs2 \<leftarrow> write_inode fs1 inode_num ino;
            link_entry file parent node inode_num 0 now (set_inode a ino (set_fs f fs2 w2)) } } })"

section \<open>Removing an entry\<close>

text \<open>
  The blocks and the inode are given back when no link is left; the free bit of the inode is
  cleared before its blocks are.
\<close>

definition drop_inode :: "u32 \<Rightarrow> u32 \<Rightarrow> u32 \<Rightarrow> world \<Rightarrow> world option" where
  "drop_inode f inode_num inode w =
     do {
       ino \<leftarrow> w_inodes w inode;
       if hard_link_count ino \<noteq> 0 then Some w
       else do {
         fs1 \<leftarrow> free_inode inode_num (w_fs w f);
         (ino1, fs2) \<leftarrow> free_blocks ino fs1;
         Some (set_inode inode ino1 (set_fs f fs2 w)) } }"

definition unlink_inode :: "u32 \<Rightarrow> world \<Rightarrow> world option" where
  "unlink_inode p w = do { ino \<leftarrow> w_inodes w p; Some (set_inode p (add_link (- 1) ino) w) }"

definition remove_entry :: "u32 \<Rightarrow> world \<Rightarrow> world option" where
  "remove_entry node_to_remove w =
     do {
       tn \<leftarrow> heap_of w node_to_remove;
       ptn \<leftarrow> heap_of w (tn_parent tn);
       let parent = tn_data ptn;
       let node = tn_data tn;
       if string_empty (vn_path node) \<or> vn_fs node = 0 \<or> vn_inode node = 0 then Some w
       else do {
         w1 \<leftarrow> (if vn_is_dir node then map_option snd (read_dir node_to_remove w) else Some w);
         let p = perms_of w1 (if vn_is_dir node then vn_inode node else vn_inode parent);
         if \<not> (p_write p \<and> p_execute p) then Some w1
         else do {
           ino \<leftarrow> w_inodes w1 (vn_inode node);
           pino \<leftarrow> w_inodes w1 (vn_inode parent);
           nm \<leftarrow> name_bytes (vn_name node);
           fs1 \<leftarrow> remove_dir_entry (w_fs w1 (vn_fs parent)) pino nm (get_inode_type ino);
           w2 \<leftarrow> unlink_inode (vn_inode node) (set_fs (vn_fs parent) fs1 w1);
           w3 \<leftarrow> (if vn_is_dir node then unlink_inode (vn_inode parent) w2 else Some w2);
           w4 \<leftarrow> drop_inode (vn_fs node) (vn_inode_num node) (vn_inode node) w3;
           let w5 = set_fs (vn_fs node) (rewrite_bgds (rewrite_sb (w_fs w4 (vn_fs node)))) w4;
           pino1 \<leftarrow> w_inodes w5 (vn_inode parent);
           fs2 \<leftarrow> write_inode (w_fs w5 (vn_fs parent)) (vn_inode_num parent) pino1;
           Some (set_fs (vn_fs parent) fs2 w5) } } }"

section \<open>New directories\<close>

lemma dot_rec_len: "dirent_rec_len 1 = 12" "dirent_rec_len 2 = 12"
  by (simp_all add: dirent_rec_len_def align4_u16_def)

lemma new_dir_segments:
  assumes "32 \<le> unat bs" and "unat bs < 2 ^ 16"
  shows "\<exists>x y. new_dir_block bs i p = x @ y \<and> length x = 12 \<and> length y = unat bs - 12
    \<and> is_entry x (i, 2, [0x2E]) \<and> is_entry y (p, 2, [0x2E, 0x2E])"
proof -
  let ?n = "unat bs" and ?w = "ucast (bs - ucast (12 :: u16)) :: u16"
  have le: "12 \<le> bs" using assms(1) by (simp add: word_le_nat_alt)
  have "unat (bs - 12) = ?n - 12" using le by (simp add: unat_sub)
  moreover have "?w = of_nat (unat (bs - 12))" by (simp add: word_eq_iff_unsigned unsigned_ucast_eq unsigned_of_nat)
  ultimately have w: "?w = of_nat (?n - 12)" by simp
  define x where "x = put16 4 12 ((put_header 0 i 1 2 (replicate 12 0))[8 := 0x2E])"
  define y where "y = put16 4 ?w ((put_header 0 p 2 2 (replicate (?n - 12) 0))[8 := 0x2E, 9 := 0x2E])"
  have lx: "length x = 12" "length y = ?n - 12" by (simp_all add: x_def y_def)
  have r: "replicate ?n (0 :: u8) = replicate 12 0 @ replicate (?n - 12) 0"
    using assms(1) by (simp flip: replicate_add)
  have b3: "put16 4 12 ((put_header 0 i 1 2 (replicate ?n 0))[8 := 0x2E]) = x @ replicate (?n - 12) 0"
    unfolding r x_def using part_header [where p = "[]" and o' = 0 and x = "replicate 12 0"]
      part_writes(2) [where p = "[]" and o' = 4 and x = "(put_header 0 i 1 2 (replicate 12 0))[8 := 0x2E]"]
    by (simp add: list_update_append)
  have b5: "put16 (12 + 4) ?w ((put_header 12 p 2 2 (x @ replicate (?n - 12) 0))[12 + 8 := 0x2E, 12 + 9 := 0x2E]) = x @ y"
    unfolding y_def using lx assms(1) part_header [where p = x and o' = 0 and x = "replicate (?n - 12) 0" and q = "[]"]
      part_writes(2) [where p = x and o' = 4 and x = "(put_header 0 p 2 2 (replicate (?n - 12) 0))[8 := 0x2E, 9 := 0x2E]" and q = "[]"]
      part_writes(3) [where p = x and o' = 8 and x = "put_header 0 p 2 2 (replicate (?n - 12) 0)" and q = "[]"]
      part_writes(3) [where p = x and o' = 9 and x = "(put_header 0 p 2 2 (replicate (?n - 12) 0))[8 := 0x2E]" and q = "[]"]
    by simp
  have "new_dir_block bs i p = x @ y"
    using b3 b5 by (simp add: new_dir_block_def Let_def dot_rec_len)
  moreover have "is_entry x (i, 2, [0x2E])"
  proof -
    have f: "get32 0 x = i" "get16 4 x = 12" "x ! 6 = 1" "x ! 7 = 2"
      using header_fields(4,5) [of 0 "replicate 12 0" i 1 2] by (simp_all add: x_def header_fields fields_update put16_nth)
    have "take 1 (drop 8 x) = [x ! 8]" using lx by (intro nth_equalityI) auto
    also have "x ! 8 = 0x2E" by (simp add: x_def put16_nth)
    finally show ?thesis using f lx by (simp add: is_entry_def)
  qed
  moreover have "is_entry y (p, 2, [0x2E, 0x2E])"
  proof -
    have f: "get32 0 y = p" "get16 4 y = of_nat (?n - 12)" "y ! 6 = 2" "y ! 7 = 2"
      using assms(1) w header_fields(4,5) [of 0 "replicate (?n - 12) 0" p 2 2]
      by (simp_all add: y_def header_fields fields_update put16_nth)
    have "take 2 (drop 8 y) = [y ! 8, y ! 9]" using lx assms(1) by (intro nth_equalityI) (auto simp: less_2_cases_iff)
    moreover have "y ! 8 = 0x2E" "y ! 9 = 0x2E" using assms(1) by (simp_all add: y_def put16_nth)
    moreover have "10 \<le> ?n - 12" "?n - 12 < 2 ^ 16" using assms by simp_all
    ultimately show ?thesis using f lx by (simp add: is_entry_def flip: numeral_2_eq_2)
  qed
  ultimately show ?thesis using lx by blast
qed


text \<open>
  For every block size from 32 bytes up to 64 KiB, the first block \<open>make_dir\<close> writes lists exactly
  \<open>.\<close> (the directory) and \<open>..\<close> (its parent), both of the directory type, and the insertion of any name
  that fits behind them succeeds and lists it after the two.
\<close>

lemma new_directory_lists:
  assumes "32 \<le> unat bs" and "unat bs < 2 ^ 16" and "i \<noteq> 0" and "p \<noteq> 0" and "n \<noteq> 0"
    and "length name < 256" and "rec_len name + 32 \<le> unat bs"
  shows "list_entries (new_dir_block bs i p) (unat bs) 0 = Some [(i, 2, [0x2E]), (p, 2, [0x2E, 0x2E])]
    \<and> (\<exists>b'. insert_scan (new_dir_block bs i p) (unat bs) name n (Some ty) 0 = Some (Some b')
      \<and> list_entries b' (unat bs) 0 = Some [(i, 2, [0x2E]), (p, 2, [0x2E, 0x2E]), (n, ty, name)])"
proof -
  obtain x y where b: "new_dir_block bs i p = x @ y" "length x = 12" "length y = unat bs - 12"
      "is_entry x (i, 2, [0x2E])" "is_entry y (p, 2, [0x2E, 0x2E])"
    using new_dir_segments [OF assms(1,2)] by blast
  have sp: "spare x (i, 2, [0x2E]) < rec_len name" "spare y (p, 2, [0x2E, 0x2E]) = unat bs - 24"
    using b(2,3) by (simp_all add: spare_def rec_len_def)
  have l: "length (new_dir_block bs i p) = unat bs" using b(1-3) assms(1) by simp
  have fit: "rec_len name + 8 \<le> unat bs - 24" using assms(7) by simp
  show ?thesis
    using insert_listed [of "[x]" "[(i, 2, [0x2E])]" y "(p, 2, [0x2E, 0x2E])" "[]" "[]" name n "new_dir_block bs i p" ty]
      b sp fit assms(3-6) l by (auto simp: live_def)
qed

lemma new_directory_lists_witness:
  "list_entries (new_dir_block 64 5 2) 64 0 = Some [(5, 2, [0x2E]), (2, 2, [0x2E, 0x2E])]
   \<and> (\<exists>b'. insert_scan (new_dir_block 64 5 2) 64 [0x61, 0x62] 7 (Some 1) 0 = Some (Some b')
     \<and> list_entries b' 64 0 = Some [(5, 2, [0x2E]), (2, 2, [0x2E, 0x2E]), (7, 1, [0x61, 0x62])])"
  using new_directory_lists [of 64 5 2 7 "[0x61, 0x62]" 1] by (simp add: rec_len_def)


section \<open>What listing a directory leaves alone\<close>

text \<open>Reading adds nodes and inodes at new addresses, and nothing else.\<close>

definition extends :: "world \<Rightarrow> world \<Rightarrow> bool" where
  "extends w w' \<longleftrightarrow> w_fs w' = w_fs w \<and> set (w_addrs w') \<subseteq> set (w_addrs w)
     \<and> (\<forall>p. p \<notin> set (w_addrs w) \<longrightarrow> w_inodes w' p = w_inodes w p)"

lemma extends_refl [simp]: "extends w w"
  by (simp add: extends_def)

lemma extends_trans [trans]: "extends w w1 \<Longrightarrow> extends w1 w2 \<Longrightarrow> extends w w2"
  by (auto simp: extends_def)

lemma take_addr_extends:
  "take_addr w = Some (a, w') \<Longrightarrow> extends w w' \<and> a \<in> set (w_addrs w) \<and> w_inodes w' = w_inodes w"
  by (auto simp: take_addr_def extends_def split: list.splits)

lemma fetch_inode_extends:
  assumes "fetch_inode fs n w = Some (a, w')"
  shows "extends w w'"
proof -
  from assms obtain ino w1 where "take_addr w = Some (a, w1)" "w' = w1\<lparr>w_inodes := (w_inodes w1)(a \<mapsto> ino)\<rparr>"
    by (auto simp: fetch_inode_def Option.bind_eq_Some_conv)
  then show ?thesis using take_addr_extends [of w a w1] by (auto simp: extends_def)
qed

lemma add_entry_extends:
  assumes "add_entry p nm n i f w = Some (r, w')"
  shows "extends w w'"
proof -
  from assms obtain a w1 h where "take_addr w = Some (a, w1)" "w' = set_heap h w1"
    by (auto simp: add_entry_def Option.bind_eq_Some_conv)
  then show ?thesis using take_addr_extends [of w a w1] by (auto simp: extends_def set_heap_def)
qed

lemma new_entry_extends: "new_entry fs p nm n w = Some (es, w') \<Longrightarrow> extends w w'"
  by (auto simp: new_entry_def Option.bind_eq_Some_conv split: if_splits
      dest!: fetch_inode_extends add_entry_extends intro: extends_trans)

lemma known_entry_extends: "known_entry t p w = Some (es, w') \<Longrightarrow> extends w w'"
  by (auto simp: known_entry_def Option.bind_eq_Some_conv Let_def dest!: add_entry_extends)

lemma parse_entry_extends: "parse_entry fs t n b off w = Some (es, w') \<Longrightarrow> extends w w'"
  by (auto simp: parse_entry_def Option.bind_eq_Some_conv Let_def split: if_splits
      dest!: new_entry_extends known_entry_extends)

lemma parse_directory_block_extends:
  "parse_directory_block fs b t n bs off w = Some (es, w') \<Longrightarrow> extends w w'"
proof (induction fs b t n bs off w arbitrary: es w' rule: parse_directory_block.induct)
  case (1 fs b t n bs off w)
  consider "w' = w"
    | es1 w1 es2 where "parse_entry fs t n b off w = Some (es1, w1)" "\<not> bs \<le> off" "\<not> length b < off + 8"
      "de_inode b off \<noteq> 0" "\<not> unat (de_entry_size b off) < 8"
      "parse_directory_block fs b t n bs (off + unat (de_entry_size b off)) w1 = Some (es2, w')"
    using "1.prems" by (subst (asm) parse_directory_block.simps) (auto split: if_splits option.splits)
  then show ?case
  proof cases
    case 2
    then show ?thesis using "1.IH" [OF 2(2-5,1) refl 2(6)] parse_entry_extends extends_trans by blast
  qed simp
qed

lemma each_block_extends:
  assumes "\<And>p w es w'. f p w = Some (es, w') \<Longrightarrow> extends w w'"
  shows "each_block f ps w = Some (es, w') \<Longrightarrow> extends w w'"
proof (induction ps arbitrary: w es)
  case (Cons p ps)
  then obtain es1 w1 es2 where "f p w = Some (es1, w1)" "each_block f ps w1 = Some (es2, w')"
    by (auto split: option.splits)
  then show ?case using assms Cons.IH extends_trans by blast
qed simp

lemma dir_level_extends: "dir_level l t n b w = Some (es, w') \<Longrightarrow> extends w w'"
proof (induction l arbitrary: b w es w')
  case 0
  then show ?case
    by (auto simp: read_and_parse_def Let_def split: if_splits dest!: parse_directory_block_extends)
next
  case (Suc l)
  show ?case
  proof (cases "b = 0")
    case False
    then show ?thesis using Suc.prems each_block_extends [of "dir_level l t n", OF Suc.IH] by simp
  qed (use Suc.prems in simp)
qed

lemma dir_blocks_extends: "each_block (dir_level l t n) ps w = Some (es, w') \<Longrightarrow> extends w w'"
  using each_block_extends [of "dir_level l t n"] dir_level_extends by blast

lemma read_dir_extends:
  assumes "read_dir t w = Some (es, w')"
  shows "extends w w'"
proof -
  from assms obtain tn where t: "heap_of w t = Some tn" by (auto simp: read_dir_def Option.bind_eq_Some_conv)
  have "extends (w\<lparr>w_curr_fs := vn_fs (tn_data tn)\<rparr>) w'"
    using assms t
    by (auto simp: read_dir_def Option.bind_eq_Some_conv Let_def simp del: dir_level.simps split: if_splits
        dest!: dir_blocks_extends dir_level_extends)
      (blast intro: extends_trans)
  then show ?thesis by (simp add: extends_def)
qed


section \<open>Removed directories\<close>

text \<open>The superblock and the group descriptors, which hold every free count.\<close>

definition same_counts :: "ext2_fs_t \<Rightarrow> ext2_fs_t \<Rightarrow> bool" where
  "same_counts fs fs' \<longleftrightarrow> sb fs' = sb fs \<and> blk_grp_descs fs' = blk_grp_descs fs"

lemma same_counts_refl [simp]: "same_counts fs fs"
  by (simp add: same_counts_def)

lemma same_counts_trans [trans]: "same_counts a b \<Longrightarrow> same_counts b c \<Longrightarrow> same_counts a c"
  by (simp add: same_counts_def)

lemma write_block_same_counts [simp]: "same_counts fs (write_block fs b v n)"
  by (simp add: same_counts_def write_block_def)

lemma write_inode_same_counts: "write_inode fs n ino = Some fs' \<Longrightarrow> same_counts fs fs'"
  by (auto simp: write_inode_def Let_def same_counts_def write_block_def split: if_splits)

lemma remove_in_block_same_counts: "remove_in_block nm ty b fs = Some (r, fs') \<Longrightarrow> same_counts fs fs'"
  by (auto simp: remove_in_block_def split: if_splits option.splits)

lemma first_block_same_counts:
  assumes "\<And>p fs r fs'. f p fs = Some (r, fs') \<Longrightarrow> same_counts fs fs'"
  shows "first_block f ps fs = Some (r, fs') \<Longrightarrow> same_counts fs fs'"
proof (induction ps arbitrary: fs)
  case (Cons p ps)
  then obtain b fs1 where s: "f p fs = Some (b, fs1)" "fs1 = fs' \<or> first_block f ps fs1 = Some (r, fs')"
    by (auto split: option.splits bool.splits)
  show ?case using s(2) assms [OF s(1)] Cons.IH [of fs1] same_counts_trans by blast
qed simp

lemma remove_level_same_counts: "remove_level l nm ty b fs = Some (r, fs') \<Longrightarrow> same_counts fs fs'"
proof (induction l arbitrary: b fs r fs')
  case 0
  then show ?case by (simp add: remove_in_block_same_counts)
next
  case (Suc l)
  show ?case
  proof (cases "b = 0")
    case False
    then show ?thesis using Suc.prems first_block_same_counts [of "remove_level l nm ty", OF Suc.IH] by simp
  qed (use Suc.prems in simp)
qed

lemma remove_blocks_same_counts: "first_block (remove_level l nm ty) ps fs = Some (r, fs') \<Longrightarrow> same_counts fs fs'"
  using first_block_same_counts [of "remove_level l nm ty"] remove_level_same_counts by blast

lemma remove_dir_entry_same_counts:
  assumes "remove_dir_entry fs ino nm ty = Some fs'"
  shows "same_counts fs fs'"
  using assms
  by (auto simp: remove_dir_entry_def simp del: remove_level.simps split: option.splits bool.splits
      dest!: remove_blocks_same_counts remove_level_same_counts intro: same_counts_trans)
    (blast intro: same_counts_trans)+

lemma rewrite_same_counts [simp]: "same_counts fs (rewrite_bgds (rewrite_sb fs))"
proof -
  have "same_counts fs (rewrite_bgds_loop s i n fs)" for s i n and fs :: ext2_fs_t
    by (induction n arbitrary: i fs) (auto simp: same_counts_def write_block_def)
  then show ?thesis by (simp add: rewrite_bgds_def rewrite_sb_def)
qed


lemma hard_link_count_add_link: "28 \<le> length ino \<Longrightarrow> hard_link_count (add_link k ino) = hard_link_count ino + k"
  by (simp add: hard_link_count_def add_link_def)

definition same_all :: "world \<Rightarrow> world \<Rightarrow> bool" where
  "same_all w w' \<longleftrightarrow> (\<forall>f. same_counts (w_fs w f) (w_fs w' f))"

lemma same_all_trans [trans]: "same_all a b \<Longrightarrow> same_all b c \<Longrightarrow> same_all a c"
  by (auto simp: same_all_def same_counts_def)

lemma same_all_steps:
  "same_all w w" "extends w w' \<Longrightarrow> same_all w w'" "same_counts (w_fs w f) fs \<Longrightarrow> same_all w (set_fs f fs w)"
  "unlink_inode p w = Some w' \<Longrightarrow> same_all w w'"
  by (auto simp: same_all_def extends_def set_fs_def unlink_inode_def set_inode_def Option.bind_eq_Some_conv)

text \<open>The parts of \<open>remove_entry\<close> after a directory is listed.\<close>

lemma remove_entry_runs:
  assumes "remove_entry t w = Some w'" and "heap_of w t = Some tn" and "heap_of w (tn_parent tn) = Some ptn"
    and "vn_is_dir (tn_data tn)"
  obtains "w' = w" | es where "read_dir t w = Some (es, w')"
  | es w1 fs1 w2 w3 w4 where "read_dir t w = Some (es, w1)" and "same_counts (w_fs w1 (vn_fs (tn_data ptn))) fs1"
    and "unlink_inode (vn_inode (tn_data tn)) (set_fs (vn_fs (tn_data ptn)) fs1 w1) = Some w2"
    and "unlink_inode (vn_inode (tn_data ptn)) w2 = Some w3"
    and "drop_inode (vn_fs (tn_data tn)) (vn_inode_num (tn_data tn)) (vn_inode (tn_data tn)) w3 = Some w4"
    and "same_all w4 w'" and "w_inodes w' = w_inodes w4"
proof -
  let ?d = "tn_data tn" and ?p = "tn_data ptn"
  let ?w5 = "\<lambda>w4. set_fs (vn_fs ?d) (rewrite_bgds (rewrite_sb (w_fs w4 (vn_fs ?d)))) w4"
  consider "w' = w" | es where "read_dir t w = Some (es, w')"
    | es w1 fs1 w2 w3 w4 fs2 pino nm ty pino1 where "read_dir t w = Some (es, w1)"
      "remove_dir_entry (w_fs w1 (vn_fs ?p)) pino nm ty = Some fs1"
      "unlink_inode (vn_inode ?d) (set_fs (vn_fs ?p) fs1 w1) = Some w2" "unlink_inode (vn_inode ?p) w2 = Some w3"
      "drop_inode (vn_fs ?d) (vn_inode_num ?d) (vn_inode ?d) w3 = Some w4"
      "write_inode (w_fs (?w5 w4) (vn_fs ?p)) (vn_inode_num ?p) pino1 = Some fs2" "w' = set_fs (vn_fs ?p) fs2 (?w5 w4)"
    using assms by (auto simp: remove_entry_def Option.bind_eq_Some_conv Let_def split: if_splits)
  then show ?thesis
  proof cases
    case 3
    have "same_all w4 (?w5 w4)" by (rule same_all_steps(3)) simp
    also have "same_all (?w5 w4) w'"
      unfolding 3(7) by (rule same_all_steps(3)) (rule write_inode_same_counts [OF 3(6)])
    finally have "same_all w4 w'" .
    moreover have "w_inodes w' = w_inodes w4" by (simp add: 3(7) set_fs_def)
    ultimately show ?thesis using that(3) 3(1,3-5) remove_dir_entry_same_counts [OF 3(2)] by blast
  qed (use that in blast)+
qed

lemma unlinked_directory_stays:
  assumes "remove_entry t w = Some w'" and "heap_of w t = Some tn" and "heap_of w (tn_parent tn) = Some ptn"
    and "vn_is_dir (tn_data tn)" and "w_inodes w (vn_inode (tn_data tn)) = Some ino" and "28 \<le> length ino"
    and "hard_link_count ino = 2" and "vn_inode (tn_data tn) \<notin> set (w_addrs w)"
    and "vn_inode (tn_data tn) \<noteq> vn_inode (tn_data ptn)"
  shows "same_all w w' \<and> w_inodes w' (vn_inode (tn_data tn)) \<in> {Some ino, Some (add_link (- 1) ino)}"
  using assms(1-4)
proof (cases rule: remove_entry_runs)
  case 1
  then show ?thesis by (simp add: same_all_steps assms(5))
next
  case (2 es)
  then show ?thesis using read_dir_extends [OF 2] assms(5,8) by (simp add: same_all_steps) (simp add: extends_def)
next
  case (3 es w1 fs1 w2 w3 w4)
  let ?a = "vn_inode (tn_data tn)"
  have i1: "w_inodes w1 ?a = Some ino" using read_dir_extends [OF 3(1)] assms(5,8) by (simp add: extends_def)
  have i3: "w_inodes w3 ?a = Some (add_link (- 1) ino)"
    using 3(3,4) i1 assms(9)
    by (auto simp: unlink_inode_def set_inode_def set_fs_def Option.bind_eq_Some_conv)
  have "w4 = w3"
    using 3(5) i3 hard_link_count_add_link [OF assms(6)] assms(7) by (simp add: drop_inode_def)
  moreover have "same_all w w1" by (rule same_all_steps(2) [OF read_dir_extends [OF 3(1)]])
  moreover have "same_all w1 (set_fs (vn_fs (tn_data ptn)) fs1 w1)" by (rule same_all_steps(3) [OF 3(2)])
  ultimately have "same_all w w'"
    using same_all_steps(4) [OF 3(3)] same_all_steps(4) [OF 3(4)] 3(6) same_all_trans by blast
  then show ?thesis using 3(7) i3 \<open>w4 = w3\<close> by simp
qed


text \<open>
  Removing a directory with the two links \<open>make_dir\<close> gives it never frees anything: whatever the run of
  \<open>remove_entry\<close> does, the superblock and the group descriptors of every file system, which count the free
  inodes and blocks, stay as they were, and the directory's inode keeps both links or one of them.
\<close>

lemma removed_directory_is_not_freed:
  assumes "remove_entry t w = Some w'" and "heap_of w t = Some tn" and "heap_of w (tn_parent tn) = Some ptn"
    and "vn_is_dir (tn_data tn)" and "w_inodes w (vn_inode (tn_data tn)) = Some ino" and "28 \<le> length ino"
    and "hard_link_count ino = 2" and "vn_inode (tn_data tn) \<notin> set (w_addrs w)"
    and "vn_inode (tn_data tn) \<noteq> vn_inode (tn_data ptn)"
  shows "sb (w_fs w' f) = sb (w_fs w f) \<and> blk_grp_descs (w_fs w' f) = blk_grp_descs (w_fs w f)
    \<and> (\<exists>ino'. w_inodes w' (vn_inode (tn_data tn)) = Some ino' \<and> hard_link_count ino' \<in> {1, 2})"
  using unlinked_directory_stays [OF assms] hard_link_count_add_link [OF assms(6), of "- 1"] assms(7)
  by (auto simp: same_all_def same_counts_def)

definition demo_dir_fs :: ext2_fs_t where
  "demo_dir_fs = \<lparr>disk = (\<lambda>_. replicate 512 0), partition_start = 0, sb = put16 88 128 (replicate 1024 0),
     blk_grp_descs = replicate 32 0, block_size = 512, blocks_per_group = 1024, inodes_per_group = 1024,
     total_groups = 1, blk_grp_desc_blocks = 0\<rparr>"

definition demo_dir_ino :: "u8 list" where
  "demo_dir_ino = put16 26 2 (put16 0 0x41ED (replicate 128 0))"

definition demo_dir_node :: "string \<Rightarrow> string \<Rightarrow> u32 \<Rightarrow> u32 \<Rightarrow> vfsNode" where
  "demo_dir_node nm path n p = \<lparr>vn_name = string_of_cstr nm, vn_path = string_of_cstr path, vn_is_dir = True,
     vn_inode_num = n, vn_inode = p, vn_fs = 0x600\<rparr>"

definition demo_dir_world :: world where
  "demo_dir_world = \<lparr>w_vfs = \<lparr>vfs_tree = \<lparr>t_heap =
       [0x100 \<mapsto> \<lparr>tn_data = demo_dir_node ''/'' ''/'' 2 0x700, tn_parent = 0, tn_first_child = 0x200, tn_next_sibling = 0\<rparr>,
        0x200 \<mapsto> \<lparr>tn_data = demo_dir_node ''d'' ''/d/'' 12 0x800, tn_parent = 0x100, tn_first_child = 0, tn_next_sibling = 0\<rparr>],
       t_root = 0x100\<rparr>, currentDir = string_of_cstr ''/'', currUid = 0, currGid = 0, device_name_index = 0, ide_device_name_index = 0\<rparr>,
     w_inodes = [0x700 \<mapsto> demo_dir_ino, 0x800 \<mapsto> demo_dir_ino], w_fs = (\<lambda>_. demo_dir_fs), w_curr_fs = 0x600, w_addrs = []\<rparr>"

lemma zero_fields:
  "off + 4 \<le> n \<Longrightarrow> get32 off (replicate n 0) = 0" "off + 2 \<le> n \<Longrightarrow> get16 off (replicate n 0) = 0"
  by (simp_all add: get32_def get16_def)

lemma demo_dir_facts:
  "length demo_dir_ino = 128" "hard_link_count demo_dir_ino = 2" "j < 12 \<Longrightarrow> direct_blk_ptr demo_dir_ino j = 0"
  "singly_inderect_blk_ptr demo_dir_ino = 0" "doubly_inderect_blk_ptr demo_dir_ino = 0" "triply_inderect_blk_ptr demo_dir_ino = 0"
  by (simp_all add: demo_dir_ino_def hard_link_count_def direct_blk_ptr_def singly_inderect_blk_ptr_def
      doubly_inderect_blk_ptr_def triply_inderect_blk_ptr_def zero_fields)

lemma no_block_level:
  "dir_level l t n 0 w = Some ([], w)" "remove_level l nm ty 0 fs = Some (False, fs)"
  by (cases l; simp add: read_and_parse_def remove_in_block_def)+

lemma demo_no_blocks:
  "each_block (dir_level l t n) (map (direct_blk_ptr demo_dir_ino) [0..<12]) w = Some ([], w)"
  "first_block (remove_level l nm ty) (map (direct_blk_ptr demo_dir_ino) [0..<12]) fs = Some (False, fs)"
  by (simp_all add: upt_conv_Cons demo_dir_facts no_block_level)

lemma demo_no_entry: "remove_dir_entry fs demo_dir_ino nm ty = Some fs"
  by (simp only: remove_dir_entry_def demo_no_blocks demo_dir_facts no_block_level) simp

lemma demo_world_facts:
  "heap_of demo_dir_world 0x200 = Some \<lparr>tn_data = demo_dir_node ''d'' ''/d/'' 12 0x800, tn_parent = 0x100, tn_first_child = 0, tn_next_sibling = 0\<rparr>"
  "heap_of demo_dir_world 0x100 = Some \<lparr>tn_data = demo_dir_node ''/'' ''/'' 2 0x700, tn_parent = 0, tn_first_child = 0x200, tn_next_sibling = 0\<rparr>"
  "w_inodes demo_dir_world 0x800 = Some demo_dir_ino" "w_inodes demo_dir_world 0x700 = Some demo_dir_ino"
  "w_fs demo_dir_world f = demo_dir_fs" "w_addrs demo_dir_world = []" "perms_of demo_dir_world 0x800 = \<lparr>p_read = True, p_write = True, p_execute = True\<rparr>"
  "demo_dir_world\<lparr>w_curr_fs := 0x600\<rparr> = demo_dir_world"
  by (simp_all add: demo_dir_world_def heap_of_def perms_of_def get_perms_def)

lemma demo_node_facts:
  "vn_inode (demo_dir_node nm path n p) = p" "vn_inode_num (demo_dir_node nm path n p) = n" "vn_fs (demo_dir_node nm path n p) = 0x600"
  "vn_is_dir (demo_dir_node nm path n p)" "vn_name (demo_dir_node nm path n p) = string_of_cstr nm"
  "vn_path (demo_dir_node nm path n p) = string_of_cstr path"
  by (simp_all add: demo_dir_node_def)

lemma demo_read_dir: "read_dir 0x200 demo_dir_world = Some ([], demo_dir_world)"
  by (simp add: read_dir_def Let_def demo_world_facts demo_node_facts demo_no_blocks demo_dir_facts no_block_level
      del: dir_level.simps)

lemma demo_write_inode: "\<exists>fs. write_inode demo_dir_fs 2 ino = Some fs"
proof -
  have f: "inodes_per_group demo_dir_fs = 1024" "block_size demo_dir_fs = 512" "sb_inode_size (sb demo_dir_fs) = 128"
    "partition_start demo_dir_fs = 0"
    by (simp_all add: demo_dir_fs_def sb_inode_size_def)
  have "disk_read l n (\<lambda>_. replicate 512 0) = replicate (n * 512) 0" for l n
    by (induction n arbitrary: l) (simp_all add: replicate_add)
  then have "length (read_block demo_dir_fs b 1) = 512" for b
    by (simp add: read_block_def lba_blocks_def f) (simp add: demo_dir_fs_def)
  then show ?thesis by (simp add: write_inode_def Let_def f sizeof_inode_t_def)
qed

lemma set_fields:
  "w_inodes (set_inode p i w) q = (if q = p then Some i else w_inodes w q)" "w_inodes (set_fs f fs w) = w_inodes w"
  "w_fs (set_fs f fs w) g = (if g = f then fs else w_fs w g)" "w_fs (set_inode p i w) = w_fs w"
  by (simp_all add: set_inode_def set_fs_def)

lemma demo_remove_runs: "\<exists>w'. remove_entry 0x200 demo_dir_world = Some w'"
proof -
  have n: "name_bytes (string_of_cstr ''d'') = Some [100]" "\<not> string_empty (string_of_cstr ''/d/'')"
    by (simp_all add: name_bytes_def string_of_cstr_def string_empty_def to_byte_def)
  have r: "rewrite_bgds (rewrite_sb demo_dir_fs) = demo_dir_fs"
    by (simp add: rewrite_bgds_def rewrite_sb_def) (simp add: demo_dir_fs_def)
  have "hard_link_count (add_link (- 1) demo_dir_ino) = 1"
    using hard_link_count_add_link [of demo_dir_ino "- 1"] by (simp add: demo_dir_facts)
  then show ?thesis
    using demo_write_inode [of "add_link (- 1) demo_dir_ino"]
    by (auto simp: remove_entry_def demo_world_facts demo_node_facts Let_def demo_read_dir n demo_no_entry
        unlink_inode_def drop_inode_def set_fields r)
qed

lemma removed_directory_is_not_freed_witness:
  "\<exists>w' ino'. remove_entry 0x200 demo_dir_world = Some w' \<and> sb (w_fs w' 0x600) = sb demo_dir_fs
    \<and> w_inodes w' 0x800 = Some ino' \<and> hard_link_count ino' \<in> {1, 2}"
proof -
  obtain w' where r: "remove_entry 0x200 demo_dir_world = Some w'" using demo_remove_runs by blast
  show ?thesis
    using removed_directory_is_not_freed [OF r demo_world_facts(1), of _ demo_dir_ino "0x600"]
    by (simp add: demo_world_facts demo_node_facts demo_dir_facts r)
qed

end
