(* ===== verification/Ext2Mount.thy ===== *)
theory Ext2Mount
  imports Ext2Ops
begin

text \<open>
  Finding the file systems of the drives: the master boot record of \<open>src/kernel/arch/x86/mbr.cpp\<close>,
  the set-up of Ext2 from the region \<open>Init\<close> of \<open>src/kernel/fs/ext/ext2.cpp\<close>, and the choice of the
  system disk of \<open>src/kernel/fs/sysdisk.cpp\<close>.  A drive is the map from its sectors to their bytes, as
  in \<open>Ext2Block\<close>; the state is the one of \<open>Ext2Ops\<close>, where the structures that the code allocates
  lie at the addresses of \<open>w_addrs\<close>.
\<close>

section \<open>The master boot record\<close>

definition sizeof_mbr_t :: nat where "sizeof_mbr_t = 512"
definition mbr_signature :: "u8 list \<Rightarrow> u16" where "mbr_signature m = get16 510 m"
definition part_type :: "u8 list \<Rightarrow> nat \<Rightarrow> u8" where "part_type m i = m ! (446 + 16 * i + 4)"
definition part_lba_start :: "u8 list \<Rightarrow> nat \<Rightarrow> u32" where "part_lba_start m i = get32 (446 + 16 * i + 8) m"

text \<open>A null drive or a null buffer is \<open>None\<close>; the result is the answer and the buffer.\<close>

definition read_mbr :: "disk option \<Rightarrow> u8 list option \<Rightarrow> bool \<times> u8 list option" where
  "read_mbr dev m =
     (case dev of None \<Rightarrow> (False, m)
      | Some d \<Rightarrow> (case m of None \<Rightarrow> (False, m)
          | Some _ \<Rightarrow>
              let m1 = get_bytes 0 sizeof_mbr_t (disk_read 0 1 d)
              in if mbr_signature m1 \<noteq> 0xAA55 then (False, Some m1) else (True, Some m1)))"

text \<open>An AHCI drive also has a pointer to its controller, whether or not it is null.\<close>

definition read_mbr_ahci :: "disk option \<Rightarrow> bool \<Rightarrow> u8 list option \<Rightarrow> bool \<times> u8 list option" where
  "read_mbr_ahci dev has_controller m = (if \<not> has_controller then (False, m) else read_mbr dev m)"

fun find_partition :: "u8 list \<Rightarrow> nat list \<Rightarrow> u32" where
  "find_partition m [] = 0"
| "find_partition m (i # is) = (if part_type m i = 0x83 then part_lba_start m i else find_partition m is)"

definition find_partition_lba :: "u8 list option \<Rightarrow> u32" where
  "find_partition_lba m = (case m of None \<Rightarrow> 0 | Some b \<Rightarrow> find_partition b [0..<4])"

section \<open>Setting up a file system\<close>

datatype DEVICE_TYPE = DEV_ATA | DEV_AHCI

definition EXT2_MAGIC :: u16 where "EXT2_MAGIC = 0xEF53"
definition sizeof_blkgrp_descriptor_t :: u32 where "sizeof_blkgrp_descriptor_t = 32"

text \<open>The structure with the superblock, the sectors 2 and 3 of the partition, and the rest zero.\<close>

definition open_fs :: "disk \<Rightarrow> u32 \<Rightarrow> ext2_fs_t" where
  "open_fs d start =
     \<lparr>disk = d, partition_start = start, sb = disk_read (start + 2) 2 d, blk_grp_descs = [], block_size = 0,
      blocks_per_group = 0, inodes_per_group = 0, total_groups = 0, blk_grp_desc_blocks = 0\<rparr>"

text \<open>
  The geometry and the descriptor table.  \<open>None\<close> is a division by zero, or a shift by more than the
  width of the word.
\<close>

definition fill_fs :: "ext2_fs_t \<Rightarrow> ext2_fs_t option" where
  "fill_fs fs =
     (let bs = push_bit (unat (sb_blk_size (sb fs))) 1024; bpg = sb_blkgroup_blk_num (sb fs)
      in if 32 \<le> sb_blk_size (sb fs) \<or> bs = 0 \<or> bpg = 0 then None
         else
           let groups = (sb_blks_num (sb fs) + bpg - 1) div bpg;
               blks = (groups * sizeof_blkgrp_descriptor_t + bs - 1) div bs;
               fs1 = fs\<lparr>block_size := bs, blocks_per_group := bpg, inodes_per_group := sb_blkgroup_inode_num (sb fs),
                 total_groups := groups, blk_grp_desc_blocks := blks\<rparr>
           in Some (fs1\<lparr>blk_grp_descs := read_block fs1 (if bs = 1024 then 2 else 1) blks\<rparr>))"

definition next_device_name :: "DEVICE_TYPE \<Rightarrow> vfs \<Rightarrow> (dstring \<times> vfs) option" where
  "next_device_name kind v =
     (case kind of
        DEV_ATA \<Rightarrow>
          if ide_device_name_index v < length ide_device_names
          then Some (string_of_cstr (ide_device_names ! ide_device_name_index v), v\<lparr>ide_device_name_index := ide_device_name_index v + 1\<rparr>)
          else None
      | DEV_AHCI \<Rightarrow>
          if device_name_index v < length device_names
          then Some (string_of_cstr (device_names ! device_name_index v), v\<lparr>device_name_index := device_name_index v + 1\<rparr>)
          else None)"

definition mount_next :: "DEVICE_TYPE \<Rightarrow> u32 \<Rightarrow> u32 \<Rightarrow> world \<Rightarrow> world option" where
  "mount_next kind root_inode fs w =
     do {
       (name, v) \<leftarrow> next_device_name kind (w_vfs w);
       (a, w1) \<leftarrow> take_addr w;
       v1 \<leftarrow> mount_dev (mode_of w1) a name root_inode fs v;
       Some (w1\<lparr>w_vfs := v1\<rparr>) }"

text \<open>
  Both overloads of \<open>init_ext2_device\<close>; the two differ in the driver and in the names.  The answer of
  \<open>read_mbr\<close> is not looked at.  The result is the address of the file system, 0 for null.
\<close>

definition init_device :: "DEVICE_TYPE \<Rightarrow> disk \<Rightarrow> bool \<Rightarrow> world \<Rightarrow> (u32 \<times> world) option" where
  "init_device kind dev sysdisk_check w =
     (let m = (case kind of DEV_ATA \<Rightarrow> snd (read_mbr (Some dev) (Some []))
               | DEV_AHCI \<Rightarrow> snd (read_mbr_ahci (Some dev) True (Some [])));
          fs = open_fs dev (find_partition_lba m)
      in do {
        (p, w1) \<leftarrow> take_addr w;
        if sb_ext2_magic (sb fs) \<noteq> EXT2_MAGIC
        then (if sysdisk_check then Some (0, set_fs p fs w1)
              else do { w2 \<leftarrow> mount_next kind 0 0 (set_fs p fs w1); Some (0, w2) })
        else do {
          fs1 \<leftarrow> fill_fs fs;
          (root_inode, w2) \<leftarrow> fetch_inode p EXT2_ROOT_INO (set_fs p fs1 w1);
          ino \<leftarrow> w_inodes w2 root_inode;
          if \<not> INODE_IS_DIR ino
          then (if sysdisk_check then Some (0, w2)
                else do { w3 \<leftarrow> mount_next kind 0 0 w2; Some (0, w3) })
          else do {
            w3 \<leftarrow> (if sysdisk_check then Some w2 else mount_next kind root_inode p w2);
            Some (p, w3) } } })"

definition init_ext2_ata :: "disk \<Rightarrow> bool \<Rightarrow> world \<Rightarrow> (u32 \<times> world) option" where
  "init_ext2_ata = init_device DEV_ATA"

definition init_ext2_ahci :: "disk \<Rightarrow> bool \<Rightarrow> world \<Rightarrow> (u32 \<times> world) option" where
  "init_ext2_ahci = init_device DEV_AHCI"

section \<open>All file systems\<close>

text \<open>
  \<open>ata_devices\<close> up to \<open>last_ata_device_index\<close>, where every pointer is set, and the list
  \<open>ahci_devices\<close>.
\<close>

record drives =
  ata_drives :: "disk list"
  ahci_drives :: "disk list"

fun init_each :: "(disk \<Rightarrow> bool \<Rightarrow> world \<Rightarrow> (u32 \<times> world) option) \<Rightarrow> disk list \<Rightarrow> world \<Rightarrow> world option" where
  "init_each f [] w = Some w"
| "init_each f (d # ds) w = (case f d False w of None \<Rightarrow> None | Some (_, w1) \<Rightarrow> init_each f ds w1)"

definition find_ext2_fs :: "drives \<Rightarrow> world \<Rightarrow> world option" where
  "find_ext2_fs ds w = do { w1 \<leftarrow> init_each init_ext2_ata (ata_drives ds) w; init_each init_ext2_ahci (ahci_drives ds) w1 }"

text \<open>A drive is told from another by its position.\<close>

definition all_but :: "nat \<Rightarrow> 'a list \<Rightarrow> 'a list" where
  "all_but i ds = take i ds @ drop (Suc i) ds"

definition find_other_ext2_fs_ata :: "nat \<Rightarrow> drives \<Rightarrow> world \<Rightarrow> world option" where
  "find_other_ext2_fs_ata i ds w =
     do { w1 \<leftarrow> init_each init_ext2_ata (all_but i (ata_drives ds)) w; init_each init_ext2_ahci (ahci_drives ds) w1 }"

definition find_other_ext2_fs_ahci :: "nat \<Rightarrow> drives \<Rightarrow> world \<Rightarrow> world option" where
  "find_other_ext2_fs_ahci i ds w =
     do { w1 \<leftarrow> init_each init_ext2_ahci (all_but i (ahci_drives ds)) w; init_each init_ext2_ata (ata_drives ds) w1 }"

section \<open>The system disk\<close>

definition RESTRICTED_PERMS :: u16 where "RESTRICTED_PERMS = 0x1C0"

definition sys_dirs :: "dstring list" where
  "sys_dirs = [string_of_cstr ''mnt'', string_of_cstr ''home'']"

text \<open>Both variants of \<open>vfs::init\<close>.\<close>

definition vfs_init_fs :: "u32 \<Rightarrow> world \<Rightarrow> (u32 \<times> world) option" where
  "vfs_init_fs fs w =
     do {
       (root_inode, w1) \<leftarrow> fetch_inode fs EXT2_ROOT_INO w;
       (a, w2) \<leftarrow> take_addr w1;
       (node, v) \<leftarrow> vfs_init a root_inode fs (w_vfs w2);
       Some (node, w2\<lparr>w_vfs := v\<rparr>) }"

definition vfs_init_bare :: "world \<Rightarrow> (u32 \<times> world) option" where
  "vfs_init_bare w = do { (a, w1) \<leftarrow> take_addr w; (node, v) \<leftarrow> vfs_init a 0 0 (w_vfs w1); Some (node, w1\<lparr>w_vfs := v\<rparr>) }"

text \<open>Whether one of the listed nodes has the name; all are compared, the default node cannot be.\<close>

fun any_named :: "dstring \<Rightarrow> vfsNode option list \<Rightarrow> bool option" where
  "any_named dir [] = Some False"
| "any_named dir (None # ns) = None"
| "any_named dir (Some n # ns) = map_option (\<lambda>b. is_true (string_eq (vn_name n) dir) \<or> b) (any_named dir ns)"

text \<open>The directories that are missing; \<open>now\<close> is the time at which each is made.\<close>

fun make_sys_dirs :: "(dstring \<Rightarrow> u32) \<Rightarrow> u32 \<Rightarrow> vfsNode option list \<Rightarrow> dstring list \<Rightarrow> world \<Rightarrow> world option" where
  "make_sys_dirs now node nodes [] w = Some w"
| "make_sys_dirs now node nodes (dir # dirs) w =
     do {
       found \<leftarrow> any_named dir nodes;
       w1 \<leftarrow> (if found then Some w
             else do { tn \<leftarrow> heap_of w node; make_dir dir (tn_data tn) node RESTRICTED_PERMS (now dir) w });
       make_sys_dirs now node nodes dirs w1 }"

definition init_sysdisk :: "(dstring \<Rightarrow> u32) \<Rightarrow> drives \<Rightarrow> DEVICE_TYPE \<Rightarrow> nat \<Rightarrow> u32 \<Rightarrow> world \<Rightarrow> world option" where
  "init_sysdisk now ds kind i fs w =
     do {
       (node, w1) \<leftarrow> vfs_init_fs fs w;
       (nodes, w2) \<leftarrow> read_dir node w1;
       w3 \<leftarrow> make_sys_dirs now node nodes sys_dirs w2;
       (case kind of DEV_ATA \<Rightarrow> find_other_ext2_fs_ata i ds w3 | DEV_AHCI \<Rightarrow> find_other_ext2_fs_ahci i ds w3) }"

text \<open>The first drive with a valid boot record and a file system.\<close>

fun first_system :: "DEVICE_TYPE \<Rightarrow> nat \<Rightarrow> disk list \<Rightarrow> world \<Rightarrow> ((nat \<times> u32) option \<times> world) option" where
  "first_system kind i [] w = Some (None, w)"
| "first_system kind i (d # ds) w =
     (let valid = (case kind of DEV_ATA \<Rightarrow> fst (read_mbr (Some d) (Some [])) | DEV_AHCI \<Rightarrow> fst (read_mbr_ahci (Some d) True (Some [])))
      in if \<not> valid then first_system kind (Suc i) ds w
         else (case init_device kind d True w of None \<Rightarrow> None
           | Some (fs, w1) \<Rightarrow> if fs = 0 then first_system kind (Suc i) ds w1 else Some (Some (i, fs), w1)))"

definition find_sysdisk :: "(dstring \<Rightarrow> u32) \<Rightarrow> drives \<Rightarrow> world \<Rightarrow> world option" where
  "find_sysdisk now ds w =
     do {
       (r, w1) \<leftarrow> first_system DEV_ATA 0 (take 4 (ata_drives ds)) w;
       (case r of Some (i, fs) \<Rightarrow> init_sysdisk now ds DEV_ATA i fs w1
        | None \<Rightarrow>
            do {
              (r2, w2) \<leftarrow> first_system DEV_AHCI 0 (ahci_drives ds) w1;
              (case r2 of Some (i, fs) \<Rightarrow> init_sysdisk now ds DEV_AHCI i fs w2
               | None \<Rightarrow> do { (_, w3) \<leftarrow> vfs_init_bare w2; find_ext2_fs ds w3 }) }) }"

section \<open>What a drive holds\<close>

definition boot_record :: "disk \<Rightarrow> u8 list" where
  "boot_record d = get_bytes 0 sizeof_mbr_t (disk_read 0 1 d)"

definition has_mbr :: "disk \<Rightarrow> bool" where
  "has_mbr d \<longleftrightarrow> mbr_signature (boot_record d) = 0xAA55"

definition opened :: "disk \<Rightarrow> ext2_fs_t" where
  "opened d = open_fs d (find_partition_lba (Some (boot_record d)))"

definition has_magic :: "disk \<Rightarrow> bool" where
  "has_magic d \<longleftrightarrow> sb_ext2_magic (sb (opened d)) = EXT2_MAGIC"

text \<open>A file system with the root inode, and whether that is a directory.\<close>

definition root_of :: "disk \<Rightarrow> (ext2_fs_t \<times> u8 list) option" where
  "root_of d = do { fs \<leftarrow> fill_fs (opened d); ino \<leftarrow> load_inode fs EXT2_ROOT_INO; Some (fs, ino) }"

definition readable :: "disk \<Rightarrow> bool" where
  "readable d \<longleftrightarrow> (has_magic d \<longrightarrow> root_of d \<noteq> None)"

definition has_fs :: "disk \<Rightarrow> bool" where
  "has_fs d \<longleftrightarrow> has_magic d \<and> (case root_of d of None \<Rightarrow> False | Some (fs, ino) \<Rightarrow> INODE_IS_DIR ino)"

definition fs_of :: "disk \<Rightarrow> ext2_fs_t" where
  "fs_of d = (case root_of d of None \<Rightarrow> opened d | Some (fs, ino) \<Rightarrow> fs)"

text \<open>The partition that is found: the first of the four entries that has the type of Linux.\<close>

lemma find_partition_first:
  "find_partition_lba (Some m) = (case find (\<lambda>i. part_type m i = 0x83) [0..<4] of None \<Rightarrow> 0 | Some i \<Rightarrow> part_lba_start m i)"
proof -
  have "find_partition m is = (case find (\<lambda>i. part_type m i = 0x83) is of None \<Rightarrow> 0 | Some i \<Rightarrow> part_lba_start m i)" for "is"
    by (induction "is") simp_all
  then show ?thesis by (simp add: find_partition_lba_def)
qed

lemma mbr_of:
  "fst (read_mbr (Some d) (Some b)) = has_mbr d" "snd (read_mbr (Some d) (Some b)) = Some (boot_record d)"
  "fst (read_mbr_ahci (Some d) True (Some b)) = has_mbr d" "snd (read_mbr_ahci (Some d) True (Some b)) = Some (boot_record d)"
  by (simp_all add: read_mbr_ahci_def read_mbr_def Let_def boot_record_def has_mbr_def)

section \<open>Initialising one drive\<close>

definition mount_unless :: "bool \<Rightarrow> DEVICE_TYPE \<Rightarrow> u32 \<Rightarrow> u32 \<Rightarrow> world \<Rightarrow> (u32 \<times> world) option" where
  "mount_unless check kind inode fs w =
     (if check then Some (fs, w) else do { w1 \<leftarrow> mount_next kind inode fs w; Some (fs, w1) })"

lemma init_device_fs:
  assumes "has_fs d" and "w_addrs w = p # a # as"
  obtains ino where "INODE_IS_DIR ino" and "init_device kind d check w
    = mount_unless check kind a p (w\<lparr>w_fs := (w_fs w)(p := fs_of d), w_addrs := as, w_inodes := (w_inodes w)(a \<mapsto> ino)\<rparr>)"
proof -
  obtain fs ino where r: "root_of d = Some (fs, ino)" "INODE_IS_DIR ino" and m: "has_magic d"
    using assms(1) by (auto simp: has_fs_def split: option.splits)
  then have f: "fill_fs (opened d) = Some fs" "load_inode fs EXT2_ROOT_INO = Some ino"
    by (auto simp: root_of_def split: Option.bind_splits)
  show ?thesis
    by (rule that [OF r(2)], cases kind; cases check)
       (use m f r assms(2) in \<open>simp_all add: init_device_def mbr_of opened_def [symmetric] has_magic_def take_addr_def fetch_inode_def
          set_fs_def mount_unless_def fs_of_def split: option.splits\<close>)
qed

lemma init_device_no_fs:
  assumes "readable d" and "\<not> has_fs d" and "w_addrs w = p # a # as"
  obtains w1 where "init_device kind d check w = mount_unless check kind 0 0 w1"
    and "w_addrs w1 = as \<or> w_addrs w1 = a # as" and "w_vfs w1 = w_vfs w" and "\<forall>q. q \<noteq> p \<longrightarrow> w_fs w1 q = w_fs w q"
    and "\<forall>q. q \<noteq> a \<longrightarrow> w_inodes w1 q = w_inodes w q"
proof (cases "has_magic d")
  case False
  show ?thesis
    by (rule that [of "w\<lparr>w_addrs := a # as, w_fs := (w_fs w)(p := opened d)\<rparr>"], cases kind; cases check)
       (use False assms(3) in \<open>simp_all add: init_device_def mbr_of opened_def [symmetric] has_magic_def take_addr_def
          set_fs_def mount_unless_def split: option.splits\<close>)
next
  case True
  then obtain fs ino where r: "root_of d = Some (fs, ino)" "\<not> INODE_IS_DIR ino"
    using assms(1,2) by (auto simp: readable_def has_fs_def)
  then have f: "fill_fs (opened d) = Some fs" "load_inode fs EXT2_ROOT_INO = Some ino"
    by (auto simp: root_of_def split: Option.bind_splits)
  show ?thesis
    by (rule that [of "w\<lparr>w_fs := (w_fs w)(p := fs), w_addrs := as, w_inodes := (w_inodes w)(a \<mapsto> ino)\<rparr>"], cases kind; cases check)
       (use True f r assms(3) in \<open>simp_all add: init_device_def mbr_of opened_def [symmetric] has_magic_def take_addr_def fetch_inode_def
          set_fs_def mount_unless_def split: option.splits\<close>)
qed

section \<open>The drive the system starts from\<close>

definition is_system :: "disk \<Rightarrow> bool" where
  "is_system d \<longleftrightarrow> has_mbr d \<and> has_fs d"

fun numbered :: "'k \<Rightarrow> nat \<Rightarrow> disk list \<Rightarrow> ('k \<times> nat \<times> disk) list" where
  "numbered k i [] = []"
| "numbered k i (d # ds) = (k, i, d) # numbered k (Suc i) ds"

definition candidates :: "drives \<Rightarrow> (DEVICE_TYPE \<times> nat \<times> disk) list" where
  "candidates ds = numbered DEV_ATA 0 (take 4 (ata_drives ds)) @ numbered DEV_AHCI 0 (ahci_drives ds)"

definition boot_drive :: "drives \<Rightarrow> (DEVICE_TYPE \<times> nat \<times> disk) option" where
  "boot_drive ds = find (\<lambda>(k, i, d). is_system d) (candidates ds)"

lemma two_addresses:
  assumes "2 + k \<le> length xs"
  obtains p a as where "xs = p # a # as" and "k \<le> length as"
  using assms by (cases xs; cases "tl xs") auto

lemma first_system_finds:
  assumes "\<forall>d \<in> set ds. readable d" and "2 * length ds \<le> length (w_addrs w)" and "0 \<notin> set (w_addrs w)"
  shows "\<exists>r w1. first_system kind i ds w = Some (r, w1) \<and> w_vfs w1 = w_vfs w
    \<and> (\<exists>k \<le> 2 * length ds. w_addrs w1 = drop k (w_addrs w))
    \<and> (case find (\<lambda>(k, j, d). is_system d) (numbered kind i ds) of None \<Rightarrow> r = None
       | Some (k, j, d) \<Rightarrow> k = kind \<and> (\<exists>p. r = Some (j, p) \<and> p \<noteq> 0 \<and> w_fs w1 p = fs_of d))"
  using assms
proof (induction ds arbitrary: i w)
  case Nil
  then show ?case by auto
next
  case (Cons d ds)
  have "2 + 2 * length ds \<le> length (w_addrs w)" using Cons.prems(2) by simp
  then obtain p a as where w: "w_addrs w = p # a # as" and l: "2 * length ds \<le> length as"
    by (rule two_addresses)
  have rest: "\<exists>r w2. first_system kind (Suc i) ds w1 = Some (r, w2) \<and> w_vfs w2 = w_vfs w
      \<and> (\<exists>k \<le> 2 * length (d # ds). w_addrs w2 = drop k (w_addrs w))
      \<and> (case find (\<lambda>(k, j, d). is_system d) (numbered kind (Suc i) ds) of None \<Rightarrow> r = None
         | Some (k, j, d) \<Rightarrow> k = kind \<and> (\<exists>p. r = Some (j, p) \<and> p \<noteq> 0 \<and> w_fs w2 p = fs_of d))"
    if v: "w_vfs w1 = w_vfs w" and m: "m \<le> 2" "w_addrs w1 = drop m (w_addrs w)" for w1 m
  proof -
    have "2 * length ds \<le> length (w_addrs w1)" using m l w by auto
    moreover have "0 \<notin> set (w_addrs w1)" using m(2) Cons.prems(3) in_set_dropD [of 0 m] by metis
    ultimately obtain r w2 k where r: "first_system kind (Suc i) ds w1 = Some (r, w2)" "w_vfs w2 = w_vfs w1"
      "k \<le> 2 * length ds" "w_addrs w2 = drop k (w_addrs w1)"
      "case find (\<lambda>(k, j, d). is_system d) (numbered kind (Suc i) ds) of None \<Rightarrow> r = None
       | Some (k, j, d) \<Rightarrow> k = kind \<and> (\<exists>p. r = Some (j, p) \<and> p \<noteq> 0 \<and> w_fs w2 p = fs_of d)"
      using Cons.IH [of w1 "Suc i"] Cons.prems(1) by auto
    have "w_addrs w2 = drop (k + m) (w_addrs w)" "k + m \<le> 2 * length (d # ds)" using r(3,4) m by auto
    then show ?thesis using r v by auto
  qed
  have mb: "(case kind of DEV_ATA \<Rightarrow> fst (read_mbr (Some d) (Some [])) | DEV_AHCI \<Rightarrow> fst (read_mbr_ahci (Some d) True (Some []))) = has_mbr d"
    by (cases kind) (simp_all add: mbr_of)
  consider "\<not> has_mbr d" | "has_mbr d" "\<not> has_fs d" | "is_system d" by (auto simp: is_system_def)
  then show ?case
  proof cases
    case 1
    then show ?thesis using rest [of w 0] by (simp add: mb is_system_def)
  next
    case 2
    obtain w1 where w1: "init_device kind d True w = Some (0, w1)" "w_addrs w1 = as \<or> w_addrs w1 = a # as" "w_vfs w1 = w_vfs w"
      by (rule init_device_no_fs [OF _ 2(2) w, of kind True]) (use Cons.prems(1) in \<open>simp_all add: mount_unless_def\<close>)
    then have "\<exists>m \<le> 2. w_addrs w1 = drop m (w_addrs w)" using w by (auto intro: exI [of _ 2] exI [of _ 1])
    then show ?thesis using rest w1 2 by (auto simp: mb is_system_def)
  next
    case 3
    then have f: "has_fs d" and m: "has_mbr d" by (simp_all add: is_system_def)
    obtain ino where i1: "init_device kind d True w
        = Some (p, w\<lparr>w_fs := (w_fs w)(p := fs_of d), w_addrs := as, w_inodes := (w_inodes w)(a \<mapsto> ino)\<rparr>)"
      using init_device_fs [OF f w, of kind True] by (auto simp: mount_unless_def)
    moreover have "p \<noteq> 0" using Cons.prems(3) w by auto
    ultimately show ?thesis using 3 m w by (auto simp: mb intro: exI [of _ 2])
  qed
qed

lemma find_sysdisk_choice:
  assumes "\<forall>d \<in> set (ata_drives ds) \<union> set (ahci_drives ds). readable d" and "0 \<notin> set (w_addrs w)"
    and "8 + 2 * length (ahci_drives ds) \<le> length (w_addrs w)"
  shows "\<exists>w1 k. w_vfs w1 = w_vfs w \<and> k \<le> 8 + 2 * length (ahci_drives ds) \<and> w_addrs w1 = drop k (w_addrs w) \<and> (case boot_drive ds of
      Some (kind, i, d) \<Rightarrow> \<exists>p. p \<noteq> 0 \<and> w_fs w1 p = fs_of d \<and> find_sysdisk now ds w = init_sysdisk now ds kind i p w1
    | None \<Rightarrow> find_sysdisk now ds w = do { (_, w2) \<leftarrow> vfs_init_bare w1; find_ext2_fs ds w2 })"
proof -
  let ?sys = "\<lambda>(k :: DEVICE_TYPE, j :: nat, d). is_system d" and ?ata = "take 4 (ata_drives ds)"
  have r: "\<forall>d \<in> set ?ata. readable d" using assms(1) by (auto dest: in_set_takeD)
  have "2 * length ?ata \<le> length (w_addrs w)" using assms(3) by simp
  from first_system_finds [OF r this assms(2), of DEV_ATA 0]
  obtain ra w1 k where a: "first_system DEV_ATA 0 ?ata w = Some (ra, w1)" "w_vfs w1 = w_vfs w"
    "k \<le> 2 * length ?ata" "w_addrs w1 = drop k (w_addrs w)"
    "case find ?sys (numbered DEV_ATA 0 ?ata) of None \<Rightarrow> ra = None
     | Some (k, j, d) \<Rightarrow> k = DEV_ATA \<and> (\<exists>p. ra = Some (j, p) \<and> p \<noteq> 0 \<and> w_fs w1 p = fs_of d)"
    by blast
  show ?thesis
  proof (cases "find ?sys (numbered DEV_ATA 0 ?ata)")
    case (Some x)
    then show ?thesis using a by (auto simp: boot_drive_def candidates_def find_append find_sysdisk_def intro!: exI [of _ w1] exI [of _ k])
  next
    case None
    have "2 * length (ahci_drives ds) \<le> length (w_addrs w1)" using a(3,4) assms(3) by simp
    moreover have "0 \<notin> set (w_addrs w1)" using a(4) assms(2) in_set_dropD [of 0 k] by metis
    ultimately obtain rb w2 k2 where b: "first_system DEV_AHCI 0 (ahci_drives ds) w1 = Some (rb, w2)" "w_vfs w2 = w_vfs w1"
      "case find ?sys (numbered DEV_AHCI 0 (ahci_drives ds)) of None \<Rightarrow> rb = None
       | Some (k, j, d) \<Rightarrow> k = DEV_AHCI \<and> (\<exists>p. rb = Some (j, p) \<and> p \<noteq> 0 \<and> w_fs w2 p = fs_of d)"
      and k2: "k2 \<le> 2 * length (ahci_drives ds)" "w_addrs w2 = drop k2 (w_addrs w1)"
      using first_system_finds [of "ahci_drives ds" w1 DEV_AHCI 0] assms(1) by auto
    have "w_addrs w2 = drop (k2 + k) (w_addrs w)" "k2 + k \<le> 8 + 2 * length (ahci_drives ds)" using a(3,4) k2 by auto
    then show ?thesis
      using a b None
      by (auto simp: boot_drive_def candidates_def find_append find_sysdisk_def intro!: exI [of _ w2] exI [of _ "k2 + k"] split: option.splits)
  qed
qed

lemma no_system_disk:
  assumes "\<forall>d \<in> set (ata_drives ds) \<union> set (ahci_drives ds). readable d" and "0 \<notin> set (w_addrs w)"
    and "8 + 2 * length (ahci_drives ds) \<le> length (w_addrs w)" and "boot_drive ds = None"
  obtains w1 k where "find_sysdisk now ds w = do { (_, w2) \<leftarrow> vfs_init_bare w1; find_ext2_fs ds w2 }" and "w_vfs w1 = w_vfs w"
    and "k \<le> 8 + 2 * length (ahci_drives ds)" and "w_addrs w1 = drop k (w_addrs w)"
  using find_sysdisk_choice [OF assms(1-3), of now] assms(4) by auto

text \<open>
  C14: the drive the system starts from.  When every drive whose superblock has the magic number can
  be read, the first one in the order of the drives, the ATA drives before the AHCI drives, that has a
  valid boot record and a file system whose root is a directory becomes the system disk: the tree
  and the system directories are set up on the file system read from it.  When there is none the
  tree gets a bare root and all drives are mounted.  Nothing is mounted before the choice is made.
\<close>

theorem system_disk_is_first:
  assumes "\<forall>d \<in> set (ata_drives ds) \<union> set (ahci_drives ds). readable d" and "0 \<notin> set (w_addrs w)"
    and "8 + 2 * length (ahci_drives ds) \<le> length (w_addrs w)"
  shows "\<exists>w1. w_vfs w1 = w_vfs w \<and> (case boot_drive ds of
      Some (kind, i, d) \<Rightarrow> \<exists>p. p \<noteq> 0 \<and> w_fs w1 p = fs_of d \<and> find_sysdisk now ds w = init_sysdisk now ds kind i p w1
    | None \<Rightarrow> find_sysdisk now ds w = do { (_, w2) \<leftarrow> vfs_init_bare w1; find_ext2_fs ds w2 })"
  using find_sysdisk_choice [OF assms, of now] by blast

section \<open>Mounting the drives\<close>

text \<open>Only the new node is new in the heap.\<close>

lemma upd_none: "upd p f h = Some h' \<Longrightarrow> h q = None \<Longrightarrow> h' q = None"
  by (auto simp: upd_def split: option.splits)

lemma hang_none:
  assumes "hang a p v h = Some (n, h')" and "h q = None" and "q \<noteq> a"
  shows "h' q = None"
proof (cases "a = 0 \<or> p = 0")
  case True
  then show ?thesis using assms by (auto simp: hang_def create_def add_child_def split: Option.bind_splits if_splits)
next
  case False
  let ?h1 = "h(a \<mapsto> tnode v 0 0 0)"
  obtain h2 where h2: "upd a (\<lambda>n. n\<lparr>tn_next_sibling := 0, tn_parent := p\<rparr>) ?h1 = Some h2"
    and s: "(\<exists>f. upd p f h2 = Some h') \<or> (\<exists>c f. upd c f h2 = Some h')"
    using assms(1) False by (auto simp: hang_def create_def add_child_def split: Option.bind_splits if_splits)
  have "h2 q = None" using upd_none [OF h2] assms(2,3) by simp
  then show ?thesis using s upd_none by blast
qed

lemma add_node_none:
  assumes "add_node mode a p name num inode fs h = Some (n, h')" and "h q = None" and "q \<noteq> a"
  shows "h' q = None"
  using assms hang_none [where q = q and a = a]
  by (auto simp: add_node_def Let_def split: Option.bind_splits if_splits option.splits)

lemma device_names_ok:
  "n \<in> set (ide_device_names @ device_names) \<Longrightarrow>
     string_ok (string_of_cstr n) \<and> chars (string_of_cstr n) = n \<and> length n = 3 \<and> n \<noteq> [] \<and> n \<noteq> ''mnt'' \<and> slash \<notin> set n"
  by (auto simp: ide_device_names_def device_names_def string_of_cstr_def string_ok_def chars_def)

lemma length_names: "length ide_device_names = 4" "length device_names = 26"
  by (simp_all add: ide_device_names_def device_names_def)

lemma device_names_distinct: "distinct (ide_device_names @ device_names)"
  by (simp add: ide_device_names_def device_names_def)

lemma get_mount_point:
  assumes "vfs_ok v t"
  shows "get_node v (string_of_cstr ''/mnt/'') = Some (case lookup [''mnt''] t of None \<Rightarrow> 0 | Some u \<Rightarrow> root u)"
    and "get_node v (string_of_cstr ''/'') = Some (root t)"
  using assms get_node_eq [of v t "string_of_cstr ''/mnt/''" "''mnt/''"] get_node_eq [of v t "string_of_cstr ''/''" "[]"]
  by (simp_all add: vfs_ok_def string_of_cstr_def string_ok_def chars_def parts_def)

definition mount_point :: "vfsNode rtree \<Rightarrow> string list \<times> vfsNode rtree" where
  "mount_point t = (case lookup [''mnt''] t of None \<Rightarrow> ([], t) | Some u \<Rightarrow> ([''mnt''], u))"

lemma mount_next_adds:
  assumes "vfs_ok (vfs_tree (w_vfs w)) t" and "mount_point t = (ns, T p d ts)" and "vn_is_dir d"
    and "next_device_name kind (w_vfs w) = Some (string_of_cstr name, v)" and "name \<in> set (ide_device_names @ device_names)"
    and "\<forall>u \<in> set ts. name_of u \<noteq> name" and "w_addrs w = a # as" and "a \<noteq> 0" and "t_heap (vfs_tree (w_vfs w)) a = None"
    and "length (chars (vn_path d)) + 4 < 2 ^ 32"
    and "inode = 0 \<and> fs = 0 \<or> inode \<noteq> 0 \<and> fs \<noteq> 0 \<and> inode_is_dir (mode_of w inode)"
  obtains nd h' where "mount_next kind inode fs w = Some (w\<lparr>w_addrs := as, w_vfs := v\<lparr>vfs_tree := (vfs_tree (w_vfs w))\<lparr>t_heap := h'\<rparr>\<rparr>\<rparr>)"
    and "vfs_ok ((vfs_tree (w_vfs w))\<lparr>t_heap := h'\<rparr>) (graft p (\<lambda>ts. ts @ [T a nd []]) t)"
    and "chars (vn_name nd) = name" and "vn_is_dir nd" and "vn_inode nd = inode" and "vn_fs nd = fs"
    and "\<And>q. t_heap (vfs_tree (w_vfs w)) q = None \<Longrightarrow> q \<noteq> a \<Longrightarrow> h' q = None"
proof -
  let ?v = "vfs_tree (w_vfs w)" and ?w1 = "w\<lparr>w_addrs := as\<rparr>" and ?n = "string_of_cstr name"
  have vt: "vfs_tree v = ?v" using assms(4) by (auto simp: next_device_name_def split: DEVICE_TYPE.splits if_splits)
  have lk: "lookup ns t = Some (T p d ts)" using assms(2) by (auto simp: mount_point_def split: option.splits)
  have p0: "p \<noteq> 0" using assms(1) lookup_subtree [OF lk] by (auto simp: vfs_ok_def elim!: tree_node)
  have rt: "root t \<noteq> 0" using assms(1) by (cases t) (auto simp: vfs_ok_def is_tree_def)
  note nm = device_names_ok [OF assms(5)]
  have mo: "mode_of ?w1 = mode_of w" by (simp add: mode_of_def fun_eq_iff)
  obtain nd h' where ad: "add_node (mode_of w) a p ?n EXT2_ROOT_INO inode fs (t_heap ?v) = Some (Some nd, h')"
    "vfs_ok (?v\<lparr>t_heap := h'\<rparr>) (graft p (\<lambda>ts. ts @ [T a nd []]) t)"
    and nd: "chars (vn_name nd) = name" "vn_is_dir nd" "vn_inode nd = inode" "vn_fs nd = fs"
  proof (cases "inode = 0")
    case True
    have cp: "chars (string_copy ?n) = name" using nm by (auto simp: string_copy_def string_ok_def chars_def split: option.splits)
    show ?thesis
      using add_empty_adds [OF assms(1) lk assms(3) _ _ _ _ assms(8,9) _ refl, of ?n "mode_of w" EXT2_ROOT_INO fs] nm assms(6,10,11) True cp that
      by auto
  next
    case False
    have cp: "chars (string_copy ?n) = name" using nm by (auto simp: string_copy_def string_ok_def chars_def split: option.splits)
    show ?thesis
      using add_node_adds [OF assms(1) lk assms(3) _ _ _ _ _ _ assms(8,9) _ refl, of ?n inode fs "mode_of w" EXT2_ROOT_INO] nm assms(6,10,11) False cp that
      by auto
  qed
  have "mount_dev (mode_of w) a ?n inode fs v = Some (v\<lparr>vfs_tree := ?v\<lparr>t_heap := h'\<rparr>\<rparr>)"
    using get_mount_point [OF assms(1)] assms(2) ad(1) p0 rt
    by (auto simp: mount_dev_def vt mount_point_def split: option.splits)
  then have "mount_next kind inode fs w = Some (w\<lparr>w_addrs := as, w_vfs := v\<lparr>vfs_tree := ?v\<lparr>t_heap := h'\<rparr>\<rparr>\<rparr>)"
    using assms(4,7) mo by (simp add: mount_next_def take_addr_def)
  then show ?thesis using that ad(2) nd add_node_none [OF ad(1)] by blast
qed

text \<open>
  A drive that is mounted is found in the tree.  With the directory \<open>/mnt\<close> in the tree it becomes
  its last child, and otherwise the last child of the root, under the next name of its kind of
  drive; the tree stays well formed, and looking up the path in the new node gives that node, with
  the file system and the root inode of the drive, both null when it has none.
\<close>

lemma mounted_drive_is_found:
  assumes "vfs_ok (vfs_tree (w_vfs w)) t" and "mount_point t = (ns, T p d ts)" and "vn_is_dir d"
    and "next_device_name kind (w_vfs w) = Some (string_of_cstr name, v)" and "name \<in> set (ide_device_names @ device_names)"
    and "\<forall>u \<in> set ts. name_of u \<noteq> name" and "w_addrs w = a # as" and "a \<noteq> 0" and "t_heap (vfs_tree (w_vfs w)) a = None"
    and "length (chars (vn_path d)) + 4 < 2 ^ 32"
    and "inode = 0 \<and> fs = 0 \<or> inode \<noteq> 0 \<and> fs \<noteq> 0 \<and> inode_is_dir (mode_of w inode)"
  shows "\<exists>nd w'. mount_next kind inode fs w = Some w'
    \<and> vfs_ok (vfs_tree (w_vfs w')) (graft p (\<lambda>ts. ts @ [T a nd []]) t)
    \<and> chars (vn_name nd) = name \<and> vn_fs nd = fs \<and> vn_inode nd = inode
    \<and> get_node (vfs_tree (w_vfs w')) (vn_path nd) = Some a \<and> find_inode (vfs_tree (w_vfs w')) (vn_path nd) = Some inode"
proof -
  obtain nd h' where m: "mount_next kind inode fs w = Some (w\<lparr>w_addrs := as, w_vfs := v\<lparr>vfs_tree := (vfs_tree (w_vfs w))\<lparr>t_heap := h'\<rparr>\<rparr>\<rparr>)"
    and ok: "vfs_ok ((vfs_tree (w_vfs w))\<lparr>t_heap := h'\<rparr>) (graft p (\<lambda>ts. ts @ [T a nd []]) t)"
    and nd: "chars (vn_name nd) = name" "vn_is_dir nd" "vn_inode nd = inode" "vn_fs nd = fs"
    by (rule mount_next_adds [OF assms]) blast
  let ?t = "graft p (\<lambda>ts. ts @ [T a nd []]) t" and ?v = "(vfs_tree (w_vfs w))\<lparr>t_heap := h'\<rparr>"
  have lk: "lookup ns t = Some (T p d ts)" and ns: "length ns \<le> 1"
    using assms(2) by (auto simp: mount_point_def split: option.splits)
  have "distinct (ptrs t)" using assms(1) by (simp add: vfs_ok_def is_tree_def)
  then have l: "lookup (ns @ [name]) ?t = Some (T a nd [])"
    by (rule lookup_new [OF lk]) (use assms(6) nd(1) in \<open>simp_all add: name_of_def\<close>)
  have tr: "is_tree (t_heap ?v) ?t" "t_root ?v = root ?t" "named ?t" "pathed [] ?t" using ok by (simp_all add: vfs_ok_def)
  have po: "path_ok (ns @ [name]) nd" using pathed_lookup [OF tr(4) l] by simp
  then obtain s where s: "chars (vn_path nd) = slash # s" "string_ok (vn_path nd)" "parts slash (slash # s) = ns @ [name]"
    by (auto simp: path_ok_def)
  then have "take 15 (parts slash s) = ns @ [name]" using ns by (simp add: parts_def)
  then show ?thesis
    using m ok nd l get_node_eq [OF tr(1-3) s(2,1)] find_inode_eq [OF tr(1-3) s(2,1), of "T a nd []"]
    by (intro exI [of _ nd] exI [of _ "w\<lparr>w_addrs := as, w_vfs := v\<lparr>vfs_tree := ?v\<rparr>\<rparr>"]) simp
qed

section \<open>Without a system disk\<close>

definition bare_root :: vfsNode where
  "bare_root = \<lparr>vn_name = string_of_cstr ''/'', vn_path = string_of_cstr ''/'', vn_is_dir = True,
     vn_inode_num = EXT2_ROOT_INO, vn_inode = 0, vn_fs = 0\<rparr>"

text \<open>A child of the root stands for the drive with its name: its file system, or null.\<close>

definition stands_for :: "world \<Rightarrow> vfsNode rtree \<Rightarrow> string \<times> disk \<Rightarrow> bool" where
  "stands_for w u nd \<longleftrightarrow> name_of u = fst nd \<and> kids u = []
     \<and> (if has_fs (snd nd) then vn_fs (val u) \<noteq> 0 \<and> w_fs w (vn_fs (val u)) = fs_of (snd nd) \<and> vn_fs (val u) \<notin> set (w_addrs w)
        else vn_fs (val u) = 0)"

text \<open>The drives \<open>ms\<close> are mounted below the root \<open>r\<close>, and what is left of the addresses is fresh.\<close>

definition mounted :: "u32 \<Rightarrow> (string \<times> disk) list \<Rightarrow> world \<Rightarrow> bool" where
  "mounted r ms w \<longleftrightarrow> distinct (w_addrs w) \<and> 0 \<notin> set (w_addrs w) \<and> (\<forall>a \<in> set (w_addrs w). t_heap (vfs_tree (w_vfs w)) a = None)
     \<and> (\<exists>ts. vfs_ok (vfs_tree (w_vfs w)) (T r bare_root ts) \<and> list_all2 (stands_for w) ts ms)"

lemma stands_for_names: "list_all2 (stands_for w) ts ms \<Longrightarrow> map name_of ts = map fst ms"
  by (induction rule: list_all2_induct) (simp_all add: stands_for_def)

lemma stands_for_mono:
  assumes "list_all2 (stands_for w) ts ms" and "set (w_addrs w') \<subseteq> set (w_addrs w)"
    and "\<And>q. q \<notin> set (w_addrs w) \<Longrightarrow> w_fs w' q = w_fs w q"
  shows "list_all2 (stands_for w') ts ms"
  using assms(1) by (rule list_all2_mono) (use assms(2,3) in \<open>auto simp: stands_for_def split: if_splits\<close>)

lemma INODE_IS_DIR_mode: "w_inodes w a = Some ino \<Longrightarrow> INODE_IS_DIR ino \<Longrightarrow> inode_is_dir (mode_of w a)"
  by (simp add: mode_of_def inode_is_dir_def INODE_IS_DIR_def EXT2_S_IFMT_def EXT2_S_IFDIR_def)

lemma mounted_mono:
  assumes "mounted r ms w" and "w_vfs w' = w_vfs w" and "w_addrs w' = drop k (w_addrs w)"
    and "\<And>q. q \<notin> set (w_addrs w) \<Longrightarrow> w_fs w' q = w_fs w q"
  shows "mounted r ms w'"
proof -
  have sub: "set (w_addrs w') \<subseteq> set (w_addrs w)" using assms(3) by (simp add: set_drop_subset)
  obtain ts where "vfs_ok (vfs_tree (w_vfs w)) (T r bare_root ts)" "list_all2 (stands_for w) ts ms"
    using assms(1) by (auto simp: mounted_def)
  then have "\<exists>ts. vfs_ok (vfs_tree (w_vfs w')) (T r bare_root ts) \<and> list_all2 (stands_for w') ts ms"
    using stands_for_mono [OF _ sub assms(4)] assms(2) by auto
  then show ?thesis using assms(1-3) sub by (auto simp: mounted_def)
qed

lemma mount_mounts:
  assumes "mounted r ms w" and "set (map fst ms) \<subseteq> set (ide_device_names @ device_names)" and "w_addrs w = a # as"
    and "next_device_name kind (w_vfs w) = Some (string_of_cstr name, v)" and "name \<in> set (ide_device_names @ device_names)"
    and "name \<notin> set (map fst ms)"
    and "inode = 0 \<and> fs = 0 \<and> \<not> has_fs d \<or> inode \<noteq> 0 \<and> fs \<noteq> 0 \<and> inode_is_dir (mode_of w inode)
       \<and> has_fs d \<and> w_fs w fs = fs_of d \<and> fs \<notin> set (w_addrs w)"
  obtains w' where "mount_next kind inode fs w = Some w'" and "mounted r (ms @ [(name, d)]) w'" and "w_addrs w' = as"
    and "w_vfs w' = v\<lparr>vfs_tree := vfs_tree (w_vfs w')\<rparr>"
proof -
  obtain ts where ts: "vfs_ok (vfs_tree (w_vfs w)) (T r bare_root ts)" "list_all2 (stands_for w) ts ms"
    using assms(1) by (auto simp: mounted_def)
  have names: "name_of ` set ts = fst ` set ms" using stands_for_names [OF ts(2)] by (metis set_map)
  have fresh: "\<forall>u \<in> set ts. name_of u \<noteq> name" using names assms(6) by auto
  have "\<forall>u \<in> set ts. name_of u \<noteq> ''mnt''"
  proof
    fix u assume "u \<in> set ts"
    then have "name_of u \<in> set (ide_device_names @ device_names)" using names assms(2) by auto
    then show "name_of u \<noteq> ''mnt''" using device_names_ok by blast
  qed
  then have mp: "mount_point (T r bare_root ts) = ([], T r bare_root ts)"
    by (auto simp: mount_point_def find_Some_iff split: option.splits)
  have a: "a \<noteq> 0" "t_heap (vfs_tree (w_vfs w)) a = None" using assms(1,3) by (auto simp: mounted_def)
  have br: "vn_is_dir bare_root" "length (chars (vn_path bare_root)) + 4 < 2 ^ 32"
    by (simp_all add: bare_root_def string_of_cstr_def chars_def)
  have io: "inode = 0 \<and> fs = 0 \<or> inode \<noteq> 0 \<and> fs \<noteq> 0 \<and> inode_is_dir (mode_of w inode)" using assms(7) by blast
  obtain nd h' where m: "mount_next kind inode fs w
      = Some (w\<lparr>w_addrs := as, w_vfs := v\<lparr>vfs_tree := (vfs_tree (w_vfs w))\<lparr>t_heap := h'\<rparr>\<rparr>\<rparr>)"
    and ok: "vfs_ok ((vfs_tree (w_vfs w))\<lparr>t_heap := h'\<rparr>) (graft r (\<lambda>ts. ts @ [T a nd []]) (T r bare_root ts))"
    and nd: "chars (vn_name nd) = name" "vn_is_dir nd" "vn_inode nd = inode" "vn_fs nd = fs"
    and none: "\<And>q. t_heap (vfs_tree (w_vfs w)) q = None \<Longrightarrow> q \<noteq> a \<Longrightarrow> h' q = None"
    by (rule mount_next_adds [OF ts(1) mp br(1) assms(4,5) fresh assms(3) a br(2) io]) blast
  let ?w = "w\<lparr>w_addrs := as, w_vfs := v\<lparr>vfs_tree := (vfs_tree (w_vfs w))\<lparr>t_heap := h'\<rparr>\<rparr>\<rparr>"
  have "list_all2 (stands_for ?w) ts ms" by (rule stands_for_mono [OF ts(2)]) (use assms(3) in auto)
  moreover have "stands_for ?w (T a nd []) (name, d)"
    using assms(3,7) nd by (auto simp: stands_for_def name_of_def)
  ultimately have "list_all2 (stands_for ?w) (ts @ [T a nd []]) (ms @ [(name, d)])" by (simp add: list_all2_appendI)
  moreover have "\<forall>q \<in> set as. h' q = None"
  proof
    fix q
    assume "q \<in> set as"
    then show "h' q = None" using assms(1,3) by (intro none) (auto simp: mounted_def)
  qed
  ultimately have "mounted r (ms @ [(name, d)]) ?w"
    using assms(1,3) ok unfolding mounted_def by (auto intro!: exI [of _ "ts @ [T a nd []]"])
  then show ?thesis using that [OF m] by simp
qed

lemma init_mounts:
  assumes "mounted r ms w" and "set (map fst ms) \<subseteq> set (ide_device_names @ device_names)" and "readable d"
    and "2 + 1 \<le> length (w_addrs w)" and "next_device_name kind (w_vfs w) = Some (string_of_cstr name, v)"
    and "name \<in> set (ide_device_names @ device_names)" and "name \<notin> set (map fst ms)"
  shows "\<exists>x w' k. init_device kind d False w = Some (x, w') \<and> mounted r (ms @ [(name, d)]) w'
    \<and> k \<le> 3 \<and> w_addrs w' = drop k (w_addrs w) \<and> w_vfs w' = v\<lparr>vfs_tree := vfs_tree (w_vfs w')\<rparr>"
proof -
  obtain p a as where w: "w_addrs w = p # a # as" and l: "1 \<le> length as" by (rule two_addresses [OF assms(4)])
  then obtain b bs where bs: "as = b # bs" by (cases as) auto
  have fresh: "distinct (p # a # as)" "0 \<notin> set (p # a # as)" using assms(1) w by (auto simp: mounted_def)
  show ?thesis
  proof (cases "has_fs d")
    case True
    obtain ino where dir: "INODE_IS_DIR ino" and i: "init_device kind d False w
        = mount_unless False kind a p (w\<lparr>w_fs := (w_fs w)(p := fs_of d), w_addrs := as, w_inodes := (w_inodes w)(a \<mapsto> ino)\<rparr>)"
      by (rule init_device_fs [OF True w, of kind False])
    let ?w1 = "w\<lparr>w_fs := (w_fs w)(p := fs_of d), w_addrs := as, w_inodes := (w_inodes w)(a \<mapsto> ino)\<rparr>"
    have m: "mounted r ms ?w1" by (rule mounted_mono [OF assms(1), of _ 2]) (use w in auto)
    have md: "inode_is_dir (mode_of ?w1 a)" by (rule INODE_IS_DIR_mode [OF _ dir]) simp
    obtain w' where "mount_next kind a p ?w1 = Some w'" "mounted r (ms @ [(name, d)]) w'" "w_addrs w' = bs"
      "w_vfs w' = v\<lparr>vfs_tree := vfs_tree (w_vfs w')\<rparr>"
      by (rule mount_mounts [OF m assms(2) _ _ assms(6,7), of b bs kind v a p d]) (use md True assms(5) bs fresh in auto)
    then show ?thesis using i w bs by (auto simp: mount_unless_def intro!: exI [of _ 3])
  next
    case False
    obtain w1 where i: "init_device kind d False w = mount_unless False kind 0 0 w1" and wa: "w_addrs w1 = as \<or> w_addrs w1 = a # as"
      and wv: "w_vfs w1 = w_vfs w" and wf: "\<forall>q. q \<noteq> p \<longrightarrow> w_fs w1 q = w_fs w q"
      by (rule init_device_no_fs [OF assms(3) False w, of kind False])
    obtain k where k: "k \<le> 2" "w_addrs w1 = drop k (w_addrs w)" using wa w by (auto intro: that [of 2] that [of 1])
    have m: "mounted r ms w1" by (rule mounted_mono [OF assms(1) wv k(2)]) (use wf w in auto)
    obtain c cs where c: "w_addrs w1 = c # cs" using wa bs by auto
    obtain w' where w': "mount_next kind 0 0 w1 = Some w'" "mounted r (ms @ [(name, d)]) w'" "w_addrs w' = cs"
      "w_vfs w' = v\<lparr>vfs_tree := vfs_tree (w_vfs w')\<rparr>"
      by (rule mount_mounts [OF m assms(2) c _ assms(6,7), of kind v 0 0 d]) (use False assms(5) wv in auto)
    have "cs = drop (Suc k) (w_addrs w)" using c k(2) by (metis drop_Suc list.sel(3) tl_drop)
    then show ?thesis using i w' k(1) by (auto simp: mount_unless_def intro!: exI [of _ "Suc k"])
  qed
qed

fun dev_names :: "DEVICE_TYPE \<Rightarrow> string list" where
  "dev_names DEV_ATA = ide_device_names"
| "dev_names DEV_AHCI = device_names"

fun dev_index :: "DEVICE_TYPE \<Rightarrow> vfs \<Rightarrow> nat" where
  "dev_index DEV_ATA v = ide_device_name_index v"
| "dev_index DEV_AHCI v = device_name_index v"

lemma next_name:
  assumes "dev_index kind v < length (dev_names kind)"
  obtains v' where "next_device_name kind v = Some (string_of_cstr (dev_names kind ! dev_index kind v), v')"
    and "\<And>k t. dev_index k (v'\<lparr>vfs_tree := t\<rparr>) = (if k = kind then Suc (dev_index k v) else dev_index k v)"
proof (cases kind)
  case DEV_ATA
  let ?v = "v\<lparr>ide_device_name_index := ide_device_name_index v + 1\<rparr>"
  have "dev_index k (?v\<lparr>vfs_tree := t\<rparr>) = (if k = kind then Suc (dev_index k v) else dev_index k v)" for k t
    using DEV_ATA by (cases k) simp_all
  then show ?thesis using that [of ?v] assms DEV_ATA by (simp add: next_device_name_def)
next
  case DEV_AHCI
  let ?v = "v\<lparr>device_name_index := device_name_index v + 1\<rparr>"
  have "dev_index k (?v\<lparr>vfs_tree := t\<rparr>) = (if k = kind then Suc (dev_index k v) else dev_index k v)" for k t
    using DEV_AHCI by (cases k) simp_all
  then show ?thesis using that [of ?v] assms DEV_AHCI by (simp add: next_device_name_def)
qed

lemma init_each_mounts:
  assumes "mounted r ms w" and "set (map fst ms) \<subseteq> set (ide_device_names @ device_names)" and "\<forall>d \<in> set ds. readable d"
    and "3 * length ds \<le> length (w_addrs w)" and "dev_index kind (w_vfs w) + length ds \<le> length (dev_names kind)"
    and "set (map fst ms) \<inter> set (drop (dev_index kind (w_vfs w)) (dev_names kind)) = {}"
  shows "\<exists>w' k. init_each (init_device kind) ds w = Some w'
    \<and> mounted r (ms @ zip (drop (dev_index kind (w_vfs w)) (dev_names kind)) ds) w'
    \<and> k \<le> 3 * length ds \<and> w_addrs w' = drop k (w_addrs w)
    \<and> (\<forall>kind'. kind' \<noteq> kind \<longrightarrow> dev_index kind' (w_vfs w') = dev_index kind' (w_vfs w))"
  using assms
proof (induction ds arbitrary: ms w)
  case Nil
  then show ?case by auto
next
  case (Cons d ds)
  let ?i = "dev_index kind (w_vfs w)" and ?ns = "dev_names kind"
  have i: "?i < length ?ns" using Cons.prems(5) by simp
  then have dr: "drop ?i ?ns = ?ns ! ?i # drop (Suc ?i) ?ns" by (simp add: Cons_nth_drop_Suc)
  have dist: "distinct ?ns" "set ?ns \<subseteq> set (ide_device_names @ device_names)"
    using device_names_distinct by (cases kind; auto)+
  have nm: "?ns ! ?i \<in> set (ide_device_names @ device_names)" "?ns ! ?i \<notin> set (map fst ms)"
    using i dist(2) nth_mem Cons.prems(6) dr by auto
  obtain v where v: "next_device_name kind (w_vfs w) = Some (string_of_cstr (?ns ! ?i), v)"
    "\<And>k t. dev_index k (v\<lparr>vfs_tree := t\<rparr>) = (if k = kind then Suc (dev_index k (w_vfs w)) else dev_index k (w_vfs w))"
    by (rule next_name [OF i]) blast
  have rd: "readable d" "2 + 1 \<le> length (w_addrs w)" using Cons.prems(3,4) by simp_all
  obtain x w1 k1 where w1: "init_device kind d False w = Some (x, w1)" "mounted r (ms @ [(?ns ! ?i, d)]) w1"
    "k1 \<le> 3" "w_addrs w1 = drop k1 (w_addrs w)" "w_vfs w1 = v\<lparr>vfs_tree := vfs_tree (w_vfs w1)\<rparr>"
    using init_mounts [OF Cons.prems(1,2) rd v(1) nm] by blast
  have ix: "dev_index k (w_vfs w1) = (if k = kind then Suc (dev_index k (w_vfs w)) else dev_index k (w_vfs w))" for k
    using v(2) [of k] w1(5) by metis
  have fresh: "?ns ! ?i \<notin> set (drop (Suc ?i) ?ns)" using dist(1) dr distinct_drop [of ?ns ?i] by simp
  have sb: "set (map fst (ms @ [(?ns ! ?i, d)])) \<subseteq> set (ide_device_names @ device_names)" using Cons.prems(2) nm(1) by simp
  have rds: "\<forall>d \<in> set ds. readable d" using Cons.prems(3) by simp
  have le: "3 * length ds \<le> length (w_addrs w1)" using Cons.prems(4) w1(3,4) by simp
  have ie: "dev_index kind (w_vfs w1) + length ds \<le> length ?ns" using Cons.prems(5) by (simp add: ix)
  have dj: "set (map fst (ms @ [(?ns ! ?i, d)])) \<inter> set (drop (dev_index kind (w_vfs w1)) ?ns) = {}"
    using Cons.prems(6) fresh by (simp add: ix dr)
  obtain w2 k2 where w2: "init_each (init_device kind) ds w1 = Some w2"
    "mounted r ((ms @ [(?ns ! ?i, d)]) @ zip (drop (dev_index kind (w_vfs w1)) ?ns) ds) w2"
    "k2 \<le> 3 * length ds" "w_addrs w2 = drop k2 (w_addrs w1)"
    "\<forall>kind'. kind' \<noteq> kind \<longrightarrow> dev_index kind' (w_vfs w2) = dev_index kind' (w_vfs w1)"
    using Cons.IH [OF w1(2) sb rds le ie dj] by blast
  have "w_addrs w2 = drop (k2 + k1) (w_addrs w)" using w2(4) w1(4) by simp
  then show ?case using w1(1,3) w2(1,2,3,5) ix dr by (auto intro!: exI [of _ "k2 + k1"])
qed

text \<open>
  C39: without a system disk.  The tree gets a root without a file system, and every drive is
  mounted below it in order: the ATA drives as \<open>hda\<close>, \<open>hdb\<close> and so on, then the AHCI drives as
  \<open>sda\<close>, \<open>sdb\<close> and so on.  The node of a drive with a file system has the file system that was
  read from it, also when the drive has no valid boot record; the node of any other drive has none.
\<close>

theorem mobile_mode_mounts_all:
  assumes "boot_drive ds = None" and "\<forall>d \<in> set (ata_drives ds) \<union> set (ahci_drives ds). readable d"
    and "length (ata_drives ds) \<le> 4" and "length (ahci_drives ds) \<le> 26"
    and "vfs_tree (w_vfs w) = tree_new (\<lambda>_. None)" and "ide_device_name_index (w_vfs w) = 0" and "device_name_index (w_vfs w) = 0"
    and "distinct (w_addrs w)" and "0 \<notin> set (w_addrs w)"
    and "9 + 2 * length (ahci_drives ds) + 3 * (length (ata_drives ds) + length (ahci_drives ds)) \<le> length (w_addrs w)"
  shows "\<exists>w' r ts. find_sysdisk now ds w = Some w' \<and> vfs_ok (vfs_tree (w_vfs w')) (T r bare_root ts)
    \<and> list_all2 (stands_for w') ts (zip ide_device_names (ata_drives ds) @ zip device_names (ahci_drives ds))"
proof -
  obtain w1 k where w1: "find_sysdisk now ds w = do { (_, w2) \<leftarrow> vfs_init_bare w1; find_ext2_fs ds w2 }" "w_vfs w1 = w_vfs w"
    and k: "k \<le> 8 + 2 * length (ahci_drives ds)" "w_addrs w1 = drop k (w_addrs w)"
    using no_system_disk [OF assms(2,9) _ assms(1)] assms(10) by auto
  have "w_addrs w1 \<noteq> []" using k assms(10) by auto
  then obtain a as where as: "w_addrs w1 = a # as" by (cases "w_addrs w1") auto
  have fresh: "distinct (a # as)" "0 \<notin> set (a # as)" using as k(2) assms(8,9) by (metis distinct_drop, metis in_set_dropD)
  let ?w2 = "w1\<lparr>w_addrs := as, w_vfs := (w_vfs w)\<lparr>vfs_tree := \<lparr>t_heap = [a \<mapsto> tnode bare_root 0 0 0], t_root = a\<rparr>\<rparr>\<rparr>"
  have v0: "vfs_init_bare w1 = Some (a, ?w2)"
    using as fresh(2) w1(2) assms(5)
    by (simp add: vfs_init_bare_def take_addr_def vfs_init_def create_def set_root_def tree_new_def bare_root_def)
  have len: "3 * (length (ata_drives ds) + length (ahci_drives ds)) \<le> length as"
  proof -
    have "Suc (length as) = length (w_addrs w) - k" using as k(2) by (metis length_Cons length_drop)
    then show ?thesis using k(1) assms(10) by linarith
  qed
  have m0: "mounted a [] ?w2"
    using fresh by (auto simp: mounted_def vfs_ok_def is_tree_def bare_root_def string_of_cstr_def string_ok_def chars_def
        path_ok_def parts_def dir_path_def)
  have i0: "dev_index DEV_ATA (w_vfs ?w2) = 0" "dev_index DEV_AHCI (w_vfs ?w2) = 0" using assms(6,7) by simp_all
  obtain w3 k3 where w3: "init_each init_ext2_ata (ata_drives ds) ?w2 = Some w3" "mounted a (zip ide_device_names (ata_drives ds)) w3"
    "k3 \<le> 3 * length (ata_drives ds)" "w_addrs w3 = drop k3 as" "dev_index DEV_AHCI (w_vfs w3) = 0"
    using init_each_mounts [OF m0, of "ata_drives ds" DEV_ATA] assms(2,3) len i0
    by (auto simp: init_ext2_ata_def length_names)
  have sub: "set (map fst (zip ide_device_names (ata_drives ds))) \<subseteq> set ide_device_names" by (auto dest: set_zip_leftD)
  have "set (map fst (zip ide_device_names (ata_drives ds))) \<inter> set (drop 0 (dev_names DEV_AHCI)) = {}"
    using sub device_names_distinct by (simp only: distinct_append dev_names.simps drop_0) blast
  then have dj: "set (map fst (zip ide_device_names (ata_drives ds))) \<inter> set (drop (dev_index DEV_AHCI (w_vfs w3)) (dev_names DEV_AHCI)) = {}"
    using w3(5) by simp
  have le: "3 * length (ahci_drives ds) \<le> length (w_addrs w3)" using len w3(3,4) by simp
  have ix: "dev_index DEV_AHCI (w_vfs w3) + length (ahci_drives ds) \<le> length (dev_names DEV_AHCI)"
    using w3(5) assms(4) by (simp add: length_names)
  have sb: "set (map fst (zip ide_device_names (ata_drives ds))) \<subseteq> set (ide_device_names @ device_names)" using sub by auto
  have rd: "\<forall>d \<in> set (ahci_drives ds). readable d" using assms(2) by simp
  obtain w4 where w4: "init_each init_ext2_ahci (ahci_drives ds) w3 = Some w4"
    "mounted a (zip ide_device_names (ata_drives ds) @ zip device_names (ahci_drives ds)) w4"
    using init_each_mounts [OF w3(2) sb rd le ix dj] w3(5) unfolding init_ext2_ahci_def dev_names.simps by (metis drop_0)
  have "find_sysdisk now ds w = Some w4" using w1(1) v0 w3(1) w4(1) by (simp add: find_ext2_fs_def)
  then show ?thesis using w4(2) by (auto simp: mounted_def)
qed

section \<open>Examples\<close>

definition blank_drive :: disk where
  "blank_drive = (\<lambda>_. replicate 512 0)"

text \<open>A drive with a partition at sector 0 and a file system of one group, whose root inode is a directory.\<close>

definition demo_drive :: disk where
  "demo_drive = blank_drive
     (0 := (replicate 512 0)[450 := 0x83, 510 := 0x55, 511 := 0xAA],
      2 := (replicate 512 0)[4 := 64, 32 := 64, 40 := 16, 56 := 0x53, 57 := 0xEF, 88 := 128],
      4 := (replicate 512 0)[8 := 5],
      10 := (replicate 512 0)[129 := 0x40])"

definition empty_world :: "u32 list \<Rightarrow> world" where
  "empty_world as = \<lparr>w_vfs = \<lparr>vfs_tree = tree_new (\<lambda>_. None), currentDir = string_new, currUid = 0, currGid = 0,
      device_name_index = 0, ide_device_name_index = 0\<rparr>,
     w_inodes = (\<lambda>_. None), w_fs = (\<lambda>_. open_fs blank_drive 0), w_curr_fs = 0, w_addrs = as\<rparr>"

lemma blank_read: "disk_read l n blank_drive = replicate (n * 512) 0"
  by (induction n arbitrary: l) (simp_all add: blank_drive_def replicate_add)

lemma blank_drive_facts: "\<not> has_magic blank_drive" "readable blank_drive" "\<not> has_fs blank_drive" "\<not> is_system blank_drive"
proof -
  have "get16 56 (replicate 1024 0) = 0" by (simp add: get16_def)
  then show m: "\<not> has_magic blank_drive"
    by (simp add: has_magic_def opened_def open_fs_def blank_read sb_ext2_magic_def EXT2_MAGIC_def)
  then show "readable blank_drive" "\<not> has_fs blank_drive" "\<not> is_system blank_drive"
    by (simp_all add: readable_def has_fs_def is_system_def)
qed

lemma demo_boot_record: "boot_record demo_drive = (replicate 512 0)[450 := 0x83, 510 := 0x55, 511 := 0xAA]"
  by (simp add: boot_record_def demo_drive_def get_bytes_def sizeof_mbr_t_def)

lemma demo_opened: "opened demo_drive = open_fs demo_drive 0"
proof -
  have "[0..<4] = [0, 1, 2, 3]" by (simp add: upt_rec)
  then show ?thesis
    by (simp add: opened_def find_partition_lba_def demo_boot_record part_type_def part_lba_start_def get32_def)
qed

definition demo_opened_fs :: ext2_fs_t where
  "demo_opened_fs = (open_fs demo_drive 0)\<lparr>block_size := 1024, blocks_per_group := 64, inodes_per_group := 16, total_groups := 1,
     blk_grp_desc_blocks := 1, blk_grp_descs := (replicate 512 0)[8 := 5] @ replicate 512 0\<rparr>"

lemma demo_sb: "sb (open_fs demo_drive 0)
    = (replicate 512 0)[4 := 64, 32 := 64, 40 := 16, 56 := 0x53, 57 := 0xEF, 88 := 128] @ replicate 512 0"
  by (simp add: open_fs_def numeral_2_eq_2) (simp add: demo_drive_def blank_drive_def)

lemma demo_sb_fields:
  "sb_blk_size (sb (open_fs demo_drive 0)) = 0" "sb_blkgroup_blk_num (sb (open_fs demo_drive 0)) = 64"
  "sb_blkgroup_inode_num (sb (open_fs demo_drive 0)) = 16" "sb_blks_num (sb (open_fs demo_drive 0)) = 64"
  "sb_inode_size (sb (open_fs demo_drive 0)) = 128" "sb_ext2_magic (sb (open_fs demo_drive 0)) = 0xEF53"
  by (simp_all add: demo_sb sb_blk_size_def sb_blkgroup_blk_num_def sb_blkgroup_inode_num_def sb_blks_num_def sb_inode_size_def
      sb_ext2_magic_def get32_def get16_def nth_append)

lemma demo_fill: "fill_fs (open_fs demo_drive 0) = Some demo_opened_fs"
proof -
  have "disk_read 4 2 demo_drive = (replicate 512 0)[8 := 5] @ replicate 512 0"
    by (simp add: numeral_2_eq_2) (simp add: demo_drive_def blank_drive_def)
  then show ?thesis
    by (simp add: fill_fs_def demo_sb_fields Let_def demo_opened_fs_def sizeof_blkgrp_descriptor_t_def)
       (simp add: read_block_def block_lba_def lba_blocks_def open_fs_def)
qed

lemma demo_root_inode: "load_inode demo_opened_fs EXT2_ROOT_INO = Some ((replicate 128 0)[1 := 0x40])"
proof -
  have "bg_inode_table demo_opened_fs 0 = 5" by (simp add: bg_inode_table_def demo_opened_fs_def get32_def nth_append)
  moreover have "sb demo_opened_fs = sb (open_fs demo_drive 0)" "block_size demo_opened_fs = 1024" by (simp_all add: demo_opened_fs_def)
  moreover have "disk_read 10 2 demo_drive = (replicate 512 0)[129 := 0x40] @ replicate 512 0"
    by (simp add: numeral_2_eq_2) (simp add: demo_drive_def blank_drive_def)
  moreover have "get_bytes 128 128 ((replicate 512 0)[129 := 0x40] @ replicate 512 (0 :: u8)) = (replicate 128 0)[1 := 0x40]"
    by (rule nth_equalityI) (auto simp: get_bytes_def nth_append nth_list_update)
  ultimately show ?thesis
    by (simp add: load_inode_def demo_sb_fields EXT2_ROOT_INO_def read_block_def block_lba_def lba_blocks_def sizeof_inode_t_def)
       (simp add: demo_opened_fs_def open_fs_def sizeof_inode_t_def)
qed

lemma demo_drive_facts: "readable demo_drive" "has_fs demo_drive" "is_system demo_drive" "fs_of demo_drive = demo_opened_fs"
proof -
  have r: "root_of demo_drive = Some (demo_opened_fs, (replicate 128 0)[1 := 0x40])"
    by (simp add: root_of_def demo_opened demo_fill demo_root_inode)
  have m: "has_magic demo_drive" by (simp add: has_magic_def demo_opened demo_sb_fields EXT2_MAGIC_def)
  have d: "INODE_IS_DIR ((replicate 128 0)[1 := 0x40])"
    by (simp add: INODE_IS_DIR_def type_and_perm_def get16_def EXT2_S_IFMT_def EXT2_S_IFDIR_def)
  have b: "has_mbr demo_drive" by (simp add: has_mbr_def demo_boot_record mbr_signature_def get16_def)
  show "readable demo_drive" "has_fs demo_drive" "is_system demo_drive" "fs_of demo_drive = demo_opened_fs"
    using r m d b by (simp_all add: readable_def has_fs_def is_system_def fs_of_def)
qed

theorem system_disk_is_first_witness:
  "\<exists>w1 p. p \<noteq> 0 \<and> w_fs w1 p = demo_opened_fs
    \<and> find_sysdisk (\<lambda>_. 7) \<lparr>ata_drives = [blank_drive, demo_drive], ahci_drives = [blank_drive]\<rparr> (empty_world [1, 2, 3, 4, 5, 6, 7, 8, 9, 10])
      = init_sysdisk (\<lambda>_. 7) \<lparr>ata_drives = [blank_drive, demo_drive], ahci_drives = [blank_drive]\<rparr> DEV_ATA 1 p w1"
  using system_disk_is_first [of "\<lparr>ata_drives = [blank_drive, demo_drive], ahci_drives = [blank_drive]\<rparr>"
      "empty_world [1, 2, 3, 4, 5, 6, 7, 8, 9, 10]" "\<lambda>_. 7"]
  by (auto simp: demo_drive_facts blank_drive_facts boot_drive_def candidates_def empty_world_def)

lemma mounted_drive_is_found_witness:
  "\<exists>(nd :: vfsNode) w'. mount_next DEV_AHCI 0 0 ((empty_world [0x200])\<lparr>w_vfs := (w_vfs (empty_world []))\<lparr>vfs_tree := demo_vfs\<rparr>\<rparr>) = Some w'
    \<and> chars (vn_name nd) = ''sda'' \<and> get_node (vfs_tree (w_vfs w')) (vn_path nd) = Some 0x200"
proof -
  let ?w = "(empty_world [0x200])\<lparr>w_vfs := (w_vfs (empty_world []))\<lparr>vfs_tree := demo_vfs\<rparr>\<rparr>"
  have n: "next_device_name DEV_AHCI (w_vfs ?w) = Some (string_of_cstr ''sda'', (w_vfs ?w)\<lparr>device_name_index := 1\<rparr>)"
    by (simp add: next_device_name_def device_names_def empty_world_def)
  have ok: "vfs_ok (vfs_tree (w_vfs ?w)) (T 0x100 demo_root [])" using demo_vfs_ok by simp
  have mp: "mount_point (T 0x100 demo_root []) = ([], T 0x100 demo_root [])" by (simp add: mount_point_def)
  have d: "vn_is_dir demo_root" "length (chars (vn_path demo_root)) + 4 < 2 ^ 32"
    by (simp_all add: demo_root_def string_of_cstr_def chars_def)
  have a: "w_addrs ?w = [0x200]" "t_heap (vfs_tree (w_vfs ?w)) 0x200 = None" by (simp_all add: empty_world_def demo_vfs_def)
  have nm: "''sda'' \<in> set (ide_device_names @ device_names)" by (simp add: device_names_def)
  show ?thesis
    using mounted_drive_is_found [OF ok mp d(1) n nm _ a(1) _ a(2) d(2), of 0 0] by auto
qed

theorem mobile_mode_mounts_all_witness:
  "\<exists>w' r u1 u2. find_sysdisk (\<lambda>_. 7) \<lparr>ata_drives = [blank_drive], ahci_drives = [blank_drive]\<rparr>
      (empty_world (map of_nat [1..<18])) = Some w'
    \<and> vfs_ok (vfs_tree (w_vfs w')) (T r bare_root [u1, u2]) \<and> name_of u1 = ''hda'' \<and> name_of u2 = ''sda''"
proof -
  let ?ds = "\<lparr>ata_drives = [blank_drive], ahci_drives = [blank_drive]\<rparr>" and ?w = "empty_world (map of_nat [1..<18])"
  have as: "w_addrs ?w = map of_nat [1..<18]" by (simp add: empty_world_def)
  have "distinct (w_addrs ?w)" "0 \<notin> set (w_addrs ?w)" "length (w_addrs ?w) = 17" unfolding as by (simp_all add: upt_rec)
  moreover have "boot_drive ?ds = None" by (simp add: boot_drive_def candidates_def blank_drive_facts)
  ultimately obtain w' r ts where "find_sysdisk (\<lambda>_. 7) ?ds ?w = Some w'" "vfs_ok (vfs_tree (w_vfs w')) (T r bare_root ts)"
    "list_all2 (stands_for w') ts (zip ide_device_names [blank_drive] @ zip device_names [blank_drive])"
    using mobile_mode_mounts_all [of ?ds ?w "\<lambda>_. 7"] by (auto simp: blank_drive_facts empty_world_def)
  then show ?thesis
    by (auto simp: ide_device_names_def device_names_def list_all2_Cons2 stands_for_def)
qed

end
