(* ===== verification/DataList.thy ===== *)
theory DataList
  imports Prelude "HOL-Library.Monad_Syntax"
begin

text \<open>
  \<open>src/kernel/include/lib/data/list.hpp\<close>: the template \<open>data::list\<close>, an array that doubles.  Its slots
  are the elements they hold, or raw memory (\<open>None\<close>): what the heap gives and what a destructor
  leaves.  Every operation takes what it needs to know of the element type and of the heap: the size of
  an element, whether assigning to raw memory is allowed (it is for types without a destructor of
  their own), and which sizes \<open>kmalloc\<close> can give.  \<open>None\<close> as a result is an access outside the array or
  to raw memory.
\<close>

lemma unat_minus_one_less: "unat (a :: u32) < unat i \<Longrightarrow> unat (i - 1 :: u32) < unat i"
  by (cases "i = 0") (simp_all add: unat_minus_one unat_gt_0)

section \<open>The array and its operations\<close>

record 'a dlist =
  arr :: "'a option list option"
  len :: u32
  capacity :: u32

record elem_type =
  elem_size :: u32
  trivial :: bool

definition list_new :: "'a dlist" where
  "list_new = \<lparr>arr = None, len = 0, capacity = 0\<rparr>"

definition get_slot :: "'a dlist \<Rightarrow> u32 \<Rightarrow> 'a option" where
  "get_slot l i = (case arr l of None \<Rightarrow> None | Some a \<Rightarrow> if unat i < length a then a ! unat i else None)"

definition set_slot :: "u32 \<Rightarrow> 'a \<Rightarrow> 'a dlist \<Rightarrow> 'a dlist option" where
  "set_slot i v l = (case arr l of None \<Rightarrow> None
     | Some a \<Rightarrow> if unat i < length a then Some (l\<lparr>arr := Some (a[unat i := Some v])\<rparr>) else None)"

text \<open>The slots that fit into the bytes asked for, the product of 32 bits.\<close>

definition slots :: "elem_type \<Rightarrow> u32 \<Rightarrow> nat" where
  "slots t n = unat (elem_size t * n) div unat (elem_size t)"

text \<open>\<open>list(const T*, uint32_t)\<close> copies bytes, whatever the type; the array may be null.\<close>

definition list_from :: "elem_type \<Rightarrow> (u32 \<Rightarrow> bool) \<Rightarrow> 'a list \<Rightarrow> u32 \<Rightarrow> 'a dlist option" where
  "list_from t heap src n =
     (if length src < unat n \<or> \<not> heap (elem_size t * n) \<or> slots t n < unat n then None
      else Some \<lparr>arr = Some (map Some (take (unat n) src) @ replicate (slots t n - unat n) None), len = n, capacity = n\<rparr>)"

text \<open>The move constructor and the move assignment: the new list and what is left of the old one.\<close>

definition list_move :: "'a dlist \<Rightarrow> 'a dlist \<times> 'a dlist" where
  "list_move other = (other, list_new)"

definition l_clear :: "'a dlist \<Rightarrow> 'a dlist option" where
  "l_clear l =
     (case arr l of None \<Rightarrow> Some list_new
      | Some a \<Rightarrow> if unat (len l) \<le> length a \<and> None \<notin> set (take (unat (len l)) a) then Some list_new else None)"

definition list_assign :: "'a dlist \<Rightarrow> 'a dlist \<Rightarrow> ('a dlist \<times> 'a dlist) option" where
  "list_assign l other = map_option (\<lambda>_. list_move other) (l_clear l)"

definition count :: "'a dlist \<Rightarrow> u32" where "count l = len l"
definition l_empty :: "'a dlist \<Rightarrow> bool" where "l_empty l \<longleftrightarrow> len l = 0"

definition l_back :: "'a dlist \<Rightarrow> 'a option" where "l_back l = get_slot l (len l - 1)"
definition l_front :: "'a dlist \<Rightarrow> 'a option" where "l_front l = get_slot l 0"

definition l_at :: "u32 \<Rightarrow> 'a dlist \<Rightarrow> 'a option" where
  "l_at i l = (if len l \<le> i then l_back l else get_slot l i)"

text \<open>
  \<open>resize\<close> keeps the list when the heap has no room.  The elements are copied and destroyed one after
  another.
\<close>

definition l_resize :: "elem_type \<Rightarrow> (u32 \<Rightarrow> bool) \<Rightarrow> u32 \<Rightarrow> 'a dlist \<Rightarrow> 'a dlist option" where
  "l_resize t heap new_cap l =
     (let n = (if new_cap < len l then len l else new_cap)
      in if \<not> heap (elem_size t * n) then Some l
         else case arr l of
           None \<Rightarrow> if len l = 0 then Some (l\<lparr>arr := Some (replicate (slots t n) None), capacity := n\<rparr>) else None
         | Some a \<Rightarrow>
             if length a < unat (len l) \<or> slots t n < unat (len l) \<or> None \<in> set (take (unat (len l)) a) then None
             else Some (l\<lparr>arr := Some (take (unat (len l)) a @ replicate (slots t n - unat (len l)) None), capacity := n\<rparr>))"

definition l_grow :: "elem_type \<Rightarrow> (u32 \<Rightarrow> bool) \<Rightarrow> 'a dlist \<Rightarrow> 'a dlist option" where
  "l_grow t heap l =
     (if capacity l \<le> len l then l_resize t heap (if capacity l = 0 then 2 else capacity l * 2) l else Some l)"

definition push_back :: "elem_type \<Rightarrow> (u32 \<Rightarrow> bool) \<Rightarrow> 'a \<Rightarrow> 'a dlist \<Rightarrow> 'a dlist option" where
  "push_back t heap v l =
     do { l1 \<leftarrow> l_grow t heap l; l2 \<leftarrow> set_slot (len l1) v l1; Some (l2\<lparr>len := len l2 + 1\<rparr>) }"

definition l_add :: "elem_type \<Rightarrow> (u32 \<Rightarrow> bool) \<Rightarrow> 'a \<Rightarrow> 'a dlist \<Rightarrow> 'a dlist option" where
  "l_add = push_back"

fun l_of :: "elem_type \<Rightarrow> (u32 \<Rightarrow> bool) \<Rightarrow> 'a list \<Rightarrow> 'a dlist \<Rightarrow> 'a dlist option" where
  "l_of t heap [] l = Some l"
| "l_of t heap (v # vs) l = (case l_add t heap v l of None \<Rightarrow> None | Some l1 \<Rightarrow> l_of t heap vs l1)"

definition pop_back :: "'a dlist \<Rightarrow> 'a dlist" where
  "pop_back l = (if 0 < len l then l\<lparr>len := len l - 1\<rparr> else l)"

text \<open>An assignment to a slot, which is an element already unless the type is trivial.\<close>

definition assign_slot :: "elem_type \<Rightarrow> u32 \<Rightarrow> 'a \<Rightarrow> 'a dlist \<Rightarrow> 'a dlist option" where
  "assign_slot t i v l = (if \<not> trivial t \<and> get_slot l i = None then None else set_slot i v l)"

definition move_slot :: "elem_type \<Rightarrow> u32 \<Rightarrow> u32 \<Rightarrow> 'a dlist \<Rightarrow> 'a dlist option" where
  "move_slot t dst src l = do { v \<leftarrow> get_slot l src; assign_slot t dst v l }"

function shift_right :: "elem_type \<Rightarrow> u32 \<Rightarrow> u32 \<Rightarrow> 'a dlist \<Rightarrow> 'a dlist option" where
  "shift_right t index i l =
     (if index < i then (case move_slot t i (i - 1) l of None \<Rightarrow> None | Some l1 \<Rightarrow> shift_right t index (i - 1) l1)
      else Some l)"
  by pat_completeness auto
termination
  by (relation "measure (\<lambda>(t, index, i, l). unat i)") (auto simp: word_less_nat_alt unat_minus_one_less)

declare shift_right.simps [simp del]

definition l_insert :: "elem_type \<Rightarrow> (u32 \<Rightarrow> bool) \<Rightarrow> u32 \<Rightarrow> 'a \<Rightarrow> 'a dlist \<Rightarrow> 'a dlist option" where
  "l_insert t heap index v l =
     (let index = (if len l < index then len l else index)
      in do {
        l1 \<leftarrow> l_grow t heap l;
        l2 \<leftarrow> shift_right t index (len l1) l1;
        l3 \<leftarrow> assign_slot t index v l2;
        Some (l3\<lparr>len := len l3 + 1\<rparr>) })"

text \<open>The bound of the loop, \<open>length - 1\<close>, is an argument.\<close>

function shift_left :: "elem_type \<Rightarrow> u32 \<Rightarrow> u32 \<Rightarrow> 'a dlist \<Rightarrow> 'a dlist option" where
  "shift_left t n i l =
     (if i < n then (case move_slot t i (i + 1) l of None \<Rightarrow> None | Some l1 \<Rightarrow> shift_left t n (i + 1) l1)
      else Some l)"
  by pat_completeness auto
termination
proof (relation "measure (\<lambda>(t, n, i, l). unat n - unat i)")
  fix t :: elem_type and n i :: u32 and l l1 :: "'a dlist"
  assume "i < n"
  then have "unat i < unat n" "unat i + 1 < 2 ^ 32"
    using unat_less_lit [of n] by (simp_all add: word_less_nat_alt)
  then show "((t, n, i + 1, l1), (t, n, i, l)) \<in> measure (\<lambda>(t, n, i, l). unat n - unat i)"
    by (simp add: unat_add_no_wrap)
qed simp

declare shift_left.simps [simp del]

definition l_erase :: "elem_type \<Rightarrow> u32 \<Rightarrow> 'a dlist \<Rightarrow> 'a dlist option" where
  "l_erase t index l =
     (if len l \<le> index then Some l
      else map_option (\<lambda>l1. l1\<lparr>len := len l1 - 1\<rparr>) (shift_left t (len l - 1) index l))"

definition l_includes :: "('a \<Rightarrow> 'a \<Rightarrow> bool) \<Rightarrow> 'a \<Rightarrow> 'a dlist \<Rightarrow> bool option" where
  "l_includes eq v l =
     (case arr l of None \<Rightarrow> if len l = 0 then Some False else None
      | Some a \<Rightarrow>
          if length a < unat (len l) \<or> None \<in> set (take (unat (len l)) a) then None
          else Some (list_ex (\<lambda>x. case x of None \<Rightarrow> False | Some y \<Rightarrow> eq y v) (take (unat (len l)) a)))"


section \<open>The list an array stands for\<close>

definition holds :: "'a dlist \<Rightarrow> 'a list \<Rightarrow> bool" where
  "holds l xs \<longleftrightarrow> unat (len l) = length xs \<and>
     (case arr l of None \<Rightarrow> xs = [] \<and> capacity l = 0
      | Some a \<Rightarrow> length a = unat (capacity l) \<and> take (length xs) a = map Some xs)"

lemma holds_new [simp]: "holds list_new []"
  by (simp add: holds_def list_new_def)

lemma holds_slots:
  assumes "holds l xs"
  shows "length xs \<le> unat (capacity l)" and "i < length xs \<Longrightarrow> get_slot l (of_nat i) = Some (xs ! i)"
proof -
  show le: "length xs \<le> unat (capacity l)"
    using assms by (auto simp: holds_def dest: arg_cong [of _ _ length] split: option.splits)
  assume i: "i < length xs"
  then obtain a where a: "arr l = Some a" "length a = unat (capacity l)" "take (length xs) a = map Some xs"
    using assms by (auto simp: holds_def split: option.splits)
  have "length xs < 2 ^ 32" using assms unat_less_lit [of "len l"] by (simp add: holds_def)
  then have u: "unat (of_nat i :: u32) = i" using i by (simp add: unat_of_nat)
  have "a ! i = map Some xs ! i" using a(3) i by (metis nth_take)
  then show "get_slot l (of_nat i) = Some (xs ! i)" using a le i by (simp add: get_slot_def u)
qed

text \<open>
  The sizes for which the heap has room when a list of \<open>n\<close> elements grows: the bytes of twice the
  elements, which the 32 bits of the product must hold.
\<close>

definition room :: "elem_type \<Rightarrow> (u32 \<Rightarrow> bool) \<Rightarrow> nat \<Rightarrow> bool" where
  "room t heap n \<longleftrightarrow> elem_size t \<noteq> 0 \<and> unat (elem_size t) * (2 * n) < 2 ^ 32
     \<and> (\<forall>k. k \<le> 2 * n \<longrightarrow> heap (elem_size t * of_nat k))"

lemma room_mono: "room t heap n \<Longrightarrow> m \<le> n \<Longrightarrow> room t heap m"
  by (auto simp: room_def intro: le_less_trans [OF mult_le_mono1])

lemma slots_exact:
  assumes "room t heap n" and "k \<le> 2 * n"
  shows "slots t (of_nat k) = k" and "unat (of_nat k :: u32) = k"
proof -
  have nz: "0 < unat (elem_size t)" using assms(1) by (simp add: room_def unat_gt_0)
  have "unat (elem_size t) * k \<le> unat (elem_size t) * (2 * n)" using assms(2) by (rule mult_le_mono2)
  also have "\<dots> < 2 ^ 32" using assms(1) unfolding room_def by blast
  finally have lt: "unat (elem_size t) * k < 2 ^ 32" .
  have "k \<le> unat (elem_size t) * k" using nz by simp
  with lt have "k < 2 ^ 32" by linarith
  then show u: "unat (of_nat k :: u32) = k" by (simp add: unat_of_nat)
  show "slots t (of_nat k) = k"
    using lt nz u by (simp add: slots_def unat_mult_no_wrap)
qed

lemma grow_holds:
  assumes "holds l xs" and "room t heap (Suc (length xs))"
  shows "\<exists>l'. l_grow t heap l = Some l' \<and> holds l' xs \<and> length xs < unat (capacity l') \<and> arr l' \<noteq> None \<and> len l' = len l"
proof (cases "capacity l \<le> len l")
  case False
  then show ?thesis
    using assms(1) by (auto simp: l_grow_def holds_def word_le_nat_alt split: option.splits)
next
  case True
  let ?k = "if length xs = 0 then 2 else 2 * length xs"
  have ul: "unat (len l) = length xs" using assms(1) by (simp add: holds_def)
  have uc: "unat (capacity l) = length xs"
    using holds_slots(1) [OF assms(1)] True ul by (simp add: word_le_nat_alt)
  have k: "?k \<le> 2 * Suc (length xs)" by simp
  note s = slots_exact [OF assms(2) k]
  have cap: "capacity l = of_nat (length xs)" "len l = of_nat (length xs)" using uc ul by (metis of_nat_unat ucast_id)+
  have z: "capacity l = 0 \<longleftrightarrow> length xs = 0" using uc by (simp add: unat_eq_0 [symmetric])
  have n: "(if capacity l = 0 then 2 else capacity l * 2) = (of_nat ?k :: u32)"
    using z by (simp add: cap(1) mult.commute)
  have le: "\<not> (of_nat ?k :: u32) < len l" using s(2) ul by (simp add: word_less_nat_alt)
  have h: "heap (elem_size t * of_nat ?k)" using assms(2) k unfolding room_def by blast
  have tk: "take (length xs) a = map Some xs \<and> length a = length xs" if "arr l = Some a" for a
    using assms(1) that uc by (simp add: holds_def)
  have e: "xs = []" if "arr l = None" using assms(1) that by (simp add: holds_def)
  define l' where "l' = l\<lparr>arr := Some (map Some xs @ replicate (?k - length xs) None), capacity := of_nat ?k\<rparr>"
  have "l_resize t heap (of_nat ?k) l = Some l'"
  proof (cases "arr l")
    case None
    then show ?thesis
      using e [OF None] le h s ul by (simp add: l_resize_def l'_def Let_def unat_eq_0)
  next
    case (Some a)
    then show ?thesis
      using tk [OF Some] le h s ul by (auto simp: l_resize_def l'_def Let_def)
  qed
  moreover have "holds l' xs \<and> length xs < unat (capacity l') \<and> arr l' \<noteq> None \<and> len l' = len l"
    using ul s(2) by (simp add: l'_def holds_def split: if_splits)
  ultimately show ?thesis unfolding l_grow_def n using True by auto
qed


lemma holds_set:
  assumes "holds l xs" and "length xs < unat (capacity l)" and "arr l \<noteq> None"
  shows "\<exists>l'. set_slot (len l) v l = Some l' \<and> len l' = len l \<and> holds (l'\<lparr>len := len l' + 1\<rparr>) (xs @ [v])"
proof -
  obtain a where a: "arr l = Some a" "length a = unat (capacity l)" "take (length xs) a = map Some xs" "unat (len l) = length xs"
    using assms(1,3) by (auto simp: holds_def)
  have "unat (len l + 1) = Suc (length xs)"
    using a(4) assms(2) unat_less_lit [of "capacity l"] by (subst unat_add_no_wrap) simp_all
  moreover have "take (Suc (length xs)) (a[length xs := Some v]) = map Some (xs @ [v])"
    using a(2,3) assms(2) by (simp add: take_Suc_conv_app_nth)
  ultimately show ?thesis using a assms(2) by (simp add: set_slot_def holds_def)
qed

lemma push_back_holds:
  assumes "holds l xs" and "room t heap (Suc (length xs))"
  shows "\<exists>l'. push_back t heap v l = Some l' \<and> holds l' (xs @ [v])"
proof -
  obtain l1 where l1: "l_grow t heap l = Some l1" "holds l1 xs" "length xs < unat (capacity l1)" "arr l1 \<noteq> None"
    using grow_holds [OF assms] by blast
  then show ?thesis using holds_set [OF l1(2-4), of v] by (auto simp: push_back_def)
qed

text \<open>What the two shifting loops leave.\<close>

lemma move_slot_works:
  assumes "arr l = Some a" and "unat src < length a" and "unat dst < length a" and "a ! unat src = Some v"
    and "trivial t \<or> a ! unat dst \<noteq> None"
  shows "move_slot t dst src l = Some (l\<lparr>arr := Some (a[unat dst := Some v])\<rparr>)"
  using assms by (auto simp: move_slot_def assign_slot_def get_slot_def set_slot_def)

lemma shift_right_works:
  assumes "arr l = Some a" and "unat i < length a" and "\<forall>j < unat i. a ! j \<noteq> None" and "trivial t"
  shows "\<exists>a'. shift_right t idx i l = Some (l\<lparr>arr := Some a'\<rparr>) \<and> length a' = length a
    \<and> (\<forall>j. a' ! j = (if unat idx < j \<and> j \<le> unat i then a ! (j - 1) else a ! j))"
  using assms
proof (induction "unat i" arbitrary: i l a)
  case 0
  then show ?case by (subst shift_right.simps) (simp add: word_less_nat_alt, cases l, auto)
next
  case (Suc n)
  show ?case
  proof (cases "idx < i")
    case False
    then show ?thesis using Suc.prems by (subst shift_right.simps) (cases l, auto simp: word_less_nat_alt)
  next
    case True
    have u: "unat (i - 1) = n" using Suc.hyps(2) by (simp add: unat_minus_one unat_gt_0 [symmetric])
    obtain v where v: "a ! n = Some v" using Suc.prems(3) Suc.hyps(2) by force
    let ?b = "a[Suc n := Some v]"
    have m: "move_slot t i (i - 1) l = Some (l\<lparr>arr := Some ?b\<rparr>)"
      using move_slot_works [of l a "i - 1" i v t] Suc.prems Suc.hyps(2) u v by simp
    have "\<forall>j < unat (i - 1). ?b ! j \<noteq> None" using Suc.prems(3) Suc.hyps(2) u by simp
    then obtain a' where a': "shift_right t idx (i - 1) (l\<lparr>arr := Some ?b\<rparr>) = Some (l\<lparr>arr := Some a'\<rparr>)" "length a' = length a"
        "\<forall>j. a' ! j = (if unat idx < j \<and> j \<le> n then ?b ! (j - 1) else ?b ! j)"
      using Suc.hyps(1) [of "i - 1" "l\<lparr>arr := Some ?b\<rparr>" ?b] u Suc.prems(2,4) Suc.hyps(2) by auto
    have "unat idx < Suc n" using True Suc.hyps(2) by (simp add: word_less_nat_alt)
    moreover have "a' ! j = (if unat idx < j \<and> j \<le> unat i then a ! (j - 1) else a ! j)" for j
      using a'(3) v Suc.prems(2) \<open>unat idx < Suc n\<close> unfolding Suc.hyps(2) [symmetric]
      by (cases "j = Suc n") (auto simp: nth_list_update)
    ultimately show ?thesis using a'(1,2) m True by (subst shift_right.simps) auto
  qed
qed

lemma shift_left_works:
  assumes "arr l = Some a" and "unat n < length a" and "\<forall>j \<le> unat n. a ! j \<noteq> None"
  shows "\<exists>a'. shift_left t n i l = Some (l\<lparr>arr := Some a'\<rparr>) \<and> length a' = length a
    \<and> (\<forall>j. a' ! j = (if unat i \<le> j \<and> j < unat n then a ! (j + 1) else a ! j))"
  using assms
proof (induction "unat n - unat i" arbitrary: i l a)
  case 0
  then show ?case by (subst shift_left.simps) (cases l, auto simp: word_less_nat_alt)
next
  case (Suc m)
  have lt: "unat i < unat n" using Suc.hyps(2) by simp
  have u: "unat (i + 1) = Suc (unat i)"
    using lt unat_less_lit [of n] by (subst unat_add_no_wrap) simp_all
  have m2: "m = unat n - unat (i + 1)" using Suc.hyps(2) u by simp
  obtain v where v: "a ! Suc (unat i) = Some v" using Suc.prems(3) lt Suc_leI by blast
  let ?b = "a[unat i := Some v]"
  have m: "move_slot t i (i + 1) l = Some (l\<lparr>arr := Some ?b\<rparr>)"
    using move_slot_works [of l a "i + 1" i v t] Suc.prems lt u v by simp
  have "?b ! j \<noteq> None" if "j \<le> unat n" for j
    using Suc.prems(3) that by (cases "j = unat i") (use lt Suc.prems(2) in auto)
  then obtain a' where a': "shift_left t n (i + 1) (l\<lparr>arr := Some ?b\<rparr>) = Some (l\<lparr>arr := Some a'\<rparr>)" "length a' = length a"
      "\<forall>j. a' ! j = (if Suc (unat i) \<le> j \<and> j < unat n then ?b ! (j + 1) else ?b ! j)"
      using Suc.hyps(1) [OF m2, of "l\<lparr>arr := Some ?b\<rparr>" ?b] u Suc.prems(2) by auto
  have "a' ! j = (if unat i \<le> j \<and> j < unat n then a ! (j + 1) else a ! j)" for j
    using a'(3) v lt Suc.prems(2) by (auto simp: nth_list_update not_le less_Suc_eq_le)
  then show ?case using a'(1,2) m lt by (subst shift_left.simps) (auto simp: word_less_nat_alt)
qed


lemma unat_pred: "0 < unat w \<Longrightarrow> unat (w - 1 :: u32) = unat w - 1"
  by (simp add: unat_minus_one unat_gt_0)

lemma holds_array:
  assumes "holds l xs" and "xs \<noteq> []"
  obtains a where "arr l = Some a" "length a = unat (capacity l)" "take (length xs) a = map Some xs"
  using assms by (auto simp: holds_def split: option.splits)

lemma nth_of_take: "take (length xs) a = map Some xs \<Longrightarrow> j < length xs \<Longrightarrow> a ! j = Some (xs ! j)"
  by (metis nth_map nth_take)

lemma insert_holds:
  assumes "holds l xs" and "room t heap (Suc (length xs))" and "trivial t"
  shows "\<exists>l'. l_insert t heap i v l = Some l' \<and> holds l' (take (unat i) xs @ v # drop (unat i) xs)"
proof -
  obtain l1 where l1: "l_grow t heap l = Some l1" "holds l1 xs" "length xs < unat (capacity l1)" "arr l1 \<noteq> None" "len l1 = len l"
    using grow_holds [OF assms(1,2)] by blast
  obtain a where a: "arr l1 = Some a" "length a = unat (capacity l1)" "take (length xs) a = map Some xs"
    and ul: "unat (len l1) = length xs" "unat (len l) = length xs"
    using l1 by (auto simp: holds_def)
  define k where "k = (if len l < i then len l else i)"
  have uk: "unat k = min (unat i) (length xs)" using ul(2) by (auto simp: k_def word_less_nat_alt)
  obtain a' where a': "shift_right t k (len l1) l1 = Some (l1\<lparr>arr := Some a'\<rparr>)" "length a' = length a"
      "\<forall>j. a' ! j = (if unat k < j \<and> j \<le> length xs then a ! (j - 1) else a ! j)"
    using shift_right_works [of l1 a "len l1" t k] a l1(3) ul(1) nth_of_take [OF a(3)] assms(3) by auto
  let ?l = "l1\<lparr>arr := Some (a'[unat k := Some v]), len := len l1 + 1\<rparr>"
  have kl: "unat k < length a'" using uk a'(2) a(2) l1(3) by simp
  have "l_insert t heap i v l = Some ?l"
    using l1(1) a' kl assms(3) by (simp add: l_insert_def Let_def k_def [symmetric] assign_slot_def set_slot_def)
  moreover have "holds ?l (take (unat i) xs @ v # drop (unat i) xs)"
  proof -
    have "unat (len l1 + 1) = Suc (length xs)"
      using ul(1) l1(3) unat_less_lit [of "capacity l1"] by (subst unat_add_no_wrap) simp_all
    moreover have "take (Suc (length xs)) (a'[unat k := Some v]) = map Some (take (unat i) xs @ v # drop (unat i) xs)"
    proof (rule nth_equalityI)
      fix j assume "j < length (take (Suc (length xs)) (a'[unat k := Some v]))"
      then have j: "j \<le> length xs" by simp
      have "a' ! j = Some (xs ! (j - 1))" if "unat k < j" using a'(3) that j nth_of_take [OF a(3), of "j - 1"] by auto
      moreover have "a' ! j = Some (xs ! j)" if "j < unat k" using a'(3) that nth_of_take [OF a(3), of j] uk by auto
      ultimately show "take (Suc (length xs)) (a'[unat k := Some v]) ! j = map Some (take (unat i) xs @ v # drop (unat i) xs) ! j"
        using j kl uk by (cases j "unat k" rule: linorder_cases) (auto simp: nth_append min_def nth_Cons' split: if_splits)
    qed (use a'(2) a(2) l1(3) in \<open>auto simp: min_def\<close>)
    ultimately show ?thesis using a'(2) a(2) by (simp add: holds_def min_def)
  qed
  ultimately show ?thesis by blast
qed

lemma erase_holds:
  assumes "holds l xs"
  shows "\<exists>l'. l_erase t i l = Some l' \<and> holds l' (take (unat i) xs @ drop (Suc (unat i)) xs)"
proof (cases "unat i < length xs")
  case False
  then show ?thesis using assms by (simp add: l_erase_def word_le_nat_alt) (simp add: holds_def)
next
  case True
  have ul: "unat (len l) = length xs" using assms by (simp add: holds_def)
  then have u1: "unat (len l - 1) = length xs - 1" using True by (subst unat_pred) auto
  obtain a where a: "arr l = Some a" "length a = unat (capacity l)" "take (length xs) a = map Some xs"
    using holds_array [OF assms] True by force
  have la: "length xs \<le> length a" using holds_slots(1) [OF assms] a(2) by simp
  obtain a' where a': "shift_left t (len l - 1) i l = Some (l\<lparr>arr := Some a'\<rparr>)" "length a' = length a"
      "\<forall>j. a' ! j = (if unat i \<le> j \<and> j < length xs - 1 then a ! (j + 1) else a ! j)"
    using shift_left_works [of l a "len l - 1" t i] a u1 True la nth_of_take [OF a(3)] by fastforce
  have "take (length xs - 1) a' = map Some (take (unat i) xs @ drop (Suc (unat i)) xs)"
  proof (rule nth_equalityI)
    fix j assume "j < length (take (length xs - 1) a')"
    then have j: "j < length xs - 1" by simp
    show "take (length xs - 1) a' ! j = map Some (take (unat i) xs @ drop (Suc (unat i)) xs) ! j"
      using a'(3) j True nth_of_take [OF a(3), of j] nth_of_take [OF a(3), of "Suc j"] by (auto simp: nth_append)
  qed (use a'(2) la True in auto)
  then have "holds (l\<lparr>arr := Some a', len := len l - 1\<rparr>) (take (unat i) xs @ drop (Suc (unat i)) xs)"
    using a'(2) a(2) u1 True by (simp add: holds_def min_def)
  then show ?thesis using a'(1) True ul by (simp add: l_erase_def word_le_nat_alt)
qed

lemma pop_back_holds: "holds l xs \<Longrightarrow> holds (pop_back l) (butlast xs)"
proof (cases "xs = []")
  case False
  assume h: "holds l xs"
  then obtain a where a: "arr l = Some a" "length a = unat (capacity l)" "take (length xs) a = map Some xs"
    using holds_array False by blast
  have ul: "unat (len l) = length xs" using h by (simp add: holds_def)
  then have "unat (len l - 1) = length xs - 1" "0 < len l" using False by (simp_all add: unat_minus_one unat_gt_0 [symmetric] word_less_nat_alt)
  moreover have "take (length xs - 1) a = map Some (butlast xs)"
    using arg_cong [OF a(3), of butlast] holds_slots(1) [OF h] a(2) by (simp add: butlast_take map_butlast)
  ultimately show ?thesis using a by (simp add: holds_def pop_back_def)
qed (simp add: holds_def pop_back_def unat_eq_0)

lemma at_holds:
  assumes "holds l xs"
  shows "l_at i l = (if xs = [] then None else Some (if unat i < length xs then xs ! unat i else last xs))"
proof -
  have ul: "unat (len l) = length xs" using assms by (simp add: holds_def)
  note s = holds_slots [OF assms]
  show ?thesis
  proof (cases "xs = []")
    case True
    have "len l - 1 = - 1" using ul True by (simp add: unat_eq_0)
    moreover have "length a < 2 ^ 32" if "arr l = Some a" for a
      using assms that unat_less_lit [of "capacity l"] by (simp add: holds_def)
    moreover have "unat (- 1 :: u32) = 2 ^ 32 - 1" by (simp add: unsigned_minus_1_eq_mask mask_eq_exp_minus_1)
    ultimately show ?thesis
      using True ul by (auto simp: l_at_def l_back_def get_slot_def word_le_nat_alt split: option.split)
  next
    case False
    have "unat (len l - 1) = length xs - 1" using ul False by (simp add: unat_minus_one unat_gt_0 [symmetric])
    then have b: "l_back l = Some (last xs)"
      using s(2) [of "unat (len l - 1)"] False unfolding of_nat_unat ucast_id by (simp add: l_back_def last_conv_nth)
    show ?thesis
      using False b s(2) [of "unat i"] ul by (simp add: l_at_def word_le_nat_alt not_less)
  qed
qed


lemma includes_holds: "holds l xs \<Longrightarrow> l_includes eq v l = Some (\<exists>x \<in> set xs. eq x v)"
proof (cases "xs = []")
  case False
  assume h: "holds l xs"
  then obtain a where a: "arr l = Some a" "length a = unat (capacity l)" "take (length xs) a = map Some xs"
    using holds_array False by blast
  show ?thesis
    using a h holds_slots(1) [OF h] by (auto simp: l_includes_def holds_def list_ex_iff)
qed (auto simp: holds_def l_includes_def unat_eq_0 split: option.splits)

lemma clear_holds: "holds l xs \<Longrightarrow> l_clear l = Some list_new"
  using holds_slots(1) [of l xs] by (auto simp: holds_def l_clear_def split: option.splits)

section \<open>Lists that grow at the end\<close>

text \<open>
  What the clients of the list rely on: it stands for the sequence of what was added, as long as there
  is room.
\<close>

locale growing_list =
  fixes stands_for :: "'s \<Rightarrow> 'a list \<Rightarrow> bool" and add_end :: "'a \<Rightarrow> 's \<Rightarrow> 's option" and room_for :: "nat \<Rightarrow> bool"
  assumes add_end: "stands_for l xs \<Longrightarrow> room_for (Suc (length xs)) \<Longrightarrow> \<exists>l'. add_end v l = Some l' \<and> stands_for l' (xs @ [v])"
    and room_less: "room_for n \<Longrightarrow> m \<le> n \<Longrightarrow> room_for m"
begin

fun add_all :: "'a list \<Rightarrow> 's \<Rightarrow> 's option" where
  "add_all [] l = Some l"
| "add_all (v # vs) l = (case add_end v l of None \<Rightarrow> None | Some l1 \<Rightarrow> add_all vs l1)"

lemma adds:
  assumes "stands_for l xs" and "room_for (length xs + length vs)"
  shows "\<exists>l'. add_all vs l = Some l' \<and> stands_for l' (xs @ vs)"
  using assms
proof (induction vs arbitrary: l xs)
  case (Cons v vs)
  obtain l1 where "add_end v l = Some l1" "stands_for l1 (xs @ [v])"
    using add_end [OF Cons.prems(1)] room_less [OF Cons.prems(2)] by fastforce
  then show ?case using Cons.IH [of l1 "xs @ [v]"] Cons.prems(2) by simp
qed auto

end

interpretation dl: growing_list holds "push_back t heap" "room t heap" for t heap
  by unfold_locales (auto intro: push_back_holds room_mono)

lemma of_is_adds: "l_of t heap vs l = dl.add_all t heap vs l"
  by (induction vs arbitrary: l) (auto simp: l_add_def split: option.split)

text \<open>
  C33: as long as the heap has room for twice the elements and their bytes fit into 32 bits, the growing
  array is a sequence: \<open>of\<close> and \<open>add\<close> append, \<open>insert\<close> puts an element of a trivial type at a place
  (behind the last one when the index is past the end), \<open>erase\<close> takes one out and \<open>pop_back\<close> the last,
  \<open>at\<close> falls back to the last element, and \<open>includes\<close> searches.  Only \<open>at\<close> of an empty list reads outside.
\<close>

theorem list_is_sequence:
  assumes "holds l xs" and "room t heap (Suc (length xs + length vs))"
  shows "(\<exists>l'. l_of t heap vs l = Some l' \<and> holds l' (xs @ vs))
    \<and> (\<exists>l'. l_add t heap v l = Some l' \<and> holds l' (xs @ [v]))
    \<and> (trivial t \<longrightarrow> (\<exists>l'. l_insert t heap i v l = Some l' \<and> holds l' (take (unat i) xs @ v # drop (unat i) xs)))
    \<and> (\<exists>l'. l_erase t i l = Some l' \<and> holds l' (take (unat i) xs @ drop (Suc (unat i)) xs))
    \<and> holds (pop_back l) (butlast xs) \<and> unat (count l) = length xs
    \<and> l_at i l = (if xs = [] then None else Some (if unat i < length xs then xs ! unat i else last xs))
    \<and> l_includes eq v l = Some (\<exists>x \<in> set xs. eq x v) \<and> l_clear l = Some list_new"
proof -
  have r: "room t heap (length xs + length vs)" "room t heap (Suc (length xs))"
    using room_mono [OF assms(2)] by simp_all
  show ?thesis
    using dl.adds [OF assms(1) r(1)] push_back_holds [OF assms(1) r(2)] insert_holds [OF assms(1) r(2)]
      erase_holds [OF assms(1)] pop_back_holds [OF assms(1)] at_holds [OF assms(1)] includes_holds [OF assms(1)]
      clear_holds [OF assms(1)] assms(1)
    by (auto simp: of_is_adds l_add_def count_def holds_def)
qed

theorem list_is_sequence_witness:
  "let t = \<lparr>elem_size = 4, trivial = True\<rparr>
   in \<exists>l. l_of t (\<lambda>_. True) [7, 8, 9 :: nat] list_new = Some l
      \<and> (\<exists>l'. l_insert t (\<lambda>_. True) 1 5 l = Some l' \<and> holds l' [7, 5, 8, 9]) \<and> l_at 1 l = Some 8"
proof -
  let ?t = "\<lparr>elem_size = 4, trivial = True\<rparr>"
  have r: "room ?t (\<lambda>_. True) n" if "n \<le> 4" for n using that by (simp add: room_def)
  have "room ?t (\<lambda>_. True) (Suc (length [] + length [7, 8, 9 :: nat]))" using r by simp
  then obtain l where l: "l_of ?t (\<lambda>_. True) [7, 8, 9 :: nat] list_new = Some l" "holds l [7, 8, 9]"
    using list_is_sequence [OF holds_new, of ?t "\<lambda>_. True" "[7, 8, 9 :: nat]"] unfolding append_Nil by blast
  have r1: "room ?t (\<lambda>_. True) (Suc (length [7, 8, 9 :: nat] + length ([] :: nat list)))" using r by simp
  have "\<exists>l'. l_insert ?t (\<lambda>_. True) 1 5 l = Some l' \<and> holds l' [7, 5, 8, 9]"
    using list_is_sequence [OF l(2) r1, of 5 1] by simp
  moreover have "l_at 1 l = Some 8" using list_is_sequence [OF l(2) r1, of _ 1] by simp
  ultimately show ?thesis using l(1) unfolding Let_def by blast
qed

text \<open>
  Inserting elements of a type with a destructor always assigns to the raw slot behind the last element
  when that slot was never used.
\<close>

lemma insert_of_raw_slot:
  assumes "\<not> trivial t" and "l_grow t heap l = Some l1" and "get_slot l1 (len l1) = None" and "len l1 = len l"
  shows "l_insert t heap i v l = None"
proof -
  define k where "k = (if len l < i then len l else i)"
  have none: "move_slot t (len l) src l1 = None" for src
    using assms by (auto simp: move_slot_def assign_slot_def split: option.split)
  show ?thesis
  proof (cases "k < len l")
    case True
    then have "shift_right t k (len l1) l1 = None" using none assms(4) by (subst shift_right.simps) simp
    then show ?thesis using assms(2) by (simp add: l_insert_def Let_def k_def)
  next
    case False
    then have "k = len l" by (simp add: k_def split: if_splits)
    then show ?thesis
      using assms by (simp add: l_insert_def Let_def k_def [symmetric] assign_slot_def shift_right.simps [of t "len l" "len l"])
  qed
qed

end
