(* ===== verification/Pci.thy ===== *)
theory Pci
  imports DataList
begin

text \<open>
  \<open>src/kernel/drivers/pci.cpp\<close> with \<open>include/drivers/pci.hpp\<close>: the configuration space behind the ports
  0xCF8 and 0xCFC, and the scan for devices.  The hardware is a register for the address, the
  double words of the configuration space by address, and what a write does to one of them.  The
  driver that is started for a SATA controller is an argument.
\<close>

section \<open>Ports\<close>

definition PCI_CONFIG_ADDRESS :: u16 where "PCI_CONFIG_ADDRESS = 0xCF8"
definition PCI_CONFIG_DATA :: u16 where "PCI_CONFIG_DATA = 0xCFC"
definition PCI_NO_DEVICE_VENDOR :: u16 where "PCI_NO_DEVICE_VENDOR = 0xFFFF"
definition PCI_CLASS_MASS_STORAGE :: u8 where "PCI_CLASS_MASS_STORAGE = 1"
definition PCI_STORAGE_SATA :: u8 where "PCI_STORAGE_SATA = 6"

definition PCI_HEADER_0x0_VENDOR_ID :: u8 where "PCI_HEADER_0x0_VENDOR_ID = 0x00"
definition PCI_HEADER_0x0_DEVICE_ID :: u8 where "PCI_HEADER_0x0_DEVICE_ID = 0x02"
definition PCI_HEADER_0x0_PROG_IF :: u8 where "PCI_HEADER_0x0_PROG_IF = 0x09"
definition PCI_HEADER_0x0_SUBCLASS :: u8 where "PCI_HEADER_0x0_SUBCLASS = 0x0A"
definition PCI_HEADER_0x0_CLASS :: u8 where "PCI_HEADER_0x0_CLASS = 0x0B"
definition PCI_HEADER_0x0_HEADER_TYPE :: u8 where "PCI_HEADER_0x0_HEADER_TYPE = 0x0E"
definition PCI_HEADER_0x0_BAR0 :: u8 where "PCI_HEADER_0x0_BAR0 = 0x10"
definition PCI_HEADER_0x0_CAPABILITIES :: u8 where "PCI_HEADER_0x0_CAPABILITIES = 0x34"

record PciDevice =
  pd_bus :: u8
  pd_device :: u8
  pd_function :: u8
  pd_vendor_id :: u16
  pd_device_id :: u16
  pd_class_id :: u8
  pd_subclass_id :: u8
  pd_prog_if :: u8

definition PciDevice_type :: elem_type where
  "PciDevice_type = \<lparr>elem_size = 12, trivial = True\<rparr>"

record pci =
  config_address :: u32
  config_space :: "u32 \<Rightarrow> u32"
  config_write :: "u32 \<Rightarrow> u32 \<Rightarrow> u32 \<Rightarrow> u32"
  pci_devices :: "PciDevice dlist"
  heap_gives :: "u32 \<Rightarrow> bool"

definition outPortL :: "u16 \<Rightarrow> u32 \<Rightarrow> 'z pci_scheme \<Rightarrow> 'z pci_scheme" where
  "outPortL p v s =
     (if p = PCI_CONFIG_ADDRESS then s\<lparr>config_address := v\<rparr>
      else if p = PCI_CONFIG_DATA
      then let a = config_address s
           in s\<lparr>config_space := (config_space s)(a := config_write s a (config_space s a) v)\<rparr>
      else s)"

definition inPortL :: "u16 \<Rightarrow> 'z pci_scheme \<Rightarrow> u32" where
  "inPortL p s = (if p = PCI_CONFIG_DATA then config_space s (config_address s) else - 1)"

section \<open>The configuration space\<close>

definition get_config_address :: "u8 \<Rightarrow> u8 \<Rightarrow> u8 \<Rightarrow> u8 \<Rightarrow> u32" where
  "get_config_address b d f off =
     push_bit 31 1 OR push_bit 16 (ucast b) OR push_bit 11 (ucast d) OR push_bit 8 (ucast f) OR ucast (off AND 0xFC)"

definition pci_read32 :: "u8 \<Rightarrow> u8 \<Rightarrow> u8 \<Rightarrow> u8 \<Rightarrow> 'z pci_scheme \<Rightarrow> u32 \<times> 'z pci_scheme" where
  "pci_read32 b d f off s =
     (let s1 = outPortL PCI_CONFIG_ADDRESS (get_config_address b d f off) s in (inPortL PCI_CONFIG_DATA s1, s1))"

definition pci_read8 :: "u8 \<Rightarrow> u8 \<Rightarrow> u8 \<Rightarrow> u8 \<Rightarrow> 'z pci_scheme \<Rightarrow> u8 \<times> 'z pci_scheme" where
  "pci_read8 b d f off s =
     (let s1 = outPortL PCI_CONFIG_ADDRESS (get_config_address b d f off) s
      in (ucast (drop_bit (unat (off AND 3) * 8) (inPortL PCI_CONFIG_DATA s1) AND 0xFF), s1))"

definition pci_read :: "u8 \<Rightarrow> u8 \<Rightarrow> u8 \<Rightarrow> u8 \<Rightarrow> 'z pci_scheme \<Rightarrow> u16 \<times> 'z pci_scheme" where
  "pci_read b d f off s =
     (let s1 = outPortL PCI_CONFIG_ADDRESS (get_config_address b d f off) s
      in (ucast (drop_bit (unat (off AND 2) * 8) (inPortL PCI_CONFIG_DATA s1) AND 0xFFFF), s1))"

definition pci_write :: "u8 \<Rightarrow> u8 \<Rightarrow> u8 \<Rightarrow> u8 \<Rightarrow> u32 \<Rightarrow> 'z pci_scheme \<Rightarrow> 'z pci_scheme" where
  "pci_write b d f off v s =
     outPortL PCI_CONFIG_DATA v (outPortL PCI_CONFIG_ADDRESS (get_config_address b d f off) s)"

definition pci_get_vendor_id :: "u8 \<Rightarrow> u8 \<Rightarrow> u8 \<Rightarrow> 'z pci_scheme \<Rightarrow> u16 \<times> 'z pci_scheme" where
  "pci_get_vendor_id b d f = pci_read b d f PCI_HEADER_0x0_VENDOR_ID"
definition pci_get_header_type :: "u8 \<Rightarrow> u8 \<Rightarrow> u8 \<Rightarrow> 'z pci_scheme \<Rightarrow> u8 \<times> 'z pci_scheme" where
  "pci_get_header_type b d f = pci_read8 b d f PCI_HEADER_0x0_HEADER_TYPE"
definition pci_get_class_id :: "u8 \<Rightarrow> u8 \<Rightarrow> u8 \<Rightarrow> 'z pci_scheme \<Rightarrow> u8 \<times> 'z pci_scheme" where
  "pci_get_class_id b d f = pci_read8 b d f PCI_HEADER_0x0_CLASS"
definition pci_get_subclass_id :: "u8 \<Rightarrow> u8 \<Rightarrow> u8 \<Rightarrow> 'z pci_scheme \<Rightarrow> u8 \<times> 'z pci_scheme" where
  "pci_get_subclass_id b d f = pci_read8 b d f PCI_HEADER_0x0_SUBCLASS"
definition pci_get_prog_if :: "u8 \<Rightarrow> u8 \<Rightarrow> u8 \<Rightarrow> 'z pci_scheme \<Rightarrow> u8 \<times> 'z pci_scheme" where
  "pci_get_prog_if b d f = pci_read8 b d f PCI_HEADER_0x0_PROG_IF"

definition read_word :: "PciDevice \<Rightarrow> u8 \<Rightarrow> 'z pci_scheme \<Rightarrow> u16 \<times> 'z pci_scheme" where
  "read_word dev off = pci_read (pd_bus dev) (pd_device dev) (pd_function dev) off"

definition write_word :: "PciDevice \<Rightarrow> u8 \<Rightarrow> u16 \<Rightarrow> 'z pci_scheme \<Rightarrow> 'z pci_scheme" where
  "write_word dev off data = pci_write (pd_bus dev) (pd_device dev) (pd_function dev) off (ucast data)"

definition get_bar :: "PciDevice \<Rightarrow> u8 \<Rightarrow> 'z pci_scheme \<Rightarrow> u32 \<times> 'z pci_scheme" where
  "get_bar dev bar s =
     (case pci_read32 (pd_bus dev) (pd_device dev) (pd_function dev) (PCI_HEADER_0x0_BAR0 + bar * 4) s of
        (v, s1) \<Rightarrow> (v AND 0xFFFFFFF0, s1))"

section \<open>The scan\<close>

text \<open>The function is read, recorded, and its driver started when it is a SATA controller.\<close>

definition pci_manage_function ::
  "(PciDevice \<Rightarrow> 'z pci_scheme \<Rightarrow> 'z pci_scheme option) \<Rightarrow> u8 \<Rightarrow> u8 \<Rightarrow> u8 \<Rightarrow> 'z pci_scheme \<Rightarrow> 'z pci_scheme option" where
  "pci_manage_function init_dev b d f s0 =
     (case pci_get_class_id b d f s0 of (class_id, s1) \<Rightarrow>
      case pci_get_subclass_id b d f s1 of (subclass_id, s2) \<Rightarrow>
      case pci_get_vendor_id b d f s2 of (vendor_id, s3) \<Rightarrow>
      case pci_get_prog_if b d f s3 of (prog_if, s4) \<Rightarrow>
      case pci_read b d f PCI_HEADER_0x0_CAPABILITIES s4 of (capabilities, s5) \<Rightarrow>
      case pci_read b d f PCI_HEADER_0x0_DEVICE_ID s5 of (device_id, s6) \<Rightarrow>
        let dev = \<lparr>pd_bus = b, pd_device = d, pd_function = f, pd_vendor_id = vendor_id, pd_device_id = device_id,
                   pd_class_id = class_id, pd_subclass_id = subclass_id, pd_prog_if = prog_if\<rparr>
        in (case l_add PciDevice_type (heap_gives s6) dev (pci_devices s6) of None \<Rightarrow> None
            | Some l \<Rightarrow>
                let s7 = s6\<lparr>pci_devices := l\<rparr>
                in if class_id = PCI_CLASS_MASS_STORAGE \<and> subclass_id = PCI_STORAGE_SATA then init_dev dev s7 else Some s7))"

fun function_loop ::
  "(PciDevice \<Rightarrow> 'z pci_scheme \<Rightarrow> 'z pci_scheme option) \<Rightarrow> u8 \<Rightarrow> u8 \<Rightarrow> u8 list \<Rightarrow> 'z pci_scheme \<Rightarrow> 'z pci_scheme option" where
  "function_loop init_dev b d [] s = Some s"
| "function_loop init_dev b d (f # fs) s =
     (case pci_get_vendor_id b d f s of (v, s1) \<Rightarrow>
        if v \<noteq> PCI_NO_DEVICE_VENDOR
        then (case pci_manage_function init_dev b d f s1 of None \<Rightarrow> None | Some s2 \<Rightarrow> function_loop init_dev b d fs s2)
        else function_loop init_dev b d fs s1)"

definition pci_check_device ::
  "(PciDevice \<Rightarrow> 'z pci_scheme \<Rightarrow> 'z pci_scheme option) \<Rightarrow> u8 \<Rightarrow> u8 \<Rightarrow> 'z pci_scheme \<Rightarrow> 'z pci_scheme option" where
  "pci_check_device init_dev b d s =
     (case pci_get_vendor_id b d 0 s of (v, s1) \<Rightarrow>
        if v = PCI_NO_DEVICE_VENDOR then Some s1
        else (case pci_manage_function init_dev b d 0 s1 of None \<Rightarrow> None
          | Some s2 \<Rightarrow>
              (case pci_get_header_type b d 0 s2 of (header_type, s3) \<Rightarrow>
                 if header_type AND 0x80 \<noteq> 0 then function_loop init_dev b d [1, 2, 3, 4, 5, 6, 7] s3 else Some s3)))"

fun device_loop ::
  "(PciDevice \<Rightarrow> 'z pci_scheme \<Rightarrow> 'z pci_scheme option) \<Rightarrow> (u8 \<times> u8) list \<Rightarrow> 'z pci_scheme \<Rightarrow> 'z pci_scheme option" where
  "device_loop init_dev [] s = Some s"
| "device_loop init_dev ((b, d) # bds) s =
     (case pci_check_device init_dev b d s of None \<Rightarrow> None | Some s1 \<Rightarrow> device_loop init_dev bds s1)"

definition places :: "(u8 \<times> u8) list" where
  "places = concat (map (\<lambda>b. map (\<lambda>d. (of_nat b, of_nat d)) [0..<32]) [0..<256])"

definition pci_brute_force_scan ::
  "(PciDevice \<Rightarrow> 'z pci_scheme \<Rightarrow> 'z pci_scheme option) \<Rightarrow> 'z pci_scheme \<Rightarrow> 'z pci_scheme option" where
  "pci_brute_force_scan init_dev s = device_loop init_dev places s"


section \<open>Addresses\<close>

lemma bit_below:
  assumes "unat (w :: 'a::len word) < 2 ^ m" and "bit w k"
  shows "k < m"
proof (rule ccontr)
  assume "\<not> k < m"
  have "bit (unat w) k" using assms(2) by (simp add: bit_unsigned_iff)
  then have "odd (unat w div 2 ^ k)" unfolding bit_iff_odd .
  then have "unat w div 2 ^ k \<noteq> 0" by (cases "unat w div 2 ^ k") simp_all
  then have "2 ^ k \<le> unat w" by (cases "unat w < 2 ^ k") simp_all
  moreover have "(2 :: nat) ^ m \<le> 2 ^ k" using \<open>\<not> k < m\<close> by simp
  ultimately show False using assms(1) by linarith
qed

lemma bit_config_address:
  assumes "unat d < 32" and "unat f < 8"
  shows "bit (get_config_address b d f off) n =
    (n = 31 \<or> 16 \<le> n \<and> n < 24 \<and> bit b (n - 16) \<or> 11 \<le> n \<and> n < 16 \<and> bit d (n - 11)
     \<or> 8 \<le> n \<and> n < 11 \<and> bit f (n - 8) \<or> n < 8 \<and> bit (off AND 0xFC) n)"
proof -
  have d: "bit d k \<Longrightarrow> k < 5" and f: "bit f k \<Longrightarrow> k < 3" for k
    using bit_below [of d 5] bit_below [of f 3] assms by simp_all
  have o: "bit (ucast (off AND 0xFC) :: u32) n = (n < 8 \<and> bit (off AND 0xFC) n)"
    using bit_imp_le_length [of "off AND 0xFC" n] by (auto simp: bit_ucast_iff simp del: bit_and_iff)
  have e: "bit (push_bit 31 1 :: u32) n = (n = 31)" by (auto simp only: bit_push_bit_iff bit_1_iff) auto
  have r: "(16 \<le> n \<and> n < 32 \<and> bit b (n - 16)) = (16 \<le> n \<and> n < 24 \<and> bit b (n - 16))"
    using bit_imp_le_length [of b "n - 16"] by auto
  have r': "(11 \<le> n \<and> n < 32 \<and> bit d (n - 11)) = (11 \<le> n \<and> n < 16 \<and> bit d (n - 11))"
    "(8 \<le> n \<and> n < 32 \<and> bit f (n - 8)) = (8 \<le> n \<and> n < 11 \<and> bit f (n - 8))"
    using d [of "n - 11"] f [of "n - 8"] by auto
  have p: "bit (push_bit k (ucast (w :: u8)) :: u32) n = (k \<le> n \<and> n < 32 \<and> bit w (n - k))" for k w
    by (auto simp: bit_push_bit_iff bit_ucast_iff)
  show ?thesis
    unfolding get_config_address_def bit_or_iff o e p r r' by blast
qed

lemma config_address_eq_iff:
  assumes "unat d < 32" and "unat f < 8" and "unat d' < 32" and "unat f' < 8"
  shows "get_config_address b d f off = get_config_address b' d' f' off' \<longleftrightarrow>
    b = b' \<and> d = d' \<and> f = f' \<and> off AND 0xFC = off' AND 0xFC"
proof
  assume e: "get_config_address b d f off = get_config_address b' d' f' off'"
  note bits = bit_config_address [OF assms(1,2), of b off] bit_config_address [OF assms(3,4), of b' off']
  have eq: "bit (get_config_address b d f off) n = bit (get_config_address b' d' f' off') n" for n by (simp add: e)
  have "bit b n = bit b' n" if "n < 8" for n using eq [of "16 + n"] that by (simp add: bits del: bit_and_iff)
  moreover have "bit d n = bit d' n" if "n < 5" for n using eq [of "11 + n"] that by (simp add: bits del: bit_and_iff)
  moreover have "bit f n = bit f' n" if "n < 3" for n using eq [of "8 + n"] that by (simp add: bits del: bit_and_iff)
  moreover have "bit (off AND 0xFC) n = bit (off' AND 0xFC) n" if "n < 8" for n
    using eq [of n] that by (simp add: bits del: bit_and_iff)
  moreover have "bit d n = bit d' n" if "\<not> n < 5" for n
    using bit_below [of d 5 n] bit_below [of d' 5 n] assms that by auto
  moreover have "bit f n = bit f' n" if "\<not> n < 3" for n
    using bit_below [of f 3 n] bit_below [of f' 3 n] assms that by auto
  ultimately have "bit b n = bit b' n" "bit d n = bit d' n" "bit f n = bit f' n" "bit (off AND 0xFC) n = bit (off' AND 0xFC) n"
    if "n < 8" for n
    using that by blast+
  then show "b = b' \<and> d = d' \<and> f = f' \<and> off AND 0xFC = off' AND 0xFC"
    by (intro conjI bit_word_eqI) simp_all
qed (simp add: get_config_address_def)



section \<open>What the scan finds\<close>

text \<open>The configuration of a function, as the registers give it.\<close>

definition reg :: "(u32 \<Rightarrow> u32) \<Rightarrow> u8 \<Rightarrow> u8 \<Rightarrow> u8 \<Rightarrow> u8 \<Rightarrow> u32" where
  "reg cfg b d f off = cfg (get_config_address b d f off)"

definition dev_at :: "(u32 \<Rightarrow> u32) \<Rightarrow> u8 \<Rightarrow> u8 \<Rightarrow> u8 \<Rightarrow> PciDevice" where
  "dev_at cfg b d f = \<lparr>pd_bus = b, pd_device = d, pd_function = f,
     pd_vendor_id = ucast (reg cfg b d f 0x00), pd_device_id = ucast (drop_bit 16 (reg cfg b d f 0x02)),
     pd_class_id = ucast (drop_bit 24 (reg cfg b d f 0x0B)), pd_subclass_id = ucast (drop_bit 16 (reg cfg b d f 0x0A)),
     pd_prog_if = ucast (drop_bit 8 (reg cfg b d f 0x09))\<rparr>"

definition present :: "(u32 \<Rightarrow> u32) \<Rightarrow> u8 \<Rightarrow> u8 \<Rightarrow> u8 \<Rightarrow> bool" where
  "present cfg b d f \<longleftrightarrow> (ucast (reg cfg b d f 0x00) :: u16) \<noteq> 0xFFFF"

definition multi_function :: "(u32 \<Rightarrow> u32) \<Rightarrow> u8 \<Rightarrow> u8 \<Rightarrow> bool" where
  "multi_function cfg b d \<longleftrightarrow> bit (reg cfg b d 0 0x0E) 23"

definition functions_at :: "(u32 \<Rightarrow> u32) \<Rightarrow> u8 \<Rightarrow> u8 \<Rightarrow> u8 list" where
  "functions_at cfg b d =
     (if \<not> present cfg b d 0 then []
      else 0 # (if multi_function cfg b d then filter (present cfg b d) [1, 2, 3, 4, 5, 6, 7] else []))"

definition found_at :: "(u32 \<Rightarrow> u32) \<Rightarrow> (u8 \<times> u8) list \<Rightarrow> PciDevice list" where
  "found_at cfg bds = concat (map (\<lambda>(b, d). map (dev_at cfg b d) (functions_at cfg b d)) bds)"

definition sata :: "PciDevice \<Rightarrow> bool" where
  "sata dev \<longleftrightarrow> pd_class_id dev = 1 \<and> pd_subclass_id dev = 6"

lemma ucast_low:
  "(ucast (x AND 0xFF :: u32) :: u8) = ucast x" "(ucast (x AND 0xFFFF :: u32) :: u16) = ucast x"
proof -
  have m: "(0xFF :: u32) = mask 8" "(0xFFFF :: u32) = mask 16" by (simp_all add: mask_eq_exp_minus_1)
  show "(ucast (x AND 0xFF :: u32) :: u8) = ucast x" "(ucast (x AND 0xFFFF :: u32) :: u16) = ucast x"
    unfolding m by (auto intro!: bit_word_eqI simp: bit_ucast_iff bit_and_iff bit_mask_iff)
qed

lemma pci_reads:
  "pci_get_vendor_id b d f s = (ucast (reg (config_space s) b d f 0x00), s\<lparr>config_address := get_config_address b d f 0x00\<rparr>)"
  "pci_get_class_id b d f s = (ucast (drop_bit 24 (reg (config_space s) b d f 0x0B)), s\<lparr>config_address := get_config_address b d f 0x0B\<rparr>)"
  "pci_get_subclass_id b d f s = (ucast (drop_bit 16 (reg (config_space s) b d f 0x0A)), s\<lparr>config_address := get_config_address b d f 0x0A\<rparr>)"
  "pci_get_prog_if b d f s = (ucast (drop_bit 8 (reg (config_space s) b d f 0x09)), s\<lparr>config_address := get_config_address b d f 0x09\<rparr>)"
  "pci_get_header_type b d f s = (ucast (drop_bit 16 (reg (config_space s) b d f 0x0E)), s\<lparr>config_address := get_config_address b d f 0x0E\<rparr>)"
  "pci_read b d f 0x02 s = (ucast (drop_bit 16 (reg (config_space s) b d f 0x02)), s\<lparr>config_address := get_config_address b d f 0x02\<rparr>)"
  "snd (pci_read b d f off s) = s\<lparr>config_address := get_config_address b d f off\<rparr>"
  by (simp_all add: pci_get_vendor_id_def pci_get_class_id_def pci_get_subclass_id_def pci_get_prog_if_def pci_get_header_type_def
      pci_read_def pci_read8_def Let_def outPortL_def inPortL_def reg_def PCI_CONFIG_ADDRESS_def PCI_CONFIG_DATA_def
      PCI_HEADER_0x0_VENDOR_ID_def PCI_HEADER_0x0_CLASS_def PCI_HEADER_0x0_SUBCLASS_def PCI_HEADER_0x0_PROG_IF_def
      PCI_HEADER_0x0_HEADER_TYPE_def ucast_low)


text \<open>The state of the scan: what the configuration space is and which functions are recorded.\<close>

definition scanned :: "(u32 \<Rightarrow> u32) \<Rightarrow> (u32 \<Rightarrow> bool) \<Rightarrow> PciDevice list \<Rightarrow> 'z pci_scheme \<Rightarrow> bool" where
  "scanned cfg heap xs s \<longleftrightarrow> config_space s = cfg \<and> heap_gives s = heap \<and> holds (pci_devices s) xs"

lemma scanned_address [simp]: "scanned cfg heap xs (s\<lparr>config_address := a\<rparr>) = scanned cfg heap xs s"
  by (simp add: scanned_def)

text \<open>
  A driver that always starts, touches neither the configuration space nor the list, and is observed
  by \<open>started\<close>, which looks at neither either.
\<close>

definition starts_well ::
  "(PciDevice \<Rightarrow> 'z pci_scheme \<Rightarrow> 'z pci_scheme option) \<Rightarrow> ('z pci_scheme \<Rightarrow> PciDevice list) \<Rightarrow> bool" where
  "starts_well init_dev started \<longleftrightarrow>
     (\<forall>dev s. \<exists>s'. init_dev dev s = Some s' \<and> config_space s' = config_space s \<and> heap_gives s' = heap_gives s
        \<and> pci_devices s' = pci_devices s \<and> started s' = started s @ [dev])
     \<and> (\<forall>s a l. started (s\<lparr>config_address := a\<rparr>) = started s \<and> started (s\<lparr>pci_devices := l\<rparr>) = started s)"

lemma manage_function_scans:
  assumes "starts_well init_dev started" and "scanned cfg heap xs s" and "room PciDevice_type heap (Suc (length xs))"
  shows "\<exists>s'. pci_manage_function init_dev b d f s = Some s' \<and> scanned cfg heap (xs @ [dev_at cfg b d f]) s'
    \<and> started s' = started s @ filter sata [dev_at cfg b d f]"
proof -
  let ?v = "dev_at cfg b d f" and ?s = "s\<lparr>config_address := get_config_address b d f 0x02\<rparr>"
  obtain l where l: "push_back PciDevice_type heap ?v (pci_devices s) = Some l" "holds l (xs @ [?v])"
    using push_back_holds [OF _ assms(3)] assms(2) unfolding scanned_def by blast
  let ?t = "?s\<lparr>pci_devices := l\<rparr>"
  have t: "scanned cfg heap (xs @ [?v]) ?t" "started ?t = started s"
    using l(2) assms(1,2) by (simp_all add: scanned_def starts_well_def)
  have m: "pci_manage_function init_dev b d f s = (if sata ?v then init_dev ?v ?t else Some ?t)"
    using assms(2) l(1)
    by (simp add: pci_manage_function_def pci_reads scanned_def Let_def l_add_def dev_at_def sata_def
        PCI_HEADER_0x0_CAPABILITIES_def PCI_HEADER_0x0_DEVICE_ID_def PCI_CLASS_MASS_STORAGE_def PCI_STORAGE_SATA_def
        split_beta)
  show ?thesis
  proof (cases "sata ?v")
    case True
    obtain u where "init_dev ?v ?t = Some u" "config_space u = config_space ?t" "heap_gives u = heap_gives ?t"
        "pci_devices u = pci_devices ?t" "started u = started ?t @ [?v]"
      using assms(1) unfolding starts_well_def by blast
    then show ?thesis using m t True by (simp add: scanned_def)
  qed (use m t in simp)
qed


lemma function_loop_scans:
  assumes "starts_well init_dev started" and "scanned cfg heap xs s"
    and "room PciDevice_type heap (Suc (length xs + length (filter (present cfg b d) fs)))"
  shows "\<exists>s'. function_loop init_dev b d fs s = Some s'
    \<and> scanned cfg heap (xs @ map (dev_at cfg b d) (filter (present cfg b d) fs)) s'
    \<and> started s' = started s @ filter sata (map (dev_at cfg b d) (filter (present cfg b d) fs))"
  using assms(2,3)
proof (induction fs arbitrary: s xs)
  case (Cons f fs)
  let ?s = "s\<lparr>config_address := get_config_address b d f 0x00\<rparr>"
  have s: "scanned cfg heap xs ?s" "started ?s = started s" "config_space s = cfg"
    using Cons.prems(1) assms(1) by (simp_all add: scanned_def starts_well_def)
  show ?case
  proof (cases "present cfg b d f")
    case False
    then show ?thesis
      using Cons.IH [OF s(1)] Cons.prems(2) s by (simp add: pci_reads present_def PCI_NO_DEVICE_VENDOR_def)
  next
    case True
    have "room PciDevice_type heap (Suc (length xs))" using Cons.prems(2) by (rule room_mono) simp
    then obtain u where u: "pci_manage_function init_dev b d f ?s = Some u" "scanned cfg heap (xs @ [dev_at cfg b d f]) u"
        "started u = started s @ filter sata [dev_at cfg b d f]"
      using manage_function_scans [OF assms(1) s(1), of b d f] s(2) by auto
    obtain s' where "function_loop init_dev b d fs u = Some s'"
        "scanned cfg heap ((xs @ [dev_at cfg b d f]) @ map (dev_at cfg b d) (filter (present cfg b d) fs)) s'"
        "started s' = started u @ filter sata (map (dev_at cfg b d) (filter (present cfg b d) fs))"
      using Cons.IH [OF u(2)] Cons.prems(2) True by auto
    then show ?thesis
      using True u s(3) by (simp add: pci_reads present_def [symmetric] PCI_NO_DEVICE_VENDOR_def)
  qed
qed simp

lemma multi_function_bit: "(ucast (drop_bit 16 (r :: u32)) AND 0x80 \<noteq> (0 :: u8)) = bit r 23"
proof -
  have "(0x80 :: u8) = push_bit 7 1" by simp
  then have "(bit (ucast (drop_bit 16 r) AND 0x80 :: u8) n) = (n = 7 \<and> bit r 23)" for n
    by (cases "n = 7") (simp_all only: bit_and_iff bit_push_bit_iff bit_1_iff bit_ucast_iff bit_drop_bit_eq, auto)
  then show ?thesis by (metis bit_0_eq bot_apply bot_bool_def bit_eqI)
qed

lemma check_device_scans:
  assumes "starts_well init_dev started" and "scanned cfg heap xs s"
    and "room PciDevice_type heap (Suc (length xs + length (functions_at cfg b d)))"
  shows "\<exists>s'. pci_check_device init_dev b d s = Some s' \<and> scanned cfg heap (xs @ map (dev_at cfg b d) (functions_at cfg b d)) s'
    \<and> started s' = started s @ filter sata (map (dev_at cfg b d) (functions_at cfg b d))"
proof -
  let ?s = "s\<lparr>config_address := get_config_address b d 0 0x00\<rparr>"
  have s: "scanned cfg heap xs ?s" "started ?s = started s" "config_space s = cfg"
    using assms(1,2) by (simp_all add: scanned_def starts_well_def)
  show ?thesis
  proof (cases "present cfg b d 0")
    case False
    then show ?thesis
      using s by (simp add: pci_check_device_def pci_reads present_def functions_at_def PCI_NO_DEVICE_VENDOR_def)
  next
    case True
    have "room PciDevice_type heap (Suc (length xs))" using assms(3) by (rule room_mono) simp
    then obtain u where u: "pci_manage_function init_dev b d 0 ?s = Some u" "scanned cfg heap (xs @ [dev_at cfg b d 0]) u"
        "started u = started s @ filter sata [dev_at cfg b d 0]"
      using manage_function_scans [OF assms(1) s(1), of b d 0] s(2) by auto
    let ?u = "u\<lparr>config_address := get_config_address b d 0 0x0E\<rparr>"
    have u': "scanned cfg heap (xs @ [dev_at cfg b d 0]) ?u" "started ?u = started u" "config_space u = cfg"
      using u(2) assms(1) by (simp_all add: scanned_def starts_well_def)
    define fs :: "u8 list" where "fs = [1, 2, 3, 4, 5, 6, 7]"
    have c: "pci_check_device init_dev b d s
      = (if multi_function cfg b d then function_loop init_dev b d fs ?u else Some ?u)"
      using True s(3) u(1) u'(3)
      by (simp add: pci_check_device_def pci_reads present_def PCI_NO_DEVICE_VENDOR_def multi_function_bit multi_function_def fs_def)
    have at: "functions_at cfg b d = 0 # (if multi_function cfg b d then filter (present cfg b d) fs else [])"
      using True by (simp only: functions_at_def fs_def) simp
    show ?thesis
    proof (cases "multi_function cfg b d")
      case False
      then show ?thesis using c u' u at by simp
    next
      case multi: True
      have "room PciDevice_type heap (Suc (length (xs @ [dev_at cfg b d 0]) + length (filter (present cfg b d) fs)))"
        using assms(3) multi by (simp add: at)
      from function_loop_scans [OF assms(1) u'(1) this]
      obtain s' where "function_loop init_dev b d fs ?u = Some s'"
          "scanned cfg heap ((xs @ [dev_at cfg b d 0]) @ map (dev_at cfg b d) (filter (present cfg b d) fs)) s'"
          "started s' = started ?u @ filter sata (map (dev_at cfg b d) (filter (present cfg b d) fs))"
        by blast
      then show ?thesis using c u(3) u'(2) multi by (simp add: at)
    qed
  qed
qed

lemma device_loop_scans:
  assumes "starts_well init_dev started" and "scanned cfg heap xs s"
    and "room PciDevice_type heap (Suc (length xs + length (found_at cfg bds)))"
  shows "\<exists>s'. device_loop init_dev bds s = Some s' \<and> scanned cfg heap (xs @ found_at cfg bds) s'
    \<and> started s' = started s @ filter sata (found_at cfg bds)"
  using assms(2,3)
proof (induction bds arbitrary: s xs)
  case (Cons bd bds)
  obtain b d where bd: "bd = (b, d)" by (cases bd)
  have r: "room PciDevice_type heap (Suc (length xs + length (functions_at cfg b d)))"
    using Cons.prems(2) by (rule room_mono) (simp add: found_at_def bd)
  obtain u where u: "pci_check_device init_dev b d s = Some u"
      "scanned cfg heap (xs @ map (dev_at cfg b d) (functions_at cfg b d)) u"
      "started u = started s @ filter sata (map (dev_at cfg b d) (functions_at cfg b d))"
    using check_device_scans [OF assms(1) Cons.prems(1) r] by blast
  obtain s' where "device_loop init_dev bds u = Some s'"
      "scanned cfg heap ((xs @ map (dev_at cfg b d) (functions_at cfg b d)) @ found_at cfg bds) s'"
      "started s' = started u @ filter sata (found_at cfg bds)"
    using Cons.IH [OF u(2)] Cons.prems(2) by (auto simp: found_at_def bd add.assoc)
  then show ?case using u by (simp add: bd found_at_def)
qed (simp add: found_at_def)



text \<open>A bus with one SATA controller, and a driver that notes what it was started for.\<close>

record demo_pci = pci +
  demo_started :: "PciDevice list"

definition demo_init :: "PciDevice \<Rightarrow> demo_pci \<Rightarrow> demo_pci option" where
  "demo_init dev s = Some (s\<lparr>demo_started := demo_started s @ [dev]\<rparr>)"

definition demo_cfg :: "u32 \<Rightarrow> u32" where
  "demo_cfg a = (if a = 0x80000000 then 0x29228086 else if a = 0x80000008 then 0x01060185 else 0xFFFFFFFF)"

definition demo_dev :: PciDevice where
  "demo_dev = \<lparr>pd_bus = 0, pd_device = 0, pd_function = 0, pd_vendor_id = 0x8086, pd_device_id = 0x2922,
     pd_class_id = 1, pd_subclass_id = 6, pd_prog_if = 1\<rparr>"

definition demo_bus :: demo_pci where
  "demo_bus = \<lparr>config_address = 0, config_space = demo_cfg, config_write = (\<lambda>_ old _. old), pci_devices = list_new,
     heap_gives = (\<lambda>_. True), demo_started = []\<rparr>"

lemma demo_starts_well: "starts_well demo_init demo_started"
  by (simp add: starts_well_def demo_init_def)

lemma demo_first_address: "get_config_address 0 0 0 0 = 0x80000000" "get_config_address 0 0 0 8 = 0x80000008"
  by (simp_all add: get_config_address_def)

lemma demo_present:
  assumes "unat d < 32" and "unat f < 8"
  shows "present demo_cfg b d f \<longleftrightarrow> b = 0 \<and> d = 0 \<and> f = 0"
proof -
  have "get_config_address b d f 0 = 0x80000000 \<longleftrightarrow> b = 0 \<and> d = 0 \<and> f = 0"
    using config_address_eq_iff [OF assms, of 0 0 b 0 0 0] by (simp add: demo_first_address)
  moreover have "get_config_address b d f 0 \<noteq> 0x80000008"
    using config_address_eq_iff [OF assms, of 0 0 b 0 0 8] by (simp add: demo_first_address)
  ultimately show ?thesis by (simp add: present_def reg_def demo_cfg_def)
qed

lemma found_nothing: "\<forall>(b, d) \<in> set bds. \<not> present cfg b d 0 \<Longrightarrow> found_at cfg bds = []"
  by (auto simp: found_at_def functions_at_def)

lemma places_first:
  "places = (0, 0) # map (\<lambda>d. (0, of_nat d)) [1..<32] @ concat (map (\<lambda>b. map (\<lambda>d. (of_nat b, of_nat d)) [0..<32]) [1..<256])"
proof -
  have r: "concat (map f [0..<256]) = f 0 @ concat (map f [1..<256])" for f :: "nat \<Rightarrow> (u8 \<times> u8) list"
    by (subst upt_conv_Cons) simp_all
  have c: "map g [0..<32] = g 0 # map g [1..<32]" for g :: "nat \<Rightarrow> u8 \<times> u8"
    by (subst upt_conv_Cons) simp_all
  show ?thesis unfolding places_def r by (subst c) simp
qed

lemma demo_found: "found_at demo_cfg places = [demo_dev]"
proof -
  have r: "found_at cfg ((b, d) # bds) = map (dev_at cfg b d) (functions_at cfg b d) @ found_at cfg bds" for cfg b d bds
    by (simp add: found_at_def)
  have fs: "functions_at demo_cfg 0 0 = [0]"
    using demo_present [of 0 _ 0] by (simp add: functions_at_def)
  have dev: "dev_at demo_cfg 0 0 0 = demo_dev"
    by (simp add: dev_at_def demo_dev_def reg_def get_config_address_def demo_cfg_def)
  have "found_at demo_cfg (map (\<lambda>d. (0, of_nat d)) [1..<32] @ concat (map (\<lambda>b. map (\<lambda>d. (of_nat b, of_nat d)) [0..<32]) [1..<256])) = []"
  proof (rule found_nothing, safe)
    fix b d :: u8
    assume m: "(b, d) \<in> set (map (\<lambda>d. (0, of_nat d)) [1..<32] @ concat (map (\<lambda>b. map (\<lambda>d. (of_nat b, of_nat d)) [0..<32]) [1..<256]))"
      and p: "present demo_cfg b d 0"
    from m consider (row) k where "b = 0" "d = of_nat k" "k \<in> {1..<32}"
      | (rows) j k where "b = of_nat j" "d = of_nat k" "k \<in> {0..<32}" "j \<in> {1..<256}"
      by (auto simp only: set_append set_map set_concat set_upt Un_iff image_iff Union_iff prod.inject of_nat_0)
    then obtain j k :: nat where bd: "b = of_nat j" "d = of_nat k" "k < 32" "j < 256" "0 < j \<or> 0 < k"
    proof cases
      case row
      then show ?thesis using that [of 0 k] by simp
    next
      case rows
      then show ?thesis using that [of j k] by simp
    qed
    then have "unat d = k" "unat b = j" by (simp_all add: unat_of_nat)
    then show False using demo_present [of d 0 b] p bd(3,5) by auto
  qed
  then show ?thesis unfolding places_first r fs by (simp add: dev)
qed



end
