(* ===== verification/Vga.thy ===== *)
theory Vga
  imports Memory MathUtil "HOL-Library.Monad_Syntax"
begin

text \<open>
  The framebuffer: \<open>src/kernel/drivers/vga.cpp\<close>, the shapes of \<open>src/kernel/graphics/render.cpp\<close> and the
  font of \<open>include/graphics/vga_print.hpp\<close>.  The pixels are bytes of memory.  \<open>int\<close> variables are
  integers; a signed overflow, which C leaves undefined, is \<open>None\<close>, and so is an access outside the font.
\<close>

section \<open>The screen\<close>

datatype VGA_Modes = TEXT | FRAMEBUFFER

text \<open>
  A box of the screen that text is written to, with its own position.  The last four fields of the screen
  are those of the text mode: its position, a flag, and the bytes written to ports, first to last.
\<close>

record vga_section =
  startX :: u32
  startY :: u32
  endX :: u32
  endY :: u32
  sect_col :: u32
  sect_row :: u32

record vga =
  vmem :: mem
  framebuffer :: u32
  fb_size :: u32
  screen_width :: u32
  screen_height :: u32
  screen_pitch :: u32
  screen_bpp :: u8
  font_height :: u8
  font_width :: u8
  screen_col_num :: u32
  screen_row_num :: u32
  vga_mode :: VGA_Modes
  col_num :: i32
  row_num :: i32
  curr_section :: "vga_section option"
  can_update_cursor :: bool
  last_cursor :: "u32 \<times> u32"
  vgat_col :: u32
  vgat_row :: u32
  printingString :: bool
  crt_writes :: "(u16 \<times> u8) list"

record fb_tag =
  framebuffer_addr :: u64
  framebuffer_pitch :: u32
  framebuffer_width :: u32
  framebuffer_height :: u32
  framebuffer_bpp :: u8
  framebuffer_type :: u8

definition MULTIBOOT_FRAMEBUFFER_TYPE_RGB :: u8 where "MULTIBOOT_FRAMEBUFFER_TYPE_RGB = 1"

text \<open>\<open>init_framebuffer\<close>; without a tag the kernel stops.\<close>

definition init_framebuffer :: "fb_tag option \<Rightarrow> vga \<Rightarrow> vga option" where
  "init_framebuffer tag s =
     (case tag of None \<Rightarrow> None
      | Some t \<Rightarrow>
          if framebuffer_type t \<noteq> MULTIBOOT_FRAMEBUFFER_TYPE_RGB then Some s
          else Some (s\<lparr>framebuffer := ucast (framebuffer_addr t), screen_width := framebuffer_width t,
            screen_height := framebuffer_height t, screen_pitch := framebuffer_pitch t, screen_bpp := framebuffer_bpp t,
            fb_size := framebuffer_width t * framebuffer_height t * ucast (framebuffer_bpp t div 8),
            font_height := 8, font_width := 8,
            screen_col_num := ucast (udiv64 (ucast (framebuffer_width t)) 8),
            screen_row_num := ucast (udiv64 (ucast (framebuffer_height t)) 8), vga_mode := FRAMEBUFFER\<rparr>))"

definition pixel_addr :: "u32 \<Rightarrow> u32 \<Rightarrow> vga \<Rightarrow> u32" where
  "pixel_addr x y s = framebuffer s + y * screen_pitch s + x * ucast (screen_bpp s div 8)"

definition put_pixel :: "u32 \<Rightarrow> u32 \<Rightarrow> u32 \<Rightarrow> vga \<Rightarrow> vga" where
  "put_pixel x y color s =
     (if framebuffer s = 0 then s
      else if screen_width s \<le> x \<or> screen_height s \<le> y then s
      else let p = pixel_addr x y s in
        if screen_bpp s = 32
        then s\<lparr>vmem := (vmem s)(p := ucast color, p + 1 := ucast (drop_bit 8 color),
               p + 2 := ucast (drop_bit 16 color), p + 3 := ucast (drop_bit 24 color))\<rparr>
        else if screen_bpp s = 24
        then s\<lparr>vmem := (vmem s)(p := ucast color, p + 1 := ucast (drop_bit 8 color), p + 2 := ucast (drop_bit 16 color))\<rparr>
        else s)"

definition get_pixel :: "u32 \<Rightarrow> u32 \<Rightarrow> vga \<Rightarrow> u32" where
  "get_pixel x y s =
     (if framebuffer s = 0 then 0
      else if screen_width s \<le> x \<or> screen_height s \<le> y then 0
      else if screen_bpp s = 32 then read32 (vmem s) (pixel_addr x y s) AND 0x00FFFFFF
      else read32 (vmem s) (pixel_addr x y s))"

section \<open>Shapes\<close>

definition blend :: "u32 \<Rightarrow> u32 \<Rightarrow> u8 \<Rightarrow> u8" where
  "blend fg bg alpha = ucast (drop_bit 8 (fg * ucast alpha + bg * (256 - ucast alpha)))"

definition put_pixel_alpha :: "u32 \<Rightarrow> u32 \<Rightarrow> u32 \<Rightarrow> u8 \<Rightarrow> vga \<Rightarrow> vga" where
  "put_pixel_alpha x y color alpha s =
     (if alpha = 0 then s
      else if alpha = 255 then put_pixel x y color s
      else if framebuffer s = 0 then s
      else if screen_width s \<le> x \<or> screen_height s \<le> y then s
      else let p = pixel_addr x y s; m = vmem s in
        if screen_bpp s = 32 \<or> screen_bpp s = 24
        then s\<lparr>vmem := m(p := blend (color AND 0xFF) (ucast (m p)) alpha,
               p + 1 := blend (drop_bit 8 color AND 0xFF) (ucast (m (p + 1))) alpha,
               p + 2 := blend (drop_bit 16 color AND 0xFF) (ucast (m (p + 2))) alpha)\<rparr>
        else s)"

text \<open>A loop from \<open>lo\<close> while the counter is below \<open>hi\<close>.\<close>

definition up :: "u32 \<Rightarrow> u32 \<Rightarrow> u32 list" where
  "up lo hi = map of_nat [unat lo..<unat hi]"

definition draw_rect :: "u32 \<Rightarrow> u32 \<Rightarrow> u32 \<Rightarrow> u32 \<Rightarrow> u32 \<Rightarrow> u8 \<Rightarrow> vga \<Rightarrow> vga" where
  "draw_rect x y w h color alpha s =
     foldl (\<lambda>s yy. foldl (\<lambda>s xx. put_pixel_alpha xx yy color alpha s) s (up x (x + w))) s (up y (y + h))"

definition draw_rect_behind :: "u32 \<Rightarrow> u32 \<Rightarrow> u32 \<Rightarrow> u32 \<Rightarrow> u32 \<Rightarrow> u32 \<Rightarrow> u8 \<Rightarrow> vga \<Rightarrow> vga" where
  "draw_rect_behind x y w h color back_color alpha s =
     foldl (\<lambda>s yy. foldl (\<lambda>s xx.
         if get_pixel xx yy s = back_color then put_pixel_alpha xx yy color alpha s else s) s (up x (x + w))) s (up y (y + h))"

definition draw_rect_outline :: "u32 \<Rightarrow> u32 \<Rightarrow> u32 \<Rightarrow> u32 \<Rightarrow> u32 \<Rightarrow> u8 \<Rightarrow> vga \<Rightarrow> vga" where
  "draw_rect_outline x y w h color alpha s =
     foldl (\<lambda>s yy. put_pixel_alpha (x + w - 1) yy color alpha (put_pixel_alpha x yy color alpha s))
       (foldl (\<lambda>s xx. put_pixel_alpha xx (y + h - 1) color alpha (put_pixel_alpha xx y color alpha s)) s (up x (x + w)))
       (up y (y + h))"

definition ok32 :: "int \<Rightarrow> int option" where
  "ok32 v = (if - (2 ^ 31) \<le> v \<and> v < 2 ^ 31 then Some v else None)"

fun circle_row :: "int \<Rightarrow> u32 \<Rightarrow> u32 \<Rightarrow> u32 \<Rightarrow> u8 \<Rightarrow> int \<Rightarrow> int list \<Rightarrow> vga \<Rightarrow> vga option" where
  "circle_row r cx cy color alpha y [] s = Some s"
| "circle_row r cx cy color alpha y (x # xs) s =
     do { d \<leftarrow> ok32 (x * x + y * y); rr \<leftarrow> ok32 (r * r);
          circle_row r cx cy color alpha y xs
            (if d \<le> rr then put_pixel_alpha (cx + of_int x) (cy + of_int y) color alpha s else s) }"

fun circle_rows :: "int \<Rightarrow> u32 \<Rightarrow> u32 \<Rightarrow> u32 \<Rightarrow> u8 \<Rightarrow> int list \<Rightarrow> vga \<Rightarrow> vga option" where
  "circle_rows r cx cy color alpha [] s = Some s"
| "circle_rows r cx cy color alpha (y # ys) s =
     do { s1 \<leftarrow> circle_row r cx cy color alpha y [- r..r] s; circle_rows r cx cy color alpha ys s1 }"

definition draw_circle :: "u32 \<Rightarrow> u32 \<Rightarrow> u32 \<Rightarrow> u32 \<Rightarrow> u8 \<Rightarrow> vga \<Rightarrow> vga option" where
  "draw_circle cx cy radius color alpha s = (let r = sint radius in circle_rows r cx cy color alpha [- r..r] s)"

definition put_all :: "(u32 \<times> u32) list \<Rightarrow> u32 \<Rightarrow> u8 \<Rightarrow> vga \<Rightarrow> vga" where
  "put_all ps color alpha s = foldl (\<lambda>s p. put_pixel_alpha (fst p) (snd p) color alpha s) s ps"

definition octants :: "u32 \<Rightarrow> u32 \<Rightarrow> int \<Rightarrow> int \<Rightarrow> (u32 \<times> u32) list" where
  "octants cx cy x y =
     [(cx + of_int x, cy + of_int y), (cx + of_int y, cy + of_int x), (cx - of_int y, cy + of_int x), (cx - of_int x, cy + of_int y),
      (cx - of_int x, cy - of_int y), (cx - of_int y, cy - of_int x), (cx + of_int y, cy - of_int x), (cx + of_int x, cy - of_int y)]"

partial_function (option) outline_loop :: "u32 \<Rightarrow> u32 \<Rightarrow> u32 \<Rightarrow> u8 \<Rightarrow> int \<Rightarrow> int \<Rightarrow> int \<Rightarrow> vga \<Rightarrow> vga option" where
  "outline_loop cx cy color alpha x y err s =
     (if x < y then Some s
      else do {
        let s1 = put_all (octants cx cy x y) color alpha s;
        y1 \<leftarrow> ok32 (y + 1);
        err1 \<leftarrow> (if err \<le> 0 then ok32 (err + (2 * y1 + 1)) else Some err);
        if 0 < err1
        then do { err2 \<leftarrow> ok32 (err1 - (2 * (x - 1) + 1)); outline_loop cx cy color alpha (x - 1) y1 err2 s1 }
        else outline_loop cx cy color alpha x y1 err1 s1 })"

definition draw_circle_outline :: "u32 \<Rightarrow> u32 \<Rightarrow> u32 \<Rightarrow> u32 \<Rightarrow> u8 \<Rightarrow> vga \<Rightarrow> vga option" where
  "draw_circle_outline cx cy radius color alpha s = outline_loop cx cy color alpha (sint radius) 0 0 s"

text \<open>The loop of \<open>draw_line\<close>, with the end point, the steps and the two differences.\<close>

partial_function (option) line_loop ::
  "int \<Rightarrow> int \<Rightarrow> int \<Rightarrow> int \<Rightarrow> int \<Rightarrow> int \<Rightarrow> u32 \<Rightarrow> u8 \<Rightarrow> int \<Rightarrow> int \<Rightarrow> int \<Rightarrow> vga \<Rightarrow> vga option" where
  "line_loop xe ye dx dy sx sy color alpha x y err s =
     (let s1 = put_pixel_alpha (of_int x) (of_int y) color alpha s in
      if x = xe \<and> y = ye then Some s1
      else do {
        e2 \<leftarrow> ok32 (2 * err);
        (err1, x1) \<leftarrow> (if dy \<le> e2 then do { e \<leftarrow> ok32 (err + dy); x' \<leftarrow> ok32 (x + sx); Some (e, x') } else Some (err, x));
        (err2, y1) \<leftarrow> (if e2 \<le> dx then do { e \<leftarrow> ok32 (err1 + dx); y' \<leftarrow> ok32 (y + sy); Some (e, y') } else Some (err1, y));
        line_loop xe ye dx dy sx sy color alpha x1 y1 err2 s1 })"

definition draw_line :: "u32 \<Rightarrow> u32 \<Rightarrow> u32 \<Rightarrow> u32 \<Rightarrow> u32 \<Rightarrow> u8 \<Rightarrow> vga \<Rightarrow> vga option" where
  "draw_line x0 y0 x1 y1 color alpha s =
     do {
       ex \<leftarrow> ok32 (sint x1 - sint x0);
       ey \<leftarrow> ok32 (sint y1 - sint y0);
       let dx = sint (abs_c (of_int ex));
       let dy = sint (- abs_c (of_int ey));
       let sx = (if x0 < x1 then 1 else - 1);
       let sy = (if y0 < y1 then 1 else - 1);
       err \<leftarrow> ok32 (dx + dy);
       line_loop (sint x1) (sint y1) dx dy sx sy color alpha (sint x0) (sint y0) err s }"

text \<open>
  The triangle: the bounding box, from the minimum over a pointer to the three coordinates, and the
  signs of three edge functions, computed unsigned.
\<close>

definition edge :: "u32 \<Rightarrow> u32 \<Rightarrow> u32 \<Rightarrow> u32 \<Rightarrow> int \<Rightarrow> int \<Rightarrow> int" where
  "edge xa ya xb yb x y = sint ((xb - xa) * (of_int y - ya) - (yb - ya) * (of_int x - xa))"

definition in_triangle :: "u32 \<Rightarrow> u32 \<Rightarrow> u32 \<Rightarrow> u32 \<Rightarrow> u32 \<Rightarrow> u32 \<Rightarrow> int \<Rightarrow> int \<Rightarrow> bool" where
  "in_triangle x0 y0 x1 y1 x2 y2 x y \<longleftrightarrow>
     (let w0 = edge x0 y0 x1 y1 x y; w1 = edge x1 y1 x2 y2 x y; w2 = edge x2 y2 x0 y0 x y
      in (0 \<le> w0 \<and> 0 \<le> w1 \<and> 0 \<le> w2) \<or> (w0 \<le> 0 \<and> w1 \<le> 0 \<and> w2 \<le> 0))"

definition draw_triangle ::
  "u32 \<Rightarrow> u32 \<Rightarrow> u32 \<Rightarrow> u32 \<Rightarrow> u32 \<Rightarrow> u32 \<Rightarrow> u32 \<Rightarrow> u8 \<Rightarrow> vga \<Rightarrow> vga" where
  "draw_triangle x0 y0 x1 y1 x2 y2 color alpha s =
     (let minX = sint (min_ptr [x0, x1, x2]); maxX = sint (max_ptr [x0, x1, x2]);
          minY = sint (min_ptr [y0, y1, y2]); maxY = sint (max_ptr [y0, y1, y2])
      in foldl (\<lambda>s y. foldl (\<lambda>s x.
           if in_triangle x0 y0 x1 y1 x2 y2 x y then put_pixel_alpha (of_int x) (of_int y) color alpha s else s) s [minX..maxX])
         s [minY..maxY])"

section \<open>Characters\<close>

definition font8x8_basic :: "u8 list list" where
  "font8x8_basic = [
     [0x00, 0x00, 0x00, 0x00, 0x00, 0x00, 0x00, 0x00],
     [0x18, 0x3C, 0x3C, 0x18, 0x18, 0x00, 0x18, 0x00],
     [0x6C, 0x6C, 0x24, 0x00, 0x00, 0x00, 0x00, 0x00],
     [0x6C, 0x6C, 0xFE, 0x6C, 0xFE, 0x6C, 0x6C, 0x00],
     [0x18, 0x3E, 0x60, 0x3C, 0x06, 0x7C, 0x18, 0x00],
     [0x00, 0xC6, 0xCC, 0x18, 0x30, 0x66, 0xC6, 0x00],
     [0x38, 0x6C, 0x38, 0x76, 0xDC, 0xCC, 0x76, 0x00],
     [0x30, 0x30, 0x30, 0x00, 0x00, 0x00, 0x00, 0x00],
     [0x0C, 0x18, 0x30, 0x30, 0x30, 0x18, 0x0C, 0x00],
     [0x30, 0x18, 0x0C, 0x0C, 0x0C, 0x18, 0x30, 0x00],
     [0x00, 0x66, 0x3C, 0xFF, 0x3C, 0x66, 0x00, 0x00],
     [0x00, 0x18, 0x18, 0x7E, 0x18, 0x18, 0x00, 0x00],
     [0x00, 0x00, 0x00, 0x00, 0x18, 0x18, 0x30, 0x00],
     [0x00, 0x00, 0x00, 0x7E, 0x00, 0x00, 0x00, 0x00],
     [0x00, 0x00, 0x00, 0x00, 0x18, 0x18, 0x00, 0x00],
     [0x06, 0x0C, 0x18, 0x30, 0x60, 0xC0, 0x80, 0x00],
     [0x7C, 0xC6, 0xCE, 0xD6, 0xE6, 0xC6, 0x7C, 0x00],
     [0x18, 0x38, 0x18, 0x18, 0x18, 0x18, 0x7E, 0x00],
     [0x7C, 0xC6, 0x06, 0x1C, 0x70, 0xC0, 0xFE, 0x00],
     [0x7C, 0xC6, 0x06, 0x3C, 0x06, 0xC6, 0x7C, 0x00],
     [0x1C, 0x3C, 0x6C, 0xCC, 0xFE, 0x0C, 0x1E, 0x00],
     [0xFE, 0xC0, 0xF8, 0x0C, 0x06, 0xC6, 0x7C, 0x00],
     [0x3C, 0x60, 0xC0, 0xFC, 0xC6, 0xC6, 0x7C, 0x00],
     [0xFE, 0xC6, 0x0C, 0x18, 0x30, 0x30, 0x30, 0x00],
     [0x7C, 0xC6, 0xC6, 0x7C, 0xC6, 0xC6, 0x7C, 0x00],
     [0x7C, 0xC6, 0xC6, 0x7E, 0x06, 0x0C, 0x78, 0x00],
     [0x00, 0x18, 0x18, 0x00, 0x18, 0x18, 0x00, 0x00],
     [0x00, 0x18, 0x18, 0x00, 0x18, 0x18, 0x30, 0x00],
     [0x0C, 0x18, 0x30, 0x60, 0x30, 0x18, 0x0C, 0x00],
     [0x00, 0x00, 0x7E, 0x00, 0x7E, 0x00, 0x00, 0x00],
     [0x30, 0x18, 0x0C, 0x06, 0x0C, 0x18, 0x30, 0x00],
     [0x7C, 0xC6, 0x0C, 0x18, 0x18, 0x00, 0x18, 0x00],
     [0x7C, 0xC6, 0xDE, 0xDE, 0xDE, 0xC0, 0x7C, 0x00],
     [0x38, 0x6C, 0xC6, 0xFE, 0xC6, 0xC6, 0xC6, 0x00],
     [0xFC, 0x66, 0x66, 0x7C, 0x66, 0x66, 0xFC, 0x00],
     [0x3C, 0x66, 0xC0, 0xC0, 0xC0, 0x66, 0x3C, 0x00],
     [0xF8, 0x6C, 0x66, 0x66, 0x66, 0x6C, 0xF8, 0x00],
     [0xFE, 0x62, 0x68, 0x78, 0x68, 0x62, 0xFE, 0x00],
     [0xFE, 0x62, 0x68, 0x78, 0x68, 0x60, 0xF0, 0x00],
     [0x3C, 0x66, 0xC0, 0xC0, 0xCE, 0x66, 0x3E, 0x00],
     [0xC6, 0xC6, 0xC6, 0xFE, 0xC6, 0xC6, 0xC6, 0x00],
     [0x7E, 0x18, 0x18, 0x18, 0x18, 0x18, 0x7E, 0x00],
     [0x1E, 0x0C, 0x0C, 0x0C, 0xCC, 0xCC, 0x78, 0x00],
     [0xE6, 0x66, 0x6C, 0x78, 0x6C, 0x66, 0xE6, 0x00],
     [0xF0, 0x60, 0x60, 0x60, 0x62, 0x66, 0xFE, 0x00],
     [0xC6, 0xEE, 0xFE, 0xD6, 0xC6, 0xC6, 0xC6, 0x00],
     [0xC6, 0xE6, 0xF6, 0xDE, 0xCE, 0xC6, 0xC6, 0x00],
     [0x38, 0x6C, 0xC6, 0xC6, 0xC6, 0x6C, 0x38, 0x00],
     [0xFC, 0x66, 0x66, 0x7C, 0x60, 0x60, 0xF0, 0x00],
     [0x38, 0x6C, 0xC6, 0xC6, 0xDA, 0x6C, 0x3A, 0x00],
     [0xFC, 0x66, 0x66, 0x7C, 0x6C, 0x66, 0xE6, 0x00],
     [0x7C, 0xC6, 0x60, 0x38, 0x0C, 0xC6, 0x7C, 0x00],
     [0x7E, 0x7E, 0x5A, 0x18, 0x18, 0x18, 0x3C, 0x00],
     [0xC6, 0xC6, 0xC6, 0xC6, 0xC6, 0xC6, 0x7C, 0x00],
     [0xC6, 0xC6, 0xC6, 0xC6, 0x6C, 0x38, 0x10, 0x00],
     [0xC6, 0xC6, 0xC6, 0xD6, 0xFE, 0xEE, 0xC6, 0x00],
     [0xC6, 0x6C, 0x38, 0x10, 0x38, 0x6C, 0xC6, 0x00],
     [0x66, 0x66, 0x66, 0x3C, 0x18, 0x18, 0x3C, 0x00],
     [0xFE, 0xCC, 0x18, 0x30, 0x60, 0xC6, 0xFE, 0x00],
     [0x3C, 0x30, 0x30, 0x30, 0x30, 0x30, 0x3C, 0x00],
     [0xC0, 0x60, 0x30, 0x18, 0x0C, 0x06, 0x02, 0x00],
     [0x3C, 0x0C, 0x0C, 0x0C, 0x0C, 0x0C, 0x3C, 0x00],
     [0x10, 0x38, 0x6C, 0xC6, 0x00, 0x00, 0x00, 0x00],
     [0x00, 0x00, 0x00, 0x00, 0x00, 0x00, 0x00, 0xFF],
     [0x30, 0x18, 0x0C, 0x00, 0x00, 0x00, 0x00, 0x00],
     [0x00, 0x00, 0x78, 0x0C, 0x7C, 0xCC, 0x76, 0x00],
     [0xE0, 0x60, 0x7C, 0x66, 0x66, 0x66, 0xDC, 0x00],
     [0x00, 0x00, 0x7C, 0xC0, 0xC0, 0xC0, 0x7C, 0x00],
     [0x1C, 0x0C, 0x7C, 0xCC, 0xCC, 0xCC, 0x76, 0x00],
     [0x00, 0x00, 0x78, 0xCC, 0xFC, 0xC0, 0x7C, 0x00],
     [0x3C, 0x66, 0x60, 0xF8, 0x60, 0x60, 0xF0, 0x00],
     [0x00, 0x00, 0x76, 0xCC, 0xCC, 0x7C, 0x0C, 0xF8],
     [0xE0, 0x60, 0x6C, 0x76, 0x66, 0x66, 0xE6, 0x00],
     [0x18, 0x00, 0x38, 0x18, 0x18, 0x18, 0x3C, 0x00],
     [0x0C, 0x00, 0x1C, 0x0C, 0x0C, 0xCC, 0xCC, 0x78],
     [0xE0, 0x60, 0x66, 0x6C, 0x78, 0x6C, 0xE6, 0x00],
     [0x38, 0x18, 0x18, 0x18, 0x18, 0x18, 0x3C, 0x00],
     [0x00, 0x00, 0xEC, 0xFE, 0xD6, 0xD6, 0xC6, 0x00],
     [0x00, 0x00, 0xDC, 0x66, 0x66, 0x66, 0x66, 0x00],
     [0x00, 0x00, 0x7C, 0xC6, 0xC6, 0xC6, 0x7C, 0x00],
     [0x00, 0x00, 0xDC, 0x66, 0x66, 0x7C, 0x60, 0xF0],
     [0x00, 0x00, 0x76, 0xCC, 0xCC, 0x7C, 0x0C, 0x1E],
     [0x00, 0x00, 0xDC, 0x76, 0x66, 0x60, 0xF0, 0x00],
     [0x00, 0x00, 0x7E, 0xC0, 0x7C, 0x06, 0xFC, 0x00],
     [0x30, 0x30, 0xFC, 0x30, 0x30, 0x36, 0x1C, 0x00],
     [0x00, 0x00, 0xCC, 0xCC, 0xCC, 0xCC, 0x76, 0x00],
     [0x00, 0x00, 0xC6, 0xC6, 0xC6, 0x6C, 0x38, 0x00],
     [0x00, 0x00, 0xC6, 0xD6, 0xD6, 0xFE, 0x6C, 0x00],
     [0x00, 0x00, 0xC6, 0x6C, 0x38, 0x6C, 0xC6, 0x00],
     [0x00, 0x00, 0xC6, 0xC6, 0xC6, 0x7E, 0x06, 0xFC],
     [0x00, 0x00, 0xFE, 0x4C, 0x18, 0x32, 0xFE, 0x00],
     [0x0E, 0x18, 0x18, 0x70, 0x18, 0x18, 0x0E, 0x00],
     [0x18, 0x18, 0x18, 0x18, 0x18, 0x18, 0x18, 0x18],
     [0x70, 0x18, 0x18, 0x0E, 0x18, 0x18, 0x70, 0x00],
     [0x76, 0xDC, 0x00, 0x00, 0x00, 0x00, 0x00, 0x00]]"

definition glyph_bit :: "u8 list \<Rightarrow> nat \<Rightarrow> nat \<Rightarrow> bool" where
  "glyph_bit g row col = bit (g ! row) (7 - col)"

definition draw_glyph :: "u8 list \<Rightarrow> u32 \<Rightarrow> u32 \<Rightarrow> u32 \<Rightarrow> u8 \<Rightarrow> vga \<Rightarrow> vga" where
  "draw_glyph g x y color alpha s =
     foldl (\<lambda>s row. foldl (\<lambda>s col.
         if glyph_bit g row col then put_pixel_alpha (x + of_nat col) (y + of_nat row) color alpha s else s) s [0..<8])
       s [0..<8]"

text \<open>Characters are signed; those below 32 and 127 have no glyph in the font.\<close>

definition draw_char :: "u32 \<Rightarrow> u32 \<Rightarrow> char \<Rightarrow> u32 \<Rightarrow> u8 \<Rightarrow> vga \<Rightarrow> vga option" where
  "draw_char x y c color alpha s =
     (if 128 \<le> (of_char c :: nat) then Some s
      else if of_char c < (32 :: nat) \<or> of_char c - 32 \<ge> length font8x8_basic then None
      else Some (draw_glyph (font8x8_basic ! (of_char c - 32)) x y color alpha s))"


section \<open>Pixels as cells\<close>

text \<open>
  A framebuffer of 32 bits per pixel that lies in memory as a whole, and its pixels.
\<close>

definition screen_ok :: "vga \<Rightarrow> bool" where
  "screen_ok s \<longleftrightarrow> framebuffer s \<noteq> 0 \<and> screen_bpp s = 32 \<and> 4 * unat (screen_width s) \<le> unat (screen_pitch s)
     \<and> unat (framebuffer s) + unat (screen_height s) * unat (screen_pitch s) \<le> 2 ^ 32"

definition on_screen :: "vga \<Rightarrow> nat \<Rightarrow> nat \<Rightarrow> bool" where
  "on_screen s x y \<longleftrightarrow> x < unat (screen_width s) \<and> y < unat (screen_height s)"

definition raw :: "vga \<Rightarrow> nat \<Rightarrow> nat \<Rightarrow> u32" where
  "raw s x y = read32 (vmem s) (pixel_addr (of_nat x) (of_nat y) s)"

definition in_framebuffer :: "vga \<Rightarrow> u32 \<Rightarrow> bool" where
  "in_framebuffer s a \<longleftrightarrow> in_rg a (framebuffer s) (unat (screen_height s) * unat (screen_pitch s))"

text \<open>From \<open>s\<close> to \<open>s'\<close> only the framebuffer changes, and then its pixels are \<open>f\<close>.\<close>

definition painted :: "vga \<Rightarrow> vga \<Rightarrow> (nat \<Rightarrow> nat \<Rightarrow> u32) \<Rightarrow> bool" where
  "painted s s' f \<longleftrightarrow> s' = s\<lparr>vmem := vmem s'\<rparr> \<and> (\<forall>a. \<not> in_framebuffer s a \<longrightarrow> vmem s' a = vmem s a)
     \<and> (\<forall>x y. on_screen s x y \<longrightarrow> raw s' x y = f x y)"

lemma painted_same:
  assumes "painted s s' f"
  shows "framebuffer s' = framebuffer s" "screen_width s' = screen_width s" "screen_height s' = screen_height s"
    "screen_pitch s' = screen_pitch s" "screen_bpp s' = screen_bpp s" "screen_ok s' = screen_ok s" "on_screen s' = on_screen s"
    "in_framebuffer s' = in_framebuffer s"
proof -
  obtain m where "s' = s\<lparr>vmem := m\<rparr>" using assms unfolding painted_def by blast
  then show "framebuffer s' = framebuffer s" "screen_width s' = screen_width s" "screen_height s' = screen_height s"
    "screen_pitch s' = screen_pitch s" "screen_bpp s' = screen_bpp s" "screen_ok s' = screen_ok s" "on_screen s' = on_screen s"
    "in_framebuffer s' = in_framebuffer s"
    by (simp_all add: screen_ok_def on_screen_def in_framebuffer_def fun_eq_iff)
qed

lemma painted_refl: "painted s s (raw s)"
  by (simp add: painted_def)

lemma painted_cong: "painted s s' f \<Longrightarrow> (\<And>x y. on_screen s x y \<Longrightarrow> f x y = g x y) \<Longrightarrow> painted s s' g"
  by (simp add: painted_def)

lemma painted_trans:
  assumes "painted s s1 f" and "painted s1 s2 g"
  shows "painted s s2 g"
proof -
  have "s2 = s1\<lparr>vmem := vmem s2\<rparr>" "s1 = s\<lparr>vmem := vmem s1\<rparr>" using assms unfolding painted_def by blast+
  then have "s2 = s\<lparr>vmem := vmem s2\<rparr>" by (metis vga.surjective vga.update_convs(1))
  then show ?thesis using assms painted_same [OF assms(1)] by (simp add: painted_def)
qed

lemma raw_of_painted: "painted s s' f \<Longrightarrow> on_screen s x y \<Longrightarrow> raw s' x y = f x y"
  by (simp add: painted_def)

lemma pixel_addr_unat:
  assumes "screen_ok s" and "on_screen s x y"
  shows "unat (pixel_addr (of_nat x) (of_nat y) s) = unat (framebuffer s) + (y * unat (screen_pitch s) + 4 * x)"
    and "y * unat (screen_pitch s) + 4 * x + 4 \<le> unat (screen_height s) * unat (screen_pitch s)"
proof -
  let ?p = "unat (screen_pitch s)" and ?h = "unat (screen_height s)" and ?w = "unat (screen_width s)"
  have xy: "x < ?w" "y < ?h" using assms(2) by (simp_all add: on_screen_def)
  have "Suc y * ?p \<le> ?h * ?p" using xy(2) by (intro mult_le_mono1) simp
  moreover have "4 * x + 4 \<le> ?p" using xy(1) assms(1) by (simp add: screen_ok_def)
  ultimately show le: "y * ?p + 4 * x + 4 \<le> ?h * ?p" by simp
  have lim: "unat (framebuffer s) + ?h * ?p \<le> 2 ^ 32" using assms(1) by (simp add: screen_ok_def)
  have u: "unat (of_nat x :: u32) = x" "unat (of_nat y :: u32) = y"
    using xy unat_less_lit [of "screen_width s"] unat_less_lit [of "screen_height s"] by (simp_all add: unat_of_nat)
  have m: "unat (of_nat y * screen_pitch s) = y * ?p" "unat (of_nat x * 4 :: u32) = 4 * x"
    using le lim u by (subst unat_mult_no_wrap; simp)+
  have a: "pixel_addr (of_nat x) (of_nat y) s = framebuffer s + of_nat y * screen_pitch s + of_nat x * 4"
    using assms(1) by (simp add: pixel_addr_def screen_ok_def)
  have f: "unat (framebuffer s + of_nat y * screen_pitch s) = unat (framebuffer s) + y * ?p"
    using le lim m(1) by (subst unat_add_no_wrap) simp_all
  show "unat (pixel_addr (of_nat x) (of_nat y) s) = unat (framebuffer s) + (y * ?p + 4 * x)"
    unfolding a using le lim m(2) f by (subst unat_add_no_wrap) simp_all
qed

lemma pixels_apart:
  assumes "screen_ok s" and "on_screen s x y" and "on_screen s x' y'" and "(x, y) \<noteq> (x', y')"
    and "in_rg a (pixel_addr (of_nat x) (of_nat y) s) 4"
  shows "\<not> in_rg a (pixel_addr (of_nat x') (of_nat y') s) 4"
proof -
  let ?p = "unat (screen_pitch s)"
  note A = pixel_addr_unat [OF assms(1,2)] and B = pixel_addr_unat [OF assms(1,3)]
  have lim: "unat (framebuffer s) + unat (screen_height s) * ?p \<le> 2 ^ 32" using assms(1) by (simp add: screen_ok_def)
  have w: "4 * x + 4 \<le> ?p" "4 * x' + 4 \<le> ?p" using assms(1-3) by (auto simp: screen_ok_def on_screen_def)
  have "y * ?p + 4 * x + 4 \<le> y' * ?p + 4 * x' \<or> y' * ?p + 4 * x' + 4 \<le> y * ?p + 4 * x"
  proof (cases y y' rule: linorder_cases)
    case less
    then have "Suc y * ?p \<le> y' * ?p" by (intro mult_le_mono1) simp
    then show ?thesis using w by simp
  next
    case equal
    then show ?thesis using assms(4) by auto
  next
    case greater
    then have "Suc y' * ?p \<le> y * ?p" by (intro mult_le_mono1) simp
    then show ?thesis using w by simp
  qed
  moreover have "unat (pixel_addr (of_nat x) (of_nat y) s) + 4 \<le> 2 ^ 32" "unat (pixel_addr (of_nat x') (of_nat y') s) + 4 \<le> 2 ^ 32"
    using A B lim by linarith+
  ultimately show ?thesis using assms(5) A(1) B(1) by (auto simp: in_rg_linear)
qed

text \<open>A write to a pixel, as a word.\<close>

lemma painted_pixel:
  assumes "screen_ok s" and "on_screen s x y"
  shows "painted s (s\<lparr>vmem := write32 (vmem s) (pixel_addr (of_nat x) (of_nat y) s) v\<rparr>)
    (\<lambda>x' y'. if x' = x \<and> y' = y then v else raw s x' y')"
proof -
  let ?a = "pixel_addr (of_nat x) (of_nat y) s"
  let ?s = "s\<lparr>vmem := write32 (vmem s) ?a v\<rparr>"
  note A = pixel_addr_unat [OF assms]
  have lim: "unat (framebuffer s) + unat (screen_height s) * unat (screen_pitch s) \<le> 2 ^ 32"
    using assms(1) by (simp add: screen_ok_def)
  have inside: "in_framebuffer s b" if "in_rg b ?a 4" for b
  proof -
    have "unat ?a + 4 \<le> 2 ^ 32" using A lim by linarith
    then show ?thesis using that A lim by (simp add: in_framebuffer_def in_rg_linear)
  qed
  have same: "pixel_addr x' y' ?s = pixel_addr x' y' s" for x' y' by (simp add: pixel_addr_def)
  have "raw ?s x' y' = raw s x' y'" if "on_screen s x' y'" "(x', y') \<noteq> (x, y)" for x' y'
    unfolding raw_def same using pixels_apart [OF assms(1) that(1) assms(2) that(2)]
    by (simp, intro read32_cong write32_other) blast
  moreover have "raw ?s x y = v" unfolding raw_def same by simp
  moreover have "write32 (vmem s) ?a v b = vmem s b" if "\<not> in_framebuffer s b" for b
    using inside that write32_other by blast
  ultimately show ?thesis by (auto simp: painted_def)
qed

lemma painted_put_pixel:
  assumes "screen_ok s" and "on_screen s x y"
  shows "painted s (put_pixel (of_nat x) (of_nat y) v s) (\<lambda>x' y'. if x' = x \<and> y' = y then v else raw s x' y')"
proof -
  have "unat (of_nat x :: u32) = x" "unat (of_nat y :: u32) = y"
    using assms(2) unat_less_lit [of "screen_width s"] unat_less_lit [of "screen_height s"]
    by (simp_all add: unat_of_nat on_screen_def)
  then have "put_pixel (of_nat x) (of_nat y) v s = s\<lparr>vmem := write32 (vmem s) (pixel_addr (of_nat x) (of_nat y) s) v\<rparr>"
    using assms by (simp add: put_pixel_def screen_ok_def on_screen_def word_le_nat_alt write32_def Let_def)
  then show ?thesis using painted_pixel [OF assms] by simp
qed

lemma get_pixel_raw: "screen_ok s \<Longrightarrow> on_screen s x y \<Longrightarrow> get_pixel (of_nat x) (of_nat y) s = raw s x y AND 0xFFFFFF"
  using unat_less_lit [of "screen_width s"] unat_less_lit [of "screen_height s"]
  by (simp add: get_pixel_def raw_def screen_ok_def on_screen_def word_le_nat_alt unat_of_nat)

text \<open>Many pixels of one colour; what is off the screen is not drawn.\<close>

lemma put_pixel_off: "\<not> on_screen s (unat x) (unat y) \<Longrightarrow> put_pixel x y v s = s"
  by (auto simp: put_pixel_def on_screen_def word_le_nat_alt)

lemma painted_put_all:
  assumes "screen_ok s"
  shows "painted s (put_all ps v 255 s) (\<lambda>x y. if (of_nat x, of_nat y) \<in> set ps then v else raw s x y)"
  using assms
proof (induction ps arbitrary: s)
  case Nil
  then show ?case by (simp add: put_all_def painted_refl)
next
  case (Cons p ps)
  obtain x y where p: "p = (x, y)" by (cases p)
  let ?s = "put_pixel x y v s"
  have one: "painted s ?s (\<lambda>x' y'. if (of_nat x', of_nat y') = p then v else raw s x' y')"
  proof (cases "on_screen s (unat x) (unat y)")
    case True
    have eq: "(x' = unat x \<and> y' = unat y) = ((of_nat x', of_nat y') = p)" if "on_screen s x' y'" for x' y'
      using that unat_less_lit [of "screen_width s"] unat_less_lit [of "screen_height s"]
      by (auto simp: p on_screen_def unat_of_nat)
    have "painted s ?s (\<lambda>x' y'. if x' = unat x \<and> y' = unat y then v else raw s x' y')"
      using painted_put_pixel [OF Cons.prems True, of v] by (simp only: of_nat_unat ucast_id)
    then show ?thesis by (rule painted_cong) (simp only: eq)
  next
    case False
    have ne: "(of_nat x', of_nat y') \<noteq> p" if "on_screen s x' y'" for x' y'
      using that False unat_less_lit [of "screen_width s"] unat_less_lit [of "screen_height s"]
      by (auto simp: p on_screen_def unat_of_nat)
    show ?thesis unfolding put_pixel_off [OF False] using painted_refl by (rule painted_cong) (simp add: ne)
  qed
  have "painted ?s (put_all ps v 255 ?s) (\<lambda>x y. if (of_nat x, of_nat y) \<in> set ps then v else raw ?s x y)"
    by (rule Cons.IH) (simp add: painted_same [OF one] Cons.prems)
  then have "painted s (put_all ps v 255 ?s) (\<lambda>x y. if (of_nat x, of_nat y) \<in> set ps then v else raw ?s x y)"
    by (rule painted_trans [OF one])
  then have "painted s (put_all ps v 255 ?s) (\<lambda>x y. if (of_nat x, of_nat y) \<in> set (p # ps) then v else raw s x y)"
    by (rule painted_cong) (simp add: raw_of_painted [OF one])
  then show ?case by (simp add: put_all_def put_pixel_alpha_def p)
qed


section \<open>Glyphs\<close>

lemma foldl_nested: "foldl (\<lambda>s r. foldl g s (h r)) s rs = foldl g s (concat (map h rs))"
  by (induction rs arbitrary: s) simp_all

lemma foldl_guard: "foldl (\<lambda>s c. if P c then f s c else s) s cs = foldl f s (filter P cs)"
  by (induction cs arbitrary: s) simp_all

definition glyph_points :: "u8 list \<Rightarrow> u32 \<Rightarrow> u32 \<Rightarrow> (u32 \<times> u32) list" where
  "glyph_points g x y =
     concat (map (\<lambda>row. map (\<lambda>col. (x + of_nat col, y + of_nat row)) (filter (glyph_bit g row) [0..<8])) [0..<8])"

lemma draw_glyph_points: "draw_glyph g x y v alpha s = put_all (glyph_points g x y) v alpha s"
proof -
  have "foldl (\<lambda>s col. if glyph_bit g row col then put_pixel_alpha (x + of_nat col) (y + of_nat row) v alpha s else s) s [0..<8]
    = foldl (\<lambda>s p. put_pixel_alpha (fst p) (snd p) v alpha s) s
        (map (\<lambda>col. (x + of_nat col, y + of_nat row)) (filter (glyph_bit g row) [0..<8]))" for row s
    by (simp add: foldl_guard foldl_map)
  then show ?thesis unfolding draw_glyph_def put_all_def glyph_points_def by (simp only: foldl_nested)
qed

lemma in_glyph_points:
  assumes "x0 + 8 \<le> 2 ^ 32" and "y0 + 8 \<le> 2 ^ 32" and "x < 2 ^ 32" and "y < 2 ^ 32"
  shows "(of_nat x, of_nat y) \<in> set (glyph_points g (of_nat x0) (of_nat y0)) \<longleftrightarrow>
    x0 \<le> x \<and> x < x0 + 8 \<and> y0 \<le> y \<and> y < y0 + 8 \<and> glyph_bit g (y - y0) (x - x0)"
proof -
  have eq: "(of_nat z = (of_nat z0 + of_nat k :: u32)) = (z = z0 + k)" if "k < 8" "z0 + 8 \<le> 2 ^ 32" "z < 2 ^ 32" for z z0 k
  proof -
    have "unat (of_nat z :: u32) = z" "unat (of_nat z0 + of_nat k :: u32) = z0 + k"
      using that by (simp_all add: unat_of_nat flip: of_nat_add)
    then show ?thesis by (metis of_nat_add)
  qed
  have "(of_nat x, of_nat y) \<in> set (glyph_points g (of_nat x0) (of_nat y0)) \<longleftrightarrow>
      (\<exists>row < 8. \<exists>col < 8. glyph_bit g row col \<and> of_nat x = (of_nat x0 + of_nat col :: u32) \<and> of_nat y = (of_nat y0 + of_nat row :: u32))"
    by (auto simp: glyph_points_def)
  also have "\<dots> \<longleftrightarrow> (\<exists>row < 8. \<exists>col < 8. glyph_bit g row col \<and> x = x0 + col \<and> y = y0 + row)"
    using eq [OF _ assms(1,3)] eq [OF _ assms(2,4)] by (metis (no_types, lifting))
  also have "\<dots> \<longleftrightarrow> x0 \<le> x \<and> x < x0 + 8 \<and> y0 \<le> y \<and> y < y0 + 8 \<and> glyph_bit g (y - y0) (x - x0)"
  proof
    assume r: "x0 \<le> x \<and> x < x0 + 8 \<and> y0 \<le> y \<and> y < y0 + 8 \<and> glyph_bit g (y - y0) (x - x0)"
    show "\<exists>row < 8. \<exists>col < 8. glyph_bit g row col \<and> x = x0 + col \<and> y = y0 + row"
      using r by (intro exI [of _ "y - y0"] conjI exI [of _ "x - x0"]) auto
  qed auto
  finally show ?thesis .
qed

definition glyph_of :: "char \<Rightarrow> u8 list" where
  "glyph_of c = font8x8_basic ! (of_char c - 32)"

definition printable :: "char \<Rightarrow> bool" where
  "printable c \<longleftrightarrow> 32 \<le> (of_char c :: nat) \<and> (of_char c :: nat) < 127"

lemma length_font: "length font8x8_basic = 95"
  by (simp add: font8x8_basic_def)

lemma draw_char_glyph:
  assumes "screen_ok s" and "printable c" and "x0 + 8 \<le> 2 ^ 32" and "y0 + 8 \<le> 2 ^ 32"
  shows "\<exists>s'. draw_char (of_nat x0) (of_nat y0) c v 255 s = Some s' \<and> painted s s'
    (\<lambda>x y. if x0 \<le> x \<and> x < x0 + 8 \<and> y0 \<le> y \<and> y < y0 + 8 \<and> glyph_bit (glyph_of c) (y - y0) (x - x0) then v else raw s x y)"
proof -
  have d: "draw_char (of_nat x0) (of_nat y0) c v 255 s = Some (put_all (glyph_points (glyph_of c) (of_nat x0) (of_nat y0)) v 255 s)"
    using assms(2) by (auto simp: draw_char_def printable_def length_font glyph_of_def draw_glyph_points)
  have "painted s (put_all (glyph_points (glyph_of c) (of_nat x0) (of_nat y0)) v 255 s)
    (\<lambda>x y. if x0 \<le> x \<and> x < x0 + 8 \<and> y0 \<le> y \<and> y < y0 + 8 \<and> glyph_bit (glyph_of c) (y - y0) (x - x0) then v else raw s x y)"
    using painted_put_all [OF assms(1)]
  proof (rule painted_cong)
    fix x y assume o: "on_screen s x y"
    have "x < 2 ^ 32" "y < 2 ^ 32"
      using o unat_less_lit [of "screen_width s"] unat_less_lit [of "screen_height s"] by (simp_all add: on_screen_def)
    note m = in_glyph_points [OF assms(3,4) this, of "glyph_of c"]
    show "(if (of_nat x, of_nat y) \<in> set (glyph_points (glyph_of c) (of_nat x0) (of_nat y0)) then v else raw s x y)
      = (if x0 \<le> x \<and> x < x0 + 8 \<and> y0 \<le> y \<and> y < y0 + 8 \<and> glyph_bit (glyph_of c) (y - y0) (x - x0) then v else raw s x y)"
      unfolding m ..
  qed
  then show ?thesis using d by blast
qed

section \<open>Lines\<close>

definition neighbours :: "u32 \<times> u32 \<Rightarrow> u32 \<times> u32 \<Rightarrow> bool" where
  "neighbours p q \<longleftrightarrow> fst q - fst p \<in> {- 1, 0, 1} \<and> snd q - snd p \<in> {- 1, 0, 1} \<and> p \<noteq> q"

lemma ok32_some: "\<bar>v\<bar> < 2 ^ 31 \<Longrightarrow> ok32 v = Some v"
  by (auto simp: ok32_def)

lemma line_loop_runs:
  fixes D E k l err :: int
  assumes "0 \<le> k" "k \<le> D" "0 \<le> l" "l \<le> E" "D < 2 ^ 28" "E < 2 ^ 28"
    and "err = D - E - k * E + l * D" "\<bar>err\<bar> \<le> 2 * (D + E)"
    and "sx = 1 \<or> sx = - 1" "sy = 1 \<or> sy = - 1" "x = xe - sx * (D - k)" "y = ye - sy * (E - l)"
    and "0 \<le> xe" "xe < 2 ^ 28" "0 \<le> ye" "ye < 2 ^ 28" "0 \<le> xe - sx * D" "xe - sx * D < 2 ^ 28" "0 \<le> ye - sy * E" "ye - sy * E < 2 ^ 28"
  shows "\<exists>ps. line_loop xe ye D (- E) sx sy v alpha x y err s = Some (put_all ps v alpha s) \<and> ps \<noteq> []
    \<and> hd ps = (of_int x, of_int y) \<and> last ps = (of_int xe, of_int ye) \<and> successively neighbours ps
    \<and> int (length ps) \<le> D - k + (E - l) + 1"
  using assms
proof (induction "nat (D - k + (E - l))" arbitrary: k l err x y s rule: less_induct)
  case less
  note k = less.prems(1,2) and l = less.prems(3,4) and err = less.prems(7)
  let ?s = "put_pixel_alpha (of_int x) (of_int y) v alpha s"
  show ?case
  proof (cases "k = D \<and> l = E")
    case True
    then have "x = xe" "y = ye" using less.prems(11,12) by simp_all
    then have "line_loop xe ye D (- E) sx sy v alpha x y err s = Some (put_all [(of_int x, of_int y)] v alpha s)"
      by (subst line_loop.simps) (simp add: Let_def put_all_def)
    then show ?thesis using \<open>x = xe\<close> \<open>y = ye\<close> k l by (intro exI [of _ "[(of_int x, of_int y)]"]) simp
  next
    case False
    have ne: "\<not> (x = xe \<and> y = ye)" using False less.prems(9-12) by auto
    define cx where "cx \<longleftrightarrow> - E \<le> 2 * err"
    define cy where "cy \<longleftrightarrow> 2 * err \<le> D"
    have kD: "k < D" if cx
    proof (rule ccontr)
      assume "\<not> k < D"
      then have e: "k = D" "l < E" using k l False by auto
      then have "(l + 1) * D \<le> E * D" using k by (intro mult_right_mono) auto
      then have "err \<le> - E" using err e(1) by (simp add: algebra_simps)
      then show False using that e(2) l by (simp add: cx_def)
    qed
    have lE: "l < E" if cy
    proof (rule ccontr)
      assume "\<not> l < E"
      then have e: "l = E" "k < D" using k l False by auto
      then have "(k + 1) * E \<le> D * E" using l by (intro mult_right_mono) auto
      then have "D \<le> err" using err e(1) by (simp add: algebra_simps)
      then show False using that e(2) k by (simp add: cy_def)
    qed
    have some: "cx \<or> cy" using k l by (auto simp: cx_def cy_def)
    define k' where "k' = (if cx then k + 1 else k)"
    define l' where "l' = (if cy then l + 1 else l)"
    define err' where "err' = D - E - k' * E + l' * D"
    define x' where "x' = (if cx then x + sx else x)"
    define y' where "y' = (if cy then y + sy else y)"
    have kl: "0 \<le> k'" "k' \<le> D" "0 \<le> l'" "l' \<le> E" using k l kD lE by (auto simp: k'_def l'_def)
    have e': "err' = err + (if cx then - E else 0) + (if cy then D else 0)"
      using err by (auto simp: err'_def k'_def l'_def algebra_simps)
    have b: "\<bar>err'\<bar> \<le> 2 * (D + E)" "\<bar>err + (if cx then - E else 0)\<bar> < 2 ^ 31"
      using less.prems(5,6,8) some e' k l by (auto simp: cx_def cy_def split: if_splits)
    have xy: "x' = xe - sx * (D - k')" "y' = ye - sy * (E - l')"
      using less.prems(11,12) by (auto simp: x'_def k'_def y'_def l'_def algebra_simps)
    have inx: "0 \<le> x'" "x' < 2 ^ 28" "0 \<le> y'" "y' < 2 ^ 28"
      using xy kl less.prems(9,10,13-20) by (auto simp: algebra_simps)
    have step: "line_loop xe ye D (- E) sx sy v alpha x y err s = line_loop xe ye D (- E) sx sy v alpha x' y' err' ?s"
    proof -
      have o: "ok32 (2 * err) = Some (2 * err)" using less.prems(5,6,8) by (intro ok32_some) simp
      have ox: "ok32 (err - E) = Some (err - E)" if cx using b(2) that by (intro ok32_some) simp
      have oy: "ok32 (err + (if cx then - E else 0) + D) = Some err'" if cy
        using b(1) e' that less.prems(5,6) by (subst ok32_some) auto
      have px: "ok32 (x + sx) = Some x'" if cx using inx(1,2) that by (subst ok32_some) (auto simp: x'_def)
      have py: "ok32 (y + sy) = Some y'" if cy using inx(3,4) that by (subst ok32_some) (auto simp: y'_def)
      have A: "(if - E \<le> 2 * err then do { e \<leftarrow> ok32 (err + - E); x' \<leftarrow> ok32 (x + sx); Some (e, x') } else Some (err, x))
          = Some (err + (if cx then - E else 0), x')"
        using ox px by (auto simp: cx_def x'_def)
      have B: "(if 2 * err \<le> D then do { e \<leftarrow> ok32 (err + (if cx then - E else 0) + D); y' \<leftarrow> ok32 (y + sy); Some (e, y') }
          else Some (err + (if cx then - E else 0), y)) = Some (err', y')"
        using oy py e' by (auto simp: cy_def y'_def)
      show ?thesis
        by (subst line_loop.simps) (simp only: Let_def ne if_False o bind.bind_lunit A B prod.case)
    qed
    have m: "nat (D - k' + (E - l')) < nat (D - k + (E - l))" using some kl k l by (auto simp: k'_def l'_def)
    obtain ps where ps: "line_loop xe ye D (- E) sx sy v alpha x' y' err' ?s = Some (put_all ps v alpha ?s)" "ps \<noteq> []"
        "hd ps = (of_int x', of_int y')" "last ps = (of_int xe, of_int ye)" "successively neighbours ps"
        "int (length ps) \<le> D - k' + (E - l') + 1"
      using less.hyps [OF m kl less.prems(5,6) err'_def b(1) less.prems(9,10) xy less.prems(13-20)] by blast
    have nb: "neighbours (of_int x, of_int y) (hd ps)"
      using some less.prems(9,10) by (auto simp: ps(3) neighbours_def x'_def y'_def)
    have "line_loop xe ye D (- E) sx sy v alpha x y err s = Some (put_all ((of_int x, of_int y) # ps) v alpha s)"
      using step ps(1) by (simp add: put_all_def)
    moreover have "successively neighbours ((of_int x, of_int y) # ps)" using nb ps(2,5) by (cases ps) auto
    ultimately show ?thesis
      using ps some kl k l by (intro exI [of _ "(of_int x, of_int y) # ps"]) (auto simp: k'_def l'_def split: if_splits)
  qed
qed


lemma sint_of_small:
  assumes "\<bar>z\<bar> < 2 ^ 28"
  shows "sint (of_int z :: u32) = z"
proof -
  have "signed_take_bit 31 z = z" using assms by (intro signed_take_bit_int_eq_self) auto
  then show ?thesis by (subst signed_of_int) simp
qed

lemma int_unat_below: "unat z < 2 ^ 28 \<Longrightarrow> int (unat z) < 2 ^ 28"
  by (simp only: of_nat_less_numeral_power_cancel_iff)

lemma sint_small: "unat (w :: u32) < 2 ^ 28 \<Longrightarrow> sint w = int (unat w)"
  using sint_of_small [of "int (unat w)"] int_unat_below [of w] by simp

text \<open>
  C37: for end points with coordinates below \<open>2 ^ 28\<close> drawing a line always ends, without an overflow of
  its error term: it draws a path from the first point to the second whose points are neighbours,
  of at most as many steps as the two distances together, whether the points are on the screen or not.
\<close>

theorem draw_line_connects:
  assumes "unat x0 < 2 ^ 28" and "unat y0 < 2 ^ 28" and "unat x1 < 2 ^ 28" and "unat y1 < 2 ^ 28"
  shows "\<exists>ps. draw_line x0 y0 x1 y1 v alpha s = Some (put_all ps v alpha s) \<and> ps \<noteq> []
    \<and> hd ps = (x0, y0) \<and> last ps = (x1, y1) \<and> successively neighbours ps
    \<and> int (length ps) \<le> \<bar>int (unat x1) - int (unat x0)\<bar> + \<bar>int (unat y1) - int (unat y0)\<bar> + 1"
proof -
  define a b c d where "a = int (unat x0)" and "b = int (unat y0)" and "c = int (unat x1)" and "d = int (unat y1)"
  have si: "sint x0 = a" "sint y0 = b" "sint x1 = c" "sint y1 = d"
    using assms by (simp_all only: a_def b_def c_def d_def sint_small)
  have up: "a < 2 ^ 28" "b < 2 ^ 28" "c < 2 ^ 28" "d < 2 ^ 28" "0 \<le> a" "0 \<le> b" "0 \<le> c" "0 \<le> d"
    using assms by (simp_all only: a_def b_def c_def d_def int_unat_below of_nat_0_le_iff)
  have w: "x0 = of_int a" "y0 = of_int b" "x1 = of_int c" "y1 = of_int d" by (simp_all add: a_def b_def c_def d_def)
  have lt: "x0 < x1 \<longleftrightarrow> a < c" "y0 < y1 \<longleftrightarrow> b < d" by (simp_all only: a_def b_def c_def d_def word_less_nat_alt of_nat_less_iff)
  let ?sx = "if a < c then 1 else - 1 :: int" and ?sy = "if b < d then 1 else - 1 :: int"
  have e: "\<bar>c - a\<bar> < 2 ^ 28" "\<bar>d - b\<bar> < 2 ^ 28" using up by (simp_all add: abs_less_iff)
  have o: "ok32 (c - a) = Some (c - a)" "ok32 (d - b) = Some (d - b)" using e by (simp_all add: ok32_some)
  have ab: "abs_c (of_int z) = of_int \<bar>z\<bar>" if "\<bar>z\<bar> < 2 ^ 28" for z
    using sint_of_small [OF that] by (simp add: abs_c_def)
  have dx: "sint (abs_c (of_int (c - a))) = \<bar>c - a\<bar>"
    unfolding ab [OF e(1)] by (rule sint_of_small) (use e(1) in simp)
  have dy: "sint (- abs_c (of_int (d - b))) = - \<bar>d - b\<bar>"
    unfolding ab [OF e(2)] of_int_minus [symmetric] by (rule sint_of_small) (use e(2) in simp)
  have oe: "ok32 (\<bar>c - a\<bar> + - \<bar>d - b\<bar>) = Some (\<bar>c - a\<bar> - \<bar>d - b\<bar>)" using e by (subst ok32_some) auto
  have sD: "?sx * \<bar>c - a\<bar> = c - a" "?sy * \<bar>d - b\<bar> = d - b" by simp_all
  have bb: "\<bar>\<bar>c - a\<bar> - \<bar>d - b\<bar>\<bar> \<le> 2 * \<bar>c - a\<bar> + 2 * \<bar>d - b\<bar>"
  proof -
    have "\<bar>p - q\<bar> \<le> 2 * p + 2 * q" if "0 \<le> p" "0 \<le> q" for p q :: int using that by simp
    then show ?thesis by (metis abs_ge_zero)
  qed
  have run: "draw_line x0 y0 x1 y1 v alpha s
    = line_loop c d \<bar>c - a\<bar> (- \<bar>d - b\<bar>) ?sx ?sy v alpha a b (\<bar>c - a\<bar> - \<bar>d - b\<bar>) s"
    unfolding draw_line_def si lt by (simp only: o dx dy oe Let_def bind.bind_lunit)
  have "\<exists>ps. line_loop c d \<bar>c - a\<bar> (- \<bar>d - b\<bar>) ?sx ?sy v alpha a b (\<bar>c - a\<bar> - \<bar>d - b\<bar>) s = Some (put_all ps v alpha s) \<and> ps \<noteq> []
    \<and> hd ps = (of_int a, of_int b) \<and> last ps = (of_int c, of_int d)
    \<and> successively neighbours ps \<and> int (length ps) \<le> \<bar>c - a\<bar> - 0 + (\<bar>d - b\<bar> - 0) + 1"
    by (rule line_loop_runs) (use up e bb sD in \<open>simp_all only: diff_0_right sD, simp_all\<close>)
  then show ?thesis unfolding run w [symmetric] by (simp only: a_def b_def c_def d_def diff_0_right)
qed

definition demo_screen :: vga where
  "demo_screen = \<lparr>vmem = (\<lambda>_. 0), framebuffer = 0x1000, fb_size = 4096, screen_width = 32, screen_height = 32,
     screen_pitch = 128, screen_bpp = 32, font_height = 8, font_width = 8, screen_col_num = 4, screen_row_num = 4,
     vga_mode = FRAMEBUFFER, col_num = 0, row_num = 0, curr_section = None, can_update_cursor = False, last_cursor = (0, 0),
     vgat_col = 0, vgat_row = 0, printingString = False, crt_writes = []\<rparr>"

theorem draw_line_connects_witness:
  "\<exists>ps. draw_line 3 9 7 2 0xFF 255 demo_screen = Some (put_all ps 0xFF 255 demo_screen)
    \<and> hd ps = (3, 9) \<and> last ps = (7, 2) \<and> length ps \<le> 12"
  using draw_line_connects [of 3 9 7 2 "0xFF" 255 demo_screen] by auto

text \<open>
  On a framebuffer of 32 bits per pixel that fits into memory, drawing a printable character changes
  exactly the pixels of its glyph that are on the screen, to the colour given, and no byte outside the
  framebuffer; reading the pixels back gives the glyph.
\<close>

lemma draw_char_is_glyph:
  assumes "screen_ok s" and "printable c" and "x0 + 8 \<le> 2 ^ 32" and "y0 + 8 \<le> 2 ^ 32"
  shows "\<exists>s'. draw_char (of_nat x0) (of_nat y0) c v 255 s = Some s'
    \<and> (\<forall>a. \<not> in_framebuffer s a \<longrightarrow> vmem s' a = vmem s a)
    \<and> (\<forall>x y. on_screen s x y \<longrightarrow> get_pixel (of_nat x) (of_nat y) s'
        = (if x0 \<le> x \<and> x < x0 + 8 \<and> y0 \<le> y \<and> y < y0 + 8 \<and> glyph_bit (font8x8_basic ! (of_char c - 32)) (y - y0) (x - x0)
           then v AND 0xFFFFFF else get_pixel (of_nat x) (of_nat y) s))"
proof -
  obtain s' where d: "draw_char (of_nat x0) (of_nat y0) c v 255 s = Some s'" and p: "painted s s'
    (\<lambda>x y. if x0 \<le> x \<and> x < x0 + 8 \<and> y0 \<le> y \<and> y < y0 + 8 \<and> glyph_bit (glyph_of c) (y - y0) (x - x0) then v else raw s x y)"
    using draw_char_glyph [OF assms] by blast
  have "get_pixel (of_nat x) (of_nat y) s' = raw s' x y AND 0xFFFFFF" "get_pixel (of_nat x) (of_nat y) s = raw s x y AND 0xFFFFFF"
    if "on_screen s x y" for x y
    using that assms(1) painted_same(6,7) [OF p] by (simp_all add: get_pixel_raw)
  moreover have "\<not> in_framebuffer s a \<Longrightarrow> vmem s' a = vmem s a" for a using p by (simp add: painted_def)
  ultimately show ?thesis using d by (intro exI [of _ s']) (simp add: raw_of_painted [OF p] glyph_of_def)
qed

lemma demo_screen_ok: "screen_ok demo_screen"
  by (simp add: screen_ok_def demo_screen_def)

lemma draw_char_is_glyph_witness:
  "\<exists>s'. draw_char 8 16 (CHR ''I'') 0xFF 255 demo_screen = Some s' \<and> get_pixel 9 16 s' = 0xFF \<and> get_pixel 8 16 s' = 0"
proof -
  have g: "font8x8_basic ! 41 = [0x7E, 0x18, 0x18, 0x18, 0x18, 0x18, 0x7E, 0x00]"
    unfolding font8x8_basic_def by (simp only: nth_Cons_numeral nth_Cons_0 diff_numeral_simps pred_numeral_simps) simp
  have o: "on_screen demo_screen 9 16" "on_screen demo_screen 8 16" by (simp_all add: on_screen_def demo_screen_def)
  have z: "get_pixel 8 16 demo_screen = 0" by (simp add: get_pixel_def demo_screen_def read32_def)
  have p: "printable (CHR ''I'')" by (simp add: printable_def)
  obtain s' where s: "draw_char (of_nat 8) (of_nat 16) (CHR ''I'') 0xFF 255 demo_screen = Some s'"
      "\<And>x y. on_screen demo_screen x y \<Longrightarrow> get_pixel (of_nat x) (of_nat y) s'
        = (if 8 \<le> x \<and> x < 8 + 8 \<and> 16 \<le> y \<and> y < 16 + 8 \<and> glyph_bit (font8x8_basic ! (of_char (CHR ''I'') - 32)) (y - 16) (x - 8)
           then 0xFF AND 0xFFFFFF else get_pixel (of_nat x) (of_nat y) demo_screen)"
    using draw_char_is_glyph [OF demo_screen_ok p, of 8 16 "0xFF"] by auto
  show ?thesis
    using s(1) s(2) [OF o(1)] s(2) [OF o(2)] z by (simp add: g glyph_bit_def)
qed

end
