(* ===== verification/VgaPrint.thy ===== *)
theory VgaPrint
  imports Vga
begin

text \<open>
  \<open>src/kernel/graphics/vga_print.cpp\<close>, characters on the framebuffer: the text cursor, lines, scrolling,
  sections of the screen and single characters.  The loops address the framebuffer as an array of words.
  The sizes of the font, by which the code divides, are those of \<open>init_framebuffer\<close>.
\<close>

section \<open>The framebuffer as words\<close>

definition RGB_COLOR_BLACK :: u32 where "RGB_COLOR_BLACK = 0x000000"
definition RGB_COLOR_RED :: u32 where "RGB_COLOR_RED = 0xAA0000"
definition RGB_COLOR_LIGHT_GRAY :: u32 where "RGB_COLOR_LIGHT_GRAY = 0xAAAAAA"
definition RGB_COLOR_YELLOW :: u32 where "RGB_COLOR_YELLOW = 0xFFFF55"
definition RGB_COLOR_WHITE :: u32 where "RGB_COLOR_WHITE = 0xFFFFFF"

definition fb_read :: "u32 \<Rightarrow> vga \<Rightarrow> u32" where
  "fb_read i s = read32 (vmem s) (framebuffer s + 4 * i)"

definition fb_write :: "u32 \<Rightarrow> u32 \<Rightarrow> vga \<Rightarrow> vga" where
  "fb_write i v s = s\<lparr>vmem := write32 (vmem s) (framebuffer s + 4 * i) v\<rparr>"

definition fill :: "u32 list \<Rightarrow> u32 list \<Rightarrow> u32 \<Rightarrow> vga \<Rightarrow> vga" where
  "fill ys xs v s = foldl (\<lambda>s y. foldl (\<lambda>s x. fb_write (y * screen_width s + x) v s) s xs) s ys"

definition copy_up :: "u32 list \<Rightarrow> u32 list \<Rightarrow> vga \<Rightarrow> vga" where
  "copy_up ys xs s = foldl (\<lambda>s y. foldl (\<lambda>s x.
     fb_write ((y - ucast (font_height s)) * screen_width s + x) (fb_read (y * screen_width s + x) s) s) s xs) s ys"

section \<open>Sections and the cursor\<close>

definition vga_section_new :: "u32 \<Rightarrow> u32 \<Rightarrow> u32 \<Rightarrow> u32 \<Rightarrow> vga_section" where
  "vga_section_new x0 y0 x1 y1 = \<lparr>startX = x0, startY = y0, endX = x1, endY = y1, sect_col = 0, sect_row = 0\<rparr>"

definition create_section :: "u32 \<Rightarrow> u32 \<Rightarrow> u32 \<Rightarrow> u32 \<Rightarrow> vga \<Rightarrow> vga_section" where
  "create_section x0 y0 x1 y1 s =
     (if screen_height s < y1
      then let section_height = y1 - y0
           in if screen_height s < section_height then vga_section_new x0 0 x1 (screen_height s)
              else vga_section_new x0 (screen_height s - section_height) x1 (screen_height s)
      else vga_section_new x0 y0 x1 y1)"

definition create_section_at :: "u32 \<times> u32 \<Rightarrow> u32 \<times> u32 \<Rightarrow> vga \<Rightarrow> vga_section" where
  "create_section_at st en s =
     create_section (fst st * ucast (font_width s)) (snd st * ucast (font_height s))
       ((fst en + 1) * ucast (font_width s)) ((snd en + 1) * ucast (font_height s)) s"

definition set_cursor_updatability :: "bool \<Rightarrow> vga \<Rightarrow> vga" where
  "set_cursor_updatability b s = s\<lparr>can_update_cursor := b\<rparr>"

definition cursor_width :: u32 where "cursor_width = 2"

definition update_cursor :: "vga \<Rightarrow> vga" where
  "update_cursor s =
     (if curr_section s \<noteq> None then s
      else let x = col_num s * ucast (font_width s); y = row_num s * ucast (font_height s);
               s1 = draw_rect_behind (fst (last_cursor s)) (snd (last_cursor s)) cursor_width (ucast (font_height s))
                      RGB_COLOR_BLACK RGB_COLOR_LIGHT_GRAY 255 s;
               s2 = s1\<lparr>last_cursor := (x, y)\<rparr>
           in draw_rect_behind x y cursor_width (ucast (font_height s)) RGB_COLOR_LIGHT_GRAY RGB_COLOR_BLACK 255 s2)"

section \<open>Lines\<close>

definition sect_rows :: "vga_section \<Rightarrow> vga \<Rightarrow> u32" where
  "sect_rows c s = (endY c - startY c) div ucast (font_height s)"

definition sect_cols :: "vga_section \<Rightarrow> vga \<Rightarrow> u32" where
  "sect_cols c s = (endX c - startX c) div ucast (font_width s)"

definition clear_row :: "u32 \<Rightarrow> vga \<Rightarrow> vga" where
  "clear_row row s =
     (let fh = ucast (font_height s) in
      case curr_section s of
        Some c \<Rightarrow>
          if sect_rows c s \<le> row then s
          else let y_start = startY c + row * fh; y_end = y_start + fh;
                   y_end = (if endY c < y_end then endY c else y_end)
               in fill (up y_start y_end) (up (startX c) (endX c)) 0 s
      | None \<Rightarrow>
          if screen_row_num s \<le> row then s
          else fill (up (row * fh) ((row + 1) * fh)) (up 0 (screen_width s)) 0 s)"

definition newline :: "vga \<Rightarrow> vga" where
  "newline s =
     (let fh = ucast (font_height s) in
      case curr_section s of
        Some c \<Rightarrow>
          let c1 = c\<lparr>sect_col := 0\<rparr>; max_rows = sect_rows c s
          in if sect_row c1 < max_rows - 1 then s\<lparr>curr_section := Some (c1\<lparr>sect_row := sect_row c1 + 1\<rparr>)\<rparr>
             else clear_row (max_rows - 1)
               (copy_up (up (startY c + fh) (endY c)) (up (startX c) (endX c)) (s\<lparr>curr_section := Some c1\<rparr>))
      | None \<Rightarrow>
          let s1 = s\<lparr>col_num := 0\<rparr>
          in if row_num s1 < screen_row_num s1 - 1 then s1\<lparr>row_num := row_num s1 + 1\<rparr>
             else clear_row (screen_row_num s1 - 1) (copy_up (up fh (screen_height s1)) (up 0 (screen_width s1)) s1))"

lemma unat_next_less: "(a :: u32) < b \<Longrightarrow> unat b - unat (a + 1) < unat b - unat a"
  using unat_less_lit [of b] by (simp add: word_less_nat_alt unat_add_no_wrap)

text \<open>
  The loop of \<open>clear_text_region\<close>: the origin and the limits of the area, its columns and rows, the
  characters left and the place of the next.
\<close>

function region_loop :: "u32 \<Rightarrow> u32 \<Rightarrow> u32 \<Rightarrow> u32 \<Rightarrow> u32 \<Rightarrow> u32 \<Rightarrow> u32 \<Rightarrow> u32 \<Rightarrow> u32 \<Rightarrow> vga \<Rightarrow> vga" where
  "region_loop ox oy lx ly max_cols max_rows remaining row col s =
     (if 0 < remaining \<and> row < max_rows
      then let on_row = (if remaining < max_cols - col then remaining else max_cols - col);
               x_start = ox + col * ucast (font_width s); x_end = x_start + on_row * ucast (font_width s);
               y_start = oy + row * ucast (font_height s); y_end = y_start + ucast (font_height s);
               x_end = (if lx < x_end then lx else x_end); y_end = (if ly < y_end then ly else y_end)
           in region_loop ox oy lx ly max_cols max_rows (remaining - on_row) (row + 1) 0
                (fill (up y_start y_end) (up x_start x_end) RGB_COLOR_BLACK s)
      else s)"
  by pat_completeness auto

termination
  by (relation "measure (\<lambda>(ox, oy, lx, ly, max_cols, max_rows, remaining, row, col, s). unat max_rows - unat row)")
    (simp_all add: unat_next_less)

declare region_loop.simps [simp del]

definition clear_text_region :: "u32 \<Rightarrow> u32 \<Rightarrow> u32 \<Rightarrow> vga \<Rightarrow> vga" where
  "clear_text_region col row n s =
     (case curr_section s of
        Some c \<Rightarrow>
          if sect_rows c s \<le> row \<or> sect_cols c s \<le> col then s
          else region_loop (startX c) (startY c) (endX c) (endY c) (sect_cols c s) (sect_rows c s) n row col s
      | None \<Rightarrow>
          if screen_row_num s \<le> row \<or> screen_col_num s \<le> col then s
          else region_loop 0 0 (screen_width s) (screen_height s) (screen_col_num s) (screen_row_num s) n row col s)"

definition backspace :: "vga \<Rightarrow> vga" where
  "backspace s =
     (case curr_section s of
        Some c \<Rightarrow>
          let c1 = (if sect_col c = 0
                    then (if 0 < sect_row c then c\<lparr>sect_col := sect_cols c s - 1, sect_row := sect_row c - 1\<rparr> else c)
                    else c\<lparr>sect_col := sect_col c - 1\<rparr>)
          in clear_text_region (sect_col c1) (sect_row c1) 1 (s\<lparr>curr_section := Some c1\<rparr>)
      | None \<Rightarrow>
          let s1 = (if sint (col_num s) - 1 < 0
                    then s\<lparr>col_num := screen_col_num s - 1, row_num := row_num s - 1\<rparr>
                    else s\<lparr>col_num := col_num s - 1\<rparr>);
              s2 = clear_text_region (col_num s1) (row_num s1) 1 s1
          in if can_update_cursor s2 then update_cursor s2 else s2)"

definition clear_screen :: "vga \<Rightarrow> vga" where
  "clear_screen s = (foldl (\<lambda>s i. fb_write i 0 s) s (up 0 (fb_size s div 4)))\<lparr>col_num := 0, row_num := 0\<rparr>"

section \<open>Characters and strings\<close>

definition newline_char :: char where "newline_char = char_of (10 :: nat)"

definition kputchar :: "u32 \<Rightarrow> char \<Rightarrow> vga \<Rightarrow> vga option" where
  "kputchar color c s =
     (let fw = ucast (font_width s); fh = ucast (font_height s) in
      if c = newline_char then Some (newline s)
      else case curr_section s of
        Some sc \<Rightarrow>
          let draw_x = startX sc + sect_col sc * fw; draw_y = startY sc + sect_row sc * fh
          in (case (if draw_x + fw \<le> endX sc \<and> draw_y + fh \<le> endY sc then draw_char draw_x draw_y c color 255 s else Some s) of
                None \<Rightarrow> None
              | Some s1 \<Rightarrow>
                  let sc1 = sc\<lparr>sect_col := sect_col sc + 1\<rparr>; s2 = s1\<lparr>curr_section := Some sc1\<rparr>
                  in Some (if endX sc1 - startX sc1 \<le> sect_col sc1 * fw + fw then newline s2 else s2))
      | None \<Rightarrow>
          (case draw_char (col_num s * fw) (row_num s * fh) c color 255 s of
             None \<Rightarrow> None
           | Some s1 \<Rightarrow>
               let s2 = s1\<lparr>col_num := col_num s1 + 1\<rparr>
               in Some (if screen_width s2 \<le> col_num s2 * fw + fw then newline s2 else s2)))"

fun kputs_loop :: "u32 \<Rightarrow> string \<Rightarrow> vga \<Rightarrow> vga option" where
  "kputs_loop color [] s = Some s"
| "kputs_loop color (c # cs) s =
     (if c = NUL then Some s else case kputchar color c s of None \<Rightarrow> None | Some s1 \<Rightarrow> kputs_loop color cs s1)"

definition kputs :: "u32 \<Rightarrow> string \<Rightarrow> vga \<Rightarrow> vga option" where
  "kputs color str s = kputs_loop color str s"


section \<open>The pixels of a console\<close>

lemma unat_of_nat_u32: "n < 2 ^ 32 \<Longrightarrow> unat (of_nat n :: u32) = n"
  by (simp add: unat_of_nat take_bit_nat_eq_self)

lemma unat_of_nat32: "8 * m < 2 ^ 32 \<Longrightarrow> n \<le> m \<Longrightarrow> unat (of_nat n :: u32) = n"
  by (simp add: unat_of_nat take_bit_nat_eq_self)

text \<open>A framebuffer without gaps between the lines, and a cursor inside it.\<close>

definition tight :: "vga \<Rightarrow> bool" where
  "tight s \<longleftrightarrow> screen_ok s \<and> screen_pitch s = 4 * screen_width s"

lemma tight_painted: "painted s s' f \<Longrightarrow> tight s' = tight s"
  using painted_same [of s s' f] by (simp add: tight_def)

lemma fb_addr:
  assumes "tight s"
  shows "framebuffer s + 4 * (of_nat y * screen_width s + of_nat x) = pixel_addr (of_nat x) (of_nat y) s"
proof -
  have "ucast (screen_bpp s div 8) = (4 :: u32)" "screen_pitch s = 4 * screen_width s" using assms by (simp_all add: tight_def screen_ok_def)
  then show ?thesis unfolding pixel_addr_def by (simp add: distrib_left mult.left_commute mult.commute)
qed

lemma painted_fb_write:
  assumes "tight s" and "on_screen s x y"
  shows "painted s (fb_write (of_nat y * screen_width s + of_nat x) v s) (\<lambda>x' y'. if x' = x \<and> y' = y then v else raw s x' y')"
  unfolding fb_write_def fb_addr [OF assms(1)] using assms by (intro painted_pixel) (simp_all add: tight_def)

lemma fb_read_raw: "tight s \<Longrightarrow> fb_read (of_nat y * screen_width s + of_nat x) s = raw s x y"
  by (simp only: fb_read_def raw_def fb_addr)

lemma painted_points:
  assumes "tight s" and "\<forall>(y, x) \<in> set ps. on_screen s x y"
  shows "painted s (foldl (\<lambda>s p. fb_write (of_nat (fst p) * screen_width s + of_nat (snd p)) v s) s ps)
    (\<lambda>x y. if (y, x) \<in> set ps then v else raw s x y)"
  using assms
proof (induction ps arbitrary: s)
  case Nil
  then show ?case by (simp add: painted_refl)
next
  case (Cons p ps)
  obtain y x where p: "p = (y, x)" by (cases p)
  let ?s = "fb_write (of_nat y * screen_width s + of_nat x) v s"
  have one: "painted s ?s (\<lambda>x' y'. if x' = x \<and> y' = y then v else raw s x' y')"
    using painted_fb_write [of s x y v] Cons.prems by (simp add: p)
  have "tight ?s" "\<forall>(y, x) \<in> set ps. on_screen ?s x y"
    using Cons.prems tight_painted [OF one] painted_same(7) [OF one] by auto
  from painted_trans [OF one Cons.IH [OF this]]
  show ?case unfolding foldl_Cons p fst_conv snd_conv
    by (rule painted_cong) (auto simp: raw_of_painted [OF one])
qed

lemma painted_fill:
  assumes "tight s" and "unat y1 \<le> unat (screen_height s)" and "unat x1 \<le> unat (screen_width s)"
  shows "painted s (fill (up y0 y1) (up x0 x1) v s)
    (\<lambda>x y. if unat y0 \<le> y \<and> y < unat y1 \<and> unat x0 \<le> x \<and> x < unat x1 then v else raw s x y)"
proof -
  let ?ps = "concat (map (\<lambda>y. map (\<lambda>x. (y, x)) [unat x0..<unat x1]) [unat y0..<unat y1])"
  have "fill (up y0 y1) (up x0 x1) v s = foldl (\<lambda>s p. fb_write (of_nat (fst p) * screen_width s + of_nat (snd p)) v s) s ?ps"
    unfolding fill_def up_def foldl_map
    by (subst foldl_nested [symmetric]) (simp add: foldl_map)
  moreover have "\<forall>(y, x) \<in> set ?ps. on_screen s x y" using assms by (auto simp: on_screen_def)
  moreover have "(y, x) \<in> set ?ps \<longleftrightarrow> unat y0 \<le> y \<and> y < unat y1 \<and> unat x0 \<le> x \<and> x < unat x1" for x y by (auto simp: image_iff)
  ultimately show ?thesis using painted_points [OF assms(1), of ?ps v] by simp
qed


text \<open>Scrolling copies every line of pixels 8 lines up.\<close>

definition copy_line :: "nat \<Rightarrow> nat \<Rightarrow> vga \<Rightarrow> vga" where
  "copy_line y n s = foldl (\<lambda>s x. fb_write ((of_nat y - 8) * screen_width s + of_nat x) (fb_read (of_nat y * screen_width s + of_nat x) s) s) s [0..<n]"

lemma painted_copy_line:
  assumes "tight s" and "8 \<le> y" and "y < unat (screen_height s)" and "n \<le> unat (screen_width s)"
  shows "painted s (copy_line y n s) (\<lambda>x y'. if y' = y - 8 \<and> x < n then raw s x y else raw s x y')"
  using assms(4)
proof (induction n)
  case 0
  then show ?case by (simp add: copy_line_def painted_refl)
next
  case (Suc n)
  let ?s = "copy_line y n s"
  have one: "painted s ?s (\<lambda>x y'. if y' = y - 8 \<and> x < n then raw s x y else raw s x y')" using Suc by simp
  have o: "on_screen s n (y - 8)" "on_screen s n y" using assms(2,3) Suc.prems by (simp_all add: on_screen_def)
  have c: "copy_line y (Suc n) s = fb_write (of_nat (y - 8) * screen_width ?s + of_nat n) (raw ?s n y) ?s"
    using fb_read_raw [of ?s y n] tight_painted [OF one] assms(1,2) by (simp add: copy_line_def of_nat_diff)
  have "painted ?s (copy_line y (Suc n) s) (\<lambda>x' y'. if x' = n \<and> y' = y - 8 then raw ?s n y else raw ?s x' y')"
    unfolding c using o tight_painted [OF one] assms(1) by (intro painted_fb_write) (simp_all add: painted_same(7) [OF one])
  from painted_trans [OF one this] show ?case
    by (rule painted_cong) (use o assms(2) in \<open>auto simp: raw_of_painted [OF one] less_Suc_eq\<close>)
qed

lemma painted_copy_lines:
  assumes "tight s" and "8 \<le> m" and "m \<le> unat (screen_height s)"
  shows "painted s (foldl (\<lambda>s y. copy_line y (unat (screen_width s)) s) s [8..<m])
    (\<lambda>x y. if y + 8 < m then raw s x (y + 8) else raw s x y)"
  using assms(2,3)
proof (induction m rule: dec_induct)
  case base
  then show ?case by (simp add: painted_refl)
next
  case (step m)
  let ?s = "foldl (\<lambda>s y. copy_line y (unat (screen_width s)) s) s [8..<m]"
  have one: "painted s ?s (\<lambda>x y. if y + 8 < m then raw s x (y + 8) else raw s x y)" using step by simp
  have ps: "painted ?s (copy_line m (unat (screen_width ?s)) ?s)
      (\<lambda>x y'. if y' = m - 8 \<and> x < unat (screen_width ?s) then raw ?s x m else raw ?s x y')"
    using step tight_painted [OF one] assms(1) painted_same(3) [OF one] by (intro painted_copy_line) simp_all
  have e: "foldl (\<lambda>s y. copy_line y (unat (screen_width s)) s) s [8..<Suc m] = copy_line m (unat (screen_width ?s)) ?s"
    using step(1) by simp
  show ?case unfolding e
  proof (rule painted_cong [OF painted_trans [OF one ps]])
    fix x y
    assume o: "on_screen s x y"
    have om: "on_screen s x m" using o step by (simp add: on_screen_def)
    have w: "x < unat (screen_width ?s)" using o painted_same(2) [OF one] by (simp add: on_screen_def)
    show "(if y = m - 8 \<and> x < unat (screen_width ?s) then raw ?s x m else raw ?s x y)
      = (if y + 8 < Suc m then raw s x (y + 8) else raw s x y)"
    proof (cases "y = m - 8")
      case True
      then show ?thesis using raw_of_painted [OF one om] w step(1) by simp
    next
      case False
      then have "y + 8 < Suc m \<longleftrightarrow> y + 8 < m" using step(1) by linarith
      then show ?thesis using False raw_of_painted [OF one o] by simp
    qed
  qed
qed

lemma copy_up_lines:
  assumes "tight s" and "font_height s = 8"
  shows "copy_up (up 8 (screen_height s)) (up 0 (screen_width s)) s
    = foldl (\<lambda>s y. copy_line y (unat (screen_width s)) s) s [8..<unat (screen_height s)]"
proof -
  have w: "screen_width (copy_line y n t) = screen_width t \<and> font_height (copy_line y n t) = font_height t" for y n t
    by (induction n) (simp_all add: copy_line_def fb_write_def)
  have "foldl (\<lambda>s y. foldl (\<lambda>s x. fb_write ((y - ucast (font_height s)) * screen_width s + x) (fb_read (y * screen_width s + x) s) s) s
        (up 0 (screen_width t))) u (map of_nat ys)
      = foldl (\<lambda>s y. copy_line y (unat (screen_width s)) s) u ys"
    if "screen_width u = screen_width t" "font_height u = 8" for ys u t
    using that
  proof (induction ys arbitrary: u)
    case (Cons y ys)
    have f: "foldl (\<lambda>s x. fb_write ((of_nat y - ucast (font_height s)) * screen_width s + x) (fb_read (of_nat y * screen_width s + x) s) s) v (map of_nat xs)
      = foldl (\<lambda>s x. fb_write ((of_nat y - 8) * screen_width s + of_nat x) (fb_read (of_nat y * screen_width s + of_nat x) s) s) v xs"
      if "font_height v = 8" for xs v
      using that by (induction xs arbitrary: v) (simp_all add: fb_write_def)
    show ?case using Cons.IH [of "copy_line y (unat (screen_width t)) u"] Cons.prems w f [of u "[0..<unat (screen_width t)]"]
      by (simp add: copy_line_def up_def)
  qed simp
  from this [of s s "[8..<unat (screen_height s)]"] show ?thesis using assms(2)
    unfolding copy_up_def up_def [of 8] by simp
qed


section \<open>The console as lines of text\<close>

text \<open>
  What a reader of the screen sees: lines of characters with their colours, the last one being written.
  A line is full when another character would end at the right border or beyond it.
\<close>

type_synonym text_line = "(char \<times> u32) list"

definition term_newline :: "nat \<Rightarrow> text_line list \<Rightarrow> text_line list" where
  "term_newline rows t = (if length t < rows then t @ [[]] else tl t @ [[]])"

definition term_char :: "nat \<Rightarrow> nat \<Rightarrow> u32 \<Rightarrow> char \<Rightarrow> text_line list \<Rightarrow> text_line list" where
  "term_char cap rows v c t =
     (if c = newline_char then term_newline rows t
      else let t' = butlast t @ [last t @ [(c, v)]]
           in if cap \<le> length (last t') then term_newline rows t' else t')"

definition text_pixel :: "text_line list \<Rightarrow> nat \<Rightarrow> nat \<Rightarrow> u32" where
  "text_pixel t x y =
     (if y div 8 < length t \<and> x div 8 < length (t ! (y div 8))
      then let cv = t ! (y div 8) ! (x div 8) in if glyph_bit (glyph_of (fst cv)) (y mod 8) (x mod 8) then snd cv else 0
      else 0)"

definition screen_rows :: "vga \<Rightarrow> nat" where "screen_rows s = unat (screen_height s) div 8"
definition line_cap :: "vga \<Rightarrow> nat" where "line_cap s = (unat (screen_width s) - 1) div 8"

definition console :: "vga \<Rightarrow> bool" where
  "console s \<longleftrightarrow> tight s \<and> font_height s = 8 \<and> font_width s = 8 \<and> curr_section s = None
     \<and> screen_row_num s = of_nat (screen_rows s) \<and> screen_col_num s = of_nat (unat (screen_width s) div 8) \<and> 8 \<le> unat (screen_height s) \<and> 8 < unat (screen_width s)
     \<and> unat (fb_size s) = 4 * unat (screen_width s) * unat (screen_height s)"

definition lines_on :: "vga \<Rightarrow> text_line list \<Rightarrow> bool" where
  "lines_on s t \<longleftrightarrow> console s \<and> t \<noteq> [] \<and> length t \<le> screen_rows s \<and> row_num s = of_nat (length t - 1)
     \<and> (\<forall>x y. on_screen s x y \<longrightarrow> raw s x y = text_pixel t x y)"

definition console_shows :: "vga \<Rightarrow> text_line list \<Rightarrow> bool" where
  "console_shows s t \<longleftrightarrow> lines_on s t \<and> length (last t) < line_cap s \<and> col_num s = of_nat (length (last t))"

text \<open>From one state to the next only the framebuffer and the position change.\<close>

definition same_console :: "vga \<Rightarrow> vga \<Rightarrow> bool" where
  "same_console s s' \<longleftrightarrow> s' = s\<lparr>vmem := vmem s', col_num := col_num s', row_num := row_num s'\<rparr>
     \<and> (\<forall>a. \<not> in_framebuffer s a \<longrightarrow> vmem s' a = vmem s a)"

lemma same_console_fields:
  assumes "same_console s s'"
  shows "console s' = console s" "screen_rows s' = screen_rows s" "line_cap s' = line_cap s" "on_screen s' = on_screen s"
    "in_framebuffer s' = in_framebuffer s" "screen_ok s' = screen_ok s" "screen_width s' = screen_width s" "screen_height s' = screen_height s"
    "can_update_cursor s' = can_update_cursor s"
proof -
  obtain m c r where "s' = s\<lparr>vmem := m, col_num := c, row_num := r\<rparr>" using assms unfolding same_console_def by blast
  then show "console s' = console s" "screen_rows s' = screen_rows s" "line_cap s' = line_cap s" "on_screen s' = on_screen s"
    "in_framebuffer s' = in_framebuffer s" "screen_ok s' = screen_ok s" "screen_width s' = screen_width s" "screen_height s' = screen_height s"
    "can_update_cursor s' = can_update_cursor s"
    by (simp_all add: console_def tight_def screen_ok_def screen_rows_def line_cap_def on_screen_def in_framebuffer_def fun_eq_iff)
qed

lemma same_console_trans:
  assumes "same_console s s1" and "same_console s1 s2"
  shows "same_console s s2"
proof -
  obtain m c r where 1: "s1 = s\<lparr>vmem := m, col_num := c, row_num := r\<rparr>" using assms(1) unfolding same_console_def by blast
  obtain m' c' r' where 2: "s2 = s1\<lparr>vmem := m', col_num := c', row_num := r'\<rparr>" using assms(2) unfolding same_console_def by blast
  show ?thesis using assms same_console_fields(5) [OF assms(1)] by (auto simp: same_console_def 1 2)
qed

lemma same_console_painted: "painted s s' f \<Longrightarrow> same_console s s'"
  by (cases s) (auto simp: painted_def same_console_def)

lemma same_console_moved: "same_console s (s\<lparr>col_num := c, row_num := r\<rparr>)" "same_console s (s\<lparr>col_num := c\<rparr>)"
  by (simp_all add: same_console_def)

lemma raw_moved [simp]: "raw (s\<lparr>col_num := c\<rparr>) = raw s" "raw (s\<lparr>row_num := r\<rparr>) = raw s"
  by (simp_all add: raw_def pixel_addr_def fun_eq_iff)

lemma screen_rows_bounds:
  assumes "console s"
  shows "0 < screen_rows s" "8 * screen_rows s \<le> unat (screen_height s)" "unat (screen_height s) < 8 * screen_rows s + 8"
    "8 * screen_rows s < 2 ^ 32" "8 * line_cap s < unat (screen_width s)" "unat (screen_width s) \<le> 8 * line_cap s + 8"
    "0 < line_cap s" "unat (screen_width s) < 2 ^ 30"
proof -
  have "tight s" "8 \<le> unat (screen_height s)" "8 < unat (screen_width s)" using assms by (simp_all add: console_def)
  then have "4 * unat (screen_width s) \<le> unat (screen_pitch s)" unfolding tight_def screen_ok_def by blast
  then show "0 < screen_rows s" "8 * screen_rows s \<le> unat (screen_height s)" "unat (screen_height s) < 8 * screen_rows s + 8"
    "8 * screen_rows s < 2 ^ 32" "8 * line_cap s < unat (screen_width s)" "unat (screen_width s) \<le> 8 * line_cap s + 8"
    "0 < line_cap s" "unat (screen_width s) < 2 ^ 30"
    using \<open>8 \<le> unat (screen_height s)\<close> \<open>8 < unat (screen_width s)\<close> unat_less_lit [of "screen_height s"] unat_less_lit [of "screen_pitch s"]
    by (auto simp: screen_rows_def line_cap_def)
qed

lemma text_pixel_blank: "text_pixel (t @ [[]]) x y = text_pixel t x y"
  by (auto simp: text_pixel_def nth_append less_Suc_eq)

lemma text_pixel_tl: "text_pixel (tl t) x y = text_pixel t x (y + 8)"
proof -
  have d: "(y + 8) div 8 = Suc (y div 8)" "(y + 8) mod 8 = y mod 8" by simp_all
  show ?thesis by (cases t) (simp_all add: text_pixel_def d)
qed


lemma lines_on_blank:
  assumes "lines_on s t" and "length t < screen_rows s"
  shows "lines_on (s\<lparr>col_num := c, row_num := row_num s + 1\<rparr>) (t @ [[]])"
proof -
  have "of_nat (length t - 1) + 1 = (of_nat (length t) :: i32)"
    using assms(1) by (simp add: lines_on_def of_nat_diff Suc_le_eq)
  then show ?thesis
    using assms same_console_fields [OF same_console_moved(1) [where s = s and c = c and r = "row_num s + 1"]]
    by (simp add: lines_on_def text_pixel_blank)
qed

lemma clear_row_console:
  assumes "console s" and "r < screen_rows s"
  shows "painted s (clear_row (of_nat r) s) (\<lambda>x y. if 8 * r \<le> y \<and> y < 8 * r + 8 then 0 else raw s x y)"
proof -
  note b = screen_rows_bounds [OF assms(1)]
  have c: "curr_section s = None" "font_height s = 8" "screen_row_num s = of_nat (screen_rows s)" "tight s"
    using assms(1) by (simp_all add: console_def)
  have u: "unat (of_nat r * 8 :: u32) = 8 * r" "unat ((of_nat r + 1) * 8 :: u32) = 8 * r + 8"
  proof -
    have e: "of_nat r * 8 = (of_nat (8 * r) :: u32)" "(of_nat r + 1) * 8 = (of_nat (8 * r + 8) :: u32)" by (simp_all add: distrib_right)
    show "unat (of_nat r * 8 :: u32) = 8 * r" "unat ((of_nat r + 1) * 8 :: u32) = 8 * r + 8"
      unfolding e using assms(2) b(4) by (simp_all only: unat_of_nat len_num1) (simp_all add: take_bit_nat_eq_self)
  qed
  have "\<not> (of_nat (screen_rows s) :: u32) \<le> of_nat r" using assms(2) b(4) by (simp add: word_le_nat_alt unat_of_nat)
  then have e: "clear_row (of_nat r) s = fill (up (of_nat r * 8) ((of_nat r + 1) * 8)) (up 0 (screen_width s)) 0 s"
    using c by (simp add: clear_row_def Let_def)
  have "painted s (clear_row (of_nat r) s)
    (\<lambda>x y. if unat (of_nat r * 8 :: u32) \<le> y \<and> y < unat ((of_nat r + 1) * 8 :: u32) \<and> unat (0 :: u32) \<le> x \<and> x < unat (screen_width s)
       then 0 else raw s x y)"
    unfolding e using c(4) b(2) assms(2) u by (intro painted_fill) simp_all
  then show ?thesis unfolding u by (rule painted_cong) (auto simp: on_screen_def)
qed

lemma newline_console:
  assumes "lines_on s t"
  shows "same_console s (newline s)" and "lines_on (newline s) (term_newline (screen_rows s) t)" and "col_num (newline s) = 0"
proof -
  have c: "console s" and t: "t \<noteq> []" "length t \<le> screen_rows s" "row_num s = of_nat (length t - 1)"
      "\<And>x y. on_screen s x y \<Longrightarrow> raw s x y = text_pixel t x y"
    using assms by (simp_all add: lines_on_def)
  note b = screen_rows_bounds [OF c]
  have f: "curr_section s = None" "font_height s = 8" "screen_row_num s = of_nat (screen_rows s)" "tight s"
    using c by (simp_all add: console_def)
  define s1 where "s1 = s\<lparr>col_num := 0\<rparr>"
  have m: "of_nat (screen_rows s) - 1 = (of_nat (screen_rows s - 1) :: u32)" using b(1) by (simp add: of_nat_diff Suc_le_eq)
  have "unat (of_nat (length t - 1) :: u32) = length t - 1" "unat (of_nat (screen_rows s - 1) :: u32) = screen_rows s - 1"
    using t(2) by (auto intro!: unat_of_nat32 [OF b(4)])
  moreover have "length t - 1 < screen_rows s - 1 \<longleftrightarrow> length t < screen_rows s"
    using t(1,2) b(1) by (metis Suc_diff_1 Suc_less_eq length_greater_0_conv)
  moreover have "row_num s1 = of_nat (length t - 1)" "screen_row_num s1 = of_nat (screen_rows s)"
    using t(3) f(3) by (simp_all add: s1_def)
  ultimately have q: "row_num s1 < screen_row_num s1 - 1 \<longleftrightarrow> length t < screen_rows s"
    by (simp only: m word_less_nat_alt)
  have c1: "console s1" "same_console s s1" "tight s1" "font_height s1 = 8" "screen_rows s1 = screen_rows s"
    using same_console_moved(2) [of s 0] same_console_fields [OF same_console_moved(2) [of s 0]] c f(4,2)
    by (simp_all add: s1_def console_def)
  have "same_console s (newline s) \<and> lines_on (newline s) (term_newline (screen_rows s) t) \<and> col_num (newline s) = 0"
  proof (cases "length t < screen_rows s")
    case True
    then have "newline s = s\<lparr>col_num := 0, row_num := row_num s + 1\<rparr>"
      using q f by (simp add: newline_def Let_def s1_def)
    then show ?thesis using lines_on_blank [OF assms True] same_console_moved True by (simp add: term_newline_def)
  next
    case False
    then have len: "length t = screen_rows s" using t(2) by simp
    define s2 where "s2 = copy_up (up 8 (screen_height s1)) (up 0 (screen_width s1)) s1"
    have n: "newline s = clear_row (of_nat (screen_rows s - 1)) s2"
      using False q f m by (simp add: newline_def Let_def s1_def s2_def)
    have p2: "painted s1 s2 (\<lambda>x y. if y + 8 < unat (screen_height s1) then raw s1 x (y + 8) else raw s1 x y)"
      unfolding s2_def copy_up_lines [OF c1(3,4)] using c1(3) b(1,2) c1(5) by (intro painted_copy_lines) (simp_all add: s1_def)
    note sc2 = same_console_painted [OF p2]
    have "console s2" "screen_rows s2 = screen_rows s" using same_console_fields [OF sc2] c1(1,5) by simp_all
    with clear_row_console [of s2 "screen_rows s - 1"] b(1)
    have p3: "painted s2 (newline s) (\<lambda>x y. if 8 * (screen_rows s - 1) \<le> y \<and> y < 8 * (screen_rows s - 1) + 8 then 0 else raw s2 x y)"
      unfolding n by simp
    note sc = same_console_trans [OF c1(2) same_console_trans [OF sc2 same_console_painted [OF p3]]]
    have e1: "s2 = s1\<lparr>vmem := vmem s2\<rparr>" "newline s = s2\<lparr>vmem := vmem (newline s)\<rparr>" using p2 p3 unfolding painted_def by blast+
    have cr: "col_num (newline s) = 0" "row_num (newline s) = row_num s"
      by (subst e1(2), simp, subst e1(1), simp add: s1_def)+
    have "raw (newline s) x y = text_pixel (tl t @ [[]]) x y" if "on_screen s x y" for x y
    proof -
      have o: "on_screen s1 x y" "on_screen s2 x y"
        using that same_console_fields(4) [OF c1(2)] same_console_fields(4) [OF sc2] by simp_all
      have r1: "raw s1 = raw s" "screen_height s1 = screen_height s" by (simp_all add: s1_def)
      have r: "raw (newline s) x y = (if 8 * (screen_rows s - 1) \<le> y \<and> y < 8 * (screen_rows s - 1) + 8 then 0
          else if y + 8 < unat (screen_height s) then raw s x (y + 8) else raw s x y)"
        using raw_of_painted [OF p3 o(2)] raw_of_painted [OF p2 o(1)] by (simp only: r1)
      have up: "text_pixel (tl t @ [[]]) x y = text_pixel t x (y + 8)" by (simp add: text_pixel_blank text_pixel_tl)
      have blank: "text_pixel t x z = 0" if "8 * screen_rows s \<le> z" for z
        using that len by (simp add: text_pixel_def div_less_iff_less_mult mult.commute)
      show ?thesis
      proof (cases "y + 8 < 8 * screen_rows s")
        case True
        then have "on_screen s x (y + 8)" using that b(2) by (simp add: on_screen_def)
        moreover have "\<not> 8 * (screen_rows s - 1) \<le> y" using True b(1) by linarith
        ultimately show ?thesis using True b(2) t(4) by (simp add: r up)
      next
        case nocopy: False
        show ?thesis
        proof (cases "y < 8 * screen_rows s")
          case True
          moreover have "8 * (screen_rows s - 1) \<le> y \<and> y < 8 * (screen_rows s - 1) + 8" using True nocopy b(1) by linarith
          ultimately show ?thesis using nocopy blank by (simp add: r up)
        next
          case False
          then show ?thesis using blank t(4) [OF that] b(3) by (simp add: r up)
        qed
      qed
    qed
    then have "lines_on (newline s) (tl t @ [[]])"
      using same_console_fields [OF sc] c t len b(1) cr(2) by (simp add: lines_on_def)
    then show ?thesis using sc cr(1) len by (simp add: term_newline_def)
  qed
  then show "same_console s (newline s)" "lines_on (newline s) (term_newline (screen_rows s) t)" "col_num (newline s) = 0" by blast+
qed


text \<open>A character: its glyph goes to the cell at the position, which is blank.\<close>

lemma text_pixel_put:
  assumes "t \<noteq> []"
  shows "text_pixel (butlast t @ [last t @ [(c, v)]]) x y =
    (if 8 * length (last t) \<le> x \<and> x < 8 * length (last t) + 8 \<and> 8 * (length t - 1) \<le> y \<and> y < 8 * (length t - 1) + 8
        \<and> glyph_bit (glyph_of c) (y - 8 * (length t - 1)) (x - 8 * length (last t))
     then v else text_pixel t x y)"
proof -
  obtain u l where t: "t = u @ [l]" using assms by (cases t rule: rev_cases) auto
  have cell: "8 * n \<le> z \<and> z < 8 * n + 8 \<longleftrightarrow> z div 8 = n" for n z :: nat by linarith
  have off: "z - 8 * (z div 8) = z mod 8" for z :: nat by (simp add: minus_mult_div_eq_mod)
  have eq: "(8 * n \<le> x \<and> x < 8 * n + 8 \<and> 8 * m \<le> y \<and> y < 8 * m + 8 \<and> glyph_bit g (y - 8 * m) (x - 8 * n))
    \<longleftrightarrow> x div 8 = n \<and> y div 8 = m \<and> glyph_bit g (y mod 8) (x mod 8)" for n m g
    using cell off by metis
  show ?thesis unfolding t by (auto simp: eq text_pixel_def nth_append less_Suc_eq Let_def simp flip: off)
qed

lemma draw_char_console:
  assumes "console_shows s t" and "printable c"
  shows "\<exists>s'. draw_char (col_num s * 8) (row_num s * 8) c v 255 s = Some s' \<and> same_console s s'
    \<and> lines_on s' (butlast t @ [last t @ [(c, v)]]) \<and> col_num s' = col_num s"
proof -
  have l: "lines_on s t" "col_num s = of_nat (length (last t))" "length (last t) < line_cap s"
    using assms(1) by (simp_all add: console_shows_def)
  have c: "console s" and t: "t \<noteq> []" "length t \<le> screen_rows s" "row_num s = of_nat (length t - 1)"
      "\<And>x y. on_screen s x y \<Longrightarrow> raw s x y = text_pixel t x y"
    using l(1) by (simp_all add: lines_on_def)
  note b = screen_rows_bounds [OF c]
  have xy: "8 * length (last t) + 8 \<le> 2 ^ 32" "8 * (length t - 1) + 8 \<le> 2 ^ 32"
    using l(3) b(4,5,8) t(1,2) by (cases t; simp)+
  have ok: "screen_ok s" using c by (simp add: console_def tight_def)
  obtain s' where d: "draw_char (col_num s * 8) (row_num s * 8) c v 255 s = Some s'" and p: "painted s s'
    (\<lambda>x y. if 8 * length (last t) \<le> x \<and> x < 8 * length (last t) + 8 \<and> 8 * (length t - 1) \<le> y \<and> y < 8 * (length t - 1) + 8
       \<and> glyph_bit (glyph_of c) (y - 8 * (length t - 1)) (x - 8 * length (last t)) then v else raw s x y)"
    using draw_char_glyph [OF ok assms(2) xy, of v] by (auto simp: l(2) t(3) mult.commute)
  have e: "s' = s\<lparr>vmem := vmem s'\<rparr>" using p unfolding painted_def by blast
  have cr: "col_num s' = col_num s" "row_num s' = row_num s" by (subst e, simp)+
  have "raw s' x y = text_pixel (butlast t @ [last t @ [(c, v)]]) x y" if "on_screen s x y" for x y
    using raw_of_painted [OF p that] t(4) [OF that] by (simp only: text_pixel_put [OF t(1)])
  then have "lines_on s' (butlast t @ [last t @ [(c, v)]])"
    using same_console_fields [OF same_console_painted [OF p]] c t cr by (simp add: lines_on_def)
  then show ?thesis using d cr(1) same_console_painted [OF p] by blast
qed

lemma kputchar_console:
  assumes "console_shows s t" and "printable c \<or> c = newline_char"
  shows "\<exists>s'. kputchar v c s = Some s' \<and> same_console s s' \<and> console_shows s' (term_char (line_cap s) (screen_rows s) v c t)"
proof -
  have l: "lines_on s t" "col_num s = of_nat (length (last t))" "length (last t) < line_cap s"
    using assms(1) by (simp_all add: console_shows_def)
  have c: "console s" using l(1) by (simp add: lines_on_def)
  note b = screen_rows_bounds [OF c]
  have fresh: "same_console u (newline u) \<and> console_shows (newline u) (term_newline (screen_rows u) t)"
    if "lines_on u t" for u t
  proof -
    have "console u" using that by (simp add: lines_on_def)
    then have "0 < line_cap u" by (rule screen_rows_bounds)
    then show ?thesis using newline_console [OF that] same_console_fields(3) [OF newline_console(1) [OF that]]
      by (auto simp: console_shows_def term_newline_def)
  qed
  show ?thesis
  proof (cases "c = newline_char")
    case True
    then show ?thesis using fresh [OF l(1)] by (simp add: kputchar_def term_char_def)
  next
    case False
    then have p: "printable c" using assms(2) by blast
    let ?t = "butlast t @ [last t @ [(c, v)]]"
    obtain s1 where s1: "draw_char (col_num s * 8) (row_num s * 8) c v 255 s = Some s1" "same_console s s1" "lines_on s1 ?t"
        "col_num s1 = col_num s"
      using draw_char_console [OF assms(1) p] by blast
    define s2 where "s2 = s1\<lparr>col_num := col_num s1 + 1\<rparr>"
    have s2: "same_console s s2" "col_num s2 = of_nat (Suc (length (last t)))" "lines_on s2 ?t"
      using same_console_trans [OF s1(2) same_console_moved(2)] s1(3,4) l(2)
        same_console_fields [OF same_console_moved(2) [where s = s1 and c = "col_num s1 + 1"]]
      by (simp_all add: s2_def lines_on_def add.commute)
    note f2 = same_console_fields [OF s2(1)]
    have sw: "screen_width s2 = screen_width s" by (rule f2(7))
    have "col_num s2 * 8 + 8 = of_nat (8 * Suc (length (last t)) + 8)" unfolding s2(2) by simp
    moreover have "8 * Suc (length (last t)) + 8 < 2 ^ 32" using l(3) b(5,8) by simp
    ultimately have u: "unat (col_num s2 * 8 + 8) = 8 * Suc (length (last t)) + 8"
      by (simp only: unat_of_nat_u32)
    have border: "w \<le> 8 * n + 8 \<longleftrightarrow> k \<le> n" if "8 * k < w" "w \<le> 8 * k + 8" for w k n :: nat
      using that by auto
    have full: "screen_width s2 \<le> col_num s2 * 8 + 8 \<longleftrightarrow> line_cap s \<le> Suc (length (last t))"
      unfolding word_le_nat_alt u sw by (rule border [OF b(5,6)])
    have k: "kputchar v c s = Some (if line_cap s \<le> Suc (length (last t)) then newline s2 else s2)"
      using False s1(1) c full by (simp add: kputchar_def Let_def console_def s2_def)
    show ?thesis
    proof (cases "line_cap s \<le> Suc (length (last t))")
      case True
      then show ?thesis
        using fresh [OF s2(3)] same_console_trans [OF s2(1)] False f2 k by (simp add: term_char_def)
    next
      case notfull: False
      then show ?thesis using s2 False f2 k by (simp add: term_char_def console_shows_def)
    qed
  qed
qed

lemma kputs_console:
  assumes "console_shows s t" and "\<forall>c \<in> set str. printable c \<or> c = newline_char"
  shows "\<exists>s'. kputs v str s = Some s' \<and> same_console s s'
    \<and> console_shows s' (fold (term_char (line_cap s) (screen_rows s) v) str t)"
  using assms
proof (induction str arbitrary: s t)
  case Nil
  then show ?case by (auto simp: kputs_def same_console_def)
next
  case (Cons c cs)
  obtain s1 where s1: "kputchar v c s = Some s1" "same_console s s1" "console_shows s1 (term_char (line_cap s) (screen_rows s) v c t)"
    using kputchar_console [OF Cons.prems(1)] Cons.prems(2) by fastforce
  have "of_char newline_char = (10 :: nat)" by (simp add: newline_char_def)
  moreover have "of_char NUL = (0 :: nat)" by simp
  ultimately have "c \<noteq> NUL" using Cons.prems(2) unfolding printable_def by (metis list.set_intros(1) not_numeral_le_zero zero_neq_numeral)
  moreover obtain s2 where "kputs v cs s1 = Some s2" "same_console s1 s2"
      "console_shows s2 (fold (term_char (line_cap s1) (screen_rows s1) v) cs (term_char (line_cap s) (screen_rows s) v c t))"
    using Cons.IH [OF s1(3)] Cons.prems(2) by auto
  ultimately show ?case
    using s1(1) same_console_fields(2,3) [OF s1(2)] same_console_trans [OF s1(2)] by (auto simp: kputs_def)
qed


section \<open>Clearing the screen\<close>

lemma foldl_words:
  "screen_width s = of_nat w \<Longrightarrow> foldl (\<lambda>s i. fb_write i v s) s (map of_nat is)
    = foldl (\<lambda>s p. fb_write (of_nat (fst p) * screen_width s + of_nat (snd p)) v s) s (map (\<lambda>i. (i div w, i mod w)) is)"
proof (induction "is" arbitrary: s)
  case (Cons i "is")
  have "of_nat (i div w) * of_nat w + of_nat (i mod w) = (of_nat i :: u32)"
    by (metis div_mult_mod_eq of_nat_add of_nat_mult)
  moreover have "screen_width (fb_write (of_nat i) v s) = of_nat w" using Cons.prems by (simp add: fb_write_def)
  ultimately show ?case using Cons by simp
qed simp

lemma clear_screen_console:
  assumes "console s"
  shows "same_console s (clear_screen s)" and "console_shows (clear_screen s) [[]]"
proof -
  let ?w = "unat (screen_width s)" and ?h = "unat (screen_height s)"
  let ?ps = "map (\<lambda>i. (i div ?w, i mod ?w)) [0..<?w * ?h]"
  define s1 where "s1 = foldl (\<lambda>s i. fb_write i 0 s) s (up 0 (fb_size s div 4))"
  note b = screen_rows_bounds [OF assms]
  have f: "tight s" "unat (fb_size s) = 4 * ?w * ?h" using assms by (simp_all add: console_def)
  have "unat (fb_size s div 4) = ?w * ?h" using f(2) by (simp add: unat_div)
  then have "s1 = foldl (\<lambda>s p. fb_write (of_nat (fst p) * screen_width s + of_nat (snd p)) 0 s) s ?ps"
    unfolding s1_def up_def by (subst foldl_words [of s ?w]) simp_all
  moreover have "\<forall>(y, x) \<in> set ?ps. on_screen s x y"
    using b(5) by (auto simp: on_screen_def div_less_iff_less_mult mult.commute)
  ultimately have p: "painted s s1 (\<lambda>x y. if (y, x) \<in> set ?ps then 0 else raw s x y)" using painted_points [OF f(1), of ?ps 0] by simp
  have mem: "(y, x) \<in> set ?ps" if "on_screen s x y" for x y
  proof -
    have xy: "x < ?w" "y < ?h" using that by (simp_all add: on_screen_def)
    have "Suc y * ?w \<le> ?h * ?w" using xy(2) by (intro mult_le_mono1) simp
    then have "y * ?w + x < ?w * ?h" using xy(1) by (simp add: mult.commute)
    moreover have "(y * ?w + x) div ?w = y" "(y * ?w + x) mod ?w = x" using xy(1) by simp_all
    ultimately show ?thesis by (auto simp: image_iff intro!: bexI [of _ "y * ?w + x"])
  qed
  have c: "clear_screen s = s1\<lparr>col_num := 0, row_num := 0\<rparr>" by (simp add: clear_screen_def s1_def)
  show sc: "same_console s (clear_screen s)"
    unfolding c by (rule same_console_trans [OF same_console_painted [OF p] same_console_moved(1)])
  have "raw (clear_screen s) x y = text_pixel [[]] x y" if "on_screen s x y" for x y
    using raw_of_painted [OF p that] mem [OF that] by (auto simp: c text_pixel_def)
  then show "console_shows (clear_screen s) [[]]"
    using same_console_fields [OF sc] assms b(1,7) by (simp add: console_shows_def lines_on_def c)
qed

section \<open>The screen shows the end of the wrapped text\<close>

fun wrap_text :: "nat \<Rightarrow> u32 \<Rightarrow> text_line list \<Rightarrow> string \<Rightarrow> text_line list" where
  "wrap_text cap v t [] = t"
| "wrap_text cap v t (c # cs) =
     (if c = newline_char then wrap_text cap v (t @ [[]]) cs
      else if Suc (length (last t)) < cap then wrap_text cap v (butlast t @ [last t @ [(c, v)]]) cs
      else wrap_text cap v (butlast t @ [last t @ [(c, v)], []]) cs)"

definition bottom :: "nat \<Rightarrow> 'a list \<Rightarrow> 'a list" where
  "bottom n xs = drop (length xs - n) xs"

lemma bottom_newline: "0 < n \<Longrightarrow> term_newline n (bottom n t) = bottom n (t @ [[]])"
  by (auto simp: term_newline_def bottom_def Suc_diff_le drop_Suc tl_drop)

lemma bottom_last: "0 < n \<Longrightarrow> t \<noteq> [] \<Longrightarrow> last (bottom n t) = last t"
  by (cases t) (auto simp: bottom_def last_drop)

lemma bottom_change_last: "0 < n \<Longrightarrow> t \<noteq> [] \<Longrightarrow> butlast (bottom n t) @ [l] = bottom n (butlast t @ [l])"
  by (cases t rule: rev_cases) (auto simp: bottom_def Suc_diff_le)

lemma wrap_text_bottom:
  assumes "0 < rows" and "t \<noteq> []"
  shows "fold (term_char cap rows v) str (bottom rows t) = bottom rows (wrap_text cap v t str)"
  using assms(2)
proof (induction str arbitrary: t)
  case (Cons c cs)
  note b = bottom_newline [OF assms(1)] bottom_last [OF assms(1) Cons.prems] bottom_change_last [OF assms(1) Cons.prems]
  have "term_char cap rows v c (bottom rows t) = bottom rows
      (if c = newline_char then t @ [[]] else if Suc (length (last t)) < cap then butlast t @ [last t @ [(c, v)]]
       else butlast t @ [last t @ [(c, v)], []])"
    using b(1) [of t] b(1) [of "butlast t @ [last t @ [(c, v)]]"] bottom_last [OF assms(1), of "butlast t @ [last t @ [(c, v)]]"]
    by (simp add: term_char_def b(2,3) not_less Let_def)
  then show ?case using Cons.IH by simp
qed simp

text \<open>
  C15: after clearing a 32-bit framebuffer console, printing a string of printable characters and
  newlines never fails, and what the screen shows, pixel by pixel, is exactly the last lines of the
  text wrapped at the line capacity, as many as there are rows, with the position behind the last
  character; no byte outside the framebuffer changes.
\<close>

theorem console_prints_text:
  assumes "console s" and "\<forall>c \<in> set str. printable c \<or> c = newline_char"
  shows "\<exists>s' t. kputs v str (clear_screen s) = Some s' \<and> t = bottom (screen_rows s) (wrap_text (line_cap s) v [[]] str)
    \<and> (\<forall>x y. on_screen s x y \<longrightarrow> get_pixel (of_nat x) (of_nat y) s' = text_pixel t x y AND 0xFFFFFF)
    \<and> unat (col_num s') = length (last t) \<and> unat (row_num s') = length t - 1
    \<and> (\<forall>a. \<not> in_framebuffer s a \<longrightarrow> vmem s' a = vmem s a)"
proof -
  note cl = clear_screen_console [OF assms(1)] and b = screen_rows_bounds [OF assms(1)]
  note sf = same_console_fields [OF cl(1)]
  define t where "t = bottom (screen_rows s) (wrap_text (line_cap s) v [[]] str)"
  have "bottom (screen_rows s) [[]] = [[] :: text_line]" using b(1) by (simp add: bottom_def)
  then have w: "fold (term_char (line_cap s) (screen_rows s) v) str [[]] = t"
    using wrap_text_bottom [OF b(1), of "[[]]" "line_cap s" v str] by (simp add: t_def)
  obtain s' where s': "kputs v str (clear_screen s) = Some s'" "same_console (clear_screen s) s'" "console_shows s' t"
    using kputs_console [OF cl(2) assms(2), of v] by (auto simp: sf w)
  note sc = same_console_trans [OF cl(1) s'(2)]
  note f = same_console_fields [OF sc]
  have l: "lines_on s' t" "col_num s' = of_nat (length (last t))" "length (last t) < line_cap s"
    using s'(3) f(3) by (simp_all add: console_shows_def)
  have "length (last t) < 2 ^ 32" "length t - 1 < 2 ^ 32" using l(1,3) b(4,5,8) f(2) by (auto simp: lines_on_def)
  then have pos: "unat (col_num s') = length (last t)" "unat (row_num s') = length t - 1"
    using l(1,2) by (simp_all add: lines_on_def unat_of_nat_u32)
  have ok: "screen_ok s'" using assms(1) f(6) by (simp add: console_def tight_def)
  have "get_pixel (of_nat x) (of_nat y) s' = text_pixel t x y AND 0xFFFFFF" if "on_screen s x y" for x y
    using that l(1) get_pixel_raw [OF ok] f(4) by (simp add: lines_on_def)
  then show ?thesis using s'(1) pos sc by (auto simp: same_console_def simp flip: t_def)
qed

lemma demo_console: "console demo_screen"
  by (simp add: console_def tight_def screen_ok_def demo_screen_def screen_rows_def)

theorem console_prints_text_witness:
  "\<exists>s'. kputs 0xFF ''abcd'' (clear_screen demo_screen) = Some s' \<and> unat (col_num s') = 1 \<and> unat (row_num s') = 1
    \<and> vmem s' 0 = 0"
proof -
  have p: "\<forall>c \<in> set ''abcd''. printable c \<or> c = newline_char" by (simp add: printable_def)
  have n: "CHR ''a'' \<noteq> newline_char" "CHR ''b'' \<noteq> newline_char" "CHR ''c'' \<noteq> newline_char" "CHR ''d'' \<noteq> newline_char"
    by (simp_all add: newline_char_def char_of_def)
  have k: "line_cap demo_screen = 3" "screen_rows demo_screen = 4" by (simp_all add: line_cap_def screen_rows_def demo_screen_def)
  have t: "bottom 4 (wrap_text 3 0xFF [[]] ''abcd'')
    = [[(CHR ''a'', 0xFF), (CHR ''b'', 0xFF), (CHR ''c'', 0xFF)], [(CHR ''d'', 0xFF)]]"
    by (simp add: n bottom_def)
  have "\<not> in_framebuffer demo_screen 0" by (simp add: in_framebuffer_def demo_screen_def in_rg_def)
  then show ?thesis
    using console_prints_text [OF demo_console p, of "0xFF"] unfolding k t by (auto simp: demo_screen_def)
qed


section \<open>Backspace\<close>

lemma region_loop_one:
  assumes "row < max_rows" and "(if (1 :: u32) < max_cols - col then 1 else max_cols - col) = 1"
  shows "region_loop ox oy lx ly max_cols max_rows 1 row col s =
    (let xe = ox + col * ucast (font_width s) + ucast (font_width s); ye = oy + row * ucast (font_height s) + ucast (font_height s)
     in fill (up (oy + row * ucast (font_height s)) (if ly < ye then ly else ye))
          (up (ox + col * ucast (font_width s)) (if lx < xe then lx else xe)) RGB_COLOR_BLACK s)"
proof -
  have stop: "region_loop ox oy lx ly max_cols max_rows 0 row' col' s' = s'" for row' col' s' by (subst region_loop.simps) simp
  have "0 < (1 :: u32) \<and> row < max_rows" using assms(1) by simp
  then show ?thesis by (subst region_loop.simps) (simp only: if_True assms(2) Let_def diff_self stop mult_1 simp_thms)
qed

lemma font8: "ucast (8 :: u8) = (8 :: u32)"
  by simp

lemma clear_cell_console:
  assumes "console s" and "k < line_cap s" and "r < screen_rows s"
  shows "painted s (clear_text_region (of_nat k) (of_nat r) 1 s)
    (\<lambda>x y. if 8 * r \<le> y \<and> y < 8 * r + 8 \<and> 8 * k \<le> x \<and> x < 8 * k + 8 then 0 else raw s x y)"
proof -
  let ?cols = "unat (screen_width s) div 8"
  note b = screen_rows_bounds [OF assms(1)]
  have f: "curr_section s = None" "font_height s = 8" "font_width s = 8" "screen_row_num s = of_nat (screen_rows s)"
      "screen_col_num s = of_nat ?cols" "tight s"
    using assms(1) by (simp_all add: console_def)
  have kc: "k < ?cols" using assms(2) b(5) by linarith
  have lt: "k < 2 ^ 32" "r < 2 ^ 32" "?cols < 2 ^ 32" "screen_rows s < 2 ^ 32" "8 * k < 2 ^ 32" "8 * k + 8 < 2 ^ 32"
      "8 * r < 2 ^ 32" "8 * r + 8 \<le> 8 * screen_rows s"
    using assms(3) b(4,8) kc by auto
  have u: "unat (of_nat k :: u32) = k" "unat (of_nat r :: u32) = r" "unat (of_nat ?cols :: u32) = ?cols"
      "unat (of_nat (screen_rows s) :: u32) = screen_rows s"
    by (simp_all only: unat_of_nat_u32 lt le_less_trans [OF lt(8) b(4)])
  have w: "of_nat k * 8 = (of_nat (8 * k) :: u32)" "of_nat r * 8 = (of_nat (8 * r) :: u32)"
      "of_nat (8 * k) + 8 = (of_nat (8 * k + 8) :: u32)" "of_nat (8 * r) + 8 = (of_nat (8 * r + 8) :: u32)" by simp_all
  have v: "unat (of_nat (8 * k) :: u32) = 8 * k" "unat (of_nat (8 * k + 8) :: u32) = 8 * k + 8"
      "unat (of_nat (8 * r) :: u32) = 8 * r" "unat (of_nat (8 * r + 8) :: u32) = 8 * r + 8"
    by (simp_all only: unat_of_nat_u32 lt le_less_trans [OF lt(8) b(4)])
  have "of_nat ?cols - of_nat k = (of_nat (?cols - k) :: u32)" using kc by (simp add: of_nat_diff)
  moreover have "unat (of_nat (?cols - k) :: u32) = ?cols - k" using lt(3) by (intro unat_of_nat_u32) simp
  ultimately have one: "(if (1 :: u32) < of_nat ?cols - of_nat k then 1 else of_nat ?cols - of_nat k) = (1 :: u32)"
    using kc by (auto simp: word_less_nat_alt intro!: word_unat_eq_iff [THEN iffD2])
  have lim: "\<not> screen_width s < of_nat (8 * k + 8)" "\<not> screen_height s < of_nat (8 * r + 8)"
    unfolding word_less_nat_alt v using kc assms(3) b(2) by linarith+
  have "region_loop 0 0 (screen_width s) (screen_height s) (of_nat ?cols) (of_nat (screen_rows s)) 1 (of_nat r) (of_nat k) s
      = fill (up (of_nat (8 * r)) (of_nat (8 * r + 8))) (up (of_nat (8 * k)) (of_nat (8 * k + 8))) 0 s"
    using region_loop_one [OF _ one, of "of_nat r" "of_nat (screen_rows s)" 0 0 "screen_width s" "screen_height s" s] assms(3)
    by (simp only: u word_less_nat_alt) (simp only: lim [unfolded word_less_nat_alt] w Let_def f if_False add_0 RGB_COLOR_BLACK_def
      word_less_nat_alt simp_thms font8)
  then have e: "clear_text_region (of_nat k) (of_nat r) 1 s
      = fill (up (of_nat (8 * r)) (of_nat (8 * r + 8))) (up (of_nat (8 * k)) (of_nat (8 * k + 8))) 0 s"
    using f kc assms(3) by (simp add: clear_text_region_def word_le_nat_alt u)
  have "8 * r + 8 \<le> unat (screen_height s)" "8 * k + 8 \<le> unat (screen_width s)" using kc assms(3) b(2) by linarith+
  then have "painted s (clear_text_region (of_nat k) (of_nat r) 1 s)
    (\<lambda>x y. if unat (of_nat (8 * r) :: u32) \<le> y \<and> y < unat (of_nat (8 * r + 8) :: u32) \<and> unat (of_nat (8 * k) :: u32) \<le> x
       \<and> x < unat (of_nat (8 * k + 8) :: u32) then 0 else raw s x y)"
    unfolding e using f(6) v by (intro painted_fill) simp_all
  then show ?thesis unfolding v .
qed


lemma backspace_console:
  assumes "console_shows s (u @ [l @ [(c, v)]])" and "\<not> can_update_cursor s"
  shows "same_console s (backspace s)" and "console_shows (backspace s) (u @ [l])"
proof -
  let ?k = "length l" and ?r = "length u" and ?t = "u @ [l @ [(c, v)]]"
  have c: "console s" "col_num s = of_nat (Suc ?k)" "row_num s = of_nat ?r" "?r < screen_rows s" "Suc ?k < line_cap s"
      "\<And>x y. on_screen s x y \<Longrightarrow> raw s x y = text_pixel ?t x y"
    using assms(1) by (simp_all add: lines_on_def console_shows_def)
  note b = screen_rows_bounds [OF c(1)]
  define s2 where "s2 = s\<lparr>col_num := of_nat ?k\<rparr>"
  define s3 where "s3 = clear_text_region (of_nat ?k) (of_nat ?r) 1 s2"
  have sc2: "same_console s s2" unfolding s2_def by (rule same_console_moved)
  note f2 = same_console_fields [OF sc2]
  have p: "painted s2 s3 (\<lambda>x y. if 8 * ?r \<le> y \<and> y < 8 * ?r + 8 \<and> 8 * ?k \<le> x \<and> x < 8 * ?k + 8 then 0 else raw s2 x y)"
    unfolding s3_def using c f2 by (intro clear_cell_console) simp_all
  note sc = same_console_trans [OF sc2 same_console_painted [OF p]]
  have e: "s3 = s2\<lparr>vmem := vmem s3\<rparr>" using p unfolding painted_def by blast
  have rc: "col_num s3 = of_nat ?k" "row_num s3 = of_nat ?r" by (subst e, simp add: s2_def c(3))+
  have "unat (of_nat (Suc ?k) :: u32) = Suc ?k" using c(5) b(5,8) by (intro unat_of_nat_u32) simp
  then have "\<not> sint (of_nat (Suc ?k) :: u32) - 1 < 0"
    using c(5) b(5,8) sint_small [of "of_nat (Suc ?k)"] by simp
  moreover have "curr_section s = None" "\<not> can_update_cursor s3"
    using c(1) assms(2) same_console_fields(9) [OF sc] by (simp_all add: console_def)
  ultimately have bs: "backspace s = s3" using c(2,3) by (simp add: backspace_def s2_def s3_def)
  have "raw s3 x y = text_pixel (u @ [l]) x y" if "on_screen s x y" for x y
  proof -
    have cell: "8 * n \<le> z \<and> z < 8 * n + 8 \<longleftrightarrow> z div 8 = n" for n z :: nat by linarith
    have rp: "raw s3 x y = (if y div 8 = ?r \<and> x div 8 = ?k then 0 else text_pixel ?t x y)"
    proof -
      have "(8 * ?r \<le> y \<and> y < 8 * ?r + 8 \<and> 8 * ?k \<le> x \<and> x < 8 * ?k + 8) = (y div 8 = ?r \<and> x div 8 = ?k)" using cell by blast
      moreover have "raw s2 x y = text_pixel ?t x y" using c(6) [OF that] by (simp add: s2_def)
      ultimately show ?thesis using raw_of_painted [OF p, of x y] that f2(4) by (simp only:)
    qed
    show ?thesis unfolding rp by (auto simp: text_pixel_def nth_append)
  qed
  then show "same_console s (backspace s)" "console_shows (backspace s) (u @ [l])"
    using sc c rc same_console_fields [OF sc] by (simp_all add: bs console_shows_def lines_on_def)
qed

text \<open>
  On a console that shows lines of text, backspace undoes the printing of a character that does not
  fill its line: every pixel and the position are again as they were before.
\<close>

lemma backspace_undoes_char:
  assumes "console_shows s t" and "printable c" and "Suc (length (last t)) < line_cap s" and "\<not> can_update_cursor s"
  shows "\<exists>s1. kputchar v c s = Some s1 \<and> (\<forall>x y. on_screen s x y \<longrightarrow> raw (backspace s1) x y = raw s x y)
    \<and> col_num (backspace s1) = col_num s \<and> row_num (backspace s1) = row_num s"
proof -
  have "t \<noteq> []" using assms(1) by (simp add: console_shows_def lines_on_def)
  then obtain u l where t: "t = u @ [l]" by (cases t rule: rev_cases) auto
  have "c \<noteq> newline_char" using assms(2) by (auto simp: printable_def newline_char_def)
  then have "term_char (line_cap s) (screen_rows s) v c t = u @ [l @ [(c, v)]]" using assms(3) by (simp add: term_char_def t)
  then obtain s1 where s1: "kputchar v c s = Some s1" "same_console s s1" "console_shows s1 (u @ [l @ [(c, v)]])"
    using kputchar_console [OF assms(1), of c v] assms(2) by auto
  have "\<not> can_update_cursor s1" using assms(4) same_console_fields(9) [OF s1(2)] by simp
  note bs = backspace_console [OF s1(3) this]
  show ?thesis
    using s1(1) bs(2) assms(1) same_console_fields(4) [OF same_console_trans [OF s1(2) bs(1)]]
    by (auto simp: t console_shows_def lines_on_def)
qed

lemma backspace_undoes_char_witness:
  "\<exists>s1. kputchar 0xFF (CHR ''a'') (clear_screen demo_screen) = Some s1
    \<and> raw (backspace s1) 3 3 = raw (clear_screen demo_screen) 3 3 \<and> col_num (backspace s1) = 0"
proof -
  note cl = clear_screen_console [OF demo_console]
  have z: "\<not> can_update_cursor (clear_screen demo_screen)" "line_cap (clear_screen demo_screen) = 3"
      "on_screen (clear_screen demo_screen) 3 3" "col_num (clear_screen demo_screen) = 0"
    using same_console_fields(3,4,9) [OF cl(1)] cl(2)
    by (simp_all add: demo_screen_def line_cap_def on_screen_def console_shows_def)
  have p: "printable (CHR ''a'')" by (simp add: printable_def)
  show ?thesis using backspace_undoes_char [OF cl(2) p _ z(1), of "0xFF"] z by auto
qed

end
