(* ===== verification/VgaText.thy ===== *)
theory VgaText
  imports VgaPrint StringUtil DataString 
begin

text \<open>
  The text mode part of \<open>src/kernel/graphics/vga_print.cpp\<close>: the cells at \<open>VGA_ADDRESS\<close>, two bytes each,
  the hardware cursor, set through ports, and \<open>vgat_vprintf\<close>.  The arguments of a formatted print are a
  list of values of the sizes that \<open>va_arg\<close> reads; reading one of another kind, a null string where
  the code does not look for it, and a format whose last directive is incomplete are \<open>None\<close>.
\<close>

section \<open>Cells and the cursor\<close>

definition NUM_COLS :: u32 where "NUM_COLS = 80"
definition NUM_ROWS :: u32 where "NUM_ROWS = 25"
definition VGAT_COLOR :: u8 where "VGAT_COLOR = 15"

definition cell_addr :: "u32 \<Rightarrow> u32" where "cell_addr i = 0xB8000 + 2 * i"

definition put_cell :: "u32 \<Rightarrow> u8 \<times> u8 \<Rightarrow> vga \<Rightarrow> vga" where
  "put_cell i cc s = s\<lparr>vmem := (vmem s)(cell_addr i := fst cc, cell_addr i + 1 := snd cc)\<rparr>"

definition get_cell :: "u32 \<Rightarrow> vga \<Rightarrow> u8 \<times> u8" where
  "get_cell i s = (vmem s (cell_addr i), vmem s (cell_addr i + 1))"

definition vgat_update_cursor :: "u32 \<Rightarrow> u32 \<Rightarrow> vga \<Rightarrow> vga" where
  "vgat_update_cursor row col s =
     (let pos = ucast (row * NUM_COLS + col) :: u16
      in s\<lparr>crt_writes := crt_writes s @ [(0x3D4, 14), (0x3D5, ucast (drop_bit 8 pos)), (0x3D4, 15), (0x3D5, ucast pos)]\<rparr>)"

definition vgat_clear_row :: "u32 \<Rightarrow> vga \<Rightarrow> vga" where
  "vgat_clear_row row s = foldl (\<lambda>s c. put_cell (c + NUM_COLS * row) (32, VGAT_COLOR) s) s (up 0 NUM_COLS)"

definition print_newline :: "vga \<Rightarrow> vga" where
  "print_newline s =
     (let s1 = s\<lparr>vgat_col := 0\<rparr>;
          s2 = (if vgat_row s1 < NUM_ROWS - 1 then s1\<lparr>vgat_row := vgat_row s1 + 1\<rparr>
                else vgat_clear_row (NUM_ROWS - 1)
                  (foldl (\<lambda>s r. foldl (\<lambda>s c. put_cell (c + NUM_COLS * (r - 1)) (get_cell (c + NUM_COLS * r) s) s) s (up 0 NUM_COLS))
                    s1 (up 1 NUM_ROWS)))
      in vgat_update_cursor (vgat_row s2) (vgat_col s2) s2)"

definition print_char :: "char \<Rightarrow> vga \<Rightarrow> vga" where
  "print_char ch s =
     (if ch = char_of (10 :: nat) then print_newline s
      else let s1 = (if NUM_COLS \<le> vgat_col s then print_newline s else s);
               s2 = (put_cell (vgat_col s1 + NUM_COLS * vgat_row s1) (of_char ch, VGAT_COLOR) s1)\<lparr>vgat_col := vgat_col s1 + 1\<rparr>
           in if printingString s2 then s2 else vgat_update_cursor (vgat_row s2) (vgat_col s2) s2)"

fun print_loop :: "string \<Rightarrow> vga \<Rightarrow> vga" where
  "print_loop [] s = s"
| "print_loop (c # cs) s = (if c = NUL then s else print_loop cs (print_char c s))"

definition print_str :: "string \<Rightarrow> vga \<Rightarrow> vga" where
  "print_str str s =
     (let s1 = print_loop str (s\<lparr>printingString := True\<rparr>)
      in (vgat_update_cursor (vgat_row s1) (vgat_col s1) s1)\<lparr>printingString := False\<rparr>)"

section \<open>Formatted printing\<close>

datatype va_arg = Arg32 u32 | Arg64 u64 | ArgStr "string option" | ArgString "dstring option"

definition print_cstr :: "string option \<Rightarrow> vga \<Rightarrow> vga option" where
  "print_cstr str s = map_option (\<lambda>cs. print_str cs s) str"

definition text_long :: "char \<Rightarrow> va_arg list \<Rightarrow> vga \<Rightarrow> (va_arg list \<times> vga) option" where
  "text_long d args s =
     (if d \<in> {CHR ''d'', CHR ''u'', CHR ''x''}
      then case args of
        Arg64 v # rest \<Rightarrow>
          map_option (Pair rest)
            (if d = CHR ''d'' then print_cstr (num_to_string_s v) s
             else if d = CHR ''u'' then print_cstr (num_to_string_u v) s
             else print_cstr (hex_to_string_u v) (print_str ''0x'' s))
      | _ \<Rightarrow> None
      else Some (args, s))"

definition text_directive :: "char \<Rightarrow> va_arg list \<Rightarrow> vga \<Rightarrow> (va_arg list \<times> vga) option" where
  "text_directive d args s =
     (if d \<in> {CHR ''d'', CHR ''u'', CHR ''h'', CHR ''x'', CHR ''c''}
      then case args of
        Arg32 v # rest \<Rightarrow>
          map_option (Pair rest)
            (if d = CHR ''d'' then print_cstr (num_to_string_s v) s
             else if d = CHR ''u'' then print_cstr (num_to_string_u v) s
             else if d = CHR ''c'' then Some (print_char (char_of (unat v)) s)
             else print_cstr (hex_to_string_u v) (print_str ''0x'' s))
      | _ \<Rightarrow> None
      else if d = CHR ''s''
      then case args of
        ArgStr str # rest \<Rightarrow> Some (rest, print_str (case str of Some cs \<Rightarrow> cs | None \<Rightarrow> ''(null)'') s)
      | _ \<Rightarrow> None
      else if d = CHR ''S''
      then case args of
        ArgString str # rest \<Rightarrow>
          map_option (Pair rest) (case str of Some st \<Rightarrow> print_cstr (c_str st) s | None \<Rightarrow> Some (print_str ''(null)'' s))
      | _ \<Rightarrow> None
      else Some (args, print_char d (print_char (CHR ''%'') s)))"

fun vgat_vprintf :: "string \<Rightarrow> va_arg list \<Rightarrow> vga \<Rightarrow> vga option" where
  "vgat_vprintf [] args s = Some s"
| "vgat_vprintf (c # fmt) args s =
     (if c = NUL then Some s
      else if c \<noteq> CHR ''%'' then vgat_vprintf fmt args (print_char c s)
      else case fmt of
        [] \<Rightarrow> None
      | d # fmt1 \<Rightarrow>
          if d = CHR ''l''
          then case fmt1 of
              [] \<Rightarrow> None
            | e # fmt2 \<Rightarrow> (case text_long e args s of None \<Rightarrow> None | Some (args1, s1) \<Rightarrow> vgat_vprintf fmt2 args1 s1)
          else case text_directive d args s of None \<Rightarrow> None | Some (args1, s1) \<Rightarrow> vgat_vprintf fmt1 args1 s1)"

section \<open>The screen as a grid\<close>

text \<open>What the screen shows: the 2000 cells, row after row, and the position.\<close>

type_synonym grid = "(nat \<Rightarrow> u8 \<times> u8) \<times> nat \<times> nat"

definition grid_newline :: "grid \<Rightarrow> grid" where
  "grid_newline = (\<lambda>(g, r, c). if r < 24 then (g, r + 1, 0) else (\<lambda>i. if i < 1920 then g (i + 80) else (32, VGAT_COLOR), 24, 0))"

definition grid_char :: "char \<Rightarrow> grid \<Rightarrow> grid" where
  "grid_char ch t =
     (if ch = char_of (10 :: nat) then grid_newline t
      else case (if 80 \<le> snd (snd t) then grid_newline t else t) of
        (g, r, c) \<Rightarrow> (g(c + 80 * r := (of_char ch, VGAT_COLOR)), r, c + 1))"

definition text_memory :: "u32 \<Rightarrow> bool" where
  "text_memory a \<longleftrightarrow> 0xB8000 \<le> unat a \<and> unat a < 0xB8000 + 4000"

definition grid_shown :: "vga \<Rightarrow> grid \<Rightarrow> bool" where
  "grid_shown s = (\<lambda>(g, r, c). r < 25 \<and> c \<le> 80 \<and> vgat_row s = of_nat r \<and> vgat_col s = of_nat c
     \<and> (\<forall>i < 2000. get_cell (of_nat i) s = g i))"

definition text_only :: "vga \<Rightarrow> vga \<Rightarrow> bool" where
  "text_only s s' \<longleftrightarrow> (\<forall>a. \<not> text_memory a \<longrightarrow> vmem s' a = vmem s a) \<and> printingString s' = printingString s"

lemma cell_addr_unat:
  assumes "i < 2000"
  shows "unat (cell_addr (of_nat i)) = 0xB8000 + 2 * i" and "unat (cell_addr (of_nat i) + 1) = 0xB8000 + 2 * i + 1"
proof -
  have e: "cell_addr (of_nat i) = of_nat (0xB8000 + 2 * i)" "cell_addr (of_nat i) + 1 = of_nat (0xB8000 + 2 * i + 1)"
    by (simp_all add: cell_addr_def)
  show "unat (cell_addr (of_nat i)) = 0xB8000 + 2 * i" unfolding e(1) by (rule unat_of_nat_u32) (use assms in simp)
  show "unat (cell_addr (of_nat i) + 1) = 0xB8000 + 2 * i + 1" unfolding e(2) by (rule unat_of_nat_u32) (use assms in simp)
qed

lemma put_cell_shows:
  assumes "i < 2000"
  shows "j < 2000 \<Longrightarrow> get_cell (of_nat j) (put_cell (of_nat i) cc s) = (if j = i then cc else get_cell (of_nat j) s)"
    and "text_only s (put_cell (of_nat i) cc s)"
proof -
  note A = cell_addr_unat [OF assms]
  show "get_cell (of_nat j) (put_cell (of_nat i) cc s) = (if j = i then cc else get_cell (of_nat j) s)" if "j < 2000"
  proof -
    note B = cell_addr_unat [OF that]
    have "cell_addr (of_nat j) = cell_addr (of_nat i) \<longleftrightarrow> j = i" "cell_addr (of_nat j) + 1 = cell_addr (of_nat i) + 1 \<longleftrightarrow> j = i"
        "cell_addr (of_nat j) \<noteq> cell_addr (of_nat i) + 1" "cell_addr (of_nat j) + 1 \<noteq> cell_addr (of_nat i)"
      unfolding word_unat_eq_iff A B by presburger+
    then show ?thesis by (simp add: get_cell_def put_cell_def)
  qed
  have "text_memory (cell_addr (of_nat i))" "text_memory (cell_addr (of_nat i) + 1)"
    unfolding text_memory_def A using assms by simp_all
  then show "text_only s (put_cell (of_nat i) cc s)" by (auto simp: text_only_def put_cell_def)
qed

lemma text_only_refl: "text_only s s" and text_only_trans: "text_only s s1 \<Longrightarrow> text_only s1 s2 \<Longrightarrow> text_only s s2"
  by (simp_all add: text_only_def)

lemma put_cell_position [simp]: "vgat_row (put_cell i cc s) = vgat_row s" "vgat_col (put_cell i cc s) = vgat_col s"
  by (simp_all add: put_cell_def)

text \<open>A row of blanks, and the copy of cell after cell from the row below.\<close>

lemma clear_cells:
  "n \<le> 80 \<Longrightarrow> j < 2000 \<Longrightarrow> get_cell (of_nat j) (foldl (\<lambda>s c. put_cell (of_nat (1920 + c)) cc s) s [0..<n])
     = (if 1920 \<le> j \<and> j < 1920 + n then cc else get_cell (of_nat j) s)
   \<and> text_only s (foldl (\<lambda>s c. put_cell (of_nat (1920 + c)) cc s) s [0..<n])"
proof (induction n)
  case (Suc n)
  then show ?case
    using put_cell_shows(1) [of "1920 + n" j cc] text_only_trans [OF _ put_cell_shows(2) [of "1920 + n" _ cc]]
    by (auto simp: text_only_refl)
qed (auto simp: text_only_refl)

definition copy_cells :: "nat \<Rightarrow> vga \<Rightarrow> vga" where
  "copy_cells n s = foldl (\<lambda>s i. put_cell (of_nat i) (get_cell (of_nat (i + 80)) s) s) s [0..<n]"

lemma copy_cells_shows:
  "n \<le> 1920 \<Longrightarrow> j < 2000 \<Longrightarrow>
   get_cell (of_nat j) (copy_cells n s) = (if j < n then get_cell (of_nat (j + 80)) s else get_cell (of_nat j) s)"
proof (induction n arbitrary: j)
  case (Suc n)
  have "copy_cells (Suc n) s = put_cell (of_nat n) (get_cell (of_nat (n + 80)) (copy_cells n s)) (copy_cells n s)"
    by (simp add: copy_cells_def)
  then show ?case
    using Suc.IH [of j] Suc.IH [of "n + 80"] Suc.prems put_cell_shows(1) [of n j]
    by (auto simp: less_Suc_eq)
qed (simp add: copy_cells_def)

lemma copy_cells_only: "n \<le> 1920 \<Longrightarrow> text_only s (copy_cells n s)"
proof (induction n)
  case (Suc n)
  have "copy_cells (Suc n) s = put_cell (of_nat n) (get_cell (of_nat (n + 80)) (copy_cells n s)) (copy_cells n s)"
    by (simp add: copy_cells_def)
  then show ?case using Suc text_only_trans [OF _ put_cell_shows(2) [of n]] by simp
qed (simp add: copy_cells_def text_only_refl)

lemma rows_of_cells: "concat (map (\<lambda>r. map (\<lambda>c. c + 80 * (r - 1)) [0..<80]) [1..<Suc n]) = [0..<80 * n]"
proof (induction n)
  case (Suc n)
  have "map (\<lambda>c. c + 80 * n) [0..<80] = [80 * n..<80 * n + 80]" by (simp only: map_add_upt) (simp add: add.commute)
  then have "concat (map (\<lambda>r. map (\<lambda>c. c + 80 * (r - 1)) [0..<80]) [1..<Suc (Suc n)]) = [0..<80 * n] @ [80 * n..<80 * n + 80]"
    using Suc by simp
  moreover have "80 * Suc n = 80 * n + 80" by simp
  ultimately show ?case by (simp only: upt_add_eq_append [OF le0])
qed simp


lemma up_80: "up 0 NUM_COLS = map of_nat [0..<80]" "up 1 NUM_ROWS = map of_nat [1..<25]"
  by (simp_all add: up_def NUM_COLS_def NUM_ROWS_def)

lemma clear_row_cells: "vgat_clear_row 24 s = foldl (\<lambda>s c. put_cell (of_nat (1920 + c)) (32, VGAT_COLOR) s) s [0..<80]"
  unfolding vgat_clear_row_def up_80 foldl_map by (simp add: NUM_COLS_def add.commute)

lemma scroll_cells:
  "foldl (\<lambda>s r. foldl (\<lambda>s c. put_cell (c + NUM_COLS * (r - 1)) (get_cell (c + NUM_COLS * r) s) s) s (up 0 NUM_COLS)) s (up 1 NUM_ROWS)
   = copy_cells 1920 s"
proof -
  have row: "foldl (\<lambda>s c. put_cell (c + NUM_COLS * (of_nat r - 1)) (get_cell (c + NUM_COLS * of_nat r) s) s) s (map of_nat [0..<80])
      = foldl (\<lambda>s i. put_cell (of_nat i) (get_cell (of_nat (i + 80)) s) s) s (map (\<lambda>c. c + 80 * (r - 1)) [0..<80])"
    if "1 \<le> r" for r s
  proof -
    have w: "of_nat c + NUM_COLS * (of_nat r - 1) = of_nat (c + 80 * (r - 1))" "of_nat c + NUM_COLS * of_nat r = of_nat (c + 80 * (r - 1) + 80)" for c
      using that by (simp_all add: NUM_COLS_def of_nat_diff right_diff_distrib)
    show ?thesis unfolding foldl_map w ..
  qed
  have "foldl (\<lambda>s r. foldl (\<lambda>s c. put_cell (c + NUM_COLS * (r - 1)) (get_cell (c + NUM_COLS * r) s) s) s (up 0 NUM_COLS)) s (map of_nat rs)
      = foldl (\<lambda>s i. put_cell (of_nat i) (get_cell (of_nat (i + 80)) s) s) s (concat (map (\<lambda>r. map (\<lambda>c. c + 80 * (r - 1)) [0..<80]) rs))"
    if "\<forall>r \<in> set rs. 1 \<le> r" for rs
    using that
  proof (induction rs arbitrary: s)
    case (Cons r rs)
    then have r: "1 \<le> r" "\<forall>a \<in> set rs. 1 \<le> a" by simp_all
    show ?case using row [OF r(1), of s] Cons.IH [OF r(2)]
      by (simp only: up_80 list.map concat.simps foldl_append foldl_Cons)
  qed simp
  from this [of "[1..<25]"] show ?thesis
    using rows_of_cells [of 24] unfolding up_80(2) copy_cells_def by (simp del: upt_rec_numeral)
qed

lemma position_copied: "vgat_row (copy_cells n s) = vgat_row s" "vgat_col (copy_cells n s) = vgat_col s"
  by (induction n) (simp_all add: copy_cells_def)

lemma position_cleared:
  "vgat_row (foldl (\<lambda>s c. put_cell (f c) cc s) s cs) = vgat_row s" "vgat_col (foldl (\<lambda>s c. put_cell (f c) cc s) s cs) = vgat_col s"
  by (induction cs arbitrary: s) simp_all

definition crt_position :: "nat \<Rightarrow> nat \<Rightarrow> (u16 \<times> u8) list" where
  "crt_position r c = [(0x3D4, 14), (0x3D5, of_nat ((80 * r + c) div 256)), (0x3D4, 15), (0x3D5, of_nat ((80 * r + c) mod 256))]"

lemma vgat_update_cursor_position:
  assumes "r < 25" and "c \<le> 80"
  shows "vgat_update_cursor (of_nat r) (of_nat c) s = s\<lparr>crt_writes := crt_writes s @ crt_position r c\<rparr>"
proof -
  let ?p = "80 * r + c"
  define p where "p = ?p"
  have p: "p < 2 ^ 16" using assms by (simp add: p_def)
  have u: "unat (of_nat p :: u32) = p" "unat (of_nat p :: u16) = p"
    using p by (simp_all add: unat_of_nat take_bit_nat_eq_self)
  have "of_nat r * NUM_COLS + of_nat c = (of_nat p :: u32)" by (simp add: NUM_COLS_def p_def mult.commute)
  moreover have uc: "(ucast x :: u16) = of_nat (unat x)" for x :: u32 by simp
  ultimately have e: "ucast (of_nat r * NUM_COLS + of_nat c :: u32) = (of_nat p :: u16)"
    by (simp only: uc u)
  have uc8: "(ucast x :: u8) = of_nat (unat x)" for x :: u16 by simp
  have hi: "ucast (drop_bit 8 (of_nat p :: u16)) = (of_nat (p div 256) :: u8)"
    by (simp only: uc8 unat_drop_bit_eq u) (simp add: drop_bit_eq_div)
  have lo: "ucast (of_nat p :: u16) = (of_nat (p mod 256) :: u8)"
    unfolding uc8 u by (simp add: word_unat_eq_iff unat_of_nat take_bit_eq_mod)
  show ?thesis by (simp only: vgat_update_cursor_def Let_def e hi lo crt_position_def flip: p_def)
qed


lemma get_cell_fields [simp]:
  "get_cell i (s\<lparr>vgat_col := c\<rparr>) = get_cell i s" "get_cell i (s\<lparr>vgat_row := r\<rparr>) = get_cell i s"
  "get_cell i (s\<lparr>crt_writes := w\<rparr>) = get_cell i s" "get_cell i (s\<lparr>printingString := b\<rparr>) = get_cell i s"
  by (simp_all add: get_cell_def)

lemma text_only_fields [simp]:
  "text_only s (s'\<lparr>vgat_col := c\<rparr>) = text_only s s'" "text_only s (s'\<lparr>vgat_row := r\<rparr>) = text_only s s'"
  "text_only s (s'\<lparr>crt_writes := w\<rparr>) = text_only s s'"
  by (simp_all add: text_only_def)

lemma print_newline_grid:
  assumes "grid_shown s (g, r, c)"
  shows "grid_shown (print_newline s) (grid_newline (g, r, c)) \<and> text_only s (print_newline s)"
proof -
  define s1 where "s1 = s\<lparr>vgat_col := 0\<rparr>"
  have a: "r < 25" "vgat_row s = of_nat r" "\<And>i. i < 2000 \<Longrightarrow> get_cell (of_nat i) s = g i" using assms by (simp_all add: grid_shown_def)
  have s1: "text_only s s1" "\<And>i. i < 2000 \<Longrightarrow> get_cell (of_nat i) s1 = g i" "vgat_row s1 = of_nat r" "vgat_col s1 = 0"
    using a by (simp_all add: s1_def text_only_refl)
  have ur: "unat (of_nat r :: u32) = r" using a(1) by (intro unat_of_nat_u32) simp
  have q: "vgat_row s1 < NUM_ROWS - 1 \<longleftrightarrow> r < 24" unfolding s1(3) word_less_nat_alt ur by (simp add: NUM_ROWS_def)
  show ?thesis
  proof (cases "r < 24")
    case True
    define s2 where "s2 = s1\<lparr>vgat_row := vgat_row s1 + 1\<rparr>"
    have n: "print_newline s = vgat_update_cursor (vgat_row s2) (vgat_col s2) s2"
      using q True by (simp add: print_newline_def s1_def s2_def Let_def)
    have "vgat_row s2 = of_nat (r + 1)" "vgat_col s2 = of_nat 0" by (simp_all add: s2_def s1(3,4))
    moreover from this have "print_newline s = s2\<lparr>crt_writes := crt_writes s2 @ crt_position (r + 1) 0\<rparr>"
      unfolding n by (simp only:) (rule vgat_update_cursor_position; use True in simp)
    ultimately show ?thesis using True s1 text_only_trans [OF s1(1)]
      by (auto simp: grid_newline_def grid_shown_def s2_def)
  next
    case False
    then have r: "r = 24" using a(1) by simp
    define s2 where "s2 = vgat_clear_row 24 (copy_cells 1920 s1)"
    have c2: "text_only s1 s2" "vgat_row s2 = of_nat 24" "vgat_col s2 = of_nat 0"
      using text_only_trans [OF copy_cells_only [of 1920 s1]] clear_cells [of 80 0 _ "copy_cells 1920 s1"] s1(3,4)
      by (auto simp: s2_def clear_row_cells position_copied position_cleared r)
    have cells: "get_cell (of_nat i) s2 = (if i < 1920 then g (i + 80) else (32, VGAT_COLOR))" if "i < 2000" for i
      using that clear_cells [of 80 i "(32, VGAT_COLOR)" "copy_cells 1920 s1"] copy_cells_shows [of 1920 i s1] s1(2) [of "i + 80"]
      unfolding s2_def clear_row_cells by auto
    have n24: "NUM_ROWS - 1 = 24" by (simp add: NUM_ROWS_def)
    have n: "print_newline s = vgat_update_cursor (vgat_row s2) (vgat_col s2) s2"
      using q False scroll_cells [of s1] by (simp add: print_newline_def s1_def [symmetric] s2_def Let_def n24)
    have "print_newline s = s2\<lparr>crt_writes := crt_writes s2 @ crt_position 24 0\<rparr>"
      unfolding n c2(2,3) by (rule vgat_update_cursor_position) simp_all
    moreover have "grid_newline (g, r, c) = (\<lambda>i. if i < 1920 then g (i + 80) else (32, VGAT_COLOR), 24, 0)"
      by (simp add: grid_newline_def r)
    ultimately show ?thesis
      using text_only_trans [OF s1(1) c2(1)] c2(2,3) cells by (simp add: grid_shown_def)
  qed
qed

lemma print_char_grid:
  assumes "grid_shown s t" and "printingString s"
  shows "grid_shown (print_char ch s) (grid_char ch t) \<and> text_only s (print_char ch s)"
proof -
  obtain g r c where t: "t = (g, r, c)" by (cases t)
  show ?thesis
  proof (cases "ch = char_of (10 :: nat)")
    case True
    then show ?thesis using print_newline_grid assms(1) by (simp add: print_char_def grid_char_def t)
  next
    case False
    define s1 where "s1 = (if NUM_COLS \<le> vgat_col s then print_newline s else s)"
    obtain g1 r1 c1 where t1: "(if 80 \<le> c then grid_newline t else t) = (g1, r1, c1)" by (cases "if 80 \<le> c then grid_newline t else t")
    have c80: "c \<le> 80" "vgat_col s = of_nat c" using assms(1) by (simp_all add: grid_shown_def t)
    have "unat (of_nat c :: u32) = c" using c80(1) by (intro unat_of_nat_u32) simp
    then have q: "NUM_COLS \<le> vgat_col s \<longleftrightarrow> 80 \<le> c" unfolding c80(2) word_le_nat_alt by (simp add: NUM_COLS_def)
    have gn: "grid_shown (print_newline s) (grid_newline t)" "text_only s (print_newline s)"
      using print_newline_grid assms(1) by (simp_all add: t)
    have s1: "grid_shown s1 (g1, r1, c1)" "text_only s s1" "c1 < 80"
    proof -
      show "grid_shown s1 (g1, r1, c1)" "text_only s s1"
        using gn t1 q assms(1) by (cases "80 \<le> c"; simp add: s1_def text_only_refl)+
      show "c1 < 80" using t1 by (auto simp: t grid_newline_def split: if_splits)
    qed
    let ?i = "c1 + 80 * r1"
    have b: "r1 < 25" "vgat_row s1 = of_nat r1" "vgat_col s1 = of_nat c1" "\<And>i. i < 2000 \<Longrightarrow> get_cell (of_nat i) s1 = g1 i"
      using s1(1) by (simp_all add: grid_shown_def)
    have i: "?i < 2000" using b(1) s1(3) by simp
    define s2 where "s2 = (put_cell (of_nat ?i) (of_char ch, VGAT_COLOR) s1)\<lparr>vgat_col := of_nat (c1 + 1)\<rparr>"
    have only: "text_only s s2"
      using text_only_trans [OF s1(2) put_cell_shows(2) [OF i, of s1 "(of_char ch, VGAT_COLOR)"]] by (simp only: s2_def text_only_fields)
    then have "printingString s2" using assms(2) by (simp add: text_only_def)
    moreover have "vgat_col s1 + NUM_COLS * vgat_row s1 = of_nat ?i" by (simp add: b(2,3) NUM_COLS_def)
    ultimately have "print_char ch s = s2"
      using False by (simp add: print_char_def Let_def s1_def [symmetric] s2_def b(3) add.commute)
    moreover have "grid_char ch t = (g1(?i := (of_char ch, VGAT_COLOR)), r1, c1 + 1)"
    proof -
      have "snd (snd t) = c" by (simp add: t)
      then show ?thesis using False by (simp only: grid_char_def if_False t1 prod.case)
    qed
    moreover have "grid_shown s2 (g1(?i := (of_char ch, VGAT_COLOR)), r1, c1 + 1)"
      using b s1(3) put_cell_shows(1) [OF i, of _ "(of_char ch, VGAT_COLOR)" s1]
      by (auto simp: grid_shown_def s2_def)
    ultimately show ?thesis using only by simp
  qed
qed

lemma print_loop_grid:
  assumes "grid_shown s t" and "printingString s" and "NUL \<notin> set str"
  shows "grid_shown (print_loop str s) (fold grid_char str t) \<and> text_only s (print_loop str s)"
  using assms
proof (induction str arbitrary: s t)
  case (Cons c cs)
  have one: "grid_shown (print_char c s) (grid_char c t)" "text_only s (print_char c s)"
    using print_char_grid [OF Cons.prems(1,2)] by simp_all
  then show ?case using Cons.IH [OF one(1)] Cons.prems text_only_trans [OF one(2)] by (auto simp: text_only_def)
qed (simp add: text_only_refl)

text \<open>
  C36: in text mode, printing a string turns the grid of cells the screen shows into the one of a plain
  terminal of 25 rows of 80 columns, which goes to the next row when a character finds its row full and
  scrolls at the bottom; no byte outside the text memory changes, and the last bytes written to the
  ports put the hardware cursor at the new position.
\<close>

theorem print_str_refines_terminal:
  assumes "grid_shown s (g, r, c)" and "NUL \<notin> set str"
  shows "\<exists>g' r' c'. fold grid_char str (g, r, c) = (g', r', c') \<and> grid_shown (print_str str s) (g', r', c')
    \<and> (\<forall>a. \<not> text_memory a \<longrightarrow> vmem (print_str str s) a = vmem s a)
    \<and> (\<exists>ws. crt_writes (print_str str s) = ws @ crt_position r' c')"
proof -
  let ?s = "print_loop str (s\<lparr>printingString := True\<rparr>)"
  obtain g' r' c' where t: "fold grid_char str (g, r, c) = (g', r', c')" by (cases "fold grid_char str (g, r, c)")
  have "grid_shown (s\<lparr>printingString := True\<rparr>) (g, r, c)" using assms(1) by (simp add: grid_shown_def)
  then have l: "grid_shown ?s (g', r', c')" "text_only (s\<lparr>printingString := True\<rparr>) ?s"
    using print_loop_grid [OF _ _ assms(2), of "s\<lparr>printingString := True\<rparr>" "(g, r, c)"] by (simp_all add: t)
  then have rc: "r' < 25" "c' \<le> 80" "vgat_row ?s = of_nat r'" "vgat_col ?s = of_nat c'" by (simp_all add: grid_shown_def)
  have "print_str str s = ?s\<lparr>crt_writes := crt_writes ?s @ crt_position r' c', printingString := False\<rparr>"
    unfolding print_str_def Let_def rc(3,4) vgat_update_cursor_position [OF rc(1,2)] by simp
  then show ?thesis using l t by (auto simp: grid_shown_def text_only_def)
qed

theorem print_str_refines_terminal_witness:
  "\<exists>s'. s' = print_str ''Ok'' demo_screen \<and> get_cell 0 s' = (79, 15) \<and> get_cell 1 s' = (107, 15) \<and> vgat_col s' = 2"
proof -
  have g: "grid_shown demo_screen (\<lambda>_. (0, 0), 0, 0)" by (simp add: grid_shown_def demo_screen_def get_cell_def)
  have n: "CHR ''O'' \<noteq> char_of (10 :: nat)" "CHR ''k'' \<noteq> char_of (10 :: nat)" by (simp_all add: char_of_def)
  obtain g' r' c' where t: "fold grid_char ''Ok'' (\<lambda>_. (0, 0), 0, 0) = (g', r', c')" "grid_shown (print_str ''Ok'' demo_screen) (g', r', c')"
    using print_str_refines_terminal [OF g, of "''Ok''"] by auto
  have "g' 0 = (79, 15)" "g' 1 = (107, 15)" "c' = 2" using t(1) n by (auto simp: grid_char_def VGAT_COLOR_def)
  then show ?thesis using t(2) by (auto simp: grid_shown_def dest: spec [of _ 0] spec [of _ 1])
qed

end
