(* ===== verification/VgaFormat.thy ===== *)
theory VgaFormat
  imports VgaText Clock "HOL-Library.Monad_Syntax"
begin

text \<open>
  Formatted printing on the framebuffer, \<open>kvprintf\<close> and its callers in
  \<open>src/kernel/graphics/vga_print.cpp\<close>.  A section is passed in and given back; \<open>cmos\<close> is the clock that
  the log messages show.  A format that ends inside a directive is \<open>None\<close>, as the code goes on reading
  behind its end.
\<close>

section \<open>Directives\<close>

datatype PrintTypes = STD_PRINT | LOG_INFO | LOG_WARNING | LOG_ERROR

definition default_rgb_color :: u32 where "default_rgb_color = RGB_COLOR_WHITE"

definition kput_cstr :: "u32 \<Rightarrow> string option \<Rightarrow> vga \<Rightarrow> vga option" where
  "kput_cstr color str s = do { cs \<leftarrow> str; kputs color cs s }"

definition is_number :: "char \<Rightarrow> bool" where
  "is_number d \<longleftrightarrow> d \<in> {CHR ''d'', CHR ''u'', CHR ''x''}"

definition kput_number :: "char \<Rightarrow> u32 \<Rightarrow> 'a::len word \<Rightarrow> vga \<Rightarrow> vga option" where
  "kput_number d color n s =
     (if d = CHR ''d'' then kput_cstr color (num_to_string_s n) s
      else if d = CHR ''u'' then kput_cstr color (num_to_string_u n) s
      else do { s1 \<leftarrow> kputs color ''0x'' s; kput_cstr color (hex_to_string_u n) s1 })"

definition with32 :: "va_arg list \<Rightarrow> (u32 \<Rightarrow> vga option) \<Rightarrow> (va_arg list \<times> vga) option" where
  "with32 args f = (case args of Arg32 v # rest \<Rightarrow> map_option (Pair rest) (f v) | _ \<Rightarrow> None)"

definition with64 :: "va_arg list \<Rightarrow> (u64 \<Rightarrow> vga option) \<Rightarrow> (va_arg list \<times> vga) option" where
  "with64 args f = (case args of Arg64 v # rest \<Rightarrow> map_option (Pair rest) (f v) | _ \<Rightarrow> None)"

text \<open>
  The directive behind a percent sign: the colour, what of the format and of the arguments is left,
  and the screen.
\<close>

fun kv_directive :: "u32 \<Rightarrow> string \<Rightarrow> va_arg list \<Rightarrow> vga \<Rightarrow> (u32 \<times> string \<times> va_arg list \<times> vga) option" where
  "kv_directive color [] args s = None"
| "kv_directive color (c # fmt) args s =
     (let keep = (\<lambda>fmt'. map_option (\<lambda>(args', s'). (color, fmt', args', s'))) in
      if c = CHR ''%'' then keep fmt (map_option (Pair args) (kputchar color (CHR ''%'') s))
      else if c = CHR ''h'' then
        (case fmt of [] \<Rightarrow> None
         | d # fmt1 \<Rightarrow>
             if d = CHR ''h'' then
               (case fmt1 of [] \<Rightarrow> None
                | e # fmt2 \<Rightarrow>
                    keep fmt2 (if is_number e then with32 args (\<lambda>v. kput_number e color (ucast v :: u8) s) else Some (args, s)))
             else keep fmt1 (if is_number d then with32 args (\<lambda>v. kput_number d color (ucast v :: u16) s) else Some (args, s)))
      else if c = CHR ''l'' then
        (case fmt of [] \<Rightarrow> None
         | d # fmt1 \<Rightarrow>
             if d = CHR ''l'' then
               (case fmt1 of [] \<Rightarrow> None
                | e # fmt2 \<Rightarrow> keep fmt2 (if is_number e then with64 args (\<lambda>v. kput_number e color v s) else Some (args, s)))
             else keep fmt1 (if is_number d then with32 args (\<lambda>v. kput_number d color v s) else Some (args, s)))
      else if is_number c then keep fmt (with32 args (\<lambda>v. kput_number c color v s))
      else if c = CHR ''c'' then keep fmt (with32 args (\<lambda>v. kputchar color (char_of (unat v)) s))
      else if c = CHR ''s'' then
        (case args of ArgStr str # rest \<Rightarrow> keep fmt (map_option (Pair rest) (kput_cstr color str s)) | _ \<Rightarrow> None)
      else if c = CHR ''S'' then
        (case args of ArgString str # rest \<Rightarrow> keep fmt (map_option (Pair rest) (do { st \<leftarrow> str; kput_cstr color (c_str st) s })) | _ \<Rightarrow> None)
      else if c = CHR ''C'' then
        (case args of Arg32 v # rest \<Rightarrow> Some (v, fmt, rest, s) | _ \<Rightarrow> None)
      else if c = CHR ''p'' then
        keep fmt (with32 args (\<lambda>v. do { s1 \<leftarrow> kputs color ''0x'' s; kput_cstr color (hex_to_string_u v) s1 }))
      else Some (color, fmt, args, s))"

lemma kv_directive_shorter: "kv_directive color fmt args s = Some (color', fmt', args', s') \<Longrightarrow> length fmt' < length fmt"
  by (cases "(color, fmt, args, s)" rule: kv_directive.cases)
    (auto simp: Let_def split: if_splits list.splits va_arg.splits)

function kv_loop :: "u32 \<Rightarrow> string \<Rightarrow> va_arg list \<Rightarrow> vga \<Rightarrow> vga option" where
  "kv_loop color [] args s = Some s"
| "kv_loop color (c # fmt) args s =
     (if c = NUL then Some s
      else if c = CHR ''%'' then
        (case kv_directive color fmt args s of None \<Rightarrow> None | Some (color', fmt', args', s') \<Rightarrow> kv_loop color' fmt' args' s')
      else (case kputchar color c s of None \<Rightarrow> None | Some s' \<Rightarrow> kv_loop color fmt args s'))"
  by pat_completeness auto

termination
  by (relation "measure (\<lambda>(color, fmt, args, s). length fmt)") (auto dest: kv_directive_shorter)

section \<open>kvprintf and its callers\<close>

text \<open>What \<open>kvprintf\<close> does, with the text of a log message printed first by \<open>before\<close>.\<close>

definition kv_print :: "(vga \<Rightarrow> vga option) \<Rightarrow> vga_section option \<Rightarrow> u32 \<Rightarrow> string \<Rightarrow> va_arg list \<Rightarrow> vga
    \<Rightarrow> (vga_section option \<times> vga) option" where
  "kv_print before sect color fmt args s =
     (if vga_mode s = TEXT then map_option (Pair sect) (vgat_vprintf fmt args s)
      else do {
        let prev = curr_section s;
        s1 \<leftarrow> before (case sect of None \<Rightarrow> s | Some c \<Rightarrow> s\<lparr>curr_section := Some c\<rparr>);
        s2 \<leftarrow> kv_loop color fmt args s1;
        let (sect', s3) = (case sect of None \<Rightarrow> (None, s2) | Some _ \<Rightarrow> (curr_section s2, s2\<lparr>curr_section := prev\<rparr>));
        Some (sect', if can_update_cursor s3 then update_cursor s3 else s3) })"

definition log_prefix :: "(u8 \<Rightarrow> u8) \<Rightarrow> PrintTypes \<Rightarrow> vga \<Rightarrow> vga option" where
  "log_prefix cmos print_type s =
     (let stamp = (\<lambda>fmt. map_option snd (kv_print Some None default_rgb_color fmt [ArgStr (get_time cmos)] s)) in
      case print_type of
        STD_PRINT \<Rightarrow> Some s
      | LOG_INFO \<Rightarrow> stamp ''[INFO %s]: ''
      | LOG_WARNING \<Rightarrow> do { s1 \<leftarrow> stamp ''[WARNING %s]: ''; kputs RGB_COLOR_YELLOW ''Warning: '' s1 }
      | LOG_ERROR \<Rightarrow> do { s1 \<leftarrow> stamp ''[ERROR %s]: ''; kputs RGB_COLOR_RED ''Error: '' s1 })"

definition kvprintf :: "(u8 \<Rightarrow> u8) \<Rightarrow> vga_section option \<Rightarrow> PrintTypes \<Rightarrow> u32 \<Rightarrow> string \<Rightarrow> va_arg list \<Rightarrow> vga
    \<Rightarrow> (vga_section option \<times> vga) option" where
  "kvprintf cmos sect print_type color fmt args s = kv_print (log_prefix cmos print_type) sect color fmt args s"

definition print_coords :: "vga \<Rightarrow> u32 \<times> u32" where
  "print_coords s = (case curr_section s of Some c \<Rightarrow> (sect_col c, sect_row c) | None \<Rightarrow> (col_num s, row_num s))"

text \<open>The overloads of \<open>kprintf\<close>, for the screen and for a section; each returns where the text ended.\<close>

definition kprintf_type_color :: "(u8 \<Rightarrow> u8) \<Rightarrow> PrintTypes \<Rightarrow> u32 \<Rightarrow> string \<Rightarrow> va_arg list \<Rightarrow> vga \<Rightarrow> ((u32 \<times> u32) \<times> vga) option" where
  "kprintf_type_color cmos print_type color fmt args s =
     do { (_, s1) \<leftarrow> kvprintf cmos None print_type color fmt args s; Some (print_coords s1, s1) }"

definition kprintf :: "(u8 \<Rightarrow> u8) \<Rightarrow> string \<Rightarrow> va_arg list \<Rightarrow> vga \<Rightarrow> ((u32 \<times> u32) \<times> vga) option" where
  "kprintf cmos fmt args s =
     do { (_, s1) \<leftarrow> kvprintf cmos None STD_PRINT default_rgb_color fmt args s; Some (print_coords s1, s1) }"

definition kprintf_color :: "(u8 \<Rightarrow> u8) \<Rightarrow> u32 \<Rightarrow> string \<Rightarrow> va_arg list \<Rightarrow> vga \<Rightarrow> ((u32 \<times> u32) \<times> vga) option" where
  "kprintf_color cmos color fmt args s =
     do { (_, s1) \<leftarrow> kvprintf cmos None STD_PRINT color fmt args s; Some (print_coords s1, s1) }"

definition kprintf_type :: "(u8 \<Rightarrow> u8) \<Rightarrow> PrintTypes \<Rightarrow> string \<Rightarrow> va_arg list \<Rightarrow> vga \<Rightarrow> ((u32 \<times> u32) \<times> vga) option" where
  "kprintf_type cmos print_type fmt args s =
     do { (_, s1) \<leftarrow> kvprintf cmos None print_type default_rgb_color fmt args s; Some (print_coords s1, s1) }"

definition kprintf_sect_type_color ::
  "(u8 \<Rightarrow> u8) \<Rightarrow> vga_section \<Rightarrow> PrintTypes \<Rightarrow> u32 \<Rightarrow> string \<Rightarrow> va_arg list \<Rightarrow> vga \<Rightarrow> ((u32 \<times> u32) \<times> vga_section \<times> vga) option" where
  "kprintf_sect_type_color cmos sect print_type color fmt args s =
     do { (sect', s1) \<leftarrow> kvprintf cmos (Some sect) print_type color fmt args s; c \<leftarrow> sect'; Some ((sect_col c, sect_row c), c, s1) }"

definition kprintf_sect :: "(u8 \<Rightarrow> u8) \<Rightarrow> vga_section \<Rightarrow> string \<Rightarrow> va_arg list \<Rightarrow> vga \<Rightarrow> ((u32 \<times> u32) \<times> vga_section \<times> vga) option" where
  "kprintf_sect cmos sect fmt args s =
     do { (sect', s1) \<leftarrow> kvprintf cmos (Some sect) STD_PRINT default_rgb_color fmt args s; c \<leftarrow> sect'; Some ((sect_col c, sect_row c), c, s1) }"

definition kprintf_sect_type ::
  "(u8 \<Rightarrow> u8) \<Rightarrow> vga_section \<Rightarrow> PrintTypes \<Rightarrow> string \<Rightarrow> va_arg list \<Rightarrow> vga \<Rightarrow> ((u32 \<times> u32) \<times> vga_section \<times> vga) option" where
  "kprintf_sect_type cmos sect print_type fmt args s =
     do { (sect', s1) \<leftarrow> kvprintf cmos (Some sect) print_type default_rgb_color fmt args s; c \<leftarrow> sect'; Some ((sect_col c, sect_row c), c, s1) }"

definition kprintf_sect_color ::
  "(u8 \<Rightarrow> u8) \<Rightarrow> vga_section \<Rightarrow> u32 \<Rightarrow> string \<Rightarrow> va_arg list \<Rightarrow> vga \<Rightarrow> ((u32 \<times> u32) \<times> vga_section \<times> vga) option" where
  "kprintf_sect_color cmos sect color fmt args s =
     do { (sect', s1) \<leftarrow> kvprintf cmos (Some sect) STD_PRINT color fmt args s; c \<leftarrow> sect'; Some ((sect_col c, sect_row c), c, s1) }"

definition kvprintf_at ::
  "(u8 \<Rightarrow> u8) \<Rightarrow> u32 \<Rightarrow> u32 \<Rightarrow> PrintTypes \<Rightarrow> u32 \<Rightarrow> bool \<Rightarrow> string \<Rightarrow> va_arg list \<Rightarrow> vga \<Rightarrow> ((u32 \<times> u32) \<times> vga) option" where
  "kvprintf_at cmos col row print_type color update_pos fmt args s =
     (if screen_col_num s \<le> col \<or> screen_row_num s \<le> row then Some ((0, 0), s)
      else do {
        let original = (col_num s, row_num s);
        (_, s1) \<leftarrow> kvprintf cmos None print_type color fmt args (s\<lparr>col_num := col, row_num := row\<rparr>);
        let s2 = (if \<not> update_pos then s1\<lparr>col_num := fst original, row_num := snd original\<rparr> else s1);
        Some ((col_num s2, row_num s2), s2) })"

definition vga_insert_color :: "(u8 \<Rightarrow> u8) \<Rightarrow> u32 \<Rightarrow> u32 \<Rightarrow> u32 \<Rightarrow> bool \<Rightarrow> string \<Rightarrow> va_arg list \<Rightarrow> vga \<Rightarrow> vga option" where
  "vga_insert_color cmos col row color update_pos fmt args s =
     (if screen_col_num s \<le> col \<or> screen_row_num s \<le> row then Some s
      else map_option snd (kvprintf_at cmos col row STD_PRINT color update_pos fmt args s))"

definition vga_insert :: "(u8 \<Rightarrow> u8) \<Rightarrow> u32 \<Rightarrow> u32 \<Rightarrow> bool \<Rightarrow> string \<Rightarrow> va_arg list \<Rightarrow> vga \<Rightarrow> vga option" where
  "vga_insert cmos col row update_pos fmt args s =
     (if screen_col_num s \<le> col \<or> screen_row_num s \<le> row then Some s
      else map_option snd (kvprintf_at cmos col row STD_PRINT default_rgb_color update_pos fmt args s))"


section \<open>What a format means\<close>

text \<open>
  A format as a list of pieces, each with its value: how it is spelled, the argument it takes, and the
  text it stands for, with numbers as integers in decimal or hexadecimal.
\<close>

datatype number_width = W8 | W16 | W32 | W32l | W64
datatype number_kind = Signed | Unsigned | Hex

datatype piece =
    Plain char | Percent | Number number_width number_kind u64 | Character u32 | CString string | DString dstring string
  | Colour u32 | Pointer u32

definition nat_text :: "nat \<Rightarrow> nat \<Rightarrow> string" where
  "nat_text b n = (if n = 0 then ''0'' else map hexch (digits b n))"

definition int_text :: "int \<Rightarrow> string" where
  "int_text i = (if i < 0 then CHR ''-'' # nat_text 10 (nat (- i)) else nat_text 10 (nat i))"

fun width_bits :: "number_width \<Rightarrow> nat" where
  "width_bits W8 = 8" | "width_bits W16 = 16" | "width_bits W32 = 32" | "width_bits W32l = 32" | "width_bits W64 = 64"

fun width_spell :: "number_width \<Rightarrow> string" where
  "width_spell W8 = ''hh''" | "width_spell W16 = ''h''" | "width_spell W32 = []" | "width_spell W32l = ''l''" | "width_spell W64 = ''ll''"

fun kind_spell :: "number_kind \<Rightarrow> char" where
  "kind_spell Signed = CHR ''d''" | "kind_spell Unsigned = CHR ''u''" | "kind_spell Hex = CHR ''x''"

fun number_text :: "nat \<Rightarrow> number_kind \<Rightarrow> u64 \<Rightarrow> string" where
  "number_text n Signed v = int_text (signed_take_bit (n - 1) (uint v))"
| "number_text n Unsigned v = nat_text 10 (take_bit n (unat v))"
| "number_text n Hex v = ''0x'' @ nat_text 16 (take_bit n (unat v))"

fun spell :: "piece \<Rightarrow> string" where
  "spell (Plain c) = [c]"
| "spell Percent = ''%%''"
| "spell (Number w k v) = CHR ''%'' # width_spell w @ [kind_spell k]"
| "spell (Character v) = ''%c''"
| "spell (CString str) = ''%s''"
| "spell (DString st str) = ''%S''"
| "spell (Colour v) = ''%C''"
| "spell (Pointer v) = ''%p''"

fun piece_args :: "piece \<Rightarrow> va_arg list" where
  "piece_args (Number w k v) = [if w = W64 then Arg64 v else Arg32 (ucast v)]"
| "piece_args (Character v) = [Arg32 v]"
| "piece_args (CString str) = [ArgStr (Some str)]"
| "piece_args (DString st str) = [ArgString (Some st)]"
| "piece_args (Colour v) = [Arg32 v]"
| "piece_args (Pointer v) = [Arg32 v]"
| "piece_args _ = []"

fun piece_text :: "piece \<Rightarrow> string" where
  "piece_text (Plain c) = [c]"
| "piece_text Percent = ''%''"
| "piece_text (Number w k v) = number_text (width_bits w) k v"
| "piece_text (Character v) = [char_of (unat v)]"
| "piece_text (CString str) = str"
| "piece_text (DString st str) = str"
| "piece_text (Colour v) = []"
| "piece_text (Pointer v) = ''0x'' @ nat_text 16 (unat v)"

fun piece_ok :: "piece \<Rightarrow> bool" where
  "piece_ok (Plain c) \<longleftrightarrow> c \<noteq> CHR ''%'' \<and> c \<noteq> NUL"
| "piece_ok (CString str) \<longleftrightarrow> NUL \<notin> set str"
| "piece_ok (DString st str) \<longleftrightarrow> d_data st = Some str \<and> NUL \<notin> set str"
| "piece_ok _ \<longleftrightarrow> True"

fun render :: "u32 \<Rightarrow> piece list \<Rightarrow> (char \<times> u32) list" where
  "render color [] = []"
| "render color (p # ps) =
     map (\<lambda>c. (c, color)) (piece_text p) @ render (case p of Colour v \<Rightarrow> v | _ \<Rightarrow> color) ps"

fun put_text :: "(char \<times> u32) list \<Rightarrow> vga \<Rightarrow> vga option" where
  "put_text [] s = Some s"
| "put_text ((c, v) # cs) s = do { s1 \<leftarrow> kputchar v c s; put_text cs s1 }"

lemma put_text_fun: "put_text ((c, v) # cs) = (\<lambda>s. do { s1 \<leftarrow> kputchar v c s; put_text cs s1 })" "put_text [] = Some"
  by (simp_all add: fun_eq_iff)

lemma put_text_append: "put_text (xs @ ys) s = do { s1 \<leftarrow> put_text xs s; put_text ys s1 }"
  by (induction xs arbitrary: s) (auto split: Option.bind_splits)

lemma kputs_text: "NUL \<notin> set str \<Longrightarrow> kputs color str s = put_text (map (\<lambda>c. (c, color)) str) s"
  unfolding kputs_def
proof (induction str arbitrary: s)
  case (Cons c cs)
  then show ?case by (auto split: option.split)
qed simp

lemma kput_cstr_text: "NUL \<notin> set cs \<Longrightarrow> kput_cstr color (Some cs) = put_text (map (\<lambda>c. (c, color)) cs)"
  by (simp add: fun_eq_iff kput_cstr_def kputs_text)

lemma utoa_text: "b = 10 \<or> b = 16 \<Longrightarrow> utoa_base v b = Some (nat_text (unat b) (unat v))"
  using utoa_base_eq [of b v] by (auto simp: nat_text_def unsigned_eq_0_iff)

lemma num_text:
  fixes n :: "'a::len word"
  assumes "LENGTH('a) \<le> 64"
  shows "num_to_string_u n = Some (nat_text 10 (unat n))" "hex_to_string_u n = Some (nat_text 16 (unat n))"
    "num_to_string_s n = Some (int_text (sint n))"
proof -
  have p: "(2 :: nat) ^ LENGTH('a) \<le> 2 ^ 64" "(2 :: int) ^ (LENGTH('a) - 1) \<le> 2 ^ 63"
    using assms by (intro power_increasing; simp)+
  have "unat n < 2 ^ 64" using p(1) by (rule less_le_trans [OF unsigned_less])
  then have u: "unat (ucast n :: u64) = unat n" by (simp add: unsigned_ucast_eq take_bit_nat_eq_self)
  show "num_to_string_u n = Some (nat_text 10 (unat n))" "hex_to_string_u n = Some (nat_text 16 (unat n))"
    using u by (simp_all add: num_to_string_u_def hex_to_string_u_def utoa_text)
  have r: "- (2 ^ 63) \<le> sint n" "sint n < 2 ^ 63"
    using sint_ge [of n] sint_lt [of n] p(2) by linarith+
  have sc: "(scast n :: u64) = of_int (sint n)" by simp
  have "sint (of_int (sint n) :: u64) = signed_take_bit 63 (sint n)" by (subst signed_of_int) simp
  then have si: "sint (scast n :: u64) = sint n" unfolding sc using r by (simp only: signed_take_bit_int_eq_self)
  have un: "unat (of_int k :: u64) = nat k" if "0 \<le> k" "k \<le> 2 ^ 63" for k
    using that unfolding unat_eq_nat_uint uint_word_of_int by simp
  show "num_to_string_s n = Some (int_text (sint n))"
  proof (cases "sint n < 0")
    case True
    have "- (scast n :: u64) = of_int (- sint n)" unfolding sc by simp
    then have "unat (- (scast n :: u64)) = nat (- sint n)" using un [of "- sint n"] True r by simp
    then show ?thesis using True by (simp only: num_to_string_s_def itoa_base_def si if_True int_text_def) (simp add: utoa_text)
  next
    case False
    have "unat (scast n :: u64) = nat (sint n)" unfolding sc using un [of "sint n"] False r by simp
    then show ?thesis using False by (simp only: num_to_string_s_def itoa_base_def si if_False int_text_def) (simp add: utoa_text)
  qed
qed


lemma hexch_printable: "d < 16 \<Longrightarrow> printable (hexch d)"
proof -
  have "\<forall>d < 16. printable (hexch d)" unfolding hexch_def printable_def by code_simp
  then show "d < 16 \<Longrightarrow> printable (hexch d)" by blast
qed

lemma nat_text_printable:
  assumes "b = 10 \<or> b = 16"
  shows "\<forall>c \<in> set (nat_text b n). printable c"
proof -
  have "\<forall>d \<in> set (digits b n). printable (hexch d)" using assms digits_less [of b _ n] by (fastforce intro!: hexch_printable)
  then show ?thesis by (auto simp: nat_text_def printable_def)
qed

lemma number_text_printable: "\<forall>c \<in> set (number_text n k v). printable c"
proof -
  have p: "printable (CHR ''-'')" "printable (CHR ''0'')" "printable (CHR ''x'')" by (simp_all add: printable_def)
  show ?thesis
    using nat_text_printable [of 10] nat_text_printable [of 16] p
    by (cases k) (simp_all add: int_text_def del: of_nat_unat)
qed

lemma printable_not_nul: "\<forall>c \<in> set cs. printable c \<Longrightarrow> NUL \<notin> set cs"
  by (auto simp: printable_def)

lemma kput_number_text:
  fixes w :: "'a::len word"
  assumes "LENGTH('a) \<le> 64" and "w = ucast v"
  shows "kput_number (kind_spell k) color w s = put_text (map (\<lambda>c. (c, color)) (number_text LENGTH('a) k v)) s"
proof -
  have u: "take_bit LENGTH('a) (unat v) = unat w" by (simp add: assms(2) unsigned_ucast_eq)
  have i: "signed_take_bit (LENGTH('a) - 1) (uint v) = sint w"
    unfolding assms(2) by (simp add: signed_ucast_eq)
  note nul = printable_not_nul [OF number_text_printable]
  show ?thesis
    using nul [of "LENGTH('a)" k v] kputs_text
    by (cases k) (simp_all only: number_text.simps u i, simp_all add: kput_number_def num_text [OF assms(1)] kput_cstr_text kputs_text put_text_append put_text_fun)
qed

lemma kv_piece:
  assumes "piece_ok p"
  shows "kv_loop color (spell p @ fmt) (piece_args p @ args) s =
    do { s1 \<leftarrow> put_text (map (\<lambda>c. (c, color)) (piece_text p)) s;
         kv_loop (case p of Colour v \<Rightarrow> v | _ \<Rightarrow> color) fmt args s1 }"
proof (cases p)
  case (Number w k v)
  have n: "is_number (kind_spell k)" "kind_spell k \<notin> {CHR ''%'', CHR ''h'', CHR ''l''}" by (cases k; simp add: is_number_def)+
  have uc: "(ucast (ucast v :: u32) :: u8) = ucast v" "(ucast (ucast v :: u32) :: u16) = ucast v"
    by (rule bit_word_eqI; simp add: bit_ucast_iff)+
  have t: "kput_number (kind_spell k) color (ucast (ucast v :: u32) :: u8) s = put_text (map (\<lambda>c. (c, color)) (number_text 8 k v)) s"
    "kput_number (kind_spell k) color (ucast (ucast v :: u32) :: u16) s = put_text (map (\<lambda>c. (c, color)) (number_text 16 k v)) s"
    "kput_number (kind_spell k) color (ucast v :: u32) s = put_text (map (\<lambda>c. (c, color)) (number_text 32 k v)) s"
    "kput_number (kind_spell k) color v s = put_text (map (\<lambda>c. (c, color)) (number_text 64 k v)) s"
    using kput_number_text [where 'a = 8, of "ucast (ucast v :: u32)" v] kput_number_text [where 'a = 16, of "ucast (ucast v :: u32)" v]
      kput_number_text [where 'a = 32, of "ucast v" v] kput_number_text [where 'a = 64, of v v]
    by (simp_all add: uc)
  show ?thesis using n t by (cases w) (auto simp: Number with32_def with64_def Let_def split: option.splits)
qed (use assms in \<open>auto simp: with32_def Let_def is_number_def kput_cstr_text kputs_text num_text c_str_def put_text_append put_text_fun
    printable_not_nul [OF nat_text_printable] split: option.splits Option.bind_splits\<close>)

lemma kv_pieces:
  "\<forall>p \<in> set ps. piece_ok p \<Longrightarrow> kv_loop color (concat (map spell ps)) (concat (map piece_args ps)) s = put_text (render color ps) s"
proof (induction ps arbitrary: color s)
  case (Cons p ps)
  then show ?case by (simp add: kv_piece put_text_append cong: Option.bind_cong)
qed simp


section \<open>A formatted print on the console\<close>

definition shown :: "char \<Rightarrow> bool" where
  "shown c \<longleftrightarrow> printable c \<or> c = newline_char"

fun piece_shown :: "piece \<Rightarrow> bool" where
  "piece_shown (Plain c) \<longleftrightarrow> shown c \<and> c \<noteq> CHR ''%''"
| "piece_shown (Character v) \<longleftrightarrow> shown (char_of (unat v))"
| "piece_shown (CString str) \<longleftrightarrow> (\<forall>c \<in> set str. shown c)"
| "piece_shown (DString st str) \<longleftrightarrow> d_data st = Some str \<and> (\<forall>c \<in> set str. shown c)"
| "piece_shown _ \<longleftrightarrow> True"

lemma nul_not_shown: "\<not> shown NUL"
proof -
  have "of_char NUL = (0 :: nat)" "of_char newline_char = (10 :: nat)" by (simp_all add: newline_char_def)
  then show ?thesis unfolding shown_def printable_def by (metis not_numeral_le_zero zero_neq_numeral)
qed

lemma piece_shown_text:
  assumes "piece_shown p"
  shows "piece_ok p" and "\<forall>c \<in> set (piece_text p). shown c"
proof -
  have pr: "printable c \<Longrightarrow> shown c" for c by (simp add: shown_def)
  show "piece_ok p" using assms nul_not_shown by (cases p) auto
  have "printable (CHR ''%'')" "printable (CHR ''0'')" "printable (CHR ''x'')" by (simp_all add: printable_def)
  then show "\<forall>c \<in> set (piece_text p). shown c"
    using assms number_text_printable nat_text_printable [of 16] by (cases p) (auto intro: pr simp: shown_def)
qed

lemma render_shown: "\<forall>p \<in> set ps. piece_shown p \<Longrightarrow> \<forall>cv \<in> set (render color ps). shown (fst cv)"
  by (induction ps arbitrary: color) (auto simp: piece_shown_text(2))

definition term_text :: "vga \<Rightarrow> (char \<times> u32) list \<Rightarrow> text_line list \<Rightarrow> text_line list" where
  "term_text s cs t = fold (\<lambda>(c, v). term_char (line_cap s) (screen_rows s) v c) cs t"

lemma put_text_console:
  assumes "console_shows s t" and "\<forall>cv \<in> set cs. shown (fst cv)"
  shows "\<exists>s'. put_text cs s = Some s' \<and> same_console s s' \<and> console_shows s' (term_text s cs t)"
  using assms
proof (induction cs arbitrary: s t)
  case Nil
  then show ?case by (simp add: term_text_def same_console_def)
next
  case (Cons cv cs)
  obtain c v where cv: "cv = (c, v)" by (cases cv)
  obtain s1 where s1: "kputchar v c s = Some s1" "same_console s s1" "console_shows s1 (term_char (line_cap s) (screen_rows s) v c t)"
    using kputchar_console [OF Cons.prems(1), of c v] Cons.prems(2) by (auto simp: cv shown_def)
  show ?case
    using Cons.IH [OF s1(3)] Cons.prems(2) s1(1,2) same_console_fields(2,3) [OF s1(2)] same_console_trans [OF s1(2)]
    by (fastforce simp: cv term_text_def)
qed

text \<open>
  C16: printing with a format that is spelled from any list of pieces, with the arguments of the pieces,
  on a console that shows lines of text prints exactly their meaning, numbers of every width as the
  integer they stand for and each character in the colour in force, as the same terminal would; it
  changes nothing else.
\<close>

theorem kvprintf_prints_pieces:
  assumes "console_shows s t" and "vga_mode s = FRAMEBUFFER" and "\<not> can_update_cursor s" and "\<forall>p \<in> set ps. piece_shown p"
  shows "\<exists>s'. kvprintf cmos None STD_PRINT color (concat (map spell ps)) (concat (map piece_args ps)) s = Some (None, s')
    \<and> console_shows s' (term_text s (render color ps) t) \<and> same_console s s'"
proof -
  obtain s' where s': "put_text (render color ps) s = Some s'" "same_console s s'" "console_shows s' (term_text s (render color ps) t)"
    using put_text_console [OF assms(1) render_shown [OF assms(4)], of color] by blast
  have "kv_loop color (concat (map spell ps)) (concat (map piece_args ps)) s = Some s'"
    using kv_pieces [of ps color s] assms(4) s'(1) by (simp add: piece_shown_text(1))
  then show ?thesis
    using s' same_console_fields(9) [OF s'(2)] assms(2,3) by (simp add: kvprintf_def kv_print_def log_prefix_def)
qed

lemma same_console_mode:
  assumes "same_console s s'"
  shows "vga_mode s' = vga_mode s"
proof -
  obtain m c r where "s' = s\<lparr>vmem := m, col_num := c, row_num := r\<rparr>" using assms unfolding same_console_def by blast
  then show ?thesis by simp
qed

theorem kvprintf_prints_pieces_witness:
  "\<exists>s'. kvprintf (\<lambda>_. 0) None STD_PRINT 7 ''%hhd%%'' [Arg32 255] (clear_screen demo_screen) = Some (None, s')
    \<and> console_shows s' [[(CHR ''-'', 7), (CHR ''1'', 7), (CHR ''%'', 7)], []]"
proof -
  note cl = clear_screen_console [OF demo_console]
  have z: "vga_mode (clear_screen demo_screen) = FRAMEBUFFER" "\<not> can_update_cursor (clear_screen demo_screen)"
      "line_cap (clear_screen demo_screen) = 3" "screen_rows (clear_screen demo_screen) = 4"
    using same_console_fields(2,3,9) [OF cl(1)] same_console_mode [OF cl(1)]
    by (simp_all add: demo_screen_def line_cap_def screen_rows_def)
  let ?ps = "[Number W8 Signed 255, Percent]"
  have d: "digits 10 (Suc 0) = [1]" by (simp add: digits.simps)
  have st: "signed_take_bit 7 (255 :: int) = - 1" by code_simp
  have n: "CHR ''-'' \<noteq> newline_char" "CHR ''1'' \<noteq> newline_char" "CHR ''%'' \<noteq> newline_char" by (simp_all add: newline_char_def char_of_def)
  have r: "render 7 ?ps = [(CHR ''-'', 7), (CHR ''1'', 7), (CHR ''%'', 7)]"
    using st by (simp add: int_text_def nat_text_def d hexch_def)
  have "term_text (clear_screen demo_screen) (render 7 ?ps) [[]] = [[(CHR ''-'', 7), (CHR ''1'', 7), (CHR ''%'', 7)], []]"
    unfolding r term_text_def z(3,4) using n by (simp add: term_char_def term_newline_def)
  then show ?thesis using kvprintf_prints_pieces [OF cl(2) z(1,2), of ?ps "\<lambda>_. 0" 7] by auto
qed

end
