(* ===== verification/Ahci.thy ===== *)
theory Ahci
  imports Memory Pci "HOL-Library.Monad_Syntax"
begin

text \<open>
  \<open>src/kernel/drivers/ahci.cpp\<close> with \<open>include/drivers/ahci.hpp\<close>, and the table of AHCI devices of
  \<open>device.cpp\<close>: resetting the controller, its ports and their memory, identifying the drives behind
  them, and transfers with commands in memory.  Printing is left out.

  The controller is not code of the repository.  It is a function that gives the answer to every
  register read, and one that gives the effect on memory of every access or delay, both from all the
  accesses so far.  The frames the frame allocator will hand out, whatever is freed, are a list.  A wait that does not end, and a
  shift of a 32-bit address by 32, are \<open>None\<close>.  The regions passed to \<open>identity_map_region\<close> are recorded.
\<close>

section \<open>The controller\<close>

datatype access = Rd u32 | Wr u32 u32 | Delay

record ahci_device =
  ah_model :: "u8 list"
  ah_serial :: "u8 list"
  ah_firmware :: "u8 list"
  ah_total_sectors :: u64
  ah_ahci :: u32
  ah_port :: u32

record ahci =
  ram :: mem
  accesses :: "access list"
  answer :: "access list \<Rightarrow> u32 \<Rightarrow> u32"
  effect :: "access list \<Rightarrow> mem \<Rightarrow> mem"
  frames :: "u32 list"
  drivers :: "(PciDevice \<times> u32) list"
  ahci_devices :: "ahci_device list"
  mapped_regions :: "(u32 \<times> u32) list"
  heap_ok :: bool

definition happens :: "access \<Rightarrow> ahci \<Rightarrow> ahci" where
  "happens e s = s\<lparr>accesses := accesses s @ [e], ram := effect s (accesses s @ [e]) (ram s)\<rparr>"

definition rd :: "u32 \<Rightarrow> ahci \<Rightarrow> u32 \<times> ahci" where
  "rd a s = (answer s (accesses s) a, happens (Rd a) s)"

definition wr :: "u32 \<Rightarrow> u32 \<Rightarrow> ahci \<Rightarrow> ahci" where
  "wr a v s = happens (Wr a v) s"

definition rd_or :: "u32 \<Rightarrow> u32 \<Rightarrow> ahci \<Rightarrow> ahci" where
  "rd_or a bits s = (case rd a s of (v, s1) \<Rightarrow> wr a (v OR bits) s1)"

definition rd_clear :: "u32 \<Rightarrow> u32 \<Rightarrow> ahci \<Rightarrow> ahci" where
  "rd_clear a bits s = (case rd a s of (v, s1) \<Rightarrow> wr a (v AND NOT bits) s1)"

definition GHC_AE :: u32 where "GHC_AE = push_bit 31 1"
definition GHC_HR :: u32 where "GHC_HR = 1"
definition GHC_IE :: u32 where "GHC_IE = 2"
definition PxCMD_ST :: u32 where "PxCMD_ST = 1"
definition PxCMD_FRE :: u32 where "PxCMD_FRE = 0x10"
definition PxCMD_FR :: u32 where "PxCMD_FR = 0x4000"
definition PxCMD_CR :: u32 where "PxCMD_CR = 0x8000"
definition IS_IPS :: "nat \<Rightarrow> u32" where "IS_IPS x = push_bit x 1"
definition ATA_CMD_READ_DMA_EX :: u8 where "ATA_CMD_READ_DMA_EX = 0x25"
definition ATA_CMD_WRITE_DMA_EX :: u8 where "ATA_CMD_WRITE_DMA_EX = 0x35"
definition ATA_CMD_IDENTIFY :: u8 where "ATA_CMD_IDENTIFY = 0xEC"
definition ATA_DEV_BUSY :: u32 where "ATA_DEV_BUSY = 0x80"
definition ATA_DEV_DRQ :: u32 where "ATA_DEV_DRQ = 0x08"
definition SATA_SIG_ATA :: u32 where "SATA_SIG_ATA = 0x00000101"
definition FIS_TYPE_REG_H2D :: u8 where "FIS_TYPE_REG_H2D = 0x27"

text \<open>The registers of the controller and of a port.\<close>

definition hba_cap :: "u32 \<Rightarrow> u32" where "hba_cap h = h"
definition hba_ghc :: "u32 \<Rightarrow> u32" where "hba_ghc h = h + 0x04"
definition hba_is :: "u32 \<Rightarrow> u32" where "hba_is h = h + 0x08"
definition hba_pi :: "u32 \<Rightarrow> u32" where "hba_pi h = h + 0x0C"
definition hba_port :: "u32 \<Rightarrow> nat \<Rightarrow> u32" where "hba_port h i = h + 0x100 + 0x80 * of_nat i"
definition px_clb :: "u32 \<Rightarrow> u32" where "px_clb p = p"
definition px_fb :: "u32 \<Rightarrow> u32" where "px_fb p = p + 0x08"
definition px_is :: "u32 \<Rightarrow> u32" where "px_is p = p + 0x10"
definition px_ie :: "u32 \<Rightarrow> u32" where "px_ie p = p + 0x14"
definition px_cmd :: "u32 \<Rightarrow> u32" where "px_cmd p = p + 0x18"
definition px_tfd :: "u32 \<Rightarrow> u32" where "px_tfd p = p + 0x20"
definition px_sig :: "u32 \<Rightarrow> u32" where "px_sig p = p + 0x24"
definition px_ssts :: "u32 \<Rightarrow> u32" where "px_ssts p = p + 0x28"
definition px_sctl :: "u32 \<Rightarrow> u32" where "px_sctl p = p + 0x2C"
definition px_serr :: "u32 \<Rightarrow> u32" where "px_serr p = p + 0x30"
definition px_sact :: "u32 \<Rightarrow> u32" where "px_sact p = p + 0x34"
definition px_ci :: "u32 \<Rightarrow> u32" where "px_ci p = p + 0x38"

section \<open>Waiting\<close>

partial_function (option) wait_while :: "bool \<Rightarrow> u32 \<Rightarrow> u32 \<Rightarrow> ahci \<Rightarrow> ahci option" where
  "wait_while delay a bits s =
     (case rd a s of (v, s1) \<Rightarrow>
        if v AND bits \<noteq> 0 then wait_while delay a bits (if delay then happens Delay s1 else s1) else Some s1)"

text \<open>\<open>wait_bit_clear\<close> gets the value of the register, not the register; the timeout is positive.\<close>

fun wait_bit_loop :: "u32 \<Rightarrow> u32 \<Rightarrow> nat \<Rightarrow> ahci \<Rightarrow> bool \<times> ahci" where
  "wait_bit_loop value bits 0 s = (False, s)"
| "wait_bit_loop value bits (Suc n) s = (if value AND bits = 0 then (True, s) else wait_bit_loop value bits n (happens Delay s))"

definition wait_bit_clear :: "u32 \<Rightarrow> u32 \<Rightarrow> nat \<Rightarrow> ahci \<Rightarrow> bool \<times> ahci" where
  "wait_bit_clear value bits timeout_ms s = wait_bit_loop value bits (timeout_ms - 1) s"

fun connection_loop :: "u32 \<Rightarrow> nat \<Rightarrow> ahci \<Rightarrow> bool \<times> ahci" where
  "connection_loop p 0 s = (False, s)"
| "connection_loop p (Suc n) s =
     (case rd (px_ssts p) s of (v, s1) \<Rightarrow> if v AND 0x0F = 3 then (True, s1) else connection_loop p n (happens Delay s1))"

definition check_connection :: "u32 \<Rightarrow> ahci \<Rightarrow> bool \<times> ahci" where
  "check_connection p s = connection_loop p 1000 s"

section \<open>Resets, starting and stopping\<close>

definition port_reset :: "u32 \<Rightarrow> ahci \<Rightarrow> bool \<times> ahci" where
  "port_reset p s =
     (let s1 = rd_clear (px_cmd p) 1 s;
          (v, s2) = rd (px_cmd p) s1;
          s3 = snd (wait_bit_clear v (PxCMD_CR OR PxCMD_FR) 500 s2);
          s4 = happens Delay (rd_or (px_sctl p) 1 (rd_clear (px_sctl p) 0xF s3));
          (ok, s5) = check_connection p (rd_clear (px_sctl p) 0xF s4)
      in if \<not> ok then (False, s5) else (True, wr (px_serr p) 0xFFFFFFFF s5))"

definition hba_reset :: "u32 \<Rightarrow> ahci \<Rightarrow> bool \<times> ahci" where
  "hba_reset h s = (case rd (hba_ghc h) (rd_or (hba_ghc h) 1 s) of (v, s1) \<Rightarrow> wait_bit_clear v 1 1000 s1)"

definition start_cmd :: "u32 \<Rightarrow> ahci \<Rightarrow> (bool \<times> ahci) option" where
  "start_cmd p s =
     do { s1 \<leftarrow> wait_while False (px_cmd p) PxCMD_CR s;
          Some (True, rd_or (px_cmd p) PxCMD_ST (rd_or (px_cmd p) PxCMD_FRE s1)) }"

definition stop_cmd :: "u32 \<Rightarrow> ahci \<Rightarrow> bool \<times> ahci" where
  "stop_cmd p s =
     (case rd (px_cmd p) (rd_clear (px_cmd p) PxCMD_FRE (rd_clear (px_cmd p) PxCMD_ST s)) of
        (v, s1) \<Rightarrow> wait_bit_clear v (PxCMD_CR OR PxCMD_FR) 500 s1)"

section \<open>Commands in memory\<close>

definition write16 :: "mem \<Rightarrow> u32 \<Rightarrow> u16 \<Rightarrow> mem" where
  "write16 m a v = m(a := ucast v, a + 1 := ucast (drop_bit 8 v))"

fun slot_loop :: "nat \<Rightarrow> nat \<Rightarrow> u32 \<Rightarrow> nat option" where
  "slot_loop 0 i busy = None"
| "slot_loop (Suc n) i busy = (if busy AND 1 = 0 then Some i else slot_loop n (i + 1) (drop_bit 1 busy))"

definition find_cmdslot :: "u32 \<Rightarrow> ahci \<Rightarrow> nat option \<times> ahci" where
  "find_cmdslot p s =
     (let (sact, s1) = rd (px_sact p) s; (ci, s2) = rd (px_ci p) s1 in (slot_loop 32 0 (sact OR ci), s2))"

definition FIS_dwords :: u8 where "FIS_dwords = 5"
definition sizeof_cmd_tbl :: u32 where "sizeof_cmd_tbl = 144"

text \<open>The header at \<open>h\<close>: its length and write bits, and one table entry.\<close>

definition put_header :: "u32 \<Rightarrow> bool \<Rightarrow> mem \<Rightarrow> mem" where
  "put_header h w m =
     (let m1 = m(h := (m h AND 0xE0) OR FIS_dwords);
          m2 = m1(h := (m1 h AND NOT 0x40) OR (if w then 0x40 else 0))
      in write16 m2 (h + 2) 1)"

text \<open>The table entry at \<open>t\<close>: the buffer and the low 22 bits of the byte count, with an interrupt.\<close>

definition put_prdt :: "u32 \<Rightarrow> u32 \<Rightarrow> u32 \<Rightarrow> mem \<Rightarrow> mem" where
  "put_prdt t buffer dbc m =
     (let m1 = write32 m (t + 0x80) buffer; m2 = write32 m1 (t + 0x84) 0;
          m3 = write32 m2 (t + 0x8C) ((read32 m2 (t + 0x8C) AND NOT 0x3FFFFF) OR (dbc AND 0x3FFFFF))
      in write32 m3 (t + 0x8C) (read32 m3 (t + 0x8C) OR 0x80000000))"

definition put_fis_head :: "u32 \<Rightarrow> u8 \<Rightarrow> mem \<Rightarrow> mem" where
  "put_fis_head t command m =
     (let m1 = m(t := FIS_TYPE_REG_H2D); m2 = m1(t + 1 := m1 (t + 1) OR 0x80) in m2(t + 2 := command))"

definition put_fis_lba48 :: "u32 \<Rightarrow> u64 \<Rightarrow> u32 \<Rightarrow> mem \<Rightarrow> mem" where
  "put_fis_lba48 t sector cnt m =
     m(t + 4 := ucast sector, t + 5 := ucast (drop_bit 8 sector), t + 6 := ucast (drop_bit 16 sector), t + 7 := 0x40,
       t + 8 := ucast (drop_bit 24 sector), t + 9 := ucast (drop_bit 32 sector), t + 10 := ucast (drop_bit 40 sector),
       t + 12 := ucast (cnt AND 0xFF), t + 13 := ucast (drop_bit 8 cnt AND 0xFF))"

partial_function (option) wait_done :: "u32 \<Rightarrow> nat \<Rightarrow> ahci \<Rightarrow> (bool \<times> ahci) option" where
  "wait_done p slot s =
     (case rd (px_is p) s of (i, s1) \<Rightarrow>
        if i AND push_bit 30 1 \<noteq> 0 then Some (False, s1)
        else case rd (px_ci p) s1 of (c, s2) \<Rightarrow>
          if c AND push_bit slot 1 = 0 then Some (True, s2) else wait_done p slot s2)"

definition BUSY :: u32 where "BUSY = ATA_DEV_BUSY OR ATA_DEV_DRQ"

text \<open>What \<open>read\<close> and \<open>write\<close> have in common, word for word but for the write bit and the command.\<close>

definition dma_transfer :: "bool \<Rightarrow> u8 \<Rightarrow> u32 \<Rightarrow> u64 \<Rightarrow> u32 \<Rightarrow> u32 \<Rightarrow> ahci \<Rightarrow> (bool \<times> ahci) option" where
  "dma_transfer w command p sector cnt buffer s =
     (let s1 = wr (px_is p) 0xFFFFFFFF s; (found, s2) = find_cmdslot p s1 in
      case found of None \<Rightarrow> Some (False, s2)
      | Some slot \<Rightarrow>
          let (clb, s3) = rd (px_clb p) s2;
              h = clb + 32 * of_nat slot;
              m1 = put_header h w (ram s3);
              t = read32 m1 (h + 8);
              m2 = put_prdt t buffer (cnt * 512 - 1) (memset m1 t 0 sizeof_cmd_tbl);
              m3 = put_fis_lba48 t sector cnt (put_fis_head t command m2)
          in do { s4 \<leftarrow> wait_while False (px_tfd p) BUSY (s3\<lparr>ram := m3\<rparr>);
                  wait_done p slot (wr (px_ci p) (push_bit slot 1) s4) })"

definition ahci_read :: "u32 \<Rightarrow> u64 \<Rightarrow> u32 \<Rightarrow> u32 \<Rightarrow> ahci \<Rightarrow> (bool \<times> ahci) option" where
  "ahci_read p sector cnt buffer s = dma_transfer False ATA_CMD_READ_DMA_EX p sector cnt buffer s"

definition ahci_write :: "u32 \<Rightarrow> u64 \<Rightarrow> u32 \<Rightarrow> u32 \<Rightarrow> ahci \<Rightarrow> (bool \<times> ahci) option" where
  "ahci_write p sector cnt buffer s = dma_transfer True ATA_CMD_WRITE_DMA_EX p sector cnt buffer s"

definition ahci_identify :: "u32 \<Rightarrow> u32 \<Rightarrow> ahci \<Rightarrow> (bool \<times> ahci) option" where
  "ahci_identify p buffer s =
     (let s1 = wr (px_ie p) 0 (wr (px_is p) 0xFFFFFFFF s); (found, s2) = find_cmdslot p s1 in
      case found of None \<Rightarrow> Some (False, s2)
      | Some slot \<Rightarrow>
          let (clb, s3) = rd (px_clb p) s2;
              h = clb + 32 * of_nat slot;
              m1 = put_header h False (ram s3);
              t = read32 m1 (h + 8);
              m2 = put_prdt t buffer 511 (memset m1 t 0 sizeof_cmd_tbl);
              m3 = (put_fis_head t ATA_CMD_IDENTIFY m2)(t + 7 := 0)
          in do { s4 \<leftarrow> wait_while False (px_tfd p) BUSY (s3\<lparr>ram := m3\<rparr>);
                  let (cmd, s5) = rd (px_cmd p) s4;
                  s6 \<leftarrow> (if cmd AND PxCMD_ST = 0 then do { (_, s') \<leftarrow> start_cmd p s5; Some (happens Delay s') } else Some s5);
                  wait_done p slot (wr (px_ci p) (push_bit slot 1) s6) })"

definition AhciDevice_read :: "u32 \<Rightarrow> u32 \<Rightarrow> u64 \<Rightarrow> u64 \<Rightarrow> ahci \<Rightarrow> ahci option" where
  "AhciDevice_read p buffer lba sectors s = map_option snd (ahci_read p lba (ucast sectors) buffer s)"

definition AhciDevice_write :: "u32 \<Rightarrow> u32 \<Rightarrow> u64 \<Rightarrow> u64 \<Rightarrow> ahci \<Rightarrow> ahci option" where
  "AhciDevice_write p buffer lba sectors s = map_option snd (ahci_write p lba (ucast sectors) buffer s)"

section \<open>Drives\<close>

definition mem_bytes :: "mem \<Rightarrow> u32 \<Rightarrow> nat \<Rightarrow> u8 list" where
  "mem_bytes m a n = map (\<lambda>i. m (a + of_nat i)) [0..<n]"

fun swap_string :: "'a list \<Rightarrow> 'a list" where
  "swap_string (x # y # xs) = y # x # swap_string xs"
| "swap_string xs = xs"

text \<open>The strings come with a NUL behind them; the copies that are stored get one of their own.\<close>

definition save_ahci_device :: "u8 list \<Rightarrow> u8 list \<Rightarrow> u8 list \<Rightarrow> u64 \<Rightarrow> u32 \<Rightarrow> u32 \<Rightarrow> ahci \<Rightarrow> ahci" where
  "save_ahci_device model serial firmware sectors driver p s =
     (if \<not> heap_ok s then s
      else s\<lparr>ahci_devices := ahci_devices s @ [\<lparr>ah_model = take 40 model @ [0], ah_serial = take 20 serial @ [0],
        ah_firmware = take 8 firmware @ [0], ah_total_sectors = sectors, ah_ahci = driver, ah_port = p\<rparr>]\<rparr>)"

definition take_frame :: "ahci \<Rightarrow> (u32 \<times> ahci) option" where
  "take_frame s = (case frames s of [] \<Rightarrow> None | f # fs \<Rightarrow> Some (f, s\<lparr>frames := fs\<rparr>))"

definition configure_drive :: "u32 \<Rightarrow> u32 \<Rightarrow> ahci \<Rightarrow> ahci option" where
  "configure_drive driver p s =
     do {
       (buffer, s1) \<leftarrow> take_frame s;
       (ok, s2) \<leftarrow> ahci_identify p buffer (s1\<lparr>ram := memset (ram s1) buffer 0 512\<rparr>);
       let m = ram s2;
       let model = swap_string (mem_bytes m (buffer + 54) 40) @ [0];
       let serial = swap_string (mem_bytes m (buffer + 20) 20) @ [0];
       let firmware = swap_string (mem_bytes m (buffer + 46) 8) @ [0];
       let lba48 = (ucast (read32 m (buffer + 200)) :: u64) OR push_bit 32 (ucast (read32 m (buffer + 204)));
       let sectors = (if lba48 = 0 then ucast (read32 m (buffer + 120)) else lba48);
       let s3 = (if ok then save_ahci_device model serial firmware sectors driver p s2 else s2);
       Some s3 }"

definition probe_port :: "u32 \<Rightarrow> u32 \<Rightarrow> nat \<Rightarrow> ahci \<Rightarrow> ahci option" where
  "probe_port driver h i s =
     (let p = hba_port h i; (v, s1) = rd (px_ssts p) s in
      if v AND 0x0F \<noteq> 3 then Some s1
      else let (v, s2) = rd (px_ssts p) s1 in
        if drop_bit 8 v AND 0x0F \<noteq> 1 then Some s2
        else let (sig, s3) = rd (px_sig p) s2 in
          if sig = SATA_SIG_ATA then configure_drive driver p s3
          else if sig = 0xEB140101 \<or> sig = 0x96690101 then Some s3
          else Some (snd (rd (px_sig p) s3)))"

fun each_port :: "u32 \<Rightarrow> (nat \<Rightarrow> ahci \<Rightarrow> ahci option) \<Rightarrow> nat list \<Rightarrow> ahci \<Rightarrow> ahci option" where
  "each_port pi f [] s = Some s"
| "each_port pi f (i # is) s = do { s1 \<leftarrow> (if bit pi i then f i s else Some s); each_port pi f is s1 }"

definition probe_ports :: "u32 \<Rightarrow> u32 \<Rightarrow> ahci \<Rightarrow> ahci option" where
  "probe_ports driver h s = (case rd (hba_pi h) s of (pi, s1) \<Rightarrow> each_port pi (probe_port driver h) [0..<32] s1)"

section \<open>Initialisation\<close>

text \<open>
  The attempts to stop a port, of which two are left at first; the result tells whether the port stays
  in the map of ports.
\<close>

fun stop_port :: "nat \<Rightarrow> u32 \<Rightarrow> ahci \<Rightarrow> bool \<times> ahci" where
  "stop_port 0 p s = (False, s)"
| "stop_port (Suc n) p s =
     (let (v, s1) = rd (px_cmd p) s in
      if v AND (PxCMD_ST OR PxCMD_CR OR PxCMD_FRE OR PxCMD_FR) = 0 then (True, s1)
      else let (v, s2) = rd (px_cmd p) (rd_clear (px_cmd p) PxCMD_ST s1);
               (v, s3) = rd (px_cmd p) (snd (wait_bit_clear v PxCMD_CR 500 s2))
           in if v AND PxCMD_CR \<noteq> 0 then stop_port n p (snd (port_reset p s3))
              else let (v, s4) = rd (px_cmd p) s3 in
                if v AND PxCMD_FRE = 0 then (True, s4)
                else let (v, s5) = rd (px_cmd p) (rd_clear (px_cmd p) PxCMD_FRE s4);
                         (v, s6) = rd (px_cmd p) (snd (wait_bit_clear v PxCMD_FR 500 s5))
                     in if v AND PxCMD_FR \<noteq> 0 then stop_port n p (snd (port_reset p s6)) else (True, s6))"

fun stop_ports :: "u32 \<Rightarrow> nat list \<Rightarrow> u32 \<Rightarrow> ahci \<Rightarrow> u32 \<times> ahci" where
  "stop_ports h [] pi s = (pi, s)"
| "stop_ports h (i # is) pi s =
     (if \<not> bit pi i then stop_ports h is pi s
      else case stop_port 2 (hba_port h i) s of
        (ok, s1) \<Rightarrow> stop_ports h is (if ok then pi else pi AND NOT (push_bit i 1)) s1)"

text \<open>The upper half of a register is only written on a controller with 64-bit addresses.\<close>

definition needs_upper :: "u32 \<Rightarrow> ahci \<Rightarrow> ahci option" where
  "needs_upper h s = (case rd (hba_cap h) s of (cap, s1) \<Rightarrow> if bit cap 31 then None else Some s1)"

fun link_tables :: "u32 \<Rightarrow> u32 \<Rightarrow> u32 \<Rightarrow> nat list \<Rightarrow> ahci \<Rightarrow> ahci option" where
  "link_tables h hdr tbl [] s = Some s"
| "link_tables h hdr tbl (j # js) s =
     do { let a = hdr + 32 * of_nat j;
          s1 \<leftarrow> needs_upper h (s\<lparr>ram := write32 (write16 (ram s) (a + 2) 8) (a + 8) (tbl + of_nat j * 256)\<rparr>);
          link_tables h hdr tbl js s1 }"

definition port_memory :: "u32 \<Rightarrow> nat \<Rightarrow> ahci \<Rightarrow> ahci option" where
  "port_memory h i s =
     do {
       let p = hba_port h i;
       (frame, s1) \<leftarrow> take_frame s;
       s2 \<leftarrow> needs_upper h (wr (px_clb p) frame (s1\<lparr>ram := memset (ram s1) frame 0 0x1000\<rparr>));
       s3 \<leftarrow> needs_upper h (wr (px_fb p) (frame + 1024) s2);
       (tbl, s4) \<leftarrow> take_frame s3;
       let (hdr, s5) = rd (px_clb p) (s4\<lparr>ram := memset (ram s4) tbl 0 8192\<rparr>);
       s6 \<leftarrow> link_tables h hdr tbl [0..<32] s5;
       Some (rd_or (px_cmd p) PxCMD_FRE s6) }"

definition clear_errors :: "u32 \<Rightarrow> nat \<Rightarrow> ahci \<Rightarrow> ahci option" where
  "clear_errors h i s = Some (wr (px_serr (hba_port h i)) 0xFFFFFFFF s)"

definition enable_port :: "u32 \<Rightarrow> nat \<Rightarrow> ahci \<Rightarrow> ahci option" where
  "enable_port h i s =
     Some (wr (px_ie (hba_port h i)) 0xFDC000FF (wr (hba_is h) (IS_IPS i) (wr (px_is (hba_port h i)) 0xFFFFFFFF s)))"

definition init_dev :: "PciDevice \<Rightarrow> 'z pci_scheme \<Rightarrow> ahci \<Rightarrow> ('z pci_scheme \<times> ahci) option" where
  "init_dev dev ps s =
     (case get_bar dev 5 ps of (h, ps1) \<Rightarrow>
      do {
        let driver = of_nat (length (drivers s));
        let s0 = s\<lparr>drivers := drivers s @ [(dev, h)], mapped_regions := mapped_regions s @ [(h, h + 2 * 4096)]\<rparr>;
        s1 \<leftarrow> wait_while True (hba_ghc h) GHC_HR (rd_or (hba_ghc h) GHC_HR (rd_or (hba_ghc h) GHC_AE s0));
        let (pi, s2) = rd (hba_pi h) (rd_or (hba_ghc h) GHC_AE s1);
        let (pi, s3) = stop_ports h [0..<32] pi s2;
        let (cap, s4) = rd (hba_cap h) s3;
        s5 \<leftarrow> each_port pi (port_memory h) [0..<32] s4;
        s6 \<leftarrow> each_port pi (clear_errors h) [0..<32] s5;
        s7 \<leftarrow> each_port pi (enable_port h) [0..<32] s6;
        s8 \<leftarrow> probe_ports driver h (rd_or (hba_ghc h) GHC_IE s7);
        Some (ps1, s8) })"


section \<open>What the controller finds in memory\<close>

text \<open>The command of a slot, read the way the controller reads it: the header, then the table it points to.\<close>

record ahci_command =
  co_write :: bool
  co_fis_dwords :: u8
  co_entries :: u16
  co_fis_type :: u8
  co_is_command :: bool
  co_code :: u8
  co_lba :: u64
  co_device :: u8
  co_count :: u16
  co_buffer :: u64
  co_bytes :: nat
  co_interrupt :: bool

definition decode_command :: "mem \<Rightarrow> u32 \<Rightarrow> nat \<Rightarrow> ahci_command" where
  "decode_command m clb slot =
     (let h = clb + 32 * of_nat slot; t = read32 m (h + 8) in
      \<lparr>co_write = bit (m h) 6, co_fis_dwords = m h AND 0x1F, co_entries = ucast (m (h + 2)) OR push_bit 8 (ucast (m (h + 3))),
       co_fis_type = m t, co_is_command = bit (m (t + 1)) 7, co_code = m (t + 2),
       co_lba = ucast (m (t + 4)) OR push_bit 8 (ucast (m (t + 5))) OR push_bit 16 (ucast (m (t + 6)))
         OR push_bit 24 (ucast (m (t + 8))) OR push_bit 32 (ucast (m (t + 9))) OR push_bit 40 (ucast (m (t + 10))),
       co_device = m (t + 7), co_count = ucast (m (t + 12)) OR push_bit 8 (ucast (m (t + 13))),
       co_buffer = ucast (read32 m (t + 0x80)) OR push_bit 32 (ucast (read32 m (t + 0x84))),
       co_bytes = unat (read32 m (t + 0x8C) AND 0x3FFFFF) + 1, co_interrupt = bit (read32 m (t + 0x8C)) 31\<rparr>)"

definition slot_memory :: "mem \<Rightarrow> u32 \<Rightarrow> nat \<Rightarrow> u32 \<Rightarrow> bool" where
  "slot_memory m clb slot t \<longleftrightarrow> read32 m (clb + 32 * of_nat slot + 8) = t
     \<and> (\<forall>x. in_rg x (clb + 32 * of_nat slot) 32 \<longrightarrow> \<not> in_rg x t 144)"

lemma put_header_bytes:
  "bit (put_header h w m h) 6 = w" "put_header h w m h AND 0x1F = 5"
  "put_header h w m (h + 2) = 1" "put_header h w m (h + 3) = 0"
proof -
  have h: "put_header h w m h = ((m h AND 0xE0 OR 5) AND NOT 0x40) OR (if w then 0x40 else 0)"
    by (simp add: put_header_def write16_def FIS_dwords_def Let_def)
  show "bit (put_header h w m h) 6 = w" unfolding h by (simp add: bit_simps)
  have m: "x AND 0x1F = take_bit 5 x" for x :: u8 by (simp add: take_bit_eq_mask mask_eq_exp_minus_1)
  have z: "take_bit 5 (0xE0 :: u8) = 0" "take_bit 5 (5 :: u8) = 5" "take_bit 5 (0x40 :: u8) = 0" by simp_all
  have n: "take_bit 5 (5 AND NOT 0x40 :: u8) = 5" by simp
  show "put_header h w m h AND 0x1F = 5"
    unfolding m h bit.conj_disj_distrib2 by (simp only: take_bit_or take_bit_and z n and_zero_eq or.left_neutral if_split) (simp add: z)
  show "put_header h w m (h + 2) = 1" "put_header h w m (h + 3) = 0" by (simp_all add: put_header_def write16_def Let_def)
qed

lemma put_header_local: "\<not> in_rg x h 4 \<Longrightarrow> put_header h w m x = m x"
  by (auto simp: put_header_def write16_def Let_def in_rg_def)

definition put_table :: "u32 \<Rightarrow> u8 \<Rightarrow> u64 \<Rightarrow> u32 \<Rightarrow> u32 \<Rightarrow> mem \<Rightarrow> mem" where
  "put_table t command sector cnt buffer m =
     put_fis_lba48 t sector cnt (put_fis_head t command (put_prdt t buffer (cnt * 512 - 1) (memset m t 0 sizeof_cmd_tbl)))"

lemma write32_at: "write32 m a v x = (if x = a then ucast v else if x = a + 1 then ucast (drop_bit 8 v)
    else if x = a + 2 then ucast (drop_bit 16 v) else if x = a + 3 then ucast (drop_bit 24 v) else m x)"
  by (simp add: write32_def)

lemma put_prdt_words:
  assumes "\<forall>k < 16. m (t + 0x80 + of_nat k) = 0"
  shows "read32 (put_prdt t buffer dbc m) (t + 0x80) = buffer" "read32 (put_prdt t buffer dbc m) (t + 0x84) = 0"
    "read32 (put_prdt t buffer dbc m) (t + 0x8C) = (dbc AND 0x3FFFFF) OR 0x80000000"
proof -
  let ?m2 = "write32 (write32 m (t + 0x80) buffer) (t + 0x84) 0"
  have apart: "read32 (write32 m a v) b = read32 m b" if "unat (a - b) \<ge> 4" "unat (b - a) \<ge> 4" for m a v b
  proof (rule read32_cong, rule write32_other)
    fix x assume x: "in_rg x b 4"
    show "\<not> in_rg x a 4"
    proof
      assume "in_rg x a 4"
      then have u: "unat (x - a) < 4" "unat (x - b) < 4" using x by (simp_all add: in_rg_def)
      show False
      proof (cases "unat (x - b) \<le> unat (x - a)")
        case True
        have e: "b - a = (x - a) - (x - b)" by simp
        have "unat (b - a) = unat (x - a) - unat (x - b)" unfolding e using True by (intro unat_sub) (simp add: word_le_nat_alt)
        then show False using u that by simp
      next
        case False
        have e: "a - b = (x - b) - (x - a)" by simp
        have "unat (a - b) = unat (x - b) - unat (x - a)" unfolding e using False by (intro unat_sub) (simp add: word_le_nat_alt)
        then show False using u that by simp
      qed
    qed
  qed
  have "m (t + 0x8C) = 0" "m (t + 0x8C + 1) = 0" "m (t + 0x8C + 2) = 0" "m (t + 0x8C + 3) = 0"
    using assms [rule_format, of 12] assms [rule_format, of 13] assms [rule_format, of 14] assms [rule_format, of 15]
    by (simp_all add: add.assoc)
  then have z: "read32 ?m2 (t + 0x8C) = 0" using apart by (simp add: read32_def write32_at)
  show "read32 (put_prdt t buffer dbc m) (t + 0x80) = buffer" "read32 (put_prdt t buffer dbc m) (t + 0x84) = 0"
    "read32 (put_prdt t buffer dbc m) (t + 0x8C) = (dbc AND 0x3FFFFF) OR 0x80000000"
    unfolding put_prdt_def Let_def z by (simp_all add: apart)
qed


lemma read32_outside:
  assumes "\<And>x. in_rg x a 4 \<Longrightarrow> \<not> in_rg x b n" and "\<And>x. \<not> in_rg x b n \<Longrightarrow> m' x = m x"
  shows "read32 m' a = read32 m a"
  using assms by (intro read32_cong) blast

lemma put_table_local: "\<not> in_rg x t 144 \<Longrightarrow> put_table t command sector cnt buffer m x = m x"
proof -
  assume x: "\<not> in_rg x t 144"
  have off: "x \<noteq> t + k" if "unat k < 144" for k using x that by (auto simp: in_rg_def)
  have "x \<noteq> t" using off [of 0] by simp
  then show ?thesis
    using off by (simp add: put_table_def put_fis_lba48_def put_fis_head_def put_prdt_def write32_at Let_def memset_eq x sizeof_cmd_tbl_def add.assoc)
qed

lemma put_fis_words:
  assumes "\<And>x. unat (x - t) \<ge> 16 \<Longrightarrow> m' x = m x" and "unat k \<ge> 16" and "unat k < 2 ^ 31"
  shows "read32 m' (t + k) = read32 m (t + k)"
proof (rule read32_cong)
  fix x assume "in_rg x (t + k) 4"
  then have u: "unat (x - (t + k)) < 4" by (simp add: in_rg_def)
  have "unat (k + (x - (t + k))) = unat k + unat (x - (t + k))"
    by (rule unat_add_no_wrap) (use u assms(3) in simp)
  moreover have "k + (x - (t + k)) = x - t" by simp
  ultimately have "16 \<le> unat (x - t)" using assms(2) by simp
  then show "m' x = m x" by (rule assms(1))
qed

lemma zeroed: "unat (x - t) < 144 \<Longrightarrow> memset m t 0 sizeof_cmd_tbl x = 0"
  by (simp add: memset_eq sizeof_cmd_tbl_def in_rg_def)

lemma put_table_fis:
  fixes t :: u32
  assumes M_def: "\<And>m. M m = put_table t command sector cnt buffer m"
  shows "M m t = FIS_TYPE_REG_H2D" "M m (t + 1) = 0x80" "M m (t + 2) = command" "M m (t + 7) = 0x40"
    "M m (t + 4) = ucast sector" "M m (t + 5) = ucast (drop_bit 8 sector)" "M m (t + 6) = ucast (drop_bit 16 sector)"
    "M m (t + 8) = ucast (drop_bit 24 sector)" "M m (t + 9) = ucast (drop_bit 32 sector)"
    "M m (t + 10) = ucast (drop_bit 40 sector)" "M m (t + 12) = ucast (cnt AND 0xFF)"
    "M m (t + 13) = ucast (drop_bit 8 cnt AND 0xFF)"
proof -
  define P where "P = put_prdt t buffer (cnt * 512 - 1) (memset m t 0 sizeof_cmd_tbl)"
  have z: "P (t + 1) = 0"
    using zeroed [of "t + 1" t m] by (simp add: P_def put_prdt_def write32_at Let_def add.assoc)
  have M: "M m = put_fis_lba48 t sector cnt (put_fis_head t command P)" by (simp add: M_def put_table_def P_def)
  show "M m t = FIS_TYPE_REG_H2D" "M m (t + 1) = 0x80" "M m (t + 2) = command" "M m (t + 7) = 0x40"
    "M m (t + 4) = ucast sector" "M m (t + 5) = ucast (drop_bit 8 sector)" "M m (t + 6) = ucast (drop_bit 16 sector)"
    "M m (t + 8) = ucast (drop_bit 24 sector)" "M m (t + 9) = ucast (drop_bit 32 sector)"
    "M m (t + 10) = ucast (drop_bit 40 sector)" "M m (t + 12) = ucast (cnt AND 0xFF)"
    "M m (t + 13) = ucast (drop_bit 8 cnt AND 0xFF)"
    unfolding M by (simp_all add: put_fis_lba48_def put_fis_head_def Let_def z)
qed

lemma put_table_prdt:
  "read32 (put_table t command sector cnt buffer m) (t + 0x80) = buffer"
  "read32 (put_table t command sector cnt buffer m) (t + 0x84) = 0"
  "read32 (put_table t command sector cnt buffer m) (t + 0x8C) = ((cnt * 512 - 1) AND 0x3FFFFF) OR 0x80000000"
proof -
  define P where "P = put_prdt t buffer (cnt * 512 - 1) (memset m t 0 sizeof_cmd_tbl)"
  have M: "put_table t command sector cnt buffer m = put_fis_lba48 t sector cnt (put_fis_head t command P)" by (simp add: put_table_def P_def)
  have loc: "put_fis_lba48 t sector cnt (put_fis_head t command P) x = P x" if "unat (x - t) \<ge> 16" for x
  proof -
    have "x \<noteq> t + k" if "unat k < 16" for k using that \<open>unat (x - t) \<ge> 16\<close> by auto
    moreover have "x \<noteq> t" using that by auto
    ultimately show ?thesis by (simp add: put_fis_lba48_def put_fis_head_def Let_def)
  qed
  have "\<forall>k < 16. memset m t 0 sizeof_cmd_tbl (t + 0x80 + of_nat k) = 0"
  proof (intro allI impI zeroed)
    fix k :: nat assume "k < 16"
    then have "unat (0x80 + of_nat k :: u32) = 128 + k" by (subst unat_add_no_wrap) (simp_all add: unat_of_nat take_bit_nat_eq_self)
    then show "unat (t + 0x80 + of_nat k - t) < 144" using \<open>k < 16\<close> by (simp add: add.assoc)
  qed
  note w = put_prdt_words [OF this, of buffer "cnt * 512 - 1", folded P_def]
  have o: "read32 (put_fis_lba48 t sector cnt (put_fis_head t command P)) (t + k) = read32 P (t + k)"
    if "16 \<le> unat k" "unat k < 2 ^ 31" for k
    by (rule put_fis_words [where t = t, OF loc that])
  show "read32 (put_table t command sector cnt buffer m) (t + 0x80) = buffer"
    "read32 (put_table t command sector cnt buffer m) (t + 0x84) = 0"
    "read32 (put_table t command sector cnt buffer m) (t + 0x8C) = ((cnt * 512 - 1) AND 0x3FFFFF) OR 0x80000000"
    unfolding M using o [of "0x80"] o [of "0x84"] o [of "0x8C"] w by simp_all
qed


lemma bytes_of_lba:
  assumes "unat (v :: u64) < 2 ^ 48"
  shows "ucast (ucast v :: u8) OR push_bit 8 (ucast (ucast (drop_bit 8 v) :: u8)) OR push_bit 16 (ucast (ucast (drop_bit 16 v) :: u8))
    OR push_bit 24 (ucast (ucast (drop_bit 24 v) :: u8)) OR push_bit 32 (ucast (ucast (drop_bit 32 v) :: u8))
    OR push_bit 40 (ucast (ucast (drop_bit 40 v) :: u8)) = v"
proof (rule bit_word_eqI)
  fix n assume n: "n < LENGTH(64)"
  have hi: "\<not> bit v n" if "48 \<le> n"
  proof -
    have "take_bit 48 v = v"
      by (rule word_unat_eq_iff [THEN iffD2]) (use assms in \<open>simp add: unsigned_take_bit_eq take_bit_nat_eq_self\<close>)
    then have "bit v n = bit (take_bit 48 v) n" by simp
    then show ?thesis using that by (simp add: bit_take_bit_iff)
  qed
  have r: "(x - k) + k = x" if "k \<le> x" for x k :: nat using that by simp
  consider "n < 8" | "8 \<le> n" "n < 16" | "16 \<le> n" "n < 24" | "24 \<le> n" "n < 32" | "32 \<le> n" "n < 40" | "40 \<le> n" "n < 48" | "48 \<le> n" by linarith
  then show "bit (ucast (ucast v :: u8) OR push_bit 8 (ucast (ucast (drop_bit 8 v) :: u8)) OR push_bit 16 (ucast (ucast (drop_bit 16 v) :: u8))
    OR push_bit 24 (ucast (ucast (drop_bit 24 v) :: u8)) OR push_bit 32 (ucast (ucast (drop_bit 32 v) :: u8))
    OR push_bit 40 (ucast (ucast (drop_bit 40 v) :: u8)) :: u64) n = bit v n"
    using n hi by cases (auto simp: bit_simps)
qed

lemma bytes_of_count:
  "(ucast (ucast (v AND 0xFF :: u32) :: u8) OR push_bit 8 (ucast (ucast (drop_bit 8 v AND 0xFF) :: u8)) :: u16) = ucast v"
proof (rule bit_word_eqI)
  fix n assume n: "n < LENGTH(16)"
  have m: "x AND 0xFF = take_bit 8 x" for x :: u32 by (simp add: take_bit_eq_mask mask_eq_exp_minus_1)
  consider "n < 8" | "8 \<le> n" by linarith
  then show "bit (ucast (ucast (v AND 0xFF :: u32) :: u8) OR push_bit 8 (ucast (ucast (drop_bit 8 v AND 0xFF) :: u8)) :: u16) n
    = bit (ucast v :: u16) n"
    unfolding m using n by cases (auto simp: bit_simps)
qed

lemma bytes_of_transfer:
  assumes "0 < unat cnt" and "unat cnt \<le> 8192"
  shows "unat ((((cnt * 512 - 1) AND 0x3FFFFF) OR 0x80000000) AND 0x3FFFFF :: u32) + 1 = 512 * unat cnt"
proof -
  have u: "unat (cnt * 512 - 1 :: u32) = 512 * unat cnt - 1"
  proof -
    have "unat (cnt * 512) = 512 * unat cnt" using assms by (subst unat_mult_no_wrap) simp_all
    moreover from this have "1 \<le> cnt * 512" using assms by (simp add: word_le_nat_alt)
    ultimately show ?thesis by (simp add: unat_sub)
  qed
  have m: "x AND 0x3FFFFF = take_bit 22 x" for x :: u32 by (simp add: take_bit_eq_mask mask_eq_exp_minus_1)
  have "(((cnt * 512 - 1) AND 0x3FFFFF) OR 0x80000000) AND 0x3FFFFF = take_bit 22 (cnt * 512 - 1)"
    unfolding m by (simp add: take_bit_or)
  moreover have "unat (take_bit 22 (cnt * 512 - 1)) = 512 * unat cnt - 1"
    unfolding unsigned_take_bit_eq u using assms by (intro take_bit_nat_eq_self) simp
  ultimately show ?thesis using assms by simp
qed

lemma transfer_command_decodes:
  assumes "slot_memory m clb slot t" and "unat sector < 2 ^ 48" and "0 < unat cnt" and "unat cnt \<le> 8192"
  shows "decode_command (put_table t command sector cnt buffer (put_header (clb + 32 * of_nat slot) w m)) clb slot =
    \<lparr>co_write = w, co_fis_dwords = 5, co_entries = 1, co_fis_type = FIS_TYPE_REG_H2D, co_is_command = True, co_code = command,
     co_lba = sector, co_device = 0x40, co_count = ucast cnt, co_buffer = ucast buffer, co_bytes = 512 * unat cnt, co_interrupt = True\<rparr>"
proof -
  define h where "h = clb + 32 * of_nat slot"
  define m1 where "m1 = put_header h w m"
  define m2 where "m2 = put_table t command sector cnt buffer m1"
  have t: "read32 m (h + 8) = t" and ap: "\<And>x. in_rg x h 32 \<Longrightarrow> \<not> in_rg x t 144"
    using assms(1) by (simp_all add: slot_memory_def h_def)
  have hd: "m2 (h + k) = m1 (h + k)" if "unat k < 32" for k
    using ap [of "h + k"] that by (simp add: m2_def put_table_local in_rg_def)
  have ptr: "read32 m2 (h + 8) = t"
  proof -
    have "read32 m2 (h + 8) = read32 m1 (h + 8)"
      using hd [of 8] hd [of 9] hd [of 10] hd [of 11] by (simp add: read32_def add.assoc)
    also have "\<dots> = read32 m (h + 8)"
      by (simp add: read32_def m1_def put_header_local in_rg_def add.assoc)
    finally show ?thesis using t by simp
  qed
  have hb: "bit (m2 h) 6 = w" "m2 h AND 0x1F = 5" "m2 (h + 2) = 1" "m2 (h + 3) = 0"
    using hd [of 0] hd [of 2] hd [of 3] put_header_bytes [of h w m] by (simp_all add: m1_def)
  note fis = put_table_fis [of "put_table t command sector cnt buffer", OF refl]
  show ?thesis
    unfolding h_def [symmetric] m1_def [symmetric] m2_def [symmetric] decode_command_def Let_def ptr hb
    unfolding m2_def fis put_table_prdt bytes_of_lba [OF assms(2)] bytes_of_count bytes_of_transfer [OF assms(3,4)]
    by (simp add: bit_simps)
qed


section \<open>Transfers\<close>

text \<open>
  A port that is not busy, reports no error and completes what is issued, with the slots in \<open>busy\<close> taken;
  and a controller that touches memory only when a command is issued, and then executes the command
  it finds in the slot.
\<close>

definition quiet_port :: "(access list \<Rightarrow> u32 \<Rightarrow> u32) \<Rightarrow> u32 \<Rightarrow> u32 \<Rightarrow> u32 \<Rightarrow> bool" where
  "quiet_port ans p clb busy \<longleftrightarrow> (\<forall>log. ans log (px_clb p) = clb \<and> ans log (px_tfd p) AND BUSY = 0
     \<and> \<not> bit (ans log (px_is p)) 30 \<and> ans log (px_sact p) = 0 \<and> ans log (px_ci p) = busy)"

definition executes :: "(access list \<Rightarrow> mem \<Rightarrow> mem) \<Rightarrow> u32 \<Rightarrow> u32 \<Rightarrow> (ahci_command \<Rightarrow> mem \<Rightarrow> mem) \<Rightarrow> bool" where
  "executes eff p clb exec \<longleftrightarrow>
     (\<forall>log slot m. slot < 32 \<longrightarrow> eff (log @ [Wr (px_ci p) (push_bit slot 1)]) m = exec (decode_command m clb slot) m)
     \<and> (\<forall>log e m. (\<forall>v. e \<noteq> Wr (px_ci p) v) \<longrightarrow> eff (log @ [e]) m = m)"

lemma and_bit_0: "(v :: u32) AND push_bit k 1 = 0 \<longleftrightarrow> \<not> bit v k"
  by (simp add: and_exp_eq_0_iff_not_bit)

lemma slot_loop_first:
  assumes "k < n" and "\<not> bit (v :: u32) k" and "\<forall>j < k. bit v j"
  shows "slot_loop n i v = Some (i + k)"
  using assms
proof (induction n arbitrary: i v k)
  case (Suc n)
  have b: "v AND 1 = 0 \<longleftrightarrow> \<not> bit v 0" by (simp add: and_one_eq even_iff_mod_2_eq_zero bit_0)
  show ?case
  proof (cases k)
    case 0
    then show ?thesis using Suc.prems b by simp
  next
    case (Suc k')
    then have "bit v 0" using Suc.prems(3) by simp
    moreover have "slot_loop n (i + 1) (drop_bit 1 v) = Some (i + 1 + k')"
    proof (rule Suc.IH)
      show "k' < n" "\<not> bit (drop_bit 1 v) k'" "\<forall>j < k'. bit (drop_bit 1 v) j"
        using Suc.prems Suc by (simp_all add: bit_drop_bit_eq)
    qed
    ultimately show ?thesis using b Suc by simp
  qed
qed simp

lemma slot_loop_none: "(\<forall>j < n. bit (v :: u32) j) \<Longrightarrow> slot_loop n i v = None"
proof (induction n arbitrary: i v)
  case (Suc n)
  have "v AND 1 \<noteq> 0" using Suc.prems by (auto simp: and_one_eq even_iff_mod_2_eq_zero bit_0)
  moreover have "slot_loop n (i + 1) (drop_bit 1 v) = None" using Suc.prems by (intro Suc.IH) (simp add: bit_drop_bit_eq)
  ultimately show ?case by simp
qed simp

definition logged :: "access list \<Rightarrow> ahci \<Rightarrow> ahci" where
  "logged es s = s\<lparr>accesses := accesses s @ es\<rparr>"

lemma happens_quiet:
  "executes (effect s) p clb exec \<Longrightarrow> (\<And>v. e \<noteq> Wr (px_ci p) v) \<Longrightarrow> happens e s = logged [e] s"
  by (simp add: happens_def executes_def logged_def)

lemma logged_fields [simp]:
  "effect (logged es s) = effect s" "answer (logged es s) = answer s" "ram (logged es s) = ram s" "logged es (logged fs s) = logged (fs @ es) s"
  by (simp_all add: logged_def)

lemma find_cmdslot_quiet:
  assumes "executes (effect s) p clb exec" and "quiet_port (answer s) p clb busy"
  shows "find_cmdslot p s = (slot_loop 32 0 busy, logged [Rd (px_sact p), Rd (px_ci p)] s)"
  using assms by (simp add: find_cmdslot_def rd_def happens_quiet [OF assms(1)] quiet_port_def)
    (subst happens_quiet, simp_all add: logged_def)

lemma wait_while_quiet:
  assumes "executes (effect s) p clb exec" and "quiet_port (answer s) p clb busy"
  shows "wait_while False (px_tfd p) BUSY s = Some (logged [Rd (px_tfd p)] s)"
  using assms by (subst wait_while.simps) (simp add: rd_def happens_quiet [OF assms(1)] quiet_port_def)

lemma wait_done_quiet:
  assumes "executes (effect s) p clb exec" and "quiet_port (answer s) p clb busy" and "\<not> bit busy slot"
  shows "wait_done p slot s = Some (True, logged [Rd (px_is p), Rd (px_ci p)] s)"
proof -
  have e: "executes (effect (logged [Rd (px_is p)] s)) p clb exec" using assms(1) by simp
  have i: "answer s (accesses s) (px_is p) AND push_bit 30 1 = 0"
      "answer s (accesses (logged [Rd (px_is p)] s)) (px_ci p) AND push_bit slot 1 = 0"
    using assms(2,3) unfolding and_bit_0 by (simp_all add: quiet_port_def)
  have h: "happens (Rd (px_is p)) s = logged [Rd (px_is p)] s"
      "happens (Rd (px_ci p)) (logged [Rd (px_is p)] s) = logged [Rd (px_is p), Rd (px_ci p)] s"
    using happens_quiet [OF assms(1)] happens_quiet [OF e] by simp_all
  show ?thesis
    by (subst wait_done.simps) (simp only: rd_def prod.case h i logged_fields simp_thms if_False if_True)
qed

lemma dma_transfer_runs:
  assumes "quiet_port (answer s) p clb busy" and "executes (effect s) p clb exec"
    and "slot_loop 32 0 busy = Some slot" and "slot < 32" and "\<not> bit busy slot"
    and "read32 (ram s) (clb + 32 * of_nat slot + 8) = t"
    and m_def: "m = put_table t c sector cnt buffer (put_header (clb + 32 * of_nat slot) w (ram s))"
  shows "dma_transfer w c p sector cnt buffer s = Some (True,
    (logged ([Wr (px_is p) 0xFFFFFFFF, Rd (px_sact p), Rd (px_ci p), Rd (px_clb p), Rd (px_tfd p)]
      @ [Wr (px_ci p) (push_bit slot 1)] @ [Rd (px_is p), Rd (px_ci p)]) s)\<lparr>ram := exec (decode_command m clb slot) m\<rparr>)"
proof -
  let ?h = "clb + 32 * of_nat slot" and ?pre = "[Wr (px_is p) 0xFFFFFFFF, Rd (px_sact p), Rd (px_ci p)]"
  define s2 where "s2 = logged (?pre @ [Rd (px_clb p)]) s"
  define s4 where "s4 = logged [Rd (px_tfd p)] (s2\<lparr>ram := m\<rparr>)"
  define s5 where "s5 = (logged [Wr (px_ci p) (push_bit slot 1)] s4)\<lparr>ram := exec (decode_command m clb slot) m\<rparr>"
  have q: "happens e (logged es s) = logged (es @ [e]) s" if "\<And>v. e \<noteq> Wr (px_ci p) v" for e es
    using happens_quiet [of "logged es s", OF _ that] assms(2) by simp
  have t: "read32 (put_header ?h w (ram s)) (?h + 8) = t"
    using assms(6) by (simp add: read32_def put_header_local in_rg_def add.assoc)
  have pre: "wr (px_is p) 0xFFFFFFFF s = logged [Wr (px_is p) 0xFFFFFFFF] s"
    unfolding wr_def by (rule happens_quiet [OF assms(2)]) (simp add: px_is_def px_ci_def)
  have f: "find_cmdslot p (logged [Wr (px_is p) 0xFFFFFFFF] s) = (Some slot, logged ?pre s)"
    using find_cmdslot_quiet [of "logged [Wr (px_is p) 0xFFFFFFFF] s" p clb exec busy] assms(1-3) by simp
  have r: "rd (px_clb p) (logged ?pre s) = (clb, s2)"
    using assms(1) q [of "Rd (px_clb p)" ?pre] by (simp add: rd_def quiet_port_def s2_def)
  have w1: "wait_while False (px_tfd p) BUSY (s2\<lparr>ram := m\<rparr>) = Some s4"
    unfolding s4_def using assms(1,2) by (intro wait_while_quiet) (simp_all add: s2_def)
  have "effect s ((accesses s @ ?pre @ [Rd (px_clb p), Rd (px_tfd p)]) @ [Wr (px_ci p) (push_bit slot 1)]) m
      = exec (decode_command m clb slot) m"
    using assms(2,4) unfolding executes_def by blast
  then have i: "wr (px_ci p) (push_bit slot 1) s4 = s5" by (simp add: wr_def happens_def s4_def s2_def s5_def logged_def)
  have d: "wait_done p slot s5 = Some (True, logged [Rd (px_is p), Rd (px_ci p)] s5)"
    using assms(1,2,5) by (intro wait_done_quiet) (simp_all add: s5_def s4_def s2_def)
  have "dma_transfer w c p sector cnt buffer s = Some (True, logged [Rd (px_is p), Rd (px_ci p)] s5)"
    unfolding dma_transfer_def pre f Let_def prod.case option.case r
    using w1 i d t by (simp add: s2_def m_def put_table_def)
  then show ?thesis by (simp add: s5_def s4_def s2_def logged_def)
qed

text \<open>
  C17: when a port is idle and a command slot is free, a transfer of up to 8192 sectors is issued once, in
  the first free slot, and the controller finds there exactly the command asked for: the direction, the
  48-bit sector number, the number of sectors, the buffer and its length in bytes; outside the header and
  the table of that slot memory is changed by nothing but the execution of this command.
\<close>

theorem ahci_transfer_issues_command:
  assumes "quiet_port (answer s) p clb busy" and "executes (effect s) p clb exec"
    and "slot < 32" and "\<not> bit busy slot" and "\<forall>j < slot. bit busy j" and "slot_memory (ram s) clb slot t"
    and "unat sector < 2 ^ 48" and "0 < unat cnt" and "unat cnt \<le> 8192"
  shows "\<exists>s' m. (if w then ahci_write else ahci_read) p sector cnt buffer s = Some (True, s')
    \<and> ram s' = exec \<lparr>co_write = w, co_fis_dwords = 5, co_entries = 1, co_fis_type = FIS_TYPE_REG_H2D, co_is_command = True,
        co_code = (if w then ATA_CMD_WRITE_DMA_EX else ATA_CMD_READ_DMA_EX), co_lba = sector, co_device = 0x40,
        co_count = ucast cnt, co_buffer = ucast buffer, co_bytes = 512 * unat cnt, co_interrupt = True\<rparr> m
    \<and> (\<forall>x. \<not> in_rg x (clb + 32 * of_nat slot) 32 \<longrightarrow> \<not> in_rg x t 144 \<longrightarrow> m x = ram s x)
    \<and> (\<exists>l1 l2. accesses s' = accesses s @ l1 @ [Wr (px_ci p) (push_bit slot 1)] @ l2 \<and> (\<forall>v. Wr (px_ci p) v \<notin> set (l1 @ l2)))"
proof -
  let ?c = "if w then ATA_CMD_WRITE_DMA_EX else ATA_CMD_READ_DMA_EX" and ?h = "clb + 32 * of_nat slot"
  define m where "m = put_table t ?c sector cnt buffer (put_header ?h w (ram s))"
  let ?l1 = "[Wr (px_is p) 0xFFFFFFFF, Rd (px_sact p), Rd (px_ci p), Rd (px_clb p), Rd (px_tfd p)]"
  let ?l2 = "[Rd (px_is p), Rd (px_ci p)]"
  have sl: "slot_loop 32 0 busy = Some slot" using slot_loop_first [OF assms(3-5), of 0] by simp
  have "(if w then ahci_write else ahci_read) p sector cnt buffer s = Some (True,
      (logged (?l1 @ [Wr (px_ci p) (push_bit slot 1)] @ ?l2) s)\<lparr>ram := exec (decode_command m clb slot) m\<rparr>)"
    using dma_transfer_runs [OF assms(1,2) sl assms(3,4) _ m_def] assms(6)
    by (cases w) (simp_all add: slot_memory_def ahci_read_def ahci_write_def)
  moreover have "m x = ram s x" if "\<not> in_rg x ?h 32" "\<not> in_rg x t 144" for x
    using that put_table_local put_header_local by (simp add: m_def in_rg_def)
  moreover have "\<forall>v. Wr (px_ci p) v \<notin> set (?l1 @ ?l2)" by (simp add: px_is_def px_ci_def)
  ultimately show ?thesis
    using transfer_command_decodes [OF assms(6-9), of ?c buffer w, folded m_def]
    by (intro exI [of _ "(logged (?l1 @ [Wr (px_ci p) (push_bit slot 1)] @ ?l2) s)\<lparr>ram := exec (decode_command m clb slot) m\<rparr>"]
        exI [of _ m] conjI exI [of _ ?l1] exI [of _ ?l2]) (simp_all add: logged_def)
qed

definition demo_ahci :: ahci where
  "demo_ahci = \<lparr>ram = write32 (\<lambda>_. 0) 0x2008 0x3000, accesses = [], answer = (\<lambda>log a. if a = 0x1000 then 0x2000 else 0),
     effect = (\<lambda>log m. case last log of Wr a v \<Rightarrow> if a = px_ci 0x1000 then m(0x9000 := 0x55) else m | _ \<Rightarrow> m),
     frames = [], drivers = [], ahci_devices = [], mapped_regions = [], heap_ok = True\<rparr>"

theorem ahci_transfer_issues_command_witness:
  "\<exists>s'. ahci_read 0x1000 (2 ^ 40) 4 0x9000 demo_ahci = Some (True, s') \<and> ram s' 0x9000 = 0x55
    \<and> (\<exists>l1 l2. accesses s' = l1 @ [Wr 0x1038 1] @ l2)"
proof -
  have q: "quiet_port (answer demo_ahci) 0x1000 0x2000 0"
    by (simp add: quiet_port_def demo_ahci_def px_clb_def px_tfd_def px_is_def px_sact_def px_ci_def)
  have e: "executes (effect demo_ahci) 0x1000 0x2000 (\<lambda>c m. m(0x9000 := 0x55))"
    by (auto simp: executes_def demo_ahci_def split: access.splits)
  have m: "slot_memory (ram demo_ahci) 0x2000 0 0x3000"
    by (simp add: slot_memory_def demo_ahci_def) (simp add: in_rg_linear)
  show ?thesis
    using ahci_transfer_issues_command [OF q e _ _ _ m, of "2 ^ 40" 4 False "0x9000"]
    by (fastforce simp: demo_ahci_def px_ci_def)
qed


section \<open>The memory of a port\<close>

lemma in_part:
  assumes "in_rg x (a + of_nat d) n" and "d + n \<le> 2 ^ 32"
  shows "d \<le> unat (x - a) \<and> unat (x - a) < d + n"
proof -
  have u: "unat (x - (a + of_nat d)) < n" using assms(1) by (simp add: in_rg_def)
  have "d < 2 ^ 32" using u assms(2) by linarith
  then have d: "unat (of_nat d :: u32) = d" by (simp add: unat_of_nat take_bit_nat_eq_self)
  have "unat (of_nat d + (x - (a + of_nat d))) = d + unat (x - (a + of_nat d))"
    by (subst unat_add_no_wrap) (use u d assms(2) in simp_all)
  moreover have "of_nat d + (x - (a + of_nat d)) = x - a" by simp
  ultimately show ?thesis using u by simp
qed

definition link_one :: "u32 \<Rightarrow> u32 \<Rightarrow> nat \<Rightarrow> mem \<Rightarrow> mem" where
  "link_one hdr tbl j m = write32 (write16 m (hdr + 32 * of_nat j + 2) 8) (hdr + 32 * of_nat j + 8) (tbl + of_nat j * 256)"

lemma link_one_local:
  assumes "\<not> in_rg x (hdr + 32 * of_nat j) 32"
  shows "link_one hdr tbl j m x = m x"
proof -
  have "x \<noteq> hdr + 32 * of_nat j + k" if "unat k < 32" for k using assms that by (auto simp: in_rg_def)
  then show ?thesis by (simp add: link_one_def write32_at write16_def add.assoc)
qed

lemma link_fold:
  assumes "k < 32" and "\<forall>j \<in> set js. j < 32" and "k \<in> set js"
  shows "read32 (fold (link_one hdr tbl) js m) (hdr + 32 * of_nat k + 8) = tbl + of_nat k * 256"
  using assms(2,3)
proof (induction js rule: rev_induct)
  case (snoc j js)
  show ?case
  proof (cases "j = k")
    case True
    then show ?thesis by (simp add: link_one_def)
  next
    case False
    let ?m = "fold (link_one hdr tbl) js m"
    have "link_one hdr tbl j ?m x = ?m x" if "in_rg x (hdr + 32 * of_nat k + 8) 4" for x
    proof (rule link_one_local)
      show "\<not> in_rg x (hdr + 32 * of_nat j) 32"
      proof
        assume "in_rg x (hdr + 32 * of_nat j) 32"
        then have "32 * j \<le> unat (x - hdr) \<and> unat (x - hdr) < 32 * j + 32"
          using in_part [of x hdr "32 * j" 32] snoc.prems(1) by simp
        moreover have "32 * k + 8 \<le> unat (x - hdr) \<and> unat (x - hdr) < 32 * k + 8 + 4"
          using in_part [of x hdr "32 * k + 8" 4] that assms(1) by (simp add: add.assoc)
        ultimately show False using False by presburger
      qed
    qed
    then have "read32 (link_one hdr tbl j ?m) (hdr + 32 * of_nat k + 8) = read32 ?m (hdr + 32 * of_nat k + 8)" by (rule read32_cong)
    then show ?thesis using snoc False by simp
  qed
qed simp

text \<open>A controller without 64-bit addresses, on which the command list of a port is the one that was set.\<close>

lemma needs_upper_quiet:
  assumes "executes (effect s) p clb exec" and "\<forall>log. \<not> bit (answer s log (hba_cap h)) 31"
  shows "needs_upper h s = Some (logged [Rd (hba_cap h)] s)"
  using assms by (simp add: needs_upper_def rd_def happens_quiet [OF assms(1)])

lemma link_tables_quiet:
  assumes "executes (effect s) p clb exec" and "\<forall>log. \<not> bit (answer s log (hba_cap h)) 31"
  shows "link_tables h hdr tbl js s = Some ((logged (replicate (length js) (Rd (hba_cap h))) s)\<lparr>ram := fold (link_one hdr tbl) js (ram s)\<rparr>)"
  using assms
proof (induction js arbitrary: s)
  case Nil
  then show ?case by (simp add: logged_def)
next
  case (Cons j js)
  let ?s = "s\<lparr>ram := link_one hdr tbl j (ram s)\<rparr>"
  have "needs_upper h ?s = Some (logged [Rd (hba_cap h)] ?s)" using Cons.prems by (intro needs_upper_quiet) simp_all
  then have "link_tables h hdr tbl (j # js) s = link_tables h hdr tbl js (logged [Rd (hba_cap h)] ?s)"
    by (simp add: link_one_def Let_def)
  also have "\<dots> = Some ((logged (replicate (length js) (Rd (hba_cap h))) (logged [Rd (hba_cap h)] ?s))\<lparr>ram := fold (link_one hdr tbl) js (ram ?s)\<rparr>)"
    using Cons.IH [of "logged [Rd (hba_cap h)] ?s"] Cons.prems by simp
  finally show ?case by (simp add: logged_def)
qed

text \<open>
  C38: setting up the memory of a port on a controller with 32-bit addresses succeeds when the allocator
  has frames, and every one of the 32 command slots then has a header that points to a table of its own,
  which neither its header nor the table or the header of another slot overlaps.
\<close>

theorem port_memory_gives_slots:
  assumes "executes (effect s) (hba_port h i) f exec" and "\<forall>log. \<not> bit (answer s log (hba_cap h)) 31"
    and "\<forall>log. answer s log (px_clb (hba_port h i)) = f" and "frames s = f # t # fs"
    and "\<forall>x. in_rg x f 0x1000 \<longrightarrow> \<not> in_rg x t 0x2000"
  shows "\<exists>s'. port_memory h i s = Some s' \<and> frames s' = fs \<and> (\<forall>j < 32. slot_memory (ram s') f j (t + of_nat j * 256)
    \<and> (\<forall>k < 32. k \<noteq> j \<longrightarrow> (\<forall>x. in_rg x (t + of_nat j * 256) 144 \<longrightarrow> \<not> in_rg x (t + of_nat k * 256) 144
        \<and> \<not> in_rg x (f + 32 * of_nat k) 32)))"
proof -
  let ?p = "hba_port h i"
  have q: "happens e u = logged [e] u" if "executes (effect u) ?p f exec" "\<And>v. e \<noteq> Wr (px_ci ?p) v" for e u
    by (rule happens_quiet [OF that])
  have ci: "px_clb ?p \<noteq> px_ci ?p" "px_fb ?p \<noteq> px_ci ?p" "px_cmd ?p \<noteq> px_ci ?p" by (simp_all add: px_clb_def px_fb_def px_cmd_def px_ci_def)
  define m where "m = fold (link_one f t) [0..<32] (memset (memset (ram s) f 0 0x1000) t 0 8192)"
  have "\<exists>l. port_memory h i s = Some (s\<lparr>frames := fs, ram := m, accesses := l\<rparr>)"
    using assms(1-4) ci unfolding port_memory_def Let_def take_frame_def rd_or_def rd_def wr_def
    by (simp add: q needs_upper_quiet [of _ ?p f exec] link_tables_quiet [of _ ?p f exec] m_def)
      (simp add: q link_tables_quiet [of _ ?p f exec] logged_def, blast)
  then obtain l where l: "port_memory h i s = Some (s\<lparr>frames := fs, ram := m, accesses := l\<rparr>)" by blast
  have head: "in_rg x f 0x1000" if "in_rg x (f + 32 * of_nat j) 32" "j < 32" for x j
    using in_part [of x f "32 * j" 32] that by (simp add: in_rg_def)
  have part: "in_rg x t 0x2000" if "in_rg x (t + of_nat j * 256) 144" "j < 32" for x j
    using in_part [of x t "j * 256" 144] that by (simp add: in_rg_def)
  have sm: "slot_memory m f j (t + of_nat j * 256)" if "j < 32" for j
    using link_fold [of j "[0..<32]" f t] that assms(5) head [OF _ that] part [OF _ that] by (auto simp: slot_memory_def m_def)
  have tt: "\<not> in_rg x (t + of_nat k * 256) 144" if "in_rg x (t + of_nat j * 256) 144" "j < 32" "k < 32" "k \<noteq> j" for x j k
    using in_part [of x t "j * 256" 144] in_part [of x t "k * 256" 144] that by auto
  have th: "\<not> in_rg x (f + 32 * of_nat k) 32" if "in_rg x (t + of_nat j * 256) 144" "j < 32" "k < 32" for x j k
    using part [OF that(1,2)] head [OF _ that(3)] assms(5) by blast
  show ?thesis
    by (rule exI, intro conjI allI impI, rule l) (use sm tt th in \<open>simp, simp, blast, blast\<close>)
qed

definition demo_ahci_fresh :: ahci where
  "demo_ahci_fresh = demo_ahci\<lparr>answer := \<lambda>log a. if a = 0x1100 then 0x2000 else 0, effect := \<lambda>log m. m, frames := [0x2000, 0x4000]\<rparr>"

theorem port_memory_gives_slots_witness:
  "\<exists>s'. port_memory 0x1000 0 demo_ahci_fresh = Some s' \<and> slot_memory (ram s') 0x2000 3 0x4300"
proof -
  have e: "executes (effect demo_ahci_fresh) (hba_port 0x1000 0) 0x2000 (\<lambda>c m. m)" by (simp add: executes_def demo_ahci_fresh_def)
  have c: "\<forall>log. \<not> bit (answer demo_ahci_fresh log (hba_cap 0x1000)) 31" by (simp add: demo_ahci_fresh_def hba_cap_def)
  have l: "\<forall>log. answer demo_ahci_fresh log (px_clb (hba_port 0x1000 0)) = 0x2000"
    by (simp add: demo_ahci_fresh_def px_clb_def hba_port_def)
  have f: "frames demo_ahci_fresh = 0x2000 # 0x4000 # []" by (simp add: demo_ahci_fresh_def)
  have d: "\<forall>x. in_rg x 0x2000 0x1000 \<longrightarrow> \<not> in_rg x 0x4000 0x2000" by (simp add: in_rg_linear)
  obtain s' where s': "port_memory 0x1000 0 demo_ahci_fresh = Some s'" "\<forall>j < 32. slot_memory (ram s') 0x2000 j (0x4000 + of_nat j * 256)"
    using port_memory_gives_slots [OF e c l f d] by blast
  have "slot_memory (ram s') 0x2000 3 (0x4000 + of_nat 3 * 256)" using s'(2) by (rule allE [of _ 3]) simp
  then show ?thesis using s'(1) by simp
qed

lemma wait_bit_clear_blind:
  "wait_bit_clear v bits (Suc (Suc n)) s = (v AND bits = 0, (if v AND bits = 0 then s else (happens Delay ^^ Suc n) s))"
proof -
  have "v AND bits \<noteq> 0 \<Longrightarrow> wait_bit_loop v bits k s = (False, (happens Delay ^^ k) s)" for k s
    by (induction k arbitrary: s) (simp_all add: funpow_swap1)
  then show ?thesis by (simp add: wait_bit_clear_def funpow_swap1)
qed

text \<open>
  Stopping a port succeeds exactly when the port has stopped at the first look: the bits that go away
  while it waits are never seen.
\<close>

lemma stop_cmd_first_look:
  "\<exists>log. fst (stop_cmd p s) \<longleftrightarrow> answer s log (px_cmd p) AND (PxCMD_CR OR PxCMD_FR) = 0"
proof -
  have a: "answer (snd (rd a u)) = answer u" "answer (wr a v u) = answer u" for a v u by (simp_all add: rd_def wr_def happens_def)
  have c: "answer (rd_clear a bits u) = answer u" for a bits u by (simp add: rd_clear_def a split: prod.split) (metis a(1) snd_conv)
  show ?thesis
    using wait_bit_clear_blind [of _ _ 498] by (simp add: stop_cmd_def rd_def c numeral_eq_Suc) blast
qed

end
