(* ===== verification/Terminal.thy ===== *)
theory Terminal
  imports VgaFormat Keyboard DataString
begin

text \<open>
  The kernel terminal of \<open>src/kernel/apps/kterminal.cpp\<close> and the parameters of commands of
  \<open>cli_app.cpp\<close>.  A buffer of \<open>INPUT_MAX_SIZE\<close> bytes is the text before its first NUL; a character
  put where it would move the NUL behind the end of the buffer is \<open>None\<close>.  A command is a pointer to
  a function, given by the function's name; \<open>run\<close> is what the functions do.  The terminal reads the
  ring buffer of the keyboard and prints on the screen; \<open>curr_dir\<close> is \<open>vfs::currentDir\<close>, and
  \<open>cmos\<close> is the clock the log lines show.
\<close>

section \<open>State\<close>

definition INPUTS_TO_SAVE :: nat where "INPUTS_TO_SAVE = 10"
definition INPUT_MAX_SIZE :: nat where "INPUT_MAX_SIZE = 256"

definition RGB_COLOR_BLUE :: u32 where "RGB_COLOR_BLUE = 0x0000AA"
definition RGB_COLOR_LIGHT_BLUE :: u32 where "RGB_COLOR_LIGHT_BLUE = 0x5555FF"

record command =
  cmd_name :: "string option"
  cmd_function :: "string option"
  cmd_params :: string
  cmd_description :: string

record terminal =
  currentInput :: string
  commands :: "command list"
  saved_inputs :: "string list"
  input_write_index :: u8
  input_read_index :: u8
  saved_inputs_num :: u8
  input_row :: u32
  input_col :: u32
  onTerminal :: bool
  currentUser :: string
  curr_dir :: dstring
  screen :: vga
  keys :: kbd

definition get_input :: "'a terminal_scheme \<Rightarrow> dstring" where
  "get_input t = string_of_cstr (currentInput t)"

definition get_current_input :: "'a terminal_scheme \<Rightarrow> string" where
  "get_current_input t = currentInput t"

text \<open>A print, in one of the overloads of \<open>kprintf\<close>, and an operation of the screen.\<close>

definition say :: "(u8 \<Rightarrow> u8) \<Rightarrow> string \<Rightarrow> va_arg list \<Rightarrow> 'a terminal_scheme \<Rightarrow> 'a terminal_scheme option" where
  "say cmos fmt args t = do { (_, v) \<leftarrow> kprintf cmos fmt args (screen t); Some (t\<lparr>screen := v\<rparr>) }"

definition say_color ::
  "(u8 \<Rightarrow> u8) \<Rightarrow> u32 \<Rightarrow> string \<Rightarrow> va_arg list \<Rightarrow> 'a terminal_scheme \<Rightarrow> 'a terminal_scheme option" where
  "say_color cmos color fmt args t = do { (_, v) \<leftarrow> kprintf_color cmos color fmt args (screen t); Some (t\<lparr>screen := v\<rparr>) }"

definition say_type ::
  "(u8 \<Rightarrow> u8) \<Rightarrow> PrintTypes \<Rightarrow> string \<Rightarrow> va_arg list \<Rightarrow> 'a terminal_scheme \<Rightarrow> 'a terminal_scheme option" where
  "say_type cmos ty fmt args t = do { (_, v) \<leftarrow> kprintf_type cmos ty fmt args (screen t); Some (t\<lparr>screen := v\<rparr>) }"

definition on_display :: "(vga \<Rightarrow> vga) \<Rightarrow> 'a terminal_scheme \<Rightarrow> 'a terminal_scheme" where
  "on_display f t = t\<lparr>screen := f (screen t)\<rparr>"

section \<open>Commands\<close>

text \<open>The condition is a comma expression: only the function is looked at.\<close>

definition register_command ::
  "string option \<Rightarrow> string option \<Rightarrow> string \<Rightarrow> string \<Rightarrow> 'a terminal_scheme \<Rightarrow> 'a terminal_scheme" where
  "register_command name function params description t =
     (if function = None then t
      else t\<lparr>commands := commands t @
        [\<lparr>cmd_name = name, cmd_function = function, cmd_params = params, cmd_description = description\<rparr>]\<rparr>)"

definition prompt :: "(u8 \<Rightarrow> u8) \<Rightarrow> 'a terminal_scheme \<Rightarrow> 'a terminal_scheme option" where
  "prompt cmos t =
     say_color cmos RGB_COLOR_LIGHT_GRAY (newline_char # ''%s@MioOS: %S# '') [ArgStr (Some (currentUser t)), ArgString (Some (curr_dir t))] t"

text \<open>What \<open>run_cmd\<close> ends with: the prompt, the place of the input and an empty input.\<close>

definition new_cmd :: "(u8 \<Rightarrow> u8) \<Rightarrow> 'a terminal_scheme \<Rightarrow> 'a terminal_scheme option" where
  "new_cmd cmos t =
     do {
       t1 \<leftarrow> prompt cmos t;
       Some (t1\<lparr>input_col := col_num (screen t1), input_row := row_num (screen t1), currentInput := []\<rparr>) }"

text \<open>The first command of the name; comparing with a null name reads through it.\<close>

fun find_command :: "string \<Rightarrow> command list \<Rightarrow> command option option" where
  "find_command w [] = Some None"
| "find_command w (c # cs) =
     do { name \<leftarrow> cmd_name c; if strcmp w name = 0 then Some (Some c) else find_command w cs }"

definition run_cmd ::
  "(u8 \<Rightarrow> u8) \<Rightarrow> (string \<Rightarrow> 'a terminal_scheme \<Rightarrow> 'a terminal_scheme option) \<Rightarrow> 'a terminal_scheme \<Rightarrow> 'a terminal_scheme option" where
  "run_cmd cmos run t =
     do {
       t1 \<leftarrow> say cmos [newline_char] [] t;
       w \<leftarrow> get_first_word (currentInput t1);
       if strcmp w [] = 0 then new_cmd cmos t1
       else do {
         let t2 = t1\<lparr>input_read_index := saved_inputs_num t1\<rparr>;
         found \<leftarrow> find_command w (commands t2);
         case found of
           Some c \<Rightarrow> do { f \<leftarrow> cmd_function c; t3 \<leftarrow> run f t2; new_cmd cmos t3 }
         | None \<Rightarrow> do {
             t3 \<leftarrow> say_type cmos LOG_INFO (''%C%s%C isn'' @ [CHR 0x27] @ ''t a valid command!'' @ [newline_char])
                    [Arg32 RGB_COLOR_LIGHT_BLUE, ArgStr (Some w), Arg32 default_rgb_color] t2;
             new_cmd cmos t3 } } }"

section \<open>The history\<close>

fun shift_up :: "nat list \<Rightarrow> string list \<Rightarrow> string list" where
  "shift_up [] saved = saved"
| "shift_up (i # is) saved = shift_up is (saved[i := strcpy (saved ! i) (saved ! (i + 1))])"

definition save_cmd :: "'a terminal_scheme \<Rightarrow> 'a terminal_scheme option" where
  "save_cmd t =
     do {
       w \<leftarrow> get_first_word (currentInput t);
       let i = unat (input_write_index t);
       Some (
         if strcmp w [] \<noteq> 0 \<and> (i = 0 \<or> 0 < i \<and> strcmp (currentInput t) (saved_inputs t ! (i - 1)) \<noteq> 0) then
           if i < INPUTS_TO_SAVE - 1
           then t\<lparr>saved_inputs := (saved_inputs t)[i := strcpy (saved_inputs t ! i) (currentInput t)],
                  input_write_index := input_write_index t + 1, saved_inputs_num := saved_inputs_num t + 1\<rparr>
           else let saved = shift_up [0..<INPUTS_TO_SAVE - 1] (saved_inputs t)
                in t\<lparr>saved_inputs := saved[i := strcpy (saved ! i) (currentInput t)]\<rparr>
         else t) }"

text \<open>The old input is taken off the screen and the new one printed, as a format.\<close>

definition replace_input :: "(u8 \<Rightarrow> u8) \<Rightarrow> string \<Rightarrow> 'a terminal_scheme \<Rightarrow> 'a terminal_scheme option" where
  "replace_input cmos new t =
     do {
       let t1 = on_display (clear_text_region (input_col t) (input_row t) (of_nat (strlen (currentInput t)))) t;
       let t2 = t1\<lparr>currentInput := strcpy (currentInput t1) new\<rparr>;
       v \<leftarrow> vga_insert cmos (input_col t2) (input_row t2) True (currentInput t2) [] (screen t2);
       Some (t2\<lparr>screen := v\<rparr>) }"

definition cmd_up :: "(u8 \<Rightarrow> u8) \<Rightarrow> 'a terminal_scheme \<Rightarrow> 'a terminal_scheme option" where
  "cmd_up cmos t =
     (if 0 \<le> int (unat (input_read_index t)) - 1 then
        let i = input_read_index t - 1
        in replace_input cmos (saved_inputs t ! unat i) (t\<lparr>input_read_index := i\<rparr>)
      else Some t)"

definition cmd_down :: "(u8 \<Rightarrow> u8) \<Rightarrow> 'a terminal_scheme \<Rightarrow> 'a terminal_scheme option" where
  "cmd_down cmos t =
     (if input_read_index t < saved_inputs_num t then
        let i = input_read_index t + 1
        in replace_input cmos (saved_inputs t ! unat i) (t\<lparr>input_read_index := i\<rparr>)
      else if input_read_index t = saved_inputs_num t then replace_input cmos [] t
      else Some t)"

section \<open>The keys\<close>

definition handle_key ::
  "(u8 \<Rightarrow> u8) \<Rightarrow> (string \<Rightarrow> 'a terminal_scheme \<Rightarrow> 'a terminal_scheme option) \<Rightarrow> key_event \<Rightarrow> 'a terminal_scheme \<Rightarrow> 'a terminal_scheme option" where
  "handle_key cmos run ev t =
     (if \<not> pressed ev then Some t
      else if character ev = 10 then
        do {
          t1 \<leftarrow> save_cmd (on_display (set_cursor_updatability False) t);
          t2 \<leftarrow> run_cmd cmos run t1;
          Some (on_display update_cursor (on_display (set_cursor_updatability True) t2)) }
      else if character ev = 8 then
        Some (if 0 < strlen (currentInput t)
              then let t1 = on_display backspace t in t1\<lparr>currentInput := take (strlen (currentInput t1) - 1) (currentInput t1)\<rparr>
              else t)
      else if character ev = UP then cmd_up cmos t
      else if character ev = DOWN then cmd_down cmos t
      else if character ev = UNKNOWN then Some t
      else if onTerminal t \<and> strlen (currentInput t) < 256 then
        (let len = strlen (currentInput t)
         in if len + 1 < INPUT_MAX_SIZE
            then say cmos ''%c'' [Arg32 (character ev)]
              (t\<lparr>currentInput := cstr (take len (currentInput t) @ [char_of (unat (character ev))])\<rparr>)
            else None)
      else Some t)"

partial_function (option) kterminal_handle_input ::
  "(u8 \<Rightarrow> u8) \<Rightarrow> (string \<Rightarrow> 'a terminal_scheme \<Rightarrow> 'a terminal_scheme option) \<Rightarrow> 'a terminal_scheme \<Rightarrow> 'a terminal_scheme option" where
  "kterminal_handle_input cmos run t =
     (case pop_key_event (keys t) of
        None \<Rightarrow> Some t
      | Some (ev, k) \<Rightarrow> do { t1 \<leftarrow> handle_key cmos run ev (t\<lparr>keys := k\<rparr>); kterminal_handle_input cmos run t1 })"

section \<open>The basic commands and the start\<close>

fun help_loop :: "(u8 \<Rightarrow> u8) \<Rightarrow> command list \<Rightarrow> 'a terminal_scheme \<Rightarrow> 'a terminal_scheme option" where
  "help_loop cmos [] t = Some t"
| "help_loop cmos (c # cs) t =
     do {
       t1 \<leftarrow> say_color cmos RGB_COLOR_LIGHT_BLUE ''%s'' [ArgStr (cmd_name c)] t;
       t2 \<leftarrow> say_color cmos RGB_COLOR_BLUE ''%s'' [ArgStr (Some (cmd_params c))] t1;
       t3 \<leftarrow> say cmos (''%s'' @ [newline_char]) [ArgStr (Some (cmd_description c))] t2;
       help_loop cmos cs t3 }"

definition help_cmd :: "(u8 \<Rightarrow> u8) \<Rightarrow> 'a terminal_scheme \<Rightarrow> 'a terminal_scheme option" where
  "help_cmd cmos t = help_loop cmos (commands t) t"

definition help_line :: string where
  "help_line = '' =====================Type '' @ [CHR 0x22] @ ''help'' @ [CHR 0x22] @
     '' to get available commands==================== '' @ [newline_char]"

definition clear_cmd :: "(u8 \<Rightarrow> u8) \<Rightarrow> 'a terminal_scheme \<Rightarrow> 'a terminal_scheme option" where
  "clear_cmd cmos t = say cmos help_line [] (on_display clear_screen t)"

definition echo :: "(u8 \<Rightarrow> u8) \<Rightarrow> 'a terminal_scheme \<Rightarrow> 'a terminal_scheme option" where
  "echo cmos t =
     do { rest \<leftarrow> get_remaining_string (currentInput t); say cmos (''%s'' @ [newline_char]) [ArgStr (Some rest)] t }"

definition mem_cli_register_app :: "'a terminal_scheme \<Rightarrow> 'a terminal_scheme" where
  "mem_cli_register_app t =
     register_command (Some ''meminfo'') (Some ''meminfo'') [] '' - Prints system memory info''
       (register_command (Some ''heapinfo'') (Some ''heapdump'') [] '' - Prints kernel heap info'' t)"

definition storage_commands :: "(string \<times> string \<times> string \<times> string) list" where
  "storage_commands =
     [(''read_ata'', ''read_ata'', '' -dev <device_index> -sect <sector_index>'', '' - Prints a given sector of a given ATA device''),
      (''lsata'', ''list_ata'', [], '' - Lists available ATA devices''),
      (''read_ahci'', ''read_ahci'', '' -dev <device_index> -sect <sector_index>'', '' - Prints a given sector of a given AHCI device''),
      (''lsahci'', ''list_ahci'', [], '' - Lists available AHCI devices''),
      (''pwd'', ''pwd'', [], '' - Prints working directory''),
      (''ls'', ''ls'', [], '' - Lists entries of the current directory''),
      (''cd'', ''cd'', '' <dir>'', '' - Changes directory to given dir''),
      (''mkdir'', ''mkdir'', '' <dir>'', '' - Creates a directory in the current dir''),
      (''mkfile'', ''mkfile'', '' <file>'', '' - Creates a file in the current dir''),
      (''rm'', ''rm'', '' <file>'', '' - Removes (deletes) a directory/directory entry''),
      (''cat'', ''cat'', '' <file>'', '' - Prints file contents''),
      (''write'', ''write_to_file'', '' <file> <content>'', '' - Writes something to a file''),
      (''append'', ''append_to_file'', '' <file> <content>'', '' - Appends something to a file'')]"

definition storage_cli_register_app :: "'a terminal_scheme \<Rightarrow> 'a terminal_scheme" where
  "storage_cli_register_app t = fold (\<lambda>(n, f, p, d). register_command (Some n) (Some f) p d) storage_commands t"

definition sys_commands :: "(string \<times> string \<times> string) list" where
  "sys_commands =
     [(''sysinfo'', ''sysinfo'', '' - Prints system software and hardware information''),
      (''uptime'', ''uptime'', '' - Prints how much time the systems been on since booting''),
      (''currtime'', ''currtime'', '' - Prints current time''),
      (''lsprcss'', ''lsprocesses'', '' - Lists active processes''),
      (''lspci'', ''lspci'', '' - Lists attached PCI devices'')]"

definition sys_cli_register_app :: "'a terminal_scheme \<Rightarrow> 'a terminal_scheme" where
  "sys_cli_register_app t = fold (\<lambda>(n, f, d). register_command (Some n) (Some f) [] d) sys_commands t"

text \<open>
  \<open>cmd::init\<close> up to its endless loop over \<open>kterminal_handle_input\<close>.  The buffers it allocates hold
  what was there before: \<open>first\<close> and the first ten of \<open>fresh\<close>.
\<close>

definition terminal_init ::
  "(u8 \<Rightarrow> u8) \<Rightarrow> string \<Rightarrow> string list \<Rightarrow> 'a terminal_scheme \<Rightarrow> 'a terminal_scheme option" where
  "terminal_init cmos first fresh t =
     do {
       let t1 = t\<lparr>currentInput := first, curr_dir := string_assign_cstr ''/''\<rparr>;
       let t2 = register_command (Some ''help'') (Some ''help'') [] '' - Prints available command'' t1;
       let t3 = register_command (Some ''clear'') (Some ''clear'') [] '' - Clears screen'' t2;
       let t4 = register_command (Some ''echo'') (Some ''echo'') '' <message>'' '' - Prints a message'' t3;
       let t5 = sys_cli_register_app (storage_cli_register_app (mem_cli_register_app t4));
       t6 \<leftarrow> say cmos (newline_char # help_line) [] t5;
       t7 \<leftarrow> prompt cmos t6;
       let t8 = t7\<lparr>input_col := col_num (screen t7), input_row := row_num (screen t7)\<rparr>;
       let t9 = t8\<lparr>saved_inputs := take INPUTS_TO_SAVE fresh, onTerminal := True\<rparr>;
       Some (on_display update_cursor (on_display (set_cursor_updatability True) t9)) }"

section \<open>Parameters of a command\<close>

datatype ArgStrategy = Tokenize | RawRest | SplitHead

definition get_params_tokenized :: "'a terminal_scheme \<Rightarrow> dstring list option" where
  "get_params_tokenized t =
     do {
       s \<leftarrow> c_str (get_input t);
       rest \<leftarrow> get_remaining_string s;
       Some (split_string_tokens (string_of_cstr rest)) }"

definition get_params_raw_rest :: "'a terminal_scheme \<Rightarrow> dstring list option" where
  "get_params_raw_rest t =
     do { s \<leftarrow> c_str (get_input t); rest \<leftarrow> get_remaining_string s; Some [string_of_cstr rest] }"

text \<open>
  \<open>get_remaining_string\<close> returns a static buffer; the second call in a row reads and writes the same
  one, moving the text to its front.
\<close>

definition get_params_split_head :: "'a terminal_scheme \<Rightarrow> dstring list option" where
  "get_params_split_head t =
     do {
       s \<leftarrow> c_str (get_input t);
       rest \<leftarrow> get_remaining_string s;
       head \<leftarrow> get_first_word rest;
       rest2 \<leftarrow> get_remaining_string rest;
       Some [string_of_cstr head, string_of_cstr rest2] }"

definition get_params :: "ArgStrategy \<Rightarrow> 'a terminal_scheme \<Rightarrow> dstring list option" where
  "get_params strategy t =
     (case strategy of
        Tokenize \<Rightarrow> get_params_tokenized t
      | RawRest \<Rightarrow> get_params_raw_rest t
      | SplitHead \<Rightarrow> get_params_split_head t)"

section \<open>The screen\<close>

lemma mode_kept [simp]:
  "vga_mode (put_pixel x y c v) = vga_mode v"
  "vga_mode (put_pixel_alpha x y c a v) = vga_mode v"
  "vga_mode (fb_write i c v) = vga_mode v"
  by (simp_all add: put_pixel_def put_pixel_alpha_def fb_write_def Let_def)

lemma mode_foldl: "(\<And>v x. vga_mode (f v x) = vga_mode v) \<Longrightarrow> vga_mode (foldl f v xs) = vga_mode v"
  by (induction xs arbitrary: v) auto

lemma mode_kept_shapes [simp]:
  "vga_mode (VgaPrint.fill ys xs c v) = vga_mode v"
  "vga_mode (copy_up ys xs v) = vga_mode v"
  "vga_mode (draw_glyph g x y c a v) = vga_mode v"
  "vga_mode (draw_rect_behind x y w h b c a v) = vga_mode v"
  by (simp_all add: VgaPrint.fill_def copy_up_def draw_glyph_def draw_rect_behind_def mode_foldl)

lemma mode_kept_lines [simp]:
  "vga_mode (clear_row r v) = vga_mode v"
  "vga_mode (newline v) = vga_mode v"
  "vga_mode (update_cursor v) = vga_mode v"
  "vga_mode (set_cursor_updatability b v) = vga_mode v"
  by (simp_all add: clear_row_def newline_def update_cursor_def set_cursor_updatability_def Let_def split: option.splits)

lemma mode_region_loop [simp]: "vga_mode (region_loop ox oy lx ly mc mr n row col v) = vga_mode v"
  by (induction ox oy lx ly mc mr n row col v rule: region_loop.induct)
    (subst region_loop.simps, simp add: Let_def)

lemma mode_kept_regions [simp]:
  "vga_mode (clear_text_region c r n v) = vga_mode v" "vga_mode (backspace v) = vga_mode v"
  by (simp_all add: clear_text_region_def backspace_def Let_def split: option.splits)

lemma draw_char_total:
  assumes "printable c"
  shows "\<exists>v'. draw_char x y c color a v = Some v' \<and> vga_mode v' = vga_mode v"
  using assms by (auto simp: draw_char_def printable_def length_font)

lemma kputchar_total:
  assumes "shown c"
  shows "\<exists>v'. kputchar color c v = Some v' \<and> vga_mode v' = vga_mode v"
proof (cases "c = newline_char")
  case True
  then show ?thesis by (simp add: kputchar_def)
next
  case False
  then have p: "printable c" using assms by (simp add: shown_def)
  show ?thesis
  proof (cases "curr_section v")
    case None
    obtain v1 where "draw_char (col_num v * ucast (font_width v)) (row_num v * ucast (font_height v)) c color 255 v = Some v1"
        "vga_mode v1 = vga_mode v"
      using draw_char_total [OF p] by blast
    then show ?thesis using False None by (simp add: kputchar_def Let_def)
  next
    case (Some sc)
    obtain v1 where "draw_char (startX sc + sect_col sc * ucast (font_width v)) (startY sc + sect_row sc * ucast (font_height v)) c color 255 v = Some v1"
        "vga_mode v1 = vga_mode v"
      using draw_char_total [OF p] by blast
    then show ?thesis using False Some by (simp add: kputchar_def Let_def)
  qed
qed

lemma put_text_total:
  assumes "\<forall>cv \<in> set cs. shown (fst cv)"
  shows "\<exists>v'. put_text cs v = Some v' \<and> vga_mode v' = vga_mode v"
  using assms
proof (induction cs arbitrary: v)
  case (Cons cv cs)
  obtain c w where cv: "cv = (c, w)" by (cases cv)
  obtain v1 where "kputchar w c v = Some v1" "vga_mode v1 = vga_mode v"
    using kputchar_total [of c w v] Cons.prems by (auto simp: cv)
  then show ?case using Cons.IH [of v1] Cons.prems by (simp add: cv)
qed simp

text \<open>A format spelled from pieces that can be shown prints.\<close>

lemma print_total:
  assumes "vga_mode v = FRAMEBUFFER" and "\<forall>p \<in> set ps. piece_shown p"
    and "fmt = concat (map spell ps)" and "args = concat (map piece_args ps)"
  shows "\<exists>v'. kvprintf cmos None STD_PRINT color fmt args v = Some (None, v') \<and> vga_mode v' = FRAMEBUFFER"
proof -
  obtain v' where v': "put_text (render color ps) v = Some v'" "vga_mode v' = vga_mode v"
    using put_text_total [OF render_shown [OF assms(2)]] by blast
  have "kv_loop color (concat (map spell ps)) (concat (map piece_args ps)) v = Some v'"
    using kv_pieces [of ps color v] assms(2) v'(1) by (simp add: piece_shown_text(1))
  then show ?thesis using v'(2) assms by (simp add: kvprintf_def kv_print_def log_prefix_def)
qed

lemma newline_shown: "piece_shown (Plain newline_char)"
proof -
  have "newline_char \<noteq> CHR ''%''" by (simp add: newline_char_def char_of_def)
  then show ?thesis by (simp add: shown_def)
qed

definition plain :: "string \<Rightarrow> bool" where
  "plain cs \<longleftrightarrow> (\<forall>c \<in> set cs. shown c \<and> c \<noteq> CHR ''%'')"

lemma print_plain:
  assumes "vga_mode v = FRAMEBUFFER" and "plain cs"
  shows "\<exists>v'. kvprintf cmos None STD_PRINT color cs [] v = Some (None, v') \<and> vga_mode v' = FRAMEBUFFER"
proof -
  have "concat (map spell (map Plain cs)) = cs" "concat (map piece_args (map Plain cs)) = []"
    by (induction cs) auto
  then show ?thesis using assms by (intro print_total [where ps = "map Plain cs"]) (auto simp: plain_def)
qed

lemma plain_no_nul: "plain cs \<Longrightarrow> NUL \<notin> set cs"
  using nul_not_shown by (auto simp: plain_def)

lemma replace_input_works:
  assumes "vga_mode (screen t) = FRAMEBUFFER" and "plain new"
  shows "\<exists>v. replace_input cmos new t = Some (t\<lparr>currentInput := new, screen := v\<rparr>) \<and> vga_mode v = FRAMEBUFFER"
proof -
  define v0 where "v0 = clear_text_region (input_col t) (input_row t) (of_nat (strlen (currentInput t))) (screen t)"
  have m: "vga_mode v0 = FRAMEBUFFER" using assms(1) by (simp add: v0_def)
  have n: "cstr new = new" using plain_no_nul [OF assms(2)] by (simp add: cstr_id)
  have "\<exists>v. vga_insert cmos (input_col t) (input_row t) True new [] v0 = Some v \<and> vga_mode v = FRAMEBUFFER"
  proof (cases "screen_col_num v0 \<le> input_col t \<or> screen_row_num v0 \<le> input_row t")
    case True
    then show ?thesis using m by (simp add: vga_insert_def)
  next
    case False
    obtain v1 where "kvprintf cmos None STD_PRINT default_rgb_color new [] (v0\<lparr>col_num := input_col t, row_num := input_row t\<rparr>) = Some (None, v1)"
        "vga_mode v1 = FRAMEBUFFER"
      using print_plain [of "v0\<lparr>col_num := input_col t, row_num := input_row t\<rparr>" new cmos default_rgb_color] m assms(2) by auto
    then show ?thesis using False by (simp add: vga_insert_def kvprintf_at_def)
  qed
  then obtain v where v: "vga_insert cmos (input_col t) (input_row t) True new [] v0 = Some v" "vga_mode v = FRAMEBUFFER" by blast
  show ?thesis
    using v(2) by (intro exI [of _ v]) (simp add: replace_input_def on_display_def n v(1) [unfolded v0_def strlen_cstr])
qed

lemma say_works:
  assumes "vga_mode (screen t) = FRAMEBUFFER" and "\<forall>p \<in> set ps. piece_shown p"
    and "fmt = concat (map spell ps)" and "args = concat (map piece_args ps)"
  shows "\<exists>v. say cmos fmt args t = Some (t\<lparr>screen := v\<rparr>) \<and> vga_mode v = FRAMEBUFFER"
    and "\<exists>v. say_color cmos color fmt args t = Some (t\<lparr>screen := v\<rparr>) \<and> vga_mode v = FRAMEBUFFER"
  using print_total [OF assms, of cmos default_rgb_color] print_total [OF assms, of cmos color]
  by (auto simp: say_def say_color_def kprintf_def kprintf_color_def)

section \<open>The history\<close>

text \<open>
  The history \<open>h\<close>, oldest first, and how many of its entries are before the one that is shown, as
  long as it is not full.
\<close>

definition history :: "'a terminal_scheme \<Rightarrow> string list \<Rightarrow> nat \<Rightarrow> bool" where
  "history t h p \<longleftrightarrow> length h < INPUTS_TO_SAVE \<and> input_write_index t = of_nat (length h) \<and> saved_inputs_num t = of_nat (length h)
     \<and> input_read_index t = of_nat p \<and> p \<le> length h \<and> length (saved_inputs t) = INPUTS_TO_SAVE
     \<and> take (length h) (saved_inputs t) = h \<and> (\<forall>s \<in> set h. NUL \<notin> set s)"

definition recorded :: "string list \<Rightarrow> string \<Rightarrow> string list" where
  "recorded h line = (if h \<noteq> [] \<and> last h = line then h else h @ [line])"

lemma unat_small_u8: "n < 256 \<Longrightarrow> unat (of_nat n :: u8) = n"
  by (simp add: unat_of_nat take_bit_nat_eq_self)

lemma save_cmd_records:
  assumes "history t h p" and "NUL \<notin> set (currentInput t)" and "get_first_word (currentInput t) = Some w" and "w \<noteq> []"
    and "NUL \<notin> set w" and "length (recorded h (currentInput t)) < INPUTS_TO_SAVE"
  shows "\<exists>saved i n. save_cmd t = Some (t\<lparr>saved_inputs := saved, input_write_index := i, saved_inputs_num := n\<rparr>)
    \<and> history (t\<lparr>saved_inputs := saved, input_write_index := i, saved_inputs_num := n\<rparr>) (recorded h (currentInput t)) p"
proof -
  let ?n = "length h" and ?line = "currentInput t"
  note h = assms(1) [unfolded history_def]
  have w: "strcmp w [] \<noteq> 0" using assms(4,5) by (simp add: strcmp_eq_0 cstr_id)
  have i: "unat (input_write_index t) = ?n" using h by (simp add: INPUTS_TO_SAVE_def unat_small_u8)
  have l: "cstr ?line = ?line" using assms(2) by (simp add: cstr_id)
  have at: "saved_inputs t ! (?n - 1) = last h" if "h \<noteq> []"
  proof -
    have "take ?n (saved_inputs t) = h" using h by simp
    then have "h ! (?n - 1) = saved_inputs t ! (?n - 1)" using that by (metis diff_less length_greater_0_conv nth_take zero_less_one)
    then show ?thesis using that by (simp add: last_conv_nth)
  qed
  show ?thesis
  proof (cases "h \<noteq> [] \<and> last h = ?line")
    case True
    then have "save_cmd t = Some t" using assms(3) w i at by (auto simp: save_cmd_def strcmp_eq_0)
    moreover have "history (t\<lparr>saved_inputs := saved_inputs t, input_write_index := input_write_index t, saved_inputs_num := saved_inputs_num t\<rparr>)
        (recorded h ?line) p"
      using True assms(1) by (simp add: recorded_def)
    ultimately show ?thesis
      by (intro exI [of _ "saved_inputs t"] exI [of _ "input_write_index t"] exI [of _ "saved_inputs_num t"]) simp
  next
    case False
    have r: "recorded h ?line = h @ [?line]" using False by (auto simp: recorded_def)
    then have n: "?n < INPUTS_TO_SAVE - 1" using assms(6) by simp
    have d: "?n = 0 \<or> 0 < ?n \<and> strcmp ?line (saved_inputs t ! (?n - 1)) \<noteq> 0"
    proof (cases "h = []")
      case ne: False
      then have "last h \<in> set h" by simp
      then have "NUL \<notin> set (last h)" using h by blast
      then have "cstr (last h) = last h" by (rule cstr_id)
      then show ?thesis using ne False at l by (auto simp: strcmp_eq_0)
    qed simp
    let ?saved = "(saved_inputs t)[?n := ?line]"
    have "save_cmd t = Some (t\<lparr>saved_inputs := ?saved, input_write_index := input_write_index t + 1, saved_inputs_num := saved_inputs_num t + 1\<rparr>)"
      using assms(3) w i d n l by (simp add: save_cmd_def Let_def)
    moreover have "take (Suc ?n) ?saved = h @ [?line]"
      using h n by (simp add: take_Suc_conv_app_nth take_update_cancel)
    then have "history (t\<lparr>saved_inputs := ?saved, input_write_index := input_write_index t + 1, saved_inputs_num := saved_inputs_num t + 1\<rparr>)
        (h @ [?line]) p"
      using h n assms(2) by (auto simp: history_def)
    ultimately show ?thesis unfolding r by blast
  qed
qed

lemma cmd_up_steps:
  assumes "history t h (Suc p)" and "vga_mode (screen t) = FRAMEBUFFER" and "plain (h ! p)"
  shows "\<exists>v. cmd_up cmos t = Some (t\<lparr>input_read_index := of_nat p, currentInput := h ! p, screen := v\<rparr>) \<and> vga_mode v = FRAMEBUFFER"
proof -
  note h = assms(1) [unfolded history_def]
  have u: "unat (input_read_index t) = Suc p" "unat (of_nat p :: u8) = p"
    using h by (simp_all add: INPUTS_TO_SAVE_def unat_small_u8 del: of_nat_Suc)
  have d: "input_read_index t - 1 = of_nat p" using h by simp
  have "take (length h) (saved_inputs t) ! p = saved_inputs t ! p" using h by (intro nth_take) simp
  then have s: "saved_inputs t ! p = h ! p" using h by simp
  show ?thesis
    using replace_input_works [of "t\<lparr>input_read_index := of_nat p\<rparr>" "h ! p" cmos] assms(2,3) u
    by (simp add: cmd_up_def d s Let_def)
qed

text \<open>The way down goes one buffer too far.\<close>

lemma cmd_down_steps:
  assumes "history t h p" and "p < length h" and "vga_mode (screen t) = FRAMEBUFFER" and "plain (saved_inputs t ! Suc p)"
  shows "\<exists>v. cmd_down cmos t = Some (t\<lparr>input_read_index := of_nat (Suc p), currentInput := saved_inputs t ! Suc p, screen := v\<rparr>)
    \<and> vga_mode v = FRAMEBUFFER"
proof -
  note h = assms(1) [unfolded history_def]
  have u: "unat (input_read_index t) = p" "unat (saved_inputs_num t) = length h" "unat (of_nat (Suc p) :: u8) = Suc p"
    using h assms(2) by (simp_all add: INPUTS_TO_SAVE_def unat_small_u8 del: of_nat_Suc)
  have d: "input_read_index t + 1 = of_nat (Suc p)" using h by simp
  have "input_read_index t < saved_inputs_num t" using u assms(2) by (simp add: word_less_nat_alt)
  then show ?thesis
    using replace_input_works [of "t\<lparr>input_read_index := of_nat (Suc p)\<rparr>" "saved_inputs t ! Suc p" cmos] assms(3,4)
    by (simp add: cmd_down_def d u(3) Let_def del: of_nat_Suc)
qed

text \<open>
  Once nine lines have been saved, a new one goes into the last buffer, which the way up from the
  newest never reaches, and what that buffer held before moves into the history.
\<close>

lemma full_history_hides_newest:
  assumes "length (saved_inputs t) = 10" and "input_write_index t = 9" and "saved_inputs_num t = 9"
    and "\<forall>s \<in> set (saved_inputs t). NUL \<notin> set s" and "NUL \<notin> set (currentInput t)"
    and "get_first_word (currentInput t) = Some w" and "w \<noteq> []" and "NUL \<notin> set w"
    and "currentInput t \<noteq> saved_inputs t ! 8"
  shows "save_cmd t = Some (t\<lparr>saved_inputs := tl (saved_inputs t) @ [currentInput t]\<rparr>)"
    and "cmd_up cmos (t\<lparr>saved_inputs := tl (saved_inputs t) @ [currentInput t], input_read_index := 9\<rparr>)
      = replace_input cmos (saved_inputs t ! 9) (t\<lparr>saved_inputs := tl (saved_inputs t) @ [currentInput t], input_read_index := 8\<rparr>)"
proof -
  obtain a b c d e f g h i j where s: "saved_inputs t = [a, b, c, d, e, f, g, h, i, j]"
    using assms(1) by (auto simp: length_Suc_conv numeral_eq_Suc)
  have u: "[0..<9] = [0, 1, 2, 3, 4, 5, 6, 7, 8 :: nat]" by (simp add: upt_rec)
  have sh: "shift_up [0..<9] [a, b, c, d, e, f, g, h, i, j] = [b, c, d, e, f, g, h, i, j, j]"
    using assms(4) by (simp add: u s)
  have l: "cstr i = i" "cstr (currentInput t) = currentInput t" using assms(4,5) s by auto
  show "save_cmd t = Some (t\<lparr>saved_inputs := tl (saved_inputs t) @ [currentInput t]\<rparr>)"
    using assms(2,6-9) l by (simp add: save_cmd_def s sh strcmp_eq_0 INPUTS_TO_SAVE_def)
  show "cmd_up cmos (t\<lparr>saved_inputs := tl (saved_inputs t) @ [currentInput t], input_read_index := 9\<rparr>)
      = replace_input cmos (saved_inputs t ! 9) (t\<lparr>saved_inputs := tl (saved_inputs t) @ [currentInput t], input_read_index := 8\<rparr>)"
    by (simp add: cmd_up_def s)
qed

section \<open>Typing a line\<close>

text \<open>Keys that change the line, and what they make of it.\<close>

definition editing :: "key_event \<Rightarrow> bool" where
  "editing ev \<longleftrightarrow> (pressed ev \<longrightarrow> character ev = 8 \<or> (\<exists>c. printable c \<and> character ev = chc c))"

definition edit :: "key_event \<Rightarrow> string \<Rightarrow> string" where
  "edit ev line =
     (if \<not> pressed ev then line else if character ev = 8 then butlast line else line @ [char_of (unat (character ev))])"

definition enter :: key_event where "enter = \<lparr>character = 10, pressed = True\<rparr>"

lemma chc_printable:
  assumes "printable c"
  shows "chc c \<noteq> 10" "chc c \<noteq> 8" "chc c \<noteq> UP" "chc c \<noteq> DOWN" "chc c \<noteq> UNKNOWN" "char_of (unat (chc c)) = c"
proof -
  have "cv c < 2 ^ 32" using cv_less_256 [of c] by (rule less_trans) simp
  then have "unat (chc c) = cv c" unfolding chc_def by (rule unat_of_nat_u32)
  then have u: "unat (chc c) = of_char c" by (simp add: cv_def)
  then show "char_of (unat (chc c)) = c" by simp
  have "32 \<le> unat (chc c)" using assms u by (simp add: printable_def)
  then show "chc c \<noteq> 10" "chc c \<noteq> 8" by auto
  show "chc c \<noteq> UP" "chc c \<noteq> DOWN" "chc c \<noteq> UNKNOWN" using chc_small [of c] by (auto simp: UP_def DOWN_def UNKNOWN_def simp del: chc_small)
qed

lemma editing_printable:
  assumes "editing ev" and "\<forall>c \<in> set line. printable c"
  shows "\<forall>c \<in> set (edit ev line). printable c"
  using assms by (auto simp: editing_def edit_def chc_printable dest: in_set_butlastD)

lemma printable_no_nul: "\<forall>c \<in> set line. printable c \<Longrightarrow> NUL \<notin> set line"
  using printable_not_nul by blast

lemma editing_key:
  assumes "editing ev" and "vga_mode (screen t) = FRAMEBUFFER" and "onTerminal t" and "\<forall>c \<in> set (currentInput t). printable c"
    and "length (edit ev (currentInput t)) < INPUT_MAX_SIZE"
  shows "\<exists>v. handle_key cmos run ev t = Some (t\<lparr>currentInput := edit ev (currentInput t), screen := v\<rparr>) \<and> vga_mode v = FRAMEBUFFER"
proof -
  let ?line = "currentInput t"
  have l: "cstr ?line = ?line" using printable_no_nul [OF assms(4)] by simp
  consider "\<not> pressed ev" | "pressed ev" "character ev = 8" | c where "pressed ev" "printable c" "character ev = chc c"
    using assms(1) by (auto simp: editing_def)
  then show ?thesis
  proof cases
    case 1
    then show ?thesis using assms(2) by (intro exI [of _ "screen t"]) (simp add: handle_key_def edit_def)
  next
    case 2
    show ?thesis
    proof (cases "?line = []")
      case True
      then show ?thesis using 2 assms(2) by (intro exI [of _ "screen t"]) (simp add: handle_key_def edit_def)
    next
      case False
      then show ?thesis using 2 assms(2) l
        by (intro exI [of _ "backspace (screen t)"]) (simp add: handle_key_def edit_def on_display_def butlast_conv_take)
    qed
  next
    case (3 c)
    have e: "edit ev ?line = ?line @ [c]" using 3 by (simp add: edit_def chc_printable)
    have n: "cstr (?line @ [c]) = ?line @ [c]" using printable_no_nul [of "?line @ [c]"] assms(4) 3(2) by simp
    have "piece_shown (Character (chc c))" using 3(2) by (simp add: chc_printable shown_def)
    then obtain v where v: "say cmos ''%c'' [Arg32 (chc c)] (t\<lparr>currentInput := ?line @ [c]\<rparr>) = Some (t\<lparr>currentInput := ?line @ [c], screen := v\<rparr>)"
        "vga_mode v = FRAMEBUFFER"
      using say_works(1) [of "t\<lparr>currentInput := ?line @ [c]\<rparr>" "[Character (chc c)]" "''%c''" "[Arg32 (chc c)]" cmos] assms(2) by auto
    then show ?thesis
      using 3 assms(3,5) l n e by (auto simp: handle_key_def chc_printable INPUT_MAX_SIZE_def Let_def)
  qed
qed

lemma input_step:
  assumes "kbd_ok (keys t)" and "events (keys t) = ev # evs"
  shows "\<exists>k. kbd_ok k \<and> events k = evs
    \<and> kterminal_handle_input cmos run t = do { t1 \<leftarrow> handle_key cmos run ev (t\<lparr>keys := k\<rparr>); kterminal_handle_input cmos run t1 }"
proof -
  obtain k where "pop_key_event (keys t) = Some (ev, k)" "kbd_ok k" "events k = evs"
    using ring.pop_law [OF assms] by blast
  then show ?thesis by (intro exI [of _ k]) (simp add: kterminal_handle_input.simps [of cmos run t])
qed

definition line_fits :: "key_event list \<Rightarrow> string \<Rightarrow> bool" where
  "line_fits evs line \<longleftrightarrow> (\<forall>n \<le> length evs. length (fold edit (take n evs) line) < INPUT_MAX_SIZE)"

lemma line_fits_Cons: "line_fits (ev # evs) line \<Longrightarrow> length (edit ev line) < INPUT_MAX_SIZE \<and> line_fits evs (edit ev line)"
  unfolding line_fits_def
  by (intro conjI allI impI) (force dest: spec [of _ 1], force dest: spec [of _ "Suc n" for n])

lemma edits_line:
  assumes "kbd_ok (keys t)" and "events (keys t) = evs @ rest" and "\<forall>ev \<in> set evs. editing ev"
    and "vga_mode (screen t) = FRAMEBUFFER" and "onTerminal t" and "\<forall>c \<in> set (currentInput t). printable c"
    and "line_fits evs (currentInput t)"
  shows "\<exists>k v. kbd_ok k \<and> events k = rest \<and> vga_mode v = FRAMEBUFFER
    \<and> (\<forall>c \<in> set (fold edit evs (currentInput t)). printable c)
    \<and> kterminal_handle_input cmos run t
        = kterminal_handle_input cmos run (t\<lparr>keys := k, currentInput := fold edit evs (currentInput t), screen := v\<rparr>)"
  using assms
proof (induction evs arbitrary: t)
  case Nil
  then show ?case by (intro exI [of _ "keys t"] exI [of _ "screen t"]) simp
next
  case (Cons ev evs)
  obtain k1 where k1: "kbd_ok k1" "events k1 = evs @ rest"
      "kterminal_handle_input cmos run t = do { t1 \<leftarrow> handle_key cmos run ev (t\<lparr>keys := k1\<rparr>); kterminal_handle_input cmos run t1 }"
    using input_step [OF Cons.prems(1), of ev "evs @ rest" cmos run] Cons.prems(2) by auto
  have fits: "length (edit ev (currentInput t)) < INPUT_MAX_SIZE" "line_fits evs (edit ev (currentInput t))"
    using line_fits_Cons [OF Cons.prems(7)] by auto
  have e: "editing ev" "\<forall>ev \<in> set evs. editing ev" using Cons.prems(3) by auto
  obtain v1 where v1: "handle_key cmos run ev (t\<lparr>keys := k1\<rparr>)
        = Some (t\<lparr>keys := k1, currentInput := edit ev (currentInput t), screen := v1\<rparr>)" "vga_mode v1 = FRAMEBUFFER"
    using editing_key [of ev "t\<lparr>keys := k1\<rparr>" cmos run] Cons.prems(4-6) fits(1) e(1) by auto
  define t1 where "t1 = t\<lparr>keys := k1, currentInput := edit ev (currentInput t), screen := v1\<rparr>"
  have p: "\<forall>c \<in> set (edit ev (currentInput t)). printable c" by (rule editing_printable [OF e(1) Cons.prems(6)])
  have "\<exists>k v. kbd_ok k \<and> events k = rest \<and> vga_mode v = FRAMEBUFFER \<and> (\<forall>c \<in> set (fold edit evs (currentInput t1)). printable c)
    \<and> kterminal_handle_input cmos run t1
        = kterminal_handle_input cmos run (t1\<lparr>keys := k, currentInput := fold edit evs (currentInput t1), screen := v\<rparr>)"
    using k1(1,2) v1(2) fits(2) Cons.prems(5) e(2) p by (intro Cons.IH) (simp_all add: t1_def)
  then show ?case using k1(3) v1(1) by (auto simp: t1_def)
qed

lemma position_foldl: "(\<And>v x. col_num (f v x) = col_num v \<and> row_num (f v x) = row_num v) \<Longrightarrow>
    col_num (foldl f v xs) = col_num v \<and> row_num (foldl f v xs) = row_num v"
  by (induction xs arbitrary: v) auto

lemma position_kept [simp]:
  "col_num (update_cursor v) = col_num v" "row_num (update_cursor v) = row_num v"
  "col_num (set_cursor_updatability b v) = col_num v" "row_num (set_cursor_updatability b v) = row_num v"
proof -
  have a: "col_num (put_pixel_alpha x y c a v) = col_num v \<and> row_num (put_pixel_alpha x y c a v) = row_num v" for x y c a v
    by (simp add: put_pixel_alpha_def put_pixel_def Let_def)
  have d: "col_num (draw_rect_behind x y w h c b al v) = col_num v \<and> row_num (draw_rect_behind x y w h c b al v) = row_num v"
    for x y w h c b al v
    unfolding draw_rect_behind_def by (intro position_foldl) (simp add: a)
  show "col_num (update_cursor v) = col_num v" "row_num (update_cursor v) = row_num v"
    "col_num (set_cursor_updatability b v) = col_num v" "row_num (set_cursor_updatability b v) = row_num v"
    using d by (simp_all add: update_cursor_def set_cursor_updatability_def Let_def)
qed

text \<open>A terminal on which the prompt can be shown.\<close>

definition ready :: "'a terminal_scheme \<Rightarrow> bool" where
  "ready t \<longleftrightarrow> vga_mode (screen t) = FRAMEBUFFER \<and> (\<forall>c \<in> set (currentUser t). shown c)
     \<and> (\<exists>d. d_data (curr_dir t) = Some d \<and> (\<forall>c \<in> set d. shown c))"

lemma new_cmd_works:
  assumes "ready t"
  shows "\<exists>v. new_cmd cmos t = Some (t\<lparr>screen := v, input_col := col_num v, input_row := row_num v, currentInput := []\<rparr>)
    \<and> vga_mode v = FRAMEBUFFER"
proof -
  obtain d where d: "d_data (curr_dir t) = Some d" "\<forall>c \<in> set d. shown c" using assms by (auto simp: ready_def)
  let ?ps = "[Plain newline_char, CString (currentUser t)] @ map Plain ''@MioOS: '' @ [DString (curr_dir t) d, Plain (CHR ''#''), Plain (CHR '' '')]"
  have "\<forall>p \<in> set ?ps. piece_shown p"
    using assms d newline_shown by (auto simp: ready_def shown_def printable_def)
  then obtain v where "prompt cmos t = Some (t\<lparr>screen := v\<rparr>)" "vga_mode v = FRAMEBUFFER"
    using say_works(2) [of t ?ps "newline_char # ''%s@MioOS: %S# ''" "[ArgStr (Some (currentUser t)), ArgString (Some (curr_dir t))]"
        cmos RGB_COLOR_LIGHT_GRAY] assms by (auto simp: ready_def prompt_def)
  then show ?thesis by (auto simp: new_cmd_def)
qed

lemma first_word_in_word: "get_first_word s = Some w \<Longrightarrow> \<forall>c \<in> set w. in_word c"
  by (auto simp: get_first_word_def Let_def split: if_splits dest: set_takeWhileD)

text \<open>What the function of a command finds when \<open>line\<close> has been entered in \<open>t\<close>.\<close>

definition entered :: "'a terminal_scheme \<Rightarrow> string \<Rightarrow> 'a terminal_scheme \<Rightarrow> bool" where
  "entered t line t1 \<longleftrightarrow> currentInput t1 = line \<and> commands t1 = commands t \<and> curr_dir t1 = curr_dir t
     \<and> currentUser t1 = currentUser t \<and> onTerminal t1 = onTerminal t \<and> vga_mode (screen t1) = FRAMEBUFFER
     \<and> kbd_ok (keys t1) \<and> events (keys t1) = []"


section \<open>Walking through the history\<close>

definition press_up :: key_event where "press_up = \<lparr>character = UP, pressed = True\<rparr>"
definition press_down :: key_event where "press_down = \<lparr>character = DOWN, pressed = True\<rparr>"

lemma handle_arrows:
  "handle_key cmos run press_up t = cmd_up cmos t" "handle_key cmos run press_down t = cmd_down cmos t"
  by (simp_all add: handle_key_def press_up_def press_down_def UP_def DOWN_def)

lemma ups_steps:
  assumes "kbd_ok (keys t)" and "events (keys t) = replicate n press_up @ rest" and "history t h m" and "n \<le> m"
    and "vga_mode (screen t) = FRAMEBUFFER" and "\<forall>s \<in> set h. plain s"
  shows "\<exists>k v. kbd_ok k \<and> events k = rest \<and> vga_mode v = FRAMEBUFFER
    \<and> kterminal_handle_input cmos run t = kterminal_handle_input cmos run (t\<lparr>keys := k, screen := v,
        input_read_index := of_nat (m - n), currentInput := if n = 0 then currentInput t else h ! (m - n)\<rparr>)"
  using assms
proof (induction n arbitrary: t m)
  case 0
  have "t\<lparr>keys := keys t, screen := screen t, input_read_index := of_nat m, currentInput := currentInput t\<rparr> = t"
    using 0(3) by (simp add: history_def)
  then show ?case using 0 by (intro exI [of _ "keys t"] exI [of _ "screen t"]) simp
next
  case (Suc n)
  obtain p where m: "m = Suc p" using Suc.prems(4) by (cases m) auto
  obtain k1 where k1: "kbd_ok k1" "events k1 = replicate n press_up @ rest"
      "kterminal_handle_input cmos run t = do { t1 \<leftarrow> cmd_up cmos (t\<lparr>keys := k1\<rparr>); kterminal_handle_input cmos run t1 }"
    using input_step [OF Suc.prems(1), of press_up "replicate n press_up @ rest" cmos run] Suc.prems(2) by (auto simp: handle_arrows)
  have p: "p < length h" using Suc.prems(3) m by (simp add: history_def)
  have h1: "history (t\<lparr>keys := k1\<rparr>) h (Suc p)" using Suc.prems(3) m by (simp add: history_def)
  have pl: "plain (h ! p)" using Suc.prems(6) p by auto
  obtain v1 where v1: "cmd_up cmos (t\<lparr>keys := k1\<rparr>)
        = Some (t\<lparr>keys := k1, input_read_index := of_nat p, currentInput := h ! p, screen := v1\<rparr>)" "vga_mode v1 = FRAMEBUFFER"
    using cmd_up_steps [OF h1 _ pl, of cmos] Suc.prems(5) by auto
  define t1 where "t1 = t\<lparr>keys := k1, input_read_index := of_nat p, currentInput := h ! p, screen := v1\<rparr>"
  have h2: "history t1 h p" using Suc.prems(3) m by (simp add: history_def t1_def)
  obtain k v where k: "kbd_ok k" "events k = rest" "vga_mode v = FRAMEBUFFER"
      and r: "kterminal_handle_input cmos run t1 = kterminal_handle_input cmos run (t1\<lparr>keys := k, screen := v,
        input_read_index := of_nat (p - n), currentInput := if n = 0 then currentInput t1 else h ! (p - n)\<rparr>)"
    using Suc.IH [of t1 p] k1(1,2) v1(2) h2 Suc.prems(4,6) m by (fastforce simp: t1_def simp del: of_nat_Suc)
  have "kterminal_handle_input cmos run t = kterminal_handle_input cmos run t1" using k1(3) v1(1) by (simp add: t1_def)
  also note r
  also have "t1\<lparr>keys := k, screen := v, input_read_index := of_nat (p - n), currentInput := if n = 0 then currentInput t1 else h ! (p - n)\<rparr>
      = t\<lparr>keys := k, screen := v, input_read_index := of_nat (m - Suc n), currentInput := h ! (m - Suc n)\<rparr>"
    by (simp add: t1_def m del: of_nat_Suc)
  finally show ?case using k by (intro exI [of _ k] exI [of _ v]) simp
qed

lemma downs_steps:
  assumes "kbd_ok (keys t)" and "events (keys t) = replicate n press_down @ rest" and "history t h m" and "m + n \<le> length h"
    and "vga_mode (screen t) = FRAMEBUFFER" and "\<forall>i \<le> length h. plain (saved_inputs t ! i)"
  shows "\<exists>k v. kbd_ok k \<and> events k = rest \<and> vga_mode v = FRAMEBUFFER
    \<and> kterminal_handle_input cmos run t = kterminal_handle_input cmos run (t\<lparr>keys := k, screen := v,
        input_read_index := of_nat (m + n), currentInput := if n = 0 then currentInput t else saved_inputs t ! (m + n)\<rparr>)"
  using assms
proof (induction n arbitrary: t m)
  case 0
  have "t\<lparr>keys := keys t, screen := screen t, input_read_index := of_nat m, currentInput := currentInput t\<rparr> = t"
    using 0(3) by (simp add: history_def)
  then show ?case using 0 by (intro exI [of _ "keys t"] exI [of _ "screen t"]) simp
next
  case (Suc n)
  obtain k1 where k1: "kbd_ok k1" "events k1 = replicate n press_down @ rest"
      "kterminal_handle_input cmos run t = do { t1 \<leftarrow> cmd_down cmos (t\<lparr>keys := k1\<rparr>); kterminal_handle_input cmos run t1 }"
    using input_step [OF Suc.prems(1), of press_down "replicate n press_down @ rest" cmos run] Suc.prems(2) by (auto simp: handle_arrows)
  have h1: "history (t\<lparr>keys := k1\<rparr>) h m" using Suc.prems(3) by (simp add: history_def)
  obtain v1 where v1: "cmd_down cmos (t\<lparr>keys := k1\<rparr>)
        = Some (t\<lparr>keys := k1, input_read_index := of_nat (Suc m), currentInput := saved_inputs t ! Suc m, screen := v1\<rparr>)"
      "vga_mode v1 = FRAMEBUFFER"
    using cmd_down_steps [OF h1, of cmos] Suc.prems(4-6) by auto
  define t1 where "t1 = t\<lparr>keys := k1, input_read_index := of_nat (Suc m), currentInput := saved_inputs t ! Suc m, screen := v1\<rparr>"
  have h2: "history t1 h (Suc m)" using Suc.prems(3,4) by (simp add: history_def t1_def)
  obtain k v where k: "kbd_ok k" "events k = rest" "vga_mode v = FRAMEBUFFER"
      and r: "kterminal_handle_input cmos run t1 = kterminal_handle_input cmos run (t1\<lparr>keys := k, screen := v,
        input_read_index := of_nat (Suc m + n), currentInput := if n = 0 then currentInput t1 else saved_inputs t1 ! (Suc m + n)\<rparr>)"
    using Suc.IH [of t1 "Suc m"] k1(1,2) v1(2) h2 Suc.prems(4,6) by (fastforce simp: t1_def simp del: of_nat_Suc)
  have "kterminal_handle_input cmos run t = kterminal_handle_input cmos run t1" using k1(3) v1(1) by (simp add: t1_def)
  also note r
  also have "t1\<lparr>keys := k, screen := v, input_read_index := of_nat (Suc m + n), currentInput := if n = 0 then currentInput t1 else saved_inputs t1 ! (Suc m + n)\<rparr>
      = t\<lparr>keys := k, screen := v, input_read_index := of_nat (m + Suc n), currentInput := saved_inputs t ! (m + Suc n)\<rparr>"
    by (simp add: t1_def del: of_nat_Suc)
  finally show ?case using k by (intro exI [of _ k] exI [of _ v]) simp
qed


section \<open>Examples\<close>

definition keys_of :: "key_event list \<Rightarrow> kbd" where
  "keys_of evs = \<lparr>keyboardBuffer = evs @ replicate (128 - length evs) enter, kb_buf_head = length evs, kb_buf_tail = 0,
     shift_on = False, capsLock_on = False, is_extended = False\<rparr>"

lemma keys_of_events:
  assumes "length evs < 128"
  shows "kbd_ok (keys_of evs)" "events (keys_of evs) = evs"
proof -
  show "kbd_ok (keys_of evs)" using assms by (simp add: kbd_ok_def keys_of_def)
  have "map (\<lambda>i. (evs @ replicate (128 - length evs) enter) ! (i mod 128)) [0..<length evs] = map ((!) evs) [0..<length evs]"
    using assms by (intro map_cong refl) (simp add: nth_append)
  then show "events (keys_of evs) = evs" using assms by (simp add: events_def keys_of_def map_nth)
qed

definition demo_terminal :: "key_event list \<Rightarrow> string list \<Rightarrow> terminal" where
  "demo_terminal evs h = \<lparr>currentInput = [],
     commands = [\<lparr>cmd_name = Some ''e'', cmd_function = Some ''echo'', cmd_params = [], cmd_description = []\<rparr>],
     saved_inputs = h @ replicate (10 - length h) ''old'', input_write_index = of_nat (length h), input_read_index = of_nat (length h),
     saved_inputs_num = of_nat (length h), input_row = 0, input_col = 0, onTerminal = True, currentUser = ''root'',
     curr_dir = string_of_cstr ''/'', screen = demo_screen, keys = keys_of evs\<rparr>"

lemma demo_history:
  assumes "length h < 10" and "\<forall>s \<in> set h. NUL \<notin> set s"
  shows "history (demo_terminal evs h) h (length h)"
  using assms by (simp add: history_def demo_terminal_def INPUTS_TO_SAVE_def)

definition press :: "char \<Rightarrow> key_event" where "press c = \<lparr>character = chc c, pressed = True\<rparr>"



end
