(* ===== verification/Multiboot.thy ===== *)
theory Multiboot
  imports Pmm VgaPrint
begin

text \<open>
  The boot information of \<open>src/kernel/multiboot.cpp\<close> and \<open>include/multiboot.hpp\<close>: a block of
  memory that starts with its size and holds tags, each with its type, its size and its content,
  padded to eight bytes.  Tags are found by their addresses, 0 for null.  The search goes on for ever
  over a tag whose size rounds to 0 (\<open>None\<close>).  The second part reads the tags the kernel uses: the
  memory map for \<open>src/kernel/mm/pmm.cpp\<close> and the framebuffer.
\<close>

section \<open>Tags\<close>

definition MULTIBOOT2_BOOTLOADER_MAGIC :: u32 where "MULTIBOOT2_BOOTLOADER_MAGIC = 0x36D76289"
definition MULTIBOOT_TAG_TYPE_END :: u32 where "MULTIBOOT_TAG_TYPE_END = 0"
definition MULTIBOOT_TAG_TYPE_CMDLINE :: u32 where "MULTIBOOT_TAG_TYPE_CMDLINE = 1"
definition MULTIBOOT_TAG_TYPE_BOOT_LOADER_NAME :: u32 where "MULTIBOOT_TAG_TYPE_BOOT_LOADER_NAME = 2"
definition MULTIBOOT_TAG_TYPE_BASIC_MEMINFO :: u32 where "MULTIBOOT_TAG_TYPE_BASIC_MEMINFO = 4"
definition MULTIBOOT_TAG_TYPE_BOOTDEV :: u32 where "MULTIBOOT_TAG_TYPE_BOOTDEV = 5"
definition MULTIBOOT_TAG_TYPE_MMAP :: u32 where "MULTIBOOT_TAG_TYPE_MMAP = 6"
definition MULTIBOOT_TAG_TYPE_FRAMEBUFFER :: u32 where "MULTIBOOT_TAG_TYPE_FRAMEBUFFER = 8"

definition info_total_size :: "mem \<Rightarrow> u32 \<Rightarrow> u32" where "info_total_size m info = read32 m info"
definition tag_type :: "mem \<Rightarrow> u32 \<Rightarrow> u32" where "tag_type m tag = read32 m tag"
definition tag_size :: "mem \<Rightarrow> u32 \<Rightarrow> u32" where "tag_size m tag = read32 m (tag + 4)"

partial_function (option) find_tag_loop :: "mem \<Rightarrow> u32 \<Rightarrow> u32 \<Rightarrow> u32 \<Rightarrow> u32 option" where
  "find_tag_loop m info ty tag =
     (if tag_type m tag = MULTIBOOT_TAG_TYPE_END then Some 0
      else if tag_type m tag = ty then Some tag
      else
        let tag' = tag + ((tag_size m tag + 7) AND NOT 7)
        in if info + info_total_size m info \<le> tag' then Some 0 else find_tag_loop m info ty tag')"

definition find_tag :: "mem \<Rightarrow> u32 \<Rightarrow> u32 \<Rightarrow> u32 option" where
  "find_tag m info ty = find_tag_loop m info ty (info + 8)"

definition get_framebuffer :: "mem \<Rightarrow> u32 \<Rightarrow> u32 option" where
  "get_framebuffer m info = find_tag m info MULTIBOOT_TAG_TYPE_FRAMEBUFFER"
definition get_basic_meminfo :: "mem \<Rightarrow> u32 \<Rightarrow> u32 option" where
  "get_basic_meminfo m info = find_tag m info MULTIBOOT_TAG_TYPE_BASIC_MEMINFO"
definition get_cmdline :: "mem \<Rightarrow> u32 \<Rightarrow> u32 option" where
  "get_cmdline m info = find_tag m info MULTIBOOT_TAG_TYPE_CMDLINE"
definition get_bootloader_name :: "mem \<Rightarrow> u32 \<Rightarrow> u32 option" where
  "get_bootloader_name m info = find_tag m info MULTIBOOT_TAG_TYPE_BOOT_LOADER_NAME"
definition get_mmap :: "mem \<Rightarrow> u32 \<Rightarrow> u32 option" where
  "get_mmap m info = find_tag m info MULTIBOOT_TAG_TYPE_MMAP"
definition get_bootdev :: "mem \<Rightarrow> u32 \<Rightarrow> u32 option" where
  "get_bootdev m info = find_tag m info MULTIBOOT_TAG_TYPE_BOOTDEV"

section \<open>The tags the kernel reads\<close>

definition read64 :: "mem \<Rightarrow> u32 \<Rightarrow> u64" where
  "read64 m a = ucast (read32 m a) OR push_bit 32 (ucast (read32 m (a + 4)))"

definition mmap_entry_at :: "mem \<Rightarrow> u32 \<Rightarrow> mmap_entry" where
  "mmap_entry_at m a = \<lparr>e_addr = read64 m a, e_len = read64 m (a + 8), e_type = read32 m (a + 16)\<rparr>"

text \<open>The entries of a memory map; their number is a division by the size the tag gives for one.\<close>

definition mmap_entries :: "mem \<Rightarrow> u32 \<Rightarrow> mmap_entry list option" where
  "mmap_entries m tag =
     (let entry_size = read32 m (tag + 8)
      in if entry_size = 0 then None
         else Some (map (\<lambda>i. mmap_entry_at m (tag + 16 + 24 * of_nat i)) [0..<unat ((tag_size m tag - 16) div entry_size)]))"

text \<open>
  \<open>pmm::init\<close> from the boot information.  Without a memory map the head of the list stays null:
  \<open>init\<close> writes through it, and then stops the kernel.
\<close>

definition pmm_boot :: "mem \<Rightarrow> u32 \<Rightarrow> bool \<Rightarrow> u64 \<Rightarrow> 'a pmm_scheme \<Rightarrow> 'a pmm_scheme option" where
  "pmm_boot m info pae kernel_base s =
     do {
       tag \<leftarrow> get_mmap m info;
       if tag = 0 then None
       else do { entries \<leftarrow> mmap_entries m tag; pmm_init pae kernel_base entries s } }"

definition fb_tag_at :: "mem \<Rightarrow> u32 \<Rightarrow> fb_tag" where
  "fb_tag_at m tag = \<lparr>framebuffer_addr = read64 m (tag + 8), framebuffer_pitch = read32 m (tag + 16),
     framebuffer_width = read32 m (tag + 20), framebuffer_height = read32 m (tag + 24),
     framebuffer_bpp = m (tag + 28), framebuffer_type = m (tag + 29)\<rparr>"

text \<open>The start of \<open>kernel_main\<close>: the magic number, and the screen.\<close>

definition boot_screen :: "u32 \<Rightarrow> mem \<Rightarrow> u32 \<Rightarrow> vga \<Rightarrow> vga option" where
  "boot_screen magic m info s =
     (if magic \<noteq> MULTIBOOT2_BOOTLOADER_MAGIC then None
      else do { tag \<leftarrow> get_framebuffer m info; init_framebuffer (if tag = 0 then None else Some (fb_tag_at m tag)) s })"

definition MULTIBOOT_MEMORY_RESERVED :: u32 where "MULTIBOOT_MEMORY_RESERVED = 2"
definition MULTIBOOT_MEMORY_ACPI_RECLAIMABLE :: u32 where "MULTIBOOT_MEMORY_ACPI_RECLAIMABLE = 3"
definition MULTIBOOT_MEMORY_NVS :: u32 where "MULTIBOOT_MEMORY_NVS = 4"
definition MULTIBOOT_MEMORY_BADRAM :: u32 where "MULTIBOOT_MEMORY_BADRAM = 5"

definition region_type :: "u32 \<Rightarrow> string" where
  "region_type t =
     (if t = MULTIBOOT_MEMORY_AVAILABLE then ''Available''
      else if t = MULTIBOOT_MEMORY_RESERVED then ''Reserved''
      else if t = MULTIBOOT_MEMORY_ACPI_RECLAIMABLE then ''ACPI Reclaimable''
      else if t = MULTIBOOT_MEMORY_NVS then ''ACPI NVS''
      else if t = MULTIBOOT_MEMORY_BADRAM then ''Bad RAM''
      else ''Unknown'')"

section \<open>The layout of the boot information\<close>

text \<open>What the boot loader writes for a list of tags with their types and contents.\<close>

definition le32 :: "u32 \<Rightarrow> u8 list" where
  "le32 v = [ucast v, ucast (drop_bit 8 v), ucast (drop_bit 16 v), ucast (drop_bit 24 v)]"

definition le64 :: "u64 \<Rightarrow> u8 list" where
  "le64 v = le32 (ucast v) @ le32 (ucast (drop_bit 32 v))"

definition padded :: "u8 list \<Rightarrow> u8 list" where
  "padded bs = bs @ replicate ((8 - length bs mod 8) mod 8) 0"

definition tag_bytes :: "u32 \<times> u8 list \<Rightarrow> u8 list" where
  "tag_bytes t = padded (le32 (fst t) @ le32 (of_nat (8 + length (snd t))) @ snd t)"

definition info_bytes :: "(u32 \<times> u8 list) list \<Rightarrow> u8 list" where
  "info_bytes ts =
     (let body = concat (map tag_bytes ts) @ tag_bytes (MULTIBOOT_TAG_TYPE_END, [])
      in le32 (of_nat (8 + length body)) @ le32 0 @ body)"

definition holds :: "mem \<Rightarrow> u32 \<Rightarrow> u8 list \<Rightarrow> bool" where
  "holds m a bs \<longleftrightarrow> (\<forall>i < length bs. m (a + of_nat i) = bs ! i)"

lemma length_le [simp]: "length (le32 v) = 4" "length (le64 w) = 8"
  by (simp_all add: le32_def le64_def)

lemma holds_append: "holds m a (xs @ ys) \<longleftrightarrow> holds m a xs \<and> holds m (a + of_nat (length xs)) ys"
proof -
  have "(\<forall>i < length xs + length ys. m (a + of_nat i) = (xs @ ys) ! i) \<longleftrightarrow>
      (\<forall>i < length xs. m (a + of_nat i) = xs ! i) \<and> (\<forall>i < length ys. m (a + of_nat (length xs + i)) = ys ! i)"
    (is "?l \<longleftrightarrow> ?r")
  proof
    assume l: ?l
    have "m (a + of_nat (length xs + i)) = ys ! i" if "i < length ys" for i
      using l [rule_format, of "length xs + i"] that by (simp add: nth_append)
    then show ?r using l by (auto simp: nth_append)
  next
    assume r: ?r
    have "m (a + of_nat i) = (xs @ ys) ! i" if "i < length xs + length ys" for i
      using r that spec [OF conjunct2 [OF r], of "i - length xs"] by (cases "i < length xs") (auto simp: nth_append)
    then show ?l by blast
  qed
  then show ?thesis by (simp add: holds_def add.assoc)
qed

lemma read32_holds: "holds m a (le32 v) \<Longrightarrow> read32 m a = v"
proof -
  assume h: "holds m a (le32 v)"
  have "m a = ucast v" "m (a + 1) = ucast (drop_bit 8 v)" "m (a + 2) = ucast (drop_bit 16 v)" "m (a + 3) = ucast (drop_bit 24 v)"
    using h [unfolded holds_def, rule_format, of 0] h [unfolded holds_def, rule_format, of 1]
      h [unfolded holds_def, rule_format, of 2] h [unfolded holds_def, rule_format, of 3]
    by (simp_all add: le32_def numeral_2_eq_2 numeral_3_eq_3)
  then show ?thesis using bytes_of_word [of v] by (simp add: read32_def)
qed

lemma halves_of_word64: "ucast (ucast (v :: u64) :: u32) OR push_bit 32 (ucast (ucast (drop_bit 32 v) :: u32)) = v"
proof (rule bit_eqI)
  fix n
  assume "possible_bit TYPE(64 word) n"
  then have n: "n < 64" by simp
  have r: "32 \<le> n \<Longrightarrow> (n - 32) + 32 = n" by simp
  show "bit (ucast (ucast (v :: u64) :: u32) OR push_bit 32 (ucast (ucast (drop_bit 32 v) :: u32)) :: u64) n = bit v n"
    using n r by (cases "n < 32") (auto simp: bit_simps)
qed

lemma read64_holds:
  assumes "holds m a (le64 v)"
  shows "read64 m a = v"
proof -
  have "holds m a (le32 (ucast v))" "holds m (a + 4) (le32 (ucast (drop_bit 32 v)))"
    using assms by (simp_all add: le64_def holds_append)
  then have "read32 m a = ucast v" "read32 m (a + 4) = ucast (drop_bit 32 v)" by (simp_all add: read32_holds)
  then show ?thesis using halves_of_word64 [of v] by (simp add: read64_def)
qed

section \<open>The search\<close>

lemma length_tag_bytes: "length (tag_bytes t) = (length (snd t) + 15) div 8 * 8"
proof -
  have "n + (8 - n mod 8) mod 8 = (n + 7) div 8 * 8" for n :: nat
  proof (cases "n mod 8 = 0")
    case False
    define q r where "q = n div 8" and "r = n mod 8"
    have n: "n = 8 * q + r" "0 < r" "r < 8" using False by (simp_all add: q_def r_def)
    have "(n + 7) div 8 = q + 1" using n by simp
    then show ?thesis using n by (simp add: r_def [symmetric])
  qed auto
  from this [of "8 + length (snd t)"] show ?thesis by (simp add: tag_bytes_def padded_def ac_simps)
qed

lemma tag_fields:
  assumes "holds m a (tag_bytes (ty, p))" and "length p + 15 < 2 ^ 32"
  shows "tag_type m a = ty" and "tag_size m a = of_nat (8 + length p)" and "holds m (a + 8) p"
    and "a + ((tag_size m a + 7) AND NOT 7) = a + of_nat (length (tag_bytes (ty, p)))"
proof -
  have h: "holds m a (le32 ty)" "holds m (a + 4) (le32 (of_nat (8 + length p)))" "holds m (a + 8) p"
    using assms(1) by (simp_all add: tag_bytes_def padded_def holds_append add.assoc)
  show t: "tag_type m a = ty" and sz: "tag_size m a = of_nat (8 + length p)" and "holds m (a + 8) p"
    using h by (simp_all add: tag_type_def tag_size_def read32_holds)
  have "unat ((of_nat (length p + 15) :: u32) AND NOT (2 ^ 3 - 1)) = (length p + 15) div 2 ^ 3 * 2 ^ 3"
    using assms(2) by (simp only: unat_and_not_low unat_of_nat_u32)
  then have "unat ((of_nat (length p + 15) :: u32) AND NOT 7) = length (tag_bytes (ty, p))"
    by (simp add: length_tag_bytes)
  then have "(of_nat (length p + 15) :: u32) AND NOT 7 = of_nat (length (tag_bytes (ty, p)))"
    by (metis of_nat_unat ucast_id)
  moreover have e: "tag_size m a + 7 = of_nat (length p + 15)" by (simp add: sz)
  ultimately show "a + ((tag_size m a + 7) AND NOT 7) = a + of_nat (length (tag_bytes (ty, p)))" by (simp only: e)
qed

lemma find_tag_loop_finds:
  assumes "holds m tag (concat (map tag_bytes ts) @ tag_bytes (MULTIBOOT_TAG_TYPE_END, []))"
    and "unat tag + length (concat (map tag_bytes ts)) + 8 = unat (info + info_total_size m info)"
    and "\<forall>t \<in> set ts. fst t \<noteq> MULTIBOOT_TAG_TYPE_END" and "tag \<noteq> 0"
  shows "case map_of ts ty of None \<Rightarrow> find_tag_loop m info ty tag = Some 0
    | Some p \<Rightarrow> \<exists>a. a \<noteq> 0 \<and> find_tag_loop m info ty tag = Some a \<and> holds m a (tag_bytes (ty, p)) \<and> length p + 15 < 2 ^ 32"
  using assms
proof (induction ts arbitrary: tag)
  case Nil
  then have "tag_type m tag = MULTIBOOT_TAG_TYPE_END"
    using tag_fields(1) [of m tag MULTIBOOT_TAG_TYPE_END "[]"] by simp
  then show ?case by (simp add: find_tag_loop.simps)
next
  case (Cons t ts)
  obtain k p where t: "t = (k, p)" by (cases t)
  let ?n = "length (tag_bytes (k, p))"
  have h: "holds m tag (tag_bytes (k, p))"
    "holds m (tag + of_nat ?n) (concat (map tag_bytes ts) @ tag_bytes (MULTIBOOT_TAG_TYPE_END, []))"
    using Cons.prems(1) by (simp_all add: t holds_append)
  have e: "unat tag + ?n + length (concat (map tag_bytes ts)) + 8 < 2 ^ 32"
    using Cons.prems(2) unat_less_lit [of "info + info_total_size m info"] by (simp add: t)
  have p: "length p + 15 < 2 ^ 32" using e by (simp add: length_tag_bytes)
  note f = tag_fields [OF h(1) p]
  have u: "unat (tag + of_nat ?n) = unat tag + ?n" using e by (subst unat_add_no_wrap) (simp_all add: unat_of_nat_u32)
  show ?case
  proof (cases "k = ty")
    case True
    then show ?thesis using Cons.prems(3,4) f(1) h(1) p by (simp add: t find_tag_loop.simps)
  next
    case False
    have "unat tag + ?n + length (concat (map tag_bytes ts)) + 8 = unat (info + info_total_size m info)"
      using Cons.prems(2) by (simp add: t)
    then have "\<not> info + info_total_size m info \<le> tag + of_nat ?n" using u by (simp add: word_le_nat_alt)
    then have step: "find_tag_loop m info ty tag = find_tag_loop m info ty (tag + of_nat ?n)"
      using f Cons.prems(3) False by (simp add: t find_tag_loop.simps [of m info ty tag])
    have "tag + of_nat ?n \<noteq> 0" using u Cons.prems(4) by (metis add_is_0 unat_0 unat_eq_zero)
    then show ?thesis
      using Cons.IH [OF h(2)] Cons.prems(2,3) u False unfolding step by (simp add: t)
  qed
qed

lemma info_total:
  assumes "holds m info (info_bytes ts)"
  shows "info_total_size m info = of_nat (length (info_bytes ts))"
    and "holds m (info + 8) (concat (map tag_bytes ts) @ tag_bytes (MULTIBOOT_TAG_TYPE_END, []))"
    and "length (info_bytes ts) = 16 + length (concat (map tag_bytes ts))"
proof -
  let ?b = "concat (map tag_bytes ts) @ tag_bytes (MULTIBOOT_TAG_TYPE_END, [])"
  have h: "holds m info (le32 (of_nat (8 + length ?b)))" "holds m (info + 8) ?b"
    using assms unfolding info_bytes_def Let_def holds_append length_le by (simp_all add: add.assoc)
  show "holds m (info + 8) ?b" by (rule h(2))
  show l: "length (info_bytes ts) = 16 + length (concat (map tag_bytes ts))"
    by (simp add: info_bytes_def Let_def length_tag_bytes)
  show "info_total_size m info = of_nat (length (info_bytes ts))"
    using read32_holds [OF h(1)] by (simp add: info_total_size_def info_bytes_def Let_def)
qed

lemma find_tag_finds:
  assumes "holds m info (info_bytes ts)" and "unat info + length (info_bytes ts) < 2 ^ 32"
    and "\<forall>t \<in> set ts. fst t \<noteq> MULTIBOOT_TAG_TYPE_END"
  shows "case map_of ts ty of None \<Rightarrow> find_tag m info ty = Some 0
    | Some p \<Rightarrow> \<exists>a. a \<noteq> 0 \<and> find_tag m info ty = Some a \<and> holds m a (tag_bytes (ty, p)) \<and> length p + 15 < 2 ^ 32"
proof -
  note i = info_total [OF assms(1)]
  have u: "unat (info + info_total_size m info) = unat info + length (info_bytes ts)"
    unfolding i(1) using assms(2) by (subst unat_add_no_wrap) (simp_all add: unat_of_nat_u32)
  have v: "unat (info + 8) = unat info + 8" using assms(2) i(3) by (subst unat_add_no_wrap) simp_all
  then have "info + 8 \<noteq> 0" by (metis add_is_0 unat_0 zero_neq_numeral)
  then show ?thesis
    unfolding find_tag_def using i(3) u v by (intro find_tag_loop_finds [OF i(2) _ assms(3)]) simp_all
qed

text \<open>
  The search for a tag.  When the boot information is laid out as a list of tags that ends with
  the end tag and does not reach the end of the address space, the search returns: the first tag of
  the type, with its size and its content, or null when there is none.
\<close>

lemma find_tag_first:
  assumes "holds m info (info_bytes ts)" and "unat info + length (info_bytes ts) < 2 ^ 32"
    and "\<forall>t \<in> set ts. fst t \<noteq> MULTIBOOT_TAG_TYPE_END"
  shows "case map_of ts ty of None \<Rightarrow> find_tag m info ty = Some 0
    | Some p \<Rightarrow> \<exists>a. a \<noteq> 0 \<and> find_tag m info ty = Some a \<and> tag_type m a = ty
        \<and> tag_size m a = of_nat (8 + length p) \<and> holds m (a + 8) p"
proof (cases "map_of ts ty")
  case (Some p)
  then obtain a where a: "a \<noteq> 0" "find_tag m info ty = Some a" "holds m a (tag_bytes (ty, p))" "length p + 15 < 2 ^ 32"
    using find_tag_finds [OF assms, of ty] by auto
  then show ?thesis using tag_fields [OF a(3,4)] Some by auto
qed (use find_tag_finds [OF assms, of ty] in simp)

text \<open>A tag of size 0 before the one that is looked for: the search stays at it.\<close>

lemma find_tag_endless:
  assumes "tag_type m tag \<noteq> MULTIBOOT_TAG_TYPE_END" and "tag_type m tag \<noteq> ty" and "tag_size m tag = 0"
    and "tag < info + info_total_size m info"
  shows "find_tag_loop m info ty tag = None"
proof (rule ccontr)
  have never: "m' = m \<and> i = info \<and> k = ty \<longrightarrow> t \<noteq> tag" if "find_tag_loop m' i k t = Some r" for m' i k t r
    using that
  proof (rule find_tag_loop.raw_induct [where P = "\<lambda>m' i k t r. m' = m \<and> i = info \<and> k = ty \<longrightarrow> t \<noteq> tag", rotated 1])
    fix self m' i k t r
    assume IH: "\<And>m' i k t r. self m' i k t = Some r \<Longrightarrow> m' = m \<and> i = info \<and> k = ty \<longrightarrow> t \<noteq> tag"
      and run: "(if tag_type m' t = MULTIBOOT_TAG_TYPE_END then Some 0 else if tag_type m' t = k then Some t
        else let tag' = t + ((tag_size m' t + 7) AND NOT 7)
             in if i + info_total_size m' i \<le> tag' then Some 0 else self m' i k tag') = Some r"
    show "m' = m \<and> i = info \<and> k = ty \<longrightarrow> t \<noteq> tag"
    proof (intro impI notI)
      assume e: "m' = m \<and> i = info \<and> k = ty" and "t = tag"
      moreover have "\<not> info + info_total_size m info \<le> tag" using assms(4) by simp
      ultimately have "self m info ty tag = Some r" using run assms(1-3) by (auto simp: Let_def)
      then show False using IH by blast
    qed
  qed
  assume "find_tag_loop m info ty tag \<noteq> None"
  then show False using never by blast
qed

section \<open>The memory map\<close>

definition mmap_entry_bytes :: "mmap_entry \<Rightarrow> u8 list" where
  "mmap_entry_bytes e = le64 (e_addr e) @ le64 (e_len e) @ le32 (e_type e) @ le32 0"

definition mmap_payload :: "mmap_entry list \<Rightarrow> u8 list" where
  "mmap_payload es = le32 24 @ le32 0 @ concat (map mmap_entry_bytes es)"

lemma length_mmap_entry_bytes [simp]: "length (mmap_entry_bytes e) = 24"
  by (simp add: mmap_entry_bytes_def)

lemma length_mmap_entries [simp]: "length (concat (map mmap_entry_bytes es)) = 24 * length es"
  by (induction es) simp_all

lemma mmap_entry_read:
  assumes "holds m a (mmap_entry_bytes e)"
  shows "mmap_entry_at m a = e"
proof -
  have h: "holds m a (le64 (e_addr e))" "holds m (a + 8) (le64 (e_len e))" "holds m (a + 16) (le32 (e_type e))"
    using assms unfolding mmap_entry_bytes_def holds_append length_le by (simp_all add: add.commute)
  show ?thesis using read64_holds [OF h(1)] read64_holds [OF h(2)] read32_holds [OF h(3)] by (simp add: mmap_entry_at_def)
qed

lemma mmap_entries_read:
  "holds m a (concat (map mmap_entry_bytes es)) \<Longrightarrow> map (\<lambda>i. mmap_entry_at m (a + 24 * of_nat i)) [0..<length es] = es"
proof (induction es arbitrary: a)
  case (Cons e es)
  have h: "holds m a (mmap_entry_bytes e)" "holds m (a + 24) (concat (map mmap_entry_bytes es))"
    using Cons.prems by (simp_all add: holds_append)
  have "[0..<length (e # es)] = 0 # map Suc [0..<length es]" by (simp add: upt_conv_Cons map_Suc_upt del: upt_Suc)
  then show ?case
    using Cons.IH [OF h(2)] mmap_entry_read [OF h(1)] by (simp add: comp_def add.assoc distrib_left del: upt_Suc)
qed simp

text \<open>
  The memory map the frame allocator starts from is the one the boot loader wrote.  For boot
  information whose first memory map tag has entries of 24 bytes, the entries are read back one by
  one, in order, and \<open>pmm::init\<close> runs on exactly them.
\<close>

lemma memory_map_is_read:
  assumes "holds m info (info_bytes ts)" and "unat info + length (info_bytes ts) < 2 ^ 32"
    and "\<forall>t \<in> set ts. fst t \<noteq> MULTIBOOT_TAG_TYPE_END" and "map_of ts MULTIBOOT_TAG_TYPE_MMAP = Some (mmap_payload es)"
  shows "\<exists>a. a \<noteq> 0 \<and> get_mmap m info = Some a \<and> mmap_entries m a = Some es
    \<and> pmm_boot m info pae kernel_base s = pmm_init pae kernel_base es s"
proof -
  obtain a where a: "a \<noteq> 0" "find_tag m info MULTIBOOT_TAG_TYPE_MMAP = Some a"
    "holds m a (tag_bytes (MULTIBOOT_TAG_TYPE_MMAP, mmap_payload es))" "length (mmap_payload es) + 15 < 2 ^ 32"
    using find_tag_finds [OF assms(1-3), of MULTIBOOT_TAG_TYPE_MMAP] assms(4) by auto
  note f = tag_fields [OF a(3,4)]
  have h: "holds m (a + 8) (le32 24)" "holds m (a + 16) (concat (map mmap_entry_bytes es))"
    using f(3) by (simp_all add: mmap_payload_def holds_append add.assoc)
  have n: "tag_size m a - 16 = of_nat (24 * length es)" "24 * length es < 2 ^ 32"
    using f(2) a(4) by (simp_all add: mmap_payload_def)
  have "unat ((tag_size m a - 16) div 24) = length es"
    unfolding n(1) using n(2) by (simp add: unat_div unat_of_nat_u32 del: of_nat_mult)
  then have "mmap_entries m a = Some es"
    using read32_holds [OF h(1)] mmap_entries_read [OF h(2)] by (simp add: mmap_entries_def)
  then show ?thesis using a(1,2) by (simp add: get_mmap_def pmm_boot_def)
qed

section \<open>Examples\<close>

definition mem_with :: "u32 \<Rightarrow> u8 list \<Rightarrow> mem" where
  "mem_with a bs = (\<lambda>x. if unat (x - a) < length bs then bs ! unat (x - a) else 0)"

lemma holds_mem_with: "length bs < 2 ^ 32 \<Longrightarrow> holds (mem_with a bs) a bs"
  by (auto simp: holds_def mem_with_def unat_of_nat_u32)

definition demo_entries :: "mmap_entry list" where
  "demo_entries = [\<lparr>e_addr = 0, e_len = 0x9FC00, e_type = 1\<rparr>, \<lparr>e_addr = 0x100000, e_len = 0x7EE0000, e_type = 1\<rparr>]"

definition demo_tags :: "(u32 \<times> u8 list) list" where
  "demo_tags = [(MULTIBOOT_TAG_TYPE_CMDLINE, [0x61, 0]), (MULTIBOOT_TAG_TYPE_MMAP, mmap_payload demo_entries)]"

lemma demo_info:
  "holds (mem_with 0x10000 (info_bytes demo_tags)) 0x10000 (info_bytes demo_tags)"
  "unat (0x10000 :: u32) + length (info_bytes demo_tags) < 2 ^ 32"
  "\<forall>t \<in> set demo_tags. fst t \<noteq> MULTIBOOT_TAG_TYPE_END"
proof -
  have l: "length (info_bytes demo_tags) = 96"
    by (simp add: info_bytes_def Let_def length_tag_bytes demo_tags_def mmap_payload_def demo_entries_def)
  then show "holds (mem_with 0x10000 (info_bytes demo_tags)) 0x10000 (info_bytes demo_tags)" by (intro holds_mem_with) simp
  show "unat (0x10000 :: u32) + length (info_bytes demo_tags) < 2 ^ 32" using l by simp
  show "\<forall>t \<in> set demo_tags. fst t \<noteq> MULTIBOOT_TAG_TYPE_END"
    by (simp add: demo_tags_def MULTIBOOT_TAG_TYPE_END_def MULTIBOOT_TAG_TYPE_CMDLINE_def MULTIBOOT_TAG_TYPE_MMAP_def)
qed

lemma find_tag_first_witness:
  "find_tag (mem_with 0x10000 (info_bytes demo_tags)) 0x10000 MULTIBOOT_TAG_TYPE_FRAMEBUFFER = Some 0
    \<and> (\<exists>a. find_tag (mem_with 0x10000 (info_bytes demo_tags)) 0x10000 MULTIBOOT_TAG_TYPE_CMDLINE = Some a
        \<and> holds (mem_with 0x10000 (info_bytes demo_tags)) (a + 8) [0x61, 0])"
proof -
  have "map_of demo_tags MULTIBOOT_TAG_TYPE_FRAMEBUFFER = None" "map_of demo_tags MULTIBOOT_TAG_TYPE_CMDLINE = Some [0x61, 0]"
    by (simp_all add: demo_tags_def MULTIBOOT_TAG_TYPE_FRAMEBUFFER_def MULTIBOOT_TAG_TYPE_CMDLINE_def MULTIBOOT_TAG_TYPE_MMAP_def)
  then show ?thesis
    using find_tag_first [OF demo_info, of MULTIBOOT_TAG_TYPE_FRAMEBUFFER] find_tag_first [OF demo_info, of MULTIBOOT_TAG_TYPE_CMDLINE]
    by auto
qed

lemma memory_map_is_read_witness:
  "\<exists>a. get_mmap (mem_with 0x10000 (info_bytes demo_tags)) 0x10000 = Some a
    \<and> mmap_entries (mem_with 0x10000 (info_bytes demo_tags)) a = Some demo_entries"
proof -
  have "map_of demo_tags MULTIBOOT_TAG_TYPE_MMAP = Some (mmap_payload demo_entries)"
    by (simp add: demo_tags_def MULTIBOOT_TAG_TYPE_CMDLINE_def MULTIBOOT_TAG_TYPE_MMAP_def)
  then show ?thesis using memory_map_is_read [OF demo_info] by blast
qed

end
