(* ===== verification/Commands.thy ===== *)
theory Commands
  imports Terminal Heap Vmm Pci Process Multiboot
begin

text \<open>
  The commands that report on the system: memory (\<open>src/kernel/apps/mem_cli.cpp\<close>) and hardware and
  software (\<open>sys_cli.cpp\<close>), the strings of the processor (\<open>arch/x86/cpuid.cpp\<close>), amounts of bytes
  (\<open>get_units\<close> of \<open>lib/mem_util.cpp\<close>), and the report of the memory map (\<open>mm/pmm.cpp\<close>).
\<close>

section \<open>Amounts of bytes\<close>

definition BYTES_IN_GIB :: u64 where "BYTES_IN_GIB = 1073741824"
definition BYTES_IN_MIB :: u64 where "BYTES_IN_MIB = 1048576"
definition BYTES_IN_KIB :: u64 where "BYTES_IN_KIB = 1024"

definition get_units :: "u64 \<Rightarrow> dstring option" where
  "get_units bytes =
     (if bytes = 0 then Some (string_of_cstr ''0 B'')
      else if bytes < BYTES_IN_KIB then
        do { n \<leftarrow> num_to_string_u bytes; Some (string_append (string_of_cstr n) (Some '' B'')) }
      else do {
        let (suffix, divisor) =
          (if BYTES_IN_GIB \<le> bytes then (''GiB'', BYTES_IN_GIB)
           else if BYTES_IN_MIB \<le> bytes then (''MiB'', BYTES_IN_MIB) else (''KiB'', BYTES_IN_KIB));
        let whole = udiv64 bytes divisor;
        let remainder = umod64 bytes divisor;
        let fraction = udiv64 (remainder * 10) divisor;
        w \<leftarrow> num_to_string_u whole;
        f \<leftarrow> num_to_string_u fraction;
        let r1 = string_append string_new (Some w);
        let r2 = string_append r1 (Some ''.'');
        let r3 = string_append r2 (Some f);
        let r4 = string_append r3 (Some '' '');
        Some (string_append r4 (Some suffix)) })"

section \<open>The processor\<close>

record CPUIDResult =
  cr_eax :: u32
  cr_ebx :: u32
  cr_edx :: u32
  cr_ecx :: u32

definition CPUID_VENDOR_STRING :: u32 where "CPUID_VENDOR_STRING = 0"
definition CPUID_BRAND_STRING_1 :: u32 where "CPUID_BRAND_STRING_1 = 0x80000002"
definition CPUID_BRAND_STRING_2 :: u32 where "CPUID_BRAND_STRING_2 = 0x80000003"
definition CPUID_BRAND_STRING_3 :: u32 where "CPUID_BRAND_STRING_3 = 0x80000004"

text \<open>\<open>cpuid\<close> is the instruction: from the number of a function to the registers.\<close>

definition reg_chars :: "u32 \<Rightarrow> string" where
  "reg_chars v = map (\<lambda>b. char_of (unat (b :: u8))) [ucast v, ucast (drop_bit 8 v), ucast (drop_bit 16 v), ucast (drop_bit 24 v)]"

definition get_vendor :: "(u32 \<Rightarrow> CPUIDResult) \<Rightarrow> string" where
  "get_vendor cpuid =
     (let r = cpuid CPUID_VENDOR_STRING in reg_chars (cr_ebx r) @ reg_chars (cr_edx r) @ reg_chars (cr_ecx r) @ [NUL])"

definition brand_part :: "CPUIDResult \<Rightarrow> string" where
  "brand_part r = reg_chars (cr_eax r) @ reg_chars (cr_ebx r) @ reg_chars (cr_ecx r) @ reg_chars (cr_edx r)"

definition get_processor_model :: "(u32 \<Rightarrow> CPUIDResult) \<Rightarrow> string" where
  "get_processor_model cpuid =
     brand_part (cpuid CPUID_BRAND_STRING_1) @ brand_part (cpuid CPUID_BRAND_STRING_2)
       @ brand_part (cpuid CPUID_BRAND_STRING_3) @ [NUL]"

definition get_processor_info :: "(u32 \<Rightarrow> CPUIDResult) \<Rightarrow> string \<times> string" where
  "get_processor_info cpuid = (get_vendor cpuid, get_processor_model cpuid)"

section \<open>A series of prints\<close>

fun prints :: "(u8 \<Rightarrow> u8) \<Rightarrow> (u32 \<times> string \<times> va_arg list) list \<Rightarrow> 'a terminal_scheme \<Rightarrow> 'a terminal_scheme option" where
  "prints cmos [] t = Some t"
| "prints cmos ((color, fmt, args) # ps) t = do { t1 \<leftarrow> say_color cmos color fmt args t; prints cmos ps t1 }"

text \<open>A line of text in the default colour.\<close>

definition ln :: "string \<Rightarrow> u32 \<times> string \<times> va_arg list" where
  "ln s = (default_rgb_color, s @ [newline_char], [])"

section \<open>Memory\<close>

definition print_memory_map :: "(u8 \<Rightarrow> u8) \<Rightarrow> mem \<Rightarrow> u32 \<Rightarrow> 'a terminal_scheme \<Rightarrow> 'a terminal_scheme option" where
  "print_memory_map cmos m info t =
     (if info = 0 then say_type cmos LOG_ERROR (''Memory map not defined'' @ [newline_char]) [] t
      else do {
        tag \<leftarrow> get_mmap m info;
        if tag = 0 then say_type cmos LOG_ERROR (''Memory map tag not found'' @ [newline_char]) [] t
        else do {
          entries \<leftarrow> mmap_entries m tag;
          prints cmos (map (\<lambda>e. (default_rgb_color, ''Memory region: %llx - %llx, Type: %s'' @ [newline_char],
            [Arg64 (e_addr e), Arg64 (e_addr e + e_len e - 1), ArgStr (Some (region_type (e_type e)))])) entries) t } })"

definition BAR_WIDTH :: nat where "BAR_WIDTH = 40"

definition draw_memory_bar :: "(u8 \<Rightarrow> u8) \<Rightarrow> u64 \<Rightarrow> u64 \<Rightarrow> 'a terminal_scheme \<Rightarrow> 'a terminal_scheme option" where
  "draw_memory_bar cmos in_use total_ram t =
     (let percentage = (if 0 < total_ram then udiv64 (in_use * 100) total_ram else 0);
          filled_chars = (ucast (udiv64 (in_use * of_nat BAR_WIDTH) total_ram) :: u32)
      in prints cmos
           ([(default_rgb_color, ''['', [])]
            @ map (\<lambda>i. (default_rgb_color, if int i < sint filled_chars then ''#'' else ''-'', [])) [0..<BAR_WIDTH]
            @ [(default_rgb_color, ''] %llu%%'' @ [newline_char], [Arg64 percentage])]) t)"

partial_function (option) heap_in_use :: "mem \<Rightarrow> u32 \<Rightarrow> u64 \<Rightarrow> u64 option" where
  "heap_in_use m current bytes =
     (if current = 0 then Some bytes
      else heap_in_use m (hb_next m current) (if \<not> hb_free m current then bytes + ucast (hb_size m current) else bytes))"

text \<open>A label in grey and an amount behind it.\<close>

definition amount :: "string \<Rightarrow> u64 \<Rightarrow> string \<Rightarrow> u32 \<times> string \<times> va_arg list" where
  "amount label v rest =
     (RGB_COLOR_LIGHT_GRAY, label @ ''%C%S'' @ rest @ [newline_char], [Arg32 default_rgb_color, ArgString (get_units v)])"

definition place :: "string \<Rightarrow> u32 \<Rightarrow> u32 \<times> string \<times> va_arg list" where
  "place label v = (RGB_COLOR_LIGHT_GRAY, label @ ''%C%x'' @ [newline_char], [Arg32 default_rgb_color, Arg32 v])"

definition heapdump :: "(u8 \<Rightarrow> u8) \<Rightarrow> heap \<Rightarrow> 'a terminal_scheme \<Rightarrow> 'a terminal_scheme option" where
  "heapdump cmos h t =
     do {
       params \<leftarrow> get_params Tokenize t;
       if length params \<noteq> 0 then say cmos (''heap_dump: Syntax: heapdump'' @ [newline_char]) [] t
       else do {
         bytes_in_use \<leftarrow> heap_in_use (hmem h) (heap_head h) 0;
         t1 \<leftarrow> prints cmos
           [ln (newline_char # ''--- Heap Memory Usage ---''), amount ''Heap size: '' (ucast HEAP_SIZE) [],
            amount ''Heap status: '' bytes_in_use '' used''] t;
         draw_memory_bar cmos bytes_in_use (ucast HEAP_SIZE) t1 } }"

text \<open>The addresses of the kernel come from the linker script.\<close>

record kernel_image =
  kernel_phys_base :: u32
  kernel_end :: u32
  kernel_size :: u32

definition get_kernel_addr :: "kernel_image \<Rightarrow> u32" where "get_kernel_addr k = kernel_phys_base k"
definition get_kernel_end :: "kernel_image \<Rightarrow> u32" where "get_kernel_end k = kernel_end k"
definition get_kernel_size :: "kernel_image \<Rightarrow> u32" where "get_kernel_size k = kernel_size k"

definition on_off :: "bool \<Rightarrow> va_arg" where
  "on_off b = ArgStr (Some (if b then ''Enabled'' else ''Disabled''))"

definition print_meminfo ::
  "(u8 \<Rightarrow> u8) \<Rightarrow> kernel_image \<Rightarrow> bool \<Rightarrow> mm \<Rightarrow> bool \<Rightarrow> 'a terminal_scheme \<Rightarrow> 'a terminal_scheme option" where
  "print_meminfo cmos img pae s verbose t =
     do {
       let free_ram = total_usable_ram s - total_used_ram s;
       t1 \<leftarrow> prints cmos
         [ln (newline_char # ''--- Physical Memory Usage ---''), amount ''Total Installed: '' (total_installed_ram s) [],
          amount ''Usable RAM: '' (total_usable_ram s) [], amount ''Used RAM: '' (total_used_ram s) [],
          amount ''Free RAM: '' free_ram []] t;
       t2 \<leftarrow> draw_memory_bar cmos (total_used_ram s) (total_usable_ram s) t1;
       t3 \<leftarrow>
         (if verbose then
            prints cmos
              [ln (newline_char # ''--- Advanced Details ---''), amount ''Hardware Reserved: '' (hardware_reserved_ram s) [],
               place ''Kernel physical start address: '' (get_kernel_addr img),
               place ''Kernel physical end address: '' (get_kernel_end img),
               amount ''Kernel size: '' (ucast (get_kernel_size img)) [], ln [],
               place (''Kerne'' @ [CHR 0x27] @ ''s active Page Directory: '') (active_pd s),
               (RGB_COLOR_LIGHT_GRAY, ''Paging status: %C%s; PAE status: %C%s'' @ [newline_char],
                 [Arg32 default_rgb_color, on_off (enabled_paging s), Arg32 default_rgb_color, on_off pae]),
               ln [], amount ''Kernel heap size: '' (ucast HEAP_SIZE) [], place ''Kernel heap start address: '' HEAP_START] t2
          else Some t2);
       prints cmos [ln []] t3 }"

definition param_is :: "dstring \<Rightarrow> string \<Rightarrow> string \<Rightarrow> bool option" where
  "param_is p short long =
     do { a \<leftarrow> string_equals p (Some short); if a then Some True else string_equals p (Some long) }"

definition meminfo ::
  "(u8 \<Rightarrow> u8) \<Rightarrow> kernel_image \<Rightarrow> mem \<Rightarrow> u32 \<Rightarrow> bool \<Rightarrow> mm \<Rightarrow> 'a terminal_scheme \<Rightarrow> 'a terminal_scheme option" where
  "meminfo cmos img m info pae s t =
     do {
       params \<leftarrow> get_params Tokenize t;
       help \<leftarrow> (if 0 < length params then param_is (params ! 0) ''-h'' ''--help'' else Some False);
       if help then
         prints cmos
           [ln ''Usage: meminfo <flag>'', ln ''Flags:'',
            ln ''  -v, --verbose    Display detailed hardware and kernel reservations'',
            ln ''  --mmap           Displays memory map'', ln ''  -h, --help       Show this help message''] t
       else if 1 < length params then
         say cmos (''meminfo: too many arguments. Try '' @ [CHR 0x27] @ ''meminfo --help'' @ [CHR 0x27, newline_char]) [] t
       else if length params = 1 then
         do {
           verbose \<leftarrow> param_is (params ! 0) ''-v'' ''--verbose'';
           if verbose then print_meminfo cmos img pae s True t
           else do {
             mmap \<leftarrow> string_equals (params ! 0) (Some ''--mmap'');
             if mmap then print_memory_map cmos m info t
             else say cmos (''meminfo: invalid flag '' @ [CHR 0x22] @ ''%S'' @ [CHR 0x22] @ ''. Try -h'' @ [newline_char])
               [ArgString (Some (params ! 0))] t } }
       else print_meminfo cmos img pae s False t }"

section \<open>The system\<close>

definition kernel_version :: string where "kernel_version = ''MioOS kernel 1.2 (Alpha)''"

text \<open>Prints into a section, each in its colour; the section is changed by them.\<close>

fun sect_prints :: "(u8 \<Rightarrow> u8) \<Rightarrow> (u32 \<times> string \<times> va_arg list) list \<Rightarrow> vga_section \<Rightarrow> vga \<Rightarrow> (vga_section \<times> vga) option" where
  "sect_prints cmos [] sect v = Some (sect, v)"
| "sect_prints cmos ((color, fmt, args) # ps) sect v =
     do { (_, sect1, v1) \<leftarrow> kprintf_sect_color cmos sect color fmt args v; sect_prints cmos ps sect1 v1 }"

definition logo :: "string list" where
  "logo =
     ['' __       __ '', ''/  '' @ [CHR 0x5C] @ ''     /  |'', ''$$  '' @ [CHR 0x5C] @ ''   /$$ |'',
      ''$$$  '' @ [CHR 0x5C] @ '' /$$$ |'', ''$$$$  /$$$$ |'', ''$$ $$ $$/$$ |'', ''$$ |$$$/ $$ |'', ''$$ | $/  $$ |'',
      ''$$/      $$/ '']"

definition fact :: "string \<Rightarrow> va_arg list \<Rightarrow> u32 \<times> string \<times> va_arg list" where
  "fact fmt args = (RGB_COLOR_LIGHT_GRAY, fmt, Arg32 default_rgb_color # args)"

text \<open>\<open>build\<close> holds the date, the time and the version of the compiler.\<close>

definition sysinfo ::
  "(u8 \<Rightarrow> u8) \<Rightarrow> (string \<times> string) \<Rightarrow> (string \<times> string \<times> string) \<Rightarrow> u64 \<Rightarrow> 'a terminal_scheme \<Rightarrow> 'a terminal_scheme option" where
  "sysinfo cmos cpu_strings build installed t =
     do {
       let v = screen t;
       let section = create_section_at (col_num v + 15, row_num v) (screen_col_num v, row_num v + 9) v;
       t1 \<leftarrow> prints cmos (map (\<lambda>l. (RGB_COLOR_BLUE, l @ [newline_char], [])) logo) t;
       let (vendor, model) = cpu_strings;
       let (date, time, version) = build;
       (_, v2) \<leftarrow> sect_prints cmos
         [ln ''---Hardware---'', fact (''RAM: %C%S'' @ [newline_char]) [ArgString (get_units installed)],
          fact (''CPU Vendor: %C%s'' @ [newline_char]) [ArgStr (Some vendor)],
          fact (''CPU Model: %C%s'' @ [newline_char]) [ArgStr (Some model)],
          fact (''Screen resolution: %C%ux%u'' @ [newline_char]) [Arg32 (screen_width (screen t1)), Arg32 (screen_height (screen t1))],
          ln (newline_char # ''---Software---''), fact (''Kernel Version: %C%s'' @ [newline_char]) [ArgStr (Some kernel_version)],
          fact (''Build: %C%s at %s'' @ [newline_char]) [ArgStr (Some date), ArgStr (Some time)],
          fact ''Compiler: %C%s'' [ArgStr (Some version)]] section (screen t1);
       Some (t1\<lparr>screen := v2\<rparr>) }"

definition print_uptime :: "(u8 \<Rightarrow> u8) \<Rightarrow> u64 \<Rightarrow> 'a terminal_scheme \<Rightarrow> 'a terminal_scheme option" where
  "print_uptime cmos ticks t =
     (case getuptime ticks of (hours, minutes, seconds) \<Rightarrow>
        say cmos (''Hours: %llu:%llu:%llu'' @ [newline_char]) [Arg64 hours, Arg64 minutes, Arg64 seconds] t)"

definition uptime :: "(u8 \<Rightarrow> u8) \<Rightarrow> u64 \<Rightarrow> 'a terminal_scheme \<Rightarrow> 'a terminal_scheme option" where
  "uptime cmos ticks t = print_uptime cmos ticks t"

definition weekdays :: "string list" where
  "weekdays = [''Sunday'', ''Monday'', ''Tuesday'', ''Wednesday'', ''Thursday'', ''Friday'', ''Saturday'']"

text \<open>A day of the week that is not from 1 to 7 reads outside the table.\<close>

definition currtime :: "(u8 \<Rightarrow> u8) \<Rightarrow> 'a terminal_scheme \<Rightarrow> 'a terminal_scheme option" where
  "currtime cmos t =
     (let i = int (unat (get_weekday cmos)) - 1
      in if i < 0 \<or> int (length weekdays) \<le> i then None
         else say cmos (''Date (DD/MM/YY): %u/%u/%u (%s) Time (UTC): %u:%u:%u'' @ [newline_char])
           [Arg32 (ucast (get_day cmos)), Arg32 (ucast (get_month cmos)), Arg32 (ucast (get_year cmos)),
            ArgStr (Some (weekdays ! nat i)), Arg32 (ucast (get_hour cmos)), Arg32 (ucast (get_minute cmos)),
            Arg32 (ucast (get_second cmos))] t)"

fun state_text :: "pstate \<Rightarrow> string" where
  "state_text PROCESS_READY = ''READY''"
| "state_text PROCESS_BLOCKED = ''BLOCKED''"
| "state_text PROCESS_RUNNING = ''RUNNING''"
| "state_text PROCESS_TERMINATED = ''TERMINATED''"

text \<open>A process that is gone from the store, but still in the list, is read after it was freed.\<close>

fun lsprocesses :: "(u8 \<Rightarrow> u8) \<Rightarrow> (u32 \<Rightarrow> process option) \<Rightarrow> u32 list \<Rightarrow> 'a terminal_scheme \<Rightarrow> 'a terminal_scheme option" where
  "lsprocesses cmos store [] t = Some t"
| "lsprocesses cmos store (a # as) t =
     do {
       p \<leftarrow> store a;
       t1 \<leftarrow> say cmos (''PID: %u, Name: %s, Stack: %x, Priority: %u, State: %s'' @ [newline_char])
         [Arg32 (pid p), ArgStr (p_name p), Arg32 (p_stack p), Arg32 (priority p), ArgStr (Some (state_text (pstate p)))] t;
       lsprocesses cmos store as t1 }"

definition log_pci_info :: "(u8 \<Rightarrow> u8) \<Rightarrow> PciDevice \<Rightarrow> 'a terminal_scheme \<Rightarrow> 'a terminal_scheme option" where
  "log_pci_info cmos d t =
     say cmos (''PCI device: Bus %hhu Device %hhu Function %hhu'' @ [newline_char])
       [Arg32 (ucast (pd_bus d)), Arg32 (ucast (pd_device d)), Arg32 (ucast (pd_function d))] t"

fun lspci :: "(u8 \<Rightarrow> u8) \<Rightarrow> PciDevice option list \<Rightarrow> 'a terminal_scheme \<Rightarrow> 'a terminal_scheme option" where
  "lspci cmos [] t = Some t"
| "lspci cmos (e # es) t =
     do {
       d \<leftarrow> e;
       t1 \<leftarrow> log_pci_info cmos d t;
       t2 \<leftarrow> say cmos (''Class %x Subclass %x Prog IF %x'' @ [newline_char])
         [Arg32 (ucast (pd_class_id d)), Arg32 (ucast (pd_subclass_id d)), Arg32 (ucast (pd_prog_if d))] t1;
       t3 \<leftarrow> say cmos [newline_char] [] t2;
       lspci cmos es t3 }"

end
