(* ===== verification/Shell.thy ===== *)
theory Shell
  imports Commands Ext2Ops Ahci Ata Paging
begin

text \<open>
  The commands of the terminal on drives and files, \<open>src/kernel/apps/storage_cli.cpp\<close>, and the table
  of all commands: what the function pointers of the terminal stand for.  The state is the terminal
  with everything the commands read and change.  A parameter that is asked for and not there is read
  in front of the list of parameters, which is \<open>None\<close>; so is the time of a clock that shows no month.
\<close>

section \<open>State\<close>

record system = terminal +
  sy_world :: world
  sy_ata :: ata_state
  sy_ahci :: ahci
  sy_pci :: "PciDevice option list"
  sy_heap :: heap
  sy_mm :: mm
  sy_pae :: bool
  sy_image :: kernel_image
  sy_boot :: "mem \<times> u32"
  sy_sched :: sched
  sy_cpu :: "string \<times> string"
  sy_build :: "string \<times> string \<times> string"
  sy_ticks :: u64

text \<open>The current directory is part of the file system's state and shown by the prompt.\<close>

definition set_world :: "world \<Rightarrow> 'a system_scheme \<Rightarrow> 'a system_scheme" where
  "set_world w t = t\<lparr>sy_world := w, curr_dir := Vfs.currentDir (w_vfs w)\<rparr>"

definition param_at :: "dstring list \<Rightarrow> nat \<Rightarrow> dstring option" where
  "param_at ps i = (if i < length ps then Some (ps ! i) else if ps = [] then None else Some (last ps))"

definition is_param :: "dstring list \<Rightarrow> nat \<Rightarrow> string \<Rightarrow> bool option" where
  "is_param ps i s = do { p \<leftarrow> param_at ps i; string_equals p (Some s) }"

section \<open>Drives\<close>

definition sector_words :: "(u8 \<Rightarrow> u8) \<Rightarrow> u16 list \<Rightarrow> 'a terminal_scheme \<Rightarrow> 'a terminal_scheme option" where
  "sector_words cmos ws t = prints cmos (map (\<lambda>w. (default_rgb_color, ''%hx '', [Arg32 (ucast w)])) ws) t"

definition bad_sector :: string where
  "bad_sector = ''Please use a decimal integer as the sector index. Make sure it'' @ [CHR 0x27]
     @ ''s in the given devices maximum sector count: %u'' @ [newline_char]"

definition wrong_syntax :: "dstring list \<Rightarrow> bool option" where
  "wrong_syntax params =
     (if length params \<noteq> 4 then Some True
      else do {
        dev \<leftarrow> is_param params 0 ''-dev'';
        if \<not> dev then Some True else map_option Not (is_param params 2 ''-sect'') })"

definition param_number :: "dstring list \<Rightarrow> nat \<Rightarrow> i32 option" where
  "param_number ps i = do { p \<leftarrow> param_at ps i; Some (str_to_int (c_str p)) }"

definition dev_total_sectors :: "u8 list \<Rightarrow> u32" where
  "dev_total_sectors dev = get32 72 dev"

text \<open>The indices of the table are from 0 to 3, and the pointers behind the last device are null.\<close>

definition read_ata :: "(u8 \<Rightarrow> u8) \<Rightarrow> 'a system_scheme \<Rightarrow> 'a system_scheme option" where
  "read_ata cmos t =
     do {
       params \<leftarrow> get_params Tokenize t;
       wrong \<leftarrow> wrong_syntax params;
       if wrong then say_type cmos LOG_INFO (''Syntax: read_ata -dev <device_index> -sect <sector_index>'' @ [newline_char]) [] t
       else do {
         i \<leftarrow> param_number params 1;
         if sint i < 0 \<or> 4 \<le> sint i then
           say_type cmos LOG_INFO (''Please use an integer (0-3) as the device index in decimal format.'' @ [newline_char]) [] t
         else if length (ata_devices (sy_ata t)) \<le> nat (sint i) then
           say_type cmos LOG_INFO (''read_ata: Invalid device'' @ [newline_char]) [] t
         else do {
           let device = ata_devices (sy_ata t) ! nat (sint i);
           sect \<leftarrow> param_number params 3;
           if sint sect < 0 \<or> dev_total_sectors device \<le> sect then
             say_type cmos LOG_INFO bad_sector [Arg32 (dev_total_sectors device)] t
           else do {
             (ok, ws, h) \<leftarrow> read_sector device sect 1 (port (sy_ata t));
             let t1 = t\<lparr>sy_ata := (sy_ata t)\<lparr>port := h\<rparr>\<rparr>;
             if ok then sector_words cmos (take 256 ws) t1 else Some t1 } } } }"

text \<open>A 64-bit argument as the two words it is on the stack, of which \<open>%u\<close> takes the first.\<close>

definition low_word :: "u64 \<Rightarrow> va_arg list" where
  "low_word v = [Arg32 (ucast v), Arg32 (ucast (drop_bit 32 v))]"

text \<open>
  Here the index is not checked, so one outside the list is \<open>None\<close>.  The sector goes to \<open>buffer\<close>, a
  place on the stack.
\<close>

definition read_ahci :: "(u8 \<Rightarrow> u8) \<Rightarrow> u32 \<Rightarrow> 'a system_scheme \<Rightarrow> 'a system_scheme option" where
  "read_ahci cmos buffer t =
     do {
       params \<leftarrow> get_params Tokenize t;
       wrong \<leftarrow> wrong_syntax params;
       if wrong then say_type cmos LOG_INFO (''Syntax: read_ahci -dev <device_index> -sect <sector_index>'' @ [newline_char]) [] t
       else do {
         i \<leftarrow> param_number params 1;
         if length (ahci_devices (sy_ahci t)) \<le> unat i then None
         else do {
           let device = ahci_devices (sy_ahci t) ! unat i;
           sect \<leftarrow> param_number params 3;
           if sint sect < 0 \<or> ah_total_sectors device \<le> scast sect then
             say_type cmos LOG_INFO bad_sector (low_word (ah_total_sectors device)) t
           else do {
             (ok, s1) \<leftarrow> ahci_read (ah_port device) (scast sect) 1 buffer (sy_ahci t);
             let t1 = t\<lparr>sy_ahci := s1\<rparr>;
             if ok then sector_words cmos (map (\<lambda>j. ucast (ram s1 (buffer + 2 * of_nat j)) OR push_bit 8 (ucast (ram s1 (buffer + 2 * of_nat j + 1)))) [0..<256]) t1
             else Some t1 } } } }"

definition byte_text :: "u8 list \<Rightarrow> string" where
  "byte_text bs = map (\<lambda>b. char_of (unat b)) bs"

fun list_ata :: "(u8 \<Rightarrow> u8) \<Rightarrow> u8 list list \<Rightarrow> 'a terminal_scheme \<Rightarrow> 'a terminal_scheme option" where
  "list_ata cmos [] t = Some t"
| "list_ata cmos (d # ds) t =
     do {
       t1 \<leftarrow> say cmos (newline_char # ''Model: %s, serial: %s, firmware: %s, total sectors: %u, lba_support: %u, dma_support: %u '')
         [ArgStr (Some (byte_text (take 41 d))), ArgStr (Some (byte_text (take 21 (drop 41 d)))),
          ArgStr (Some (byte_text (take 9 (drop 62 d)))), Arg32 (dev_total_sectors d), Arg32 (ucast (d ! 76)), Arg32 (ucast (d ! 77))] t;
       t2 \<leftarrow> say cmos (''IO information: bus: %s, drive: %s'' @ [newline_char])
         [ArgStr (Some (case dev_bus d of Primary \<Rightarrow> ''Primary'' | Secondary \<Rightarrow> ''Secondary'')),
          ArgStr (Some (case dev_drive d of Master \<Rightarrow> ''Master'' | Slave \<Rightarrow> ''Slave''))] t1;
       list_ata cmos ds t2 }"

text \<open>The PCI function of a device is that of its driver.\<close>

fun list_ahci :: "(u8 \<Rightarrow> u8) \<Rightarrow> (PciDevice \<times> u32) list \<Rightarrow> ahci_device list \<Rightarrow> 'a terminal_scheme \<Rightarrow> 'a terminal_scheme option" where
  "list_ahci cmos drvs [] t = Some t"
| "list_ahci cmos drvs (d # ds) t =
     do {
       t1 \<leftarrow> say cmos (newline_char # ''Model: %s, serial: %s, firmware: %s, total sectors: %u '')
         ([ArgStr (Some (byte_text (ah_model d))), ArgStr (Some (byte_text (ah_serial d))),
          ArgStr (Some (byte_text (ah_firmware d)))] @ low_word (ah_total_sectors d)) t;
       p \<leftarrow> (if unat (ah_ahci d) < length drvs then Some (fst (drvs ! unat (ah_ahci d))) else None);
       t2 \<leftarrow> log_pci_info cmos p t1;
       list_ahci cmos drvs ds t2 }"

section \<open>Directories\<close>

definition pwd :: "(u8 \<Rightarrow> u8) \<Rightarrow> 'a terminal_scheme \<Rightarrow> 'a terminal_scheme option" where
  "pwd cmos t = say cmos (''%S'' @ [newline_char]) [ArgString (Some (curr_dir t))] t"

definition dot_name :: "vfsNode \<Rightarrow> bool option" where
  "dot_name n = do { a \<leftarrow> string_equals (vn_name n) (Some ''.''); if a then Some True else string_equals (vn_name n) (Some ''..'') }"

definition hidden :: "bool \<Rightarrow> world \<Rightarrow> vfsNode \<Rightarrow> bool option" where
  "hidden all_print w n =
     (if vn_inode n \<noteq> 0 \<and> \<not> p_read (perms_of w (vn_inode n)) then Some True
      else do { d \<leftarrow> dot_name n; Some (\<not> ((all_print \<and> d) \<or> \<not> d)) })"

definition name_color :: "vfsNode \<Rightarrow> u32" where
  "name_color n = (if vn_is_dir n then RGB_COLOR_LIGHT_BLUE else RGB_COLOR_WHITE)"

fun ls_names :: "(u8 \<Rightarrow> u8) \<Rightarrow> bool \<Rightarrow> world \<Rightarrow> vfsNode list \<Rightarrow> 'a terminal_scheme \<Rightarrow> 'a terminal_scheme option" where
  "ls_names cmos all_print w [] t = Some t"
| "ls_names cmos all_print w (n # ns) t =
     do {
       h \<leftarrow> hidden all_print w n;
       t1 \<leftarrow> (if h then Some t else say_color cmos (name_color n) ''%S '' [ArgString (Some (vn_name n))] t);
       ls_names cmos all_print w ns t1 }"

definition inode_fields :: "u32 \<Rightarrow> u8 list \<Rightarrow> (u32 \<times> string \<times> va_arg list) list" where
  "inode_fields num ino =
     map (\<lambda>(f, a). (default_rgb_color, f, [a]))
       [(''%S '', ArgString (Some (mode_to_string (type_and_perm ino)))), (''%u '', Arg32 (ucast (hard_link_count ino))),
        (''%u '', Arg32 (ucast (i_uid ino))), (''%u '', Arg32 (ucast (i_gid ino))), (''%u '', Arg32 (size_low ino)),
        (''%u '', Arg32 num), (''%S '', ArgString (Some (string_of_cstr (timestamp_to_string (get32 16 ino)))))]"

fun ls_metadata :: "(u8 \<Rightarrow> u8) \<Rightarrow> bool \<Rightarrow> world \<Rightarrow> vfsNode list \<Rightarrow> 'a terminal_scheme \<Rightarrow> 'a terminal_scheme option" where
  "ls_metadata cmos all_print w [] t = Some t"
| "ls_metadata cmos all_print w (n # ns) t =
     do {
       h \<leftarrow> hidden all_print w n;
       t1 \<leftarrow>
         (if h then Some t
          else do {
            t0 \<leftarrow>
              (if vn_inode n \<noteq> 0 then do { ino \<leftarrow> w_inodes w (vn_inode n); prints cmos (inode_fields (vn_inode_num n) ino) t }
               else say cmos (''(Couldn'' @ [CHR 0x27] @ ''t recognize File System / Inode) '') [] t);
            say_color cmos (name_color n) (''%S'' @ [newline_char]) [ArgString (Some (vn_name n))] t0 });
       ls_metadata cmos all_print w ns t1 }"

definition ls :: "(u8 \<Rightarrow> u8) \<Rightarrow> 'a system_scheme \<Rightarrow> 'a system_scheme option" where
  "ls cmos t =
     do {
       params \<leftarrow> get_params Tokenize t;
       flags \<leftarrow>
         (if params = [] then Some (Some (False, False))
          else do {
            c \<leftarrow> string_at (params ! 0) 0;
            if c = CHR ''-'' then do {
              a \<leftarrow> string_includes (params ! 0) (Some ''a'');
              l \<leftarrow> string_includes (params ! 0) (Some ''l'');
              Some (Some (a, l)) }
            else Some None });
       case flags of
         None \<Rightarrow>
           say_type cmos LOG_INFO (''ls: Invalid parameter '' @ [CHR 0x22] @ ''%S'' @ [CHR 0x22] @ '' passed to ls'' @ [newline_char])
             [ArgString (Some (params ! 0))] t
       | Some (all_print, metadata_print) \<Rightarrow> do {
           node \<leftarrow> get_node (vfs_tree (w_vfs (sy_world t))) (Vfs.currentDir (w_vfs (sy_world t)));
           if node = 0 then Some t
           else do {
             (_, w) \<leftarrow> read_dir node (sy_world t);
             nodes \<leftarrow> get_children node (heap_of w);
             let t1 = set_world w t;
             if \<not> metadata_print then do { t2 \<leftarrow> ls_names cmos all_print w nodes t1; say cmos [newline_char] [] t2 }
             else ls_metadata cmos all_print w nodes t1 } } }"

text \<open>\<open>cd\<close> stops at the first token that cannot be entered.\<close>

fun change_dirs :: "dstring list \<Rightarrow> world \<Rightarrow> world option" where
  "change_dirs [] w = Some w"
| "change_dirs (d # ds) w = do { (ok, w1) \<leftarrow> change_dir d w; if ok then change_dirs ds w1 else Some w1 }"

definition cd :: "(u8 \<Rightarrow> u8) \<Rightarrow> 'a system_scheme \<Rightarrow> 'a system_scheme option" where
  "cd cmos t =
     do {
       params \<leftarrow> get_params Tokenize t;
       input \<leftarrow> param_at params 0;
       if string_empty input then say_type cmos LOG_INFO (''cd: Syntax: cd <dir>'' @ [newline_char]) [] t
       else do {
         w \<leftarrow> change_dirs (case split_path_tokens input of None \<Rightarrow> [] | Some dirs \<Rightarrow> dirs) (sy_world t);
         Some (set_world w t) } }"

definition DEFAULT_PERMS :: u16 where "DEFAULT_PERMS = 0x1ED"

text \<open>What \<open>mkdir\<close> and \<open>mkfile\<close> share: the name, the checks, and the node they work in.\<close>

definition make_entry ::
  "(u8 \<Rightarrow> u8) \<Rightarrow> string \<Rightarrow> string \<Rightarrow> string \<Rightarrow> (dstring \<Rightarrow> vfsNode \<Rightarrow> u32 \<Rightarrow> u16 \<Rightarrow> u32 \<Rightarrow> world \<Rightarrow> world option) \<Rightarrow>
    'a system_scheme \<Rightarrow> 'a system_scheme option" where
  "make_entry cmos cmd param kind maker t =
     do {
       params \<leftarrow> get_params Tokenize t;
       name \<leftarrow> param_at params 0;
       if string_empty name then say_type cmos LOG_INFO (cmd @ '': Syntax: '' @ cmd @ '' <'' @ param @ ''>'' @ [newline_char]) [] t
       else if w_curr_fs (sy_world t) = 0 then
         say_type cmos LOG_WARNING (cmd @ '': You are not in a valid Ext2 file system'' @ [newline_char]) [] t
       else do {
         slash \<leftarrow> string_includes name (Some ''/'');
         if slash then
           say_type cmos LOG_WARNING
             (cmd @ '': Please don'' @ [CHR 0x27] @ ''t use '' @ [CHR 0x27] @ ''/'' @ [CHR 0x27] @ '' in a '' @ kind @ '' name'' @ [newline_char]) [] t
         else do {
           node \<leftarrow> get_node (vfs_tree (w_vfs (sy_world t))) (Vfs.currentDir (w_vfs (sy_world t)));
           if node = 0 then Some t
           else do {
             tn \<leftarrow> heap_of (sy_world t) node;
             if vn_fs (tn_data tn) = 0 then Some t
             else do {
               now \<leftarrow> get_unix_timestamp cmos;
               w \<leftarrow> maker name (tn_data tn) node DEFAULT_PERMS now (sy_world t);
               Some (set_world w t) } } } } }"

definition mkdir :: "(u8 \<Rightarrow> u8) \<Rightarrow> 'a system_scheme \<Rightarrow> 'a system_scheme option" where
  "mkdir cmos t = make_entry cmos ''mkdir'' ''dir'' ''directory'' make_dir t"

definition mkfile :: "(u8 \<Rightarrow> u8) \<Rightarrow> 'a system_scheme \<Rightarrow> 'a system_scheme option" where
  "mkfile cmos t = make_entry cmos ''mkfile'' ''file'' ''file'' make_file t"

section \<open>Removing\<close>

text \<open>
  \<open>traverse\<close> with \<open>remove_entry\<close>: the first child is looked up before a node is visited, the next one
  of a child after everything below it.
\<close>

partial_function (option) traverse_remove :: "bool \<Rightarrow> u32 \<Rightarrow> world \<Rightarrow> world option" where
  "traverse_remove is_child node w =
     (if node = 0 then Some w
      else do {
        tn \<leftarrow> heap_of w node;
        w1 \<leftarrow> remove_entry node w;
        w2 \<leftarrow> traverse_remove True (tn_first_child tn) w1;
        if is_child then do { tn2 \<leftarrow> heap_of w2 node; traverse_remove True (tn_next_sibling tn2) w2 } else Some w2 })"

definition drop_node :: "u32 \<Rightarrow> world \<Rightarrow> world option" where
  "drop_node node w = do { h \<leftarrow> delete_subtree node (heap_of w); Some (set_heap h w) }"

fun first_with :: "(vfsNode \<Rightarrow> bool) \<Rightarrow> u32 list \<Rightarrow> world \<Rightarrow> u32 option option" where
  "first_with P [] w = Some None"
| "first_with P (p # ps) w = do { tn \<leftarrow> heap_of w p; if P (tn_data tn) then Some (Some p) else first_with P ps w }"

text \<open>
  \<open>rm\<close> of the first child of the name that is, or is not, a directory.  \<open>missing\<close> and \<open>other\<close> are the
  messages when there is no child of the name, and when all are of the other kind.
\<close>

definition rm_named ::
  "(u8 \<Rightarrow> u8) \<Rightarrow> bool \<Rightarrow> dstring \<Rightarrow> string \<Rightarrow> string \<Rightarrow> u32 \<Rightarrow> 'a system_scheme \<Rightarrow> 'a system_scheme option" where
  "rm_named cmos dir name missing other parent t =
     do {
       (_, w) \<leftarrow> read_dir parent (sy_world t);
       let t1 = set_world w t;
       (nodes, n) \<leftarrow> find_children_by_predicate parent (\<lambda>node. is_true (string_eq (vn_name node) name)) (heap_of w);
       if n = 0 then say_type cmos LOG_INFO missing [ArgString (Some name), ArgString (Some (curr_dir t1))] t1
       else do {
         found \<leftarrow> first_with (\<lambda>d. vn_is_dir d = dir) nodes w;
         case found of
           Some p \<Rightarrow> do {
             w1 \<leftarrow> (if dir then traverse_remove False p w else remove_entry p w);
             w2 \<leftarrow> drop_node p w1;
             Some (set_world w2 t1) }
         | None \<Rightarrow> say_type cmos LOG_INFO other [ArgString (Some name)] t1 } }"

definition quoted :: string where "quoted = [CHR 0x22] @ ''%S'' @ [CHR 0x22]"

definition rm_usage :: "(u8 \<Rightarrow> u8) \<Rightarrow> 'a terminal_scheme \<Rightarrow> 'a terminal_scheme option" where
  "rm_usage cmos t =
     do {
       t1 \<leftarrow> say_type cmos LOG_INFO (''rm: Invalid parameters passed to rm!'' @ [newline_char]) [] t;
       prints cmos
         [ln (''rm <file> - Deletes file (doesn'' @ [CHR 0x27] @ ''t work with directories)''), ln ''rm -r <dir> - Deletes directory (recursively deletes contents)''] t1 }"

definition rm :: "(u8 \<Rightarrow> u8) \<Rightarrow> 'a system_scheme \<Rightarrow> 'a system_scheme option" where
  "rm cmos t =
     (if w_curr_fs (sy_world t) = 0 then
        say_type cmos LOG_WARNING (''rm: You are not in a valid Ext2 file system'' @ [newline_char]) [] t
      else do {
        params \<leftarrow> get_params Tokenize t;
        parent \<leftarrow> get_node (vfs_tree (w_vfs (sy_world t))) (Vfs.currentDir (w_vfs (sy_world t)));
        if length params = 2 then do {
          r \<leftarrow> string_equals (params ! 0) (Some ''-r'');
          if \<not> r then rm_usage cmos t
          else rm_named cmos True (params ! 1) (''rm: Couldn'' @ [CHR 0x27] @ ''t find dir '' @ quoted @ '' in '' @ quoted @ [newline_char])
            (''rm: The object ('' @ quoted @ '') to delete is a file! Please use rm <file>'' @ [newline_char]) parent t }
        else if length params = 1 then
          rm_named cmos False (params ! 0) (''rm: Couldn'' @ [CHR 0x27] @ ''t find file '' @ quoted @ '' in '' @ quoted @ [newline_char])
            (''rm: The object ('' @ quoted @ '') to delete is a directory! Please use rm -r <dir>'' @ [newline_char]) parent t
        else rm_usage cmos t })"

section \<open>The content of files\<close>

definition file_path :: "world \<Rightarrow> dstring \<Rightarrow> dstring" where
  "file_path w name = string_append_string (string_copy (Vfs.currentDir (w_vfs w))) name"

definition cat :: "(u8 \<Rightarrow> u8) \<Rightarrow> 'a system_scheme \<Rightarrow> 'a system_scheme option" where
  "cat cmos t =
     do {
       params \<leftarrow> get_params Tokenize t;
       if length params \<noteq> 1 then say_type cmos LOG_INFO (''cat: Syntax: cat <file>'' @ [newline_char]) [] t
       else if w_curr_fs (sy_world t) = 0 then
         say_type cmos LOG_WARNING (''cat: You are not in a valid Ext2 file system'' @ [newline_char]) [] t
       else do {
         now \<leftarrow> get_unix_timestamp cmos;
         (file, w) \<leftarrow> get_file_contents now (file_path (sy_world t) (params ! 0)) (sy_world t);
         say cmos (''%S'' @ [newline_char]) [ArgString (Some \<lparr>d_data = l_data file, d_len = l_len file\<rparr>)] (set_world w t) } }"

text \<open>\<open>write\<close> and \<open>append\<close>; the check of the number of parameters never fails.\<close>

definition put_file :: "(u8 \<Rightarrow> u8) \<Rightarrow> string \<Rightarrow> bool \<Rightarrow> 'a system_scheme \<Rightarrow> 'a system_scheme option" where
  "put_file cmos cmd overwrite t =
     do {
       params \<leftarrow> get_params SplitHead t;
       if length params < 1 then say_type cmos LOG_INFO (cmd @ '': Syntax: write_file <file> <content>'' @ [newline_char]) [] t
       else do {
         now \<leftarrow> get_unix_timestamp cmos;
         text \<leftarrow> param_at params 1;
         (_, w) \<leftarrow> write_file_content now (file_path (sy_world t) (params ! 0)) text overwrite (sy_world t);
         Some (set_world w t) } }"

definition write_to_file :: "(u8 \<Rightarrow> u8) \<Rightarrow> 'a system_scheme \<Rightarrow> 'a system_scheme option" where
  "write_to_file cmos t = put_file cmos ''write'' True t"

definition append_to_file :: "(u8 \<Rightarrow> u8) \<Rightarrow> 'a system_scheme \<Rightarrow> 'a system_scheme option" where
  "append_to_file cmos t = put_file cmos ''append'' False t"

section \<open>All commands\<close>

text \<open>
  The functions behind the pointers of the terminal, by their names.  \<open>stack\<close> is where the buffer of
  \<open>read_ahci\<close> lies.
\<close>

definition run_command :: "(u8 \<Rightarrow> u8) \<Rightarrow> u32 \<Rightarrow> string \<Rightarrow> 'a system_scheme \<Rightarrow> 'a system_scheme option" where
  "run_command cmos stack f t =
     (if f = ''help'' then help_cmd cmos t
      else if f = ''clear'' then clear_cmd cmos t
      else if f = ''echo'' then echo cmos t
      else if f = ''meminfo'' then meminfo cmos (sy_image t) (fst (sy_boot t)) (snd (sy_boot t)) (sy_pae t) (sy_mm t) t
      else if f = ''heapdump'' then heapdump cmos (sy_heap t) t
      else if f = ''read_ata'' then read_ata cmos t
      else if f = ''list_ata'' then list_ata cmos (ata_devices (sy_ata t)) t
      else if f = ''read_ahci'' then read_ahci cmos stack t
      else if f = ''list_ahci'' then list_ahci cmos (drivers (sy_ahci t)) (ahci_devices (sy_ahci t)) t
      else if f = ''pwd'' then pwd cmos t
      else if f = ''ls'' then ls cmos t
      else if f = ''cd'' then cd cmos t
      else if f = ''mkdir'' then mkdir cmos t
      else if f = ''mkfile'' then mkfile cmos t
      else if f = ''rm'' then rm cmos t
      else if f = ''cat'' then cat cmos t
      else if f = ''write_to_file'' then write_to_file cmos t
      else if f = ''append_to_file'' then append_to_file cmos t
      else if f = ''sysinfo'' then sysinfo cmos (sy_cpu t) (sy_build t) (total_installed_ram (sy_mm t)) t
      else if f = ''uptime'' then uptime cmos (sy_ticks t) t
      else if f = ''currtime'' then currtime cmos t
      else if f = ''lsprocesses'' then lsprocesses cmos (procs (sy_sched t)) (process_log_list (sy_sched t)) t
      else if f = ''lspci'' then lspci cmos (sy_pci t) t
      else None)"

section \<open>Writing and showing a file\<close>

lemma first_word_of_line:
  assumes "cmd \<noteq> []" and "\<forall>c \<in> set cmd. in_word c"
  shows "dropWhile is_ws (cmd @ CHR '' '' # rest) = cmd @ CHR '' '' # rest"
    and "dropWhile in_word (cmd @ CHR '' '' # rest) = CHR '' '' # rest"
    and "takeWhile in_word (cmd @ CHR '' '' # rest) = cmd"
proof -
  have "\<not> in_word (CHR '' '')" by (simp add: in_word_def is_ws_def)
  then show "dropWhile in_word (cmd @ CHR '' '' # rest) = CHR '' '' # rest" "takeWhile in_word (cmd @ CHR '' '' # rest) = cmd"
    using assms(2) by (simp_all add: dropWhile_append2 takeWhile_append2)
  show "dropWhile is_ws (cmd @ CHR '' '' # rest) = cmd @ CHR '' '' # rest"
    using assms by (cases cmd) (auto simp: in_word_def)
qed

lemma rest_of_line:
  assumes "cmd \<noteq> []" and "\<forall>c \<in> set cmd. in_word c" and "rest \<noteq> []" and "\<not> is_ws (hd rest)" and "NUL \<notin> set rest" and "length rest < 1024"
  shows "get_remaining_string (cmd @ CHR '' '' # rest) = Some rest"
proof -
  have "is_ws (CHR '' '')" by (simp add: is_ws_def)
  then have "dropWhile is_ws (CHR '' '' # rest) = rest" using assms(3,4) by (cases rest) auto
  moreover have tw: "takeWhile (\<lambda>c. c \<noteq> NUL) rest = rest" using assms(5) by (auto simp: takeWhile_eq_all_conv)
  ultimately show ?thesis
    unfolding get_remaining_string_def Let_def first_word_of_line [OF assms(1,2), of rest] using assms(6) by (simp only: tw if_True)
qed

lemma in_word_name:
  assumes "\<forall>c \<in> set name. in_word c"
  shows "NUL \<notin> set name" "CHR '' '' \<notin> set name" "name \<noteq> [] \<Longrightarrow> \<not> is_ws (hd name)"
  using assms by (auto simp: in_word_def is_ws_def)

text \<open>The two parameters of a command line with a name and a text, and the one of a line with a name.\<close>

lemma params_of_write:
  assumes "currentInput t = cmd @ CHR '' '' # name @ CHR '' '' # content" and "cmd \<noteq> []" and "\<forall>c \<in> set cmd. in_word c"
    and "name \<noteq> []" and "\<forall>c \<in> set name. in_word c" and "content \<noteq> []" and "\<not> is_ws (hd content)" and "NUL \<notin> set content"
    and "length (currentInput t) < 256"
  shows "get_params SplitHead t = Some [string_of_cstr name, string_of_cstr content]"
proof -
  note n = in_word_name [OF assms(5)] and c = in_word_name [OF assms(3)]
  have i: "cstr (currentInput t) = currentInput t" using n(1) c(1) assms(8) by (simp add: assms(1))
  have "get_remaining_string (currentInput t) = Some (name @ CHR '' '' # content)"
    unfolding assms(1) using assms(4,8,9) n by (intro rest_of_line assms(2,3)) (auto simp: assms(1))
  moreover have "get_remaining_string (name @ CHR '' '' # content) = Some content"
    using assms(9) by (intro rest_of_line assms(4-8)) (simp add: assms(1))
  moreover have "get_first_word (name @ CHR '' '' # content) = Some name"
    using first_word_of_line [OF assms(4,5), of content] assms(9) by (simp add: get_first_word_def assms(1))
  ultimately show ?thesis by (simp add: get_params_def get_params_split_head_def get_input_def c_str_def string_of_cstr_def i)
qed

lemma params_of_cat:
  assumes "currentInput t = cmd @ CHR '' '' # name" and "cmd \<noteq> []" and "\<forall>c \<in> set cmd. in_word c"
    and "name \<noteq> []" and "\<forall>c \<in> set name. in_word c" and "length (currentInput t) < 256"
  shows "get_params Tokenize t = Some [string_of_cstr name]"
proof -
  note n = in_word_name [OF assms(5)] and c = in_word_name [OF assms(3)]
  have i: "cstr (currentInput t) = currentInput t" "cstr name = name" using n(1) c(1) by (simp_all add: assms(1))
  have "get_remaining_string (currentInput t) = Some name"
    unfolding assms(1) using assms(4,6) n by (intro rest_of_line assms(2,3)) (auto simp: assms(1))
  moreover have "parts (CHR '' '') name = [name]"
  proof -
    have "takeWhile (\<lambda>c. c \<noteq> CHR '' '') name = name" "dropWhile (\<lambda>c. c \<noteq> CHR '' '') name = []" "dropWhile (\<lambda>c. c = CHR '' '') name = name"
      using n(2) assms(4) by (auto simp: takeWhile_eq_all_conv dropWhile_eq_Nil_conv) (cases name; auto)
    then show ?thesis using assms(4) by (subst parts_next) (simp only: Let_def parts_Nil if_False)
  qed
  moreover have "unat (of_nat (length name) :: u32) = length name" using assms(1,6) by (intro unat_of_nat_u32) simp
  moreover have "(of_nat (length name) :: u32) \<noteq> 0" using calculation(3) assms(4) by auto
  ultimately show ?thesis
    by (simp add: get_params_def get_params_tokenized_def get_input_def c_str_def string_of_cstr_def i split_string_tokens_def
        space_loop_parts string_empty_def)
qed

text \<open>
  C9: what \<open>write\<close> stores, \<open>cat\<close> shows.  The command line \<open>write name content\<close> on a file of the current
  directory with enough blocks, and then the line \<open>cat name\<close>: both commands return, the first prints
  nothing, the inode on the drive has the size of the content, and after the second the console
  shows, behind what it showed before, exactly the content and a new line.
\<close>

theorem write_then_cat:
  fixes t :: "'a system_scheme"
  assumes "currentInput t = ''write'' @ CHR '' '' # name @ CHR '' '' # content" and "length (currentInput t) < 256"
    and "name \<noteq> []" and "\<forall>c \<in> set name. in_word c"
    and "content \<noteq> []" and "\<not> is_ws (hd content)" and "\<forall>c \<in> set content. shown c"
    and "w = sy_world t" and "opens w (file_path w (string_of_cstr name)) num inode ino" and "length ino = 128"
    and "w_curr_fs w \<noteq> 0" and "fs = w_fs w (w_curr_fs w)" and "inodes_ok fs" and "on_disk fs (fst (inode_place fs num))"
    and "room_for fs ino (length content)"
    and "\<forall>j. j * unat (block_size fs) < length content \<longrightarrow> direct_blk_ptr ino j \<noteq> fst (inode_place fs num)"
    and "p_read (get_perms (Some ino) (currUid (w_vfs w)) (currGid (w_vfs w)))" and "get_unix_timestamp cmos = Some now"
    and "vga_mode (screen t) = FRAMEBUFFER" and "console_shows (screen t) lines" and "\<not> can_update_cursor (screen t)"
  shows "\<exists>t1 t2 ino1. run_command cmos stack ''write_to_file'' t = Some t1 \<and> screen t1 = screen t
    \<and> load_inode (w_fs (sy_world t1) (w_curr_fs w)) num = Some ino1 \<and> unat (file_size ino1) = length content
    \<and> run_command cmos stack ''cat'' (t1\<lparr>currentInput := ''cat'' @ CHR '' '' # name\<rparr>) = Some t2
    \<and> console_shows (screen t2) (term_text (screen t) (map (\<lambda>c. (c, default_rgb_color)) (content @ [newline_char])) lines)"
proof -
  let ?input = "string_of_cstr content" and ?name = "string_of_cstr name"
  define path where "path = file_path w ?name"
  have nul: "NUL \<notin> set content" using assms(7) nul_not_shown by blast
  have l: "length content < 2 ^ 32" using assms(1,2) by simp
  have input: "string_ok ?input" "chars ?input = content" "unat (string_size ?input) = length content"
    using nul l by (simp_all add: string_ok_def string_of_cstr_def chars_def string_size_def unat_of_nat_u32)
  have n: "length content = length (chars ?input)" by (simp only: input(2))
  define ino1 where "ino1 = resized now (ucast (string_size ?input)) ino"
  obtain fs2 out w2 where wr: "write_file_content now path ?input True w
      = Some (True, w\<lparr>w_inodes := (w_inodes w)(inode \<mapsto> ino1), w_fs := (w_fs w)(w_curr_fs w := fs2)\<rparr>)"
    and ld: "load_inode fs2 num = Some ino1"
    and rd: "get_file_contents now path (w\<lparr>w_inodes := (w_inodes w)(inode \<mapsto> ino1), w_fs := (w_fs w)(w_curr_fs w := fs2)\<rparr>) = Some (out, w2)"
    and out: "lchars out = content"
    by (rule written_file_reads [OF assms(9) [folded path_def] assms(10-14) input(1) n assms(15-17) ino1_def, where now' = now])
      (use input(2) in \<open>simp only:\<close>)
  define w1 where "w1 = w\<lparr>w_inodes := (w_inodes w)(inode \<mapsto> ino1), w_fs := (w_fs w)(w_curr_fs w := fs2)\<rparr>"
  define t1 where "t1 = set_world w1 t"
  have cw: "\<forall>c \<in> set ''write''. in_word c" "\<forall>c \<in> set ''cat''. in_word c" by (simp_all add: in_word_def is_ws_def)
  have pw: "get_params SplitHead t = Some [?name, ?input]"
    by (rule params_of_write [OF assms(1) _ cw(1) assms(3-6) nul assms(2)]) simp
  have run1: "run_command cmos stack ''write_to_file'' t = Some t1"
    using wr pw assms(18) by (simp add: run_command_def write_to_file_def put_file_def param_at_def assms(8) [symmetric]
        path_def [symmetric] t1_def w1_def)
  let ?t = "t1\<lparr>currentInput := ''cat'' @ CHR '' '' # name\<rparr>"
  have pc: "get_params Tokenize ?t = Some [?name]"
    using assms(1,2) by (intro params_of_cat [of ?t "''cat''"] cw(2) assms(3,4)) simp_all
  have p1: "file_path w1 ?name = path" "w_curr_fs w1 \<noteq> 0" using assms(11) by (simp_all add: path_def file_path_def w1_def)
  have d: "l_data out = Some content" using out assms(5) by (simp add: lchars_def split: option.splits)
  let ?out = "\<lparr>d_data = l_data out, d_len = l_len out\<rparr>"
  have sh: "\<forall>p \<in> set [DString ?out content, Plain newline_char]. piece_shown p" using assms(7) d newline_shown by simp
  obtain v where v: "put_text (render default_rgb_color [DString ?out content, Plain newline_char]) (screen t) = Some v"
      "same_console (screen t) v" "console_shows v (term_text (screen t) (render default_rgb_color [DString ?out content, Plain newline_char]) lines)"
    using put_text_console [OF assms(20) render_shown [OF sh]] by blast
  have ok: "\<forall>p \<in> set [DString ?out content, Plain newline_char]. piece_ok p" using sh piece_shown_text(1) by blast
  have e: "''%S'' @ [newline_char] = concat (map spell [DString ?out content, Plain newline_char])"
      "[ArgString (Some ?out)] = concat (map piece_args [DString ?out content, Plain newline_char])"
    by simp_all
  have "kv_loop default_rgb_color (''%S'' @ [newline_char]) [ArgString (Some ?out)] (screen t) = Some v"
    unfolding e using kv_pieces [of "[DString ?out content, Plain newline_char]" default_rgb_color "screen t", OF ok] v(1) by (rule trans)
  then have "say cmos (''%S'' @ [newline_char]) [ArgString (Some ?out)] (set_world w2 ?t) = Some ((set_world w2 ?t)\<lparr>screen := v\<rparr>)"
    using assms(19,21) same_console_fields(9) [OF v(2)]
    by (simp add: say_def kprintf_def kvprintf_def kv_print_def log_prefix_def set_world_def t1_def del: kv_loop.simps)
  then have run2: "run_command cmos stack ''cat'' ?t = Some ((set_world w2 ?t)\<lparr>screen := v\<rparr>)"
    using pc p1 rd assms(18) by (simp add: run_command_def cat_def t1_def set_world_def w1_def)
  have fs: "unat (file_size ino1) = length content"
    using resized_inode(2) [OF assms(10), of now] input(3) l by (simp add: ino1_def)
  show ?thesis
    using run1 run2 ld fs v(3) assms(8)
    by (intro exI [of _ t1] exI [of _ "(set_world w2 ?t)\<lparr>screen := v\<rparr>"] exI [of _ ino1]) (simp add: t1_def set_world_def w1_def)
qed

definition demo_system :: "string \<Rightarrow> system" where
  "demo_system line = \<lparr>currentInput = line, commands = [], saved_inputs = replicate 10 [], input_write_index = 0, input_read_index = 0,
     saved_inputs_num = 0, input_row = 0, input_col = 0, onTerminal = True, currentUser = ''root'', curr_dir = string_of_cstr ''/'',
     screen = clear_screen demo_screen, keys = keys_of [], sy_world = demo_world 0,
     sy_ata = \<lparr>port = demo_hw, ata_devices = []\<rparr>, sy_ahci = demo_ahci, sy_pci = [], sy_heap = Heap.demo_heap, sy_mm = demo_mm,
     sy_pae = False, sy_image = \<lparr>kernel_phys_base = 0x100000, kernel_end = 0x180000, kernel_size = 0x80000\<rparr>,
     sy_boot = (\<lambda>_. 0, 0),
     sy_sched = \<lparr>procs = (\<lambda>_. None), curr_process = 0, process_queue = [], zombie_queue = [], kernel_idle_process = 0,
       process_log_list = [], next_pid = 0, kmem = (\<lambda>_. 0), cpu = zero_context\<rparr>,
     sy_cpu = ([], []), sy_build = ([], [], []), sy_ticks = 0\<rparr>"

theorem write_then_cat_witness:
  "\<exists>t1 t2. run_command demo_cmos 0 ''write_to_file'' (demo_system (''write'' @ CHR '' '' # ''f'' @ CHR '' '' # ''hi'')) = Some t1
    \<and> run_command demo_cmos 0 ''cat'' (t1\<lparr>currentInput := ''cat'' @ CHR '' '' # ''f''\<rparr>) = Some t2
    \<and> console_shows (screen t2) (term_text (clear_screen demo_screen) (map (\<lambda>c. (c, default_rgb_color)) (''hi'' @ [newline_char])) [[]])"
proof -
  let ?t = "demo_system (''write'' @ CHR '' '' # ''f'' @ CHR '' '' # ''hi'')"
  have j: "j * 1024 < 2 \<longleftrightarrow> j = 0" for j :: nat by (cases j) auto
  have sp: "string_append_string (string_copy (string_of_cstr ''/'')) (string_of_cstr ''f'') = string_of_cstr ''/f''"
    by (simp add: string_append_string_def string_append_def string_copy_def string_of_cstr_def)
  have op: "opens (demo_world 0) (file_path (demo_world 0) (string_of_cstr ''f'')) 12 0x700 (demo_ino 0)"
    using demo_opens [of 0] sp by (simp add: file_path_def) (simp add: demo_world_def)
  have r: "room_for demo_fs (demo_ino 0) 2" using demo_on_disk [of 20] by (simp add: room_for_def demo_fs_fields j demo_ino_facts)
  have fs: "w_fs (demo_world 0) (w_curr_fs (demo_world 0)) = demo_fs" "w_curr_fs (demo_world 0) \<noteq> 0"
    by (simp_all add: demo_world_fields)
  have root: "p_read (get_perms (Some (demo_ino 0)) (currUid (w_vfs (demo_world 0))) (currGid (w_vfs (demo_world 0))))"
    by (simp add: get_perms_def demo_world_fields)
  have other: "\<forall>j. j * unat (block_size demo_fs) < 2 \<longrightarrow> direct_blk_ptr (demo_ino 0) j \<noteq> fst (inode_place demo_fs 12)"
    by (simp add: demo_fs_fields j demo_ino_facts demo_inodes(2))
  have od: "on_disk demo_fs (fst (inode_place demo_fs 12))" by (simp add: demo_inodes(2) demo_on_disk)
  have demo_month: "get_month demo_cmos = 2" by (simp add: get_month_def demo_cmos_def bcd_to_bin_def)
  obtain now where now: "get_unix_timestamp demo_cmos = Some now"
    using demo_month by (cases "get_unix_timestamp demo_cmos") (auto simp: get_unix_timestamp_def Let_def)
  note cl = clear_screen_console [OF demo_console]
  have z: "vga_mode (clear_screen demo_screen) = FRAMEBUFFER" "\<not> can_update_cursor (clear_screen demo_screen)"
    using same_console_fields(9) [OF cl(1)] same_console_mode [OF cl(1)] by (simp_all add: demo_screen_def)
  have sh: "\<forall>c \<in> set ''hi''. shown c" "in_word (CHR ''f'')" "\<not> is_ws (CHR ''h'')"
    by (simp_all add: shown_def printable_def in_word_def is_ws_def)
  have f: "demo_world 0 = sy_world ?t" "screen ?t = clear_screen demo_screen"
    "currentInput ?t = ''write'' @ CHR '' '' # ''f'' @ CHR '' '' # ''hi''" "length (currentInput ?t) < 256"
    by (simp_all add: demo_system_def)
  have sc: "vga_mode (screen ?t) = FRAMEBUFFER" "console_shows (screen ?t) [[]]" "\<not> can_update_cursor (screen ?t)"
    unfolding f(2) using z cl(2) by simp_all
  have w: "\<forall>c \<in> set ''f''. in_word c" "\<not> is_ws (hd ''hi'')" "length ''hi'' = 2" using sh by simp_all
  have "\<exists>t1 t2 ino1. run_command demo_cmos 0 ''write_to_file'' ?t = Some t1 \<and> screen t1 = screen ?t
    \<and> load_inode (w_fs (sy_world t1) (w_curr_fs (demo_world 0))) 12 = Some ino1 \<and> unat (file_size ino1) = length ''hi''
    \<and> run_command demo_cmos 0 ''cat'' (t1\<lparr>currentInput := ''cat'' @ CHR '' '' # ''f''\<rparr>) = Some t2
    \<and> console_shows (screen t2) (term_text (screen ?t) (map (\<lambda>c. (c, default_rgb_color)) (''hi'' @ [newline_char])) [[]])"
    by (rule write_then_cat [OF f(3,4) _ w(1) _ w(2) sh(1) f(1) op demo_ino_facts(1) fs(2) fs(1) [symmetric] demo_inodes(1) od
          r [folded w(3)] other [folded w(3)] root now sc]) simp_all
  then show ?thesis unfolding f(2) by blast
qed

end
