(* ===== verification/HeapTest.thy ===== *)
theory HeapTest
  imports HeapRun
begin

text \<open>
  The calls of the heap test of \<open>src/kernel/tests/heap_u_test.cpp\<close>, evaluated byte for byte over
  any memory from the heap fresh from \<open>heap::init\<close>.
\<close>

section \<open>The run of the test of the heap\<close>

text \<open>
  The memory after each step, over memory \<open>z\<close>.  In the last but one step \<open>kfree\<close> calls itself on
  the header behind the two blocks it has merged, and reads there a byte nothing was ever written to.
\<close>

definition th_boot :: "mem \<Rightarrow> mem" where
  "th_boot z = set_next HEAP_START 0 (set_free HEAP_START True (set_size HEAP_START (HEAP_SIZE - 12) z))"

definition th1 :: "mem \<Rightarrow> mem" where "th1 z = Heap.take_block (th_boot z) 0x200000 40"
definition th2 :: "mem \<Rightarrow> mem" where "th2 z = Heap.take_block (th1 z) 0x200034 40"

definition th3 :: "mem \<Rightarrow> mem" where
  "th3 z = write32 (set_next 0x200034 0 (set_size 0x200034 0x2FFFC0 (set_free 0x200034 True (th2 z)))) 0x200040 0"

definition th4 :: "mem \<Rightarrow> mem" where "th4 z = Heap.take_block (th3 z) 0x200034 40"
definition th5 :: "mem \<Rightarrow> mem" where "th5 z = write32 (set_free 0x200000 True (th4 z)) 0x20000C 0"

lemmas th_defs = th_boot_def th1_def th2_def th3_def th4_def th5_def

lemma th_boot_fields: "hb_next (th_boot z) 0x200000 = 0" "hb_free (th_boot z) 0x200000" "hb_size (th_boot z) 0x200000 = 0x2FFFF4"
  by (simp_all add: th_boot_def heap_eval)

lemma th1_fields: "hb_next (th1 z) 0x200000 = 0x200034" "hb_next (th1 z) 0x200034 = 0"
  "\<not> hb_free (th1 z) 0x200000" "hb_free (th1 z) 0x200034" "hb_size (th1 z) 0x200034 = 0x2FFFC0"
  by (simp_all add: th1_def th_boot_def) (simp_all add: heap_eval)

lemma th2_fields: "hb_next (th2 z) 0x200000 = 0x200034" "hb_next (th2 z) 0x200034 = 0x200068" "hb_next (th2 z) 0x200068 = 0"
  "\<not> hb_free (th2 z) 0x200000" "\<not> hb_free (th2 z) 0x200034" "hb_free (th2 z) 0x200068"
  "hb_size (th2 z) 0x200034 = 40" "hb_size (th2 z) 0x200068 = 0x2FFF8C"
  by (simp_all add: th2_def th1_def th_boot_def) (simp_all add: heap_eval)

lemma th3_fields: "hb_next (th3 z) 0x200000 = 0x200034" "hb_next (th3 z) 0x200034 = 0"
  "\<not> hb_free (th3 z) 0x200000" "hb_free (th3 z) 0x200034" "hb_size (th3 z) 0x200034 = 0x2FFFC0"
  by (simp_all add: th3_def th2_def th1_def th_boot_def) (simp_all add: heap_eval)

lemma th4_fields: "hb_next (th4 z) 0x200000 = 0x200034" "hb_next (th4 z) 0x200034 = 0x200068" "hb_next (th4 z) 0x200068 = 0"
  "\<not> hb_free (th4 z) 0x200000" "\<not> hb_free (th4 z) 0x200034" "hb_free (th4 z) 0x200068"
  "hb_size (th4 z) 0x200000 = 40" "hb_size (th4 z) 0x200034 = 40" "hb_size (th4 z) 0x200068 = 0x2FFF8C" "th4 z 0x200060 = z 0x200060"
  by (simp_all add: th4_def th3_def th2_def th1_def th_boot_def) (simp_all add: heap_eval)

lemma th5_fields: "hb_next (th5 z) 0x200000 = 0x200034" "hb_next (th5 z) 0x200034 = 0x200068" "hb_next (th5 z) 0x200068 = 0"
  "hb_free (th5 z) 0x200000" "\<not> hb_free (th5 z) 0x200034" "hb_free (th5 z) 0x200068"
  "hb_size (th5 z) 0x200000 = 40" "hb_size (th5 z) 0x200034 = 40" "hb_size (th5 z) 0x200068 = 0x2FFF8C" "th5 z 0x200060 = z 0x200060"
  unfolding th5_def using th4_fields [of z] by (simp_all add: heap_eval)

definition th6a :: "mem \<Rightarrow> mem" where "th6a z = set_free 0x200034 True (th5 z)"
definition th6b :: "mem \<Rightarrow> mem" where "th6b z = set_next 0x200000 0x200068 (set_size 0x200000 92 (th6a z))"
definition th6c :: "mem \<Rightarrow> mem" where "th6c z = set_free 0x20005C True (th6b z)"
definition th6d :: "mem \<Rightarrow> mem" where "th6d z = set_next 0x200000 0 (set_size 0x200000 0x2FFFF4 (th6c z))"
definition th6 :: "mem \<Rightarrow> mem" where "th6 z = write32 (write32 (th6d z) 0x200068 0) 0x200040 0"

lemma th6a_fields: "hb_next (th6a z) 0x200000 = 0x200034" "hb_next (th6a z) 0x200034 = 0x200068" "hb_next (th6a z) 0x200068 = 0"
  "hb_free (th6a z) 0x200000" "hb_free (th6a z) 0x200034" "hb_free (th6a z) 0x200068"
  "hb_size (th6a z) 0x200000 = 40" "hb_size (th6a z) 0x200034 = 40" "hb_size (th6a z) 0x200068 = 0x2FFF8C" "th6a z 0x200060 = z 0x200060"
  unfolding th6a_def using th5_fields [of z] by (simp_all add: heap_eval)

lemma th6c_fields: "hb_next (th6c z) 0x200000 = 0x200068" "hb_next (th6c z) 0x200068 = 0"
  "hb_free (th6c z) 0x200000" "hb_free (th6c z) 0x200068" "hb_size (th6c z) 0x200000 = 92" "hb_size (th6c z) 0x200068 = 0x2FFF8C"
  "hb_free (th6b z) 0x20005C = (z 0x200060 \<noteq> 0)" "hb_next (th6b z) 0x200000 = 0x200068" "hb_next (th6b z) 0x200068 = 0"
  unfolding th6c_def th6b_def using th6a_fields [of z] by (simp_all add: heap_eval)

lemma th6d_fields: "hb_next (th6d z) 0x200000 = 0" "hb_free (th6d z) 0x200000" "hb_size (th6d z) 0x200000 = 0x2FFFF4"
  unfolding th6d_def using th6c_fields(1,3) [of z] by (simp_all add: frame_simps)

lemma far_write:
  "4 \<le> unat (b + 8 - a) \<Longrightarrow> 4 \<le> unat (a - (b + 8)) \<Longrightarrow> hb_next (write32 m a v) b = hb_next m b"
  "4 \<le> unat (b - a) \<Longrightarrow> 4 \<le> unat (a - b) \<Longrightarrow> hb_size (write32 m a v) b = hb_size m b"
  "4 \<le> unat (b + 4 - a) \<Longrightarrow> hb_free (write32 m a v) b = hb_free m b"
  by (simp_all add: hb_next_def hb_size_def hb_free_def read32_write32_apart write32_byte)

lemma th6_fields:
  "hb_next (write32 (th6d z) 0x200068 0) 0x200000 = 0"
  "hb_next (th6 z) 0x200000 = 0" "hb_free (th6 z) 0x200000" "hb_size (th6 z) 0x200000 = 0x2FFFF4"
  unfolding th6_def by (simp_all add: far_write th6d_fields)

text \<open>Each step of the test.\<close>

lemmas kfree_eval = kfree_def in_heap_range_def HEAP_START_def HEAP_SIZE_def Let_def

abbreviation (input) boot_heap :: "mem \<Rightarrow> heap" where "boot_heap m \<equiv> \<lparr>hmem = m, heap_head = 0x200000\<rparr>"

lemma five_steps: "5 \<le> n \<Longrightarrow> \<exists>k. n = Suc (Suc (Suc (Suc (Suc k))))"
  by (rule exI [of _ "n - 5"]) simp

lemma th_step1: "kmalloc (boot_heap (th_boot z)) 40 = Some (0x20000C, boot_heap (th1 z))"
  by (simp add: kmalloc_def th_boot_fields th1_def kmalloc_loop.simps [where current = "0x200000"])

lemma th_step2: "kmalloc (boot_heap (th1 z)) 40 = Some (0x200040, boot_heap (th2 z))"
  by (simp add: kmalloc_def th1_fields th2_def kmalloc_loop.simps [where current = "0x200000"] kmalloc_loop.simps [where current = "0x200034"])

lemma th_step4: "kmalloc (boot_heap (th3 z)) 40 = Some (0x200040, boot_heap (th4 z))"
  by (simp add: kmalloc_def th3_fields th4_def kmalloc_loop.simps [where current = "0x200000"] kmalloc_loop.simps [where current = "0x200034"])

lemma th_step3:
  assumes "5 \<le> fuel"
  shows "kfree fuel (boot_heap (th2 z)) 0x200040 = Some (boot_heap (th3 z))"
proof -
  obtain k where k: "fuel = Suc (Suc (Suc (Suc (Suc k))))" using five_steps [OF assms] by blast
  let ?m = "set_free 0x200034 True (th2 z)"
  have f: "hb_next ?m 0x200000 = 0x200034" "hb_next ?m 0x200034 = 0x200068" "hb_next ?m 0x200068 = 0"
    "\<not> hb_free ?m 0x200000" "hb_free ?m 0x200034" "hb_free ?m 0x200068" "hb_size ?m 0x200034 = 40" "hb_size ?m 0x200068 = 0x2FFF8C"
    using th2_fields [of z] by (simp_all add: heap_eval)
  have g: "hb_next (set_size 0x200034 0x2FFFC0 ?m) 0x200068 = 0" using f by (simp add: heap_eval)
  show ?thesis by (simp add: kfree_eval k th2_fields f g frame_simps th3_def)
qed

lemma th_step5:
  assumes "5 \<le> fuel"
  shows "kfree fuel (boot_heap (th4 z)) 0x20000C = Some (boot_heap (th5 z))"
proof -
  obtain k where k: "fuel = Suc (Suc (Suc (Suc (Suc k))))" using five_steps [OF assms] by blast
  let ?m = "set_free 0x200000 True (th4 z)"
  have f: "hb_next ?m 0x200000 = 0x200034" "hb_next ?m 0x200034 = 0x200068" "hb_next ?m 0x200068 = 0"
    "hb_free ?m 0x200000" "\<not> hb_free ?m 0x200034" "hb_free ?m 0x200068"
    using th4_fields(1-9) [of z] by (simp_all add: heap_eval)
  show ?thesis by (simp add: kfree_eval k th4_fields f frame_simps th5_def)
qed

lemma th_step6:
  assumes "5 \<le> fuel" and "z 0x200060 = 0"
  shows "kfree fuel (boot_heap (th5 z)) 0x200040 = Some (boot_heap (th6 z))"
proof -
  obtain k where k: "fuel = Suc (Suc (Suc (Suc (Suc k))))" using five_steps [OF assms(1)] by blast
  have b: "hb_next (set_size 0x200000 92 (th6a z)) 0x200034 = 0x200068"
    "hb_next (set_size 0x200000 0x2FFFF4 (th6c z)) 0x200068 = 0"
    using th6a_fields(2) [of z] th6c_fields(2) [of z] by (simp_all add: heap_eval)
  have inner: "kfree_fuel (Suc (Suc (Suc k))) 0x200000 (th6b z) 0x200068 = Some (write32 (th6d z) 0x200068 0)"
    using assms(2) by (simp add: kfree_eval th6c_fields th6c_def [symmetric] b frame_simps th6d_def [symmetric] th6d_fields)
  show ?thesis
    by (simp add: kfree_eval k th5_fields th6a_def [symmetric] th6a_fields b th6b_def [symmetric] th6c_fields inner th6_fields th6_def
        kfree_fuel.simps(2) [of "Suc (Suc (Suc (Suc k)))"] del: kfree_fuel.simps(2))
qed

text \<open>The heap from \<open>init\<close> on, and at the end of the test: one free block, and nothing outside changed.\<close>

lemma heap_init_is_boot: "heap_init m = boot_heap (th_boot (memset m HEAP_START 0 HEAP_SIZE))"
  by (simp add: heap_init_def th_boot_def Let_def HEAP_START_def)

lemma cleared_byte: "memset m HEAP_START 0 HEAP_SIZE 0x200060 = 0"
  by (simp add: memset_eq in_rg_def HEAP_START_def HEAP_SIZE_def)

lemma th6_inv: "heap_inv (boot_heap (th6 z)) [(HEAP_START, HEAP_SIZE - 12, True)]"
  using th6_fields [of z] by (simp add: heap_inv_def HEAP_START_def HEAP_SIZE_def)

lemma heap_rg: "in_rg x HEAP_START (unat HEAP_SIZE) \<longleftrightarrow> 0x200000 \<le> unat x \<and> unat x < 0x500000"
  by (subst in_rg_linear) (simp_all add: HEAP_START_def HEAP_SIZE_def)

lemma th6_outside:
  assumes "\<not> in_rg x HEAP_START (unat HEAP_SIZE)"
  shows "th6 (memset m HEAP_START 0 HEAP_SIZE) x = m x"
proof -
  have o: "\<not> in_rg x b 12" "\<not> in_rg x b 4" if "0x200000 \<le> unat b" "unat b + 12 \<le> 0x500000" for b
    using assms that by (auto simp: heap_rg in_rg_linear)
  have "\<not> in_rg x 0x200000 12" "\<not> in_rg x 0x200034 12" "\<not> in_rg x 0x200068 12" "\<not> in_rg x 0x20005C 12"
    "\<not> in_rg x 0x20000C 4" "\<not> in_rg x 0x200040 4" "\<not> in_rg x 0x200068 4"
    by (simp_all add: o)
  moreover have "memset m HEAP_START 0 HEAP_SIZE x = m x" using assms by (simp add: memset_eq)
  ultimately show ?thesis
    by (simp add: th6_def th6d_def th6c_def th6b_def th6a_def th_defs header_writes_local write32_other Heap.take_block_def Let_def HEAP_START_def)
qed

end
