(* ===== verification/Descriptors.thy ===== *)
theory Descriptors
  imports Prelude "HOL-Library.Monad_Syntax"
begin

text \<open>
  The tables and chips that direct interrupts: \<open>src/kernel/arch/x86/gdt.cpp\<close>, \<open>idt.cpp\<close> and
  \<open>pic.cpp\<close> of \<open>interrupts\<close>, with their headers.  Where a table or a handler lies in memory is an
  input.  What goes over the ports is recorded; the last sections say what the processor and the
  interrupt controllers make of it, after their manuals.
\<close>

section \<open>The global descriptor table\<close>

record gdt_entry =
  g_limit :: u16
  g_base_low :: u16
  g_base_middle :: u8
  g_access :: u8
  g_flags :: u8
  g_base_high :: u8

definition GDT_SEGMENT_QUANTITY :: nat where "GDT_SEGMENT_QUANTITY = 6"

text \<open>
  The task state segment as its 27 words, with the places of the ones that are set.  \<open>gdtr\<close> and
  \<open>idtr\<close> are what the two flush routines have loaded.
\<close>

type_synonym tss_entry = "u32 list"

definition TSS_esp0 :: nat where "TSS_esp0 = 1"
definition TSS_ss0 :: nat where "TSS_ss0 = 2"
definition TSS_es :: nat where "TSS_es = 18"
definition TSS_cs :: nat where "TSS_cs = 19"
definition TSS_ss :: nat where "TSS_ss = 20"
definition TSS_ds :: nat where "TSS_ds = 21"
definition TSS_fs :: nat where "TSS_fs = 22"
definition TSS_gs :: nat where "TSS_gs = 23"
definition sizeof_tss_entry :: u32 where "sizeof_tss_entry = 108"

record segments =
  gdt_entries :: "gdt_entry list"
  gdt_ptr :: "u16 \<times> u32"
  tss :: tss_entry
  gdtr :: "(u16 \<times> u32) option"

definition set_gdt_gate :: "u32 \<Rightarrow> u32 \<Rightarrow> u32 \<Rightarrow> u8 \<Rightarrow> u8 \<Rightarrow> segments \<Rightarrow> segments option" where
  "set_gdt_gate num base limit access gran s =
     (if unat num < length (gdt_entries s)
      then Some (s\<lparr>gdt_entries := (gdt_entries s)[unat num :=
        \<lparr>g_limit = ucast (limit AND 0xFFFF), g_base_low = ucast (base AND 0xFFFF),
         g_base_middle = ucast (drop_bit 16 base AND 0xFF), g_access = access,
         g_flags = ucast (drop_bit 16 limit AND 0x0F) OR (gran AND 0xF0),
         g_base_high = ucast (drop_bit 24 base AND 0xFF)\<rparr>]\<rparr>)
      else None)"

definition write_tss :: "u32 \<Rightarrow> u32 \<Rightarrow> u16 \<Rightarrow> u32 \<Rightarrow> segments \<Rightarrow> segments option" where
  "write_tss tss_addr num ss0 esp0 s =
     do {
       s1 \<leftarrow> set_gdt_gate num tss_addr (tss_addr + sizeof_tss_entry) 0xE9 0x00 s;
       Some (s1\<lparr>tss := (replicate 27 0)[TSS_ss0 := ucast ss0, TSS_esp0 := esp0, TSS_cs := 0x08 OR 0x3,
         TSS_ss := 0x10 OR 0x3, TSS_ds := 0x10 OR 0x3, TSS_es := 0x10 OR 0x3, TSS_fs := 0x10 OR 0x3, TSS_gs := 0x10 OR 0x3]\<rparr>) }"

text \<open>\<open>ds\<close> is the low byte of the data segment register after the flush; \<open>None\<close> is the panic.\<close>

definition gdt_init :: "u32 \<Rightarrow> u32 \<Rightarrow> u8 \<Rightarrow> segments \<Rightarrow> segments option" where
  "gdt_init gdt_addr tss_addr ds s =
     do {
       let s0 = s\<lparr>gdt_ptr := (8 * of_nat GDT_SEGMENT_QUANTITY - 1, gdt_addr)\<rparr>;
       s1 \<leftarrow> set_gdt_gate 0 0 0 0 0 s0;
       s2 \<leftarrow> set_gdt_gate 1 0 0xFFFFFFFF 0x9A 0xCF s1;
       s3 \<leftarrow> set_gdt_gate 2 0 0xFFFFFFFF 0x92 0xCF s2;
       s4 \<leftarrow> set_gdt_gate 3 0 0xFFFFFFFF 0xFA 0xCF s3;
       s5 \<leftarrow> set_gdt_gate 4 0 0xFFFFFFFF 0xF2 0xCF s4;
       s6 \<leftarrow> write_tss tss_addr 5 0x10 0x0 s5;
       let s7 = s6\<lparr>gdtr := Some (gdt_ptr s6)\<rparr>;
       if ds \<noteq> 0x10 then None else Some s7 }"

section \<open>Ports of the interrupt controllers\<close>

datatype port_event = Out u16 u8 | In u16

definition PIC_MASTER_COMMAND :: u16 where "PIC_MASTER_COMMAND = 0x20"
definition PIC_MASTER_DATA :: u16 where "PIC_MASTER_DATA = 0x21"
definition PIC_SLAVE_COMMAND :: u16 where "PIC_SLAVE_COMMAND = 0xA0"
definition PIC_SLAVE_DATA :: u16 where "PIC_SLAVE_DATA = 0xA1"
definition ICW1_INIT :: u8 where "ICW1_INIT = 0x11"
definition ICW4_8086 :: u8 where "ICW4_8086 = 0x01"
definition EOI :: u8 where "EOI = 0x20"

definition IDT_SIZE :: nat where "IDT_SIZE = 256"
definition IRQ_QUANTITY :: nat where "IRQ_QUANTITY = 16"

record idt_entry =
  i_offset_1 :: u16
  i_selector :: u16
  i_zero :: u8
  i_gate_attributes :: u8
  i_offset_2 :: u16

record interrupts =
  idt_entries :: "idt_entry list"
  idt_ptr :: "u16 \<times> u32"
  idtr :: "(u16 \<times> u32) option"
  irq_routines :: "u32 list"
  ports :: "port_event list"

definition outPortB :: "u16 \<Rightarrow> u8 \<Rightarrow> 'a interrupts_scheme \<Rightarrow> 'a interrupts_scheme" where
  "outPortB p v s = s\<lparr>ports := ports s @ [Out p v]\<rparr>"

definition inPortB :: "u16 \<Rightarrow> 'a interrupts_scheme \<Rightarrow> 'a interrupts_scheme" where
  "inPortB p s = s\<lparr>ports := ports s @ [In p]\<rparr>"

definition send_eoi :: "u8 \<Rightarrow> 'a interrupts_scheme \<Rightarrow> 'a interrupts_scheme" where
  "send_eoi irq s =
     outPortB PIC_MASTER_COMMAND EOI (if 8 \<le> irq then outPortB PIC_SLAVE_COMMAND EOI s else s)"

text \<open>\<open>value\<close> is what the port gives.\<close>

definition unmask_irq :: "u8 \<Rightarrow> u8 \<Rightarrow> 'a interrupts_scheme \<Rightarrow> 'a interrupts_scheme" where
  "unmask_irq value irq s =
     (let port = (if irq < 8 then PIC_MASTER_DATA else PIC_SLAVE_DATA)
      in outPortB port (value AND NOT (push_bit (unat (irq mod 8)) 1)) (inPortB port s))"

section \<open>The interrupt descriptor table\<close>

definition no_gate :: idt_entry where
  "no_gate = \<lparr>i_offset_1 = 0, i_selector = 0, i_zero = 0, i_gate_attributes = 0, i_offset_2 = 0\<rparr>"

definition idt_gate :: "u32 \<Rightarrow> u16 \<Rightarrow> u8 \<Rightarrow> idt_entry" where
  "idt_gate base selector flags =
     \<lparr>i_offset_1 = ucast (base AND 0xFFFF), i_selector = selector, i_zero = 0, i_gate_attributes = flags OR 0x60,
      i_offset_2 = ucast (drop_bit 16 base AND 0xFFFF)\<rparr>"

definition set_idt_gate :: "u8 \<Rightarrow> u32 \<Rightarrow> u16 \<Rightarrow> u8 \<Rightarrow> 'a interrupts_scheme \<Rightarrow> 'a interrupts_scheme" where
  "set_idt_gate num base selector flags s =
     s\<lparr>idt_entries := (idt_entries s)[unat num := idt_gate base selector flags]\<rparr>"

text \<open>The table of handlers has 16 places; an index outside it is \<open>None\<close>.\<close>

definition irq_install_handler :: "int \<Rightarrow> u32 \<Rightarrow> 'a interrupts_scheme \<Rightarrow> 'a interrupts_scheme option" where
  "irq_install_handler irq_num handler s =
     (if 0 \<le> irq_num \<and> nat irq_num < length (irq_routines s)
      then Some (s\<lparr>irq_routines := (irq_routines s)[nat irq_num := handler]\<rparr>) else None)"

definition irq_uninstall_handler :: "int \<Rightarrow> 'a interrupts_scheme \<Rightarrow> 'a interrupts_scheme option" where
  "irq_uninstall_handler irq_num s = irq_install_handler irq_num 0 s"

definition check_irq :: "int \<Rightarrow> u32 \<Rightarrow> 'a interrupts_scheme \<Rightarrow> bool option" where
  "check_irq irq_num handler s =
     (if 0 \<le> irq_num \<and> nat irq_num < length (irq_routines s) then Some (irq_routines s ! nat irq_num = handler) else None)"

text \<open>The stubs in the order \<open>init\<close> sets them, with the vector of each; \<open>isr\<close> and \<open>irq\<close> are their addresses.\<close>

definition stubs :: "(nat \<Rightarrow> u32) \<Rightarrow> (nat \<Rightarrow> u32) \<Rightarrow> (u8 \<times> u32) list" where
  "stubs isr irq =
     map (\<lambda>n. (of_nat n, isr n)) ([0..<32] @ [128, 177]) @ map (\<lambda>n. (of_nat (32 + n), irq n)) [0..<16]"

definition remap_pic :: "'a interrupts_scheme \<Rightarrow> 'a interrupts_scheme" where
  "remap_pic s =
     fold (\<lambda>(p, v). outPortB p v)
       [(PIC_MASTER_COMMAND, ICW1_INIT), (PIC_SLAVE_COMMAND, ICW1_INIT), (PIC_MASTER_DATA, 0x20), (PIC_SLAVE_DATA, 0x28),
        (PIC_MASTER_DATA, 0x04), (PIC_SLAVE_DATA, 0x02), (PIC_MASTER_DATA, ICW4_8086), (PIC_SLAVE_DATA, ICW4_8086),
        (PIC_MASTER_DATA, 0x0), (PIC_SLAVE_DATA, 0x0)] s"

fun install_all :: "u32 \<Rightarrow> nat list \<Rightarrow> 'a interrupts_scheme \<Rightarrow> 'a interrupts_scheme option" where
  "install_all h [] s = Some s"
| "install_all h (i # is) s = do { s1 \<leftarrow> irq_install_handler (int i) h s; install_all h is s1 }"

definition idt_init :: "u32 \<Rightarrow> (nat \<Rightarrow> u32) \<Rightarrow> (nat \<Rightarrow> u32) \<Rightarrow> u32 \<Rightarrow> 'a interrupts_scheme \<Rightarrow> 'a interrupts_scheme option" where
  "idt_init idt_addr isr irq dummy s =
     do {
       let s1 = remap_pic (s\<lparr>idt_ptr := (8 * 256 - 1, idt_addr), idt_entries := replicate IDT_SIZE no_gate\<rparr>);
       let s2 = fold (\<lambda>(n, a). set_idt_gate n a 0x08 0x8E) (stubs isr irq) s1;
       let s3 = s2\<lparr>idtr := Some (idt_ptr s2)\<rparr>;
       s4 \<leftarrow> install_all dummy [0..<IRQ_QUANTITY] s3;
       if i_selector (idt_entries s4 ! 0) \<noteq> 0x8 then None else Some s4 }"

section \<open>Interrupt requests\<close>

record InterruptRegisters =
  r_cr2 :: u32
  r_ds :: u32
  r_edi :: u32
  r_esi :: u32
  r_ebp :: u32
  r_manual_esp :: u32
  r_ebx :: u32
  r_edx :: u32
  r_ecx :: u32
  r_eax :: u32
  r_interr_no :: u32
  r_err_code :: u32
  r_eip :: u32
  r_cs :: u32
  r_eflags :: u32
  r_esp :: u32
  r_ss :: u32

definition dummy_irq_stub :: "InterruptRegisters \<Rightarrow> 'a interrupts_scheme \<Rightarrow> 'a interrupts_scheme" where
  "dummy_irq_stub regs s =
     send_eoi (ucast (r_interr_no regs)) (if r_interr_no regs = 33 then inPortB 0x60 s else s)"

text \<open>\<open>run\<close> is the code at an address; the index is an unsigned difference.\<close>

definition irq_handler ::
  "(u32 \<Rightarrow> InterruptRegisters \<Rightarrow> 'a interrupts_scheme \<Rightarrow> 'a interrupts_scheme option) \<Rightarrow> InterruptRegisters \<Rightarrow>
    'a interrupts_scheme \<Rightarrow> 'a interrupts_scheme option" where
  "irq_handler run regs s =
     (let i = unat (r_interr_no regs - 32)
      in if length (irq_routines s) \<le> i then None
         else
           let handler = irq_routines s ! i
           in do {
             s1 \<leftarrow> (if handler \<noteq> 0 then run handler regs s else Some s);
             Some (send_eoi (ucast (r_interr_no regs)) s1) })"

text \<open>What \<open>isr_handler\<close> panics with; \<open>None\<close> when it returns.\<close>

definition exception_messages :: "string list" where
  "exception_messages =
     [''Devide Error (#DE)'', ''Debug Exception (#DB)'', ''NMI Interrupt'', ''Breakpoint (#BP)'', ''Overflow (#OF)'',
      ''BOUND Range Exceeded (#BR)'', ''Invalid Opcode (Undefined Opcode) (#UD)'',
      ''Device Not Available (No Math Coprocessor) (#NM)'', ''Double Fault (#DF)'', ''Coprocessor Segment Overrun'',
      ''Invalid TSS (#TS)'', ''Segment Not Present (#NP)'', ''Stack-Segment Fault (#SS)'', ''General Protection (#GP)'',
      ''Page Fault (#PF)'', ''Reserved'', ''x87 FPU Floating-Point Error (Math Fault) (#MF)'', ''Alignment Check (#AC)'',
      ''Machine Check (#MC)'', ''SIMD Floating-Point Exception (#XM)'', ''Virtualization Exception (#VE)'',
      ''Control Protection Exception (#CP)'', ''Reserved'', ''Reserved'', ''Reserved'', ''Reserved'', ''Reserved'',
      ''Reserved'', ''Reserved'', ''Reserved'', ''Reserved'', ''Reserved'']"

definition isr_handler :: "InterruptRegisters \<Rightarrow> (string \<times> InterruptRegisters) option" where
  "isr_handler regs =
     (if r_interr_no regs < 32 then Some (exception_messages ! unat (r_interr_no regs), regs) else None)"

section \<open>What the processor reads\<close>

text \<open>A segment descriptor: base, limit in bytes, and the fields of the access byte.\<close>

definition seg_base :: "gdt_entry \<Rightarrow> u32" where
  "seg_base e = ucast (g_base_low e) OR push_bit 16 (ucast (g_base_middle e)) OR push_bit 24 (ucast (g_base_high e))"

definition seg_limit_field :: "gdt_entry \<Rightarrow> u32" where
  "seg_limit_field e = ucast (g_limit e) OR push_bit 16 (ucast (g_flags e AND 0x0F))"

definition seg_last :: "gdt_entry \<Rightarrow> u32" where
  "seg_last e = (if bit (g_flags e) 7 then push_bit 12 (seg_limit_field e) OR 0xFFF else seg_limit_field e)"

definition gate_present :: "u8 \<Rightarrow> bool" where "gate_present a = bit a 7"
definition privilege :: "u8 \<Rightarrow> nat" where "privilege a = unat (drop_bit 5 a AND 3)"
definition is_code :: "u8 \<Rightarrow> bool" where "is_code a = (bit a 4 \<and> bit a 3)"
definition is_data :: "u8 \<Rightarrow> bool" where "is_data a = (bit a 4 \<and> \<not> bit a 3)"

definition gate_offset :: "idt_entry \<Rightarrow> u32" where
  "gate_offset e = ucast (i_offset_1 e) OR push_bit 16 (ucast (i_offset_2 e))"

definition interrupt_gate :: "idt_entry \<Rightarrow> bool" where
  "interrupt_gate e \<longleftrightarrow> gate_present (i_gate_attributes e) \<and> i_gate_attributes e AND 0x1F = 0x0E"

section \<open>What an interrupt controller makes of its ports\<close>

text \<open>
  An 8259A takes two to four initialisation words after the first command, the vector of its lines
  the first of them; afterwards its data port is the mask, and the command \<open>EOI\<close> ends the interrupt
  of highest priority that is being served, the lowest of the bits.
\<close>

record pic8259 =
  pic_expects :: nat
  pic_vector :: u8
  pic_cascade :: u8
  pic_mode :: u8
  pic_mask :: u8
  pic_serving :: u8

definition pic_command :: "u8 \<Rightarrow> pic8259 \<Rightarrow> pic8259" where
  "pic_command v c =
     (if bit v 4 then c\<lparr>pic_expects := 2, pic_mask := 0, pic_serving := 0\<rparr>
      else if v = 0x20 then c\<lparr>pic_serving := pic_serving c AND (pic_serving c - 1)\<rparr>
      else c)"

definition pic_data :: "u8 \<Rightarrow> pic8259 \<Rightarrow> pic8259" where
  "pic_data v c =
     (if pic_expects c = 2 then c\<lparr>pic_vector := v AND 0xF8, pic_expects := 3\<rparr>
      else if pic_expects c = 3 then c\<lparr>pic_cascade := v, pic_expects := 4\<rparr>
      else if pic_expects c = 4 then c\<lparr>pic_mode := v, pic_expects := 0\<rparr>
      else c\<lparr>pic_mask := v\<rparr>)"

fun pics_step :: "port_event \<Rightarrow> pic8259 \<times> pic8259 \<Rightarrow> pic8259 \<times> pic8259" where
  "pics_step (Out p v) (m, s) =
     (if p = 0x20 then (pic_command v m, s) else if p = 0x21 then (pic_data v m, s)
      else if p = 0xA0 then (m, pic_command v s) else if p = 0xA1 then (m, pic_data v s) else (m, s))"
| "pics_step (In p) c = c"

definition pics :: "port_event list \<Rightarrow> pic8259 \<times> pic8259 \<Rightarrow> pic8259 \<times> pic8259" where
  "pics es c = fold pics_step es c"

text \<open>The vector the processor gets for one of the sixteen lines.\<close>

definition vector_of :: "pic8259 \<times> pic8259 \<Rightarrow> nat \<Rightarrow> u8" where
  "vector_of c n = (if n < 8 then pic_vector (fst c) OR of_nat n else pic_vector (snd c) OR of_nat (n - 8))"

section \<open>Segments\<close>

lemma low_masks:
  "(0x0F :: u8) = mask 4" "(0xF0 :: u8) = push_bit 4 (mask 4)" "(0x0F :: u32) = mask 4" "(0xFF :: u32) = mask 8"
  "(0xFFFF :: u32) = mask 16" "(0xFFFFF :: u32) = mask 20"
  by (simp_all add: mask_eq_exp_minus_1 push_bit_eq_mult)

lemma low_half: "(ucast (x AND 0xFFFF) :: u16) = ucast (x :: u32)"
  unfolding low_masks by (rule bit_word_eqI) (auto simp: bit_simps)

lemma low_byte: "(ucast (x AND 0xFF) :: u8) = ucast (x :: u32)"
  unfolding low_masks by (rule bit_word_eqI) (auto simp: bit_simps)

lemma byte_fields:
  "(ucast (ucast (b :: u32) :: u16) :: u32) OR push_bit 16 (ucast (ucast (drop_bit 16 b) :: u8)) OR push_bit 24 (ucast (ucast (drop_bit 24 b) :: u8)) = b"
proof (rule bit_eqI)
  fix n
  assume "possible_bit TYPE(32 word) n"
  then have n: "n < 32" by simp
  have r: "(x - k) + k = x" if "k \<le> x" for x k :: nat using that by simp
  consider "n < 16" | "16 \<le> n" "n < 24" | "24 \<le> n" by linarith
  then show "bit ((ucast (ucast (b :: u32) :: u16) :: u32) OR push_bit 16 (ucast (ucast (drop_bit 16 b) :: u8)) OR push_bit 24 (ucast (ucast (drop_bit 24 b) :: u8))) n = bit b n"
    using n by cases (auto simp: bit_simps r)
qed

lemma halves_of_word: "(ucast (ucast (b :: u32) :: u16) :: u32) OR push_bit 16 (ucast (ucast (drop_bit 16 b) :: u16)) = b"
proof (rule bit_eqI)
  fix n
  assume "possible_bit TYPE(32 word) n"
  then have n: "n < 32" by simp
  have r: "(x - k) + k = x" if "k \<le> x" for x k :: nat using that by simp
  show "bit ((ucast (ucast (b :: u32) :: u16) :: u32) OR push_bit 16 (ucast (ucast (drop_bit 16 b) :: u16))) n = bit b n"
    using n by (cases "n < 16") (auto simp: bit_simps r)
qed

lemma limit_field:
  "ucast (ucast (l :: u32) :: u16) OR push_bit 16 (ucast ((ucast (drop_bit 16 l AND 0x0F) OR (g AND 0xF0)) AND 0x0F :: u8)) = l AND 0xFFFFF"
  unfolding low_masks
proof (rule bit_eqI)
  fix n
  assume "possible_bit TYPE(32 word) n"
  then have n: "n < 32" by simp
  have r: "(x - k) + k = x" if "k \<le> x" for x k :: nat using that by simp
  show "bit (ucast (ucast (l :: u32) :: u16) OR push_bit 16 (ucast ((ucast (drop_bit 16 l AND mask 4) OR (g AND push_bit 4 (mask 4))) AND mask 4 :: u8)) :: u32) n
      = bit (l AND mask 20) n"
    using n by (cases "n < 16") (auto simp: bit_simps r)
qed

definition gate_of :: "u32 \<Rightarrow> u32 \<Rightarrow> u8 \<Rightarrow> u8 \<Rightarrow> gdt_entry" where
  "gate_of base limit access gran =
     \<lparr>g_limit = ucast (limit AND 0xFFFF), g_base_low = ucast (base AND 0xFFFF),
      g_base_middle = ucast (drop_bit 16 base AND 0xFF), g_access = access,
      g_flags = ucast (drop_bit 16 limit AND 0x0F) OR (gran AND 0xF0), g_base_high = ucast (drop_bit 24 base AND 0xFF)\<rparr>"

lemma gate_of_fields:
  "seg_base (gate_of base limit access gran) = base"
  "seg_limit_field (gate_of base limit access gran) = limit AND 0xFFFFF"
  "g_access (gate_of base limit access gran) = access"
  "bit (g_flags (gate_of base limit access gran)) 7 = bit gran 7"
proof -
  show "bit (g_flags (gate_of base limit access gran)) 7 = bit gran 7"
    unfolding gate_of_def low_masks by (simp add: bit_simps)
  show "seg_base (gate_of base limit access gran) = base"
    using byte_fields [of base] by (simp add: gate_of_def seg_base_def low_half low_byte)
  show "seg_limit_field (gate_of base limit access gran) = limit AND 0xFFFFF"
    using limit_field [of limit gran] by (simp add: gate_of_def seg_limit_field_def low_half)
  show "g_access (gate_of base limit access gran) = access" by (simp add: gate_of_def)
qed

lemma seg_last_flat:
  assumes "bit gran 7"
  shows "seg_last (gate_of 0 0xFFFFFFFF access gran) = 0xFFFFFFFF"
  using assms by (simp add: seg_last_def gate_of_fields)

lemma access_bytes:
  "\<not> gate_present 0" "gate_present 0x9A" "gate_present 0x92" "gate_present 0xFA" "gate_present 0xF2"
  "is_code 0x9A" "is_data 0x92" "is_code 0xFA" "is_data 0xF2"
  "privilege 0x9A = 0" "privilege 0x92 = 0" "privilege 0xFA = 3" "privilege 0xF2 = 3" "bit (0xCF :: u8) 7"
  by code_simp+

lemmas TSS_places = TSS_esp0_def TSS_ss0_def TSS_es_def TSS_cs_def TSS_ss_def TSS_ds_def TSS_fs_def TSS_gs_def

text \<open>
  The segments after \<open>gdt::init\<close>, as the processor reads them.  The four segments of code and
  data are present, start at 0 and end at the last byte of the address space, the kernel's two at
  privilege 0 and the users' at 3; the first descriptor is null.  The descriptor of the task state
  has its address; its limit is not the size of the segment but the low 20 bits of the address
  behind it.
\<close>

lemma segments_are_flat:
  assumes "length (gdt_entries s) = GDT_SEGMENT_QUANTITY"
  shows "\<exists>s' null kcode kdata ucode udata task. gdt_init gdt_addr tss_addr 0x10 s = Some s'
    \<and> gdt_entries s' = [null, kcode, kdata, ucode, udata, task] \<and> gdtr s' = Some (47, gdt_addr)
    \<and> seg_base null = 0 \<and> seg_limit_field null = 0 \<and> \<not> gate_present (g_access null)
    \<and> (\<forall>e \<in> {kcode, kdata, ucode, udata}. seg_base e = 0 \<and> seg_last e = 0xFFFFFFFF \<and> gate_present (g_access e))
    \<and> is_code (g_access kcode) \<and> privilege (g_access kcode) = 0 \<and> is_data (g_access kdata) \<and> privilege (g_access kdata) = 0
    \<and> is_code (g_access ucode) \<and> privilege (g_access ucode) = 3 \<and> is_data (g_access udata) \<and> privilege (g_access udata) = 3
    \<and> seg_base task = tss_addr \<and> seg_limit_field task = (tss_addr + 108) AND 0xFFFFF
    \<and> tss s' ! TSS_ss0 = 0x10 \<and> tss s' ! TSS_esp0 = 0 \<and> tss s' ! TSS_cs = 0x0B \<and> tss s' ! TSS_ds = 0x13"
proof -
  have l: "length (gdt_entries s) = 6" using assms by (simp add: GDT_SEGMENT_QUANTITY_def)
  obtain a0 a1 a2 a3 a4 a5 where es: "gdt_entries s = [a0, a1, a2, a3, a4, a5]"
    using l by (auto simp: length_Suc_conv numeral_eq_Suc)
  have set: "set_gdt_gate num b lim a g t = Some (t\<lparr>gdt_entries := (gdt_entries t)[unat num := gate_of b lim a g]\<rparr>)"
    if "unat num < length (gdt_entries t)" for num b lim a g t
    using that by (simp add: set_gdt_gate_def gate_of_def)
  show ?thesis
    by (simp add: gdt_init_def write_tss_def set es GDT_SEGMENT_QUANTITY_def gate_of_fields seg_last_flat access_bytes
        sizeof_tss_entry_def TSS_places nth_list_update)
qed

lemma segments_are_flat_witness:
  "\<exists>s'. gdt_init 0x1000 0x20000 0x10 \<lparr>gdt_entries = replicate 6 (gate_of 7 7 7 7), gdt_ptr = (0, 0), tss = [], gdtr = None\<rparr> = Some s'
    \<and> gdtr s' = Some (47, 0x1000)"
  using segments_are_flat [where s = "\<lparr>gdt_entries = replicate 6 (gate_of 7 7 7 7), gdt_ptr = (0, 0), tss = [], gdtr = None\<rparr>"
      and gdt_addr = "0x1000" and tss_addr = "0x20000"]
  by (auto simp: GDT_SEGMENT_QUANTITY_def)

section \<open>From a line to its handler\<close>

lemma set_gates_frame:
  "length (idt_entries (fold (\<lambda>(n, a). set_idt_gate n a sel fl) xs s)) = length (idt_entries s)"
  "ports (fold (\<lambda>(n, a). set_idt_gate n a sel fl) xs s) = ports s"
  "irq_routines (fold (\<lambda>(n, a). set_idt_gate n a sel fl) xs s) = irq_routines s"
  "idt_ptr (fold (\<lambda>(n, a). set_idt_gate n a sel fl) xs s) = idt_ptr s"
  by (induction xs arbitrary: s) (auto simp: set_idt_gate_def)

lemma set_gates_other:
  assumes "n \<notin> fst ` set xs"
  shows "idt_entries (fold (\<lambda>(n, a). set_idt_gate n a sel fl) xs s) ! unat n = idt_entries s ! unat n"
  using assms
proof (induction xs arbitrary: s)
  case (Cons x xs)
  obtain k a where x: "x = (k, a)" by (cases x)
  have "unat k \<noteq> unat n" using Cons.prems by (auto simp: x word_unat_eq_iff)
  then show ?case using Cons by (simp add: x set_idt_gate_def)
qed simp

lemma set_gates_at:
  assumes "distinct (map fst xs)" "(n, a) \<in> set xs" "unat n < length (idt_entries s)"
  shows "idt_entries (fold (\<lambda>(n, a). set_idt_gate n a sel fl) xs s) ! unat n = idt_gate a sel fl"
  using assms
proof (induction xs arbitrary: s)
  case (Cons x xs)
  show ?case
  proof (cases "x = (n, a)")
    case True
    then have n: "n \<notin> fst ` set xs" using Cons.prems by auto
    show ?thesis using True Cons.prems set_gates_other [OF n, of sel fl "set_idt_gate n a sel fl s"]
      by simp (simp add: set_idt_gate_def)
  next
    case False
    then have "(n, a) \<in> set xs" "distinct (map fst xs)" using Cons.prems by auto
    then show ?thesis using Cons.IH Cons.prems by (cases x) (simp add: set_idt_gate_def)
  qed
qed simp

lemma stubs_distinct: "distinct (map fst (stubs isr irq))"
proof -
  have "map fst (stubs isr irq) = map of_nat ([0..<32] @ [128, 177] @ map ((+) 32) [0..<16])"
    by (simp add: stubs_def)
  moreover have "distinct (map of_nat ([0..<32] @ [128, 177] @ map ((+) 32) [0..<16]) :: u8 list)"
    by code_simp
  ultimately show ?thesis by simp
qed

lemma install_all_ok:
  assumes "\<forall>i \<in> set is. i < length (irq_routines s)"
  shows "\<exists>t. install_all h is s = Some t \<and> length (irq_routines t) = length (irq_routines s)
    \<and> idt_entries t = idt_entries s \<and> ports t = ports s \<and> idtr t = idtr s"
  using assms
proof (induction "is" arbitrary: s)
  case (Cons i js)
  define t where "t = s\<lparr>irq_routines := (irq_routines s)[i := h]\<rparr>"
  have "irq_install_handler (int i) h s = Some t" using Cons.prems by (simp add: irq_install_handler_def t_def)
  moreover have "\<forall>j \<in> set js. j < length (irq_routines t)" using Cons.prems by (simp add: t_def)
  ultimately show ?case using Cons.IH [of t] by (simp add: t_def)
qed simp

lemma remap_ports:
  "ports (remap_pic s) = ports s @ [Out 0x20 0x11, Out 0xA0 0x11, Out 0x21 0x20, Out 0xA1 0x28, Out 0x21 0x04,
     Out 0xA1 0x02, Out 0x21 0x01, Out 0xA1 0x01, Out 0x21 0, Out 0xA1 0]"
  "idt_entries (remap_pic s) = idt_entries s" "irq_routines (remap_pic s) = irq_routines s"
  "idt_ptr (remap_pic s) = idt_ptr s"
  by (simp_all add: remap_pic_def outPortB_def PIC_MASTER_COMMAND_def PIC_MASTER_DATA_def PIC_SLAVE_COMMAND_def
      PIC_SLAVE_DATA_def ICW1_INIT_def ICW4_8086_def)

definition remapped :: "pic8259 \<times> pic8259" where
  "remapped =
     (\<lparr>pic_expects = 0, pic_vector = 0x20, pic_cascade = 4, pic_mode = 1, pic_mask = 0, pic_serving = 0\<rparr>,
      \<lparr>pic_expects = 0, pic_vector = 0x28, pic_cascade = 2, pic_mode = 1, pic_mask = 0, pic_serving = 0\<rparr>)"

lemma pics_remapped: "pics (ports (remap_pic s)) c = remapped"
proof -
  have b: "bit (0x11 :: u8) 4" by code_simp
  obtain m l where "pics (ports s) c = (m, l)" by fastforce
  then have "fold pics_step (ports s) c = (m, l)" by (simp add: pics_def)
  moreover obtain e v a d k r where "m = \<lparr>pic_expects = e, pic_vector = v, pic_cascade = a, pic_mode = d, pic_mask = k, pic_serving = r\<rparr>"
    by (cases m)
  moreover obtain e' v' a' d' k' r' where "l = \<lparr>pic_expects = e', pic_vector = v', pic_cascade = a', pic_mode = d', pic_mask = k', pic_serving = r'\<rparr>"
    by (cases l)
  ultimately show ?thesis
    unfolding pics_def remap_ports fold_append by (simp add: pic_command_def pic_data_def b remapped_def)
qed

lemma remapped_vectors:
  assumes "n < 16"
  shows "vector_of remapped n = of_nat (32 + n)"
proof -
  have "\<forall>n \<in> set [0..<16]. vector_of remapped n = of_nat (32 + n)" by code_simp
  then show ?thesis using assms by simp
qed

lemma gate_halves: "gate_offset (idt_gate base sel fl) = base"
proof -
  have d: "(ucast (x AND 0xFFFF) :: u16) = ucast (x :: u32)" for x by (rule low_half)
  show ?thesis using halves_of_word [of base] by (simp add: gate_offset_def idt_gate_def d)
qed

lemma gate_attributes:
  "interrupt_gate (idt_gate base sel 0x8E)" "privilege (i_gate_attributes (idt_gate base sel 0x8E)) = 3"
proof -
  have "gate_present (0xEE :: u8)" "(0xEE :: u8) AND 0x1F = 0x0E" "privilege 0xEE = 3" "(0x8E :: u8) OR 0x60 = 0xEE"
    by code_simp+
  then show "interrupt_gate (idt_gate base sel 0x8E)" "privilege (i_gate_attributes (idt_gate base sel 0x8E)) = 3"
    by (simp_all add: interrupt_gate_def idt_gate_def)
qed

lemma byte_range: "unat (n :: u8) < 256"
  using unsigned_less [of n] by simp

lemma idt_after_init:
  assumes "length (irq_routines s) = IRQ_QUANTITY"
  shows "\<exists>t. idt_init idt_addr isr irq dummy s = Some t \<and> length (irq_routines t) = IRQ_QUANTITY
    \<and> ports t = ports (remap_pic s) \<and> idtr t = Some (2047, idt_addr)
    \<and> (\<forall>n a. (n, a) \<in> set (stubs isr irq) \<longrightarrow> idt_entries t ! unat n = idt_gate a 0x08 0x8E)"
proof -
  define s1 where "s1 = remap_pic (s\<lparr>idt_ptr := (8 * 256 - 1, idt_addr), idt_entries := replicate IDT_SIZE no_gate\<rparr>)"
  define s2 where "s2 = fold (\<lambda>(n, a). set_idt_gate n a 0x08 0x8E) (stubs isr irq) s1"
  define s3 where "s3 = s2\<lparr>idtr := Some (idt_ptr s2)\<rparr>"
  have l: "length (idt_entries s1) = 256" by (simp add: s1_def remap_ports IDT_SIZE_def)
  have r: "irq_routines s3 = irq_routines s" by (simp add: s3_def s2_def s1_def set_gates_frame remap_ports)
  have at: "idt_entries s3 ! unat n = idt_gate a 0x08 0x8E" if "(n, a) \<in> set (stubs isr irq)" for n a
    using set_gates_at [OF stubs_distinct that, of s1] l byte_range [of n] by (simp add: s3_def s2_def)
  have i: "\<forall>i \<in> set [0..<IRQ_QUANTITY]. i < length (irq_routines s3)" using assms r by simp
  obtain t where t: "install_all dummy [0..<IRQ_QUANTITY] s3 = Some t" "length (irq_routines t) = length (irq_routines s3)"
    "idt_entries t = idt_entries s3" "ports t = ports s3" "idtr t = idtr s3"
    using install_all_ok [OF i, of dummy] by blast
  have "(0, isr 0) \<in> set (stubs isr irq)" by (auto simp: stubs_def intro!: image_eqI [of _ _ 0])
  from at [OF this] have z: "i_selector (idt_entries t ! 0) = 8" by (simp add: t idt_gate_def)
  have p: "ports s3 = ports (remap_pic s)" by (simp add: s3_def s2_def s1_def set_gates_frame remap_ports)
  have "idtr s3 = Some (2047, idt_addr)" by (simp add: s3_def s2_def s1_def set_gates_frame remap_ports)
  moreover have "idt_init idt_addr isr irq dummy s = Some t"
    unfolding idt_init_def Let_def s1_def [symmetric] s2_def [symmetric] s3_def [symmetric] using t z by simp
  ultimately show ?thesis using t assms r at p by (intro exI [of _ t]) simp
qed

text \<open>
  C18: an interrupt line reaches the handler installed for it.  After \<open>idt::init\<close> the two
  controllers, whatever they held, give line \<open>n\<close> the vector \<open>32 + n\<close> and mask nothing; the table
  has at that vector a present interrupt gate to the stub \<open>irq n\<close> in the kernel's code segment;
  and \<open>irq_handler\<close>, called with that number after \<open>irq_install_handler\<close>, runs the handler and then
  ends the interrupt at both controllers, the second one for every line.
\<close>

theorem irq_reaches_handler:
  assumes "length (irq_routines s) = IRQ_QUANTITY" and "n < 16" and "h \<noteq> 0"
    and "r_interr_no regs = of_nat (32 + n)"
    and "\<And>t. run h regs t = Some (f t)"
  shows "\<exists>s1 s2. idt_init idt_addr isr irq dummy s = Some s1 \<and> irq_install_handler (int n) h s1 = Some s2
    \<and> vector_of (pics (ports s2) c) n = of_nat (32 + n) \<and> pic_mask (fst (pics (ports s2) c)) = 0
    \<and> pic_mask (snd (pics (ports s2) c)) = 0 \<and> interrupt_gate (idt_entries s2 ! (32 + n))
    \<and> gate_offset (idt_entries s2 ! (32 + n)) = irq n \<and> i_selector (idt_entries s2 ! (32 + n)) = 8
    \<and> irq_handler run regs s2 = Some ((f s2)\<lparr>ports := ports (f s2) @ [Out 0xA0 0x20, Out 0x20 0x20]\<rparr>)"
proof -
  obtain s1 where s1: "idt_init idt_addr isr irq dummy s = Some s1" "length (irq_routines s1) = IRQ_QUANTITY"
      "ports s1 = ports (remap_pic s)"
    and g: "\<And>n a. (n, a) \<in> set (stubs isr irq) \<Longrightarrow> idt_entries s1 ! unat n = idt_gate a 0x08 0x8E"
    using idt_after_init [OF assms(1), of idt_addr isr irq dummy] by blast
  define s2 where "s2 = s1\<lparr>irq_routines := (irq_routines s1)[n := h]\<rparr>"
  have i: "irq_install_handler (int n) h s1 = Some s2"
    using assms(2) s1(2) by (simp add: irq_install_handler_def s2_def IRQ_QUANTITY_def)
  have u: "unat (of_nat (32 + n) :: u8) = 32 + n" "unat (of_nat (32 + n) :: u32) = 32 + n"
    using assms(2) by (simp_all only: unat_of_nat) simp_all
  have "(of_nat (32 + n), irq n) \<in> set (stubs isr irq)" using assms(2) by (auto simp: stubs_def)
  from g [OF this, unfolded u] have e: "idt_entries s2 ! (32 + n) = idt_gate (irq n) 0x08 0x8E" by (simp add: s2_def)
  have p: "pics (ports s2) c = remapped" by (simp add: s2_def s1 pics_remapped)
  have k: "r_interr_no regs - 32 = of_nat n" using assms(4) by simp
  have un: "unat (of_nat n :: u32) = n" using assms(2) by (simp add: unat_of_nat)
  have big: "(8 :: u8) \<le> ucast (r_interr_no regs)"
    using assms(2) u by (simp add: assms(4) word_le_nat_alt unsigned_ucast_eq take_bit_eq_mod unat_of_nat)
  have "irq_handler run regs s2 = Some ((f s2)\<lparr>ports := ports (f s2) @ [Out 0xA0 0x20, Out 0x20 0x20]\<rparr>)"
    using assms(2,3,5) s1(2) big
    by (simp add: irq_handler_def k un s2_def IRQ_QUANTITY_def send_eoi_def outPortB_def PIC_MASTER_COMMAND_def
        PIC_SLAVE_COMMAND_def EOI_def)
  then show ?thesis
    using s1(1) i e p gate_attributes(1) [of "irq n" 8] remapped_vectors [OF assms(2)] gate_halves [of "irq n" 8 "0x8E"]
    by (intro exI [of _ s1] exI [of _ s2]) (simp add: remapped_def idt_gate_def)
qed

theorem irq_reaches_handler_witness:
  "\<exists>s1 s2. idt_init 0x5000 of_nat (\<lambda>n. 0x100 + of_nat n) 0x300
      \<lparr>idt_entries = [], idt_ptr = (0, 0), idtr = None, irq_routines = replicate 16 0, ports = []\<rparr> = Some s1
    \<and> irq_install_handler 1 0x777 s1 = Some s2 \<and> vector_of (pics (ports s2) remapped) 1 = 33
    \<and> gate_offset (idt_entries s2 ! 33) = 0x101"
proof -
  let ?regs = "\<lparr>r_cr2 = 0, r_ds = 16, r_edi = 0, r_esi = 0, r_ebp = 0, r_manual_esp = 0, r_ebx = 0, r_edx = 0, r_ecx = 0,
    r_eax = 0, r_interr_no = 33, r_err_code = 0, r_eip = 0, r_cs = 8, r_eflags = 0, r_esp = 0, r_ss = 16\<rparr>"
  show ?thesis
    using irq_reaches_handler [where s = "\<lparr>idt_entries = [], idt_ptr = (0, 0), idtr = None, irq_routines = replicate 16 0, ports = []\<rparr>"
        and n = 1 and h = "0x777" and regs = ?regs and run = "\<lambda>_ _ t. Some t" and f = "\<lambda>t. t" and c = remapped
        and idt_addr = "0x5000" and isr = of_nat and irq = "\<lambda>n. 0x100 + of_nat n" and dummy = "0x300"]
    by (auto simp: IRQ_QUANTITY_def)
qed

end
