(* ===== verification/Panic.thy ===== *)
theory Panic
  imports Descriptors VgaFormat
begin

text \<open>
  What the screen shows when the kernel halts: \<open>kernel_panic\<close> of
  \<open>src/kernel/arch/x86/interrupts/kernel_panic.cpp\<close>, without and with the registers of an
  interrupt, and the panic of an exception.  The result is the screen in front of the endless loop;
  the control registers are inputs.
\<close>

section \<open>Panics\<close>

definition kernel_panic :: "(u8 \<Rightarrow> u8) \<Rightarrow> string \<Rightarrow> vga \<Rightarrow> vga option" where
  "kernel_panic cmos error s =
     do {
       (_, s1) \<leftarrow> kprintf_color cmos RGB_COLOR_RED [newline_char, newline_char, newline_char] [] s;
       (_, s2) \<leftarrow> kprintf_type cmos LOG_ERROR (''%s'' @ [newline_char] @ ''Exception! system Halted'' @ [newline_char]) [ArgStr (Some error)] s1;
       Some s2 }"

fun std_prints :: "(u8 \<Rightarrow> u8) \<Rightarrow> (string \<times> va_arg list) list \<Rightarrow> vga \<Rightarrow> vga option" where
  "std_prints cmos [] s = Some s"
| "std_prints cmos ((fmt, args) # ps) s =
     do { (_, s1) \<leftarrow> kprintf_type cmos STD_PRINT fmt args s; std_prints cmos ps s1 }"

text \<open>The lines for the registers of the frame and for the control registers.\<close>

definition register_lines :: "InterruptRegisters \<Rightarrow> u32 \<times> u32 \<times> u32 \<Rightarrow> (string \<times> va_arg list) list" where
  "register_lines frame crs =
     (case crs of (cr0, cr3, cr4) \<Rightarrow>
       [(''DS: %x'' @ [newline_char], [Arg32 (r_ds frame)]), (''EDI: %x '', [Arg32 (r_edi frame)]), (''ESI: %x '', [Arg32 (r_esi frame)]),
        (''EBP: %x '', [Arg32 (r_ebp frame)]), (''ESP: %x'' @ [newline_char], [Arg32 (r_manual_esp frame)]),
        (''EBX: %x '', [Arg32 (r_ebx frame)]), (''EDX: %x '', [Arg32 (r_edx frame)]), (''ECX: %x '', [Arg32 (r_ecx frame)]),
        (''EAX: %x'' @ [newline_char], [Arg32 (r_eax frame)]), (''Interrupt Number: %x'' @ [newline_char], [Arg32 (r_interr_no frame)]),
        (''Error code: %x'' @ [newline_char], [Arg32 (r_err_code frame)]), (''EIP: %x'' @ [newline_char], [Arg32 (r_eip frame)]),
        (''CS: %x'' @ [newline_char], [Arg32 (r_cs frame)]), (''EFlags: %x'' @ [newline_char], [Arg32 (r_eflags frame)]),
        (''ESP (Only on privilege change): %x'' @ [newline_char], [Arg32 (r_esp frame)]),
        (''SS (Only on privilege change): %x'' @ [newline_char], [Arg32 (r_ss frame)]),
        (''CR0: %x'' @ [newline_char], [Arg32 cr0]), (''CR3: %x'' @ [newline_char], [Arg32 cr3]), (''CR4: %x'' @ [newline_char], [Arg32 cr4])])"

definition fault_words :: "u32 \<Rightarrow> string list" where
  "fault_words code =
     map snd (filter (\<lambda>(m, _). code AND m \<noteq> 0)
       [(0x1, '' PRESENT ''), (0x2, '' WRITE ''), (0x4, '' USER ''), (0x8, '' RESERVED_WRITE ''), (0x10, '' INSTRUCTION_FETCH '')])"

definition fault_lines :: "InterruptRegisters \<Rightarrow> (string \<times> va_arg list) list" where
  "fault_lines frame =
     (if r_interr_no frame = 14 then
        [(''CR2 (Page fault address): %x'' @ [newline_char], [Arg32 (r_cr2 frame)]), (''Details for Page fault (#PF): ['', [])]
        @ map (\<lambda>w. (w, [])) (fault_words (r_err_code frame)) @ [('']'' @ [newline_char], [])]
      else [])"

definition kernel_panic_frame :: "(u8 \<Rightarrow> u8) \<Rightarrow> u32 \<times> u32 \<times> u32 \<Rightarrow> string \<Rightarrow> InterruptRegisters \<Rightarrow> vga \<Rightarrow> vga option" where
  "kernel_panic_frame cmos crs error frame s =
     do {
       (_, s1) \<leftarrow> kprintf_color cmos RGB_COLOR_RED [newline_char, newline_char, newline_char] [] s;
       (_, s2) \<leftarrow> kprintf_type cmos LOG_ERROR (''%s'' @ [newline_char] @ ''Exception! System halted'' @ [newline_char]) [ArgStr (Some error)] s1;
       std_prints cmos (register_lines frame crs @ fault_lines frame) s2 }"

text \<open>An interrupt that is an exception: the screen it halts with.  Others return.\<close>

definition exception_screen :: "(u8 \<Rightarrow> u8) \<Rightarrow> u32 \<times> u32 \<times> u32 \<Rightarrow> InterruptRegisters \<Rightarrow> vga \<Rightarrow> vga option option" where
  "exception_screen cmos crs regs s =
     (case isr_handler regs of None \<Rightarrow> None | Some (error, frame) \<Rightarrow> Some (kernel_panic_frame cmos crs error frame s))"

end
