(* ===== verification/SelfTest.thy ===== *)
theory SelfTest
  imports HeapTest FrameAlloc Panic Multiboot
begin

text \<open>
  The tests the kernel runs while it starts (\<open>src/kernel/tests/heap_u_test.cpp\<close>,
  \<open>pmm_u_test.cpp\<close>), between the initialisation of the heap and that of paging.  A test that does
  not pass halts the kernel: the result is then the screen of the panic (\<open>Inl\<close>).
\<close>

section \<open>The tests\<close>

text \<open>The message of a check that failed.\<close>

definition complain :: "(u8 \<Rightarrow> u8) \<Rightarrow> bool \<Rightarrow> string \<Rightarrow> va_arg list \<Rightarrow> vga \<Rightarrow> vga option" where
  "complain cmos failed fmt args v =
     (if failed then map_option snd (kprintf_type cmos LOG_ERROR (fmt @ [newline_char]) args v) else Some v)"

text \<open>The end of a test: the panic, or the message that it passed.\<close>

definition log_line :: "(u8 \<Rightarrow> u8) \<Rightarrow> string \<Rightarrow> vga \<Rightarrow> vga option" where
  "log_line cmos msg v = map_option snd (kprintf_type cmos LOG_INFO (msg @ [newline_char]) [] v)"

definition verdict :: "(u8 \<Rightarrow> u8) \<Rightarrow> bool \<Rightarrow> string \<Rightarrow> string \<Rightarrow> 's \<Rightarrow> vga \<Rightarrow> (vga + 's \<times> vga) option" where
  "verdict cmos passed panic good s v =
     (if \<not> passed then map_option Inl (kernel_panic cmos panic v)
      else map_option (\<lambda>v'. Inr (s, v')) (log_line cmos good v))"

definition test_heap :: "nat \<Rightarrow> (u8 \<Rightarrow> u8) \<Rightarrow> heap \<Rightarrow> vga \<Rightarrow> (vga + heap \<times> vga) option" where
  "test_heap fuel cmos h v =
     do {
       let block_size = 40;
       (block1, h1) \<leftarrow> kmalloc h block_size;
       let bad1 = (block1 \<le> HEAP_START \<or> HEAP_START + HEAP_SIZE < block1);
       v1 \<leftarrow> complain cmos bad1 (''Heap Test 1 failed: couldn'' @ [CHR 0x27] @ ''t allocate block in heap!'') [] v;
       (block2, h2) \<leftarrow> kmalloc h1 block_size;
       let block2_addr = block2;
       let bad2 = (block2 \<noteq> block1 + block_size + 12);
       v2 \<leftarrow> complain cmos bad2 (''Heap Test 2 failed: couldn'' @ [CHR 0x27] @ ''t allocate block2 in heap!'') [] v1;
       h3 \<leftarrow> kfree fuel h2 block2;
       (block2, h4) \<leftarrow> kmalloc h3 block_size;
       let bad3 = (block2 \<noteq> block2_addr);
       v3 \<leftarrow> complain cmos bad3 (''Heap Test 3 failed: couldn'' @ [CHR 0x27] @ ''t free block2!'') [] v2;
       h5 \<leftarrow> kfree fuel h4 block1;
       h6 \<leftarrow> kfree fuel h5 block2;
       verdict cmos (\<not> bad1 \<and> \<not> bad2 \<and> \<not> bad3) ''Heap failed!'' ''Kernel heap memory manager test passed'' h6 v3 }"

definition test_pmm :: "nat \<Rightarrow> (u8 \<Rightarrow> u8) \<Rightarrow> mm \<Rightarrow> vga \<Rightarrow> (vga + mm \<times> vga) option" where
  "test_pmm d cmos s v =
     do {
       (block1, s1) \<leftarrow> alloc_frame d 1 True s;
       let bad1 = (block1 \<le> METADATA_ADDR);
       v1 \<leftarrow> complain cmos bad1 (''PMM Test 1 failed: couldn'' @ [CHR 0x27] @ ''t allocate frame!'') [] v;
       (block2, s2) \<leftarrow> alloc_frame d 1 True s1;
       let block2_addr = block2;
       let bad2 = (block2 \<noteq> block1 + ucast FRAME_SIZE);
       v2 \<leftarrow> complain cmos bad2 (''PMM Test 2 failed: couldn'' @ [CHR 0x27] @ ''t allocate block2! %x'') [Arg32 block2] v1;
       s3 \<leftarrow> free_frame block2 s2;
       (block2, s4) \<leftarrow> alloc_frame d 2 True s3;
       let bad3 = (block2 \<noteq> block2_addr);
       v3 \<leftarrow> complain cmos bad3 (''PMM Test 3 failed: couldn'' @ [CHR 0x27] @ ''t free block2! %x isn'' @ [CHR 0x27] @ ''t %x'')
         [Arg32 block2, Arg32 block2_addr] v2;
       s5 \<leftarrow> free_frame block1 s4;
       s6 \<leftarrow> free_frame block2 s5;
       verdict cmos (\<not> bad1 \<and> \<not> bad2 \<and> \<not> bad3) ''PMM failed!'' ''Physical memory manager test passed'' s6 v3 }"

text \<open>
  \<open>kernel_main\<close> from \<open>heap::init\<close> to \<open>test_pmm\<close>, with the lines the two initialisations print and the
  clearing of the memory that frames are taken from.  \<open>m\<close> is the memory of the machine, in which the
  boot information lies at \<open>info\<close>; the state of the frames is a view of it of its own.
\<close>

definition start_memory ::
  "nat \<Rightarrow> nat \<Rightarrow> (u8 \<Rightarrow> u8) \<Rightarrow> u32 \<Rightarrow> bool \<Rightarrow> u64 \<Rightarrow> mem \<Rightarrow> mm \<Rightarrow> vga \<Rightarrow> (vga + (heap \<times> mm) \<times> vga) option" where
  "start_memory fuel d cmos info pae kernel_base m s v =
     do {
       let h = heap_init m;
       v1 \<leftarrow> log_line cmos ''Implemented kernel heap memory manager'' v;
       r \<leftarrow> test_heap fuel cmos h v1;
       case r of
         Inl halted \<Rightarrow> Some (Inl halted)
       | Inr (h1, v2) \<Rightarrow> do {
           s1 \<leftarrow> pmm_boot (hmem h1) info pae kernel_base s;
           let head = pm_nodes s1 (low_alloc_mem_head s1);
           let h2 = h1\<lparr>hmem := memset (hmem h1) (ucast (m_addr head)) 0 (ucast (m_size head))\<rparr>;
           v3 \<leftarrow> log_line cmos ''Implemented physical memory manager'' v2;
           r2 \<leftarrow> test_pmm d cmos s1 v3;
           case r2 of Inl halted \<Rightarrow> Some (Inl halted) | Inr (s2, v4) \<Rightarrow> Some (Inr ((h2, s2), v4)) } }"

section \<open>What the tests do\<close>

lemma test_heap_run:
  assumes "5 \<le> fuel"
  shows "test_heap fuel cmos (heap_init m) v = verdict cmos True ''Heap failed!'' ''Kernel heap memory manager test passed''
    (boot_heap (th6 (memset m HEAP_START 0 HEAP_SIZE))) v"
proof -
  let ?z = "memset m HEAP_START 0 HEAP_SIZE"
  have s6: "kfree fuel (boot_heap (th5 ?z)) 0x200040 = Some (boot_heap (th6 ?z))"
    by (rule th_step6 [where z = ?z, OF assms cleared_byte])
  show ?thesis
    unfolding heap_init_is_boot
    by (simp add: test_heap_def complain_def th_step1 th_step2 th_step3 [OF assms] th_step4 th_step5 [OF assms]
        s6 [unfolded HEAP_START_def HEAP_SIZE_def] HEAP_START_def HEAP_SIZE_def)
qed

text \<open>The list of frames in the steps of the test, from one free block of \<open>z\<close> bytes at \<open>lo\<close>.\<close>

abbreviation (input) lo :: u64 where "lo \<equiv> 0x1F00000"

definition pt0 :: "u64 \<Rightarrow> pblk list" where "pt0 z = [(METADATA_ADDR, lo, z, True)]"
definition pt1 :: "u64 \<Rightarrow> pblk list" where
  "pt1 z = [(METADATA_ADDR, lo, 4096, False), (METADATA_ADDR + 25, lo + 4096, z - 4096, True)]"
definition pt2 :: "u64 \<Rightarrow> pblk list" where
  "pt2 z = [(METADATA_ADDR, lo, 4096, False), (METADATA_ADDR + 25, lo + 4096, 4096, False), (METADATA_ADDR + 50, lo + 8192, z - 8192, True)]"
definition pt3 :: "u64 \<Rightarrow> pblk list" where
  "pt3 z = (METADATA_ADDR, lo, 4096, False) # (METADATA_ADDR + 25, lo + 4096, 8192, False)
     # (if 8192 < z - 4096 then [(METADATA_ADDR + 50, lo + 4096 + 8192, z - 4096 - 8192, True)] else [])"

lemmas pt_defs = pt0_def pt1_def pt2_def pt3_def METADATA_ADDR_def

lemma pt_sizes:
  assumes "12288 \<le> (z :: u64)"
  shows "4096 < z" "4096 < z - 4096" "8192 \<le> z - 4096" "4096 \<le> z" "4096 \<le> z - 4096" "z - 4096 - 4096 = z - 8192"
    "4096 + (z - 8192) = z - 4096" "4096 + (z - 4096) = z"
proof -
  have u: "12288 \<le> unat z" using assms by (simp add: word_le_nat_alt)
  have s: "unat (z - 4096) = unat z - 4096" using u by (subst unat_sub) (simp_all add: word_le_nat_alt)
  show "4096 < z" "4096 < z - 4096" "8192 \<le> z - 4096" "4096 \<le> z" "4096 \<le> z - 4096"
    using u s by (simp_all add: word_le_nat_alt word_less_nat_alt)
  show "z - 4096 - 4096 = z - 8192" "4096 + (z - 8192) = z - 4096" "4096 + (z - 4096) = z" by simp_all
qed

lemma pt_fits:
  assumes "12288 \<le> z"
  shows "pfit 4096 (pt0 z) = Some (METADATA_ADDR, lo, pt1 z)" "pfit 4096 (pt1 z) = Some (METADATA_ADDR + 25, lo + 4096, pt2 z)"
    "pfit 8192 (pt1 z) = Some (METADATA_ADDR + 25, lo + 4096, pt3 z)"
    "safe_fit 4096 (pt0 z)" "safe_fit 4096 (pt1 z)" "safe_fit 8192 (pt1 z)"
  using pt_sizes [OF assms] by (simp_all add: pt_defs)

lemma mark_slots [simp]:
  "mark n [] = []" "mark n ((m, a, z, f) # bs) = (m, a, z, m = n \<or> f) # mark n bs"
  by (simp_all add: mark_def)

lemma pt_merges:
  assumes "12288 \<le> z"
  shows "merge_fix (mark (METADATA_ADDR + 25) (pt2 z)) = pt1 z"
    "merge_fix (mark METADATA_ADDR (pt3 z)) = mark METADATA_ADDR (pt3 z)"
    "merge_fix (mark (METADATA_ADDR + 25) (mark METADATA_ADDR (pt3 z))) = pt0 z"
proof -
  show "merge_fix (mark (METADATA_ADDR + 25) (pt2 z)) = pt1 z"
    by (simp add: pt_defs merge_fix.simps)
  show "merge_fix (mark METADATA_ADDR (pt3 z)) = mark METADATA_ADDR (pt3 z)"
    by (simp add: pt_defs merge_fix.simps)
  show "merge_fix (mark (METADATA_ADDR + 25) (mark METADATA_ADDR (pt3 z))) = pt0 z"
  proof (cases "8192 < z - 4096")
    case True
    then show ?thesis by (simp add: pt_defs merge_fix.simps)
  next
    case False
    then have "z = 12288" using pt_sizes(3) [OF assms] by (simp add: not_less)
    then show ?thesis by (simp add: pt_defs merge_fix.simps)
  qed
qed

lemma lo_frames: "align_up 0x1F00000 PAGE_SIZE = 0x1F00000" "align_up 0x1F01000 PAGE_SIZE = 0x1F01000"
  by (simp_all add: align_up_def PAGE_SIZE_def)

lemma test_pmm_run:
  assumes "pmm_inv s lo (pt0 z)" and "\<not> enabled_paging s" and "12288 \<le> z"
  shows "\<exists>s'. (\<forall>v. test_pmm d cmos s v = verdict cmos True ''PMM failed!'' ''Physical memory manager test passed'' s' v)
    \<and> pmm_inv s' lo (pt0 z) \<and> \<not> enabled_paging s'"
proof -
  note fits = pt_fits [OF assms(3)] and merges = pt_merges [OF assms(3)]
  have ok: "distinct (slots (pt1 z))" "distinct (slots (pt2 z))" "distinct (slots (pt3 z))"
    "0 \<notin> set (slots (pt1 z))" "0 \<notin> set (slots (pt2 z))" "0 \<notin> set (slots (pt3 z))"
    by (simp_all add: pt_defs)
  obtain s1 where s1: "alloc_frame d 1 True s = Some (0x1F00000, s1)" "pmm_inv s1 lo (pt1 z)" "\<not> enabled_paging s1"
    using alloc_frame_fit [OF assms(1,2) _ _ _ fits(1,4) ok(1,4), of 1 d True] by (auto simp: FRAME_SIZE_def lo_frames)
  obtain s2 where s2: "alloc_frame d 1 True s1 = Some (0x1F01000, s2)" "pmm_inv s2 lo (pt2 z)" "\<not> enabled_paging s2"
    using alloc_frame_fit [OF s1(2,3) _ _ _ fits(2,5) ok(2,5), of 1 d True] by (auto simp: FRAME_SIZE_def lo_frames)
  obtain s3 where s3: "free_frame 0x1F01000 s2 = Some s3" "pmm_inv s3 lo (pt1 z)" "\<not> enabled_paging s3"
    using free_frame_run [OF s2(2,3), of "METADATA_ADDR + 25" "0x1F01000" 4096] merges(1) by (auto simp: pt2_def)
  obtain s4 where s4: "alloc_frame d 2 True s3 = Some (0x1F01000, s4)" "pmm_inv s4 lo (pt3 z)" "\<not> enabled_paging s4"
    using alloc_frame_fit [OF s3(2,3) _ _ _ fits(3,6) ok(3,6), of 2 d True] by (auto simp: FRAME_SIZE_def lo_frames)
  obtain s5 where s5: "free_frame 0x1F00000 s4 = Some s5" "pmm_inv s5 lo (mark METADATA_ADDR (pt3 z))" "\<not> enabled_paging s5"
    using free_frame_run [OF s4(2,3), of METADATA_ADDR "0x1F00000" 4096] merges(2) by (auto simp: pt3_def)
  obtain s6 where s6: "free_frame 0x1F01000 s5 = Some s6" "pmm_inv s6 lo (pt0 z)" "\<not> enabled_paging s6"
    using free_frame_run [OF s5(2,3), of "METADATA_ADDR + 25" "0x1F01000" 8192] merges(3) by (auto simp: pt3_def METADATA_ADDR_def)
  show ?thesis
    using s6(2,3) by (intro exI [of _ s6]) (simp add: test_pmm_def complain_def s1(1) s2(1) s3(1) s4(1) s5(1) s6(1) METADATA_ADDR_def FRAME_SIZE_def)
qed

section \<open>The lines of the log\<close>

definition clock_text :: "(u8 \<Rightarrow> u8) \<Rightarrow> string" where
  "clock_text cmos = nat_text 10 (unat (get_hour cmos)) @ '':'' @ nat_text 10 (unat (get_minute cmos)) @ '':'' @ nat_text 10 (unat (get_second cmos))"

definition log_text :: "(u8 \<Rightarrow> u8) \<Rightarrow> string \<Rightarrow> string" where
  "log_text cmos msg = ''[INFO '' @ clock_text cmos @ '']: '' @ msg @ [newline_char]"

definition plain_msg :: "string \<Rightarrow> bool" where
  "plain_msg msg \<longleftrightarrow> (\<forall>c \<in> set msg. printable c \<and> c \<noteq> CHR ''%'')"

abbreviation (input) in_default :: "string \<Rightarrow> (char \<times> u32) list" where
  "in_default s \<equiv> map (\<lambda>c. (c, default_rgb_color)) s"

lemma printable_text_not_nul: "\<forall>c \<in> set cs. printable c \<Longrightarrow> NUL \<notin> set cs"
proof
  have "\<not> printable NUL" by (simp add: printable_def)
  then show "\<forall>c \<in> set cs. printable c \<Longrightarrow> NUL \<in> set cs \<Longrightarrow> False" by blast
qed

lemma get_time_text: "get_time cmos = Some (clock_text cmos)"
proof -
  have n: "cstr (nat_text 10 n) = nat_text 10 n" "NUL \<notin> set (nat_text 10 n)" for n
    using printable_text_not_nul [OF nat_text_printable [of 10 n]] by simp_all
  show ?thesis by (simp add: get_time_def clock_text_def strcat_def num_text n)
qed

lemma render_plain: "render color (map Plain cs) = map (\<lambda>c. (c, color)) cs"
  by (induction cs) simp_all

lemma spell_plain: "concat (map spell (map Plain cs)) = cs" "concat (map piece_args (map Plain cs)) = []"
  by (induction cs) simp_all

lemma plain_parts: "plain_msg ''[INFO ''" "plain_msg '']: ''" "printable (CHR '':'')"
  by (simp_all add: plain_msg_def printable_def)

lemma plain_pieces:
  assumes "plain_msg msg"
  shows "\<forall>p \<in> set (map Plain msg). piece_ok p"
proof -
  have "NUL \<notin> set msg" using assms by (intro printable_text_not_nul) (simp add: plain_msg_def)
  then show ?thesis using assms unfolding plain_msg_def by auto
qed

lemma clock_text_printable: "\<forall>c \<in> set (clock_text cmos). printable c"
  using nat_text_printable [of 10] plain_parts(3) unfolding clock_text_def by auto

lemma log_line_shows:
  assumes "console_shows v t" and "vga_mode v = FRAMEBUFFER" and "\<not> can_update_cursor v" and "plain_msg msg"
  shows "\<exists>v'. log_line cmos msg v = Some v' \<and> same_console v v' \<and> console_shows v' (term_text v (in_default (log_text cmos msg)) t)"
proof -
  define time where "time = clock_text cmos"
  note pt = clock_text_printable [of cmos, folded time_def]
  let ?stamp = "map Plain ''[INFO '' @ [CString time] @ map Plain '']: ''"
  let ?msg = "map Plain (msg @ [newline_char])"
  have nl: "newline_char \<noteq> CHR ''%''" "newline_char \<noteq> NUL" by (simp_all add: newline_char_def char_of_def)
  have ok: "\<forall>p \<in> set ?stamp. piece_ok p" "\<forall>p \<in> set ?msg. piece_ok p"
    using plain_pieces [OF plain_parts(1)] plain_pieces [OF plain_parts(2)] plain_pieces [OF assms(4)] printable_text_not_nul [OF pt] nl
    unfolding map_append set_append by (simp_all only: ball_Un) simp_all
  have sh: "\<forall>c \<in> set (log_text cmos msg). shown c"
    using pt assms(4) plain_parts(1,2) unfolding log_text_def time_def plain_msg_def shown_def by auto
  have whole: "log_text cmos msg = (''[INFO '' @ time @ '']: '') @ msg @ [newline_char]" by (simp add: log_text_def time_def)
  obtain v' where v': "put_text (in_default (log_text cmos msg)) v = Some v'" "same_console v v'"
      "console_shows v' (term_text v (in_default (log_text cmos msg)) t)"
    using put_text_console [OF assms(1), of "in_default (log_text cmos msg)"] sh by auto
  have r: "in_default (log_text cmos msg) = render default_rgb_color ?stamp @ render default_rgb_color ?msg"
    unfolding render_plain whole by simp
  obtain v1 where v1: "put_text (render default_rgb_color ?stamp) v = Some v1" "put_text (render default_rgb_color ?msg) v1 = Some v'"
    using v'(1) unfolding r put_text_append by (auto split: Option.bind_splits)
  have k: "kv_loop default_rgb_color ''[INFO %s]: '' [ArgStr (Some time)] v = Some v1" "kv_loop default_rgb_color (msg @ [newline_char]) [] v1 = Some v'"
    using kv_pieces [OF ok(1), of default_rgb_color v] kv_pieces [OF ok(2), of default_rgb_color v1] v1 by (simp_all only: spell_plain) simp_all
  have "set (render default_rgb_color ?stamp) \<subseteq> set (in_default (log_text cmos msg))" unfolding r by auto
  then have "\<forall>cv \<in> set (render default_rgb_color ?stamp). shown (fst cv)" using sh by auto
  then have sc: "same_console v v1" using put_text_console [OF assms(1), of "render default_rgb_color ?stamp"] v1(1) by auto
  have f: "vga_mode v1 = FRAMEBUFFER" "\<not> can_update_cursor v1" "\<not> can_update_cursor v'"
    using same_console_mode [OF sc] same_console_fields(9) [OF sc] same_console_fields(9) [OF v'(2)] assms(2,3) by simp_all
  show ?thesis
    using k v'(2,3) assms(2,3) f get_time_text [of cmos]
    by (simp add: log_line_def kprintf_type_def kvprintf_def kv_print_def log_prefix_def time_def del: kv_loop.simps)
qed

lemma term_text_append: "term_text v (xs @ ys) t = term_text v ys (term_text v xs t)"
  by (simp add: term_text_def)

lemma term_text_same: "same_console v v' \<Longrightarrow> term_text v' = term_text v"
  using same_console_fields(2,3) [of v v'] by (simp add: term_text_def fun_eq_iff)

text \<open>Several lines, one after the other.\<close>

fun log_lines :: "(u8 \<Rightarrow> u8) \<Rightarrow> string list \<Rightarrow> vga \<Rightarrow> vga option" where
  "log_lines cmos [] v = Some v"
| "log_lines cmos (msg # msgs) v = do { v1 \<leftarrow> log_line cmos msg v; log_lines cmos msgs v1 }"

lemma log_lines_show:
  assumes "console_shows v t" and "vga_mode v = FRAMEBUFFER" and "\<not> can_update_cursor v" and "\<forall>msg \<in> set msgs. plain_msg msg"
  shows "\<exists>v'. log_lines cmos msgs v = Some v' \<and> console_shows v' (term_text v (in_default (concat (map (log_text cmos) msgs))) t)"
  using assms
proof (induction msgs arbitrary: v t)
  case Nil
  then show ?case by (simp add: term_text_def)
next
  case (Cons msg msgs)
  obtain v1 where v1: "log_line cmos msg v = Some v1" "same_console v v1"
      "console_shows v1 (term_text v (in_default (log_text cmos msg)) t)"
    using log_line_shows [OF Cons.prems(1-3), of msg cmos] Cons.prems(4) by auto
  have "vga_mode v1 = FRAMEBUFFER" "\<not> can_update_cursor v1"
    using same_console_mode [OF v1(2)] same_console_fields(9) [OF v1(2)] Cons.prems(2,3) by simp_all
  then show ?case
    using Cons.IH [OF v1(3)] Cons.prems(4) v1(1) term_text_same [OF v1(2)] by (simp add: term_text_append)
qed

section \<open>Starting the memory managers\<close>

text \<open>The entries of the memory map, of which exactly one is the memory the kernel lies in.\<close>

definition kernel_ram :: "u64 \<Rightarrow> mmap_entry \<Rightarrow> bool" where
  "kernel_ram base e \<longleftrightarrow> e_type e = MULTIBOOT_MEMORY_AVAILABLE \<and> e_addr e = base"

lemma manage_entries_other:
  assumes "filter (kernel_ram base) es = []"
  shows "low_alloc_mem_head (foldl (manage_entry False base) s es) = low_alloc_mem_head s"
    "pm_nodes (foldl (manage_entry False base) s es) = pm_nodes s"
    "total_used_ram (foldl (manage_entry False base) s es) = total_used_ram s"
    "enabled_paging (foldl (manage_entry False base) s es) = enabled_paging (s :: mm)"
  using assms by (induction es arbitrary: s) (auto simp: manage_entry_def kernel_ram_def Let_def split: if_splits)

lemma pmm_init_frames:
  fixes s :: mm
  assumes "filter (kernel_ram base) es = [e]" and "total_used_ram s = 0"
    and "unat (e_addr e) + unat (e_len e) \<le> 2 ^ 32" and "0x1F03000 \<le> unat (e_addr e) + unat (e_len e)"
  shows "\<exists>s1. pmm_init False base es s = Some s1 \<and> pmm_inv s1 lo (pt0 (e_addr e + e_len e - lo))
    \<and> enabled_paging s1 = enabled_paging s"
proof -
  obtain us vs where es: "es = us @ e # vs" "\<forall>u \<in> set us. \<not> kernel_ram base u" "kernel_ram base e" "filter (kernel_ram base) vs = []"
    using filter_eq_Cons_iff [of "kernel_ram base" es e "[]"] assms(1) by auto
  have us: "filter (kernel_ram base) us = []" using es(2) by simp
  let ?s1 = "manage_entry False base (foldl (manage_entry False base) s us) e"
  have e: "low_alloc_mem_head ?s1 = METADATA_ADDR" "total_used_ram ?s1 = 0" "enabled_paging ?s1 = enabled_paging s"
    "pm_nodes ?s1 METADATA_ADDR = \<lparr>m_addr = 0, m_size = e_addr e + e_len e, m_free = True, m_next = 0, m_prev = 0\<rparr>"
    using es(3) manage_entries_other [OF us, of s] assms(2) by (simp_all add: manage_entry_def kernel_ram_def Let_def)
  let ?s2 = "foldl (manage_entry False base) s es"
  have f: "low_alloc_mem_head ?s2 = METADATA_ADDR" "total_used_ram ?s2 = 0" "enabled_paging ?s2 = enabled_paging s"
    "pm_nodes ?s2 METADATA_ADDR = \<lparr>m_addr = 0, m_size = e_addr e + e_len e, m_free = True, m_next = 0, m_prev = 0\<rparr>"
    using e manage_entries_other [OF es(4), of ?s1] by (simp_all add: es(1))
  have low: "LOW_DATA_START_ADDR (manage_mmap False base es s) = lo"
    by (simp add: manage_mmap_def Let_def align_up_def METADATA_ADDR_def PAGE_SIZE_def FRAME_SIZE_def)
  have sz: "unat (e_addr e + e_len e) = unat (e_addr e) + unat (e_len e)"
    using assms(3) by (intro unat_add_no_wrap) simp
  then have sz2: "unat (e_addr e + e_len e - lo) = unat (e_addr e) + unat (e_len e) - 0x1F00000"
    using assms(4) by (subst unat_sub) (simp_all add: word_le_nat_alt)
  have pos: "0 < e_addr e + e_len e - lo" using sz2 assms(4) by (simp add: word_less_nat_alt)
  show ?thesis
    using f low sz2 pos assms(3,4)
    by (auto simp: pmm_init_def manage_mmap_def Let_def pmm_inv_def pt0_def span_def METADATA_ADDR_def)
qed

text \<open>The boot information is found again after the test of the heap when it lies outside the heap.\<close>

lemma heap_inv_cong:
  assumes "heap_inv h [(a, n, f)]" and "\<And>x. in_rg x a 12 \<Longrightarrow> m' x = hmem h x"
  shows "heap_inv (h\<lparr>hmem := m'\<rparr>) [(a, n, f)]"
proof -
  have "chain m' (heap_head h) [(a, n, f)] = chain (hmem h) (heap_head h) [(a, n, f)]"
    by (rule chain_cong) (use assms(2) in auto)
  then show ?thesis using assms(1) by (simp add: heap_inv_def)
qed

lemma holds_cong:
  assumes "holds m a bs" and "\<forall>i < length bs. m' (a + of_nat i) = m (a + of_nat i)"
  shows "holds m' a bs"
  using assms by (simp add: holds_def)

text \<open>
  C3: the memory managers start.  When the boot information lies outside the heap and its memory
  map has exactly one available entry at the base of the kernel, which ends between 0x1F03000 and
  4 GiB, the tests of the kernel pass, whatever memory held before: nothing halts, the heap is one
  free block again, the list of frames is one free block from 0x1F00000 to the end of the entry with
  nothing in use, and the console shows exactly the four lines of the log.
\<close>

theorem memory_managers_start:
  assumes "holds m info (info_bytes ts)" and "unat info + length (info_bytes ts) < 2 ^ 32"
    and "\<forall>t \<in> set ts. fst t \<noteq> MULTIBOOT_TAG_TYPE_END" and "map_of ts MULTIBOOT_TAG_TYPE_MMAP = Some (mmap_payload es)"
    and "\<forall>i < length (info_bytes ts). \<not> in_rg (info + of_nat i) HEAP_START (unat HEAP_SIZE)"
    and "filter (kernel_ram base) es = [e]"
    and "0x1F03000 \<le> unat (e_addr e) + unat (e_len e)" and "unat (e_addr e) + unat (e_len e) \<le> 2 ^ 32"
    and "total_used_ram s = 0" and "\<not> enabled_paging s" and "5 \<le> fuel"
    and "console_shows v t" and "vga_mode v = FRAMEBUFFER" and "\<not> can_update_cursor v"
  shows "\<exists>h s' v'. start_memory fuel d cmos info False base m s v = Some (Inr ((h, s'), v'))
    \<and> heap_inv h [(HEAP_START, HEAP_SIZE - 12, True)]
    \<and> pmm_inv s' 0x1F00000 [(METADATA_ADDR, 0x1F00000, e_addr e + e_len e - 0x1F00000, True)] \<and> total_used_ram s' = 0
    \<and> console_shows v' (term_text v (map (\<lambda>c. (c, default_rgb_color)) (concat (map (log_text cmos)
        [''Implemented kernel heap memory manager'', ''Kernel heap memory manager test passed'',
         ''Implemented physical memory manager'', ''Physical memory manager test passed''])) ) t)"
proof -
  let ?Z = "memset m HEAP_START 0 HEAP_SIZE"
  define z where "z = e_addr e + e_len e - lo"
  have sz: "unat (e_addr e + e_len e) = unat (e_addr e) + unat (e_len e)"
    using assms(8) by (intro unat_add_no_wrap) simp
  then have uz: "unat z = unat (e_addr e) + unat (e_len e) - 0x1F00000"
    using assms(7) unfolding z_def by (subst unat_sub) (simp_all add: word_le_nat_alt)
  then have z: "12288 \<le> z" using assms(7) by (simp add: word_le_nat_alt)
  let ?h = "boot_heap (th6 ?Z)"
  have "holds (th6 ?Z) info (info_bytes ts)"
  proof (rule holds_cong [OF assms(1)], intro allI impI)
    fix i assume "i < length (info_bytes ts)"
    then show "th6 ?Z (info + of_nat i) = m (info + of_nat i)" using assms(5) th6_outside by blast
  qed
  then have boot: "pmm_boot (th6 ?Z) info False base s = pmm_init False base es s"
    using memory_map_is_read [OF _ assms(2-4)] by blast
  obtain s1 where s1: "pmm_init False base es s = Some s1" "pmm_inv s1 lo (pt0 z)" "\<not> enabled_paging s1"
    using pmm_init_frames [OF assms(6,9,8,7)] assms(10) unfolding z_def by blast
  have nodes: "m_addr (pm_nodes s1 (low_alloc_mem_head s1)) = lo" "m_size (pm_nodes s1 (low_alloc_mem_head s1)) = z"
    using s1(2) by (auto simp: pmm_inv_def pt0_def)
  let ?h2 = "?h\<lparr>hmem := memset (th6 ?Z) (ucast lo) 0 (ucast z)\<rparr>"
  have h2: "heap_inv ?h2 [(HEAP_START, HEAP_SIZE - 12, True)]"
  proof (rule heap_inv_cong [OF th6_inv [of ?Z], unfolded heap.select_convs])
    have zl: "unat z < 2 ^ 32" using uz assms(8) by simp
    then have uc: "unat (ucast z :: u32) = unat z" by (simp add: unsigned_ucast_eq take_bit_nat_eq_self)
    fix x assume "in_rg x HEAP_START 12"
    then have "unat x < 0x1F00000" by (subst (asm) in_rg_linear) (simp_all add: HEAP_START_def)
    moreover have "in_rg x (0x1F00000 :: u32) (unat z) \<longleftrightarrow> 0x1F00000 \<le> unat x \<and> unat x < 0x1F00000 + unat z"
      using uz assms(7,8) by (subst in_rg_linear) simp_all
    ultimately show "memset (th6 ?Z) (ucast lo) 0 (ucast z) x = th6 ?Z x" by (simp add: memset_eq uc)
  qed
  obtain s2 where s2: "\<And>w. test_pmm d cmos s1 w = verdict cmos True ''PMM failed!'' ''Physical memory manager test passed'' s2 w"
      "pmm_inv s2 lo (pt0 z)"
    using test_pmm_run [OF s1(2,3) z, of d cmos] by blast
  let ?msgs = "[''Implemented kernel heap memory manager'', ''Kernel heap memory manager test passed'',
     ''Implemented physical memory manager'', ''Physical memory manager test passed'']"
  have p: "\<forall>msg \<in> set ?msgs. plain_msg msg" by (simp add: plain_msg_def printable_def)
  obtain v' where v': "log_lines cmos ?msgs v = Some v'" "console_shows v' (term_text v (in_default (concat (map (log_text cmos) ?msgs))) t)"
    using log_lines_show [OF assms(12-14) p] by blast
  have "start_memory fuel d cmos info False base m s v = Some (Inr ((?h2, s2), v'))"
    using v'(1) nodes
    by (auto simp: start_memory_def Let_def test_heap_run [OF assms(11)] verdict_def boot s1(1) s2(1) split: Option.bind_splits)
  moreover have "total_used_ram s2 = 0" using s2(2) by (simp add: pmm_inv_def pt0_def)
  ultimately show ?thesis using h2 s2(2) v'(2) unfolding z_def pt0_def by blast
qed

theorem memory_managers_start_witness:
  "\<exists>h s' v'. start_memory 5 0 demo_cmos 0x10000 False 0x100000 (mem_with 0x10000 (info_bytes demo_tags)) demo_frames (clear_screen demo_screen)
      = Some (Inr ((h, s'), v'))
    \<and> heap_inv h [(HEAP_START, HEAP_SIZE - 12, True)] \<and> pmm_inv s' 0x1F00000 [(METADATA_ADDR, 0x1F00000, 0x60E0000, True)]"
proof -
  let ?e = "\<lparr>e_addr = 0x100000, e_len = 0x7EE0000, e_type = 1\<rparr> :: mmap_entry"
  have l: "length (info_bytes demo_tags) = 96"
    by (simp add: info_bytes_def Let_def length_tag_bytes demo_tags_def mmap_payload_def demo_entries_def)
  have out: "\<forall>i < length (info_bytes demo_tags). \<not> in_rg (0x10000 + of_nat i) HEAP_START (unat HEAP_SIZE)"
  proof (intro allI impI)
    fix i assume "i < length (info_bytes demo_tags)"
    then have "unat (0x10000 + of_nat i :: u32) = 0x10000 + i" by (subst unat_add_no_wrap) (simp_all add: unat_of_nat_u32 l)
    then show "\<not> in_rg (0x10000 + of_nat i) HEAP_START (unat HEAP_SIZE)" using \<open>i < _\<close> l by (simp add: heap_rg)
  qed
  have map: "map_of demo_tags MULTIBOOT_TAG_TYPE_MMAP = Some (mmap_payload demo_entries)"
    by (simp add: demo_tags_def MULTIBOOT_TAG_TYPE_CMDLINE_def MULTIBOOT_TAG_TYPE_MMAP_def)
  have ram: "filter (kernel_ram 0x100000) demo_entries = [?e]"
    by (simp add: demo_entries_def kernel_ram_def MULTIBOOT_MEMORY_AVAILABLE_def)
  have fresh: "total_used_ram demo_frames = 0" "\<not> enabled_paging demo_frames" by (simp_all add: demo_frames_def demo_mm_def)
  note cl = clear_screen_console [OF demo_console]
  have sc: "vga_mode (clear_screen demo_screen) = FRAMEBUFFER" "\<not> can_update_cursor (clear_screen demo_screen)"
    using same_console_fields(9) [OF cl(1)] same_console_mode [OF cl(1)] by (simp_all add: demo_screen_def)
  have size: "0x1F03000 \<le> unat (e_addr ?e) + unat (e_len ?e)" "unat (e_addr ?e) + unat (e_len ?e) \<le> 2 ^ 32" by simp_all
  show ?thesis
    using memory_managers_start [OF demo_info map out ram size fresh, of 5 "clear_screen demo_screen" "[[]]" 0 demo_cmos, OF _ cl(2) sc]
    by auto
qed

end
