(* ===== verification/Spec2Isabelle.thy ===== *)
theory Spec2Isabelle
  imports MathUtil StringUtil HeapRun DataQueue Scheduler FrameAlloc Paging Keyboard Clock Ata Ext2Store Ext2Grow Ext2Mount Pci VgaFormat Ahci Shell SelfTest
begin

text \<open>
  Verification development of MioOS, a 32-bit x86 kernel written in C++.
\<close>

end
